(* ===== verification/Prelude.thy ===== *)
theory Prelude
  imports Main "HOL-Library.Word" "HOL-Library.Monad_Syntax"
begin

unbundle bit_operations_syntax

section \<open>Shared vocabulary of the development\<close>

text \<open>
  This theory holds what every component uses: the names of Go's fixed-width integers, the
  collections of rewrite rules, the value of a vector of machine words, Go's big-endian byte
  encoding (\<^verbatim>\<open>encoding/binary\<close>), and modular arithmetic on natural numbers.

  Conventions. A Go \<^verbatim>\<open>uint64\<close> (and \<^verbatim>\<open>uint\<close> on a 64-bit platform) is a
  \<open>64 word\<close>. A function of the source that may panic returns an \<open>option\<close>, where \<open>None\<close> is the
  panic; a function of the source that returns an \<^verbatim>\<open>error\<close> returns a sum, \<open>Inl\<close> for
  the error. Slices and arrays are lists.
\<close>

type_synonym u64 = "64 word"
type_synonym u32 = "32 word"
type_synonym u8 = "8 word"
type_synonym bytes = "8 word list"

named_theorems word_nat \<comment> \<open>values of word operations as natural numbers\<close>
named_theorems bnum_simps \<comment> \<open>values of word vectors\<close>
named_theorems codec \<comment> \<open>byte encodings and their inverses\<close>

subsection \<open>Digits of natural numbers\<close>

lemma div_add_mult: "(r::nat) < B \<Longrightarrow> (r + B * k) div B = k"
  by simp

lemma mod_add_mult: "(r::nat) < B \<Longrightarrow> (r + B * k) mod B = r"
  by simp

lemma scale_div_mod:
  fixes a :: nat
  shows "a * (b * (n div b)) + a * (n mod b) = a * n"
    and "a * (n mod b) + a * b * (n div b) = a * n"
    and "a * (n mod b) + b * a * (n div b) = a * n"
proof -
  show "a * (b * (n div b)) + a * (n mod b) = a * n"
    by (simp only: distrib_left [symmetric] mult_div_mod_eq)
  then show "a * (n mod b) + a * b * (n div b) = a * n" "a * (n mod b) + b * a * (n div b) = a * n"
    by (simp_all add: ac_simps)
qed

lemma two_digits_lt: "(x::nat) < b \<Longrightarrow> y < c \<Longrightarrow> b * y + x < b * c"
proof -
  assume a: "x < b" "y < c"
  have "b * y + x < b * (y + 1)" using a by simp
  also have "\<dots> \<le> b * c" using a by (intro mult_le_mono2) simp
  finally show ?thesis .
qed

subsection \<open>The value of a 64-bit word\<close>

lemma unat_lt_B: "unat (x :: u64) < 18446744073709551616"
  using unsigned_less [of x] by simp

lemma unat_lt_pow64: "unat (x :: u64) < 2 ^ 64"
  using unsigned_less [of x] by simp

lemma unat_le_M: "unat (x :: u64) \<le> 18446744073709551615"
  using unat_lt_B [of x] by linarith

lemma unat_add64 [word_nat]: "unat (x + y :: u64) = (unat x + unat y) mod 2 ^ 64"
  by (simp add: unat_word_ariths)

lemma unat_mult64 [word_nat]: "unat (x * y :: u64) = (unat x * unat y) mod 2 ^ 64"
  by (simp add: unat_word_ariths)

lemma unat_sub64 [word_nat]:
  "unat (x - y :: u64) = (if unat y \<le> unat x then unat x - unat y else unat x + 2 ^ 64 - unat y)"
  by (simp add: unat_sub_if')

lemma unat_drop64 [word_nat]: "unat (drop_bit n (x :: u64)) = unat x div 2 ^ n"
  by (metis unat_drop_bit_eq drop_bit_eq_div)

lemma unat_push64 [word_nat]: "unat (push_bit n (x :: u64)) = (unat x * 2 ^ n) mod 2 ^ 64"
proof -
  have "unat (push_bit n x) = take_bit 64 (push_bit n (unat x))"
    by (simp only: unsigned_push_bit_eq) simp
  then show ?thesis by (simp only: push_bit_eq_mult take_bit_eq_mod)
qed

lemma unat_take64 [word_nat]: "unat (take_bit n (x :: u64)) = unat x mod 2 ^ n"
  by (metis unsigned_take_bit_eq take_bit_eq_mod)

lemma unat_and_mask64 [word_nat]: "unat (x AND mask n :: u64) = unat x mod 2 ^ n"
  by (simp only: take_bit_eq_mask [symmetric] unat_take64)

lemma word_less_nat: "(x :: u64) < y \<longleftrightarrow> unat x < unat y"
  by (simp add: word_less_nat_alt)

lemma word_le_nat: "(x :: u64) \<le> y \<longleftrightarrow> unat x \<le> unat y"
  by (simp add: word_le_nat_alt)

lemma word_eq_nat: "(x :: u64) = y \<longleftrightarrow> unat x = unat y"
  by (simp add: word_unat_eq_iff)

lemma unat_of_nat64: "n < 2 ^ 64 \<Longrightarrow> unat (word_of_nat n :: u64) = n"
  by (simp add: unat_of_nat take_bit_nat_eq_self)

lemma bit_unat: "bit (x :: u64) n \<longleftrightarrow> odd (unat x div 2 ^ n)"
  by (metis bit_iff_odd bit_unsigned_iff possible_bit_nat)

lemma mod_2B: "(s :: nat) < 2 * B \<Longrightarrow> s mod B = (if s < B then s else s - B)"
  by (auto simp: not_less le_mod_geq)

lemma div63: "unat (x :: u64) div 2 ^ 63 = (if 2 ^ 63 \<le> unat x then 1 else 0)"
  using unat_lt_pow64 [of x] by (auto simp: div_nat_eqI)

lemma bit63_iff: "bit (x :: u64) 63 \<longleftrightarrow> 2 ^ 63 \<le> unat x"
  unfolding bit_unat div63 by simp

lemma drop63: "drop_bit 63 (x :: u64) = (if bit x 63 then 1 else 0)"
  unfolding word_eq_nat unat_drop64 div63 bit63_iff by simp

subsection \<open>The value of a vector of words, least significant word first\<close>

text \<open>The digit base of the vectors (\<^verbatim>\<open>_B\<close> in the source), kept folded.\<close>

definition base :: nat where
  "base = 2 ^ 64"

lemma base_pos [simp]: "0 < base"
  by (simp add: base_def)

lemma base_neq_0 [simp]: "base \<noteq> 0"
  by (simp add: base_def)

lemma base_gt_1 [simp]: "1 < base" "Suc 0 < base"
  by (simp_all add: base_def)

lemma unat_lt_base [simp]: "unat (x :: u64) < base"
  using unat_lt_pow64 [of x] by (simp add: base_def)

lemma unat_le_base_simps [simp]: "unat (x :: u64) \<le> base" "Suc (unat (x :: u64)) \<le> base" "Suc 0 \<le> base"
  using unat_lt_base [of x] base_pos by linarith+

lemma unat_add_base: "unat (x + y :: u64) = (unat x + unat y) mod base"
  by (simp only: unat_add64 base_def)

lemma unat_mult_base: "unat (x * y :: u64) = (unat x * unat y) mod base"
  by (simp only: unat_mult64 base_def)

lemma unat_of_nat_base: "n < base \<Longrightarrow> unat (word_of_nat n :: u64) = n"
  by (simp only: unat_of_nat64 base_def)

lemma unat_le_base: "unat (x :: u64) \<le> base - 1"
  using unat_lt_base [of x] by linarith

lemma high_lt: "r + base * k = s \<Longrightarrow> s < base * base \<Longrightarrow> k < base"
  using mult_le_mono2 [of base k base] by linarith

lemma base_sq_bound: "unat (x::u64) * unat (y::u64) + unat (c::u64) + unat (d::u64) < base * base"
proof -
  have "unat x * unat y + unat c + unat d \<le> (base - 1) * (base - 1) + (base - 1) + (base - 1)"
    by (intro add_mono mult_mono unat_le_base) simp_all
  also have "\<dots> < base * base" by (simp add: base_def)
  finally show ?thesis .
qed

primrec bnum :: "u64 list \<Rightarrow> nat" where
  "bnum [] = 0"
| "bnum (w # ws) = unat w + base * bnum ws"

lemma bnum_append [bnum_simps]: "bnum (xs @ ys) = bnum xs + base ^ length xs * bnum ys"
  by (induction xs) (simp_all add: algebra_simps)

lemma bnum_lt: "bnum xs < base ^ length xs"
proof (induction xs)
  case (Cons w xs)
  have "unat w + base * bnum xs < base + base * bnum xs"
    by simp
  also have "\<dots> = base * (bnum xs + 1)" by simp
  also have "\<dots> \<le> base * base ^ length xs"
    using Cons by (intro mult_left_mono) auto
  finally show ?case by simp
qed simp

lemma bnum_replicate_0 [bnum_simps, simp]: "bnum (replicate n 0) = 0"
  by (induction n) simp_all

lemma bnum_eq_0_iff: "bnum xs = 0 \<longleftrightarrow> (\<forall>w\<in>set xs. w = 0)"
  by (induction xs) (auto simp: unat_eq_0)

lemma bnum_append_zeros [simp]: "bnum (xs @ replicate n 0) = bnum xs"
  by (simp add: bnum_append)

lemma bnum_take_drop: "bnum xs = bnum (take n xs) + base ^ min n (length xs) * bnum (drop n xs)"
  by (metis append_take_drop_id bnum_append length_take min.commute)

lemma bnum_update:
  "i < length xs \<Longrightarrow>
    bnum (xs[i := w]) + base ^ i * unat (xs ! i) = bnum xs + base ^ i * unat w"
proof (induction xs arbitrary: i)
  case (Cons x xs)
  show ?case
  proof (cases i)
    case (Suc j)
    then have "bnum (xs[j := w]) + base ^ j * unat (xs ! j) = bnum xs + base ^ j * unat w"
      using Cons by simp
    then have "base * (bnum (xs[j := w]) + base ^ j * unat (xs ! j)) =
        base * (bnum xs + base ^ j * unat w)"
      by simp
    then show ?thesis using Suc by (simp add: algebra_simps)
  qed simp
qed simp

subsection \<open>Shifts that move bits between neighbouring words\<close>


lemma or_disjoint_value:
  assumes "s \<le> 64"
  shows "unat (push_bit s (a::u64) OR drop_bit (64 - s) b) = (unat a * 2 ^ s) mod 2 ^ 64 + unat b div 2 ^ (64 - s)"
proof -
  have dis: "push_bit s a AND drop_bit (64 - s) b = 0"
    by (rule bit_eqI) (auto simp: bit_and_iff bit_push_bit_iff bit_drop_bit_eq dest: bit_imp_le_length)
  have e: "push_bit s a OR drop_bit (64 - s) b = push_bit s a + drop_bit (64 - s) b"
    using dis by (simp add: disjunctive_add_eq_or)
  have x: "unat (drop_bit (64 - s) b) < 2 ^ s"
  proof -
    have "unat b < 2 ^ s * 2 ^ (64 - s)"
      using unat_lt_pow64 [of b] assms by (simp flip: power_add)
    then show ?thesis
      unfolding unat_drop64 by (simp add: less_mult_imp_div_less)
  qed
  define A where "A = unat a"
  have "(unat a * 2 ^ s) mod 2 ^ 64 = 2 ^ s * (unat a mod 2 ^ (64 - s))"
  proof -
    have "(2::nat) ^ 64 = 2 ^ s * 2 ^ (64 - s)" using assms by (simp flip: power_add)
    then show ?thesis by (metis mult_mod_right mult.commute)
  qed
  moreover have "unat a mod 2 ^ (64 - s) + 1 \<le> 2 ^ (64 - s)"
    by (simp add: Suc_leI)
  then have "2 ^ s * (unat a mod 2 ^ (64 - s) + 1) \<le> 2 ^ s * 2 ^ (64 - s)"
    by (rule mult_le_mono2)
  moreover have "(2::nat) ^ s * 2 ^ (64 - s) = 2 ^ 64" using assms by (simp flip: power_add)
  ultimately have "unat (push_bit s a) + unat (drop_bit (64 - s) b) < 2 ^ 64"
    using x unfolding unat_push64 by (simp add: algebra_simps)
  then show ?thesis
    unfolding e unat_add64 by (simp add: unat_push64 unat_drop64)
qed

lemma shl_word_split:
  assumes "s \<le> 64"
  shows "(unat (x::u64) * 2 ^ s) mod 2 ^ 64 + base * (unat x div 2 ^ (64 - s)) = unat x * 2 ^ s"
proof -
  have b: "base = 2 ^ s * 2 ^ (64 - s)" using assms by (simp add: base_def flip: power_add)
  have "(unat x * 2 ^ s) mod base = 2 ^ s * (unat x mod 2 ^ (64 - s))"
    unfolding b by (metis mult_mod_right mult.commute)
  then show ?thesis
    using scale_div_mod(2) [of "2 ^ s" "unat x" "2 ^ (64 - s)"]
    by (simp only: base_def [symmetric] b [symmetric] mult.commute [of "unat x"])
qed

lemma shr_word_join:
  assumes "s \<le> 64"
  shows "unat (drop_bit s (x::u64) OR push_bit (64 - s) y) + base * ((unat y + base * r) div 2 ^ s)
    = (unat x + base * (unat y + base * r)) div 2 ^ s"
proof -
  define R where "R = unat y + base * r"
  have b: "base = 2 ^ s * 2 ^ (64 - s)" using assms by (simp add: base_def flip: power_add)
  have Rm: "R mod 2 ^ s = unat y mod 2 ^ s" unfolding R_def b by (simp add: mult.assoc)
  have "unat (drop_bit s x OR push_bit (64 - s) y) = unat x div 2 ^ s + 2 ^ (64 - s) * (unat y mod 2 ^ s)"
  proof -
    have "(unat y * 2 ^ (64 - s)) mod 2 ^ 64 = 2 ^ (64 - s) * (unat y mod 2 ^ s)"
      unfolding base_def [symmetric] b by (metis mult_mod_right mult.commute)
    then show ?thesis
      using or_disjoint_value [of "64 - s" y x] assms by (simp add: or.commute)
  qed
  moreover have "(unat x + base * R) div 2 ^ s = unat x div 2 ^ s + 2 ^ (64 - s) * R"
    unfolding b by (simp add: mult.assoc)
  moreover have "2 ^ (64 - s) * R = 2 ^ (64 - s) * (R mod 2 ^ s) + base * (R div 2 ^ s)"
    unfolding b by (simp only: scale_div_mod(3))
  ultimately show ?thesis unfolding R_def [symmetric] by (simp add: Rm)
qed

subsection \<open>Half words\<close>

text \<open>Half-word base, kept folded.\<close>

definition hb :: nat where "hb = 2 ^ 32"

lemma hb_pos [simp]: "0 < hb" "hb \<noteq> 0" by (simp_all add: hb_def)
lemma hb_sq: "hb * hb = base" by (simp add: hb_def base_def)
lemma unat_hb: "unat (4294967296 :: u64) = hb" by (simp add: hb_def)

lemma half_split: "hb * unat (drop_bit 32 (x::u64)) + unat (x AND mask 32) = unat x"
  "unat (drop_bit 32 (x::u64)) < hb" "unat (x AND mask 32 :: u64) < hb"
  unfolding unat_drop64 unat_and_mask64 hb_def
  using unat_lt_B [of x] by simp_all

subsection \<open>Writing a slice\<close>

definition write_at :: "nat \<Rightarrow> 'a list \<Rightarrow> 'a list \<Rightarrow> 'a list" where
  "write_at i ys xs = take i xs @ ys @ drop (i + length ys) xs"

lemma length_write_at [simp]:
  "i + length ys \<le> length xs \<Longrightarrow> length (write_at i ys xs) = length xs"
  by (simp add: write_at_def)

lemma bnum_write_at:
  assumes "i + length ys \<le> length xs"
  shows "bnum (write_at i ys xs) + base ^ i * bnum (take (length ys) (drop i xs)) =
    bnum xs + base ^ i * bnum ys"
proof -
  have "xs = take i xs @ take (length ys) (drop i xs) @ drop (i + length ys) xs"
    by (metis append_take_drop_id drop_drop add.commute)
  then have "bnum xs = bnum (take i xs @ take (length ys) (drop i xs) @ drop (i + length ys) xs)"
    by simp
  then show ?thesis
    using assms by (simp add: write_at_def bnum_append min_def algebra_simps)
qed

lemma bnum_write_at_0:
  "length ys \<le> length xs \<Longrightarrow>
    bnum (write_at 0 ys xs) = bnum ys + base ^ length ys * bnum (drop (length ys) xs)"
  by (simp add: write_at_def bnum_append)

subsection \<open>More on the value of a vector\<close>

lemma bnum_top: "length ws = Suc n \<Longrightarrow> ws ! n \<noteq> 0 \<Longrightarrow> base ^ n \<le> bnum ws"
proof -
  assume a: "length ws = Suc n" "ws ! n \<noteq> 0"
  then have "ws = take n ws @ [ws ! n]" by (metis lessI take_Suc_conv_app_nth take_all order_refl)
  then have "bnum ws = bnum (take n ws) + base ^ n * unat (ws ! n)"
    using a by (metis (no_types) add.right_neutral bnum.simps bnum_append length_take lessI less_imp_le min.absorb2 mult_0_right)
  moreover have "base ^ n * 1 \<le> base ^ n * unat (ws ! n)"
    using a by (intro mult_le_mono2) (simp add: unat_gt_0 Suc_leI)
  ultimately show ?thesis by linarith
qed

lemma base_pow_pos: "0 < base ^ n"
  by simp

lemma drop_zeros: "(\<And>i. k \<le> i \<Longrightarrow> i < length ws \<Longrightarrow> ws ! i = 0) \<Longrightarrow> drop k ws = replicate (length ws - k) (0 :: u64)"
  by (rule nth_equalityI) auto

lemma bnum_snoc_compare:
  assumes "length xs = length ys" "unat a < unat b"
  shows "bnum (xs @ [a]) < bnum (ys @ [b])"
proof -
  have "bnum xs + base ^ length xs * unat a < base ^ length xs * (unat a + 1)"
    using bnum_lt [of xs] by simp
  also have "\<dots> \<le> base ^ length xs * unat b" using assms by (intro mult_le_mono2) simp
  finally show ?thesis using assms(1) by (simp add: bnum_append)
qed

lemma bnum_inj: "length xs = length ys \<Longrightarrow> bnum xs = bnum ys \<Longrightarrow> xs = ys"
proof (induction xs ys rule: list_induct2)
  case (Cons x xs y ys)
  have "unat x = unat y" "bnum xs = bnum ys"
    using Cons.prems mod_add_mult [of "unat x" base "bnum xs"] mod_add_mult [of "unat y" base "bnum ys"]
    by (auto dest: add_right_imp_eq)
  then show ?case using Cons.IH by (simp add: word_eq_nat)
qed simp

lemma carry_1: "unat (c::u64) \<le> 1 \<Longrightarrow> c \<noteq> 0 \<Longrightarrow> c = 1"
  using unat_gt_0 [of c] by (subst word_eq_nat) simp

lemma fold_update_upt:
  "n \<le> m \<Longrightarrow> m \<le> length ws \<Longrightarrow>
    fold (\<lambda>i ws. ws[i := v]) [n..<m] ws = take n ws @ replicate (m - n) v @ drop m ws"
proof (induction m)
  case (Suc m)
  show ?case
  proof (cases "n = Suc m")
    case False
    then have "n \<le> m" using Suc.prems by simp
    moreover have "(take n ws @ replicate (m - n) v @ drop m ws)[m := v] =
        take n ws @ replicate (m - n) v @ v # drop (Suc m) ws"
      using Suc.prems \<open>n \<le> m\<close> by (simp add: list_update_append Cons_nth_drop_Suc [symmetric])
    ultimately show ?thesis using Suc by (simp add: Suc_diff_le replicate_app_Cons_same)
  qed simp
qed simp

lemma bnum_replicate_max: "bnum (replicate k (- 1)) + 1 = base ^ k"
proof (induction k)
  case (Suc k)
  have "unat (- 1 :: u64) + 1 = base"
    by (simp add: base_def unsigned_minus_1_eq_mask mask_eq_exp_minus_1)
  then have "bnum (replicate (Suc k) (- 1)) + 1 = base * (bnum (replicate k (- 1)) + 1)"
    by (simp only: replicate_Suc bnum.simps distrib_left)
  then show ?case by (simp only: Suc power_Suc)
qed simp

lemma bnum_take_mod: "bnum (take n xs) = bnum xs mod base ^ n"
proof (cases "n \<le> length xs")
  case True
  then have "bnum xs = bnum (take n xs) + base ^ n * bnum (drop n xs)"
    using bnum_take_drop [of xs n] by (simp add: min_def)
  moreover have "bnum (take n xs) < base ^ n" using bnum_lt [of "take n xs"] True by simp
  ultimately show ?thesis by (metis mod_add_mult)
next
  case False
  then have "bnum xs < base ^ n"
    using bnum_lt [of xs] power_increasing [of "length xs" n base] by (simp add: less_le_trans)
  then show ?thesis using False by simp
qed

lemma nth_write_at:
  "i + length ys \<le> length xs \<Longrightarrow> j < length xs \<Longrightarrow>
    write_at i ys xs ! j = (if j < i then xs ! j else if j < i + length ys then ys ! (j - i) else xs ! j)"
  by (auto simp: write_at_def nth_append min_def)

lemma take_last: "0 < n \<Longrightarrow> n \<le> length xs \<Longrightarrow> take n xs = take (n - 1) xs @ [xs ! (n - 1)]"
  by (cases n) (auto simp: take_Suc_conv_app_nth)

lemma bnum_drop_div: "bnum (drop n xs) = bnum xs div base ^ n"
proof (cases "n \<le> length xs")
  case True
  then have "bnum xs = bnum (take n xs) + base ^ n * bnum (drop n xs)"
    using bnum_take_drop [of xs n] by (simp add: min_def)
  moreover have "bnum (take n xs) < base ^ n" using bnum_lt [of "take n xs"] True by simp
  ultimately show ?thesis by (metis div_add_mult)
next
  case False
  then have "bnum xs < base ^ n"
    using bnum_lt [of xs] power_increasing [of "length xs" n base] by (simp add: less_le_trans)
  then show ?thesis using False by simp
qed

subsection \<open>Mapping a function that may fail\<close>

primrec omap :: "('a \<Rightarrow> 'b option) \<Rightarrow> 'a list \<Rightarrow> 'b list option" where
  "omap f [] = Some []"
| "omap f (x # xs) = do { y \<leftarrow> f x; ys \<leftarrow> omap f xs; Some (y # ys) }"

lemma omap_eq_Some: "(\<And>x. x \<in> set xs \<Longrightarrow> f x = Some (g x)) \<Longrightarrow> omap f xs = Some (map g xs)"
  by (induction xs) auto

lemma omap_SomeD:
  "omap f xs = Some ys \<Longrightarrow> length ys = length xs \<and> (\<forall>i<length xs. f (xs ! i) = Some (ys ! i))"
proof (induction xs arbitrary: ys)
  case (Cons x xs)
  then obtain y ys' where "f x = Some y" "omap f xs = Some ys'" "ys = y # ys'"
    by (auto split: bind_splits)
  then show ?case using Cons.IH by (auto simp: nth_Cons split: nat.splits)
qed simp

subsection \<open>Results with an error\<close>

text \<open>A Go function that returns a value and an error is a sum: \<^const>\<open>Inl\<close> the error. \<open>ebind\<close> is the
  early return on an error.\<close>

definition ebind :: "'e + 'a \<Rightarrow> ('a \<Rightarrow> 'e + 'b) \<Rightarrow> 'e + 'b" where
  "ebind m f = (case m of Inl e \<Rightarrow> Inl e | Inr a \<Rightarrow> f a)"

lemma ebind_simps [simp]: "ebind (Inl e) f = Inl e" "ebind (Inr a) f = f a"
  by (simp_all add: ebind_def)

lemma ebind_eq_Inr: "ebind m f = Inr b \<longleftrightarrow> (\<exists>a. m = Inr a \<and> f a = Inr b)"
  by (cases m) simp_all

lemma ebind_eq_Inl: "ebind m f = Inl e \<longleftrightarrow> m = Inl e \<or> (\<exists>a. m = Inr a \<and> f a = Inl e)"
  by (cases m) simp_all

end
