(* ===== verification/Asm_Arith.thy ===== *)
theory Asm_Arith
  imports Prelude
begin

unbundle bit_operations_syntax

section \<open>Word vectors: \<^verbatim>\<open>stackint/asm/arith.go\<close>\<close>

text \<open>
  The elementary operations on machine words and on vectors of words that
  \<^verbatim>\<open>stackint.Int1024\<close> is built from. \<^verbatim>\<open>Word\<close> is a Go
  \<^verbatim>\<open>uint\<close>, 64 bits wide. A vector operation of the source writes the slice
  \<^verbatim>\<open>z\<close> and returns a carry; its model takes the length of \<^verbatim>\<open>z\<close> (where
  the operands may be longer) and returns the words written together with the carry. Every
  loop reads position \<open>i\<close> of an operand before it writes position \<open>i\<close> of \<^verbatim>\<open>z\<close>, in
  an order in which no word already overwritten is read again, so the results are the same when
  \<^verbatim>\<open>z\<close> and an operand are the same memory, which is how \<^verbatim>\<open>Int1024\<close> calls
  them. The constant \<^verbatim>\<open>use_AddWW_g\<close> is false in the source; the branches it guards
  are not modelled. The shift counts \<open>s\<close> are at most 64, as they are at every call.

  The value lemmas read a vector as the number \<^const>\<open>bnum\<close> and say that no operation loses a
  carry: a sum, difference, product or shift together with its carry is exact.
\<close>

subsection \<open>Operations on words\<close>

definition AddWW_g :: "u64 \<Rightarrow> u64 \<Rightarrow> u64 \<Rightarrow> u64 \<times> u64" where
  "AddWW_g x y c =
     (let yc = y + c; z0 = x + yc;
          z1 = (if z0 < x \<or> yc < y then 1 else 0)
      in (z1, z0))"

definition subWW_g :: "u64 \<Rightarrow> u64 \<Rightarrow> u64 \<Rightarrow> u64 \<times> u64" where
  "subWW_g x y c =
     (let yc = y + c; z0 = x - yc;
          z1 = (if z0 > x \<or> yc < y then 1 else 0)
      in (z1, z0))"

lemma AddWW_g_value:
  assumes "unat c \<le> 1" "AddWW_g x y c = (z1, z0)"
  shows "unat z0 + base * unat z1 = unat x + unat y + unat c"
proof -
  have z: "z0 = x + (y + c)" "z1 = (if z0 < x \<or> y + c < y then 1 else 0)"
    using assms(2) by (auto simp: AddWW_g_def Let_def)
  have yc: "unat (y + c) = (if unat y + unat c < 2 ^ 64 then unat y + unat c
      else unat y + unat c - 2 ^ 64)"
    unfolding unat_add64 by (rule mod_2B) (use assms(1) unat_lt_B [of y] in simp)
  have z0: "unat z0 = (if unat x + unat (y + c) < 2 ^ 64 then unat x + unat (y + c)
      else unat x + unat (y + c) - 2 ^ 64)"
    unfolding z(1) unat_add64 [of x] by (rule mod_2B)
      (use unat_lt_B [of x] unat_lt_B [of "y + c"] in simp)
  show ?thesis
    using assms(1) unat_lt_B [of x] unat_lt_B [of y] yc z0
    unfolding z(2) word_less_nat base_def by (simp split: if_splits)
qed

definition MulWW :: "u64 \<Rightarrow> u64 \<Rightarrow> u64 \<times> u64" where
  "MulWW x y = (word_of_nat (unat x * unat y div base), x * y)"

definition MulWW_g :: "u64 \<Rightarrow> u64 \<Rightarrow> u64 \<times> u64" where
  "MulWW_g x y =
     (let x0 = x AND mask 32; x1 = drop_bit 32 x;
          y0 = y AND mask 32; y1 = drop_bit 32 y;
          w0 = x0 * y0;
          t = x1 * y0 + drop_bit 32 w0;
          w1 = t AND mask 32;
          w2 = drop_bit 32 t;
          w1' = w1 + x0 * y1
      in (x1 * y1 + w2 + drop_bit 32 w1', x * y))"

lemma mult_div_base: "unat (x::u64) * unat (y::u64) div base < base"
proof -
  have "unat x * unat y < base * base"
    by (intro mult_strict_mono) auto
  then show ?thesis by (simp add: less_mult_imp_div_less)
qed

lemma MulWW_value:
  assumes "MulWW x y = (z1, z0)"
  shows "unat z0 + base * unat z1 = unat x * unat y"
proof -
  have "unat z1 = unat x * unat y div base" "unat z0 = unat x * unat y mod base"
    using assms mult_div_base [of x y]
    by (auto simp: MulWW_def unat_of_nat_base unat_mult_base)
  then show ?thesis by simp
qed

lemma half_mult_lt: "(a::nat) < 2 ^ 32 \<Longrightarrow> b < 2 ^ 32 \<Longrightarrow> a * b \<le> (2 ^ 32 - 1) * (2 ^ 32 - 1)"
  by (intro mult_mono) auto

lemma half_products:
  fixes b :: nat
  assumes "a0 * c0 = h0 * b + l0" "a1 * c0 + h0 = h1 * b + l1" "l1 + a0 * c1 = h2 * b + l2"
  shows "(a0 + b * a1) * (c0 + b * c1) = (l2 * b + l0) + (b * b) * (a1 * c1 + h1 + h2)"
proof -
  have "b * (a1 * c0 + h0) = b * (h1 * b + l1)" "b * (l1 + a0 * c1) = b * (h2 * b + l2)"
    using assms by simp_all
  then show ?thesis using assms(1)
    unfolding distrib_left distrib_right by (simp add: ac_simps)
qed

lemma MulWW_g_MulWW: "MulWW_g x y = MulWW x y"
proof -
  define b :: nat where "b = 2 ^ 32"
  define a0 a1 c0 c1 where d: "a0 = unat x mod b" "a1 = unat x div b" "c0 = unat y mod b" "c1 = unat y div b"
  have lt: "a0 < b" "a1 < b" "c0 < b" "c1 < b"
    using unat_lt_B [of x] unat_lt_B [of y] by (auto simp: d b_def)
  have xy: "unat x = a0 + b * a1" "unat y = c0 + b * c1" by (simp_all add: d)
  have bb: "2 ^ 64 = b * b" by (simp add: b_def)
  have m: "p * q + 2 * (b - 1) < b * b" if "p < b" "q < b" for p q
    using half_mult_lt [of p q] that by (simp add: b_def)
  have m1: "p * q < b * b" "r < b \<Longrightarrow> p * q + r < b * b" if "p < b" "q < b" for p q r
    using m [OF that] by linarith+
  have dl: "p div b < b" if "p < b * b" for p
    using that by (simp add: less_mult_imp_div_less)
  define W0 where "W0 = a0 * c0"
  define T where "T = a1 * c0 + W0 div b"
  define W1 where "W1 = T mod b + a0 * c1"
  have W0: "W0 < b * b" using m1 lt by (simp add: W0_def)
  have T: "T < b * b" using m1(2) lt dl [OF W0] by (simp add: T_def)
  have W1: "W1 < b * b" using m1(2) [of a0 c1 "T mod b"] lt by (simp add: W1_def)
  have Z: "a1 * c1 + T div b + W1 div b < b * b"
    using m [of a1 c1] lt dl [OF T] dl [OF W1] by linarith
  have eq: "unat x * unat y = (W1 mod b * b + W0 mod b) + (b * b) * (a1 * c1 + T div b + W1 div b)"
    unfolding xy by (rule half_products [of _ _ "W0 div b" _ _ _ _ "T mod b"])
      (simp_all only: div_mult_mod_eq W0_def [symmetric] T_def [symmetric] W1_def [symmetric])
  have low: "W1 mod b * b + W0 mod b < b * b"
  proof -
    have "(W1 mod b + 1) * b \<le> b * b"
      by (rule mult_le_mono1) (use lt in \<open>simp add: Suc_leI\<close>)
    moreover have "W0 mod b < b" using lt by simp
    ultimately show ?thesis by simp
  qed
  have "unat x * unat y div (b * b) = a1 * c1 + T div b + W1 div b"
    unfolding eq by (rule div_add_mult [OF low])
  moreover have "unat (fst (MulWW_g x y)) = a1 * c1 + T div b + W1 div b"
  proof -
    have "unat (x AND mask 32) = a0" "unat (drop_bit 32 x) = a1" "unat (y AND mask 32) = c0" "unat (drop_bit 32 y) = c1"
      by (simp_all add: unat_and_mask64 unat_drop64 d b_def)
    note s = this
    have w0: "unat ((x AND mask 32) * (y AND mask 32)) = W0"
      unfolding unat_mult64 s bb using W0 by (simp add: W0_def)
    have t: "unat (drop_bit 32 x * (y AND mask 32) + drop_bit 32 ((x AND mask 32) * (y AND mask 32))) = T"
      unfolding unat_add64 unat_mult64 [of "drop_bit 32 x"] unat_drop64 [of 32 "(x AND mask 32) * (y AND mask 32)"] w0 s bb b_def [symmetric]
      using T by (simp add: T_def mod_add_left_eq)
    have w1: "unat (((drop_bit 32 x * (y AND mask 32) + drop_bit 32 ((x AND mask 32) * (y AND mask 32))) AND mask 32)
        + (x AND mask 32) * drop_bit 32 y) = W1"
      unfolding unat_add64 [of "_ AND mask 32"] unat_mult64 [of "x AND mask 32" "drop_bit 32 y"] unat_and_mask64 [of "_ + _"] t s bb b_def [symmetric]
      using W1 by (simp add: W1_def mod_add_right_eq)
    show ?thesis
      unfolding MulWW_g_def Let_def fst_conv unat_add64 [of "_ + _" "drop_bit 32 _"]
        unat_add64 [of "drop_bit 32 x * drop_bit 32 y"] unat_mult64 [of "drop_bit 32 x" "drop_bit 32 y"]
        unat_drop64 [of 32 "_ + _"] t w1 s bb b_def [symmetric]
      using Z by (simp add: mod_add_left_eq)
  qed
  ultimately have "unat (fst (MulWW_g x y)) = unat x * unat y div base"
    by (simp only: bb [symmetric] base_def)
  then have "fst (MulWW_g x y) = fst (MulWW x y)"
    by (simp only: word_eq_nat MulWW_def fst_conv unat_of_nat_base [OF mult_div_base])
  then show ?thesis by (simp add: prod_eq_iff MulWW_g_def MulWW_def Let_def)
qed

definition MulAddWWW_g :: "u64 \<Rightarrow> u64 \<Rightarrow> u64 \<Rightarrow> u64 \<times> u64" where
  "MulAddWWW_g x y c =
     (let (z1, zz0) = MulWW x y; z0 = zz0 + c
      in (if z0 < zz0 then z1 + 1 else z1, z0))"

lemma carry_unat:
  "unat (a + b :: u64) + base * (if a + b < a then 1 else 0) = unat a + unat b"
  using AddWW_g_value [of 0 a b] by (auto simp: AddWW_g_def Let_def split: if_splits)

lemma MulAddWWW_g_value:
  assumes "MulAddWWW_g x y c = (z1, z0)"
  shows "unat z0 + base * unat z1 = unat x * unat y + unat c"
proof -
  obtain h l where m: "MulWW x y = (h, l)" by fastforce
  note v = MulWW_value [OF m]
  have z: "z0 = l + c" "z1 = (if l + c < l then h + 1 else h)"
    using assms m by (auto simp: MulAddWWW_g_def Let_def)
  have k: "unat (l + c) + base * (unat h + (if l + c < l then 1 else 0)) = unat x * unat y + unat c"
    using carry_unat [of l c] v by (simp add: distrib_left)
  have "unat h + (if l + c < l then 1 else 0) < base"
    using base_sq_bound [of x y c 0] by (intro high_lt [OF k]) simp
  then have "unat z1 = unat h + (if l + c < l then 1 else 0)"
    unfolding z by (auto simp: unat_add_base)
  then show ?thesis using k z by simp
qed

primrec clz :: "nat \<Rightarrow> u64 \<Rightarrow> nat" where
  "clz 0 x = 0"
| "clz (Suc n) x = (if bit x n then 0 else Suc (clz n x))"

definition Nlz :: "u64 \<Rightarrow> nat" where
  "Nlz x = clz 64 x"

lemma clz_le: "clz n x \<le> n"
  by (induction n) auto

lemma clz_normalises:
  "unat x < 2 ^ n \<Longrightarrow> x \<noteq> 0 \<Longrightarrow> 2 ^ n \<le> 2 * unat x * 2 ^ clz n x \<and> unat x * 2 ^ clz n x < 2 ^ n"
proof (induction n)
  case 0
  then show ?case by (simp add: unat_eq_0)
next
  case (Suc n)
  have b: "bit x n \<longleftrightarrow> 2 ^ n \<le> unat x"
  proof -
    have "unat x div 2 ^ n < 2"
      using Suc.prems(1) by (intro less_mult_imp_div_less) simp
    then have "odd (unat x div 2 ^ n) \<longleftrightarrow> 1 \<le> unat x div 2 ^ n"
      by (auto simp: less_2_cases_iff)
    also have "\<dots> \<longleftrightarrow> 2 ^ n \<le> unat x"
      by (metis One_nat_def Suc_leI div_greater_zero_iff zero_less_numeral zero_less_power Suc_le_lessD)
    finally show ?thesis unfolding bit_unat .
  qed
  show ?case
  proof (cases "bit x n")
    case True
    then show ?thesis using b Suc.prems by simp
  next
    case False
    then show ?thesis using b Suc by simp
  qed
qed

lemma Nlz_normalises:
  assumes "x \<noteq> 0"
  shows "2 ^ 63 \<le> unat x * 2 ^ Nlz x" "unat x * 2 ^ Nlz x < 2 ^ 64" "Nlz x < 64"
proof -
  note n = clz_normalises [OF unat_lt_pow64 assms]
  show "2 ^ 63 \<le> unat x * 2 ^ Nlz x" using n by (simp add: Nlz_def)
  show u: "unat x * 2 ^ Nlz x < 2 ^ 64" using n by (simp add: Nlz_def)
  have "2 ^ Nlz x \<le> unat x * 2 ^ Nlz x"
    using assms by (simp add: unat_gt_0 Suc_leI)
  then have "2 ^ Nlz x < (2::nat) ^ 64" using u by linarith
  then show "Nlz x < 64" by (rule power_less_imp_less_exp [rotated]) simp
qed

function DivWW_loop :: "u64 \<Rightarrow> u64 \<Rightarrow> u64 \<Rightarrow> u64 \<Rightarrow> u64 \<Rightarrow> u64" where
  "DivWW_loop vn1 vn0 d q rhat =
     (if 4294967296 \<le> q \<or> 4294967296 * rhat + d < q * vn0 then
        let q' = q - 1; rhat' = rhat + vn1 in
        if 4294967296 \<le> rhat' then q' else DivWW_loop vn1 vn0 d q' rhat'
      else q)"
  by auto
termination
proof (relation "measure (\<lambda>(vn1, vn0, d, q, rhat). unat q)", goal_cases)
  case (2 vn1 vn0 d q rhat x xa)
  then have "q \<noteq> 0" by auto
  then show ?case using 2 by (simp add: unat_minus_one unat_gt_0)
qed simp

declare DivWW_loop.simps [simp del]

definition DivWW_g :: "u64 \<Rightarrow> u64 \<Rightarrow> u64 \<Rightarrow> u64 \<times> u64" where
  "DivWW_g u1 u0 v0 =
     (if v0 \<le> u1 then (- 1, - 1)
      else let s = Nlz v0; v = push_bit s v0;
        vn1 = drop_bit 32 v; vn0 = v AND mask 32;
        un32 = push_bit s u1 OR drop_bit (64 - s) u0;
        un10 = push_bit s u0;
        un1 = drop_bit 32 un10; un0 = un10 AND mask 32;
        q1 = un32 div vn1;
        q1 = DivWW_loop vn1 vn0 un1 q1 (un32 - q1 * vn1);
        un21 = un32 * 4294967296 + un1 - q1 * v;
        q0 = un21 div vn1;
        q0 = DivWW_loop vn1 vn0 un0 q0 (un21 - q0 * vn1)
      in (q1 * 4294967296 + q0, drop_bit s (un21 * 4294967296 + un0 - q0 * v)))"

lemma DivWW_loop_value:
  assumes "hb \<le> 2 * unat vn1" "unat vn1 < hb" "unat vn0 < hb" "unat d < hb"
    and "U < hb * unat vn1 + unat vn0"
    and "unat q * unat vn1 + unat rhat = U" "unat rhat < hb" "unat q \<le> hb + 1"
    and "(hb * U + unat d) div (hb * unat vn1 + unat vn0) \<le> unat q"
  shows "unat (DivWW_loop vn1 vn0 d q rhat) = (hb * U + unat d) div (hb * unat vn1 + unat vn0)"
  using assms
proof (induction vn1 vn0 d q rhat rule: DivWW_loop.induct)
  case (1 vn1 vn0 d q rhat)
  define V where "V = hb * unat vn1 + unat vn0"
  define N where "N = hb * U + unat d"
  define Q where "Q = N div V"
  have Vpos: "0 < V" using 1 hb_pos unfolding V_def by (metis add_gr_0 mult_pos_pos not_gr_zero leD mult_0_right)
  have dist: "unat q * V = hb * (unat q * unat vn1) + unat q * unat vn0"
    by (simp add: V_def algebra_simps)
  have c1: "unat (q * vn0) = unat q * unat vn0"
  proof -
    have "unat q * unat vn0 \<le> (hb + 1) * (hb - 1)"
      using 1 by (intro mult_mono) auto
    also have "\<dots> < base" by (simp add: hb_def base_def)
    finally show ?thesis by (simp add: unat_mult_base)
  qed
  have c2: "unat (4294967296 * rhat + d) = hb * unat rhat + unat d"
  proof -
    have "hb * unat rhat + unat d < hb * hb"
      using 1 by (intro two_digits_lt) auto
    then show ?thesis unfolding unat_add_base unat_mult_base unat_hb hb_sq
      by (simp add: mod_add_left_eq)
  qed
  have cond: "4294967296 \<le> q \<or> 4294967296 * rhat + d < q * vn0 \<longleftrightarrow>
      hb \<le> unat q \<or> hb * unat rhat + unat d < unat q * unat vn0"
    by (simp only: word_le_nat word_less_nat unat_hb c1 c2)
  have QN: "k \<le> Q \<longleftrightarrow> k * V \<le> N" for k
    unfolding Q_def using Vpos by (rule less_eq_div_iff_mult_less_eq)
  have Qle: "Q \<le> unat q" using 1(10) by (simp only: Q_def N_def V_def)
  show ?case
  proof (cases "hb \<le> unat q \<or> hb * unat rhat + unat d < unat q * unat vn0")
    case False
    then have "unat q * V \<le> N"
      using 1 unfolding dist N_def 1(7)[symmetric] by (simp add: distrib_left)
    then have "unat q = Q" using QN Qle by (simp add: le_antisym)
    then show ?thesis using False cond by (subst DivWW_loop.simps) (simp add: Q_def N_def V_def)
  next
    case True
    have Qlt: "Q < unat q"
      using True
    proof
      assume "hb \<le> unat q"
      moreover have "N < V * hb"
        using two_digits_lt [of "unat d" hb U V] 1 by (simp add: N_def V_def mult.commute)
      then have "Q < hb" by (simp add: Q_def less_mult_imp_div_less mult.commute)
      ultimately show ?thesis by simp
    next
      assume "hb * unat rhat + unat d < unat q * unat vn0"
      then have "N < unat q * V"
        using 1 unfolding dist N_def 1(7)[symmetric] by (simp add: distrib_left)
      then show ?thesis using QN [of "unat q"] by linarith
    qed
    have q': "unat (q - 1) = unat q - 1" and r': "unat (rhat + vn1) = unat rhat + unat vn1"
      using Qlt 1 by (auto simp: unat_sub64 unat_add_base word_le_nat hb_def base_def)
    have inv: "(unat q - 1) * unat vn1 + (unat rhat + unat vn1) = U"
      using 1(7) Qlt by (cases "unat q") auto
    have stop: "4294967296 \<le> rhat + vn1 \<longleftrightarrow> hb \<le> unat rhat + unat vn1"
      by (simp only: word_le_nat unat_hb r')
    show ?thesis
    proof (cases "hb \<le> unat rhat + unat vn1")
      case big: True
      have "(unat q - 1) * unat vn0 \<le> hb * hb"
        using 1 by (intro mult_mono) auto
      also have "\<dots> \<le> hb * (unat rhat + unat vn1)" using big by simp
      finally have "(unat q - 1) * V \<le> N"
        unfolding N_def inv [symmetric] V_def by (simp add: algebra_simps)
      then have "unat q - 1 = Q" using QN Qlt by (metis Suc_diff_1 le_antisym less_Suc_eq_le not_gr_zero not_less0)
      then show ?thesis using True big q'
        by (subst DivWW_loop.simps) (simp add: Q_def N_def V_def cond stop Let_def)
    next
      case small: False
      have "unat (DivWW_loop vn1 vn0 d (q - 1) (rhat + vn1)) = (hb * U + unat d) div (hb * unat vn1 + unat vn0)"
        using 1(2-) True small q' r' inv Qlt
        by (intro 1(1)) (auto simp: cond stop Q_def N_def V_def)
      then show ?thesis using True small
        by (subst DivWW_loop.simps) (simp add: cond stop Let_def)
    qed
  qed
qed

lemma DivWW_half:
  fixes un d v :: u64
  assumes "2 ^ 63 \<le> unat v" "unat un < unat v" "unat d < hb"
  defines "vn1 \<equiv> drop_bit 32 v" and "vn0 \<equiv> v AND mask 32"
  defines "q \<equiv> DivWW_loop vn1 vn0 d (un div vn1) (un - un div vn1 * vn1)"
  shows "unat q = (hb * unat un + unat d) div unat v"
    "unat (un * 4294967296 + d - q * v) = (hb * unat un + unat d) mod unat v"
proof -
  have v: "unat v = hb * unat vn1 + unat vn0" "unat vn1 < hb" "unat vn0 < hb"
    using half_split [of v] by (simp_all add: vn1_def vn0_def)
  have n1: "hb \<le> 2 * unat vn1"
    using assms(1) by (simp add: vn1_def unat_drop64 hb_def)
  have q0: "unat (un div vn1) = unat un div unat vn1"
    by (simp add: unat_div)
  have r0: "unat (un - un div vn1 * vn1) = unat un mod unat vn1"
    by (simp add: minus_div_mult_eq_mod unat_mod)
  have p1: "0 < unat vn1" using n1 hb_pos(1) by linarith
  have qle: "unat un div unat vn1 \<le> hb + 1"
  proof -
    have "unat un < (hb + 2) * unat vn1"
      using assms(2) v n1 by (simp add: distrib_right)
    then have "unat un div unat vn1 < hb + 2" by (simp add: less_mult_imp_div_less)
    then show ?thesis by simp
  qed
  have Qle: "(hb * unat un + unat d) div unat v \<le> unat un div unat vn1"
  proof -
    have "(hb * unat un + unat d) div unat v \<le> (hb * unat un + unat d) div (hb * unat vn1)"
      using v p1 by (intro div_le_mono2) auto
    also have "\<dots> = (hb * unat un + unat d) div hb div unat vn1"
      by (simp add: div_mult2_eq)
    also have "(hb * unat un + unat d) div hb = unat un"
      using div_add_mult [OF assms(3), of "unat un"] by (simp add: add.commute)
    finally show ?thesis .
  qed
  show Q: "unat q = (hb * unat un + unat d) div unat v"
    unfolding q_def v(1)
    by (rule DivWW_loop_value [where U = "unat un"])
      (use n1 v assms(2,3) q0 r0 qle Qle p1 less_trans [OF mod_less_divisor [OF p1] v(2)] in
        \<open>simp_all add: mult.commute [of "unat un div unat vn1"]\<close>)
  define N where "N = hb * unat un + unat d"
  have "N mod unat v < base"
    using mod_less_divisor [of "unat v" N] assms(2) unat_lt_base [of v] by linarith
  then have small: "unat (word_of_nat (N mod unat v) :: u64) = N mod unat v"
    by (rule unat_of_nat_base)
  have "un * 4294967296 + d = word_of_nat N"
    by (simp add: N_def hb_def mult.commute)
  also have "\<dots> = word_of_nat (N div unat v * unat v + N mod unat v)"
    by (simp only: div_mult_mod_eq)
  also have "\<dots> = q * v + word_of_nat (N mod unat v)"
    unfolding of_nat_add of_nat_mult Q [folded N_def, symmetric] by simp
  finally have "un * 4294967296 + d - q * v = word_of_nat (N mod unat v)"
    by simp
  then have "unat (un * 4294967296 + d - q * v) = N mod unat v"
    by (simp only: small)
  then show "unat (un * 4294967296 + d - q * v) = (hb * unat un + unat d) mod unat v"
    by (simp add: N_def)
qed


theorem DivWW_g_value:
  assumes "u1 < v"
  shows "DivWW_g u1 u0 v = (word_of_nat ((base * unat u1 + unat u0) div unat v),
    word_of_nat ((base * unat u1 + unat u0) mod unat v))"
proof -
  define s where "s = Nlz v"
  have v0: "v \<noteq> 0" using assms by auto
  note n = Nlz_normalises [OF v0, folded s_def]
  have lt: "unat u1 < unat v" using assms by (simp add: word_less_nat)
  define V where "V = push_bit s v"
  have V: "unat V = unat v * 2 ^ s" using n(2) by (simp add: V_def unat_push64)
  define N where "N = base * unat u1 + unat u0"
  define un32 where "un32 = push_bit s u1 OR drop_bit (64 - s) u0"
  define un10 where "un10 = push_bit s u0"
  define un1 where "un1 = drop_bit 32 un10"
  define un0 where "un0 = un10 AND mask 32"
  have b: "base = 2 ^ s * 2 ^ (64 - s)" using n(3) by (simp add: base_def flip: power_add)
  have u32: "unat un32 = unat u1 * 2 ^ s + unat u0 div 2 ^ (64 - s)"
  proof -
    have "unat u1 * 2 ^ s < unat v * 2 ^ s" using lt by simp
    then have "unat u1 * 2 ^ s < 2 ^ 64" using n(2) by linarith
    then show ?thesis unfolding un32_def using n(3) by (subst or_disjoint_value) auto
  qed
  have u10: "unat un10 = (unat u0 mod 2 ^ (64 - s)) * 2 ^ s"
    unfolding un10_def unat_push64 base_def [symmetric] b
    by (metis mult.commute mult_mod_right)
  have NN: "base * unat un32 + unat un10 = N * 2 ^ s"
  proof -
    have "base * (unat u0 div 2 ^ (64 - s)) + unat un10 = 2 ^ s * unat u0"
      unfolding u10 b using scale_div_mod(2) [of "2 ^ s" "unat u0" "2 ^ (64 - s)"]
      by (simp only: ac_simps)
    then show ?thesis unfolding u32 N_def by (simp add: distrib_left distrib_right mult.commute mult.left_commute)
  qed
  have u32lt: "unat un32 < unat V"
  proof -
    have "N < base * unat v" using two_digits_lt [OF unat_lt_base lt] by (simp add: N_def)
    then have "N * 2 ^ s < base * unat V" by (simp add: V flip: mult.assoc)
    then have "base * unat un32 < base * unat V" unfolding NN [symmetric] by linarith
    then show ?thesis by simp
  qed
  have vbig: "2 ^ 63 \<le> unat V" using n(1) V by simp
  define q1 where "q1 = DivWW_loop (drop_bit 32 V) (V AND mask 32) un1 (un32 div drop_bit 32 V) (un32 - un32 div drop_bit 32 V * drop_bit 32 V)"
  define un21 where "un21 = un32 * 4294967296 + un1 - q1 * V"
  define q0 where "q0 = DivWW_loop (drop_bit 32 V) (V AND mask 32) un0 (un21 div drop_bit 32 V) (un21 - un21 div drop_bit 32 V * drop_bit 32 V)"
  have h10: "hb * unat un1 + unat un0 = unat un10" "unat un1 < hb" "unat un0 < hb"
    unfolding un1_def un0_def by (rule half_split)+
  note r1 = DivWW_half [OF vbig u32lt h10(2), folded q1_def, folded un21_def]
  have lt21: "unat un21 < unat V" using r1(2) u32lt by simp
  note r0 = DivWW_half [OF vbig lt21 h10(3), folded q0_def]
  define A where "A = hb * unat un32 + unat un1"
  have A: "A = unat q1 * unat V + unat un21" unfolding r1 A_def by simp
  have tot: "N * 2 ^ s = unat V * (hb * unat q1) + (hb * unat un21 + unat un0)"
  proof -
    have "N * 2 ^ s = hb * A + unat un0"
      unfolding NN [symmetric] A_def hb_sq [symmetric] h10(1) [symmetric] by (simp add: algebra_simps)
    then show ?thesis unfolding A by (simp add: algebra_simps)
  qed
  have Vp: "0 < unat V" using u32lt by simp
  have dv: "N * 2 ^ s div unat V = hb * unat q1 + unat q0"
    unfolding tot r0(1) using Vp by simp
  have md: "N * 2 ^ s mod unat V = unat (un21 * 4294967296 + un0 - q0 * V)"
    unfolding tot r0(2) by simp
  have dv': "N div unat v = hb * unat q1 + unat q0"
    using dv unfolding V by simp
  have md': "N mod unat v = unat (un21 * 4294967296 + un0 - q0 * V) div 2 ^ s"
    using md unfolding V by (metis mult_mod_left nonzero_mult_div_cancel_right power_not_zero zero_neq_numeral)
  have "DivWW_g u1 u0 v = (q1 * 4294967296 + q0, drop_bit s (un21 * 4294967296 + un0 - q0 * V))"
    using assms by (simp add: DivWW_g_def Let_def q1_def q0_def un21_def un32_def un10_def un1_def un0_def V_def s_def)
  moreover have "q1 * 4294967296 + q0 = word_of_nat (N div unat v)"
    unfolding dv' by (simp add: hb_def mult.commute)
  moreover have "drop_bit s (un21 * 4294967296 + un0 - q0 * V) = word_of_nat (N mod unat v)"
    unfolding md' unat_drop64 [symmetric] by simp
  ultimately show ?thesis by (simp add: N_def)
qed


text \<open>
  \<^verbatim>\<open>DivWW\<close> of \<^verbatim>\<open>arith_amd64.s\<close> is the instruction
  \<^verbatim>\<open>DIVQ\<close>, which faults when the quotient does not fit a word.
\<close>

definition DivWW :: "u64 \<Rightarrow> u64 \<Rightarrow> u64 \<Rightarrow> (u64 \<times> u64) option" where
  "DivWW x1 x0 y =
     (if y \<le> x1 then None
      else Some (word_of_nat ((base * unat x1 + unat x0) div unat y),
                 word_of_nat ((base * unat x1 + unat x0) mod unat y)))"

lemma DivWW_g_DivWW: "u1 < v \<Longrightarrow> DivWW u1 u0 v = Some (DivWW_g u1 u0 v)"
  by (simp add: DivWW_def DivWW_g_value not_le [symmetric])

subsection \<open>Operations on vectors\<close>

fun AddVV_loop :: "u64 list \<Rightarrow> u64 list \<Rightarrow> u64 \<Rightarrow> u64 list \<times> u64" where
  "AddVV_loop (xi # x) (yi # y) c =
     (let zi = xi + yi + c;
          c' = drop_bit 63 ((xi AND yi) OR ((xi OR yi) AND NOT zi));
          (z, c'') = AddVV_loop x y c'
      in (zi # z, c''))"
| "AddVV_loop _ _ c = ([], c)"

lemma add_carry:
  assumes "unat c \<le> 1" and z: "z = x + y + c"
    and c': "c' = drop_bit 63 ((x AND y) OR ((x OR y) AND NOT (z::u64)))"
  shows "unat z + base * unat c' = unat x + unat y + unat c" "unat c' \<le> 1"
proof -
  have zz: "unat z = (if unat x + unat y + unat c < 2 ^ 64 then unat x + unat y + unat c
      else unat x + unat y + unat c - 2 ^ 64)"
  proof -
    have "unat z = (unat x + unat y + unat c) mod 2 ^ 64"
      unfolding z unat_add64 mod_add_left_eq ..
    also have "\<dots> = (if unat x + unat y + unat c < 2 ^ 64 then unat x + unat y + unat c
      else unat x + unat y + unat c - 2 ^ 64)"
      by (rule mod_2B) (use assms(1) unat_lt_B [of x] unat_lt_B [of y] in simp)
    finally show ?thesis .
  qed
  have cc: "c' = (if bit x 63 \<and> bit y 63 \<or> (bit x 63 \<or> bit y 63) \<and> \<not> bit z 63 then 1 else 0)"
    unfolding c' drop63 by (simp add: bit_or_iff bit_and_iff bit_not_iff)
  show "unat z + base * unat c' = unat x + unat y + unat c"
    using zz assms(1) unat_lt_B [of x] unat_lt_B [of y]
    unfolding cc bit63_iff base_def by (auto split: if_splits)
  show "unat c' \<le> 1" by (simp add: cc)
qed

lemma AddVV_loop_value:
  assumes "length x = length y" "unat c \<le> 1" "AddVV_loop x y c = (z, c')"
  shows "bnum z + base ^ length x * unat c' = bnum x + bnum y + unat c \<and>
    length z = length x \<and> unat c' \<le> 1"
  using assms
proof (induction x y arbitrary: c z c' rule: list_induct2)
  case Nil
  then show ?case by simp
next
  case (Cons xi x yi y)
  define zi where "zi = xi + yi + c"
  define d where "d = drop_bit 63 ((xi AND yi) OR ((xi OR yi) AND NOT zi))"
  obtain zs e where r: "AddVV_loop x y d = (zs, e)" by fastforce
  have z: "z = zi # zs" "c' = e"
    using Cons.prems(2) r by (auto simp: zi_def d_def Let_def)
  note ac = add_carry [OF Cons.prems(1) zi_def d_def]
  note ih = Cons.IH [OF ac(2) r]
  have "unat zi + base * (bnum zs + base ^ length x * unat e) =
      unat zi + base * (bnum x + bnum y + unat d)"
    using ih by simp
  also have "\<dots> = unat xi + unat yi + unat c + base * (bnum x + bnum y)"
    using ac(1) by (simp add: algebra_simps)
  finally show ?case using ih by (simp add: z algebra_simps)
qed

fun SubVV_loop :: "u64 list \<Rightarrow> u64 list \<Rightarrow> u64 \<Rightarrow> u64 list \<times> u64" where
  "SubVV_loop (xi # x) (yi # y) c =
     (let zi = xi - yi - c;
          c' = drop_bit 63 ((yi AND NOT xi) OR ((yi OR NOT xi) AND zi));
          (z, c'') = SubVV_loop x y c'
      in (zi # z, c''))"
| "SubVV_loop _ _ c = ([], c)"

fun AddVW_loop :: "u64 list \<Rightarrow> u64 \<Rightarrow> u64 list \<times> u64" where
  "AddVW_loop (xi # x) c =
     (let zi = xi + c;
          c' = drop_bit 63 (xi AND NOT zi);
          (z, c'') = AddVW_loop x c'
      in (zi # z, c''))"
| "AddVW_loop [] c = ([], c)"

fun SubVW_loop :: "u64 list \<Rightarrow> u64 \<Rightarrow> u64 list \<times> u64" where
  "SubVW_loop (xi # x) c =
     (let zi = xi - c;
          c' = drop_bit 63 (zi AND NOT xi);
          (z, c'') = SubVW_loop x c'
      in (zi # z, c''))"
| "SubVW_loop [] c = ([], c)"

lemma sub_borrow:
  assumes "unat c \<le> 1" and z: "z = x - y - c"
    and c': "c' = drop_bit 63 ((y AND NOT x) OR ((y OR NOT x) AND (z::u64)))"
  shows "unat z + unat y + unat c = unat x + base * unat c'" "unat c' \<le> 1"
proof -
  have cc: "c' = (if bit y 63 \<and> \<not> bit x 63 \<or> (bit y 63 \<or> \<not> bit x 63) \<and> bit z 63 then 1 else 0)"
    unfolding c' drop63 by (simp add: bit_or_iff bit_and_iff bit_not_iff)
  have zz: "unat z = (if unat y + unat c \<le> unat x then unat x - (unat y + unat c)
      else unat x + 2 ^ 64 - (unat y + unat c))"
    using assms(1) unat_lt_B [of x] unat_lt_B [of y] unfolding z unat_sub64
    by (auto split: if_splits)
  show "unat z + unat y + unat c = unat x + base * unat c'"
    using zz assms(1) unat_lt_B [of x] unat_lt_B [of y]
    unfolding cc bit63_iff base_def by (auto split: if_splits)
  show "unat c' \<le> 1" by (simp add: cc)
qed

lemma add_carry_W:
  assumes "unat c \<le> 1" "z = x + c" "c' = drop_bit 63 (x AND NOT (z::u64))"
  shows "unat z + base * unat c' = unat x + unat c" "unat c' \<le> 1"
  using add_carry [of c z x 0 c'] assms by simp_all

lemma sub_borrow_W:
  assumes "unat c \<le> 1" "z = x - c" "c' = drop_bit 63 (z AND NOT (x::u64))"
  shows "unat z + unat c = unat x + base * unat c'" "unat c' \<le> 1"
  using sub_borrow [of c z x 0 c'] assms by (simp_all add: and.commute)

lemma SubVV_loop_value:
  assumes "length x = length y" "unat c \<le> 1" "SubVV_loop x y c = (z, c')"
  shows "bnum z + bnum y + unat c = bnum x + base ^ length x * unat c' \<and>
    length z = length x \<and> unat c' \<le> 1"
  using assms
proof (induction x y arbitrary: c z c' rule: list_induct2)
  case Nil
  then show ?case by simp
next
  case (Cons xi x yi y)
  define zi where "zi = xi - yi - c"
  define d where "d = drop_bit 63 ((yi AND NOT xi) OR ((yi OR NOT xi) AND zi))"
  obtain zs e where r: "SubVV_loop x y d = (zs, e)" by fastforce
  have z: "z = zi # zs" "c' = e"
    using Cons.prems(2) r by (auto simp: zi_def d_def Let_def)
  note ac = sub_borrow [OF Cons.prems(1) zi_def d_def]
  note ih = Cons.IH [OF ac(2) r]
  have "base * (bnum zs + bnum y + unat d) = base * (bnum x + base ^ length x * unat e)"
    using ih by simp
  then show ?case using ih ac(1) by (simp add: z algebra_simps)
qed

lemma AddVW_loop_value:
  assumes "unat c \<le> 1" "AddVW_loop x c = (z, c')"
  shows "bnum z + base ^ length x * unat c' = bnum x + unat c \<and>
    length z = length x \<and> unat c' \<le> 1"
  using assms
proof (induction x arbitrary: c z c')
  case (Cons xi x)
  define zi where "zi = xi + c"
  define d where "d = drop_bit 63 (xi AND NOT zi)"
  obtain zs e where r: "AddVW_loop x d = (zs, e)" by fastforce
  have z: "z = zi # zs" "c' = e"
    using Cons.prems(2) r by (auto simp: zi_def d_def Let_def)
  note ac = add_carry_W [OF Cons.prems(1) zi_def d_def]
  note ih = Cons.IH [OF ac(2) r]
  have "base * (bnum zs + base ^ length x * unat e) = base * (bnum x + unat d)"
    using ih by simp
  then show ?case using ih ac(1) by (simp add: z algebra_simps)
qed simp

lemma SubVW_loop_value:
  assumes "unat c \<le> 1" "SubVW_loop x c = (z, c')"
  shows "bnum z + unat c = bnum x + base ^ length x * unat c' \<and>
    length z = length x \<and> unat c' \<le> 1"
  using assms
proof (induction x arbitrary: c z c')
  case (Cons xi x)
  define zi where "zi = xi - c"
  define d where "d = drop_bit 63 (zi AND NOT xi)"
  obtain zs e where r: "SubVW_loop x d = (zs, e)" by fastforce
  have z: "z = zi # zs" "c' = e"
    using Cons.prems(2) r by (auto simp: zi_def d_def Let_def)
  note ac = sub_borrow_W [OF Cons.prems(1) zi_def d_def]
  note ih = Cons.IH [OF ac(2) r]
  have "base * (bnum zs + unat d) = base * (bnum x + base ^ length x * unat e)"
    using ih by simp
  then have "base * bnum zs + base * unat d = base * bnum x + base * (base ^ length x * unat e)"
    unfolding distrib_left .
  then show ?case using ih ac(1) by (simp add: z mult.assoc)
qed simp

fun MulAddVWW_loop :: "u64 list \<Rightarrow> u64 \<Rightarrow> u64 \<Rightarrow> u64 list \<times> u64" where
  "MulAddVWW_loop (xi # x) y c =
     (let (c', zi) = MulAddWWW_g xi y c; (z, c'') = MulAddVWW_loop x y c' in (zi # z, c''))"
| "MulAddVWW_loop [] y c = ([], c)"

lemma MulAddVWW_loop_value:
  assumes "MulAddVWW_loop x y c = (z, c')"
  shows "bnum z + base ^ length x * unat c' = bnum x * unat y + unat c \<and> length z = length x"
  using assms
proof (induction x arbitrary: c z c')
  case (Cons xi x)
  obtain d zi where m: "MulAddWWW_g xi y c = (d, zi)" by fastforce
  obtain zs e where r: "MulAddVWW_loop x y d = (zs, e)" by fastforce
  have z: "z = zi # zs" "c' = e" using Cons.prems m r by auto
  note ih = Cons.IH [OF r]
  have "base * (bnum zs + base ^ length x * unat e) = base * (bnum x * unat y + unat d)"
    using ih by simp
  then show ?case using ih MulAddWWW_g_value [OF m] by (simp add: z algebra_simps)
qed simp

fun AddMulVVW_loop :: "u64 list \<Rightarrow> u64 list \<Rightarrow> u64 \<Rightarrow> u64 \<Rightarrow> u64 list \<times> u64" where
  "AddMulVVW_loop (zi # z) (xi # x) y c =
     (let (z1, z0) = MulAddWWW_g xi y zi;
          (c1, zi') = AddWW_g z0 c 0;
          (z', c') = AddMulVVW_loop z x y (c1 + z1)
      in (zi' # z', c'))"
| "AddMulVVW_loop _ _ _ c = ([], c)"

lemma AddMul_step_value:
  assumes "MulAddWWW_g x y z = (z1, z0)" "AddWW_g z0 c 0 = (c1, w)"
  shows "unat w + base * unat (c1 + z1) = unat x * unat y + unat z + unat c"
proof -
  have a: "unat w + base * unat c1 = unat z0 + unat c"
    using AddWW_g_value [OF _ assms(2)] by simp
  have k: "unat w + base * (unat c1 + unat z1) = unat x * unat y + unat z + unat c"
    using a MulAddWWW_g_value [OF assms(1)] by (simp add: distrib_left)
  have "unat c1 + unat z1 < base"
    by (rule high_lt [OF k base_sq_bound])
  then have "unat (c1 + z1) = unat c1 + unat z1"
    by (simp add: unat_add_base)
  then show ?thesis using k by simp
qed

lemma AddMulVVW_loop_value:
  assumes "length z = length x" "AddMulVVW_loop z x y c = (z', c')"
  shows "bnum z' + base ^ length x * unat c' = bnum z + bnum x * unat y + unat c \<and> length z' = length x"
  using assms
proof (induction z x arbitrary: c z' c' rule: list_induct2)
  case (Cons zi z xi x)
  obtain z1 z0 where m: "MulAddWWW_g xi y zi = (z1, z0)" by fastforce
  obtain c1 w where a: "AddWW_g z0 c 0 = (c1, w)" by fastforce
  obtain zs e where r: "AddMulVVW_loop z x y (c1 + z1) = (zs, e)" by fastforce
  have z: "z' = w # zs" "c' = e" using Cons.prems m a r by auto
  note ih = Cons.IH [OF r]
  have "base * (bnum zs + base ^ length x * unat e) = base * (bnum z + bnum x * unat y + unat (c1 + z1))"
    using ih by simp
  then show ?case using ih AddMul_step_value [OF m a] by (simp add: z algebra_simps)
qed simp

definition ShlVU_g :: "nat \<Rightarrow> u64 list \<Rightarrow> nat \<Rightarrow> u64 list \<times> u64" where
  "ShlVU_g n x s =
     (if 0 < n then
        (map (\<lambda>i. if i = 0 then push_bit s (x ! 0)
                   else push_bit s (x ! i) OR drop_bit (64 - s) (x ! (i - 1))) [0..<n],
         drop_bit (64 - s) (x ! (n - 1)))
      else ([], 0))"

definition ShrVU_g :: "nat \<Rightarrow> u64 list \<Rightarrow> nat \<Rightarrow> u64 list \<times> u64" where
  "ShrVU_g n x s =
     (if 0 < n then
        (map (\<lambda>i. if i = n - 1 then drop_bit s (x ! (n - 1))
                   else drop_bit s (x ! i) OR push_bit (64 - s) (x ! (i + 1))) [0..<n],
         push_bit (64 - s) (x ! 0))
      else ([], 0))"

lemma ShlVU_g_value:
  assumes "s \<le> 64" "n \<le> length x" "ShlVU_g n x s = (z, c)"
  shows "bnum z + base ^ n * unat c = bnum (take n x) * 2 ^ s \<and> length z = n"
  using assms(2-)
proof (induction n arbitrary: z c)
  case 0
  then show ?case by (simp add: ShlVU_g_def)
next
  case (Suc n)
  obtain z' c' where r: "ShlVU_g n x s = (z', c')" by fastforce
  have ih: "bnum z' + base ^ n * unat c' = bnum (take n x) * 2 ^ s" "length z' = n"
    using Suc.IH [OF _ r] Suc.prems(1) by auto
  have w: "unat (last z) = (unat (x ! n) * 2 ^ s) mod 2 ^ 64 + unat c'"
  proof (cases n)
    case 0
    then show ?thesis using Suc.prems r by (auto simp: ShlVU_g_def unat_push64)
  next
    case (Suc k)
    then show ?thesis using Suc.prems r assms(1)
      by (auto simp: ShlVU_g_def or_disjoint_value unat_drop64)
  qed
  have z: "z = z' @ [last z]" "c = drop_bit (64 - s) (x ! n)"
    using Suc.prems r by (auto simp: ShlVU_g_def split: if_splits)
  define h l where "h = unat (x ! n) div 2 ^ (64 - s)" and "l = (unat (x ! n) * 2 ^ s) mod 2 ^ 64"
  have sw: "unat (x ! n) * 2 ^ s = l + base * h"
    using shl_word_split [OF assms(1), of "x ! n"] by (simp only: h_def l_def)
  have "bnum z + base ^ Suc n * unat c = bnum z' + base ^ n * (unat (last z) + base * unat c)"
    by (subst z(1)) (simp add: bnum_append ih(2) algebra_simps)
  also have "\<dots> = bnum z' + base ^ n * unat c' + base ^ n * (unat (x ! n) * 2 ^ s)"
    unfolding w z(2) unat_drop64 l_def [symmetric] h_def [symmetric]
    by (simp only: sw distrib_left add.assoc add.left_commute)
  also have "\<dots> = bnum (take (Suc n) x) * 2 ^ s"
    unfolding ih(1) using Suc.prems(1)
    by (simp add: take_Suc_conv_app_nth bnum_append min_def algebra_simps)
  finally show ?case using ih(2) z(1) by (metis length_append_singleton)
qed

lemma ShrVU_g_Cons2:
  "fst (ShrVU_g (Suc (Suc n)) (x # y # r) s) =
    (drop_bit s x OR push_bit (64 - s) y) # fst (ShrVU_g (Suc n) (y # r) s)"
proof -
  have "[0..<Suc (Suc n)] = 0 # map Suc [0..<Suc n]" by (simp add: map_Suc_upt upt_conv_Cons del: upt_Suc)
  then show ?thesis by (simp add: ShrVU_g_def comp_def del: upt_Suc)
qed

lemma ShrVU_g_value:
  assumes "s \<le> 64"
  shows "bnum (fst (ShrVU_g (length x) x s)) = bnum x div 2 ^ s \<and> length (fst (ShrVU_g (length x) x s)) = length x"
proof (induction x rule: induct_list012)
  case 1
  then show ?case by (simp add: ShrVU_g_def)
next
  case (2 x)
  then show ?case by (simp add: ShrVU_g_def unat_drop64)
next
  case (3 x y r)
  then show ?case using shr_word_join [OF assms, of x y "bnum r"]
    by (simp add: ShrVU_g_Cons2 [simplified])
qed

text \<open>The entry points, on slices that may be longer than the \<open>n\<close> words written.\<close>

definition AddVV_g :: "nat \<Rightarrow> u64 list \<Rightarrow> u64 list \<Rightarrow> u64 list \<times> u64" where
  "AddVV_g n x y = AddVV_loop (take n x) (take n y) 0"

definition SubVV_g :: "nat \<Rightarrow> u64 list \<Rightarrow> u64 list \<Rightarrow> u64 list \<times> u64" where
  "SubVV_g n x y = SubVV_loop (take n x) (take n y) 0"

definition AddVW_g :: "nat \<Rightarrow> u64 list \<Rightarrow> u64 \<Rightarrow> u64 list \<times> u64" where
  "AddVW_g n x y = AddVW_loop (take n x) y"

definition SubVW_g :: "nat \<Rightarrow> u64 list \<Rightarrow> u64 \<Rightarrow> u64 list \<times> u64" where
  "SubVW_g n x y = SubVW_loop (take n x) y"

definition MulAddVWW_g :: "nat \<Rightarrow> u64 list \<Rightarrow> u64 \<Rightarrow> u64 \<Rightarrow> u64 list \<times> u64" where
  "MulAddVWW_g n x y r = MulAddVWW_loop (take n x) y r"

definition AddMulVVW_g :: "u64 list \<Rightarrow> u64 list \<Rightarrow> u64 \<Rightarrow> u64 list \<times> u64" where
  "AddMulVVW_g z x y = AddMulVVW_loop z (take (length z) x) y 0"

text \<open>The words are divided from the most significant one down; the list is least significant
  first, so the recursion divides the tail first. \<open>None\<close> is the fault of \<^const>\<open>DivWW\<close>.\<close>

fun DivWVW_g :: "u64 \<Rightarrow> u64 list \<Rightarrow> u64 \<Rightarrow> (u64 list \<times> u64) option" where
  "DivWVW_g xn [] y = Some ([], xn)"
| "DivWVW_g xn (xi # x) y =
     do { (z, r) \<leftarrow> DivWVW_g xn x y;
          (zi, r') \<leftarrow> DivWW r xi y;
          Some (zi # z, r') }"

lemma AddVV_g_value:
  assumes "n \<le> length x" "n \<le> length y" "AddVV_g n x y = (z, c)"
  shows "bnum z + base ^ n * unat c = bnum (take n x) + bnum (take n y)" "length z = n" "unat c \<le> 1"
  using AddVV_loop_value [of "take n x" "take n y" 0 z c] assms by (simp_all add: AddVV_g_def)

lemma SubVV_g_value:
  assumes "n \<le> length x" "n \<le> length y" "SubVV_g n x y = (z, c)"
  shows "bnum z + bnum (take n y) = bnum (take n x) + base ^ n * unat c" "length z = n" "unat c \<le> 1"
  using SubVV_loop_value [of "take n x" "take n y" 0 z c] assms by (simp_all add: SubVV_g_def)

lemma AddVW_g_value:
  assumes "n \<le> length x" "unat y \<le> 1" "AddVW_g n x y = (z, c)"
  shows "bnum z + base ^ n * unat c = bnum (take n x) + unat y" "length z = n" "unat c \<le> 1"
  using AddVW_loop_value [of y "take n x" z c] assms by (simp_all add: AddVW_g_def)

lemma SubVW_g_value:
  assumes "n \<le> length x" "unat y \<le> 1" "SubVW_g n x y = (z, c)"
  shows "bnum z + unat y = bnum (take n x) + base ^ n * unat c" "length z = n" "unat c \<le> 1"
  using SubVW_loop_value [of y "take n x" z c] assms by (simp_all add: SubVW_g_def)

lemma MulAddVWW_g_value:
  assumes "n \<le> length x" "MulAddVWW_g n x y r = (z, c)"
  shows "bnum z + base ^ n * unat c = bnum (take n x) * unat y + unat r" "length z = n"
  using MulAddVWW_loop_value [of "take n x" y r z c] assms by (simp_all add: MulAddVWW_g_def)

lemma AddMulVVW_g_value:
  assumes "length z \<le> length x" "AddMulVVW_g z x y = (z', c)"
  shows "bnum z' + base ^ length z * unat c = bnum z + bnum (take (length z) x) * unat y"
    "length z' = length z"
  using AddMulVVW_loop_value [of z "take (length z) x" y 0 z' c] assms
  by (simp_all add: AddMulVVW_g_def)

lemma DivWVW_g_value:
  assumes "xn < y"
  shows "\<exists>z r. DivWVW_g xn x y = Some (z, r) \<and> length z = length x \<and> r < y \<and>
    unat y * bnum z + unat r = bnum x + base ^ length x * unat xn"
proof (induction x)
  case (Cons xi x)
  then obtain z r where r: "DivWVW_g xn x y = Some (z, r)" "length z = length x" "r < y"
    "unat y * bnum z + unat r = bnum x + base ^ length x * unat xn"
    by blast
  define N where "N = base * unat r + unat xi"
  have y0: "0 < unat y" using r(3) by (simp add: word_less_nat)
  have "N < base * unat y"
    using two_digits_lt [OF unat_lt_base, of "unat r" "unat y" xi] r(3)
    by (simp add: N_def word_less_nat)
  then have q: "unat (word_of_nat (N div unat y) :: u64) = N div unat y"
    by (intro unat_of_nat_base) (simp add: less_mult_imp_div_less)
  have m: "unat (word_of_nat (N mod unat y) :: u64) = N mod unat y"
    using less_trans [OF mod_less_divisor [OF y0] unat_lt_base] by (rule unat_of_nat_base)
  have "DivWVW_g xn (xi # x) y = Some (word_of_nat (N div unat y) # z, word_of_nat (N mod unat y))"
    using r(1,3) by (simp add: DivWW_def N_def not_le [symmetric])
  moreover have "unat y * (N div unat y + base * bnum z) + N mod unat y =
      unat xi + base * bnum x + base ^ length (xi # x) * unat xn"
  proof -
    have "unat y * (N div unat y + base * bnum z) + N mod unat y = N + base * (unat y * bnum z)"
      by (simp add: distrib_left ac_simps)
    also have "\<dots> = unat xi + base * (unat y * bnum z + unat r)"
      by (simp add: N_def distrib_left)
    finally show ?thesis unfolding r(4) by (simp add: distrib_left mult.assoc)
  qed
  ultimately show ?case
    using r(2) y0 q m by (simp add: word_less_nat)
qed (use assms in simp)

end
