(* ===== verification/Int1024.thy ===== *)
theory Int1024
  imports Asm_Arith
begin

unbundle bit_operations_syntax

section \<open>1024-bit unsigned integers: \<^verbatim>\<open>stackint/int1024*.go\<close>\<close>

text \<open>
  \<^verbatim>\<open>Int1024\<close> is a fixed array of sixteen words, least significant first, with the
  number of significant words kept beside it. The Go methods that change their receiver return
  the new receiver here. The field \<^verbatim>\<open>length\<close> is a \<^verbatim>\<open>uint16\<close> that never
  exceeds 16; it is a natural number here, and every place where the source relies on the
  wrap-around of an index is written out.

  The representation invariant \<open>int_wf\<close> says that the array has sixteen words and that the stored
  length is that of the significant words; \<open>int_val\<close> is the number represented. The theorems are
  about addition, subtraction, comparison and multiplication.
\<close>

datatype stackint_error = ErrTooBigForUint | ErrBytesTooLong | ErrRandEOF

record int1024 =
  words :: "u64 list"
  len :: nat

abbreviation INT1024WORDS :: nat where
  "INT1024WORDS \<equiv> 16"

subsection \<open>Construction and conversion: \<^verbatim>\<open>int1024.go\<close>\<close>

definition Zero :: int1024 where
  "Zero = \<lparr>words = replicate INT1024WORDS 0, len = 0\<rparr>"

definition SetUint :: "int1024 \<Rightarrow> u64 \<Rightarrow> int1024" where
  "SetUint x n =
     (let ws = fold (\<lambda>i ws. ws[i := 0]) [1..<len x] (words x)
      in \<lparr>words = ws[0 := n], len = (if n = 0 then 0 else 1)\<rparr>)"

definition FromUint :: "u64 \<Rightarrow> int1024" where
  "FromUint n = SetUint Zero n"

definition ToUint :: "int1024 \<Rightarrow> stackint_error + u64" where
  "ToUint x =
     (if list_ex (\<lambda>i. words x ! i \<noteq> 0) [1..<len x] then Inl ErrTooBigForUint
      else Inr (words x ! 0))"

definition Clone :: "int1024 \<Rightarrow> int1024" where
  "Clone x = \<lparr>words = take (len x) (words x) @ replicate (INT1024WORDS - len x) 0, len = len x\<rparr>"

definition One :: int1024 where
  "One = FromUint 1"

definition Two :: int1024 where
  "Two = FromUint 2"

definition maxInt :: int1024 where
  "maxInt = \<lparr>words = replicate INT1024WORDS (- 1), len = INT1024WORDS\<rparr>"

text \<open>The loop of \<^verbatim>\<open>setLength\<close>, from word \<open>n - 1\<close> down to the first non-zero word.\<close>

primrec highest :: "nat \<Rightarrow> u64 list \<Rightarrow> nat" where
  "highest 0 ws = 0"
| "highest (Suc i) ws = (if ws ! i \<noteq> 0 then Suc i else highest i ws)"

definition setLength :: "u64 list \<Rightarrow> int1024" where
  "setLength ws = \<lparr>words = ws, len = highest INT1024WORDS ws\<rparr>"

text \<open>The loops that count up and remember the last non-zero word, as in
  \<^verbatim>\<open>Mul\<close>, \<^verbatim>\<open>AND\<close> or \<^verbatim>\<open>divLarge\<close>.\<close>

definition firstPositive :: "nat \<Rightarrow> u64 list \<Rightarrow> nat" where
  "firstPositive n ws = fold (\<lambda>i p. if ws ! i \<noteq> 0 then i + 1 else p) [0..<n] 0"

subsection \<open>Comparison: \<^verbatim>\<open>int1024_comparison.go\<close>\<close>

definition IsZero :: "int1024 \<Rightarrow> bool" where
  "IsZero x \<longleftrightarrow> len x = 0"

definition EqualsWord :: "int1024 \<Rightarrow> u64 \<Rightarrow> bool" where
  "EqualsWord x n \<longleftrightarrow> (if n = 0 then len x = 0 else len x = 1 \<and> words x ! 0 = n)"

primrec Cmp_loop :: "nat \<Rightarrow> u64 list \<Rightarrow> u64 list \<Rightarrow> int" where
  "Cmp_loop 0 x y = 0"
| "Cmp_loop (Suc i) x y =
     (if x ! i < y ! i then - 1 else if x ! i > y ! i then 1 else Cmp_loop i x y)"

definition Cmp :: "int1024 \<Rightarrow> int1024 \<Rightarrow> int" where
  "Cmp x y =
     (if len x < len y then - 1
      else if len x > len y then 1
      else Cmp_loop (len x) (words x) (words y))"

definition Equals :: "int1024 \<Rightarrow> int1024 \<Rightarrow> bool" where
  "Equals x y \<longleftrightarrow> Cmp x y = 0"

definition LessThan :: "int1024 \<Rightarrow> int1024 \<Rightarrow> bool" where
  "LessThan x y \<longleftrightarrow> Cmp x y < 0"

definition GreaterThan :: "int1024 \<Rightarrow> int1024 \<Rightarrow> bool" where
  "GreaterThan x y \<longleftrightarrow> Cmp x y > 0"

definition LessThanOrEqual :: "int1024 \<Rightarrow> int1024 \<Rightarrow> bool" where
  "LessThanOrEqual x y \<longleftrightarrow> Cmp x y \<le> 0"

definition GreaterThanOrEqual :: "int1024 \<Rightarrow> int1024 \<Rightarrow> bool" where
  "GreaterThanOrEqual x y \<longleftrightarrow> Cmp x y \<ge> 0"

definition IsEven :: "int1024 \<Rightarrow> bool" where
  "IsEven x \<longleftrightarrow> words x ! 0 AND 1 = 0"

subsection \<open>Addition, subtraction, multiplication: \<^verbatim>\<open>int1024_arithmetic.go\<close>\<close>

text \<open>
  In \<^verbatim>\<open>Inc\<close> the second vector operation reads the words of the longer operand from
  position \<open>n\<close> on; the first one wrote only the positions below \<open>n\<close>, so that reading the receiver
  before or after it is the same.
\<close>

definition Inc :: "int1024 \<Rightarrow> int1024 \<Rightarrow> int1024" where
  "Inc x y =
     (if IsZero y then x
      else if IsZero x then
        \<lparr>words = write_at 0 (take (len y) (words y)) (words x), len = len y\<rparr>
      else
        let (a, b) = (if len x < len y then (y, x) else (x, y));
            m = len a; n = len b;
            (z, c) = AddVV_g n (words a) (words b);
            ws = write_at 0 z (words x);
            (ws, c) = (if m > n then
                let (z, c) = AddVW_g (m - n) (drop n (words a)) c in (write_at n z ws, c)
              else (ws, c))
        in if c > 0 then
             if m < INT1024WORDS then \<lparr>words = ws[m := c], len = m + 1\<rparr> else setLength ws
           else \<lparr>words = ws, len = m\<rparr>)"

definition Add :: "int1024 \<Rightarrow> int1024 \<Rightarrow> int1024" where
  "Add x y = Inc (Clone x) y"

definition Dec :: "int1024 \<Rightarrow> int1024 \<Rightarrow> int1024" where
  "Dec x y =
     (if IsZero y then x
      else
        let m = len x; n = len y;
            (z, c) = SubVV_g n (words x) (words y);
            ws = write_at 0 z (words x);
            (ws, c) = (if m > n then
                let (z, c) = SubVW_g (INT1024WORDS - n) (drop n ws) c in (write_at n z ws, c)
              else (ws, c))
        in if c \<noteq> 0 then
             \<lparr>words = fold (\<lambda>i ws. ws[i := - 1]) [n..<INT1024WORDS] ws, len = INT1024WORDS\<rparr>
           else setLength ws)"

definition Sub :: "int1024 \<Rightarrow> int1024 \<Rightarrow> int1024" where
  "Sub x y = Dec (Clone x) y"

text \<open>One round of the schoolbook multiplication: the inner loop, which is the body of
  \<^verbatim>\<open>AddMulVVW_g\<close> inlined, adds \<open>x * d\<close> at word \<open>i\<close> and stores the carry above it.\<close>

definition BasicMul_round :: "u64 list \<Rightarrow> nat \<Rightarrow> nat \<Rightarrow> u64 \<Rightarrow> u64 list \<Rightarrow> u64 list" where
  "BasicMul_round x l i d ws =
     (if d \<noteq> 0 then
        let (z, c) = AddMulVVW_loop (take l (drop i ws)) (take l x) d 0
        in (write_at i z ws)[l + i := c]
      else ws)"

definition BasicMul_words :: "nat \<Rightarrow> int1024 \<Rightarrow> int1024 \<Rightarrow> u64 list" where
  "BasicMul_words sz x y =
     fold (\<lambda>i ws. BasicMul_round (words x) (len x) i (words y ! i) ws) [0..<len y]
       (replicate sz 0)"

definition BasicMulBig :: "int1024 \<Rightarrow> int1024 \<Rightarrow> u64 list" where
  "BasicMulBig x y = BasicMul_words (INT1024WORDS * 2) x y"

definition BasicMul :: "int1024 \<Rightarrow> int1024 \<Rightarrow> int1024" where
  "BasicMul x y =
     (let ws = BasicMul_words INT1024WORDS x y
      in \<lparr>words = ws, len = highest (len x + len y) ws\<rparr>)"

definition mulAddWW :: "int1024 \<Rightarrow> u64 \<Rightarrow> int1024" where
  "mulAddWW x y =
     (let m = len x;
          (z, nxt) = MulAddVWW_g m (words x) y 0;
          ws = write_at 0 z (words Zero)
      in if m < INT1024WORDS \<and> nxt > 0 then \<lparr>words = ws[m := nxt], len = m + 1\<rparr>
         else \<lparr>words = ws, len = m\<rparr>)"

text \<open>The part of \<^verbatim>\<open>Mul\<close> after its \<^verbatim>\<open>switch\<close>.\<close>

definition Mul_tail :: "int1024 \<Rightarrow> int1024 \<Rightarrow> int1024" where
  "Mul_tail x y =
     (if len x + len y \<le> INT1024WORDS then BasicMul x y
      else let ws = take INT1024WORDS (BasicMulBig x y)
           in \<lparr>words = ws, len = firstPositive INT1024WORDS ws\<rparr>)"

definition Mul :: "int1024 \<Rightarrow> int1024 \<Rightarrow> int1024" where
  "Mul x y =
     (let m = len x; n = len y
      in if m < n then Mul_tail y x
         else if IsZero x \<or> IsZero y then Zero
         else if n = 1 then mulAddWW x (words y ! 0)
         else Mul_tail x y)"

subsection \<open>The representation invariant and the value\<close>

definition int_wf :: "int1024 \<Rightarrow> bool" where
  "int_wf x \<longleftrightarrow> length (words x) = INT1024WORDS \<and> len x = highest INT1024WORDS (words x)"

definition int_val :: "int1024 \<Rightarrow> nat" where
  "int_val x = bnum (words x)"

subsection \<open>Lemmas\<close>

lemma highest_le: "highest n ws \<le> n"
  by (induction n) auto

lemma highest_top: "0 < highest n ws \<Longrightarrow> ws ! (highest n ws - 1) \<noteq> 0"
  by (induction n) auto

lemma highest_above: "highest n ws \<le> i \<Longrightarrow> i < n \<Longrightarrow> ws ! i = 0"
  by (induction n) (auto simp: less_Suc_eq split: if_splits)

lemma highest_eqI:
  "k \<le> n \<Longrightarrow> (0 < k \<Longrightarrow> ws ! (k - 1) \<noteq> 0) \<Longrightarrow> (\<And>i. k \<le> i \<Longrightarrow> i < n \<Longrightarrow> ws ! i = 0) \<Longrightarrow>
    highest n ws = k"
proof (induction n)
  case (Suc n)
  show ?case
  proof (cases "k = Suc n")
    case False
    then have "ws ! n = 0" "k \<le> n" using Suc.prems by auto
    then show ?thesis using Suc by simp
  qed (use Suc.prems in simp)
qed simp

lemma highest_drop_zeros: "m \<le> n \<Longrightarrow> (\<And>i. m \<le> i \<Longrightarrow> i < n \<Longrightarrow> ws ! i = 0) \<Longrightarrow> highest n ws = highest m ws"
  using highest_le [of m ws] highest_top [of m ws] highest_above [of m ws]
  by (intro highest_eqI) (auto, metis not_le)

lemma firstPositive_highest: "firstPositive n ws = highest n ws"
  unfolding firstPositive_def Suc_eq_plus1 [symmetric] by (induction n) auto

lemma int_wf_length [simp]: "int_wf x \<Longrightarrow> length (words x) = INT1024WORDS"
  by (simp add: int_wf_def)

lemma int_wf_len: "int_wf x \<Longrightarrow> len x \<le> INT1024WORDS"
  using highest_le [of 16 "words x"] by (simp add: int_wf_def)

lemma int_wf_zero: "int_wf x \<Longrightarrow> len x \<le> i \<Longrightarrow> i < INT1024WORDS \<Longrightarrow> words x ! i = 0"
  using highest_above [of 16 "words x"] by (simp add: int_wf_def)

lemma int_wf_top: "int_wf x \<Longrightarrow> 0 < len x \<Longrightarrow> words x ! (len x - 1) \<noteq> 0"
  using highest_top [of 16 "words x"] by (simp add: int_wf_def)

lemma take_pad_ge:
  assumes "int_wf x" "len x \<le> m"
  shows "words x = take m (words x) @ replicate (INT1024WORDS - m) 0"
proof -
  have "drop m (words x) = replicate (INT1024WORDS - m) 0"
    using assms int_wf_zero [of x] by (subst drop_zeros) auto
  then show ?thesis by (metis append_take_drop_id)
qed

lemmas take_pad = take_pad_ge [OF _ order_refl]

lemma int_wfI:
  assumes "length ws = INT1024WORDS" "n \<le> INT1024WORDS" "0 < n \<Longrightarrow> ws ! (n - 1) \<noteq> 0"
    "\<And>i. n \<le> i \<Longrightarrow> i < INT1024WORDS \<Longrightarrow> ws ! i = 0"
  shows "int_wf \<lparr>words = ws, len = n\<rparr>"
  using assms highest_eqI [of n 16 ws] by (simp add: int_wf_def)

lemma int_wf_setLength: "length ws = INT1024WORDS \<Longrightarrow> int_wf (setLength ws)"
  by (simp add: int_wf_def setLength_def)

lemma int_val_setLength [simp]: "int_val (setLength ws) = bnum ws"
  by (simp add: int_val_def setLength_def)

lemma int_val_take: "int_wf x \<Longrightarrow> int_val x = bnum (take (len x) (words x))"
  unfolding int_val_def by (subst take_pad) (simp_all only: bnum_append_zeros)

lemma int_val_lt: "int_wf x \<Longrightarrow> int_val x < base ^ len x"
  using bnum_lt [of "take (len x) (words x)"] int_wf_len [of x]
  by (simp add: int_val_take min_def)

lemma int_val_bound: "int_wf x \<Longrightarrow> int_val x < base ^ INT1024WORDS"
  using bnum_lt [of "words x"] by (simp add: int_val_def)

lemma int_val_ge: 
  assumes "int_wf x" "0 < len x"
  shows "base ^ (len x - 1) \<le> int_val x"
proof -
  have "len x \<le> 16" using assms by (simp add: int_wf_len)
  then show ?thesis
    unfolding int_val_take [OF assms(1)]
    using bnum_top [of "take (len x) (words x)" "len x - 1"] assms int_wf_top [OF assms]
    by (simp add: min_def)
qed

lemma int_val_0_iff: "int_wf x \<Longrightarrow> int_val x = 0 \<longleftrightarrow> len x = 0"
  using int_val_ge [of x] int_val_lt [of x] base_pow_pos [of "len x - 1"]
  by (metis less_one not_gr_zero not_less power_0)

lemma IsZero_val: "int_wf x \<Longrightarrow> IsZero x \<longleftrightarrow> int_val x = 0"
  by (simp add: IsZero_def int_val_0_iff)

lemma len_mono:
  assumes "int_wf x" "int_wf y" "len x < len y"
  shows "int_val x < int_val y"
proof -
  have "int_val x < base ^ len x" using assms by (rule_tac int_val_lt)
  also have "\<dots> \<le> base ^ (len y - 1)" using assms(3) by (intro power_increasing) (auto simp: Suc_leI)
  also have "\<dots> \<le> int_val y" using assms by (intro int_val_ge) auto
  finally show ?thesis .
qed

lemma Cmp_loop_value:
  "n \<le> length x \<Longrightarrow> n \<le> length y \<Longrightarrow>
    Cmp_loop n x y = (if bnum (take n x) < bnum (take n y) then - 1
      else if bnum (take n x) = bnum (take n y) then 0 else 1)"
proof (induction n)
  case (Suc n)
  have t: "take (Suc n) x = take n x @ [x ! n]" "take (Suc n) y = take n y @ [y ! n]"
    using Suc.prems by (simp_all add: take_Suc_conv_app_nth)
  have l: "length (take n x) = length (take n y)" using Suc.prems by simp
  consider "x ! n < y ! n" | "y ! n < x ! n" | "x ! n = y ! n" by force
  then show ?case
  proof cases
    case 1
    then show ?thesis using bnum_snoc_compare [OF l] t by (simp add: word_less_nat)
  next
    case 2
    then show ?thesis using bnum_snoc_compare [OF l [symmetric], of "y ! n" "x ! n"] t
      by (auto simp: word_less_nat)
  next
    case 3
    then show ?thesis using Suc t l by (simp add: bnum_append)
  qed
qed simp

lemma Cmp_value:
  assumes "int_wf x" "int_wf y"
  shows "Cmp x y = (if int_val x < int_val y then - 1 else if int_val x = int_val y then 0 else 1)"
proof -
  consider "len x < len y" | "len y < len x" | "len x = len y" by linarith
  then show ?thesis
  proof cases
    case 1
    then show ?thesis using len_mono [OF assms] by (simp add: Cmp_def)
  next
    case 2
    then show ?thesis using len_mono [OF assms(2,1)] by (auto simp: Cmp_def)
  next
    case 3
    have "len y \<le> 16" using assms by (simp add: int_wf_len)
    with 3 show ?thesis using Cmp_loop_value [of "len y" "words x" "words y"] assms
      by (simp add: Cmp_def int_val_take)
  qed
qed

lemma int_val_inj: "int_wf x \<Longrightarrow> int_wf y \<Longrightarrow> int_val x = int_val y \<Longrightarrow> x = y"
  using bnum_inj [of "words x" "words y"] by (cases x; cases y) (auto simp: int_val_def int_wf_def)


lemma Clone_wf [simp]: "int_wf x \<Longrightarrow> Clone x = x"
  using take_pad [of x] by (cases x) (simp add: Clone_def)

lemma Zero_wf [simp]: "int_wf Zero" "int_val Zero = 0"
proof -
  show "int_wf Zero" unfolding Zero_def by (rule int_wfI) auto
qed (simp add: int_val_def Zero_def)

lemma int_wf_padI:
  assumes "length zs = n" "n \<le> INT1024WORDS" "0 < n \<Longrightarrow> base ^ (n - 1) \<le> bnum zs"
  shows "int_wf \<lparr>words = zs @ replicate (INT1024WORDS - n) 0, len = n\<rparr>"
proof (rule int_wfI)
  assume n: "0 < n"
  show "(zs @ replicate (INT1024WORDS - n) 0) ! (n - 1) \<noteq> 0"
  proof
    assume "(zs @ replicate (INT1024WORDS - n) 0) ! (n - 1) = 0"
    then have "zs ! (n - 1) = 0" using assms(1) n by (simp add: nth_append)
    then have "zs = take (n - 1) zs @ [0]"
      using assms(1) n by (metis Suc_diff_1 lessI order_refl take_Suc_conv_app_nth take_all)
    then have "bnum zs = bnum (take (n - 1) zs)"
      using bnum_append [of "take (n - 1) zs" "[0]"] by simp
    then show False using assms n bnum_lt [of "take (n - 1) zs"] by simp
  qed
qed (use assms in \<open>auto simp: nth_append\<close>)

lemma pad_update:
  assumes "length z = m" "m < INT1024WORDS"
  shows "(z @ replicate (INT1024WORDS - m) 0)[m := c] = (z @ [c]) @ replicate (INT1024WORDS - (m + 1)) (0 :: u64)"
proof -
  have "16 - m = Suc (15 - m)" using assms by linarith
  then have r: "replicate (16 - m) (0::u64) = 0 # replicate (15 - m) 0"
    by simp
  show ?thesis unfolding r using assms(1) by (simp add: list_update_append)
qed

lemma bnum_lt_16: "length zs \<le> INT1024WORDS \<Longrightarrow> bnum zs < base ^ INT1024WORDS"
  using bnum_lt [of zs] power_increasing [of "length zs" 16 base] by (simp add: less_le_trans Suc_leI)

lemma Inc_words:
  assumes "int_wf x" "int_wf y" "len x \<noteq> 0" "len y \<noteq> 0"
  defines "m \<equiv> max (len x) (len y)"
  obtains zs c where "length zs = m" "unat c \<le> 1"
    "bnum zs + base ^ m * unat c = int_val x + int_val y"
    "Inc x y = (let ws = zs @ replicate (INT1024WORDS - m) 0 in
       if c > 0 then
         if m < INT1024WORDS then \<lparr>words = ws[m := c], len = m + 1\<rparr> else setLength ws
       else \<lparr>words = ws, len = m\<rparr>)"
proof -
  define a b where ab: "a = (if len x < len y then y else x)" "b = (if len x < len y then x else y)"
  define n where "n = len b"
  have wf: "int_wf a" "int_wf b" and sum: "int_val a + int_val b = int_val x + int_val y"
    and mn: "m = len a" "n \<le> m"
    using assms by (auto simp: ab n_def)
  have m16: "m \<le> 16" using int_wf_len [OF wf(1)] mn by simp
  obtain z c where v: "AddVV_g n (words a) (words b) = (z, c)" by fastforce
  obtain z2 c2 where w: "AddVW_g (m - n) (drop n (words a)) c = (z2, c2)" by fastforce
  note V = AddVV_g_value [OF _ _ v] and W = AddVW_g_value [OF _ _ w]
  have l: "length z = n" "length z2 = m - n" "unat c2 \<le> 1"
    using V W wf m16 mn by auto
  have e: "bnum z + base ^ n * unat c = bnum (take n (words a)) + int_val b"
    "bnum z2 + base ^ (m - n) * unat c2 = bnum (take (m - n) (drop n (words a))) + unat c"
    using V W wf m16 mn by (auto simp: int_val_take n_def)
  have "base ^ n * (bnum z2 + base ^ (m - n) * unat c2) =
      base ^ n * (bnum (take (m - n) (drop n (words a))) + unat c)"
    by (simp only: e(2))
  moreover have "int_val a = bnum (take n (words a)) + base ^ n * bnum (take (m - n) (drop n (words a)))"
  proof -
    have "take m (words a) = take n (words a) @ take (m - n) (drop n (words a))"
      using mn(2) by (metis le_add_diff_inverse take_add)
    then show ?thesis
      using mn m16 wf by (simp add: int_val_take bnum_append min_def)
  qed
  moreover have "base ^ m = base ^ n * base ^ (m - n)" using mn by (simp flip: power_add)
  ultimately have val: "bnum (z @ z2) + base ^ m * unat c2 = int_val x + int_val y"
    using e(1) l(1) unfolding sum [symmetric] by (simp add: bnum_append distrib_left mult.assoc)
  have x: "words x = take m (words x) @ replicate (16 - m) 0"
    using assms by (intro take_pad_ge) auto
  have ws: "write_at n z2 (write_at 0 z (words x)) = (z @ z2) @ replicate (16 - m) 0"
    using l mn m16 assms(1) by (subst x) (simp add: write_at_def)
  have "Inc x y = (let ws = (z @ z2) @ replicate (INT1024WORDS - m) 0 in
       if c2 > 0 then
         if m < INT1024WORDS then \<lparr>words = ws[m := c2], len = m + 1\<rparr> else setLength ws
       else \<lparr>words = ws, len = m\<rparr>)"
  proof (cases "n < m")
    case True
    then show ?thesis using assms(3,4) v w ws mn
      by (simp add: Inc_def IsZero_def Let_def n_def ab split: if_splits)
  next
    case False
    then have "n = m" "z2 = []" "c2 = c" using mn w by (auto simp: AddVW_g_def)
    then show ?thesis using assms(3,4) v ws mn l
      by (simp add: Inc_def IsZero_def Let_def n_def ab write_at_def split: if_splits)
  qed
  then show ?thesis using l mn val by (intro that [of "z @ z2" c2]) auto
qed

lemma Inc_value:
  assumes "int_wf x" "int_wf y"
  shows "int_wf (Inc x y) \<and> int_val (Inc x y) = (int_val x + int_val y) mod base ^ INT1024WORDS"
proof (cases "IsZero y \<or> IsZero x")
  case True
  show ?thesis
  proof (cases "IsZero y")
    case True
    then show ?thesis using assms int_val_bound [of x] by (simp add: Inc_def IsZero_val)
  next
    case False
    then have x0: "IsZero x" using True by simp
    then have "words x = replicate 16 0"
      using take_pad [OF assms(1)] by (simp add: IsZero_def)
    then have "Inc x y = y"
      using take_pad [OF assms(2)] x0 False int_wf_len [OF assms(2)] int_wf_length [OF assms(2)]
      by (cases y) (simp add: Inc_def write_at_def min_def)
    then show ?thesis using x0 assms int_val_bound [of y] by (simp add: IsZero_val)
  qed
next
  case False
  then have nz: "len x \<noteq> 0" "len y \<noteq> 0" by (auto simp: IsZero_def)
  define m where "m = max (len x) (len y)"
  have m: "m \<le> 16" "0 < m" using assms nz by (auto simp: m_def int_wf_len)
  obtain zs c where zs: "length zs = m" "unat c \<le> 1"
    "bnum zs + base ^ m * unat c = int_val x + int_val y"
    "Inc x y = (let ws = zs @ replicate (INT1024WORDS - m) 0 in
       if c > 0 then
         if m < INT1024WORDS then \<lparr>words = ws[m := c], len = m + 1\<rparr> else setLength ws
       else \<lparr>words = ws, len = m\<rparr>)"
    using Inc_words [OF assms nz] unfolding m_def by blast
  have zlt: "bnum zs < base ^ 16"
    using bnum_lt [of zs] power_increasing [of m 16 base] zs(1) m(1) by (simp add: less_le_trans)
  show ?thesis
  proof (cases "c = 0")
    case True
    have "base ^ (m - 1) \<le> int_val x + int_val y"
      using int_val_ge [OF assms(1)] int_val_ge [OF assms(2)] nz by (auto simp: m_def max_def)
    then have "int_wf (Inc x y)"
      using int_wf_padI [of zs m] zs True m by (simp add: Let_def)
    then show ?thesis using zs zlt True by (simp add: int_val_def Let_def)
  next
    case False
    then have c: "c = 1" using zs(2) by (intro carry_1) auto
    show ?thesis
    proof (cases "m < 16")
      case True
      have ws: "(zs @ replicate (16 - m) 0)[m := c] = (zs @ [1]) @ replicate (16 - (m + 1)) 0"
        using pad_update [OF zs(1) True] c by simp
      have val: "bnum (zs @ [1]) = int_val x + int_val y"
        using zs(1,3) c by (simp add: bnum_append)
      moreover have "bnum (zs @ [1]) < base ^ 16"
        using bnum_lt [of "zs @ [1]"] power_increasing [of "m + 1" 16 base] zs(1) True
        by (simp add: less_le_trans del: power_Suc)
      ultimately have lt: "int_val x + int_val y < base ^ 16" by simp
      have "Inc x y = \<lparr>words = (zs @ [1]) @ replicate (16 - (m + 1)) 0, len = m + 1\<rparr>"
        using zs(4) ws True c by (simp add: Let_def)
      moreover have "int_wf \<lparr>words = (zs @ [1]) @ replicate (16 - (m + 1)) 0, len = m + 1\<rparr>"
        using zs(1) True by (intro int_wf_padI) (auto simp: bnum_append)
      ultimately show ?thesis using val lt
        by (simp add: int_val_def del: append_assoc)
    next
      case False
      then have m16: "m = 16" using m by simp
      have "Inc x y = setLength zs" using zs(4) m16 c by (simp add: Let_def)
      moreover have "(int_val x + int_val y) mod base ^ 16 = bnum zs"
        using zs(3) zlt m16 c by (metis mod_add_mult)
      ultimately show ?thesis using int_wf_setLength zs(1) m16 by simp
    qed
  qed
qed

lemma Dec_words:
  assumes "int_wf x" "int_wf y" "len y \<noteq> 0"
  obtains ws and c :: u64 where "length ws = INT1024WORDS" "unat c \<le> 1"
    "bnum ws + int_val y = int_val x + base ^ (if len y < len x then INT1024WORDS else len y) * unat c"
    "len x \<le> len y \<Longrightarrow> drop (len y) ws = replicate (INT1024WORDS - len y) 0"
    "Dec x y = (if c \<noteq> 0 then \<lparr>words = take (len y) ws @ replicate (INT1024WORDS - len y) (- 1), len = INT1024WORDS\<rparr>
       else setLength ws)"
proof -
  define n where "n = len y"
  have n16: "n \<le> 16" using assms by (simp add: n_def int_wf_len)
  obtain z c where v: "SubVV_g n (words x) (words y) = (z, c)" by fastforce
  have V: "bnum z + int_val y = bnum (take n (words x)) + base ^ n * unat c" "length z = n" "unat c \<le> 1"
    using SubVV_g_value [OF _ _ v] n16 assms by (simp_all add: int_val_take n_def)
  have w0: "write_at 0 z (words x) = z @ drop n (words x)"
    using V(2) by (simp add: write_at_def)
  have f: "fold (\<lambda>i ws. ws[i := - 1]) [n..<16] ws = take n ws @ replicate (16 - n) (- 1)" if "length ws = 16" for ws :: "u64 list"
    using fold_update_upt [of n 16 ws] n16 that by simp
  show ?thesis
  proof (cases "n < len x")
    case True
    obtain z2 c2 where w: "SubVW_g (16 - n) (drop n (words x)) c = (z2, c2)" by fastforce
    have W: "bnum z2 + unat c = bnum (drop n (words x)) + base ^ (16 - n) * unat c2" "length z2 = 16 - n" "unat c2 \<le> 1"
      using SubVW_g_value [OF _ V(3) w] assms by simp_all
    have "base ^ n * (bnum z2 + unat c) = base ^ n * (bnum (drop n (words x)) + base ^ (16 - n) * unat c2)"
      by (simp only: W(1))
    moreover have "base ^ n * base ^ (16 - n) = base ^ 16" using n16 by (simp flip: power_add)
    moreover have "int_val x = bnum (take n (words x)) + base ^ n * bnum (drop n (words x))"
      unfolding int_val_def using bnum_take_drop [of "words x" n] n16 assms by (simp add: min_def)
    ultimately have "bnum (z @ z2) + int_val y = int_val x + base ^ 16 * unat c2"
      using V by (simp add: bnum_append distrib_left flip: mult.assoc)
    moreover have "Dec x y = (if c2 \<noteq> 0 then \<lparr>words = take n (z @ z2) @ replicate (16 - n) (- 1), len = 16\<rparr>
       else setLength (z @ z2))"
      using assms(1,3) True v w w0 V W n16 f [of "z @ z2"]
      by (simp add: Dec_def IsZero_def Let_def n_def write_at_def)
    ultimately show ?thesis using True V W n16
      by (intro that [of "z @ z2" c2]) (auto simp: n_def)
  next
    case False
    then have d: "drop n (words x) = replicate (16 - n) 0"
      using int_wf_zero [OF assms(1)] assms(1) by (subst drop_zeros) auto
    have "Dec x y = (if c \<noteq> 0 then \<lparr>words = take n (z @ drop n (words x)) @ replicate (16 - n) (- 1), len = 16\<rparr>
       else setLength (z @ drop n (words x)))"
      using assms(3) False v w0 V n16 f [of "z @ drop n (words x)"] assms(1)
      by (simp add: Dec_def IsZero_def Let_def n_def)
    moreover have "int_val x = bnum (take n (words x))"
      using d False assms(1) by (metis append_take_drop_id bnum_append_zeros int_val_def)
    ultimately show ?thesis using False V n16 d
      by (intro that [of "z @ drop n (words x)" c]) (auto simp: n_def)
  qed
qed

lemma Dec_value:
  assumes "int_wf x" "int_wf y"
  shows "int_val (Dec x y) = (if int_val y \<le> int_val x then int_val x - int_val y
      else int_val x + base ^ INT1024WORDS - int_val y) \<and>
    (int_val y \<le> int_val x \<or> len y < INT1024WORDS \<longrightarrow> int_wf (Dec x y))"
proof (cases "len y = 0")
  case True
  then show ?thesis using assms int_val_0_iff [of y] by (simp add: Dec_def IsZero_def)
next
  case False
  obtain ws and c :: u64 where ws: "length ws = INT1024WORDS" "unat c \<le> 1"
    "bnum ws + int_val y = int_val x + base ^ (if len y < len x then INT1024WORDS else len y) * unat c"
    "len x \<le> len y \<Longrightarrow> drop (len y) ws = replicate (INT1024WORDS - len y) 0"
    "Dec x y = (if c \<noteq> 0 then \<lparr>words = take (len y) ws @ replicate (INT1024WORDS - len y) (- 1), len = INT1024WORDS\<rparr>
       else setLength ws)"
    using Dec_words [OF assms False] by blast
  have n16: "len y \<le> 16" using assms by (simp add: int_wf_len)
  have lt: "bnum ws < base ^ 16" using bnum_lt [of ws] ws(1) by simp
  show ?thesis
  proof (cases "c = 0")
    case True
    then show ?thesis using ws int_wf_setLength [of ws] by auto
  next
    case c: False
    then have c1: "c = 1" using ws(2) by (intro carry_1) auto
    have nm: "len x \<le> len y"
      using ws(3) lt len_mono [OF assms(2,1)] c1 by (rule_tac ccontr) simp
    have tk: "ws = take (len y) ws @ replicate (16 - len y) 0"
      using ws(4) [OF nm] by (metis append_take_drop_id)
    have bt: "bnum (take (len y) ws) = bnum ws" by (subst (2) tk) simp
    have l: "length (take (len y) ws) = len y" using ws(1) n16 by simp
    have "bnum (take (len y) ws) < base ^ len y"
      using bnum_lt [of "take (len y) ws"] l by simp
    then have ylt: "int_val x < int_val y" using ws(3) nm c1 bt by simp
    define t where "t = bnum (replicate (16 - len y) (- 1 :: u64))"
    have "base ^ len y * (t + 1) = base ^ 16"
      unfolding t_def bnum_replicate_max using n16 by (simp flip: power_add)
    then have "int_val (Dec x y) + int_val y = int_val x + base ^ 16"
      using ws(3,5) c c1 nm bt l by (simp add: int_val_def bnum_append flip: t_def)
    moreover have "int_wf (Dec x y)" if "len y < 16"
      using ws(1,5) c that l by (auto simp: nth_append intro!: int_wfI)
    ultimately show ?thesis using ylt by auto
  qed
qed

lemma FromUint_wf [simp]: "int_wf (FromUint n)" "int_val (FromUint n) = unat n"
proof -
  have f: "words (FromUint n) = n # replicate 15 0" "len (FromUint n) = (if n = 0 then 0 else 1)"
    by (simp_all add: FromUint_def SetUint_def Zero_def numeral_eq_Suc)
  show "int_wf (FromUint n)"
    using f int_wfI [of "n # replicate 15 0" "if n = 0 then 0 else 1"]
    by (cases "FromUint n") (auto simp: nth_Cons split: nat.splits)
  show "int_val (FromUint n) = unat n"
    using bnum_replicate_0 [of 15] by (simp add: int_val_def f del: replicate.simps)
qed

lemma SetUint_FromUint: "int_wf x \<Longrightarrow> SetUint x n = FromUint n"
proof -
  assume x: "int_wf x"
  have "fold (\<lambda>i ws. ws[i := 0]) [1..<len x] (words x) = take 1 (words x) @ replicate 15 0"
  proof (cases "len x = 0")
    case True
    then show ?thesis using take_pad_ge [OF x, of 1] by simp
  next
    case False
    moreover have "drop (len x) (words x) = replicate (16 - len x) 0"
      using take_pad [OF x] int_wf_len [OF x] x
      by (metis append_eq_conv_conj int_wf_length length_take min.absorb2)
    ultimately show ?thesis
      using fold_update_upt [of 1 "len x" "words x" 0] int_wf_len [OF x] x
      by (simp flip: replicate_add)
  qed
  moreover have "take 1 (words x) = [words x ! 0]"
    using x by (simp add: take_Suc_conv_app_nth)
  moreover have "words Zero = 0 # replicate 15 0" "len Zero = 0"
    by (simp_all add: Zero_def numeral_eq_Suc)
  ultimately show ?thesis by (simp add: SetUint_def FromUint_def)
qed

lemma ToUint_value:
  assumes "int_wf x"
  shows "ToUint x = (if int_val x < base then Inr (word_of_nat (int_val x)) else Inl ErrTooBigForUint)"
proof (cases "len x \<le> 1")
  case True
  then have "int_val x = unat (words x ! 0)"
    using take_pad_ge [OF assms True]
    by (metis assms bnum.simps bnum_append_zeros int_val_def int_wf_length One_nat_def add.right_neutral mult_0_right take_Suc_conv_app_nth take0 append_Nil zero_less_numeral)
  then show ?thesis using True by (simp add: ToUint_def)
next
  case False
  have "base ^ 1 \<le> base ^ (len x - 1)" using False by (intro power_increasing) (auto simp: Suc_leI)
  then have "base \<le> int_val x" using int_val_ge [OF assms] False by simp
  moreover have "list_ex (\<lambda>i. words x ! i \<noteq> 0) [1..<len x]"
    using int_wf_top [OF assms] False by (auto simp: list_ex_iff intro!: bexI [of _ "len x - 1"])
  ultimately show ?thesis by (simp add: ToUint_def)
qed


lemma BasicMul_round_value:
  assumes "l \<le> length x" "i + l < length ws" "ws ! (i + l) = 0"
  shows "bnum (BasicMul_round x l i d ws) = bnum ws + base ^ i * (bnum (take l x) * unat d)"
    and "length (BasicMul_round x l i d ws) = length ws"
    and "i + l < j \<Longrightarrow> j < length ws \<Longrightarrow> BasicMul_round x l i d ws ! j = ws ! j"
proof -
  obtain z c where r: "AddMulVVW_loop (take l (drop i ws)) (take l x) d 0 = (z, c)" by fastforce
  define old where "old = bnum (take l (drop i ws))"
  have v: "bnum z + base ^ l * unat c = old + bnum (take l x) * unat d" "length z = l"
    using AddMulVVW_loop_value [OF _ r] assms by (simp_all add: old_def)
  define ws' where "ws' = write_at i z ws"
  have len: "length ws' = length ws" using v assms by (simp add: ws'_def)
  have w1: "bnum ws' + base ^ i * old = bnum ws + base ^ i * bnum z"
    using bnum_write_at [of i z ws] v assms by (simp add: ws'_def old_def)
  have "ws' ! (i + l) = 0" using assms v by (simp add: ws'_def nth_write_at)
  then have w2: "bnum (ws'[i + l := c]) = bnum ws' + base ^ (i + l) * unat c"
    using bnum_update [of "i + l" ws' c] assms len by simp
  have "base ^ i * (bnum z + base ^ l * unat c) = base ^ i * (old + bnum (take l x) * unat d)"
    by (simp only: v(1))
  then have "bnum (ws'[i + l := c]) = bnum ws + base ^ i * (bnum (take l x) * unat d)"
    using w1 w2 by (simp add: distrib_left power_add mult.assoc)
  then show "bnum (BasicMul_round x l i d ws) = bnum ws + base ^ i * (bnum (take l x) * unat d)"
    using r by (simp add: BasicMul_round_def ws'_def add.commute)
  show "length (BasicMul_round x l i d ws) = length ws"
    using r len by (simp add: BasicMul_round_def ws'_def)
  show "i + l < j \<Longrightarrow> j < length ws \<Longrightarrow> BasicMul_round x l i d ws ! j = ws ! j"
    using r v assms by (simp add: BasicMul_round_def nth_write_at)
qed

lemma BasicMul_words_value:
  assumes "int_wf x" "int_wf y" "len x + len y \<le> sz"
  shows "bnum (BasicMul_words sz x y) = int_val x * int_val y"
    and "length (BasicMul_words sz x y) = sz"
    and "len x + len y \<le> j \<Longrightarrow> j < sz \<Longrightarrow> BasicMul_words sz x y ! j = 0"
proof -
  define F where "F k = fold (\<lambda>i ws. BasicMul_round (words x) (len x) i (words y ! i) ws) [0..<k] (replicate sz 0)" for k
  have "k \<le> len y \<Longrightarrow> bnum (F k) = int_val x * bnum (take k (words y)) \<and> length (F k) = sz \<and>
      (\<forall>j. len x + k \<le> j \<longrightarrow> j < sz \<longrightarrow> F k ! j = 0)" for k
  proof (induction k)
    case 0
    then show ?case by (simp add: F_def)
  next
    case (Suc k)
    have F: "F (Suc k) = BasicMul_round (words x) (len x) k (words y ! k) (F k)"
      by (simp add: F_def)
    have k: "k < 16" using Suc.prems int_wf_len [OF assms(2)] by simp
    have r: "len x \<le> length (words x)" "k + len x < length (F k)" "F k ! (k + len x) = 0"
      using Suc assms int_wf_len [OF assms(1)] by auto
    note R = BasicMul_round_value [OF r]
    have "bnum (take (Suc k) (words y)) = bnum (take k (words y)) + base ^ k * unat (words y ! k)"
      using k assms(2) by (simp add: take_Suc_conv_app_nth bnum_append min_def)
    then have "bnum (F (Suc k)) = int_val x * bnum (take (Suc k) (words y))"
      using Suc R(1) [of "words y ! k"] F
      by (simp add: int_val_take [OF assms(1), symmetric] algebra_simps)
    moreover have "F (Suc k) ! j = 0" if "len x + Suc k \<le> j" "j < sz" for j
      using Suc R(3) [of j "words y ! k"] F that by simp
    ultimately show ?case using Suc R(2) F by simp
  qed
  from this [of "len y"] show "bnum (BasicMul_words sz x y) = int_val x * int_val y"
    "length (BasicMul_words sz x y) = sz"
    "len x + len y \<le> j \<Longrightarrow> j < sz \<Longrightarrow> BasicMul_words sz x y ! j = 0"
    by (simp_all add: F_def BasicMul_words_def int_val_take [OF assms(2)])
qed

lemma Mul_tail_value:
  assumes "int_wf x" "int_wf y"
  shows "int_wf (Mul_tail x y) \<and> int_val (Mul_tail x y) = (int_val x * int_val y) mod base ^ INT1024WORDS"
proof (cases "len x + len y \<le> 16")
  case True
  note B = BasicMul_words_value [OF assms True]
  have "int_val x * int_val y < base ^ 16"
    using bnum_lt [of "BasicMul_words 16 x y"] B by simp
  then show ?thesis
    using True B highest_drop_zeros [of "len x + len y" 16 "BasicMul_words 16 x y"]
    by (simp add: Mul_tail_def BasicMul_def Let_def int_val_def int_wf_def)
next
  case False
  have "len x + len y \<le> 16 * 2" using int_wf_len [OF assms(1)] int_wf_len [OF assms(2)] by simp
  note B = BasicMul_words_value [OF assms this]
  then show ?thesis using False
    by (simp add: Mul_tail_def BasicMulBig_def Let_def int_val_def int_wf_def firstPositive_highest bnum_take_mod)
qed

lemma mulAddWW_value:
  assumes "int_wf x" "len x \<noteq> 0" "y \<noteq> 0"
  shows "int_val (mulAddWW x y) = (int_val x * unat y) mod base ^ INT1024WORDS"
    and "int_val x * unat y < base ^ INT1024WORDS \<Longrightarrow> int_wf (mulAddWW x y)"
proof -
  define m where "m = len x"
  have m: "m \<le> 16" "0 < m" using assms int_wf_len by (auto simp: m_def)
  obtain z c where r: "MulAddVWW_g m (words x) y 0 = (z, c)" by fastforce
  have v: "bnum z + base ^ m * unat c = int_val x * unat y" "length z = m"
    using MulAddVWW_g_value [OF _ r] m assms by (simp_all add: m_def int_val_take)
  have w: "write_at 0 z (words Zero) = z @ replicate (16 - m) 0"
    using v m by (simp add: write_at_def Zero_def)
  have ge: "base ^ (m - 1) \<le> int_val x * unat y"
  proof -
    have "base ^ (m - 1) * 1 \<le> int_val x * unat y"
      using int_val_ge [OF assms(1)] assms by (intro mult_mono) (auto simp: m_def Suc_leI unat_gt_0)
    then show ?thesis by simp
  qed
  have "int_val (mulAddWW x y) = (int_val x * unat y) mod base ^ 16 \<and>
    (int_val x * unat y < base ^ 16 \<longrightarrow> int_wf (mulAddWW x y))"
  proof (cases "c = 0")
    case True
    then have e: "mulAddWW x y = \<lparr>words = z @ replicate (16 - m) 0, len = m\<rparr>"
      using r w by (simp add: mulAddWW_def Let_def flip: m_def)
    then show ?thesis
      using int_wf_padI [of z m] v ge m True bnum_lt_16 [of z] by (simp add: int_val_def)
  next
    case False
    show ?thesis
    proof (cases "m < 16")
      case True
      have "mulAddWW x y = \<lparr>words = (z @ [c]) @ replicate (16 - (m + 1)) 0, len = m + 1\<rparr>"
        using True False r w pad_update [OF v(2) True, of c] word_neq_0_conv [of c]
        by (simp add: mulAddWW_def Let_def flip: m_def)
      moreover have val: "bnum (z @ [c]) = int_val x * unat y"
        using v by (simp add: bnum_append)
      moreover have "base ^ m \<le> bnum (z @ [c])"
        using bnum_top [of "z @ [c]" m] v False by (simp add: nth_append)
      ultimately show ?thesis
        using int_wf_padI [of "z @ [c]" "m + 1"] bnum_lt_16 [of "z @ [c]"] v True
        by (simp add: int_val_def del: append_assoc)
    next
      case big: False
      then have "m = 16" using m by simp
      then have e: "mulAddWW x y = \<lparr>words = z, len = m\<rparr>"
        using r w by (simp add: mulAddWW_def Let_def flip: m_def)
      have "(int_val x * unat y) mod base ^ 16 = bnum z"
        using v bnum_lt_16 [of z] \<open>m = 16\<close> by (metis mod_add_mult order_refl)
      moreover have "base ^ 16 * 1 \<le> base ^ 16 * unat c"
        using False by (intro mult_le_mono2) (simp add: unat_gt_0 Suc_leI)
      then have "base ^ 16 \<le> int_val x * unat y"
        using v \<open>m = 16\<close> by (metis mult.right_neutral trans_le_add2)
      ultimately show ?thesis using e by (simp add: int_val_def)
    qed
  qed
  then show "int_val (mulAddWW x y) = (int_val x * unat y) mod base ^ 16"
    "int_val x * unat y < base ^ 16 \<Longrightarrow> int_wf (mulAddWW x y)" by auto
qed

lemma Mul_value:
  assumes "int_wf x" "int_wf y"
  shows "int_val (Mul x y) = (int_val x * int_val y) mod base ^ INT1024WORDS \<and>
    (int_val x * int_val y < base ^ INT1024WORDS \<longrightarrow> int_wf (Mul x y))"
proof -
  consider "len x < len y" | "\<not> len x < len y" "IsZero x \<or> IsZero y"
    | "\<not> len x < len y" "\<not> (IsZero x \<or> IsZero y)" "len y = 1"
    | "\<not> len x < len y" "\<not> (IsZero x \<or> IsZero y)" "len y \<noteq> 1"
    by blast
  then show ?thesis
  proof cases
    case 1
    then show ?thesis using Mul_tail_value [OF assms(2,1)] by (simp add: Mul_def mult.commute)
  next
    case 2
    then show ?thesis using assms by (auto simp: Mul_def IsZero_val)
  next
    case 3
    then have "len x \<noteq> 0" "words y ! 0 \<noteq> 0" using int_wf_top [OF assms(2)] by auto
    moreover have "int_val y = unat (words y ! 0)"
      using 3(3) int_val_take [OF assms(2)] assms(2) by (simp add: take_Suc_conv_app_nth)
    ultimately show ?thesis using mulAddWW_value [OF assms(1)] 3 by (simp add: Mul_def)
  next
    case 4
    then show ?thesis using Mul_tail_value [OF assms] by (simp add: Mul_def)
  qed
qed

end
