(* ===== verification/Int1024_Bits.thy ===== *)
theory Int1024_Bits
  imports Int1024
begin

unbundle bit_operations_syntax

section \<open>Bitwise operations: \<^verbatim>\<open>int1024_bitwise.go\<close>\<close>

text \<open>
  Shifts, bitwise connectives, single bits and the bit length. Shift counts are the
  \<^verbatim>\<open>uint\<close> arguments of the source as natural numbers; the conversion
  \<^verbatim>\<open>uint16(div)\<close> is written out as \<open>mod 65536\<close>. \<open>None\<close> is the index panic of
  \<^verbatim>\<open>ShiftLeftInPlace\<close> when it clears more words than there are.

  The lemmas relate every operation to the same operation on the number represented.
\<close>

subsection \<open>Shifts\<close>

text \<open>The word loops of \<^verbatim>\<open>shiftleft\<close> (upwards) and \<^verbatim>\<open>shiftright\<close>
  (downwards, hence the reversal), with the bits carried between words.\<close>

fun shl_loop :: "nat \<Rightarrow> u64 list \<Rightarrow> u64 \<Rightarrow> u64 list \<times> u64" where
  "shl_loop n [] ov = ([], ov)"
| "shl_loop n (w # ws) ov =
     (let new = drop_bit (64 - n) w AND mask n;
          (zs, c) = shl_loop n ws new
      in ((push_bit n w OR ov) # zs, c))"

fun shr_loop :: "nat \<Rightarrow> u64 list \<Rightarrow> u64 list \<times> u64" where
  "shr_loop n [] = ([], 0)"
| "shr_loop n (w # ws) =
     (let (zs, ov) = shr_loop n ws
      in ((drop_bit n w OR ov) # zs, push_bit (64 - n) (w AND mask n)))"

definition shiftleft :: "int1024 \<Rightarrow> nat \<Rightarrow> int1024" where
  "shiftleft x n =
     (let (zs, ov) = shl_loop n (take (len x) (words x)) 0;
          ws = write_at 0 zs (words x)
      in if ov \<noteq> 0 \<and> len x < INT1024WORDS
         then \<lparr>words = ws[len x := ov], len = len x + 1\<rparr>
         else \<lparr>words = ws, len = firstPositive (len x) ws\<rparr>)"

definition shiftleftone :: "int1024 \<Rightarrow> int1024" where
  "shiftleftone x =
     (let (zs, ov) = shl_loop 1 (take (len x) (words x)) 0;
          ws = write_at 0 zs (words x)
      in if ov \<noteq> 0 \<and> len x < INT1024WORDS
         then \<lparr>words = ws[len x := ov], len = len x + 1\<rparr>
         else \<lparr>words = ws, len = firstPositive (len x) ws\<rparr>)"

text \<open>Moving whole words: the loop runs over the positions \<open>div, \<dots>, n - 1\<close>, where \<open>n\<close> is the
  number of words the result can have.\<close>

definition shl_words :: "int1024 \<Rightarrow> nat \<Rightarrow> int1024 option" where
  "shl_words x d =
     (if d > INT1024WORDS then None
      else let n = min INT1024WORDS (len x + d mod 65536);
               ws = replicate d 0 @ take (n - d) (words x) @ drop (max n d) (words x)
           in Some \<lparr>words = ws, len = highest n ws\<rparr>)"

definition ShiftLeftInPlace :: "int1024 \<Rightarrow> nat \<Rightarrow> int1024 option" where
  "ShiftLeftInPlace x n =
     (let d = n div 64
      in do { y \<leftarrow> (if d > 0 then shl_words x d else Some x);
              Some (if n mod 64 = 1 then shiftleftone y else shiftleft y (n mod 64)) })"

definition ShiftLeft :: "int1024 \<Rightarrow> nat \<Rightarrow> int1024 option" where
  "ShiftLeft x n = ShiftLeftInPlace (Clone x) n"

definition shr_trim :: "u64 list \<Rightarrow> nat \<Rightarrow> int1024" where
  "shr_trim ws l = \<lparr>words = ws, len = (if l > 0 \<and> ws ! (l - 1) = 0 then l - 1 else l)\<rparr>"

definition shiftright :: "int1024 \<Rightarrow> nat \<Rightarrow> int1024" where
  "shiftright x n =
     shr_trim (write_at 0 (fst (shr_loop n (take (len x) (words x)))) (words x)) (len x)"

definition shiftrightone :: "int1024 \<Rightarrow> int1024" where
  "shiftrightone x =
     shr_trim (write_at 0 (fst (shr_loop 1 (take (len x) (words x)))) (words x)) (len x)"

definition shr_words :: "int1024 \<Rightarrow> nat \<Rightarrow> int1024" where
  "shr_words x d =
     (let d16 = d mod 65536;
          l = (if d16 > len x then 0 else len x - d16)
      in \<lparr>words = take l (drop d16 (words x)) @ replicate (len x - l) 0 @ drop (len x) (words x),
          len = l\<rparr>)"

definition ShiftRightInPlace :: "int1024 \<Rightarrow> nat \<Rightarrow> int1024" where
  "ShiftRightInPlace x n =
     (let d = n div 64;
          y = (if d > 0 then shr_words x d else x)
      in if n mod 64 = 1 then shiftrightone y else shiftright y (n mod 64))"

definition ShiftRight :: "int1024 \<Rightarrow> nat \<Rightarrow> int1024" where
  "ShiftRight x n = ShiftRightInPlace (Clone x) n"

subsection \<open>Bits and connectives\<close>

definition IsBitSet :: "int1024 \<Rightarrow> int \<Rightarrow> bool" where
  "IsBitSet x n =
     (if n > 1023 \<or> n < 0 then False
      else let w = nat (n div 64)
           in if w \<ge> len x then False
              else words x ! w AND push_bit (nat (n mod 64)) 1 \<noteq> 0)"

definition AND_int :: "int1024 \<Rightarrow> int1024 \<Rightarrow> int1024" where
  "AND_int x y =
     (let m = min (len x) (len y);
          ws = map (\<lambda>i. words x ! i AND words y ! i) [0..<m] @ replicate (INT1024WORDS - m) 0
      in \<lparr>words = ws, len = firstPositive m ws\<rparr>)"

definition ORInPlace :: "int1024 \<Rightarrow> int1024 \<Rightarrow> int1024" where
  "ORInPlace x y =
     (let mi = min (len x) (len y); ma = max (len x) (len y);
          maxi = (if len y < len x then x else y);
          ws = map (\<lambda>i. words x ! i OR words y ! i) [0..<mi]
             @ map (\<lambda>i. words maxi ! i) [mi..<ma] @ drop ma (words x)
      in \<lparr>words = ws, len = firstPositive ma ws\<rparr>)"

definition OR_int :: "int1024 \<Rightarrow> int1024 \<Rightarrow> int1024" where
  "OR_int x y = ORInPlace (Clone x) y"

definition XOR_int :: "int1024 \<Rightarrow> int1024 \<Rightarrow> int1024" where
  "XOR_int x y =
     (let mi = min (len x) (len y); ma = max (len x) (len y);
          maxi = (if len y < len x then x else y);
          ws = map (\<lambda>i. words x ! i XOR words y ! i) [0..<mi]
             @ map (\<lambda>i. words maxi ! i) [mi..<ma] @ replicate (INT1024WORDS - ma) 0
      in \<lparr>words = ws, len = firstPositive ma ws\<rparr>)"

definition NOT_int :: "int1024 \<Rightarrow> int1024" where
  "NOT_int x =
     (let ws = map (\<lambda>i. NOT (words x ! i)) [0..<len x] @ replicate (INT1024WORDS - len x) (- 1)
      in if len x < INT1024WORDS then \<lparr>words = ws, len = INT1024WORDS\<rparr> else setLength ws)"

text \<open>\<^verbatim>\<open>bits.Len64\<close> is 64 less the number of leading zeros.\<close>

definition BitLength :: "int1024 \<Rightarrow> nat" where
  "BitLength x =
     (if len x = 0 then 0 else (len x - 1) * 64 + (64 - Nlz (words x ! (len x - 1))))"

definition HalfMax :: int1024 where
  "HalfMax = ShiftRightInPlace maxInt 1"

subsection \<open>Single bits of a vector\<close>

lemma bit_bnum: "bit (bnum ws) k \<longleftrightarrow> k div 64 < length ws \<and> bit (ws ! (k div 64)) (k mod 64)"
proof (induction ws arbitrary: k)
  case (Cons w ws)
  show ?case
  proof (cases "k < 64")
    case True
    then have b: "base = 2 ^ k * 2 ^ (64 - k)" by (simp add: base_def flip: power_add)
    have "(unat w + base * bnum ws) div 2 ^ k = unat w div 2 ^ k + 2 ^ (64 - k) * bnum ws"
      unfolding b by (simp add: mult.assoc)
    then show ?thesis using True by (simp add: bit_iff_odd [where ?'a = nat] bit_unat)
  next
    case False
    have "bit (bnum (w # ws)) k = bit (bnum ws) (k - 64)"
    proof -
      have "(2::nat) ^ k = 2 ^ 64 * 2 ^ (k - 64)" using False by (metis le_add_diff_inverse not_less power_add)
      then have "bnum (w # ws) div 2 ^ k = bnum (w # ws) div base div 2 ^ (k - 64)"
        unfolding base_def by (simp add: div_mult2_eq)
      then show ?thesis using div_add_mult [OF unat_lt_base] by (simp add: bit_iff_odd)
    qed
    moreover have "k div 64 = Suc ((k - 64) div 64)" "k mod 64 = (k - 64) mod 64"
      using False by (simp_all add: le_div_geq le_mod_geq)
    ultimately show ?thesis using Cons by simp
  qed
qed simp

lemma IsBitSet_value:
  assumes "int_wf x"
  shows "IsBitSet x n \<longleftrightarrow> 0 \<le> n \<and> n < 1024 \<and> bit (int_val x) (nat n)"
proof (cases "0 \<le> n \<and> n < 1024")
  case True
  define k where "k = nat n"
  have k: "n = int k" "k < 1024" using True by (auto simp: k_def)
  have "n div 64 = int (k div 64)" "n mod 64 = int (k mod 64)"
    unfolding k(1) by (simp_all add: zdiv_int zmod_int)
  then have d: "nat (n div 64) = k div 64" "nat (n mod 64) = k mod 64" by simp_all
  have w: "w AND push_bit i 1 \<noteq> 0 \<longleftrightarrow> bit w i" if "i < 64" for w :: u64 and i
    using that by (simp add: and_exp_eq_0_iff_not_bit)
  have lt: "k div 64 < 16" using k(2) by simp
  show ?thesis
    using k d w [of "k mod 64"] int_wf_zero [OF assms _ lt] lt assms
    by (auto simp: IsBitSet_def bit_bnum int_val_def Let_def not_le)
next
  case False
  then show ?thesis by (auto simp: IsBitSet_def)
qed

lemma IsBitSet_top: "int_wf x \<Longrightarrow> IsBitSet x 1023 \<longleftrightarrow> base ^ INT1024WORDS \<le> 2 * int_val x"
proof -
  assume x: "int_wf x"
  define B :: nat where "B = 2 ^ 1023"
  have b: "base ^ 16 = 2 * B" by (simp add: base_def B_def flip: power_mult power_Suc)
  have "int_val x div B < 2"
    using int_val_bound [OF x] unfolding b by (simp add: less_mult_imp_div_less mult.commute)
  then have "odd (int_val x div B) \<longleftrightarrow> B \<le> int_val x"
    using div_greater_zero_iff [of "int_val x" B] by (auto simp: less_2_cases_iff B_def)
  moreover have "nat 1023 = 1023" by simp
  ultimately show ?thesis unfolding IsBitSet_value [OF x] bit_iff_odd b
    by (simp add: B_def del: power_numeral)
qed

subsection \<open>Shifts and connectives on numbers\<close>

lemma shl_step_value:
  assumes "n \<le> 64" "unat ov < 2 ^ n"
  shows "unat (push_bit n w OR ov) = (unat w * 2 ^ n) mod 2 ^ 64 + unat (ov :: u64)"
proof -
  have p: "(2::nat) ^ 64 = 2 ^ n * 2 ^ (64 - n)" using assms by (simp flip: power_add)
  have lt: "unat ov * 2 ^ (64 - n) < 2 ^ 64" unfolding p using assms(2) by simp
  define q where "q = push_bit (64 - n) ov"
  have q: "unat q = unat ov * 2 ^ (64 - n)" unfolding q_def unat_push64 using lt by simp
  have e: "drop_bit (64 - n) q = ov"
    unfolding word_eq_nat unat_drop64 q by simp
  show ?thesis using or_disjoint_value [OF assms(1), of w q] unfolding e q by simp
qed

lemma shl_loop_value:
  assumes "n \<le> 64" "unat ov < 2 ^ n" "shl_loop n ws ov = (zs, c)"
  shows "bnum zs + base ^ length ws * unat c = bnum ws * 2 ^ n + unat ov \<and> length zs = length ws"
  using assms(2-)
proof (induction ws arbitrary: ov zs c)
  case (Cons w ws)
  define new where "new = drop_bit (64 - n) w AND mask n"
  have p: "(2::nat) ^ 64 = 2 ^ n * 2 ^ (64 - n)" using assms by (simp flip: power_add)
  have d: "unat w div 2 ^ (64 - n) < 2 ^ n"
    using unat_lt_pow64 [of w] unfolding p by (simp add: less_mult_imp_div_less)
  then have new: "unat new = unat w div 2 ^ (64 - n)"
    by (simp add: new_def unat_and_mask64 unat_drop64)
  obtain zs' c' where r: "shl_loop n ws new = (zs', c')" by fastforce
  have z: "zs = (push_bit n w OR ov) # zs'" "c = c'"
    using Cons.prems(2) r by (auto simp: new_def Let_def)
  have ih: "bnum zs' + base ^ length ws * unat c' = bnum ws * 2 ^ n + unat new" "length zs' = length ws"
    using Cons.IH [OF _ r] d new by simp_all
  define l where "l = (unat w * 2 ^ n) mod 2 ^ 64"
  have sw: "l + base * unat new = unat w * 2 ^ n"
    unfolding l_def new by (rule shl_word_split [OF assms(1)])
  have "bnum zs + base ^ length (w # ws) * unat c = l + unat ov + base * (bnum zs' + base ^ length ws * unat c')"
    unfolding z using shl_step_value [OF assms(1) Cons.prems(1), of w]
    by (simp only: bnum.simps l_def length_Cons power_Suc distrib_left mult.assoc add.assoc)
  also have "\<dots> = (l + base * unat new) + base * (bnum ws * 2 ^ n) + unat ov"
    unfolding ih by (simp add: distrib_left)
  also have "\<dots> = bnum (w # ws) * 2 ^ n + unat ov"
    unfolding sw by (simp add: distrib_right)
  finally show ?case using ih z by simp
qed simp

lemma int_wf_highestI:
  assumes "length ws = INT1024WORDS" "n \<le> INT1024WORDS" "\<And>i. n \<le> i \<Longrightarrow> i < INT1024WORDS \<Longrightarrow> ws ! i = 0"
  shows "int_wf \<lparr>words = ws, len = highest n ws\<rparr>"
  using assms highest_drop_zeros [of n 16 ws] by (simp add: int_wf_def)

lemma shiftleft_value:
  assumes "int_wf x" "n \<le> 63"
  shows "int_wf (shiftleft x n) \<and> int_val (shiftleft x n) = (int_val x * 2 ^ n) mod base ^ INT1024WORDS"
proof -
  define m where "m = len x"
  have m: "m \<le> 16" using assms by (simp add: m_def int_wf_len)
  obtain zs c where r: "shl_loop n (take m (words x)) 0 = (zs, c)" by fastforce
  have v: "bnum zs + base ^ m * unat c = int_val x * 2 ^ n" "length zs = m"
    using shl_loop_value [OF _ _ r] assms m by (simp_all add: m_def int_val_take)
  have w: "write_at 0 zs (words x) = zs @ replicate (16 - m) 0"
    using take_pad [OF assms(1)] v m assms(1)
    by (metis append_eq_append_conv append_take_drop_id length_take m_def plus_nat.add_0 take0 write_at_def self_append_conv2)
  have s: "shiftleft x n = (if c \<noteq> 0 \<and> m < 16 then \<lparr>words = (zs @ replicate (16 - m) 0)[m := c], len = m + 1\<rparr>
      else \<lparr>words = zs @ replicate (16 - m) 0, len = highest m (zs @ replicate (16 - m) 0)\<rparr>)"
    using r w by (simp add: shiftleft_def firstPositive_highest Let_def flip: m_def)
  show ?thesis
  proof (cases "c \<noteq> 0 \<and> m < 16")
    case True
    have val: "bnum (zs @ [c]) = int_val x * 2 ^ n" using v by (simp add: bnum_append)
    have "base ^ m \<le> bnum (zs @ [c])" using bnum_top [of "zs @ [c]" m] v True by (simp add: nth_append)
    then show ?thesis
      using s True v(2) pad_update [OF v(2), of c] int_wf_padI [of "zs @ [c]" "m + 1"] val bnum_lt_16 [of "zs @ [c]"]
      by (simp add: int_val_def del: append_assoc)
  next
    case False
    then have e: "bnum zs = (int_val x * 2 ^ n) mod base ^ 16"
      using v bnum_lt_16 [of zs] m by (cases "c = 0") (auto, metis mod_add_mult)
    have "shiftleft x n = \<lparr>words = zs @ replicate (16 - m) 0, len = highest m (zs @ replicate (16 - m) 0)\<rparr>"
      using s False by auto
    then show ?thesis
      using int_wf_highestI [of "zs @ replicate (16 - m) 0" m] v(2) m e by (simp add: int_val_def nth_append)
  qed
qed

lemma shiftleftone_eq: "shiftleftone x = shiftleft x 1"
  by (simp add: shiftleftone_def shiftleft_def)

lemma shl_words_value:
  assumes "int_wf x" "d \<le> INT1024WORDS"
  shows "\<exists>y. shl_words x d = Some y \<and> int_wf y \<and> int_val y = (int_val x * base ^ d) mod base ^ INT1024WORDS"
proof -
  define n where "n = min 16 (len x + d)"
  have n: "d \<le> n" "n \<le> 16" "len x \<le> n" using assms int_wf_len [of x] by (auto simp: n_def)
  define t where "t = take (n - d) (words x)"
  have lt: "length t = n - d" using n assms by (simp add: t_def)
  have dr: "drop n (words x) = replicate (16 - n) 0"
    using int_wf_zero [OF assms(1)] n assms(1) by (subst drop_zeros) auto
  have t: "bnum t = int_val x mod base ^ (16 - d)"
  proof (cases "len x + d \<le> 16")
    case True
    then have "int_val x < base ^ (16 - d)"
      using int_val_lt [OF assms(1)] power_increasing [of "len x" "16 - d" base] by (simp add: less_le_trans)
    then show ?thesis using True by (simp add: t_def n_def int_val_take [OF assms(1)])
  next
    case False
    then show ?thesis by (simp add: t_def n_def bnum_take_mod int_val_def)
  qed
  define ws where "ws = replicate d 0 @ t @ replicate (16 - n) 0"
  have "d mod 65536 = d" using assms(2) by simp
  then have e: "shl_words x d = Some \<lparr>words = ws, len = highest n ws\<rparr>"
    using assms(2) n dr by (simp add: shl_words_def Let_def ws_def t_def max_def flip: n_def)
  have "int_wf \<lparr>words = ws, len = highest n ws\<rparr>"
    using n lt by (intro int_wf_highestI) (auto simp: ws_def nth_append)
  moreover have "bnum ws = base ^ d * bnum t" by (simp add: ws_def bnum_append)
  moreover have "base ^ d * (int_val x mod base ^ (16 - d)) = (int_val x * base ^ d) mod base ^ 16"
  proof -
    have "base ^ 16 = base ^ d * base ^ (16 - d)" using assms(2) by (simp flip: power_add)
    then show ?thesis by (metis mult_mod_right mult.commute)
  qed
  ultimately show ?thesis using e t by (simp add: int_val_def)
qed

lemma pow2_split: "(2::nat) ^ n = base ^ (n div 64) * 2 ^ (n mod 64)"
  unfolding base_def power_mult [symmetric] power_add [symmetric] by simp

lemma ShiftLeft_value:
  assumes "int_wf x" "n < 1088"
  shows "\<exists>z. ShiftLeft x n = Some z \<and> int_wf z \<and> int_val z = (int_val x * 2 ^ n) mod base ^ INT1024WORDS"
proof -
  define d r where "d = n div 64" and "r = n mod 64"
  have d: "d \<le> 16" "r \<le> 63" using assms(2) by (auto simp: d_def r_def)
  obtain y where y: "(if d > 0 then shl_words x d else Some x) = Some y" "int_wf y"
    "int_val y = (int_val x * base ^ d) mod base ^ 16"
    using shl_words_value [OF assms(1) d(1)] assms(1) int_val_bound [OF assms(1)]
    by (cases "d > 0") auto
  have "ShiftLeft x n = Some (shiftleft y r)"
    using y(1) assms(1) by (simp add: ShiftLeft_def ShiftLeftInPlace_def Let_def shiftleftone_eq flip: d_def r_def)
  moreover have "(int_val x * base ^ d) mod base ^ 16 * 2 ^ r mod base ^ 16 = (int_val x * 2 ^ n) mod base ^ 16"
    unfolding pow2_split [of n] d_def [symmetric] r_def [symmetric] by (simp add: mod_mult_left_eq mult.assoc)
  ultimately show ?thesis using shiftleft_value [OF y(2) d(2)] y(3) by simp
qed

lemma ShiftLeft_panics: "int_wf x \<Longrightarrow> 1088 \<le> n \<Longrightarrow> ShiftLeft x n = None"
  by (simp add: ShiftLeft_def ShiftLeftInPlace_def shl_words_def Let_def)


lemma shr_loop_ShrVU:
  assumes "n \<le> 63"
  shows "fst (shr_loop n ws) = fst (ShrVU_g (length ws) ws n) \<and>
    (\<forall>y r. ws = y # r \<longrightarrow> snd (shr_loop n ws) = push_bit (64 - n) y)"
proof -
  have m: "push_bit (64 - n) (y AND mask n) = push_bit (64 - n) y" for y :: u64
    using assms by (intro bit_eqI) (auto simp: bit_push_bit_iff bit_and_iff bit_mask_iff)
  show ?thesis
  proof (induction ws rule: induct_list012)
    case (3 x y r)
    then show ?case by (simp add: m ShrVU_g_Cons2 [simplified] del: push_bit_and split: prod.splits)
  qed (simp_all add: m ShrVU_g_def del: push_bit_and)
qed

lemma shr_loop_value:
  "n \<le> 63 \<Longrightarrow> bnum (fst (shr_loop n ws)) = bnum ws div 2 ^ n \<and> length (fst (shr_loop n ws)) = length ws"
  using shr_loop_ShrVU [of n ws] ShrVU_g_value [of n ws] by simp

lemma shiftright_value:
  assumes "int_wf x" "n \<le> 63"
  shows "int_wf (shiftright x n) \<and> int_val (shiftright x n) = int_val x div 2 ^ n"
proof -
  define m zs where "m = len x" and "zs = fst (shr_loop n (take m (words x)))"
  have m: "m \<le> 16" using assms by (simp add: m_def int_wf_len)
  have z: "bnum zs = int_val x div 2 ^ n" "length zs = m"
    using shr_loop_value [OF assms(2), of "take m (words x)"] assms m
    by (simp_all add: zs_def m_def int_val_take)
  have "drop m (words x) = replicate (16 - m) 0"
    using int_wf_zero [OF assms(1)] assms(1) by (subst drop_zeros) (auto simp: m_def)
  then have w: "write_at 0 zs (words x) = zs @ replicate (16 - m) 0" using z by (simp add: write_at_def)
  have s: "shiftright x n = shr_trim (zs @ replicate (16 - m) 0) m"
    using w by (simp add: shiftright_def zs_def m_def)
  have nz: "base ^ (m - 2) \<le> bnum zs" if "2 \<le> m"
  proof -
    have "base ^ (m - 2) * base = base ^ (m - 1)"
      using that by (cases m; cases "m - 1") auto
    also have "\<dots> \<le> int_val x" using int_val_ge [OF assms(1)] that by (simp add: m_def)
    finally have "base ^ (m - 2) * base div 2 ^ n \<le> int_val x div 2 ^ n" by (rule div_le_mono)
    moreover have "base = 2 ^ (64 - n) * 2 ^ n" using assms(2) by (simp add: base_def flip: power_add)
    then have "base ^ (m - 2) * base div 2 ^ n = base ^ (m - 2) * 2 ^ (64 - n)"
      by (metis div_mult_self_is_m mult.assoc zero_less_numeral zero_less_power)
    moreover have "base ^ (m - 2) * 1 \<le> base ^ (m - 2) * 2 ^ (64 - n)" by (intro mult_le_mono2) simp
    ultimately show ?thesis unfolding z by linarith
  qed
  have val: "int_val (shiftright x n) = int_val x div 2 ^ n"
    using s z(1) by (simp add: shr_trim_def int_val_def)
  show ?thesis
  proof (cases "m > 0 \<and> zs ! (m - 1) = 0")
    case True
    have "zs = take (m - 1) zs @ [0]"
      using take_last [of m zs] z(2) True by simp
    then have t: "zs @ replicate (16 - m) 0 = take (m - 1) zs @ replicate (16 - (m - 1)) 0"
      "bnum (take (m - 1) zs) = bnum zs"
    proof -
      assume a: "zs = take (m - 1) zs @ [0]"
      have "replicate (16 - (m - 1)) (0::u64) = 0 # replicate (16 - m) 0"
        using True m by (simp flip: replicate_Suc)
      then show "zs @ replicate (16 - m) 0 = take (m - 1) zs @ replicate (16 - (m - 1)) 0"
        by (subst a) simp
      show "bnum (take (m - 1) zs) = bnum zs" by (subst (2) a) (simp add: bnum_append)
    qed
    have "shiftright x n = \<lparr>words = take (m - 1) zs @ replicate (16 - (m - 1)) 0, len = m - 1\<rparr>"
      using s True z(2) unfolding t(1) [symmetric] by (simp add: shr_trim_def nth_append)
    moreover have "int_wf \<lparr>words = take (m - 1) zs @ replicate (16 - (m - 1)) 0, len = m - 1\<rparr>"
      using z(2) m nz t(2) by (intro int_wf_padI) (auto simp: numeral_2_eq_2)
    ultimately show ?thesis using val by simp
  next
    case False
    have "0 < m \<Longrightarrow> (zs @ replicate (16 - m) 0) ! (m - 1) = zs ! (m - 1)"
      using z(2) by (simp add: nth_append)
    then have "shiftright x n = \<lparr>words = zs @ replicate (16 - m) 0, len = m\<rparr>"
      using s False by (auto simp: shr_trim_def)
    moreover have "base ^ (m - 1) \<le> bnum zs" if "0 < m"
      using bnum_top [of zs "m - 1"] z(2) False that by simp
    ultimately show ?thesis using val int_wf_padI [of zs m] z(2) m by simp
  qed
qed

lemma shiftrightone_eq: "shiftrightone x = shiftright x 1"
  by (simp add: shiftrightone_def shiftright_def)

lemma shr_words_value:
  assumes "int_wf x" "d < 65536"
  shows "int_wf (shr_words x d) \<and> int_val (shr_words x d) = int_val x div base ^ d"
proof -
  define l where "l = len x - d"
  have m: "len x \<le> 16" using assms by (simp add: int_wf_len)
  have dr: "drop (len x) (words x) = replicate (16 - len x) 0"
    using int_wf_zero [OF assms(1)] assms(1) by (subst drop_zeros) auto
  have tl: "take l (drop d (words x)) = drop d (take (len x) (words x))"
    by (simp add: l_def drop_take)
  have ll: "length (take l (drop d (words x))) = l" unfolding tl using m assms(1) by (simp add: l_def)
  have e: "shr_words x d = \<lparr>words = take l (drop d (words x)) @ replicate (16 - l) 0, len = l\<rparr>"
    using assms(2) dr m by (simp add: shr_words_def Let_def l_def flip: replicate_add)
  have val: "bnum (take l (drop d (words x))) = int_val x div base ^ d"
    unfolding tl bnum_drop_div int_val_take [OF assms(1)] ..
  moreover have "base ^ (l - 1) \<le> bnum (take l (drop d (words x)))" if "0 < l"
  proof (rule bnum_top)
    show "length (take l (drop d (words x))) = Suc (l - 1)" using ll that by simp
    have "take l (drop d (words x)) ! (l - 1) = words x ! (len x - 1)"
      using that m assms(1) by (simp add: l_def)
    then show "take l (drop d (words x)) ! (l - 1) \<noteq> 0"
      using int_wf_top [OF assms(1)] that by (simp add: l_def)
  qed
  ultimately show ?thesis using int_wf_padI [OF ll] m e by (simp add: int_val_def l_def)
qed

lemma ShiftRight_value:
  assumes "int_wf x" "n < 2 ^ 22"
  shows "int_wf (ShiftRight x n) \<and> int_val (ShiftRight x n) = int_val x div 2 ^ n"
proof -
  define d r where "d = n div 64" and "r = n mod 64"
  have d: "d < 65536" "r \<le> 63" using assms(2) by (auto simp: d_def r_def)
  define y where "y = (if d > 0 then shr_words x d else x)"
  have y: "int_wf y" "int_val y = int_val x div base ^ d"
    using shr_words_value [OF assms(1) d(1)] assms(1) by (auto simp: y_def)
  have "ShiftRight x n = shiftright y r"
    using assms(1) by (simp add: ShiftRight_def ShiftRightInPlace_def Let_def shiftrightone_eq y_def flip: d_def r_def)
  then show ?thesis using shiftright_value [OF y(1) d(2)] y(2)
    unfolding pow2_split [of n] d_def [symmetric] r_def [symmetric] by (simp add: div_mult2_eq)
qed


lemma int_val_bitI:
  assumes "length ws = INT1024WORDS"
    and "\<And>i n. i < INT1024WORDS \<Longrightarrow> n < 64 \<Longrightarrow> bit (ws ! i) n \<longleftrightarrow> bit v (64 * i + n)"
    and "\<And>k. 1024 \<le> k \<Longrightarrow> \<not> bit v k"
  shows "bnum ws = v"
proof (rule bit_eqI)
  fix k
  show "bit (bnum ws) k = bit v k"
  proof (cases "k < 1024")
    case True
    then have "k div 64 < 16" by simp
    then show ?thesis using assms(2) [of "k div 64" "k mod 64"] assms(1) by (simp add: bit_bnum)
  next
    case False
    then have "\<not> k div 64 < 16" by simp
    then show ?thesis using assms(1,3) False by (simp add: bit_bnum)
  qed
qed

lemma int_val_bit: "int_wf x \<Longrightarrow> i < INT1024WORDS \<Longrightarrow> n < 64 \<Longrightarrow> bit (int_val x) (64 * i + n) = bit (words x ! i) n"
  by (simp add: int_val_def bit_bnum)

lemma int_val_high_bit: "int_wf x \<Longrightarrow> 1024 \<le> k \<Longrightarrow> \<not> bit (int_val x) k"
  using div_le_mono [of 1024 k 64] by (simp add: int_val_def bit_bnum)

lemma AND_value:
  assumes "int_wf x" "int_wf y"
  shows "int_wf (AND_int x y) \<and> int_val (AND_int x y) = int_val x AND int_val y"
proof -
  define m where "m = min (len x) (len y)"
  define ws where "ws = map (\<lambda>i. words x ! i AND words y ! i) [0..<m] @ replicate (16 - m) 0"
  have m: "m \<le> 16" using int_wf_len [OF assms(1)] by (simp add: m_def)
  have nth: "ws ! i = words x ! i AND words y ! i" if "i < 16" for i
    using that int_wf_zero [OF assms(1), of i] int_wf_zero [OF assms(2), of i]
    by (auto simp: ws_def nth_append m_def min_def split: if_splits)
  have l: "length ws = 16" using m by (simp add: ws_def)
  have e: "AND_int x y = \<lparr>words = ws, len = highest m ws\<rparr>"
    by (simp add: AND_int_def Let_def firstPositive_highest ws_def m_def)
  have "int_wf \<lparr>words = ws, len = highest m ws\<rparr>"
    using m l by (intro int_wf_highestI) (auto simp: ws_def nth_append)
  moreover have "bnum ws = int_val x AND int_val y"
    using assms nth l by (intro int_val_bitI) (auto simp: bit_and_iff int_val_bit int_val_high_bit)
  ultimately show ?thesis by (simp add: e int_val_def)
qed

lemma max_words:
  assumes "int_wf x" "int_wf y" and f: "\<And>a. f a 0 = a" "\<And>a. f 0 a = (a :: u64)"
  defines "mi \<equiv> min (len x) (len y)" and "ma \<equiv> max (len x) (len y)"
  defines "ws \<equiv> map (\<lambda>i. f (words x ! i) (words y ! i)) [0..<mi]
      @ map (\<lambda>i. words (if len y < len x then x else y) ! i) [mi..<ma] @ replicate (INT1024WORDS - ma) 0"
  shows "length ws = INT1024WORDS" "\<And>i. i < INT1024WORDS \<Longrightarrow> ws ! i = f (words x ! i) (words y ! i)"
    "int_wf \<lparr>words = ws, len = highest ma ws\<rparr>"
proof -
  have m: "ma \<le> 16" "mi \<le> ma" using int_wf_len [OF assms(1)] int_wf_len [OF assms(2)] by (auto simp: ma_def mi_def)
  show l: "length ws = 16" using m by (simp add: ws_def)
  show n: "ws ! i = f (words x ! i) (words y ! i)" if "i < 16" for i
  proof -
    consider "i < mi" | "mi \<le> i" "i < ma" | "ma \<le> i" by linarith
    then show ?thesis
    proof cases
      case 2
      then show ?thesis
        using that int_wf_zero [OF assms(1), of i] int_wf_zero [OF assms(2), of i] f m
        by (cases "len y < len x") (auto simp: ws_def nth_append mi_def ma_def min_def max_def)
    next
      case 3
      then show ?thesis
        using that int_wf_zero [OF assms(1), of i] int_wf_zero [OF assms(2), of i] f m
        by (auto simp: ws_def nth_append mi_def ma_def)
    qed (auto simp: ws_def nth_append)
  qed
  show "int_wf \<lparr>words = ws, len = highest ma ws\<rparr>"
    using m l by (intro int_wf_highestI) (auto simp: ws_def nth_append)
qed

lemma OR_value:
  assumes "int_wf x" "int_wf y"
  shows "int_wf (OR_int x y) \<and> int_val (OR_int x y) = int_val x OR int_val y"
proof -
  note M = max_words [OF assms, of "(OR)", OF or.right_neutral or.left_neutral]
  define ws where "ws = map (\<lambda>i. words x ! i OR words y ! i) [0..<min (len x) (len y)]
      @ map (\<lambda>i. words (if len y < len x then x else y) ! i) [min (len x) (len y)..<max (len x) (len y)]
      @ replicate (16 - max (len x) (len y)) 0"
  have "drop (max (len x) (len y)) (words x) = replicate (16 - max (len x) (len y)) 0"
    using int_wf_zero [OF assms(1)] assms(1) by (subst drop_zeros) auto
  then have e: "OR_int x y = \<lparr>words = ws, len = highest (max (len x) (len y)) ws\<rparr>"
    using assms by (simp add: OR_int_def ORInPlace_def Let_def firstPositive_highest ws_def)
  have "bnum ws = int_val x OR int_val y"
    using assms M(1,2) unfolding ws_def [symmetric]
    by (intro int_val_bitI) (auto simp: bit_or_iff int_val_bit int_val_high_bit)
  then show ?thesis using M(3) unfolding ws_def [symmetric] e by (simp add: int_val_def)
qed

lemma XOR_value:
  assumes "int_wf x" "int_wf y"
  shows "int_wf (XOR_int x y) \<and> int_val (XOR_int x y) = int_val x XOR int_val y"
proof -
  note M = max_words [OF assms, of "(XOR)", OF xor.right_neutral xor.left_neutral]
  define ws where "ws = map (\<lambda>i. words x ! i XOR words y ! i) [0..<min (len x) (len y)]
      @ map (\<lambda>i. words (if len y < len x then x else y) ! i) [min (len x) (len y)..<max (len x) (len y)]
      @ replicate (16 - max (len x) (len y)) 0"
  have e: "XOR_int x y = \<lparr>words = ws, len = highest (max (len x) (len y)) ws\<rparr>"
    by (simp add: XOR_int_def Let_def firstPositive_highest ws_def)
  have "bnum ws = int_val x XOR int_val y"
    using assms M(1,2) unfolding ws_def [symmetric]
    by (intro int_val_bitI) (auto simp: bit_xor_iff int_val_bit int_val_high_bit)
  then show ?thesis using M(3) unfolding ws_def [symmetric] e by (simp add: int_val_def)
qed

lemma unat_not64: "unat (NOT x :: u64) + unat x + 1 = base"
proof -
  have "NOT x + x = - 1" by (simp add: not_eq_complement)
  then have "unat (NOT x + x) = base - 1"
    by (simp add: base_def unsigned_minus_1_eq_mask mask_eq_exp_minus_1)
  then have m: "(unat (NOT x) + unat x) mod base = base - 1" by (simp add: unat_add_base)
  have lt: "unat (NOT x) + unat x < base + (base - 1)"
    using unat_le_base [of "NOT x"] unat_lt_base [of x] by linarith
  show ?thesis
  proof (cases "unat (NOT x) + unat x < base")
    case True
    then show ?thesis using m by simp
  next
    case False
    then have "(unat (NOT x) + unat x) mod base = unat (NOT x) + unat x - base"
      using lt mod_2B [of "unat (NOT x) + unat x" base] by simp
    then show ?thesis using m lt False by simp
  qed
qed

lemma bnum_map_not: "bnum (map NOT ws) + bnum ws + 1 = base ^ length ws"
proof (induction ws)
  case (Cons w ws)
  have "bnum (map NOT (w # ws)) + bnum (w # ws) + 1 =
      (unat (NOT w) + unat w + 1) + base * (bnum (map NOT ws) + bnum ws)"
    by (simp add: distrib_left)
  also have "\<dots> = base * (bnum (map NOT ws) + bnum ws + 1)"
    unfolding unat_not64 by (simp add: distrib_left)
  finally show ?case unfolding Cons by simp
qed simp

lemma NOT_value:
  assumes "int_wf x"
  shows "int_wf (NOT_int x) \<and> int_val (NOT_int x) + int_val x + 1 = base ^ INT1024WORDS"
proof -
  define ws where "ws = map (\<lambda>i. NOT (words x ! i)) [0..<len x] @ replicate (16 - len x) (- 1)"
  have "map NOT (words x) = ws"
    using assms int_wf_len [OF assms] int_wf_zero [OF assms]
    by (intro nth_equalityI) (auto simp: ws_def nth_append)
  then have v: "bnum ws + int_val x + 1 = base ^ 16" "length ws = 16"
    using bnum_map_not [of "words x"] assms by (auto simp: int_val_def)
  have "int_wf (NOT_int x)"
  proof (cases "len x < 16")
    case True
    then show ?thesis using v(2) unfolding NOT_int_def Let_def ws_def [symmetric]
      by (auto simp: ws_def nth_append intro!: int_wfI)
  next
    case False
    then show ?thesis using v(2) int_wf_setLength unfolding NOT_int_def Let_def ws_def [symmetric] by simp
  qed
  moreover have "int_val (NOT_int x) = bnum ws"
    unfolding NOT_int_def Let_def ws_def [symmetric] by (simp add: int_val_def setLength_def)
  ultimately show ?thesis using v by simp
qed

lemma BitLength_value:
  assumes "int_wf x"
  shows "int_val x < 2 ^ BitLength x" "int_val x \<noteq> 0 \<Longrightarrow> 2 ^ (BitLength x - 1) \<le> int_val x"
    "BitLength x = 0 \<longleftrightarrow> int_val x = 0" "BitLength x \<le> 1024"
proof -
  have "int_val x < 2 ^ BitLength x \<and> 2 ^ (BitLength x - 1) \<le> int_val x \<and> 0 < BitLength x \<and> BitLength x \<le> 1024"
    if l: "len x \<noteq> 0"
  proof -
    define m t z where "m = len x" and "t = words x ! (len x - 1)" and "z = Nlz t"
    have m: "0 < m" "m \<le> 16" using l assms by (simp_all add: m_def int_wf_len)
    have "t \<noteq> 0" using int_wf_top [OF assms] l by (simp add: t_def)
    note N = Nlz_normalises [OF this, folded z_def]
    have BL: "BitLength x = 64 * (m - 1) + (64 - z)" using l by (simp add: BitLength_def m_def z_def t_def)
    have tk: "take m (words x) = take (m - 1) (words x) @ [t]"
      using take_last [of m "words x"] m assms by (simp add: t_def m_def)
    have "length (take (m - 1) (words x)) = m - 1" using m assms by simp
    then have v: "int_val x = bnum (take (m - 1) (words x)) + base ^ (m - 1) * unat t"
      "bnum (take (m - 1) (words x)) < base ^ (m - 1)"
      using int_val_take [OF assms] bnum_lt [of "take (m - 1) (words x)"] tk
      by (simp_all add: bnum_append flip: m_def del: length_take)
    have "unat t * 2 ^ z < 2 ^ (64 - z) * 2 ^ z" using N by (simp flip: power_add)
    then have "unat t + 1 \<le> 2 ^ (64 - z)" by simp
    then have "base ^ (m - 1) * (unat t + 1) \<le> base ^ (m - 1) * 2 ^ (64 - z)" by (rule mult_le_mono2)
    also have "\<dots> = 2 ^ BitLength x" by (simp add: BL base_def power_add power_mult)
    finally have a: "int_val x < 2 ^ BitLength x" using v by simp
    have "(2::nat) ^ (63 - z) * 2 ^ z \<le> unat t * 2 ^ z" using N by (simp flip: power_add)
    then have "2 ^ (63 - z) \<le> unat t" by simp
    then have "base ^ (m - 1) * 2 ^ (63 - z) \<le> base ^ (m - 1) * unat t" by (rule mult_le_mono2)
    moreover have "2 ^ (BitLength x - 1) = base ^ (m - 1) * (2::nat) ^ (63 - z)"
    proof -
      have "BitLength x - 1 = 64 * (m - 1) + (63 - z)" using N(3) by (simp add: BL)
      then show ?thesis unfolding base_def by (simp only: power_add power_mult)
    qed
    ultimately have "2 ^ (BitLength x - 1) \<le> int_val x" using v(1) by linarith
    moreover have "0 < BitLength x" "BitLength x \<le> 1024" using N(3) m BL by linarith+
    ultimately show ?thesis using a by blast
  qed
  then show "int_val x < 2 ^ BitLength x" "int_val x \<noteq> 0 \<Longrightarrow> 2 ^ (BitLength x - 1) \<le> int_val x"
    "BitLength x = 0 \<longleftrightarrow> int_val x = 0" "BitLength x \<le> 1024"
    using int_val_0_iff [OF assms] by (cases "len x = 0"; force simp: BitLength_def)+
qed
end
