(* ===== verification/Int1024_Div.thy ===== *)
theory Int1024_Div
  imports Int1024
begin

unbundle bit_operations_syntax

section \<open>Division: \<^verbatim>\<open>int1024_divmod.go\<close> and \<^verbatim>\<open>int1024_double.go\<close>\<close>

text \<open>
  \<^verbatim>\<open>DivMod\<close> divides by a single word with \<^verbatim>\<open>divW\<close> and by longer numbers
  with Knuth's algorithm D (\<^verbatim>\<open>divLarge\<close>). \<^verbatim>\<open>divDouble\<close> is the same
  algorithm with arrays of twice the size; both are instances of \<open>div_words\<close> here, whose first
  argument is the number of words of the arrays \<^verbatim>\<open>q\<close> and \<^verbatim>\<open>rWords\<close>
  (the array \<^verbatim>\<open>u\<close> has one word more). \<^verbatim>\<open>DivMod\<close> panics on a zero
  divisor, which is \<open>None\<close>.

  The main result is that both quotient and remainder are exact and represented without leading
  zero words, for every pair of operands.
\<close>

subsection \<open>Division by a word\<close>

text \<open>The loop of \<^verbatim>\<open>divW\<close>, from word \<open>n - 1\<close> down; \<open>f\<close> is the variable
  \<^verbatim>\<open>first\<close>. \<^verbatim>\<open>divW\<close> is only called with \<open>x \<ge> y\<close>, so \<open>len x\<close> is never 0.\<close>

primrec divW_loop :: "nat \<Rightarrow> u64 list \<Rightarrow> u64 \<Rightarrow> u64 \<Rightarrow> nat \<Rightarrow> u64 list \<times> u64 \<times> nat" where
  "divW_loop 0 ws r y f = (ws, r, f)"
| "divW_loop (Suc i) ws r y f =
     (let (q, r') = DivWW_g r (ws ! i) y
      in divW_loop i (ws[i := q]) r' y (if f = 0 \<and> q \<noteq> 0 then i + 1 else f))"

definition divW :: "int1024 \<Rightarrow> u64 \<Rightarrow> int1024 \<times> u64" where
  "divW x y =
     (if y = 1 then (x, 0)
      else let (ws, r, f) = divW_loop (len x) (words x) 0 y 0
           in (\<lparr>words = ws, len = f\<rparr>, r))"

subsection \<open>Knuth's algorithm D\<close>

definition greaterThan :: "u64 \<Rightarrow> u64 \<Rightarrow> u64 \<Rightarrow> u64 \<Rightarrow> bool" where
  "greaterThan x1 x2 y1 y2 \<longleftrightarrow> x1 > y1 \<or> x1 = y1 \<and> x2 > y2"

function qhat_loop :: "u64 \<Rightarrow> u64 \<Rightarrow> u64 \<Rightarrow> u64 \<Rightarrow> u64 \<Rightarrow> u64" where
  "qhat_loop vn1 vn2 ujn2 qhat rhat =
     (let (x1, x2) = MulWW qhat vn2
      in if greaterThan x1 x2 rhat ujn2 then
           let qhat' = qhat - 1; rhat' = rhat + vn1
           in if rhat' < rhat then qhat' else qhat_loop vn1 vn2 ujn2 qhat' rhat'
         else qhat)"
  by auto
termination
proof (relation "measure (\<lambda>(vn1, vn2, ujn2, qhat, rhat). unat qhat)", goal_cases)
  case (2 vn1 vn2 ujn2 qhat rhat x x1 x2)
  then have "qhat \<noteq> 0" by (auto simp: greaterThan_def MulWW_def)
  then show ?case using 2 by (simp add: unat_minus_one unat_gt_0)
qed simp

declare qhat_loop.simps [simp del]

text \<open>Step D3: the estimate of a quotient digit.\<close>

definition div_qhat :: "u64 list \<Rightarrow> u64 list \<Rightarrow> nat \<Rightarrow> nat \<Rightarrow> u64" where
  "div_qhat u v n j =
     (let vn1 = v ! (n - 1); ujn = u ! (j + n)
      in if ujn \<noteq> vn1 then
           let (qhat, rhat) = DivWW_g ujn (u ! (j + n - 1)) vn1
           in qhat_loop vn1 (v ! (n - 2)) (u ! (j + n - 2)) qhat rhat
         else - 1)"

text \<open>One round of the main loop, for the digit \<open>j\<close>: D3, D4 and the correction.\<close>

definition div_round ::
    "u64 list \<Rightarrow> nat \<Rightarrow> nat \<Rightarrow> u64 list \<times> u64 list \<times> nat \<Rightarrow> u64 list \<times> u64 list \<times> nat" where
  "div_round v n j = (\<lambda>(u, q, highestQ).
     let qhat = div_qhat u v n j;
         (z, c) = MulAddVWW_loop (take n v) qhat 0;
         qhatv = z @ [c];
         (z, c) = SubVV_g (n + 1) (drop j u) qhatv;
         u = write_at j z u;
         (u, qhat) = (if c \<noteq> 0 then
             let (z, c) = AddVV_g n (drop j u) v; u = write_at j z u
             in (u[j + n := u ! (j + n) + c], qhat - 1)
           else (u, qhat));
         q = q[j := qhat]
     in (u, q, if j + 1 > highestQ \<and> qhat > 0 then j + 1 else highestQ))"

primrec div_loop ::
    "u64 list \<Rightarrow> nat \<Rightarrow> nat \<Rightarrow> u64 list \<times> u64 list \<times> nat \<Rightarrow> u64 list \<times> u64 list \<times> nat" where
  "div_loop v n 0 s = s"
| "div_loop v n (Suc j) s = div_loop v n j (div_round v n j s)"

definition div_words ::
    "nat \<Rightarrow> u64 list \<Rightarrow> nat \<Rightarrow> int1024 \<Rightarrow> (u64 list \<times> nat) \<times> (u64 list \<times> nat)" where
  "div_words N uIn xlen y =
     (let n = len y;
          m = xlen - n;
          shift = Nlz (words y ! (n - 1));
          v = (if shift > 0 then fst (ShlVU_g INT1024WORDS (words y) shift) else words y);
          (z, c) = ShlVU_g xlen uIn shift;
          u = (write_at 0 z (replicate (N + 1) 0))[xlen := c];
          (u, q, highestQ) = div_loop v n (m + 1) (u, replicate N 0, 0);
          u = write_at 0 (fst (ShrVU_g (xlen + 1) (take (xlen + 1) u) shift)) u;
          rWords = take N u
      in ((q, highestQ), (rWords, firstPositive N rWords)))"

definition divLarge :: "int1024 \<Rightarrow> int1024 \<Rightarrow> int1024 \<times> int1024" where
  "divLarge x y =
     (let ((q, hq), (r, hr)) = div_words INT1024WORDS (words x) (len x) y
      in (\<lparr>words = q, len = hq\<rparr>, \<lparr>words = r, len = hr\<rparr>))"

definition DivMod :: "int1024 \<Rightarrow> int1024 \<Rightarrow> (int1024 \<times> int1024) option" where
  "DivMod x y =
     (if IsZero y then None
      else if Cmp x y < 0 then Some (Zero, Clone x)
      else if len y = 1 then
        let (q, rr) = divW (Clone x) (words y ! 0) in Some (q, FromUint rr)
      else Some (divLarge x y))"

definition Div :: "int1024 \<Rightarrow> int1024 \<Rightarrow> int1024 option" where
  "Div x y = map_option fst (DivMod x y)"

definition Mod :: "int1024 \<Rightarrow> int1024 \<Rightarrow> int1024 option" where
  "Mod x n =
     (let c = Cmp x n
      in if c = - 1 then Some (Clone x)
         else if c = 0 then Some Zero
         else if c = 1 then map_option snd (DivMod x n)
         else None)"

text \<open>\<^verbatim>\<open>divDouble\<close> takes and returns a \<^verbatim>\<open>DoubleInt\<close>: the words and
  their number. It panics when the divisor has fewer than two words.\<close>

definition divDouble ::
    "u64 list \<times> nat \<Rightarrow> int1024 \<Rightarrow> ((u64 list \<times> nat) \<times> (u64 list \<times> nat)) option" where
  "divDouble x y =
     (if len y < 2 then None
      else Some (div_words (INT1024WORDS * 2) (fst x) (snd x) y))"

definition MulModuloBig :: "int1024 \<Rightarrow> int1024 \<Rightarrow> int1024 \<Rightarrow> int1024 option" where
  "MulModuloBig x y n =
     (let ws = BasicMulBig x y; h = highest (len x + len y) ws
      in if h \<le> INT1024WORDS then Mod \<lparr>words = take INT1024WORDS ws, len = h\<rparr> n
         else map_option (\<lambda>(q, r). \<lparr>words = take INT1024WORDS (fst r), len = snd r\<rparr>)
                (divDouble (ws, h) n))"

subsection \<open>Division by a word is exact\<close>

lemma DivWW_g_exact:
  assumes "r < y" "DivWW_g r x y = (q, r')"
  shows "unat y * unat q + unat r' = unat x + base * unat r" "r' < y"
proof -
  define N where "N = base * unat r + unat x"
  have y0: "0 < unat y" and ry: "unat r < unat y" using assms(1) by (auto simp: word_less_nat)
  have "N < base * unat y" using two_digits_lt [OF unat_lt_base ry] by (simp add: N_def)
  then have "N div unat y < base" by (simp add: less_mult_imp_div_less)
  moreover have m: "N mod unat y < unat y" using y0 by simp
  moreover have "q = word_of_nat (N div unat y)" "r' = word_of_nat (N mod unat y)"
    using assms by (simp_all add: DivWW_g_value N_def)
  ultimately have e: "unat q = N div unat y" "unat r' = N mod unat y"
    using unat_of_nat_base less_trans [OF m unat_lt_base] by simp_all
  show "unat y * unat q + unat r' = unat x + base * unat r"
    unfolding e by (simp add: N_def)
  show "r' < y" using e m by (simp add: word_less_nat)
qed

lemma divW_loop_value:
  assumes "n \<le> length ws" "r < y" "divW_loop n ws r y f = (ws', r', f')"
  shows "unat y * bnum (take n ws') + unat r' = bnum (take n ws) + base ^ n * unat r \<and> r' < y \<and>
    length ws' = length ws \<and> drop n ws' = drop n ws \<and>
    f' = (if f = 0 then highest n ws' else f)"
  using assms
proof (induction n arbitrary: ws r f)
  case (Suc n)
  obtain q d where dw: "DivWW_g r (ws ! n) y = (q, d)" by fastforce
  note e = DivWW_g_exact [OF Suc.prems(2) dw]
  define f1 where "f1 = (if f = 0 \<and> q \<noteq> 0 then n + 1 else f)"
  have l: "divW_loop n (ws[n := q]) d y f1 = (ws', r', f')"
    using Suc.prems(3) dw by (simp add: f1_def)
  have ih: "unat y * bnum (take n ws') + unat r' = bnum (take n ws) + base ^ n * unat d" "r' < y"
    "length ws' = length ws" "drop n ws' = drop n (ws[n := q])"
    "f' = (if f1 = 0 then highest n ws' else f1)"
    using Suc.IH [OF _ e(2) l] Suc.prems(1) by auto
  have n: "n < length ws" using Suc.prems by simp
  have wn: "ws' ! n = q"
    using ih(3,4) n by (metis hd_drop_conv_nth length_list_update nth_list_update_eq)
  have dr: "drop (Suc n) ws' = drop (Suc n) ws"
    using ih(4) by (metis drop_Suc drop_update_cancel lessI tl_drop)
  have t: "take (Suc n) ws' = take n ws' @ [q]" "take (Suc n) ws = take n ws @ [ws ! n]"
    using n ih(3) wn by (simp_all add: take_Suc_conv_app_nth)
  have "unat y * bnum (take (Suc n) ws') + unat r' =
      (unat y * bnum (take n ws') + unat r') + base ^ n * (unat y * unat q)"
    using n ih(3) unfolding t by (simp add: bnum_append min_def algebra_simps)
  also have "\<dots> = bnum (take n ws) + base ^ n * (unat y * unat q + unat d)"
    unfolding ih(1) by (simp add: algebra_simps)
  also have "\<dots> = bnum (take (Suc n) ws) + base ^ Suc n * unat r"
    using n unfolding t e(1) by (simp add: bnum_append min_def algebra_simps)
  finally show ?case using ih(2,3,5) dr wn by (simp add: f1_def)
qed simp

lemma divW_value:
  assumes "int_wf x" "y \<noteq> 0"
  shows "int_wf (fst (divW x y)) \<and> int_val (fst (divW x y)) = int_val x div unat y \<and>
    unat (snd (divW x y)) = int_val x mod unat y"
proof (cases "y = 1")
  case True
  then show ?thesis using assms by (simp add: divW_def)
next
  case False
  obtain ws r f where l: "divW_loop (len x) (words x) 0 y 0 = (ws, r, f)" by (metis prod_cases3)
  have y: "0 < y" using assms(2) by (simp add: word_neq_0_conv)
  have l16: "len x \<le> 16" using assms by (simp add: int_wf_len)
  have v: "unat y * bnum (take (len x) ws) + unat r = int_val x" "r < y" "length ws = 16"
    "drop (len x) ws = drop (len x) (words x)" "f = highest (len x) ws"
    using divW_loop_value [OF _ y l] assms l16 by (simp_all add: int_val_take)
  have z: "ws ! i = 0" if "len x \<le> i" "i < 16" for i
    using v(3,4) that int_wf_zero [OF assms(1)] l16
    by (metis add_diff_inverse_nat assms(1) int_wf_length not_le nth_drop)
  have "bnum ws = bnum (take (len x) ws)"
    using drop_zeros [of "len x" ws] z v(3)
    by (metis append_take_drop_id bnum_append_zeros)
  then have "int_val x = unat y * bnum ws + unat r" "unat r < unat y"
    using v by (simp_all add: word_less_nat)
  then have "bnum ws = int_val x div unat y" "unat r = int_val x mod unat y"
    by (auto intro: div_nat_eqI [symmetric])
  moreover have "f = highest 16 ws" using v(5) z l16 by (simp add: highest_drop_zeros)
  ultimately show ?thesis using False l v(3) by (simp add: divW_def int_wf_def int_val_def)
qed

subsection \<open>Algorithm D is exact\<close>

lemma greaterThan_value:
  "greaterThan x1 x2 y1 y2 \<longleftrightarrow> unat x2 + base * unat x1 > unat y2 + base * unat y1"
proof -
  have lt: "unat a2 + base * unat a1 < unat b2 + base * unat b1" if "unat a1 < unat b1" for a1 a2 b1 b2 :: u64
    using two_digits_lt [OF unat_lt_base that, of a2] by simp
  show ?thesis
    using lt [of x1 y1 x2 y2] lt [of y1 x1 y2 x2]
    by (cases "unat x1 = unat y1") (auto simp: greaterThan_def word_less_nat word_eq_nat neq_iff)
qed

lemma qhat_loop_value:
  assumes "0 < unat vn1" "unat q * unat vn1 + unat rhat = H"
    "(base * H + unat u2) div (base * unat vn1 + unat vn2) \<le> unat q"
  shows "unat (qhat_loop vn1 vn2 u2 q rhat) = (base * H + unat u2) div (base * unat vn1 + unat vn2)"
  using assms
proof (induction vn1 vn2 u2 q rhat rule: qhat_loop.induct)
  case (1 vn1 vn2 u2 q rhat)
  define V2 U3 where "V2 = base * unat vn1 + unat vn2" and "U3 = base * H + unat u2"
  define Q where "Q = U3 div V2"
  have V2: "0 < V2" using 1(2) by (simp add: V2_def)
  have Qle: "Q \<le> unat q" using 1(4) by (simp only: Q_def U3_def V2_def)
  have QN: "k \<le> Q \<longleftrightarrow> k * V2 \<le> U3" for k
    unfolding Q_def using V2 by (rule less_eq_div_iff_mult_less_eq)
  have split: "k * V2 = base * (k * unat vn1) + k * unat vn2" for k
    by (simp add: V2_def algebra_simps)
  obtain x1 x2 where m: "MulWW q vn2 = (x1, x2)" by fastforce
  have g: "greaterThan x1 x2 rhat u2 \<longleftrightarrow> U3 < unat q * V2"
    unfolding greaterThan_value MulWW_value [OF m] split U3_def 1(3) [symmetric]
    by (simp add: distrib_left ac_simps)
  show ?case
  proof (cases "U3 < unat q * V2")
    case False
    then have "unat q = Q" using QN [of "unat q"] Qle by simp
    then show ?thesis using False m g
      by (subst qhat_loop.simps) (simp add: Q_def U3_def V2_def)
  next
    case True
    have Qlt: "Q < unat q" using QN [of "unat q"] True by linarith
    have q': "unat (q - 1) = unat q - 1"
      using Qlt by (simp add: unat_minus_one unat_gt_0 [symmetric])
    have inv: "(unat q - 1) * unat vn1 + (unat rhat + unat vn1) = H"
      using 1(3) Qlt by (cases "unat q") auto
    have carry: "unat (rhat + vn1) + base * (if rhat + vn1 < rhat then 1 else 0) = unat rhat + unat vn1"
      by (rule carry_unat)
    show ?thesis
    proof (cases "rhat + vn1 < rhat")
      case over: True
      have "(unat q - 1) * unat vn2 \<le> base * base"
        using unat_lt_base [of q] unat_lt_base [of vn2] by (intro mult_mono; linarith)
      also have "\<dots> \<le> base * (unat rhat + unat vn1)"
        using carry over by (intro mult_le_mono2) simp
      finally have "(unat q - 1) * V2 \<le> U3"
        unfolding split U3_def inv [symmetric] by (simp add: distrib_left)
      then have "unat q - 1 = Q" using QN [of "unat q - 1"] Qlt by simp
      then show ?thesis using over True m g q'
        by (subst qhat_loop.simps) (simp add: Q_def U3_def V2_def Let_def)
    next
      case False
      have "unat (qhat_loop vn1 vn2 u2 (q - 1) (rhat + vn1)) = (base * H + unat u2) div (base * unat vn1 + unat vn2)"
        using 1(2) True False m g q' inv carry Qlt
        by (intro 1(1)) (auto simp: Q_def U3_def V2_def)
      then show ?thesis using True False m g
        by (subst qhat_loop.simps) (simp add: Let_def)
    qed
  qed
qed

lemma knuth_estimate:
  fixes P :: nat
  assumes "V = P * V2 + vl" "vl < P" "U = P * U3 + ul" "ul < P" "P * b \<le> V" "U3 div V2 < b"
  shows "U div V \<le> U3 div V2" "U3 div V2 \<le> U div V + 1"
proof -
  have V0: "0 < V" using assms(2,5,6) by (metis gr_zeroI le_zero_eq mult_is_0 not_less0)
  have "U div V * (P * V2) \<le> U div V * V" using assms(1) by simp
  also have "\<dots> \<le> U" by simp
  also have "\<dots> < P * (U3 + 1)" using assms(3,4) by simp
  finally have "P * (U div V * V2) < P * (U3 + 1)" by (simp only: ac_simps)
  then have "U div V * V2 < U3 + 1" by (rule mult_less_cancel1 [THEN iffD1, THEN conjunct2])
  then have k: "U div V * V2 \<le> U3" by simp
  have V2: "0 < V2"
  proof (rule ccontr)
    assume "\<not> 0 < V2"
    then have "V < P" using assms(1,2) by simp
    moreover have "P * 1 \<le> P * b" using assms(6) by (intro mult_le_mono2) simp
    ultimately show False using assms(5) by simp
  qed
  show "U div V \<le> U3 div V2" using k V2 by (simp add: less_eq_div_iff_mult_less_eq)
  define q where "q = U3 div V2"
  have "q * V \<le> P * (q * V2) + P * q"
    using assms(1,2) by (simp add: algebra_simps less_imp_le)
  also have "\<dots> \<le> P * U3 + P * q" by (simp add: q_def)
  also have "\<dots> \<le> U + P * q" using assms(3) by simp
  also have "\<dots> < U + V"
  proof -
    have "P * q < P * b" using assms(2,6) by (simp add: q_def)
    then show ?thesis using assms(5) by linarith
  qed
  finally have "q * V < U + V" .
  then have "q < (U + V) div V + 1"
    using V0 by (metis Suc_eq_plus1 div_mult_self_is_m less_Suc_eq_le less_imp_le_nat div_le_mono)
  then have "q \<le> U div V + 1" using V0 div_add_self2 [of V U] by simp
  then show "U3 div V2 \<le> U div V + 1" by (simp add: q_def)
qed

lemma div_qhat_bounds:
  assumes n: "2 \<le> n" "n \<le> length v" "j + n < length u"
    and norm: "2 ^ 63 \<le> unat (v ! (n - 1))"
    and lt: "bnum (take (n + 1) (drop j u)) < base * bnum (take n v)"
  defines "q \<equiv> bnum (take (n + 1) (drop j u)) div bnum (take n v)"
  shows "q \<le> unat (div_qhat u v n j)" "unat (div_qhat u v n j) \<le> q + 1"
proof -
  define U V P where "U = bnum (take (n + 1) (drop j u))" and "V = bnum (take n v)" and "P = base ^ (n - 2)"
  define vn1 vn2 where "vn1 = v ! (n - 1)" and "vn2 = v ! (n - 2)"
  define u0 u1 u2 where "u0 = u ! (j + n)" and "u1 = u ! (j + n - 1)" and "u2 = u ! (j + n - 2)"
  obtain k where k: "n = Suc (Suc k)" using n(1) by (metis add_2_eq_Suc le_Suc_ex)
  have tv: "take n v = take k v @ [vn2, vn1]"
    using n k by (simp add: take_Suc_conv_app_nth vn1_def vn2_def)
  have tu: "take (n + 1) (drop j u) = take k (drop j u) @ [u2, u1, u0]"
    using n k by (simp add: take_Suc_conv_app_nth u0_def u1_def u2_def)
  define V2 U3 where "V2 = base * unat vn1 + unat vn2" and "U3 = base * (base * unat u0 + unat u1) + unat u2"
  have V: "V = P * V2 + bnum (take k v)" "bnum (take k v) < P"
    using bnum_lt [of "take k v"] n k unfolding V_def tv by (simp_all add: bnum_append P_def V2_def min_def distrib_left)
  have lk: "length (take k (drop j u)) = k" using n k by simp
  have U: "U = P * U3 + bnum (take k (drop j u))" "bnum (take k (drop j u)) < P"
    using bnum_lt [of "take k (drop j u)"] lk k unfolding U_def tu
    by (simp_all add: bnum_append P_def U3_def distrib_left del: length_take)
  have vn1: "2 ^ 63 \<le> unat vn1" using norm by (simp add: vn1_def)
  have PV: "P * base \<le> V"
  proof -
    have "P * base \<le> P * (base * unat vn1)" using vn1 by simp
    then show ?thesis unfolding V V2_def distrib_left by linarith
  qed
  have "0 < P * base" by (simp add: P_def)
  then have V0: "0 < V" using PV by linarith
  have u0: "unat u0 \<le> unat vn1"
  proof -
    have "V < P * (V2 + 1)" using V by simp
    also have "\<dots> \<le> P * (base * (unat vn1 + 1))"
      using unat_lt_base [of vn2] unfolding V2_def by (intro mult_le_mono2) simp
    finally have "base * V < base * (P * (base * (unat vn1 + 1)))" by simp
    moreover have "P * (base * (base * unat u0)) \<le> U" unfolding U U3_def by (simp add: distrib_left)
    moreover have "U < base * V" using lt by (simp add: U_def V_def)
    ultimately have "P * (base * (base * unat u0)) < base * (P * (base * (unat vn1 + 1)))" by linarith
    then have "P * base * base * unat u0 < P * base * base * (unat vn1 + 1)"
      by (simp only: ac_simps)
    then have "unat u0 < unat vn1 + 1" by (rule mult_less_cancel1 [THEN iffD1, THEN conjunct2])
    then show ?thesis by simp
  qed
  have "U div V \<le> unat (div_qhat u v n j) \<and> unat (div_qhat u v n j) \<le> U div V + 1"
  proof (cases "u0 = vn1")
    case True
    have d: "unat (div_qhat u v n j) + 1 = base"
      using True by (simp add: div_qhat_def u0_def vn1_def base_def unsigned_minus_1_eq_mask mask_eq_exp_minus_1)
    have "U div V < base" using lt by (simp add: U_def V_def less_mult_imp_div_less)
    moreover have "(base - 2) * V \<le> U"
    proof -
      have "V < P * (V2 + 1)" using V by simp
      also have "\<dots> \<le> P * (base * (unat vn1 + 1))"
        using unat_lt_base [of vn2] unfolding V2_def by (intro mult_le_mono2) simp
      finally have "(base - 2) * V \<le> (base - 2) * (P * (base * (unat vn1 + 1)))"
        by (intro mult_le_mono2) simp
      also have "\<dots> = P * base * ((base - 2) * (unat vn1 + 1))" by (simp only: ac_simps)
      also have "\<dots> \<le> P * base * (base * unat vn1)"
      proof (intro mult_le_mono2)
        define b where "b = base - 2"
        have b: "base = b + 2" "b \<le> 2 * unat vn1" using vn1 by (simp_all add: b_def base_def)
        have "b * (unat vn1 + 1) \<le> (b + 2) * unat vn1"
          using b(2) unfolding distrib_right distrib_left by simp
        then show "(base - 2) * (unat vn1 + 1) \<le> base * unat vn1"
          by (simp only: b_def [symmetric] b(1) [symmetric])
      qed
      also have "\<dots> \<le> U" unfolding U U3_def True [symmetric] by (simp add: distrib_left ac_simps)
      finally show ?thesis .
    qed
    then have "base - 2 \<le> U div V"
      using V0 by (subst less_eq_div_iff_mult_less_eq) auto
    ultimately show ?thesis using d by simp
  next
    case False
    then have lt0: "u0 < vn1" using u0 by (simp add: word_less_nat word_eq_nat)
    obtain qh rh where w: "DivWW_g u0 u1 vn1 = (qh, rh)" by fastforce
    define H where "H = base * unat u0 + unat u1"
    have H: "unat qh * unat vn1 + unat rh = H"
      using DivWW_g_exact(1) [OF lt0 w] by (simp add: H_def ac_simps)
    have rh: "unat rh < unat vn1" using DivWW_g_exact(2) [OF lt0 w] by (simp add: word_less_nat)
    have hd: "H div unat vn1 = unat qh"
      using H rh by (intro div_nat_eqI) (auto simp: algebra_simps)
    have "U3 div V2 \<le> U3 div (base * unat vn1)"
      unfolding V2_def using vn1 by (intro div_le_mono2) auto
    also have "\<dots> = U3 div base div unat vn1" by (simp add: div_mult2_eq)
    also have "U3 div base = H" unfolding U3_def H_def
      using div_add_mult [OF unat_lt_base] by (simp add: add.commute)
    finally have le: "U3 div V2 \<le> unat qh" using hd by simp
    have "unat (qhat_loop vn1 vn2 u2 qh rh) = U3 div V2"
      unfolding U3_def V2_def H_def [symmetric]
      by (rule qhat_loop_value) (use vn1 H le in \<open>simp_all add: U3_def V2_def H_def\<close>)
    then have "unat (div_qhat u v n j) = U3 div V2"
      using False w by (simp add: div_qhat_def u0_def u1_def u2_def vn1_def vn2_def Let_def)
    moreover have "U3 div V2 < base" using le unat_lt_base [of qh] by linarith
    ultimately show ?thesis using knuth_estimate [OF V(1,2) U(1,2) PV] by simp
  qed
  then show "q \<le> unat (div_qhat u v n j)" "unat (div_qhat u v n j) \<le> q + 1"
    by (simp_all add: q_def U_def V_def)
qed

lemma highest_update:
  assumes "j < N" "\<And>i. i \<le> j \<Longrightarrow> q ! i = 0"
  shows "length q = N \<Longrightarrow> highest N (q[j := x]) = (if j + 1 > highest N q \<and> x > 0 then j + 1 else highest N q)"
proof -
  assume l: "length q = N"
  have hi: "highest N q = 0 \<or> j + 1 < highest N q"
  proof (cases "highest N q = 0")
    case False
    then have "q ! (highest N q - 1) \<noteq> 0" by (intro highest_top) simp
    then have "\<not> highest N q - 1 \<le> j" using assms(2) by blast
    then show ?thesis by linarith
  qed simp
  show ?thesis
    using hi highest_le [of N q] highest_above [of N q] highest_top [of N q] assms l word_neq_0_conv [of x]
    by (intro highest_eqI) (auto simp: nth_list_update)
qed

lemma div_round_words:
  assumes n: "2 \<le> n" "n \<le> length v" "j + n < length u"
    and norm: "2 ^ 63 \<le> unat (v ! (n - 1))"
    and lt: "bnum (drop (Suc j) u) < bnum (take n v)"
  obtains zz qf where "length zz = n + 1" "bnum zz = bnum (drop j u) mod bnum (take n v)"
    "unat qf = bnum (drop j u) div bnum (take n v)" "bnum (drop (j + n + 1) u) = 0"
    "div_round v n j (u, q, h) = (write_at j zz u, q[j := qf], if j + 1 > h \<and> qf > 0 then j + 1 else h)"
proof -
  define V D where "V = bnum (take n v)" and "D = bnum (drop j u)"
  have lV: "length (take n v) = n" using n by simp
  have Vlt: "V < base ^ n" using bnum_lt [of "take n v"] lV by (simp add: V_def)
  have dj: "drop j u = u ! j # drop (Suc j) u" using n by (simp add: Cons_nth_drop_Suc)
  have DV: "D < base * V"
    using two_digits_lt [OF unat_lt_base lt, of "u ! j"] unfolding D_def dj V_def by simp
  have DU: "bnum (take (n + 1) (drop j u)) = D"
  proof -
    have "base * V < base ^ (n + 1)" using Vlt by simp
    then show ?thesis
      unfolding bnum_take_mod D_def [symmetric] by (rule mod_less [OF less_trans [OF DV]])
  qed
  define qh where "qh = div_qhat u v n j"
  have qh: "D div V \<le> unat qh" "unat qh \<le> D div V + 1"
    using div_qhat_bounds [OF n(1,2,3) norm] DV unfolding DU qh_def V_def [symmetric] by simp_all
  obtain zv cv where m: "MulAddVWW_loop (take n v) qh 0 = (zv, cv)" by fastforce
  have mv: "bnum (zv @ [cv]) = V * unat qh" "length (zv @ [cv]) = n + 1"
    using MulAddVWW_loop_value [OF m] lV by (simp_all add: bnum_append V_def)
  obtain z c where s: "SubVV_g (n + 1) (drop j u) (zv @ [cv]) = (z, c)" by fastforce
  have sv: "bnum z + V * unat qh = D + base ^ (n + 1) * unat c" "length z = n + 1" "unat c \<le> 1"
    using SubVV_g_value [OF _ _ s] n mv DU by simp_all
  have zlt: "bnum z < base ^ (n + 1)" using bnum_lt [of z] sv(2) by simp
  have V0: "0 < V" using lt by (simp add: V_def)
  have hi: "bnum (drop (j + n + 1) u) = 0"
  proof -
    have "D = bnum (take (n + 1) (drop j u)) + base ^ (n + 1) * bnum (drop (n + 1) (drop j u))"
      using bnum_take_drop [of "drop j u" "n + 1"] n unfolding D_def by (simp add: min_def)
    then show ?thesis unfolding DU by (simp add: add.commute add.left_commute)
  qed
  note res = that [unfolded V_def [symmetric] D_def [symmetric], OF _ _ _ hi]
  show ?thesis
  proof (cases "c = 0")
    case True
    then have e: "bnum z + V * unat qh = D" using sv(1) by simp
    then have "V * unat qh \<le> D" by linarith
    then have q: "unat qh = D div V"
      using qh(1) V0 by (simp add: less_eq_div_iff_mult_less_eq mult.commute le_antisym)
    have "bnum z = D mod V" using e unfolding q by (metis add_diff_cancel_right' minus_mult_div_eq_mod)
    moreover have "div_round v n j (u, q, h) = (write_at j z u, q[j := qh], if j + 1 > h \<and> qh > 0 then j + 1 else h)"
      using True m s by (simp add: div_round_def qh_def Let_def)
    ultimately show ?thesis using q sv(2) by (intro res [of z qh]) auto
  next
    case False
    then have c1: "unat c = 1" using carry_1 [OF sv(3)] by simp
    have e: "bnum z + V * unat qh = D + base ^ (n + 1)" using sv(1) c1 by simp
    then have "D < V * unat qh" using zlt by linarith
    then have q: "unat qh = D div V + 1"
      using qh V0 by (metis Suc_eq_plus1 div_less_iff_less_mult le_SucE le_antisym mult.commute not_le)
    have qf: "unat (qh - 1) = D div V" using q by (simp add: unat_minus_one unat_gt_0 [symmetric])
    have e2: "bnum z + V = D mod V + base ^ (n + 1)"
      using e mult_div_mod_eq [of V D] unfolding q distrib_left mult_1_right by linarith
    define u1 where "u1 = write_at j z u"
    have u1: "drop j u1 = z @ drop (j + n + 1) u" "length u1 = length u"
      using n sv(2) by (simp_all add: u1_def write_at_def)
    obtain z2 c2 where a: "AddVV_g n (drop j u1) v = (z2, c2)" by fastforce
    have tz: "take n (drop j u1) = take n z" using u1 sv(2) by simp
    have av: "bnum z2 + base ^ n * unat c2 = bnum (take n z) + V" "length z2 = n" "unat c2 \<le> 1"
      using AddVV_g_value [OF _ _ a] n u1 sv(2) unfolding tz V_def by simp_all
    have zs: "bnum z = bnum (take n z) + base ^ n * unat (z ! n)"
    proof -
      have "z = take n z @ [z ! n]" using sv(2) by (metis Suc_eq_plus1 lessI order_refl take_Suc_conv_app_nth take_all)
      then show ?thesis using sv(2) bnum_append [of "take n z" "[z ! n]"] by simp
    qed
    have t: "bnum z2 + base ^ n * (unat (z ! n) + unat c2) = D mod V + base ^ n * base"
      using e2 zs av(1) by (simp add: distrib_left ac_simps)
    have "bnum z2 < base ^ n" using bnum_lt [of z2] av(2) by simp
    moreover have "D mod V < base ^ n" using mod_less_divisor [OF V0, of D] Vlt by linarith
    ultimately have "bnum z2 = D mod V" "unat (z ! n) + unat c2 = base"
      using t mod_add_mult [of "bnum z2" "base ^ n"] mod_add_mult [of "D mod V" "base ^ n"]
        div_add_mult [of "bnum z2" "base ^ n"] div_add_mult [of "D mod V" "base ^ n"]
      by metis+
    then have zz: "bnum (z2 @ [z ! n + c2]) = D mod V"
      by (simp add: bnum_append unat_add_base)
    have w: "(write_at j z2 u1)[j + n := write_at j z2 u1 ! (j + n) + c2] = write_at j (z2 @ [z ! n + c2]) u"
    proof -
      have "z = take n z @ [z ! n]" using sv(2) by (metis Suc_eq_plus1 lessI order_refl take_Suc_conv_app_nth take_all)
      then have "u1 = take j u @ (take n z @ [z ! n]) @ drop (j + n + 1) u"
        using sv(2) n by (simp add: u1_def write_at_def)
      then have "write_at j z2 u1 = take j u @ z2 @ z ! n # drop (j + n + 1) u"
        using av(2) n sv(2) by (simp add: write_at_def)
      then show ?thesis using av(2) n by (simp add: list_update_append nth_append write_at_def)
    qed
    have "div_round v n j (u, q, h) = (write_at j (z2 @ [z ! n + c2]) u, q[j := qh - 1], if j + 1 > h \<and> qh - 1 > 0 then j + 1 else h)"
      using False m s a w by (simp add: div_round_def qh_def u1_def Let_def)
    then show ?thesis using qf zz av(2) by (intro res [of "z2 @ [z ! n + c2]" "qh - 1"]) auto
  qed
qed

lemma div_round_value:
  assumes n: "2 \<le> n" "n \<le> length v" "j + n < length u" "j < length q"
    and norm: "2 ^ 63 \<le> unat (v ! (n - 1))"
    and lt: "bnum (drop (Suc j) u) < bnum (take n v)"
    and q0: "\<And>i. i \<le> j \<Longrightarrow> q ! i = 0"
    and r: "div_round v n j (u, q, h) = (u', q', h')"
  shows "bnum u' + bnum (take n v) * bnum q' = bnum u + bnum (take n v) * bnum q"
    "bnum (drop j u') < bnum (take n v)" "length u' = length u" "length q' = length q"
    "\<And>i. i < j \<Longrightarrow> q' ! i = 0"
    "h = highest (length q) q \<Longrightarrow> h' = highest (length q) q'"
proof -
  obtain zz qf where d: "length zz = n + 1" "bnum zz = bnum (drop j u) mod bnum (take n v)"
    "unat qf = bnum (drop j u) div bnum (take n v)" "bnum (drop (j + n + 1) u) = 0"
    "div_round v n j (u, q, h) = (write_at j zz u, q[j := qf], if j + 1 > h \<and> qf > 0 then j + 1 else h)"
    using div_round_words [OF n(1-3) norm lt] by blast
  have e: "u' = write_at j zz u" "q' = q[j := qf]" "h' = (if j + 1 > h \<and> qf > 0 then j + 1 else h)"
    using r d(5) by auto
  define V D where "V = bnum (take n v)" and "D = bnum (drop j u)"
  have V0: "0 < V" using lt by (simp add: V_def)
  have dj: "drop j u' = zz @ drop (j + n + 1) u"
    using n d(1) by (simp add: e write_at_def)
  then show "bnum (drop j u') < bnum (take n v)"
    using d V0 by (simp add: bnum_append V_def)
  show l: "length u' = length u" "length q' = length q"
    using n d(1) by (simp_all add: e)
  show "q' ! i = 0" if "i < j" for i using that q0 by (simp add: e)
  have "bnum u = bnum (take j u) + base ^ j * D"
    using bnum_take_drop [of u j] n by (simp add: D_def min_def)
  moreover have "bnum u' = bnum (take j u) + base ^ j * (D mod V)"
    using bnum_take_drop [of u' j] n l dj d by (simp add: e write_at_def min_def bnum_append D_def V_def)
  moreover have "bnum q' = bnum q + base ^ j * (D div V)"
    using bnum_update [of j q qf] n q0 [of j] d by (simp add: e D_def V_def)
  then have "V * bnum q' = V * bnum q + base ^ j * (V * (D div V))"
    by (simp add: distrib_left mult.left_commute)
  ultimately show "bnum u' + bnum (take n v) * bnum q' = bnum u + bnum (take n v) * bnum q"
    using scale_div_mod(1) [of "base ^ j" V D] unfolding V_def [symmetric] by linarith
  show "h' = highest (length q) q'" if "h = highest (length q) q"
    using highest_update [OF n(4) q0, of qf] that by (simp add: e)
qed

lemma div_loop_value:
  assumes n: "2 \<le> n" "n \<le> length v" and norm: "2 ^ 63 \<le> unat (v ! (n - 1))"
  shows "j + n \<le> length u \<Longrightarrow> j \<le> length q \<Longrightarrow> bnum (drop j u) < bnum (take n v) \<Longrightarrow>
    (\<And>i. i < j \<Longrightarrow> q ! i = 0) \<Longrightarrow> h = highest (length q) q \<Longrightarrow>
    div_loop v n j (u, q, h) = (u', q', h') \<Longrightarrow>
    bnum u' + bnum (take n v) * bnum q' = bnum u + bnum (take n v) * bnum q \<and>
    bnum u' < bnum (take n v) \<and> length u' = length u \<and> length q' = length q \<and>
    h' = highest (length q) q'"
proof (induction j arbitrary: u q h)
  case 0
  then show ?case by auto
next
  case (Suc j)
  obtain u1 q1 h1 where r: "div_round v n j (u, q, h) = (u1, q1, h1)" by (metis prod_cases3)
  have pre: "j + n < length u" "j < length q" "\<And>i. i \<le> j \<Longrightarrow> q ! i = 0"
    using Suc.prems by auto
  note R = div_round_value [OF n pre(1,2) norm Suc.prems(3) pre(3) r]
  have "div_loop v n j (u1, q1, h1) = (u', q', h')" using Suc.prems(6) r by simp
  note ih = Suc.IH [OF _ _ _ _ _ this]
  show ?case
    using ih R Suc.prems(5) pre by simp
qed

lemma divisor_normalised:
  assumes "int_wf y" "0 < len y"
  defines "n \<equiv> len y" and "s \<equiv> Nlz (words y ! (len y - 1))"
  defines "v \<equiv> (if s > 0 then fst (ShlVU_g INT1024WORDS (words y) s) else words y)"
  shows "length v = INT1024WORDS" "bnum (take n v) = int_val y * 2 ^ s" "2 ^ 63 \<le> unat (v ! (n - 1))" "s < 64"
    "2 ^ 63 * base ^ (n - 1) \<le> bnum (take n v)"
proof -
  define t where "t = words y ! (n - 1)"
  have t0: "t \<noteq> 0" using int_wf_top [OF assms(1,2)] by (simp add: t_def n_def)
  have n16: "n \<le> 16" using assms by (simp add: int_wf_len)
  have N: "2 ^ 63 \<le> unat t * 2 ^ s" "unat t * 2 ^ s < 2 ^ 64" "s < 64"
    using Nlz_normalises [OF t0] by (simp_all add: s_def t_def n_def)
  show "s < 64" by (rule N)
  define L where "L = bnum (take (n - 1) (words y))"
  have tk: "take n (words y) = take (n - 1) (words y) @ [t]"
    using assms(1,2) n16 take_last [of n "words y"] by (simp add: t_def n_def)
  have l1: "length (take (n - 1) w) = n - 1" if "length w = 16" for w :: "u64 list"
    using n16 that by simp
  have Y: "int_val y = L + base ^ (n - 1) * unat t" "L < base ^ (n - 1)"
    using int_val_take [OF assms(1)] bnum_lt [of "take (n - 1) (words y)"] l1 [OF int_wf_length [OF assms(1)]] tk
    by (simp_all add: bnum_append L_def flip: n_def del: length_take)
  have lt: "int_val y * 2 ^ s < base ^ n"
  proof -
    have b: "base = 2 ^ (64 - s) * 2 ^ s" using N(3) by (simp add: base_def flip: power_add)
    have "unat t * 2 ^ s < 2 ^ (64 - s) * 2 ^ s" using N(2) b by (simp add: base_def)
    then have "unat t + 1 \<le> 2 ^ (64 - s)" by simp
    then have "(unat t + 1) * 2 ^ s \<le> base" unfolding b by (rule mult_le_mono1)
    then have "base ^ (n - 1) * ((unat t + 1) * 2 ^ s) \<le> base ^ (n - 1) * base" by (rule mult_le_mono2)
    moreover have "int_val y * 2 ^ s < base ^ (n - 1) * (unat t + 1) * 2 ^ s"
      using Y by simp
    moreover have "base ^ (n - 1) * base = base ^ n" using assms(2) by (metis n_def power_minus_mult)
    ultimately show ?thesis by (simp only: mult.assoc)
  qed
  have v: "length v = 16 \<and> bnum v = int_val y * 2 ^ s"
  proof (cases "s > 0")
    case True
    obtain z c where z: "ShlVU_g 16 (words y) s = (z, c)" by fastforce
    have zv: "bnum z + base ^ 16 * unat c = int_val y * 2 ^ s" "length z = 16"
      using ShlVU_g_value [OF _ _ z] N(3) assms(1) by (simp_all add: int_val_def)
    have "base ^ n \<le> base ^ 16" using n16 by (intro power_increasing) auto
    then have "base ^ 16 * unat c < base ^ 16 * 1" using zv(1) lt by linarith
    then have "unat c < 1" by (rule mult_less_cancel1 [THEN iffD1, THEN conjunct2])
    then show ?thesis using zv True z by (simp add: v_def)
  next
    case False
    then show ?thesis using assms(1) by (simp add: v_def int_val_def)
  qed
  then show "length v = 16" by simp
  show bt: "bnum (take n v) = int_val y * 2 ^ s" using v lt by (simp add: bnum_take_mod)
  have "2 ^ 63 * base ^ (n - 1) \<le> unat t * 2 ^ s * base ^ (n - 1)" using N(1) by (rule mult_le_mono1)
  also have "\<dots> \<le> int_val y * 2 ^ s" unfolding Y(1) by (simp add: distrib_left distrib_right ac_simps)
  finally show ge: "2 ^ 63 * base ^ (n - 1) \<le> bnum (take n v)" by (simp add: bt)
  have tv: "take n v = take (n - 1) v @ [v ! (n - 1)]"
    using v n16 assms(2) take_last [of n v] by (simp add: n_def)
  have "bnum (take n v) < base ^ (n - 1) * (unat (v ! (n - 1)) + 1)"
    unfolding tv using v l1 bnum_lt [of "take (n - 1) v"]
    by (simp add: bnum_append del: length_take)
  then have "base ^ (n - 1) * 2 ^ 63 < base ^ (n - 1) * (unat (v ! (n - 1)) + 1)"
    using ge by (simp only: mult.commute)
  then have "2 ^ 63 < unat (v ! (n - 1)) + 1" by (rule mult_less_cancel1 [THEN iffD1, THEN conjunct2])
  then show "2 ^ 63 \<le> unat (v ! (n - 1))" by simp
qed

lemma div_words_value:
  assumes y: "int_wf y" "2 \<le> len y" and x: "len y \<le> xlen" "xlen \<le> N" "xlen \<le> length uIn"
  defines "X \<equiv> bnum (take xlen uIn)" and "Y \<equiv> int_val y"
  obtains q r where "div_words N uIn xlen y = ((q, highest N q), (r, highest N r))"
    "length q = N" "length r = N" "bnum q = X div Y" "bnum r = X mod Y"
proof -
  define n s where "n = len y" and "s = Nlz (words y ! (len y - 1))"
  define v where "v = (if s > 0 then fst (ShlVU_g INT1024WORDS (words y) s) else words y)"
  have y0: "0 < len y" using y by simp
  note V = divisor_normalised [OF y(1) y0, folded s_def n_def, folded v_def]
  define VV where "VV = bnum (take n v)"
  have n16: "n \<le> 16" using y by (simp add: n_def int_wf_len)
  obtain z c where z: "ShlVU_g xlen uIn s = (z, c)" by fastforce
  have zv: "bnum z + base ^ xlen * unat c = X * 2 ^ s" "length z = xlen"
    using ShlVU_g_value [OF _ x(3) z] V(4) by (simp_all add: X_def)
  define u where "u = (write_at 0 z (replicate (N + 1) 0))[xlen := c]"
  have u: "length u = N + 1" "bnum u = X * 2 ^ s"
  proof -
    show "length u = N + 1" using x zv(2) by (simp add: u_def)
    have "drop xlen (replicate (N + 1) (0::u64)) = replicate (Suc (N - xlen)) 0"
      using x by (simp only: drop_replicate) (simp add: Suc_diff_le)
    then have "write_at 0 z (replicate (N + 1) 0) = z @ 0 # replicate (N - xlen) 0"
      using zv(2) by (simp add: write_at_def)
    then have "u = (z @ [c]) @ replicate (N - xlen) 0"
      using zv(2) by (simp add: u_def list_update_append)
    then have "bnum u = bnum (z @ [c])" by (simp only: bnum_append_zeros)
    then show "bnum u = X * 2 ^ s" using zv by (simp add: bnum_append)
  qed
  define m where "m = xlen - n"
  have "bnum (drop (m + 1) u) < VV"
  proof -
    have "X < base ^ xlen" using bnum_lt [of "take xlen uIn"] x by (simp add: X_def)
    then have "X * 2 ^ s < base ^ xlen * 2 ^ s" by simp
    also have "\<dots> \<le> base ^ xlen * 2 ^ 63" using V(4) by (intro mult_le_mono2 power_increasing) auto
    also have "\<dots> = 2 ^ 63 * base ^ (n - 1) * base ^ (m + 1)"
      using x(1) y0 by (simp add: m_def n_def flip: power_add power_Suc)
    also have "\<dots> \<le> VV * base ^ (m + 1)" using V(5) by (intro mult_le_mono1) (simp add: VV_def)
    finally show ?thesis unfolding bnum_drop_div u by (simp add: less_mult_imp_div_less)
  qed
  note start = this [unfolded VV_def]
  obtain u' q h where l: "div_loop v n (m + 1) (u, replicate N 0, 0) = (u', q, h)" by (metis prod_cases3)
  have h0: "highest N (replicate N 0) = 0" by (rule highest_eqI) auto
  have L: "bnum u' + VV * bnum q = X * 2 ^ s" "bnum u' < VV" "length u' = N + 1" "length q = N" "h = highest N q"
    using div_loop_value [OF _ _ V(3) _ _ start _ _ l] y x u V(1) n16 h0
    by (simp_all add: VV_def n_def m_def)
  have VY: "VV = Y * 2 ^ s" using V(2) by (simp add: VV_def Y_def)
  have "X * 2 ^ s div VV = bnum q" "X * 2 ^ s mod VV = bnum u'"
    using L(1,2) by (metis div_add_mult, metis mod_add_mult)
  then have q: "bnum q = X div Y" and u': "bnum u' = (X mod Y) * 2 ^ s"
    unfolding VY by (simp_all add: mult_mod_left)
  define w where "w = fst (ShrVU_g (xlen + 1) (take (xlen + 1) u') s)"
  have Vlt: "VV < base ^ n" using bnum_lt [of "take n v"] V(1) n16 by (simp add: VV_def)
  have "base ^ n \<le> base ^ (xlen + 1)" using x by (intro power_increasing) (auto simp: n_def)
  then have ult: "bnum u' < base ^ (xlen + 1)" using L(2) Vlt by linarith
  have lt: "length (take (xlen + 1) u') = xlen + 1" using L(3) x by simp
  have w: "bnum w = X mod Y" "length w = xlen + 1"
    using ShrVU_g_value [of s "take (xlen + 1) u'"] V(4) u' ult unfolding lt
    by (simp_all add: w_def bnum_take_mod)
  have "bnum (drop (xlen + 1) u') = 0" using ult unfolding bnum_drop_div by simp
  then have W: "bnum (write_at 0 w u') = X mod Y" "length (write_at 0 w u') = N + 1"
    using w L(3) x by (simp_all add: bnum_write_at_0)
  have "X mod Y < base ^ N"
  proof -
    have "0 < Y" using Vlt VY V(5) by (cases "Y = 0") (auto simp: VV_def)
    then have "X mod Y < Y" by simp
    also have "Y \<le> VV" by (simp add: VY)
    also have "VV < base ^ n" by (rule Vlt)
    also have "\<dots> \<le> base ^ N" using x by (intro power_increasing) (auto simp: n_def)
    finally show ?thesis .
  qed
  then have r: "bnum (take N (write_at 0 w u')) = X mod Y" "length (take N (write_at 0 w u')) = N"
    using W by (simp_all add: bnum_take_mod)
  have "div_words N uIn xlen y = ((q, highest N q), (take N (write_at 0 w u'), highest N (take N (write_at 0 w u'))))"
    unfolding div_words_def Let_def s_def [symmetric] v_def [symmetric] z prod.case u_def [symmetric]
    unfolding n_def [symmetric] m_def [symmetric] l prod.case w_def [symmetric] firstPositive_highest L(5) ..
  then show ?thesis using q L(4) r by (intro that) auto
qed

subsection \<open>Quotient and remainder\<close>

lemma divLarge_value:
  assumes "int_wf x" "int_wf y" "2 \<le> len y" "len y \<le> len x"
  shows "int_wf (fst (divLarge x y)) \<and> int_wf (snd (divLarge x y)) \<and>
    int_val (fst (divLarge x y)) = int_val x div int_val y \<and>
    int_val (snd (divLarge x y)) = int_val x mod int_val y"
proof -
  have l: "len x \<le> length (words x)" "len x \<le> 16" using assms by (simp_all add: int_wf_len)
  obtain q r where "div_words 16 (words x) (len x) y = ((q, highest 16 q), (r, highest 16 r))"
    "length q = 16" "length r = 16" "bnum q = int_val x div int_val y" "bnum r = int_val x mod int_val y"
    using div_words_value [OF assms(2,3,4) l(2,1)] unfolding int_val_take [OF assms(1), symmetric] by blast
  then show ?thesis by (simp add: divLarge_def int_wf_def int_val_def)
qed

lemma DivMod_value:
  assumes "int_wf x" "int_wf y"
  shows "int_val y = 0 \<Longrightarrow> DivMod x y = None"
    and "int_val y \<noteq> 0 \<Longrightarrow> \<exists>q r. DivMod x y = Some (q, r) \<and> int_wf q \<and> int_wf r \<and>
      int_val q = int_val x div int_val y \<and> int_val r = int_val x mod int_val y"
proof -
  show "int_val y = 0 \<Longrightarrow> DivMod x y = None" using assms by (simp add: DivMod_def IsZero_val)
  assume y0: "int_val y \<noteq> 0"
  then have ly: "len y \<noteq> 0" using assms(2) by (simp add: int_val_0_iff)
  show "\<exists>q r. DivMod x y = Some (q, r) \<and> int_wf q \<and> int_wf r \<and>
      int_val q = int_val x div int_val y \<and> int_val r = int_val x mod int_val y"
  proof (cases "int_val x < int_val y")
    case True
    then show ?thesis using assms y0 by (simp add: DivMod_def IsZero_val Cmp_value)
  next
    case False
    then have le: "len y \<le> len x" using len_mono [OF assms] by (meson not_le)
    have c: "\<not> Cmp x y < 0" using False assms by (simp add: Cmp_value)
    show ?thesis
    proof (cases "len y = 1")
      case True
      have w: "int_val y = unat (words y ! 0)" "words y ! 0 \<noteq> 0"
        using True int_val_take [OF assms(2)] assms(2) int_wf_top [OF assms(2)]
        by (simp_all add: take_Suc_conv_app_nth)
      show ?thesis using divW_value [OF assms(1) w(2)] True False assms y0 w
        by (cases "divW x (words y ! 0)") (simp add: DivMod_def IsZero_val c)
    next
      case False2: False
      then have "2 \<le> len y" using ly by simp
      then show ?thesis using divLarge_value [OF assms _ le] False2 False assms y0
        by (cases "divLarge x y") (simp add: DivMod_def IsZero_val c)
    qed
  qed
qed

lemma Div_value:
  assumes "int_wf x" "int_wf y" "int_val y \<noteq> 0"
  shows "\<exists>q. Div x y = Some q \<and> int_wf q \<and> int_val q = int_val x div int_val y"
  using DivMod_value(2) [OF assms] by (auto simp: Div_def)

lemma Mod_value:
  assumes "int_wf x" "int_wf n"
  shows "int_val n \<noteq> 0 \<Longrightarrow> \<exists>r. Mod x n = Some r \<and> int_wf r \<and> int_val r = int_val x mod int_val n"
    and "int_val n = 0 \<Longrightarrow> Mod x n = (if int_val x = 0 then Some Zero else None)"
proof -
  assume n0: "int_val n \<noteq> 0"
  show "\<exists>r. Mod x n = Some r \<and> int_wf r \<and> int_val r = int_val x mod int_val n"
  proof (cases "int_val x > int_val n")
    case True
    then show ?thesis using DivMod_value(2) [OF assms n0] assms by (auto simp: Mod_def Cmp_value)
  next
    case False
    then show ?thesis using assms by (auto simp: Mod_def Cmp_value Let_def)
  qed
next
  assume "int_val n = 0"
  then show "Mod x n = (if int_val x = 0 then Some Zero else None)"
    using DivMod_value(1) [OF assms] assms by (simp add: Mod_def Cmp_value)
qed

lemma MulModuloBig_value:
  assumes "int_wf x" "int_wf y" "int_wf n" "2 \<le> len n"
  shows "\<exists>z. MulModuloBig x y n = Some z \<and> int_wf z \<and> int_val z = (int_val x * int_val y) mod int_val n"
proof -
  have l: "len x + len y \<le> 16 * 2" using assms int_wf_len [of x] int_wf_len [of y] by simp
  define ws h where "ws = BasicMulBig x y" and "h = highest (len x + len y) ws"
  have ws: "length ws = 32" "bnum ws = int_val x * int_val y" "\<And>i. len x + len y \<le> i \<Longrightarrow> i < 32 \<Longrightarrow> ws ! i = 0"
    using BasicMul_words_value [OF assms(1,2) l] by (simp_all add: ws_def BasicMulBig_def)
  have h: "h = highest 32 ws" using highest_drop_zeros [of _ 32 ws] l ws(3) by (simp add: h_def)
  have hz: "drop k ws = replicate (32 - k) 0" if "h \<le> k" for k
    using that ws(1) highest_above [of 32 ws] h by (subst drop_zeros) auto
  have bt: "bnum (take k ws) = bnum ws" if "h \<le> k" for k
    using hz [OF that] by (metis append_take_drop_id bnum_append_zeros)
  have n0: "int_val n \<noteq> 0" using assms(3,4) by (simp add: int_val_0_iff)
  show ?thesis
  proof (cases "h \<le> 16")
    case True
    define xy where "xy = \<lparr>words = take 16 ws, len = h\<rparr>"
    have "h = highest 16 (take 16 ws)"
      using highest_top [of 32 ws] highest_above [of 32 ws] h True
      by (intro highest_eqI [symmetric]) auto
    then have "int_wf xy" using ws(1) by (simp add: xy_def int_wf_def)
    moreover have "int_val xy = int_val x * int_val y"
      using bt [OF True] ws(2) by (simp add: xy_def int_val_def)
    ultimately have "\<exists>z. Mod xy n = Some z \<and> int_wf z \<and> int_val z = (int_val x * int_val y) mod int_val n"
      using Mod_value(1) [OF _ assms(3) n0, of xy] by simp
    then show ?thesis using True by (simp add: MulModuloBig_def Let_def xy_def flip: ws_def h_def)
  next
    case False
    have nh: "len n \<le> h" "h \<le> 32" "h \<le> length ws"
      using False int_wf_len [OF assms(3)] highest_le [of 32 ws] h ws(1) by auto
    obtain q r where d: "div_words 32 ws h n = ((q, highest 32 q), (r, highest 32 r))" "length r = 32"
      "bnum r = bnum ws mod int_val n"
      using div_words_value [OF assms(3,4) nh] unfolding bt [OF order_refl] by blast
    have "bnum r < int_val n" using d(3) n0 by simp
    then have rlt: "bnum r < base ^ 16" using int_val_bound [OF assms(3)] by linarith
    have "bnum (drop 16 r) = 0" using rlt by (simp add: bnum_drop_div)
    then have r0: "r ! i = 0" if "16 \<le> i" "i < 32" for i
    proof -
      have "drop 16 r ! (i - 16) \<in> set (drop 16 r)" using that d(2) by (intro nth_mem) simp
      then show ?thesis using \<open>bnum (drop 16 r) = 0\<close> that d(2) by (simp add: bnum_eq_0_iff)
    qed
    have "highest 32 r = highest 16 r" using r0 by (intro highest_drop_zeros) auto
    also have "\<dots> = highest 16 (take 16 r)"
      using highest_le [of 16 r] highest_top [of 16 r] highest_above [of 16 r]
      by (intro highest_eqI [symmetric]) auto
    finally have "int_wf \<lparr>words = take 16 r, len = highest 32 r\<rparr>" using d(2) by (simp add: int_wf_def)
    moreover have "bnum (take 16 r) = bnum r" using rlt by (simp add: bnum_take_mod)
    ultimately show ?thesis using False assms(4) d ws(2)
      by (simp add: MulModuloBig_def divDouble_def Let_def int_val_def flip: ws_def h_def)
  qed
qed

end
