(* ===== verification/Codec.thy ===== *)
theory Codec
  imports Prelude
begin

unbundle bit_operations_syntax

section \<open>Big-endian bytes: \<^verbatim>\<open>encoding/binary\<close>\<close>

text \<open>
  The byte encodings of fixed-width integers that the repository takes from the Go standard
  library: \<^verbatim>\<open>binary.BigEndian\<close> with \<^verbatim>\<open>binary.Write\<close> and
  \<^verbatim>\<open>binary.Read\<close> on a \<^verbatim>\<open>bytes.Buffer\<close>. Writing appends the bytes, most
  significant first; reading consumes them from the front and fails when there are too few.
\<close>

definition be_num :: "bytes \<Rightarrow> nat" where
  "be_num bs = foldl (\<lambda>a b. a * 256 + unat b) 0 bs"

primrec be_enc :: "nat \<Rightarrow> nat \<Rightarrow> bytes" where
  "be_enc 0 n = []"
| "be_enc (Suc k) n = be_enc k (n div 256) @ [word_of_nat n]"

text \<open>\<^verbatim>\<open>binary.Read\<close> of \<open>k\<close> bytes: \<^verbatim>\<open>io.EOF\<close> on an empty buffer,
  \<^verbatim>\<open>io.ErrUnexpectedEOF\<close> on a short one.\<close>

datatype read_error = EOF | UnexpectedEOF

definition be_read :: "nat \<Rightarrow> bytes \<Rightarrow> read_error + (nat \<times> bytes)" where
  "be_read k bs =
     (if k \<le> length bs then Inr (be_num (take k bs), drop k bs)
      else if bs = [] then Inl EOF else Inl UnexpectedEOF)"

lemma be_num_Nil [simp, codec]: "be_num [] = 0"
  by (simp add: be_num_def)

lemma be_num_snoc [simp, codec]: "be_num (bs @ [b]) = be_num bs * 256 + unat b"
  by (simp add: be_num_def)

lemma be_num_append: "be_num (xs @ ys) = be_num xs * 256 ^ length ys + be_num ys"
  by (induction ys rule: rev_induct) (simp_all add: algebra_simps flip: append_assoc)

lemma be_num_Cons: "be_num (b # bs) = unat b * 256 ^ length bs + be_num bs"
  using be_num_append [of "[b]" bs] by (simp add: be_num_def)

lemma byte_lt [simp]: "unat (b :: u8) < 256"
  using unsigned_less [of b] by simp

lemma be_num_lt: "be_num bs < 256 ^ length bs"
proof (induction bs rule: rev_induct)
  case (snoc b bs)
  have "be_num bs * 256 + unat b < (be_num bs + 1) * 256" by simp
  also have "\<dots> \<le> 256 ^ length bs * 256" using snoc by (intro mult_le_mono1) simp
  finally show ?case by simp
qed simp

lemma length_be_enc [simp, codec]: "length (be_enc k n) = k"
  by (induction k arbitrary: n) simp_all

lemma unat_byte: "unat (word_of_nat n :: u8) = n mod 256"
  by (simp add: unat_of_nat take_bit_eq_mod)

lemma be_num_be_enc [simp, codec]: "be_num (be_enc k n) = n mod 256 ^ k"
proof (induction k arbitrary: n)
  case (Suc k)
  have "n mod (256 * 256 ^ k) = n mod 256 + 256 * (n div 256 mod 256 ^ k)"
    by (simp add: mod_mult2_eq)
  then show ?case using Suc by (simp add: unat_byte)
qed simp

lemma be_enc_be_num [simp, codec]: "be_enc (length bs) (be_num bs) = bs"
proof (induction bs rule: rev_induct)
  case (snoc b bs)
  have "(be_num bs * 256 + unat b) div 256 = be_num bs"
    using div_add_mult [OF byte_lt, of b "be_num bs"] by (simp add: ac_simps)
  moreover have "(word_of_nat (be_num bs * 256 + unat b) :: u8) = b"
  proof -
    have "unat (word_of_nat (be_num bs * 256 + unat b) :: u8) = unat b"
      unfolding unat_byte using mod_add_mult [OF byte_lt, of b "be_num bs"] by (simp add: ac_simps)
    then show ?thesis by (simp add: word_unat_eq_iff)
  qed
  ultimately show ?case using snoc by simp
qed simp

lemma be_enc_append: "r < 256 ^ k \<Longrightarrow> be_enc (m + k) (n * 256 ^ k + r) = be_enc m n @ be_enc k r"
proof (induction k arbitrary: r)
  case (Suc k)
  have d: "(n * 256 ^ Suc k + r) div 256 = n * 256 ^ k + r div 256"
    by (simp add: algebra_simps)
  have "r div 256 < 256 ^ k" using Suc.prems by (simp add: less_mult_imp_div_less mult.commute)
  moreover have "(word_of_nat (n * 256 ^ Suc k + r) :: u8) = word_of_nat r"
  proof -
    have "n * 256 ^ Suc k + r = r + 256 * (n * 256 ^ k)" by simp
    then show ?thesis by (simp only: word_unat_eq_iff unat_byte mod_mult_self2)
  qed
  ultimately show ?case using Suc.IH d by simp
qed simp

lemma be_enc_0: "be_enc k 0 = replicate k 0"
  by (induction k) (simp_all add: replicate_append_same)

lemma be_read_be_enc [simp, codec]:
  "n < 256 ^ k \<Longrightarrow> be_read k (be_enc k n @ rest) = Inr (n, rest)"
  by (simp add: be_read_def)

lemma be_read_u64 [simp, codec]: "be_read 8 (be_enc 8 (unat (x :: u64)) @ rest) = Inr (unat x, rest)"
  using unsigned_less [of x, where 'a = nat] by (simp add: be_read_def)

lemma be_read_u32 [simp, codec]: "be_read 4 (be_enc 4 (unat (x :: u32)) @ rest) = Inr (unat x, rest)"
  using unsigned_less [of x, where 'a = nat] by (simp add: be_read_def)

lemma be_read_end [simp, codec]:
  "be_read 8 (be_enc 8 (unat (x :: u64))) = Inr (unat x, [])"
  "be_read 4 (be_enc 4 (unat (y :: u32))) = Inr (unat y, [])"
  using be_read_u64 [of x "[]"] be_read_u32 [of y "[]"] by simp_all

lemma be_enc_Nil_iff [simp]: "be_enc k n = [] \<longleftrightarrow> k = 0"
  by (cases k) simp_all

text \<open>Reading succeeds exactly when there are enough bytes.\<close>

lemma be_read_ok: "k \<le> length bs \<Longrightarrow> be_read k bs = Inr (be_num (take k bs), drop k bs)"
  by (simp add: be_read_def)

lemma be_read_short: "length bs < k \<Longrightarrow> be_read k bs = Inl (if bs = [] then EOF else UnexpectedEOF)"
  by (simp add: be_read_def)

lemma be_enc_be_num_take [simp]: "k \<le> length bs \<Longrightarrow> be_enc k (be_num (take k bs)) = take k bs"
  using be_enc_be_num [of "take k bs"] by (simp add: min_absorb2)

lemma unat_be_num_u64: "length bs \<le> 8 \<Longrightarrow> unat (word_of_nat (be_num bs) :: u64) = be_num bs"
proof -
  assume "length bs \<le> 8"
  then have "(256::nat) ^ length bs \<le> 256 ^ 8" by (intro power_increasing) auto
  then have "be_num bs < 2 ^ LENGTH(64)" using be_num_lt [of bs] by simp
  then show ?thesis by (simp add: unat_of_nat take_bit_eq_mod)
qed

lemma be_num_replicate_0 [simp]: "be_num (replicate n 0 @ bs) = be_num bs"
  by (induction n) (simp_all add: be_num_Cons)

lemma be_num_drop: "be_num (drop k bs) = be_num bs mod 256 ^ (length bs - k)"
proof -
  have "be_num bs = be_num (take k bs) * 256 ^ (length bs - k) + be_num (drop k bs)"
    using be_num_append [of "take k bs" "drop k bs"] by simp
  moreover have "be_num (drop k bs) < 256 ^ (length bs - k)"
    using be_num_lt [of "drop k bs"] by simp
  ultimately show ?thesis by (simp add: mod_add_mult mult.commute add.commute)
qed

lemma be_num_take: "be_num (take k bs) = be_num bs div 256 ^ (length bs - k)"
proof -
  have "be_num bs = be_num (take k bs) * 256 ^ (length bs - k) + be_num (drop k bs)"
    using be_num_append [of "take k bs" "drop k bs"] by simp
  moreover have "be_num (drop k bs) < 256 ^ (length bs - k)"
    using be_num_lt [of "drop k bs"] by simp
  ultimately show ?thesis by (simp add: div_add_mult mult.commute add.commute)
qed

end
