(* ===== verification/Int1024_Bytes.thy ===== *)
theory Int1024_Bytes
  imports Int1024_Bits Codec
begin

unbundle bit_operations_syntax

section \<open>Serialisation and random numbers: \<^verbatim>\<open>int1024.go\<close>, \<^verbatim>\<open>int1024_crypto.go\<close>\<close>

text \<open>
  \<^verbatim>\<open>Bytes\<close> is the minimal big-endian encoding and \<^verbatim>\<open>SetBytes\<close> decodes any
  big-endian byte string that fits; both run on explicit indices here, as they do in the source.
  \<open>None\<close> is an index out of range. \<^verbatim>\<open>Random\<close> reads candidates from an
  \<^verbatim>\<open>io.Reader\<close>, modelled as the bytes it still delivers.
\<close>

subsection \<open>Bytes\<close>

text \<open>The loop over the bytes of one word. The index \<open>i\<close> is a \<^verbatim>\<open>uint16\<close>: it wraps when it
  is decremented below 0, which happens on the leading zero bytes of the top word.\<close>

primrec Bytes_word :: "nat \<Rightarrow> u64 \<Rightarrow> nat \<Rightarrow> bytes \<Rightarrow> (bytes \<times> nat) option" where
  "Bytes_word 0 d i buf = Some (buf, i)"
| "Bytes_word (Suc j) d i buf =
     (let p = (i + 65535) mod 65536
      in if d > 0 then
           if p < length buf then Bytes_word j (drop_bit 8 d) p (buf[p := ucast d]) else None
         else Bytes_word j (drop_bit 8 d) p buf)"

fun Bytes_loop :: "u64 list \<Rightarrow> nat \<Rightarrow> bytes \<Rightarrow> bytes option" where
  "Bytes_loop [] i buf = Some buf"
| "Bytes_loop (w # ws) i buf = do { (buf', i') \<leftarrow> Bytes_word 8 w i buf; Bytes_loop ws i' buf' }"

definition Bytes :: "int1024 \<Rightarrow> bytes option" where
  "Bytes x =
     (let bitlen = BitLength x;
          i = bitlen div 8 + (if bitlen mod 8 > 0 then 1 else 0)
      in Bytes_loop (take (len x) (words x)) i (replicate i 0))"

text \<open>The loop that counts leading zeros keeps the \<^emph>\<open>index\<close> of the last one it saw.\<close>

fun leadingZeros :: "nat \<Rightarrow> bytes \<Rightarrow> nat \<Rightarrow> nat" where
  "leadingZeros i [] z = z"
| "leadingZeros i (b # bs) z = (if b \<noteq> 0 then z else leadingZeros (i + 1) bs i)"

definition SetBytes_word :: "bytes \<Rightarrow> nat \<Rightarrow> u64" where
  "SetBytes_word bs i =
     (let start = length bs - i * 8;
          end' = start - 8;
          b8 = replicate (8 - (start - end')) 0 @ take (start - end') (drop end' bs)
      in word_of_nat (be_num b8))"

definition SetBytes :: "int1024 \<Rightarrow> bytes \<Rightarrow> stackint_error + int1024" where
  "SetBytes x bytesAll =
     (let bs = drop (leadingZeros 0 bytesAll 0) bytesAll;
          numWords = length bs div 8 + (if length bs > 0 \<and> length bs mod 8 \<noteq> 0 then 1 else 0)
      in if numWords > INT1024WORDS then Inl ErrBytesTooLong
         else let ws = map (SetBytes_word bs) [0..<numWords] @ replicate (INT1024WORDS - numWords) 0
              in Inr \<lparr>words = ws, len = firstPositive numWords ws\<rparr>)"

definition FromBytes :: "bytes \<Rightarrow> stackint_error + int1024" where
  "FromBytes bs = SetBytes Zero bs"

subsection \<open>Random\<close>

text \<open>One call of \<^verbatim>\<open>io.ReadFull\<close> consumes \<open>k\<close> bytes. The loop ends with a candidate below
  the bound or with the error of the reader.\<close>

partial_function (option) Random_loop ::
    "nat \<Rightarrow> nat \<Rightarrow> int1024 \<Rightarrow> bytes \<Rightarrow> (stackint_error + int1024) option" where
  "Random_loop k b mx rand =
     (if length rand < k then Some (Inl ErrRandEOF)
      else let bs = take k rand;
               bs = bs[0 := bs ! 0 AND mask b]
           in case FromBytes bs of
                Inl e \<Rightarrow> Some (Inl e)
              | Inr n \<Rightarrow> if LessThan n mx then Some (Inr n) else Random_loop k b mx (drop k rand))"

definition Random :: "bytes \<Rightarrow> int1024 \<Rightarrow> (stackint_error + int1024) option" where
  "Random rand mx =
     (if LessThanOrEqual mx One then Some (Inr Zero)
      else let n = Sub mx One;
               bitLen = BitLength n;
               k = (bitLen + 7) div 8;
               b = (if bitLen mod 8 = 0 then 8 else bitLen mod 8)
           in Random_loop k b mx rand)"

subsection \<open>Encoding\<close>

lemma Bytes_word_0: "\<exists>i'. Bytes_word j 0 i buf = Some (buf, i')"
  by (induction j arbitrary: i) (auto simp: Let_def)

lemma Bytes_word_value:
  assumes "i < 65536" "j \<le> i \<or> unat d < 256 ^ i"
  shows "\<exists>i'. Bytes_word j d i (replicate i 0 @ rest) =
    Some (replicate (i - j) 0 @ be_enc (min i j) (unat d) @ rest, i') \<and> (j \<le> i \<longrightarrow> i' = i - j)"
  using assms
proof (induction j arbitrary: d i rest)
  case (Suc j)
  show ?case
  proof (cases i)
    case 0
    then have "d = 0" using Suc.prems by (simp add: unat_eq_0)
    then show ?thesis using 0 Bytes_word_0 [of "Suc j" 0 rest] by simp
  next
    case (Suc p)
    have p: "(i + 65535) mod 65536 = p" using Suc Suc.prems by simp
    have "p < 65536" "j \<le> p \<or> unat (drop_bit 8 d) < 256 ^ p"
      using Suc.prems Suc by (auto simp: unat_drop64 less_mult_imp_div_less mult.commute)
    note ih = Suc.IH [OF this, of "ucast d # rest"]
    have buf: "replicate i 0 @ rest = replicate p 0 @ 0 # rest"
      using Suc by (simp add: replicate_app_Cons_same)
    have upd: "(replicate p 0 @ 0 # rest)[p := ucast d] = replicate p 0 @ ucast d # rest"
      by (simp add: list_update_append)
    have z: "d = 0 \<Longrightarrow> ucast d # rest = 0 # rest" by simp
    have u: "(ucast d :: u8) = word_of_nat (unat d)" by (simp add: unsigned_ucast_eq)
    have "Bytes_word (Suc j) d i (replicate i 0 @ rest) = Bytes_word j (drop_bit 8 d) p (replicate p 0 @ ucast d # rest)"
      unfolding buf using p upd z by (cases "d = 0") (auto simp: Let_def word_gt_0)
    moreover have "be_enc (min i (Suc j)) (unat d) @ rest = be_enc (min p j) (unat (drop_bit 8 d)) @ ucast d # rest"
    proof -
      have m: "min i (Suc j) = Suc (min p j)" using Suc by simp
      show ?thesis unfolding m be_enc.simps u [symmetric] unat_drop64 by simp
    qed
    moreover obtain i' where "Bytes_word j (drop_bit 8 d) p (replicate p 0 @ ucast d # rest) =
        Some (replicate (p - j) 0 @ be_enc (min p j) (unat (drop_bit 8 d)) @ ucast d # rest, i')"
      "j \<le> p \<longrightarrow> i' = p - j"
      using ih by blast
    moreover have "i - Suc j = p - j" "Suc j \<le> i \<longleftrightarrow> j \<le> p" using Suc by auto
    ultimately show ?thesis by (intro exI [of _ i']) (simp only: simp_thms)
  qed
qed simp

lemma Bytes_loop_value:
  assumes "i < 65536" "8 * (length ws - 1) \<le> i" "i \<le> 8 * length ws" "bnum ws < 256 ^ i"
  shows "Bytes_loop ws i (replicate i 0 @ rest) = Some (be_enc i (bnum ws) @ rest)"
  using assms
proof (induction ws arbitrary: i rest)
  case (Cons w ws)
  show ?case
  proof (cases ws)
    case Nil
    then obtain i' where "Bytes_word 8 w i (replicate i 0 @ rest) = Some (be_enc i (unat w) @ rest, i')"
      using Bytes_word_value [of i 8 w rest] Cons.prems by auto
    then show ?thesis using Nil by simp
  next
    case (Cons v vs)
    have i8: "8 \<le> i" using Cons.prems(2) Cons by simp
    have b: "base = 256 ^ 8" by (simp add: base_def)
    have w: "Bytes_word 8 w i (replicate i 0 @ rest) = Some (replicate (i - 8) 0 @ be_enc 8 (unat w) @ rest, i - 8)"
      using Bytes_word_value [of i 8 w rest] Cons.prems i8 by auto
    have lt: "bnum ws < 256 ^ (i - 8)"
    proof -
      have "256 ^ i = base * 256 ^ (i - 8)" using i8 by (metis b le_add_diff_inverse power_add)
      then have "base * bnum ws < base * 256 ^ (i - 8)" using Cons.prems(4) unfolding bnum.simps by linarith
      then show ?thesis by simp
    qed
    have "Bytes_loop ws (i - 8) (replicate (i - 8) 0 @ be_enc 8 (unat w) @ rest) = Some (be_enc (i - 8) (bnum ws) @ be_enc 8 (unat w) @ rest)"
      using Cons.IH [of "i - 8" "be_enc 8 (unat w) @ rest"] Cons.prems Cons lt by simp
    moreover have "be_enc i (bnum (w # ws)) = be_enc (i - 8) (bnum ws) @ be_enc 8 (unat w)"
      using be_enc_append [of "unat w" 8 "i - 8" "bnum ws"] i8 unat_lt_base [of w] b
      by (simp add: ac_simps)
    ultimately show ?thesis using w by simp
  qed
qed simp

lemma Bytes_value:
  assumes "int_wf x"
  shows "Bytes x = Some (be_enc ((BitLength x + 7) div 8) (int_val x))"
proof -
  define i where "i = (BitLength x + 7) div 8"
  have i: "BitLength x div 8 + (if BitLength x mod 8 > 0 then 1 else 0) = i"
    unfolding i_def by presburger
  have bl: "BitLength x \<le> 64 * len x" "64 * (len x - 1) < BitLength x \<or> len x = 0"
  proof -
    show "BitLength x \<le> 64 * len x" unfolding BitLength_def by (cases "len x") auto
    show "64 * (len x - 1) < BitLength x \<or> len x = 0"
      using Nlz_normalises(3) [OF int_wf_top [OF assms]] by (auto simp: BitLength_def)
  qed
  have l: "len x \<le> 16" using assms by (rule int_wf_len)
  have "(2::nat) ^ BitLength x \<le> 2 ^ (8 * i)" unfolding i_def by (intro power_increasing) linarith+
  then have "int_val x < 256 ^ i" using BitLength_value(1) [OF assms] by (simp add: power_mult)
  then have "Bytes_loop (take (len x) (words x)) i (replicate i 0 @ []) = Some (be_enc i (int_val x) @ [])"
    using l bl assms unfolding int_val_take [OF assms]
    by (intro Bytes_loop_value) (auto simp: i_def)
  then show ?thesis using i by (simp add: Bytes_def Let_def i_def)
qed

subsection \<open>Decoding\<close>

lemma leadingZeros_value:
  "leadingZeros i bs z = (let n = length (takeWhile (\<lambda>b. b = 0) bs) in if n = 0 then z else i + n - 1)"
  by (induction i bs z rule: leadingZeros.induct) (auto simp: Let_def)

lemma be_num_strip: "be_num (drop (leadingZeros 0 bs 0) bs) = be_num bs"
proof -
  define n where "n = leadingZeros 0 bs 0"
  have "n \<le> length (takeWhile (\<lambda>b. b = 0) bs)" by (simp add: n_def leadingZeros_value Let_def)
  then have "take n bs = take n (takeWhile (\<lambda>b. b = 0) bs)"
    by (metis append_Nil2 diff_is_0_eq take0 take_append takeWhile_dropWhile_id)
  then have "\<forall>b\<in>set (take n bs). b = 0" by (metis in_set_takeD set_takeWhileD)
  then have "take n bs = replicate (length (take n bs)) 0" by (intro replicate_eqI) auto
  then have "be_num (take n bs @ drop n bs) = be_num (drop n bs)" by (metis be_num_replicate_0)
  then show ?thesis by (simp add: n_def)
qed

lemma SetBytes_word_value: "unat (SetBytes_word bs i) = be_num bs div base ^ i mod base"
proof -
  define s where "s = length bs - i * 8"
  have b: "base = 256 ^ 8" by (simp add: base_def)
  have c: "take (s - (s - 8)) (drop (s - 8) bs) = drop (s - 8) (take s bs)"
    by (simp add: drop_take)
  have "be_num (take s bs) = be_num bs div base ^ i"
  proof (cases "i * 8 \<le> length bs")
    case True
    then have "length bs - s = i * 8" by (simp add: s_def)
    then show ?thesis unfolding be_num_take b by (simp only: power_mult [symmetric] mult.commute)
  next
    case False
    have "be_num bs < 256 ^ length bs" by (rule be_num_lt)
    also have "\<dots> \<le> base ^ i" unfolding b power_mult [symmetric] using False by (intro power_increasing) auto
    finally show ?thesis using False by (simp add: s_def)
  qed
  moreover have "be_num (drop (s - 8) (take s bs)) = be_num (take s bs) mod base"
  proof (cases "8 \<le> s")
    case True
    then have "length (take s bs) - (s - 8) = 8" by (simp add: s_def)
    then show ?thesis unfolding be_num_drop b by simp
  next
    case False
    have "be_num (take s bs) < 256 ^ s" using be_num_lt [of "take s bs"] by (simp add: s_def)
    also have "\<dots> \<le> base" unfolding b using False by (intro power_increasing) auto
    finally show ?thesis using False by simp
  qed
  moreover have "unat (SetBytes_word bs i) = be_num (drop (s - 8) (take s bs)) mod base"
    unfolding SetBytes_word_def Let_def s_def [symmetric] c be_num_replicate_0
    by (simp add: unat_of_nat take_bit_eq_mod base_def)
  ultimately show ?thesis by simp
qed

lemma bnum_digits:
  assumes "\<And>i. i < n \<Longrightarrow> unat (f i) = N div base ^ i mod base"
  shows "bnum (map f [0..<n]) = N mod base ^ n"
  using assms
proof (induction n)
  case (Suc n)
  have "N mod base ^ Suc n = N mod base ^ n + base ^ n * (N div base ^ n mod base)"
    by (simp add: mod_mult2_eq mult.commute [of base])
  then show ?case using Suc by (simp add: bnum_append)
qed simp

lemma SetBytes_value:
  fixes bs :: bytes
  defines "bs' \<equiv> drop (leadingZeros 0 bs 0) bs"
  shows "length bs' \<le> 128 \<Longrightarrow> \<exists>z. SetBytes x bs = Inr z \<and> int_wf z \<and> int_val z = be_num bs"
    and "128 < length bs' \<Longrightarrow> SetBytes x bs = Inl ErrBytesTooLong"
proof -
  define n where "n = length bs' div 8 + (if length bs' > 0 \<and> length bs' mod 8 \<noteq> 0 then 1 else 0)"
  define ws where "ws = map (SetBytes_word bs') [0..<n] @ replicate (16 - n) 0"
  have n: "n \<le> 16 \<longleftrightarrow> length bs' \<le> 128" "length bs' \<le> 8 * n" unfolding n_def by (auto, presburger+)
  have e: "SetBytes x bs = (if n > 16 then Inl ErrBytesTooLong else Inr \<lparr>words = ws, len = firstPositive n ws\<rparr>)"
    unfolding SetBytes_def Let_def bs'_def [symmetric] n_def [symmetric] ws_def [symmetric] ..
  show "128 < length bs' \<Longrightarrow> SetBytes x bs = Inl ErrBytesTooLong"
    using e n by simp
  assume "length bs' \<le> 128"
  then have n16: "n \<le> 16" using n by simp
  have "be_num bs' < 256 ^ length bs'" by (rule be_num_lt)
  also have "\<dots> \<le> 256 ^ (8 * n)" using n(2) by (intro power_increasing) auto
  also have "\<dots> = base ^ n" by (simp add: base_def power_mult)
  finally have "bnum ws = be_num bs'"
    using bnum_digits [of n "SetBytes_word bs'" "be_num bs'"] SetBytes_word_value
    unfolding ws_def bnum_append_zeros by simp
  moreover have "int_wf \<lparr>words = ws, len = highest n ws\<rparr>"
    using n16 by (intro int_wf_highestI) (auto simp: ws_def nth_append)
  ultimately show "\<exists>z. SetBytes x bs = Inr z \<and> int_wf z \<and> int_val z = be_num bs"
    using e n16 be_num_strip [of bs] by (simp add: int_val_def firstPositive_highest bs'_def)
qed


lemma SetBytes_short: "length bs \<le> 128 \<Longrightarrow> \<exists>z. SetBytes x bs = Inr z \<and> int_wf z \<and> int_val z = be_num bs"
  by (rule SetBytes_value(1)) simp

lemma SetBytes_Bytes:
  assumes "int_wf x"
  shows "\<exists>bs. Bytes x = Some bs \<and> length bs \<le> 128 \<and> be_num bs = int_val x \<and> SetBytes y bs = Inr x"
proof -
  define k where "k = (BitLength x + 7) div 8"
  have k: "k \<le> 128" using BitLength_value(4) [OF assms] by (simp add: k_def)
  have "(2::nat) ^ BitLength x \<le> 2 ^ (8 * k)" unfolding k_def by (intro power_increasing) linarith+
  then have "int_val x < 256 ^ k" using BitLength_value(1) [OF assms] by (simp add: power_mult)
  then have v: "be_num (be_enc k (int_val x)) = int_val x" by simp
  moreover obtain z where "SetBytes y (be_enc k (int_val x)) = Inr z" "int_wf z" "int_val z = int_val x"
    using SetBytes_short [of "be_enc k (int_val x)" y] v k by auto
  ultimately show ?thesis using Bytes_value [OF assms] int_val_inj [OF _ assms, of z] k
    by (simp add: k_def)
qed

lemma LessThan_value: "int_wf x \<Longrightarrow> int_wf y \<Longrightarrow> LessThan x y \<longleftrightarrow> int_val x < int_val y"
  by (simp add: LessThan_def Cmp_value)

lemma LessThanOrEqual_value: "int_wf x \<Longrightarrow> int_wf y \<Longrightarrow> LessThanOrEqual x y \<longleftrightarrow> int_val x \<le> int_val y"
  by (simp add: LessThanOrEqual_def Cmp_value)

lemma Random_loop_value:
  assumes "int_wf mx" "0 < k" "k \<le> 128"
  shows "\<exists>r. Random_loop k b mx rand = Some r \<and> (r = Inl ErrRandEOF \<or> (\<exists>n. r = Inr n \<and> int_wf n \<and> int_val n < int_val mx))"
proof (induction "length rand" arbitrary: rand rule: less_induct)
  case less
  show ?case
  proof (cases "length rand < k")
    case True
    then show ?thesis by (simp add: Random_loop.simps)
  next
    case False
    define bs where "bs = (take k rand)[0 := take k rand ! 0 AND mask b]"
    have "length bs \<le> 128" using assms(3) by (simp add: bs_def)
    then obtain n where n: "FromBytes bs = Inr n" "int_wf n"
      using SetBytes_short [of bs Zero] by (auto simp: FromBytes_def)
    have e: "Random_loop k b mx rand = (if LessThan n mx then Some (Inr n) else Random_loop k b mx (drop k rand))"
      using False n(1) by (subst Random_loop.simps) (simp add: Let_def flip: bs_def)
    have "length (drop k rand) < length rand" using False assms(2) by simp
    note ih = less [OF this]
    show ?thesis
    proof (cases "LessThan n mx")
      case True
      then show ?thesis using e n assms(1) by (simp add: LessThan_value)
    qed (use e ih in simp)
  qed
qed

lemma One_wf [simp]: "int_wf One" "int_val One = 1"
  by (simp_all add: One_def)

lemma Two_wf [simp]: "int_wf Two" "int_val Two = 2"
  by (simp_all add: Two_def)

lemma Sub_value: "int_wf x \<Longrightarrow> int_wf y \<Longrightarrow> int_val y \<le> int_val x \<Longrightarrow>
    int_wf (Sub x y) \<and> int_val (Sub x y) = int_val x - int_val y"
  using Dec_value [of x y] by (simp add: Sub_def)

lemma Random_value:
  assumes "int_wf mx"
  shows "\<exists>r. Random rand mx = Some r \<and> (r = Inl ErrRandEOF \<or>
    (\<exists>n. r = Inr n \<and> int_wf n \<and> (int_val n < int_val mx \<or> int_val mx = 0 \<and> int_val n = 0)))"
proof (cases "int_val mx \<le> 1")
  case True
  then show ?thesis using assms by (auto simp: Random_def LessThanOrEqual_value)
next
  case False
  define n k where "n = Sub mx One" and "k = (BitLength n + 7) div 8"
  have n: "int_wf n" "int_val n = int_val mx - 1" using Sub_value [OF assms One_wf(1)] False by (simp_all add: n_def)
  have "BitLength n \<noteq> 0" using BitLength_value(3) [OF n(1)] n(2) False by simp
  then have k: "0 < k" "k \<le> 128" using BitLength_value(4) [OF n(1)] by (auto simp: k_def)
  have "Random rand mx = Random_loop k (if BitLength n mod 8 = 0 then 8 else BitLength n mod 8) mx rand"
    using False assms by (simp add: Random_def LessThanOrEqual_value Let_def k_def n_def)
  then show ?thesis using Random_loop_value [OF assms k] False by fastforce
qed

end
