(* ===== verification/Int1024_Mod.thy ===== *)
theory Int1024_Mod
  imports Int1024_Div Int1024_Bytes
begin

unbundle bit_operations_syntax

section \<open>Modular arithmetic: \<^verbatim>\<open>int1024_arithmetic.go\<close>\<close>

text \<open>
  Addition, subtraction, multiplication and inversion modulo a number, and powers. A panic of the
  source is \<open>None\<close>. The two loops that are not structural, \<^verbatim>\<open>ModInverse\<close> and
  \<^verbatim>\<open>Exp\<close>, are partial functions into \<open>option\<close>; the lemmas show that they return.
\<close>

definition SubModulo :: "int1024 \<Rightarrow> int1024 \<Rightarrow> int1024 \<Rightarrow> int1024 option" where
  "SubModulo x y n =
     (let c = Cmp x y
      in if c = 1 then Mod (Sub x y) n
         else if c = 0 then if IsZero n then None else Some Zero
         else if c = - 1 then
           do { m \<leftarrow> Mod (Sub y x) n;
                Some (if IsZero m then m else Sub n m) }
         else None)"

definition AddModulo :: "int1024 \<Rightarrow> int1024 \<Rightarrow> int1024 \<Rightarrow> int1024 option" where
  "AddModulo x y n =
     (if \<not> IsBitSet x 1023 \<and> \<not> IsBitSet y 1023 then Mod (Add x y) n
      else
        do { x' \<leftarrow> (if GreaterThanOrEqual x n then Mod x n else Some x);
             y' \<leftarrow> (if GreaterThanOrEqual y n then Mod y n else Some y);
             if \<not> IsBitSet x' 1023 \<and> \<not> IsBitSet y' 1023 then Mod (Add x' y') n
             else let diff = Sub n x'
                  in Some (if LessThanOrEqual diff y' then Sub y' diff else Add x' y') })"

definition MulModulo :: "int1024 \<Rightarrow> int1024 \<Rightarrow> int1024 \<Rightarrow> int1024 option" where
  "MulModulo x y n =
     (if len x + len y > INT1024WORDS then
        if len n < INT1024WORDS div 2 then
          do { x' \<leftarrow> Mod x n; y' \<leftarrow> Mod y n; Mod (Mul x' y') n }
        else MulModuloBig x y n
      else Mod (Mul x y) n)"

text \<open>The loop of \<^verbatim>\<open>ModInverse\<close>. \<open>it\<close> is the flag \<^verbatim>\<open>iter\<close>, 1 or 0.\<close>

partial_function (option) ModInverse_loop ::
    "int1024 \<Rightarrow> int1024 \<Rightarrow> int1024 \<Rightarrow> int1024 \<Rightarrow> nat \<Rightarrow> (int1024 \<times> int1024 \<times> nat) option" where
  "ModInverse_loop lastX X A B it =
     (if IsZero B then Some (lastX, A, it)
      else
        do { (q, r) \<leftarrow> DivMod A B;
             let tmp = Mul q X;
             let lastX = Inc lastX tmp;
             ModInverse_loop X lastX B r (it XOR 1) })"

definition ModInverse :: "int1024 \<Rightarrow> int1024 \<Rightarrow> int1024 option" where
  "ModInverse x n =
     do { let N = Clone n;
          (inv, A, it) \<leftarrow> ModInverse_loop (FromUint 1) Zero x N 1;
          if \<not> EqualsWord A 1 then None
          else Some (if it = 0 then Dec N inv else inv) }"

partial_function (option) Exp :: "int1024 \<Rightarrow> int1024 \<Rightarrow> int1024 option" where
  "Exp x y =
     (if IsZero y then Some One
      else if EqualsWord y 1 then Some x
      else if IsEven y then
        do { let square = Mul x x;
             half \<leftarrow> Div y Two;
             Exp square half }
      else
        do { let square = Mul x x;
             let ySubOne = Sub y One;
             half \<leftarrow> Div ySubOne Two;
             power \<leftarrow> Exp square half;
             Some (Mul x power) })"

subsection \<open>Values\<close>

lemma Add_value: "int_wf x \<Longrightarrow> int_wf y \<Longrightarrow>
    int_wf (Add x y) \<and> int_val (Add x y) = (int_val x + int_val y) mod base ^ INT1024WORDS"
  using Inc_value [of x y] by (simp add: Add_def)

lemma Add_exact: "int_wf x \<Longrightarrow> int_wf y \<Longrightarrow> int_val x + int_val y < base ^ INT1024WORDS \<Longrightarrow>
    int_wf (Add x y) \<and> int_val (Add x y) = int_val x + int_val y"
  using Add_value [of x y] by simp

lemma EqualsWord_value: "int_wf x \<Longrightarrow> EqualsWord x n \<longleftrightarrow> int_val x = unat n"
proof -
  assume x: "int_wf x"
  show ?thesis
  proof (cases "n = 0")
    case True
    then show ?thesis using x by (simp add: EqualsWord_def int_val_0_iff)
  next
    case False
    have "EqualsWord x n \<Longrightarrow> int_val x = unat n"
      using False int_val_take [OF x] x by (simp add: EqualsWord_def take_Suc_conv_app_nth)
    moreover have "EqualsWord (FromUint n) n"
      using False by (simp add: EqualsWord_def FromUint_def SetUint_def Zero_def)
    ultimately show ?thesis using int_val_inj [OF x FromUint_wf(1), of n] by auto
  qed
qed

lemma IsEven_value: "int_wf x \<Longrightarrow> IsEven x \<longleftrightarrow> even (int_val x)"
proof -
  assume x: "int_wf x"
  have "IsEven x \<longleftrightarrow> \<not> bit (words x ! 0) 0" by (simp add: IsEven_def and_one_eq odd_iff_mod_2_eq_one bit_0)
  also have "\<dots> \<longleftrightarrow> \<not> bit (int_val x) 0" using x by (simp add: int_val_def bit_bnum)
  finally show ?thesis by (simp add: bit_0)
qed

lemma SubModulo_value:
  assumes "int_wf x" "int_wf y" "int_wf n" "int_val n \<noteq> 0"
  shows "\<exists>z. SubModulo x y n = Some z \<and> int_wf z \<and>
    int (int_val z) = (int (int_val x) - int (int_val y)) mod int (int_val n)"
proof -
  consider "int_val y < int_val x" | "int_val x = int_val y" | "int_val x < int_val y" by linarith
  then show ?thesis
  proof cases
    case 1
    then have s: "int_wf (Sub x y)" "int_val (Sub x y) = int_val x - int_val y"
      using Sub_value [OF assms(1,2)] by simp_all
    then show ?thesis using 1 assms Mod_value(1) [OF s(1) assms(3,4)]
      by (auto simp: SubModulo_def Cmp_value zmod_int)
  next
    case 2
    then show ?thesis using assms by (simp add: SubModulo_def Cmp_value IsZero_val)
  next
    case 3
    then have s: "int_wf (Sub y x)" "int_val (Sub y x) = int_val y - int_val x"
      using Sub_value [OF assms(2,1)] by simp_all
    then obtain m where m: "Mod (Sub y x) n = Some m" "int_wf m" "int_val m = (int_val y - int_val x) mod int_val n"
      using Mod_value(1) [OF s(1) assms(3,4)] by auto
    have mi: "int (int_val m) = (int (int_val y) - int (int_val x)) mod int (int_val n)"
      using 3 m(3) by (simp add: zmod_int)
    have neg: "(int (int_val x) - int (int_val y)) mod int (int_val n) = (- int (int_val m)) mod int (int_val n)"
      unfolding mi by (simp add: mod_minus_eq)
    have e: "SubModulo x y n = Some (if IsZero m then m else Sub n m)"
      using 3 assms m by (simp add: SubModulo_def Cmp_value)
    show ?thesis
    proof (cases "int_val m = 0")
      case True
      then show ?thesis using e m neg by (simp add: IsZero_val)
    next
      case False
      have lt: "int_val m < int_val n" using m(3) assms(4) by simp
      then have "int_wf (Sub n m)" "int_val (Sub n m) = int_val n - int_val m"
        using Sub_value [OF assms(3) m(2)] by simp_all
      moreover have "(- int (int_val m)) mod int (int_val n) = int (int_val n) - int (int_val m)"
        using lt False by (simp add: zmod_zminus1_eq_if)
      ultimately show ?thesis using e m neg lt False by (simp add: IsZero_val)
    qed
  qed
qed

lemma reduce_value:
  assumes "int_wf x" "int_wf n" "int_val n \<noteq> 0"
  shows "\<exists>z. (if GreaterThanOrEqual x n then Mod x n else Some x) = Some z \<and> int_wf z \<and>
    int_val z = int_val x mod int_val n"
  using assms Mod_value(1) [OF assms] by (auto simp: GreaterThanOrEqual_def Cmp_value)

lemma AddModulo_value:
  assumes "int_wf x" "int_wf y" "int_wf n" "int_val n \<noteq> 0"
  shows "\<exists>z. AddModulo x y n = Some z \<and> int_wf z \<and> int_val z = (int_val x + int_val y) mod int_val n"
proof -
  have small: "\<exists>z. Mod (Add a b) n = Some z \<and> int_wf z \<and> int_val z = (int_val a + int_val b) mod int_val n"
    if "int_wf a" "int_wf b" "\<not> IsBitSet a 1023" "\<not> IsBitSet b 1023" for a b
  proof -
    have "int_val a + int_val b < base ^ 16" using that by (simp add: IsBitSet_top)
    then show ?thesis using Add_exact [OF that(1,2)] Mod_value(1) [OF _ assms(3,4), of "Add a b"] by simp
  qed
  show ?thesis
  proof (cases "\<not> IsBitSet x 1023 \<and> \<not> IsBitSet y 1023")
    case True
    then show ?thesis using small [OF assms(1,2)] by (simp add: AddModulo_def)
  next
    case False
    obtain a where a: "(if GreaterThanOrEqual x n then Mod x n else Some x) = Some a" "int_wf a"
      "int_val a = int_val x mod int_val n"
      using reduce_value [OF assms(1,3,4)] by blast
    obtain b where b: "(if GreaterThanOrEqual y n then Mod y n else Some y) = Some b" "int_wf b"
      "int_val b = int_val y mod int_val n"
      using reduce_value [OF assms(2,3,4)] by blast
    have sum: "(int_val x + int_val y) mod int_val n = (int_val a + int_val b) mod int_val n"
      unfolding a(3) b(3) by (simp add: mod_add_eq)
    have lt: "int_val a < int_val n" "int_val b < int_val n" using a b assms(4) by simp_all
    show ?thesis
    proof (cases "\<not> IsBitSet a 1023 \<and> \<not> IsBitSet b 1023")
      case True
      then have "AddModulo x y n = Mod (Add a b) n"
        using False a(1) b(1) by (auto simp: AddModulo_def)
      then show ?thesis using True sum small [OF a(2) b(2)] by simp
    next
      case big: False
      define diff where "diff = Sub n a"
      have d: "int_wf diff" "int_val diff = int_val n - int_val a"
        using Sub_value [OF assms(3) a(2)] lt by (simp_all add: diff_def)
      have e: "AddModulo x y n = Some (if LessThanOrEqual diff b then Sub b diff else Add a b)"
        using False big a(1) b(1) by (auto simp: AddModulo_def Let_def diff_def)
      show ?thesis
      proof (cases "int_val n \<le> int_val a + int_val b")
        case True
        then have "int_wf (Sub b diff)" "int_val (Sub b diff) = int_val a + int_val b - int_val n"
          using Sub_value [OF b(2) d(1)] d(2) lt by simp_all
        moreover have "(int_val a + int_val b) mod int_val n = int_val a + int_val b - int_val n"
          using True lt mod_2B [of "int_val a + int_val b" "int_val n"] by simp
        moreover have "LessThanOrEqual diff b" using d b(2) True lt by (simp add: LessThanOrEqual_value)
        ultimately show ?thesis using e sum by simp
      next
        case False
        moreover have "int_val a + int_val b < base ^ 16" using False int_val_bound [OF assms(3)] by simp
        moreover have "\<not> LessThanOrEqual diff b"
          using d b(2) False lt by (simp add: LessThanOrEqual_value)
        ultimately show ?thesis using e lt sum Add_exact [OF a(2) b(2)] by simp
      qed
    qed
  qed
qed

lemma Mul_exact: "int_wf x \<Longrightarrow> int_wf y \<Longrightarrow> int_val x * int_val y < base ^ INT1024WORDS \<Longrightarrow>
    int_wf (Mul x y) \<and> int_val (Mul x y) = int_val x * int_val y"
  using Mul_value [of x y] by simp

lemma mult_lt_len:
  assumes "int_wf x" "int_wf y" "len x + len y \<le> INT1024WORDS"
  shows "int_val x * int_val y < base ^ INT1024WORDS"
proof -
  have "int_val x * int_val y < base ^ len x * base ^ len y"
    using int_val_lt [OF assms(1)] int_val_lt [OF assms(2)] by (intro mult_strict_mono) auto
  also have "\<dots> \<le> base ^ 16" using assms(3) by (simp add: power_increasing flip: power_add)
  finally show ?thesis .
qed

lemma MulModulo_value:
  assumes "int_wf x" "int_wf y" "int_wf n" "int_val n \<noteq> 0"
  shows "\<exists>z. MulModulo x y n = Some z \<and> int_wf z \<and> int_val z = (int_val x * int_val y) mod int_val n"
proof (cases "len x + len y > 16")
  case False
  then have "int_wf (Mul x y)" "int_val (Mul x y) = int_val x * int_val y"
    using Mul_exact mult_lt_len assms by (simp_all add: not_less)
  then show ?thesis using False Mod_value(1) [OF _ assms(3,4), of "Mul x y"] by (simp add: MulModulo_def)
next
  case True
  show ?thesis
  proof (cases "len n < 8")
    case small: True
    obtain a where a: "Mod x n = Some a" "int_wf a" "int_val a = int_val x mod int_val n"
      using Mod_value(1) [OF assms(1,3,4)] by blast
    obtain b where b: "Mod y n = Some b" "int_wf b" "int_val b = int_val y mod int_val n"
      using Mod_value(1) [OF assms(2,3,4)] by blast
    have le: "len a \<le> len n" "len b \<le> len n"
      using len_mono [OF assms(3) a(2)] len_mono [OF assms(3) b(2)] a(3) b(3) assms(4)
      by (metis mod_less_divisor not_gr_zero not_le less_asym)+
    then have "int_val a * int_val b < base ^ 16"
      using mult_lt_len [OF a(2) b(2)] small by simp
    then show ?thesis
      using True small a b Mul_exact [OF a(2) b(2)] Mod_value(1) [OF _ assms(3,4), of "Mul a b"]
      by (simp add: MulModulo_def mod_mult_eq)
  next
    case False
    then show ?thesis using True MulModuloBig_value [OF assms(1-3)] by (simp add: MulModulo_def)
  qed
qed


subsection \<open>Inverses\<close>

definition mod_sign :: "nat \<Rightarrow> int" where
  "mod_sign it = (if it = 1 then 1 else - 1)"

text \<open>The invariant of the loop, over the numbers represented.\<close>

definition inverse_inv :: "nat \<Rightarrow> nat \<Rightarrow> nat \<Rightarrow> nat \<Rightarrow> nat \<Rightarrow> nat \<Rightarrow> nat \<Rightarrow> bool" where
  "inverse_inv x n l X A B it \<longleftrightarrow>
     l * B + X * A = n \<and> l \<le> n \<and> X \<le> n \<and> it \<le> 1 \<and> gcd A B = gcd x n \<and>
     int n dvd int l * int x - mod_sign it * int A \<and>
     int n dvd int X * int x + mod_sign it * int B"

lemma inverse_inv_step:
  assumes "inverse_inv x n l X A B it" "B \<noteq> 0"
  shows "inverse_inv x n X (l + A div B * X) B (A mod B) (it XOR 1)"
proof -
  define q r s where "q = A div B" and "r = A mod B" and "s = mod_sign it"
  have A: "A = q * B + r" by (simp add: q_def r_def)
  note inv = assms(1) [unfolded inverse_inv_def, folded s_def]
  have bez: "X * r + (l + q * X) * B = n"
    using inv unfolding A by (simp add: algebra_simps)
  then have "(l + q * X) * B \<le> n" by linarith
  moreover have "l + q * X \<le> (l + q * X) * B" using assms(2) by simp
  ultimately have le: "l + q * X \<le> n" by (rule le_trans [rotated])
  have it: "it XOR 1 \<le> 1" "mod_sign (it XOR 1) = - s"
    using inv by (auto simp: mod_sign_def s_def le_Suc_eq)
  have g: "gcd B r = gcd x n" using inv by (metis gcd_red_nat r_def)
  have "int (l + q * X) * int x - s * int r = (int l * int x - s * int A) + int q * (int X * int x + s * int B)"
    unfolding A by (simp add: algebra_simps)
  then have d: "int n dvd int (l + q * X) * int x - s * int r" using inv by simp
  show ?thesis unfolding inverse_inv_def q_def [symmetric] r_def [symmetric] it(2)
    using bez le it(1) g d inv by simp
qed

lemma ModInverse_loop_value:
  assumes "int_wf l" "int_wf X" "int_wf A" "int_wf B" "n < base ^ INT1024WORDS"
    "inverse_inv x n (int_val l) (int_val X) (int_val A) (int_val B) it"
  shows "\<exists>inv A' it'. ModInverse_loop l X A B it = Some (inv, A', it') \<and> int_wf inv \<and> int_wf A' \<and>
    int_val A' = gcd x n \<and> int_val inv \<le> n \<and> it' \<le> 1 \<and>
    int n dvd int (int_val inv) * int x - mod_sign it' * int (gcd x n)"
  using assms
proof (induction "int_val B" arbitrary: l X A B it rule: less_induct)
  case less
  show ?case
  proof (cases "int_val B = 0")
    case True
    then have "int_val A = gcd x n" using less.prems(6) by (simp add: inverse_inv_def)
    then show ?thesis using True less.prems
      by (simp add: ModInverse_loop.simps IsZero_val inverse_inv_def)
  next
    case False
    obtain q r where d: "DivMod A B = Some (q, r)" "int_wf q" "int_wf r"
      "int_val q = int_val A div int_val B" "int_val r = int_val A mod int_val B"
      using DivMod_value(2) [OF less.prems(3,4) False] by blast
    note step = inverse_inv_step [OF less.prems(6) False, folded d(4,5)]
    then have le: "int_val l + int_val q * int_val X \<le> n" by (simp add: inverse_inv_def)
    then have m: "int_wf (Mul q X)" "int_val (Mul q X) = int_val q * int_val X"
      using Mul_exact [OF d(2) less.prems(2)] less.prems(5) by simp_all
    then have i: "int_wf (Inc l (Mul q X))" "int_val (Inc l (Mul q X)) = int_val l + int_val q * int_val X"
      using Inc_value [OF less.prems(1) m(1)] le less.prems(5) by simp_all
    have "ModInverse_loop l X A B it = ModInverse_loop X (Inc l (Mul q X)) B r (it XOR 1)"
      using False less.prems(4) d(1) by (subst ModInverse_loop.simps) (simp add: IsZero_val Let_def)
    moreover have "int_val r < int_val B" using d(5) False by simp
    ultimately show ?thesis
      using less.hyps [OF _ less.prems(2) i(1) less.prems(4) d(3) less.prems(5)] step i(2) by simp
  qed
qed

lemma ModInverse_value:
  assumes "int_wf x" "int_wf n" "int_val n \<noteq> 0"
  shows "coprime (int_val x) (int_val n) \<Longrightarrow> \<exists>z. ModInverse x n = Some z \<and> int_wf z \<and>
      int_val z \<le> int_val n \<and> (int_val x * int_val z) mod int_val n = 1 mod int_val n"
    and "\<not> coprime (int_val x) (int_val n) \<Longrightarrow> ModInverse x n = None"
proof -
  define X N where "X = int_val x" and "N = int_val n"
  have inv0: "inverse_inv X N 1 0 X N 1"
    using assms(3) by (simp add: inverse_inv_def mod_sign_def N_def)
  obtain v A it where l: "ModInverse_loop (FromUint 1) Zero x n 1 = Some (v, A, it)" "int_wf v" "int_wf A"
    "int_val A = gcd X N" "int_val v \<le> N" "it \<le> 1" "int N dvd int (int_val v) * int X - mod_sign it * int (gcd X N)"
    using ModInverse_loop_value [of "FromUint 1" Zero x n N X 1] inv0 assms int_val_bound [OF assms(2)]
    by (auto simp: X_def N_def)
  have e: "ModInverse x n = (if gcd X N \<noteq> 1 then None else Some (if it = 0 then Dec n v else v))"
    using l assms by (simp add: ModInverse_def EqualsWord_value)
  show "\<not> coprime (int_val x) (int_val n) \<Longrightarrow> ModInverse x n = None"
    using e by (simp add: coprime_iff_gcd_eq_1 X_def N_def)
  assume "coprime (int_val x) (int_val n)"
  then have g: "gcd X N = 1" by (simp add: X_def N_def coprime_iff_gcd_eq_1)
  define z where "z = (if it = 0 then Dec n v else v)"
  have z: "int_wf z" "int_val z = (if it = 0 then N - int_val v else int_val v)"
    using Dec_value [OF assms(2) l(2)] l(2,5) by (auto simp: z_def N_def)
  have "int N dvd int (int_val z) * int X - 1"
  proof (cases "it = 0")
    case True
    then have "int (int_val z) * int X - 1 = int N * int X - (int (int_val v) * int X + 1)"
      using z(2) l(5) by (simp add: algebra_simps)
    moreover have "int N dvd int (int_val v) * int X + 1" using l(7) True g by (simp add: mod_sign_def)
    ultimately show ?thesis by (metis dvd_diff dvd_triv_left)
  next
    case False
    then show ?thesis using l(6,7) g z(2) by (simp add: mod_sign_def le_Suc_eq)
  qed
  then have "(int (int_val z) * int X) mod int N = 1 mod int N" by (simp add: mod_eq_dvd_iff)
  then have "(X * int_val z) mod N = 1 mod N"
    by (metis mult.commute of_nat_1 of_nat_eq_iff of_nat_mult zmod_int)
  moreover have "int_val z \<le> N" using z(2) l(5) by simp
  ultimately show "\<exists>z. ModInverse x n = Some z \<and> int_wf z \<and>
      int_val z \<le> int_val n \<and> (int_val x * int_val z) mod int_val n = 1 mod int_val n"
    using e g z(1) by (auto simp: z_def X_def N_def)
qed

subsection \<open>Powers\<close>

lemma Exp_value:
  assumes "int_wf x" "int_wf y" "int_val x ^ int_val y < base ^ INT1024WORDS"
  shows "\<exists>z. Exp x y = Some z \<and> int_wf z \<and> int_val z = int_val x ^ int_val y"
  using assms
proof (induction "int_val y" arbitrary: x y rule: less_induct)
  case less
  define a b where "a = int_val x" and "b = int_val y"
  consider "b = 0" | "b = 1" | "2 \<le> b" by linarith
  then show ?case
  proof cases
    case 1
    then show ?thesis using less.prems by (subst Exp.simps) (simp add: IsZero_val b_def)
  next
    case 2
    then show ?thesis using less.prems by (subst Exp.simps) (simp add: IsZero_val EqualsWord_value b_def)
  next
    case 3
    have sq: "a * a \<le> a ^ b"
      using 3 power_increasing [of 2 b a] by (cases "a = 0") (auto simp: power2_eq_square)
    have m: "int_wf (Mul x x)" "int_val (Mul x x) = a * a"
      using Mul_exact [OF less.prems(1,1)] sq less.prems(3) by (simp_all add: a_def b_def)
    define y' where "y' = (if even b then y else Sub y One)"
    have y': "int_wf y'" "int_val y' = 2 * (b div 2)"
      using Sub_value [OF less.prems(2) One_wf(1)] less.prems(2) 3 by (auto simp: y'_def b_def elim: oddE)
    obtain h where h: "Div y' Two = Some h" "int_wf h" "int_val h = b div 2"
      using Div_value [OF y'(1) Two_wf(1)] y'(2) by auto
    have pw: "(a * a) ^ (b div 2) = a ^ (2 * (b div 2))" by (simp add: power_mult power2_eq_square)
    have "a ^ (2 * (b div 2)) \<le> a ^ b"
      using 3 power_increasing [of "2 * (b div 2)" b a] by (cases "a = 0") (auto simp: power_0_left)
    then have "(a * a) ^ (b div 2) < base ^ 16" using less.prems(3) unfolding pw by (simp add: a_def b_def)
    then obtain p where p: "Exp (Mul x x) h = Some p" "int_wf p" "int_val p = a ^ (2 * (b div 2))"
      using less.hyps [OF _ m(1) h(2)] h(3) m(2) 3 pw by (auto simp: b_def)
    show ?thesis
    proof (cases "even b")
      case True
      then have "Exp x y = Exp (Mul x x) h"
        using 3 less.prems h(1) by (subst Exp.simps) (simp add: IsZero_val EqualsWord_value IsEven_value b_def y'_def Let_def)
      then show ?thesis using p True by (simp add: a_def b_def)
    next
      case False
      then have ab: "a ^ b = a * a ^ (2 * (b div 2))"
        by (metis odd_two_times_div_two_succ power_Suc Suc_eq_plus1)
      then have "int_wf (Mul x p)" "int_val (Mul x p) = a ^ b"
        using Mul_exact [OF less.prems(1) p(2)] p(3) less.prems(3) by (simp_all add: a_def b_def)
      moreover have "Exp x y = Some (Mul x p)"
        using False 3 less.prems h(1) p(1) by (subst Exp.simps) (simp add: IsZero_val EqualsWord_value IsEven_value b_def y'_def Let_def)
      ultimately show ?thesis by (simp add: a_def b_def)
    qed
  qed
qed

end
