(* ===== verification/Prime_Field.thy ===== *)
theory Prime_Field
  imports Prelude
begin

section \<open>The finite field of the secret sharing scheme\<close>

text \<open>
  Mathematics that \<^verbatim>\<open>shamir.go\<close> relies on and does not compute: that its constant
  \<^verbatim>\<open>Prime\<close> is a prime number, and that a polynomial with fewer coefficients than it has roots
  modulo a number whose differences of roots are invertible vanishes everywhere, from which the
  Lagrange interpolation formula follows.

  Primality is shown from the factorisation of \<open>p - 1\<close> (Lucas): the order of a suitable base modulo
  any proper divisor of \<open>p\<close> would be \<open>p - 1\<close>, which exceeds the divisor.
\<close>

subsection \<open>A criterion for primality\<close>

definition is_prime :: "nat \<Rightarrow> bool" where
  "is_prime q \<longleftrightarrow> (\<forall>d. d dvd q \<longrightarrow> d = 1 \<or> d = q)"

lemma is_prime_coprime: "is_prime p \<Longrightarrow> 0 < x \<Longrightarrow> x < p \<Longrightarrow> coprime x p"
  by (metis coprime_iff_gcd_eq_1 gcd_dvd1 gcd_dvd2 is_prime_def nat_dvd_not_less)

lemma is_primeI_small:
  assumes "1 < q" "q < r * r" "\<forall>d\<in>{2..<r}. \<not> d dvd q"
  shows "is_prime q"
  unfolding is_prime_def
proof (intro allI impI)
  fix d assume d: "d dvd q"
  then obtain c where c: "q = d * c" by blast
  have small: "e = 1" if "e < r" "e dvd q" for e
    using that assms(1,3) by (cases "e = 0"; cases "e = 1") force+
  have "d < r \<or> c < r"
    using assms(2) c mult_le_mono [of r d r c] by (meson not_le)
  then show "d = 1 \<or> d = q" using small [of d] small [of c] c d by auto
qed

lemma pow_cancel:
  fixes a d :: nat
  assumes one: "a ^ n mod d = 1 mod d" "0 < n" and ij: "i \<le> j" "a ^ i mod d = a ^ j mod d"
  shows "a ^ (j - i) mod d = 1 mod d"
proof -
  define M where "M = n * i - i"
  have iM: "i + M = n * i" using one(2) by (simp add: M_def)
  have pw: "a ^ (n * i) mod d = 1 mod d"
    unfolding power_mult by (metis one(1) power_mod power_one)
  have "(a ^ j * a ^ M) mod d = (a ^ i * a ^ M) mod d"
    using ij(2) by (metis mod_mult_left_eq)
  also have "\<dots> = 1 mod d" using pw by (simp add: iM flip: power_add)
  finally have "a ^ (j + M) mod d = 1 mod d" by (simp add: power_add)
  moreover have "j + M = (j - i) + n * i" using ij(1) iM by simp
  ultimately show ?thesis using pw by (metis mod_mult_right_eq mult.right_neutral power_add)
qed

text \<open>The order of \<open>a\<close> modulo \<open>d\<close>, given that some power of \<open>a\<close> is 1.\<close>

lemma order_exists:
  fixes a d :: nat
  assumes "a ^ n mod d = 1 mod d" "0 < n" "0 < d"
  obtains k where "0 < k" "k \<le> d" "\<And>e. a ^ e mod d = 1 mod d \<longleftrightarrow> k dvd e"
proof -
  define k where "k = (LEAST k. 0 < k \<and> a ^ k mod d = 1 mod d)"
  have k: "0 < k" "a ^ k mod d = 1 mod d"
    using LeastI [of "\<lambda>k. 0 < k \<and> a ^ k mod d = 1 mod d" n] assms(1,2) by (auto simp: k_def)
  have least: "k \<le> j" if "0 < j" "a ^ j mod d = 1 mod d" for j
    using that unfolding k_def by (intro Least_le) auto
  have "inj_on (\<lambda>i. a ^ i mod d) {..<k}"
  proof (rule linorder_inj_onI)
    fix i j assume ij: "i < j" "i \<in> {..<k}" "j \<in> {..<k}"
    show "a ^ i mod d \<noteq> a ^ j mod d"
    proof
      assume "a ^ i mod d = a ^ j mod d"
      then have "a ^ (j - i) mod d = 1 mod d" using pow_cancel [OF assms(1,2)] ij(1) by simp
      then show False using least [of "j - i"] ij by auto
    qed
  qed auto
  moreover have "(\<lambda>i. a ^ i mod d) ` {..<k} \<subseteq> {..<d}" using assms(3) by auto
  ultimately have "k \<le> d" using card_inj_on_le [of _ "{..<k}" "{..<d}"] by simp
  moreover have "a ^ e mod d = 1 mod d \<longleftrightarrow> k dvd e" for e
  proof -
    have "a ^ e = (a ^ k) ^ (e div k) * a ^ (e mod k)" by (simp flip: power_mult power_add)
    moreover have "(a ^ k) ^ (e div k) mod d = 1 mod d" using k(2) by (metis power_mod power_one)
    ultimately have red: "a ^ e mod d = a ^ (e mod k) mod d" by (metis mod_mult_left_eq mult_1)
    show ?thesis
    proof
      assume "a ^ e mod d = 1 mod d"
      then have "\<not> 0 < e mod k" using red least [of "e mod k"] mod_less_divisor [OF k(1), of e]
        by (metis leD)
      then show "k dvd e" by (simp add: dvd_eq_mod_eq_0)
    next
      assume "k dvd e"
      then show "a ^ e mod d = 1 mod d" using red by (simp add: dvd_eq_mod_eq_0)
    qed
  qed
  ultimately show ?thesis using that k(1) by blast
qed

text \<open>The certificate: \<open>u\<close> is an inverse of \<open>a ^ ((N - 1) div q) - 1\<close> modulo \<open>N\<close>, for the prime
  factors \<open>q\<close> of a part of \<open>N - 1\<close> that exceeds the square root of \<open>N\<close> (Pocklington).\<close>

lemma order_factor:
  fixes a d N q :: nat
  assumes d: "d dvd N" "d \<noteq> 1" and k: "\<And>e. a ^ e mod d = 1 mod d \<longleftrightarrow> k dvd e"
    and u: "(a ^ ((N - 1) div q) * u) mod N = (u + 1) mod N"
  shows "\<not> k dvd (N - 1) div q"
proof
  assume "k dvd (N - 1) div q"
  then have "a ^ ((N - 1) div q) mod d = 1 mod d" using k by simp
  then have "(a ^ ((N - 1) div q) * u) mod d = u mod d" by (metis mod_mult_left_eq mult_1)
  moreover have "(a ^ ((N - 1) div q) * u) mod d = (u + 1) mod d" using u d(1) by (metis mod_mod_cancel)
  ultimately have "d dvd 1" by (metis add_diff_cancel_left' le_add1 mod_eq_dvd_iff_nat)
  then show False using d(2) by simp
qed

lemma coprime_prod_list: "(\<And>q. q \<in> set qs \<Longrightarrow> coprime m q) \<Longrightarrow> coprime m (prod_list qs :: nat)"
  by (induction qs) (auto intro: prod_list_coprime_right)

theorem pocklington:
  fixes N a :: nat
  assumes "1 < N" "prod_list qs dvd N - 1" "N < prod_list qs * prod_list qs"
    "\<And>q. q \<in> set qs \<Longrightarrow> is_prime q" "a ^ (N - 1) mod N = 1"
    "\<And>q. q \<in> set qs \<Longrightarrow> \<exists>u. (a ^ ((N - 1) div q) * u) mod N = (u + 1) mod N"
  shows "is_prime N"
proof -
  have large: "prod_list qs \<le> d" if d: "d dvd N" "d \<noteq> 1" for d
  proof -
    have d0: "0 < d" using d assms(1) by (auto intro: gr0I)
    have "a ^ (N - 1) mod d = 1 mod d" using assms(1,5) d(1) by (metis mod_mod_cancel)
    then obtain k where k: "0 < k" "k \<le> d" "\<And>e. a ^ e mod d = 1 mod d \<longleftrightarrow> k dvd e" "k dvd N - 1"
      using order_exists [of a "N - 1" d] assms(1) d0 by auto
    obtain m where m: "N - 1 = k * m" using k(4) by blast
    have "coprime m q" if q: "q \<in> set qs" for q
    proof -
      have "\<not> q dvd m"
      proof
        assume "q dvd m"
        then have "(N - 1) div q = k * (m div q)" using m by (metis div_mult_swap)
        then show False using order_factor [OF d k(3)] assms(6) [OF q] by (metis dvd_triv_left)
      qed
      then show ?thesis using assms(4) [OF q] unfolding is_prime_def
        by (metis coprime_iff_gcd_eq_1 gcd_dvd1 gcd_dvd2)
    qed
    then have "coprime m (prod_list qs)" by (rule coprime_prod_list)
    then have c: "coprime (prod_list qs) m" using coprime_commute by blast
    have "prod_list qs dvd k * m" using assms(2) unfolding m .
    then have "prod_list qs dvd k" unfolding coprime_dvd_mult_left_iff [OF c] .
    then have "prod_list qs \<le> k" using k(1) by (rule dvd_imp_le)
    then show ?thesis using k(2) by (rule le_trans)
  qed
  show ?thesis unfolding is_prime_def
  proof (intro allI impI, rule ccontr)
    fix d assume d: "d dvd N" "\<not> (d = 1 \<or> d = N)"
    then obtain c where c: "N = d * c" by blast
    then have "c dvd N" "c \<noteq> 1" using d by auto
    then have "prod_list qs * prod_list qs \<le> d * c" using large d by (intro mult_le_mono) auto
    then show False using c assms(3) by simp
  qed
qed

subsection \<open>The prime of the scheme\<close>

text \<open>Modular powers by repeated squaring. A step has a binary digit of the exponent, most
  significant first, and the multiple of the modulus to take off.\<close>

primrec pow_steps :: "nat \<Rightarrow> nat \<Rightarrow> (bool \<times> nat) list \<Rightarrow> nat \<Rightarrow> nat option" where
  "pow_steps a m [] acc = Some acc"
| "pow_steps a m (x # xs) acc =
     (let t = (if fst x then acc * acc * a else acc * acc); k = snd x * m
      in if k \<le> t then pow_steps a m xs (t - k) else None)"

primrec steps_exp :: "(bool \<times> nat) list \<Rightarrow> nat \<Rightarrow> nat" where
  "steps_exp [] e = e"
| "steps_exp (x # xs) e = steps_exp xs (2 * e + (if fst x then 1 else 0))"

lemma pow_steps_value:
  "pow_steps a m xs acc = Some r \<Longrightarrow> acc mod m = a ^ e mod m \<Longrightarrow> r mod m = a ^ steps_exp xs e mod m"
proof (induction xs arbitrary: acc e)
  case (Cons x xs)
  define t where "t = (if fst x then acc * acc * a else acc * acc)"
  have le: "snd x * m \<le> t" "pow_steps a m xs (t - snd x * m) = Some r"
    using Cons.prems(1) by (auto simp: t_def Let_def split: if_splits)
  have "acc * acc mod m = a ^ (2 * e) mod m"
    using Cons.prems(2) by (metis mod_mult_eq mult_2 power_add)
  then have "t mod m = a ^ (2 * e + (if fst x then 1 else 0)) mod m"
    by (auto simp: t_def mult.commute) (metis mod_mult_left_eq mult.commute)
  moreover have "(t - snd x * m) mod m = t mod m" using le(1) by (metis le_add_diff_inverse2 mod_mult_self1)
  ultimately show ?case using Cons.IH [OF le(2)] by simp
qed simp

lemma pow_steps_eq:
  "pow_steps a m xs 1 = Some w \<Longrightarrow> steps_exp xs 0 = e \<Longrightarrow> w < m \<Longrightarrow> a ^ e mod m = w"
  using pow_steps_value [of a m xs 1 w 0] by simp

lemma lucas_certificate:
  "(a::nat) ^ e mod m = w \<Longrightarrow> (w * u) mod m = (u + 1) mod m \<Longrightarrow> \<exists>u. (a ^ e * u) mod m = (u + 1) mod m"
  by (metis mod_mult_left_eq)

lemma small_primes: "is_prime 5" "is_prime 13" "is_prime 277" "is_prime 349"
proof -
  show "is_prime 5" by (rule is_primeI_small [of _ 3]) (simp_all add: atLeastLessThan_upt)
  show "is_prime 13" by (rule is_primeI_small [of _ 4]) (simp_all add: atLeastLessThan_upt)
  show "is_prime 277" by (rule is_primeI_small [of _ 17]) (simp_all add: atLeastLessThan_upt)
  show "is_prime 349" by (rule is_primeI_small [of _ 19]) (simp_all add: atLeastLessThan_upt)
qed

text \<open>A prime factor of \<open>p - 1\<close>, and \<open>p\<close> itself.\<close>

definition p_factor :: nat where
  "p_factor = 1612141"

lemma p_factor_cert_5: "6 ^ ((p_factor - 1) div 5) mod p_factor = 623147"
  unfolding p_factor_def
  by (rule pow_steps_eq [where xs = "[(True, 0), (False, 0), (False, 0), (True, 6), (True, 610009), (True, 1411010), (False,
      517913), (True, 5776263), (False, 48551), (True, 2120090), (True, 6907169), (False,
      477924), (True, 4127950), (True, 1162745), (True, 8193736), (True, 1060765), (True,
      365864), (False, 419658), (False, 824477)]"])
    (simp_all add: Let_def)

lemma p_factor_unit_5: "\<exists>u. (6 ^ ((p_factor - 1) div 5) * u) mod p_factor = (u + 1) mod p_factor"
  by (rule lucas_certificate [OF p_factor_cert_5, of 1544315]) (simp add: p_factor_def)

lemma p_factor_cert_277: "6 ^ ((p_factor - 1) div 277) mod p_factor = 429389"
  unfolding p_factor_def
  by (rule pow_steps_eq [where xs = "[(True, 0), (False, 0), (True, 0), (True, 225), (False, 2647), (True, 2395844), (False,
      342738), (True, 858086), (True, 1840425), (True, 5582001), (True, 786185), (False,
      1442949), (False, 444575)]"])
    (simp_all add: Let_def)

lemma p_factor_unit_277: "\<exists>u. (6 ^ ((p_factor - 1) div 277) * u) mod p_factor = (u + 1) mod p_factor"
  by (rule lucas_certificate [OF p_factor_cert_277, of 1434564]) (simp add: p_factor_def)

lemma p_factor_fermat: "6 ^ (p_factor - 1) mod p_factor = 1"
proof -
  have "623147 ^ 5 mod p_factor = 1" unfolding p_factor_def
    by (rule pow_steps_eq [where xs = "[(True, 0), (False, 240867), (True, 147321887287)]"])
      (simp_all add: Let_def)
  then have "(6 ^ ((p_factor - 1) div 5)) ^ 5 mod p_factor = 1"
    using p_factor_cert_5 by (metis power_mod)
  moreover have "(p_factor - 1) div 5 * 5 = p_factor - 1" by (simp add: p_factor_def)
  ultimately show ?thesis by (simp only: power_mult [symmetric])
qed

lemma p_factor_prime: "is_prime p_factor"
proof (rule pocklington [of _ "[5, 277]" 6])
  show "is_prime q" if "q \<in> set [5, 277]" for q using that small_primes by auto
  show "\<exists>u. (6 ^ ((p_factor - 1) div q) * u) mod p_factor = (u + 1) mod p_factor"
    if "q \<in> set [5, 277]" for q
    using that p_factor_unit_5 p_factor_unit_277 unfolding list.set by blast
  show "6 ^ (p_factor - 1) mod p_factor = 1" by (rule p_factor_fermat)
qed (simp_all add: p_factor_def)

definition field_prime :: nat where
  "field_prime = 17012364981921935471"

lemma prime_cert_13: "59 ^ ((field_prime - 1) div 13) mod field_prime = 8393008622049979004"
  unfolding field_prime_def
  by (rule pow_steps_eq [where xs = "[(True, 0), (False, 0), (False, 0), (True, 0), (False, 4411350017107), (False,
      70992221175450548), (False, 2899506515045694904), (True, 3822153978651541919), (False,
      5677459240632204812), (True, 327409656194360720702), (False, 885522772851310535), (False,
      12925548279842226637), (True, 563226872749381702691), (False, 9102129272492376120),
      (False, 185801681643049318), (True, 322813651089298256280), (True, 904230422447577219247),
      (True, 3290805413720974861), (True, 53728499131061199447), (False, 16528620371178661245),
      (False, 107249112976428037), (False, 11031473797210673756), (True, 164517434169521981753),
      (False, 3883402393602601704), (False, 3194022922937257658), (True, 271975337388129600574),
      (False, 559717678111515169), (True, 233735327149353997011), (True, 16701778620288957162),
      (False, 1513707234212405), (False, 8877447632532760914), (True, 743216271112367201563),
      (False, 2310455915893953679), (False, 148698524623884765), (False, 6714358242024153840),
      (True, 24285285783803189146), (True, 543127516144909728825), (True,
      271389996061922372904), (True, 646552304699426909966), (False, 13615695257507517147),
      (False, 189045039006216894), (False, 11414710887644273685), (False, 1838537081644790305),
      (False, 8358380283029547932), (False, 9780244314300927941), (False, 15108414136406692456),
      (False, 179205454657901006), (False, 7742412963411939752), (False, 656554888213482083),
      (True, 788130375963620517751), (False, 2435371100065073968), (False,
      14046905819984809573), (False, 8534767567892633432), (True, 169939621508114681126),
      (False, 5057287507251533819), (True, 480918880557906765147), (False,
      10415538161455654237), (False, 3556810084898083659), (True, 42038474962559592096), (True,
      737174896698679375018), (False, 4527003547040244632)]"])
    (simp_all add: Let_def)

lemma prime_unit_13: "\<exists>u. (59 ^ ((field_prime - 1) div 13) * u) mod field_prime = (u + 1) mod field_prime"
  by (rule lucas_certificate [OF prime_cert_13, of 16336514605911784411]) (simp add: field_prime_def)

lemma prime_cert_349: "59 ^ ((field_prime - 1) div 349) mod field_prime = 4900808879222891882"
  unfolding field_prime_def
  by (rule pow_steps_eq [where xs = "[(True, 0), (False, 0), (True, 0), (False, 0), (True, 905998655163431820), (True,
      37678061810847755508), (False, 2429992684442188842), (True, 671563029509036458823),
      (False, 12048691481446495169), (False, 132480996068242288), (True, 344411627760576854043),
      (False, 889036569747566987), (True, 89179349297111062098), (True, 698763357107475201855),
      (True, 402234740344461907918), (False, 5005974187218615489), (False, 2199530410453773605),
      (True, 224902979757007209895), (False, 1972253997365398508), (False, 6237780261026851805),
      (False, 647424014998312765), (False, 3063576479215452372), (False, 16060852684049289352),
      (True, 662016423733329725599), (True, 932235240323570840368), (True,
      280091362122817694025), (True, 248564550455230454692), (False, 5595205844536141689),
      (False, 815091598230958340), (False, 1118243077656683237), (False, 15911721464042821349),
      (True, 907744249046882049), (True, 811939221715352411), (True, 80302349881813216047),
      (False, 13433648116289554004), (False, 6791322518975662185), (True, 45584029566536644015),
      (False, 2069492704836515812), (True, 222437508086090953183), (False, 4963880320940702),
      (False, 202798774320671581), (True, 347749541906673845191), (False, 13667795393482473724),
      (False, 54581320355182014), (False, 7327569717954572770), (True, 634282490171849023571),
      (False, 4737249353725995866), (True, 816056086465863679583), (False, 9870841508424928161),
      (True, 211837832923850667178), (False, 16584087076629615705), (False, 300519615803881526),
      (False, 5650235917554854187), (True, 595629313965434117205), (True, 15527323014397907627),
      (False, 6024520213908533377)]"])
    (simp_all add: Let_def)

lemma prime_unit_349: "\<exists>u. (59 ^ ((field_prime - 1) div 349) * u) mod field_prime = (u + 1) mod field_prime"
  by (rule lucas_certificate [OF prime_cert_349, of 14546406028561070969]) (simp add: field_prime_def)

lemma prime_cert_1612141: "59 ^ ((field_prime - 1) div 1612141) mod field_prime = 13291249571310669624"
  unfolding field_prime_def
  by (rule pow_steps_eq [where xs = "[(True, 0), (False, 0), (False, 0), (True, 0), (True, 260269651009316), (False,
      11198132947897849568), (False, 135325355440681496), (True, 211839841636365929827), (True,
      481472715314024682951), (False, 209211310345252175), (False, 1922662994159005929), (False,
      5068551727673371006), (True, 468996921189432299956), (True, 142071929600582782373), (True,
      218091690115285427614), (True, 531703378044676882806), (True, 641928317829298902399),
      (False, 4073400427640741992), (True, 30297995853649706652), (True, 71956644228501505077),
      (False, 1490557667160747292), (False, 6712728404763550816), (True, 121446145449871100121),
      (False, 16174708775073427438), (False, 15846882855213025448), (True,
      277258219268104419294), (True, 505496349311535403301), (False, 16853416996734440545),
      (False, 8742710991488922070), (False, 16024555390699645918), (True, 68122532629728768812),
      (False, 2284392827496066956), (True, 96279812225559080490), (False, 521265541370982),
      (True, 568974041380988772729), (True, 177511777134900661872), (False, 716594918116549061),
      (True, 280529769593029421224), (True, 4453609952523992936), (False, 242361354001820147),
      (False, 2201837160249102220), (True, 40978835967831845306), (True, 124352381086322775962),
      (False, 788029590433490132)]"])
    (simp_all add: Let_def)

lemma prime_unit_1612141: "\<exists>u. (59 ^ ((field_prime - 1) div 1612141) * u) mod field_prime = (u + 1) mod field_prime"
  by (rule lucas_certificate [OF prime_cert_1612141, of 12517883072220853759]) (simp add: field_prime_def)

lemma prime_fermat: "59 ^ (field_prime - 1) mod field_prime = 1"
proof -
  have "8393008622049979004 ^ 13 mod field_prime = 1" unfolding field_prime_def
    by (rule pow_steps_eq [where xs = "[(True, 0), (True, 34752681191714425276090532006575322736), (False, 10870394461464554772),
      (True, 77487862004039600457368370787092870065)]"])
      (simp_all add: Let_def)
  then have "(59 ^ ((field_prime - 1) div 13)) ^ 13 mod field_prime = 1"
    using prime_cert_13 by (metis power_mod)
  moreover have "(field_prime - 1) div 13 * 13 = field_prime - 1" by (simp add: field_prime_def)
  ultimately show ?thesis by (simp only: power_mult [symmetric])
qed

theorem field_prime_prime: "is_prime field_prime"
proof (rule pocklington [of _ "[13, 349, 1612141]" 59])
  show "is_prime q" if "q \<in> set [13, 349, 1612141]" for q
    using that small_primes p_factor_prime unfolding p_factor_def by auto
  show "\<exists>u. (59 ^ ((field_prime - 1) div q) * u) mod field_prime = (u + 1) mod field_prime"
    if "q \<in> set [13, 349, 1612141]" for q
    using that prime_unit_13 prime_unit_349 prime_unit_1612141 unfolding list.set by blast
  show "59 ^ (field_prime - 1) mod field_prime = 1" by (rule prime_fermat)
qed (simp_all add: field_prime_def)

end
