(* ===== verification/Interpolation.thy ===== *)
theory Interpolation
  imports Prime_Field
begin

section \<open>Interpolation modulo a number\<close>

text \<open>
  Polynomials are lists of integer coefficients, lowest first. The two results used for secret
  sharing: a polynomial with at most as many coefficients as it has roots modulo \<open>m\<close>, where the
  differences of the roots are coprime to \<open>m\<close>, is zero everywhere modulo \<open>m\<close>; and Lagrange's formula
  for its value at 0.
\<close>

primrec peval :: "int list \<Rightarrow> int \<Rightarrow> int" where
  "peval [] x = 0"
| "peval (c # cs) x = c + x * peval cs x"

text \<open>Synthetic division by \<open>x - a\<close>; sums and multiples; products of linear factors.\<close>

primrec pdiv :: "int \<Rightarrow> int list \<Rightarrow> int list" where
  "pdiv a [] = []"
| "pdiv a (c # cs) = (if cs = [] then [] else peval cs a # pdiv a cs)"

fun padd :: "int list \<Rightarrow> int list \<Rightarrow> int list" where
  "padd [] ys = ys"
| "padd xs [] = xs"
| "padd (x # xs) (y # ys) = (x + y) # padd xs ys"

definition pscale :: "int \<Rightarrow> int list \<Rightarrow> int list" where
  "pscale k cs = map ((*) k) cs"

definition plin :: "int \<Rightarrow> int list \<Rightarrow> int list" where
  "plin a cs = padd (0 # cs) (pscale (- a) cs)"

primrec proots :: "int list \<Rightarrow> int list" where
  "proots [] = [1]"
| "proots (a # as) = plin a (proots as)"

lemma peval_padd [simp]: "peval (padd xs ys) x = peval xs x + peval ys x"
  by (induction xs ys rule: padd.induct) (simp_all add: algebra_simps)

lemma peval_pscale [simp]: "peval (pscale k cs) x = k * peval cs x"
  by (induction cs) (simp_all add: pscale_def algebra_simps)

lemma length_padd [simp]: "length (padd xs ys) = max (length xs) (length ys)"
  by (induction xs ys rule: padd.induct) auto

lemma length_pscale [simp]: "length (pscale k cs) = length cs"
  by (simp add: pscale_def)

lemma peval_proots: "peval (proots as) x = (\<Prod>a\<leftarrow>as. x - a)"
  by (induction as) (simp_all add: plin_def algebra_simps)

lemma length_proots: "length (proots as) = length as + 1"
  by (induction as) (simp_all add: plin_def)

lemma peval_pdiv: "peval cs x - peval cs a = (x - a) * peval (pdiv a cs) x"
proof (induction cs)
  case (Cons c cs)
  show ?case
  proof (cases "cs = []")
    case False
    have "peval (c # cs) x - peval (c # cs) a = (x - a) * peval cs a + x * (peval cs x - peval cs a)"
      by (simp add: algebra_simps)
    then show ?thesis unfolding Cons using False by (simp add: algebra_simps)
  qed simp
qed simp

lemma length_pdiv: "length (pdiv a cs) = length cs - 1"
  by (induction cs) auto

lemma many_roots:
  assumes "length cs \<le> length xs" "distinct xs"
    and "\<And>x y. x \<in> set xs \<Longrightarrow> y \<in> set xs \<Longrightarrow> x \<noteq> y \<Longrightarrow> coprime m (x - y)"
    and "\<And>x. x \<in> set xs \<Longrightarrow> m dvd peval cs x"
  shows "m dvd peval cs x"
  using assms
proof (induction xs arbitrary: cs x)
  case (Cons a xs)
  have "m dvd peval (pdiv a cs) y" if y: "y \<in> set xs" for y
  proof -
    have "m dvd peval cs y" "m dvd peval cs a" using Cons.prems(4) y by auto
    then have "m dvd peval cs y - peval cs a" by (rule dvd_diff)
    then have "m dvd (y - a) * peval (pdiv a cs) y" unfolding peval_pdiv .
    moreover have "coprime m (y - a)" using Cons.prems(2) y by (intro Cons.prems(3)) auto
    ultimately show ?thesis by (rule coprime_dvd_mult_right_iff [THEN iffD1, rotated])
  qed
  note r = this
  have l: "length (pdiv a cs) \<le> length xs" using Cons.prems(1) by (simp add: length_pdiv)
  have d: "distinct xs" using Cons.prems(2) by simp
  have c: "coprime m (y - z)" if "y \<in> set xs" "z \<in> set xs" "y \<noteq> z" for y z
    using that by (intro Cons.prems(3)) auto
  have "m dvd peval (pdiv a cs) x" by (rule Cons.IH [OF l d c r])
  then have "m dvd peval cs x - peval cs a" by (simp add: peval_pdiv)
  moreover have "m dvd peval cs a" using Cons.prems(4) by simp
  ultimately show ?case by (metis diff_add_cancel dvd_add)
qed simp

text \<open>The points other than the \<open>i\<close>-th.\<close>

definition others :: "'a list \<Rightarrow> nat \<Rightarrow> 'a list" where
  "others xs i = map ((!) xs) (filter (\<lambda>j. j \<noteq> i) [0..<length xs])"

lemma length_others: "i < length xs \<Longrightarrow> length (others xs i) + 1 = length xs"
proof -
  assume i: "i < length xs"
  have "length (filter (\<lambda>j. j \<noteq> i) [0..<length xs]) = length (remove1 i [0..<length xs])"
    using i by (simp add: distinct_remove1_removeAll removeAll_filter_not_eq neq_commute)
  then show ?thesis using i by (simp add: others_def length_remove1)
qed

lemma others_mem: "j < length xs \<Longrightarrow> j \<noteq> i \<Longrightarrow> xs ! j \<in> set (others xs i)"
  by (auto simp: others_def)

definition lagrange :: "int list \<Rightarrow> int list \<Rightarrow> int list" where
  "lagrange xs ws = fold (\<lambda>i cs. padd cs (pscale (ws ! i) (proots (others xs i)))) [0..<length xs] []"

lemma peval_lagrange:
  "peval (lagrange xs ws) x = (\<Sum>i<length xs. ws ! i * (\<Prod>a\<leftarrow>others xs i. x - a))"
proof -
  have "peval (fold (\<lambda>i cs. padd cs (pscale (ws ! i) (proots (others xs i)))) [0..<n] []) x =
      (\<Sum>i<n. ws ! i * (\<Prod>a\<leftarrow>others xs i. x - a))" for n
    by (induction n) (simp_all add: peval_proots)
  then show ?thesis by (simp add: lagrange_def)
qed

lemma length_lagrange: "length (lagrange xs ws) \<le> length xs"
proof -
  have "n \<le> length xs \<Longrightarrow> length (fold (\<lambda>i cs. padd cs (pscale (ws ! i) (proots (others xs i)))) [0..<n] []) \<le> length xs" for n
    using length_others [of _ xs] by (induction n) (auto simp: length_proots Suc_le_eq)
  then show ?thesis by (simp add: lagrange_def)
qed

lemma lagrange_at_point:
  assumes "k < length xs"
  shows "peval (lagrange xs ws) (xs ! k) = ws ! k * (\<Prod>a\<leftarrow>others xs k. xs ! k - a)"
proof -
  have "ws ! i * (\<Prod>a\<leftarrow>others xs i. xs ! k - a) = 0" if "i \<in> {..<length xs} - {k}" for i
  proof -
    have "xs ! k \<in> set (others xs i)" using that assms by (intro others_mem) auto
    then have "0 \<in> set (map (\<lambda>a. xs ! k - a) (others xs i))" by force
    then show ?thesis by (simp add: prod_list_zero_iff)
  qed
  then have "(\<Sum>i\<in>{..<length xs} - {k}. ws ! i * (\<Prod>a\<leftarrow>others xs i. xs ! k - a)) = 0"
    by (intro sum.neutral) blast
  then show ?thesis
    unfolding peval_lagrange using assms by (subst sum.remove [of _ k]) auto
qed

text \<open>\<open>ws ! i\<close> is the value at the \<open>i\<close>-th point divided by the product of the differences.\<close>

theorem lagrange_interpolation:
  assumes "length cs \<le> length xs" "distinct xs"
    and "\<And>x y. x \<in> set xs \<Longrightarrow> y \<in> set xs \<Longrightarrow> x \<noteq> y \<Longrightarrow> coprime m (x - y)"
    and "\<And>i. i < length xs \<Longrightarrow> m dvd ws ! i * (\<Prod>a\<leftarrow>others xs i. xs ! i - a) - peval cs (xs ! i)"
  shows "m dvd (\<Sum>i<length xs. ws ! i * (\<Prod>a\<leftarrow>others xs i. - a)) - peval cs 0"
proof -
  define h where "h = padd (lagrange xs ws) (pscale (- 1) cs)"
  have "m dvd peval h 0"
  proof (rule many_roots)
    show "length h \<le> length xs" using assms(1) length_lagrange [of xs ws] by (simp add: h_def)
    show "m dvd peval h x" if "x \<in> set xs" for x
      using that assms(4) by (auto simp: h_def lagrange_at_point in_set_conv_nth)
  qed (use assms(2,3) in auto)
  then show ?thesis by (simp add: h_def peval_lagrange)
qed

end
