(* ===== verification/Shamir.thy ===== *)
theory Shamir
  imports Int1024_Mod Interpolation
begin

unbundle bit_operations_syntax

section \<open>Shamir's secret sharing: \<^verbatim>\<open>shamir/shamir.go\<close>\<close>

text \<open>
  Splitting a secret into shares, reconstructing it, subtracting shares and serialising them. The
  field operations are the ones of the source: they go through \<^verbatim>\<open>stackint.Int1024\<close> and
  panic (\<open>None\<close>) when that package panics or its result does not fit a word.

  \<^verbatim>\<open>math/rand\<close> is the list of the values its next calls return; \<^const>\<open>None\<close> also stands
  for that list being too short. RSA encryption (\<^verbatim>\<open>crypto.RsaKey\<close>) is a parameter.

  The lemmas speak of \<open>sharing k s shs\<close>: the shares lie on a polynomial with at most \<open>k\<close>
  coefficients whose value at 0 is \<open>s\<close>. Splitting produces a sharing, share-wise subtraction
  subtracts the secrets, and joining \<open>k\<close> shares with different indices returns the secret.
\<close>

datatype shamir_error = ErrNKError | ErrFiniteField | ErrUnmarshalNilBytes | ErrRead read_error

definition Prime :: u64 where
  "Prime = 17012364981921935471"

record share =
  Index :: u64
  Value :: u64

subsection \<open>Field operations\<close>

definition panic_on_error :: "'e + 'a \<Rightarrow> 'a option" where
  "panic_on_error r = (case r of Inl _ \<Rightarrow> None | Inr a \<Rightarrow> Some a)"

definition addMod :: "u64 \<Rightarrow> u64 \<Rightarrow> u64 \<Rightarrow> u64 option" where
  "addMod x y m =
     do { r \<leftarrow> AddModulo (FromUint x) (FromUint y) (FromUint m); panic_on_error (ToUint r) }"

definition subMod :: "u64 \<Rightarrow> u64 \<Rightarrow> u64 \<Rightarrow> u64 option" where
  "subMod x y m =
     do { r \<leftarrow> SubModulo (FromUint x) (FromUint y) (FromUint m); panic_on_error (ToUint r) }"

definition mulMod :: "u64 \<Rightarrow> u64 \<Rightarrow> u64 \<Rightarrow> u64 option" where
  "mulMod x y m =
     do { r \<leftarrow> MulModulo (FromUint x) (FromUint y) (FromUint m); panic_on_error (ToUint r) }"

definition invMod :: "u64 \<Rightarrow> u64 \<Rightarrow> u64 option" where
  "invMod x m =
     do { r \<leftarrow> ModInverse (FromUint x) (FromUint m); panic_on_error (ToUint r) }"

subsection \<open>Shares\<close>

definition Share_Sub :: "share \<Rightarrow> share \<Rightarrow> share option" where
  "Share_Sub share arg =
     do { n \<leftarrow> subMod Prime (Value arg) Prime;
          v \<leftarrow> addMod (Value share) n Prime;
          Some \<lparr>Index = Index share, Value = v\<rparr> }"

definition Share_Equal :: "share \<Rightarrow> share \<Rightarrow> bool" where
  "Share_Equal share other \<longleftrightarrow> Index share = Index other \<and> Value share = Value other"

definition Share_MarshalBinary :: "share \<Rightarrow> bytes" where
  "Share_MarshalBinary share = be_enc 8 (unat (Index share)) @ be_enc 8 (unat (Value share))"

definition Share_UnmarshalBinary :: "bytes \<Rightarrow> shamir_error + share" where
  "Share_UnmarshalBinary data =
     (if data = [] then Inl ErrUnmarshalNilBytes
      else case be_read 8 data of
          Inl e \<Rightarrow> Inl (ErrRead e)
        | Inr (i, rest) \<Rightarrow>
            (case be_read 8 rest of
               Inl e \<Rightarrow> Inl (ErrRead e)
             | Inr (v, _) \<Rightarrow> Inr \<lparr>Index = word_of_nat i, Value = word_of_nat v\<rparr>))"

text \<open>\<open>enc\<close> and \<open>dec\<close> are \<^verbatim>\<open>crypto.RsaKey.Encrypt\<close> and \<^verbatim>\<open>Decrypt\<close>; the error
  type of the latter is joined with the errors of decoding.\<close>

definition Share_Encrypt :: "('pub \<Rightarrow> bytes \<Rightarrow> 'e + bytes) \<Rightarrow> share \<Rightarrow> 'pub \<Rightarrow> 'e + bytes" where
  "Share_Encrypt enc share pubKey = enc pubKey (Share_MarshalBinary share)"

definition Share_Decrypt ::
    "('priv \<Rightarrow> bytes \<Rightarrow> 'e + bytes) \<Rightarrow> 'priv \<Rightarrow> bytes \<Rightarrow> ('e + shamir_error) + share" where
  "Share_Decrypt dec privKey cipherText =
     (case dec privKey cipherText of
        Inl e \<Rightarrow> Inl (Inl e)
      | Inr plainText \<Rightarrow>
          (case Share_UnmarshalBinary plainText of Inl e \<Rightarrow> Inl (Inr e) | Inr s \<Rightarrow> Inr s))"

subsection \<open>Split\<close>

text \<open>Draw until the value is in the field.\<close>

fun rand_coefficient :: "u64 list \<Rightarrow> (u64 \<times> u64 list) option" where
  "rand_coefficient [] = None"
| "rand_coefficient (r # rs) = (if r \<ge> Prime then rand_coefficient rs else Some (r, rs))"

fun rand_coefficients :: "nat \<Rightarrow> u64 list \<Rightarrow> (u64 list \<times> u64 list) option" where
  "rand_coefficients 0 rs = Some ([], rs)"
| "rand_coefficients (Suc n) rs =
     do { (c, rs) \<leftarrow> rand_coefficient rs;
          (cs, rs) \<leftarrow> rand_coefficients n rs;
          Some (c # cs, rs) }"

text \<open>The inner loop over \<^verbatim>\<open>range coefficients[1:]\<close>. It runs once for every coefficient
  but the first, and in its \<open>j\<close>-th round it uses \<^verbatim>\<open>coefficients[j]\<close>: the coefficients it
  uses are all but the \<^emph>\<open>last\<close>.\<close>

fun Split_eval :: "u64 list \<Rightarrow> u64 \<Rightarrow> u64 \<Rightarrow> u64 \<Rightarrow> u64 option" where
  "Split_eval [] bs exp accum = Some accum"
| "Split_eval (coefficient # cs) bs exp accum =
     do { co \<leftarrow> mulMod coefficient exp Prime;
          accum \<leftarrow> addMod accum co Prime;
          exp \<leftarrow> mulMod exp bs Prime;
          Split_eval cs bs exp accum }"

definition Split_share :: "u64 list \<Rightarrow> int \<Rightarrow> share option" where
  "Split_share coefficients x =
     do { let bs = word_of_int x;
          v \<leftarrow> Split_eval (butlast coefficients) bs (bs mod Prime) (hd coefficients);
          Some \<lparr>Index = word_of_int x, Value = v\<rparr> }"

definition Split :: "int \<Rightarrow> int \<Rightarrow> u64 \<Rightarrow> u64 list \<Rightarrow> ((shamir_error + share list) \<times> u64 list) option" where
  "Split n k secret rs =
     (if n < k then Some (Inl ErrNKError, rs)
      else if Prime \<le> secret then Some (Inl ErrFiniteField, rs)
      else if k \<le> 0 then None
      else
        do { (cs, rs) \<leftarrow> rand_coefficients (nat k - 1) rs;
             shares \<leftarrow> omap (Split_share (secret # cs)) [1..n];
             Some (Inr shares, rs) })"

subsection \<open>Join\<close>

fun Join_basis :: "share list \<Rightarrow> nat \<Rightarrow> nat list \<Rightarrow> u64 \<Rightarrow> u64 \<Rightarrow> (u64 \<times> u64) option" where
  "Join_basis shares i [] num den = Some (num, den)"
| "Join_basis shares i (j # js) num den =
     (if i = j then Join_basis shares i js num den
      else
        do { let start = Index (shares ! i);
             let next = Index (shares ! j);
             nextGen \<leftarrow> mulMod num next Prime;
             let num = Prime - nextGen;
             nextDiff \<leftarrow> subMod start next Prime;
             den \<leftarrow> mulMod den nextDiff Prime;
             Join_basis shares i js num den })"

fun Join_loop :: "share list \<Rightarrow> nat list \<Rightarrow> u64 \<Rightarrow> u64 option" where
  "Join_loop shares [] secret = Some secret"
| "Join_loop shares (i # is) secret =
     do { (num, den) \<leftarrow> Join_basis shares i [0..<length shares] 1 1;
          den \<leftarrow> invMod den Prime;
          value \<leftarrow> mulMod (Value (shares ! i)) num Prime;
          value \<leftarrow> mulMod value den Prime;
          secret \<leftarrow> addMod secret value Prime;
          Join_loop shares is secret }"

definition Join :: "share list \<Rightarrow> u64 option" where
  "Join shares = Join_loop shares [0..<length shares] 0"

subsection \<open>Field operations compute in the field\<close>

definition fv :: "u64 \<Rightarrow> int" where
  "fv x = uint x"

lemma fv_unat: "fv x = int (unat x)"
  by (simp add: fv_def)

definition fp :: int where
  "fp = int field_prime"

lemma fp_pos [simp]: "0 < fp" "fp \<noteq> 0" "0 \<le> fp"
  by (simp_all add: fp_def field_prime_def)

lemma unat_Prime [simp]: "unat Prime = field_prime" "uint Prime = int field_prime"
  by (simp_all add: Prime_def field_prime_def)

lemma fv_Prime [simp]: "fv Prime = fp"
  by (simp add: fv_def fp_def)

lemma field_prime_lt_base: "field_prime < base"
  by (simp add: field_prime_def base_def)

lemma field_prime_pos [simp]: "field_prime \<noteq> 0" "0 < field_prime"
  by (simp_all add: field_prime_def)

text \<open>A result below the prime fits a word.\<close>

lemma to_word:
  assumes "int_wf z" "int_val z \<le> field_prime"
  shows "\<exists>r. panic_on_error (ToUint z) = Some r \<and> fv r = int (int_val z)"
  using assms field_prime_lt_base
  by (simp add: ToUint_value panic_on_error_def unat_of_nat_base fv_unat del: of_nat_unat)

lemma addMod_value: "\<exists>r. addMod x y Prime = Some r \<and> fv r = (fv x + fv y) mod fp"
proof -
  obtain z where z: "AddModulo (FromUint x) (FromUint y) (FromUint Prime) = Some z" "int_wf z"
    "int_val z = (unat x + unat y) mod field_prime"
    using AddModulo_value [of "FromUint x" "FromUint y" "FromUint Prime"] by auto
  then have "int_val z \<le> field_prime" by (simp add: less_imp_le)
  then show ?thesis using to_word [OF z(2)] z by (auto simp: addMod_def fv_def fp_def zmod_int)
qed

lemma mulMod_value: "\<exists>r. mulMod x y Prime = Some r \<and> fv r = (fv x * fv y) mod fp"
proof -
  obtain z where z: "MulModulo (FromUint x) (FromUint y) (FromUint Prime) = Some z" "int_wf z"
    "int_val z = (unat x * unat y) mod field_prime"
    using MulModulo_value [of "FromUint x" "FromUint y" "FromUint Prime"] by auto
  then have "int_val z \<le> field_prime" by (simp add: less_imp_le)
  then show ?thesis using to_word [OF z(2)] z by (auto simp: mulMod_def fv_def fp_def zmod_int)
qed

lemma subMod_value: "\<exists>r. subMod x y Prime = Some r \<and> fv r = (fv x - fv y) mod fp"
proof -
  obtain z where z: "SubModulo (FromUint x) (FromUint y) (FromUint Prime) = Some z" "int_wf z"
    "int (int_val z) = (fv x - fv y) mod fp"
    using SubModulo_value [of "FromUint x" "FromUint y" "FromUint Prime"] by (auto simp: fv_def fp_def)
  then have "int (int_val z) < fp" by simp
  then have "int_val z \<le> field_prime" by (simp add: fp_def)
  then show ?thesis using to_word [OF z(2)] z by (auto simp: subMod_def)
qed

lemma invMod_value:
  "coprime (unat x) field_prime \<Longrightarrow> \<exists>r. invMod x Prime = Some r \<and> (fv x * fv r) mod fp = 1"
  "\<not> coprime (unat x) field_prime \<Longrightarrow> invMod x Prime = None"
proof -
  note M = ModInverse_value [of "FromUint x" "FromUint Prime"]
  show "\<not> coprime (unat x) field_prime \<Longrightarrow> invMod x Prime = None"
    using M(2) by (simp add: invMod_def)
  assume "coprime (unat x) field_prime"
  then obtain z where z: "ModInverse (FromUint x) (FromUint Prime) = Some z" "int_wf z"
    "int_val z \<le> field_prime" "(unat x * int_val z) mod field_prime = 1 mod field_prime"
    using M(1) by auto
  obtain r where r: "panic_on_error (ToUint z) = Some r" "fv r = int (int_val z)"
    using to_word [OF z(2,3)] by blast
  have "int ((unat x * int_val z) mod field_prime) = 1" using z(4) by (simp add: field_prime_def)
  then show "\<exists>r. invMod x Prime = Some r \<and> (fv x * fv r) mod fp = 1"
    using z(1) r by (simp add: invMod_def fv_unat [of x] fp_def zmod_int)
qed


lemma fv_bounds [simp]: "0 \<le> fv x"
  by (simp add: fv_def)

lemma fv_inj: "fv x = fv y \<longleftrightarrow> x = y"
  unfolding fv_unat word_eq_nat of_nat_eq_iff ..

subsection \<open>Sharings\<close>

definition sharing :: "nat \<Rightarrow> int \<Rightarrow> share list \<Rightarrow> bool" where
  "sharing k s shs \<longleftrightarrow>
     (\<exists>cs. length cs \<le> k \<and> peval cs 0 mod fp = s mod fp \<and>
       (\<forall>sh\<in>set shs. fv (Value sh) mod fp = peval cs (fv (Index sh)) mod fp))"

lemma sharing_subset: "sharing k s shs \<Longrightarrow> set shs' \<subseteq> set shs \<Longrightarrow> sharing k s shs'"
  by (auto simp: sharing_def)

lemma sharing_mono: "sharing k s shs \<Longrightarrow> k \<le> k' \<Longrightarrow> sharing k' s shs"
  unfolding sharing_def using le_trans by blast

subsection \<open>Splitting\<close>

lemma Split_eval_value:
  "fv accum = a mod fp \<Longrightarrow> fv exp = e mod fp \<Longrightarrow> (\<forall>c\<in>set cs. c < Prime) \<Longrightarrow>
    \<exists>v. Split_eval cs bs exp accum = Some v \<and> fv v = (a + e * peval (map fv cs) (fv bs)) mod fp"
proof (induction cs arbitrary: exp accum a e)
  case (Cons c cs)
  obtain co where co: "mulMod c exp Prime = Some co" "fv co = (fv c * fv exp) mod fp"
    using mulMod_value by blast
  obtain acc where acc: "addMod accum co Prime = Some acc" "fv acc = (fv accum + fv co) mod fp"
    using addMod_value by blast
  obtain ex where ex: "mulMod exp bs Prime = Some ex" "fv ex = (fv exp * fv bs) mod fp"
    using mulMod_value by blast
  have "fv acc = (a + fv c * e) mod fp" unfolding acc co Cons.prems(1,2) by (simp add: mod_simps)
  moreover have "fv ex = (e * fv bs) mod fp" unfolding ex Cons.prems(1,2) by (simp add: mod_simps)
  ultimately obtain v where "Split_eval cs bs ex acc = Some v"
    "fv v = (a + fv c * e + e * fv bs * peval (map fv cs) (fv bs)) mod fp"
    using Cons.IH [of acc "a + fv c * e" ex "e * fv bs"] Cons.prems(3) by auto
  then show ?case using co acc ex by (simp add: algebra_simps)
qed (simp add: fv_def)

lemma rand_coefficient_lt: "rand_coefficient rs = Some (c, rs') \<Longrightarrow> c < Prime"
  by (induction rs) (auto simp: not_le split: if_splits)

lemma rand_coefficients_lt:
  "rand_coefficients n rs = Some (cs, rs') \<Longrightarrow> length cs = n \<and> (\<forall>c\<in>set cs. c < Prime)"
proof (induction n arbitrary: rs cs)
  case (Suc n)
  then obtain c r1 cs1 where "rand_coefficient rs = Some (c, r1)" "rand_coefficients n r1 = Some (cs1, rs')" "cs = c # cs1"
    by (auto split: bind_splits)
  then show ?case using Suc.IH rand_coefficient_lt by auto
qed simp

text \<open>With enough values in the field among the random ones the draw succeeds.\<close>

lemma rand_coefficients_enough:
  "n \<le> length (filter (\<lambda>r. r < Prime) rs) \<Longrightarrow> \<exists>cs rs'. rand_coefficients n rs = Some (cs, rs')"
proof (induction n arbitrary: rs)
  case (Suc n)
  have "\<exists>c rs'. rand_coefficient rs = Some (c, rs') \<and> length (filter (\<lambda>r. r < Prime) rs) = Suc (length (filter (\<lambda>r. r < Prime) rs'))"
    using Suc.prems by (induction rs) (auto simp: not_le)
  then obtain c r1 where c: "rand_coefficient rs = Some (c, r1)" "n \<le> length (filter (\<lambda>r. r < Prime) r1)"
    using Suc.prems by auto
  then show ?case using Suc.IH [OF c(2)] by auto
qed simp

lemma word_lt_Prime: "x < Prime \<longleftrightarrow> fv x < fp"
  unfolding word_less_nat fv_unat fp_def unat_Prime of_nat_less_iff ..

lemma Split_share_value:
  assumes "\<forall>c\<in>set (secret # cs). c < Prime" "0 < x" "x < 2 ^ 63"
  shows "\<exists>v. Split_share (secret # cs) x = Some \<lparr>Index = word_of_int x, Value = v\<rparr> \<and>
    fv (word_of_int x) = x \<and> fv v = peval (map fv (secret # butlast (secret # cs))) x mod fp"
proof -
  define b :: u64 where "b = word_of_int x"
  have b: "fv b = x" using assms(2,3) by (simp add: b_def fv_def uint_word_of_int take_bit_eq_mod)
  have "fv secret = fv secret mod fp" using assms(1) by (simp add: word_lt_Prime)
  moreover have "fv (b mod Prime) = x mod fp" using b by (simp add: fv_def uint_mod fp_def)
  moreover have "\<forall>c\<in>set (butlast (secret # cs)). c < Prime" using assms(1) in_set_butlastD by fast
  ultimately obtain v where "Split_eval (butlast (secret # cs)) b (b mod Prime) secret = Some v"
    "fv v = (fv secret + x * peval (map fv (butlast (secret # cs))) x) mod fp"
    using Split_eval_value [of secret "fv secret" "b mod Prime" x "butlast (secret # cs)" b] b by auto
  then show ?thesis using b by (simp add: Split_share_def b_def Let_def)
qed


lemma Split_returns:
  assumes "0 < k" "k \<le> n" "n < 2 ^ 63" "secret < Prime" "rand_coefficients (nat k - 1) rs = Some (cs, rs')"
  shows "\<exists>shs. Split n k secret rs = Some (Inr shs, rs') \<and> length shs = nat n \<and>
    (\<forall>i<nat n. fv (Index (shs ! i)) = int i + 1 \<and>
      fv (Value (shs ! i)) = peval (map fv (secret # butlast (secret # cs))) (int i + 1) mod fp)"
proof -
  have cs: "\<forall>c\<in>set (secret # cs). c < Prime" using rand_coefficients_lt [OF assms(5)] assms(4) by auto
  define val where "val x = (THE v. Split_share (secret # cs) x = Some \<lparr>Index = word_of_int x, Value = v\<rparr>)" for x
  define f where "f x = \<lparr>Index = word_of_int x, Value = val x\<rparr>" for x
  have f: "Split_share (secret # cs) x = Some (f x)" "fv (Index (f x)) = x"
    "fv (Value (f x)) = peval (map fv (secret # butlast (secret # cs))) x mod fp"
    if "x \<in> set [1..n]" for x
  proof -
    have x: "0 < x" "x < 2 ^ 63" using that assms(3) by auto
    obtain v where v: "Split_share (secret # cs) x = Some \<lparr>Index = word_of_int x, Value = v\<rparr>"
      "fv (word_of_int x) = x" "fv v = peval (map fv (secret # butlast (secret # cs))) x mod fp"
      using Split_share_value [OF cs x] by blast
    then have "val x = v" by (simp add: val_def)
    then show "Split_share (secret # cs) x = Some (f x)" "fv (Index (f x)) = x"
      "fv (Value (f x)) = peval (map fv (secret # butlast (secret # cs))) x mod fp"
      using v by (simp_all add: f_def)
  qed
  have "omap (Split_share (secret # cs)) [1..n] = Some (map f [1..n])"
    using f(1) by (intro omap_eq_Some)
  then have "Split n k secret rs = Some (Inr (map f [1..n]), rs')"
    using assms by (simp add: Split_def)
  moreover have "map f [1..n] ! i = f (int i + 1)" "int i + 1 \<in> set [1..n]" if "i < nat n" for i
    using that by (auto simp: add.commute)
  ultimately show ?thesis using f(2,3) by (intro exI [of _ "map f [1..n]"]) simp
qed

lemma Split_value:
  assumes "0 < k" "k \<le> n" "n < 2 ^ 63" "secret < Prime"
    "nat k - 1 \<le> length (filter (\<lambda>r. r < Prime) rs)"
  shows "\<exists>shs rs'. Split n k secret rs = Some (Inr shs, rs') \<and> length shs = nat n \<and>
    (\<forall>i<nat n. fv (Index (shs ! i)) = int i + 1) \<and> sharing (nat k) (fv secret) shs \<and>
    (\<forall>sh\<in>set shs. Value sh < Prime)"
proof -
  obtain cs rs' where c: "rand_coefficients (nat k - 1) rs = Some (cs, rs')"
    using rand_coefficients_enough [OF assms(5)] by blast
  obtain shs where s: "Split n k secret rs = Some (Inr shs, rs')" "length shs = nat n"
    "\<forall>i<nat n. fv (Index (shs ! i)) = int i + 1 \<and>
      fv (Value (shs ! i)) = peval (map fv (secret # butlast (secret # cs))) (int i + 1) mod fp"
    using Split_returns [OF assms(1-4) c] by blast
  define ps where "ps = map fv (secret # butlast (secret # cs))"
  have "length ps = Suc (length cs)"
    unfolding ps_def length_map list.size length_butlast by simp
  then have "length ps \<le> nat k" using rand_coefficients_lt [OF c] assms(1) by simp
  moreover have "peval ps 0 mod fp = fv secret mod fp" by (simp add: ps_def)
  moreover have v: "fv (Value sh) = peval ps (fv (Index sh)) mod fp" if "sh \<in> set shs" for sh
    using that s(2,3) unfolding ps_def [symmetric] by (auto simp: in_set_conv_nth)
  ultimately have "sharing (nat k) (fv secret) shs" unfolding sharing_def by (intro exI [of _ ps]) auto
  moreover have "\<forall>sh\<in>set shs. Value sh < Prime" using v by (simp add: word_lt_Prime)
  ultimately show ?thesis using s by blast
qed


subsection \<open>Joining\<close>

lemma Join_basis_value:
  assumes "i < length shs" "set js \<subseteq> {..<length shs}" "fv num mod fp = a mod fp" "fv den = d mod fp"
  defines "xs \<equiv> map (fv \<circ> Index) shs"
  shows "\<exists>n' d'. Join_basis shs i js num den = Some (n', d') \<and>
    fv n' mod fp = (a * (\<Prod>j\<leftarrow>filter (\<lambda>j. j \<noteq> i) js. - (xs ! j))) mod fp \<and>
    fv d' = (d * (\<Prod>j\<leftarrow>filter (\<lambda>j. j \<noteq> i) js. xs ! i - xs ! j)) mod fp"
  using assms(2-4)
proof (induction js arbitrary: num den a d)
  case (Cons j js)
  show ?case
  proof (cases "i = j")
    case True
    then show ?thesis using Cons by auto
  next
    case False
    have xj: "fv (Index (shs ! j)) = xs ! j" "fv (Index (shs ! i)) = xs ! i"
      using Cons.prems(1) assms(1) by (simp_all add: xs_def)
    obtain g where g: "mulMod num (Index (shs ! j)) Prime = Some g" "fv g = (fv num * xs ! j) mod fp"
      using mulMod_value [of num "Index (shs ! j)"] xj by auto
    obtain f where f: "subMod (Index (shs ! i)) (Index (shs ! j)) Prime = Some f" "fv f = (xs ! i - xs ! j) mod fp"
      using subMod_value [of "Index (shs ! i)" "Index (shs ! j)"] xj by auto
    obtain e where e: "mulMod den f Prime = Some e" "fv e = (fv den * fv f) mod fp"
      using mulMod_value by blast
    have glt: "fv g < fp" using g(2) by simp
    have pg: "fv (Prime - g) = fp - fv g"
    proof -
      have g': "unat g < field_prime" using glt unfolding fv_unat fp_def of_nat_less_iff .
      then have "unat (Prime - g) = field_prime - unat g" by (simp add: unat_sub64)
      then show ?thesis unfolding fv_unat fp_def using g' by (simp only: of_nat_diff less_imp_le)
    qed
    have "fv (Prime - g) mod fp = (- (fv num * xs ! j)) mod fp"
      unfolding pg g(2) by (simp add: mod_simps)
    also have "\<dots> = (a * - (xs ! j)) mod fp"
      using Cons.prems(2) by (metis mod_mult_left_eq mult_minus_right)
    finally have num': "fv (Prime - g) mod fp = (a * - (xs ! j)) mod fp" .
    have den': "fv e = (d * (xs ! i - xs ! j)) mod fp"
      unfolding e f Cons.prems(3) by (simp add: mod_simps)
    obtain n' d' where r: "Join_basis shs i js (Prime - g) e = Some (n', d')"
      "fv n' mod fp = (a * - (xs ! j) * (\<Prod>j\<leftarrow>filter (\<lambda>j. j \<noteq> i) js. - (xs ! j))) mod fp"
      "fv d' = (d * (xs ! i - xs ! j) * (\<Prod>j\<leftarrow>filter (\<lambda>j. j \<noteq> i) js. xs ! i - xs ! j)) mod fp"
      using Cons.IH [OF _ num' den'] Cons.prems(1) by auto
    then show ?thesis using False g f e by (simp add: Let_def mult.assoc)
  qed
qed (use assms(4) in \<open>simp add: fv_def\<close>)


text \<open>The numerator and the denominator of the \<open>i\<close>-th Lagrange basis polynomial at 0.\<close>

definition basis_num :: "int list \<Rightarrow> nat \<Rightarrow> int" where
  "basis_num xs i = (\<Prod>a\<leftarrow>others xs i. - a)"

definition basis_den :: "int list \<Rightarrow> nat \<Rightarrow> int" where
  "basis_den xs i = (\<Prod>a\<leftarrow>others xs i. xs ! i - a)"

abbreviation indices :: "share list \<Rightarrow> int list" where
  "indices shs \<equiv> map (\<lambda>sh. fv (Index sh)) shs"

lemma Join_basis_all:
  assumes "i < length shs"
  shows "\<exists>n d. Join_basis shs i [0..<length shs] 1 1 = Some (n, d) \<and>
    fv n mod fp = basis_num (indices shs) i mod fp \<and> fv d = basis_den (indices shs) i mod fp"
proof -
  have one: "fv 1 = 1" "1 mod fp = 1" by (simp_all add: fv_def fp_def field_prime_def)
  show ?thesis
    using Join_basis_value [OF assms, of "[0..<length shs]" 1 1 1 1]
    by (simp add: one basis_num_def basis_den_def others_def comp_def lessThan_atLeast0)
qed

text \<open>The inverse the code computes for a denominator.\<close>

definition field_inv :: "int \<Rightarrow> int" where
  "field_inv d = fv (the (invMod (word_of_int (d mod fp)) Prime))"

lemma fv_word: "fv d' = d mod fp \<Longrightarrow> d' = word_of_int (d mod fp)"
  unfolding fv_def by (metis word_of_int_uint)

lemma coprime_fv: "coprime fp d \<longleftrightarrow> coprime (unat d') field_prime" if "fv d' = d mod fp"
proof -
  have "coprime fp d \<longleftrightarrow> coprime fp (fv d')" unfolding that by simp
  also have "\<dots> \<longleftrightarrow> coprime (int (unat d')) (int field_prime)" unfolding fv_unat fp_def by (rule coprime_commute)
  finally show ?thesis unfolding coprime_int_iff .
qed

lemma invMod_den:
  assumes "fv d' = d mod fp" "coprime fp d"
  shows "\<exists>r. invMod d' Prime = Some r \<and> fv r = field_inv d" "(d * field_inv d) mod fp = 1"
proof -
  obtain r where r: "invMod d' Prime = Some r" "(fv d' * fv r) mod fp = 1"
    using invMod_value(1) coprime_fv [OF assms(1)] assms(2) by blast
  have "fv r = field_inv d" using r(1) fv_word [OF assms(1)] by (simp add: field_inv_def)
  then show "\<exists>r. invMod d' Prime = Some r \<and> fv r = field_inv d" "(d * field_inv d) mod fp = 1"
    using r unfolding assms(1) by (simp_all add: mod_mult_left_eq)
qed

definition join_weight :: "share list \<Rightarrow> nat \<Rightarrow> int" where
  "join_weight shs i = fv (Value (shs ! i)) * field_inv (basis_den (indices shs) i)"

lemma Join_loop_value:
  assumes "\<And>i. i < length shs \<Longrightarrow> coprime fp (basis_den (indices shs) i)"
    and "set is \<subseteq> {..<length shs}" "fv secret = s mod fp"
  shows "\<exists>z. Join_loop shs is secret = Some z \<and>
    fv z = (s + (\<Sum>i\<leftarrow>is. join_weight shs i * basis_num (indices shs) i)) mod fp"
  using assms(2,3)
proof (induction "is" arbitrary: secret s)
  case (Cons i "is")
  then have i: "i < length shs" by simp
  obtain n d where nd: "Join_basis shs i [0..<length shs] 1 1 = Some (n, d)"
    "fv n mod fp = basis_num (indices shs) i mod fp" "fv d = basis_den (indices shs) i mod fp"
    using Join_basis_all [OF i] by blast
  obtain e where e: "invMod d Prime = Some e" "fv e = field_inv (basis_den (indices shs) i)"
    using invMod_den(1) [OF nd(3) assms(1) [OF i]] by blast
  obtain v where v: "mulMod (Value (shs ! i)) n Prime = Some v" "fv v = (fv (Value (shs ! i)) * fv n) mod fp"
    using mulMod_value by blast
  obtain w where w: "mulMod v e Prime = Some w" "fv w = (fv v * fv e) mod fp" using mulMod_value by blast
  obtain t where t: "addMod secret w Prime = Some t" "fv t = (fv secret + fv w) mod fp" using addMod_value by blast
  have "fv w = (fv (Value (shs ! i)) * fv e * (fv n mod fp)) mod fp"
    unfolding w v by (simp add: mod_simps) (simp add: ac_simps)
  then have "fv w = (join_weight shs i * basis_num (indices shs) i) mod fp"
    unfolding nd(2) e(2) join_weight_def by (simp add: mod_simps)
  then have "fv t = (s + join_weight shs i * basis_num (indices shs) i) mod fp"
    unfolding t Cons.prems(2) by (simp add: mod_simps)
  from Cons.IH [OF _ this] show ?case
    using Cons.prems(1) nd(1) e(1) v(1) w(1) t(1) by (simp add: add.assoc)
qed (simp add: fv_def)

lemma coprime_int_prod_list: "(\<And>a. a \<in> set as \<Longrightarrow> coprime m (f a)) \<Longrightarrow> coprime (m::int) (\<Prod>a\<leftarrow>as. f a)"
  by (induction as) auto

lemma distinct_coprime: "x \<noteq> y \<Longrightarrow> \<bar>x - y\<bar> < fp \<Longrightarrow> coprime fp (x - y)"
proof -
  assume a: "x \<noteq> y" "\<bar>x - y\<bar> < fp"
  then have "coprime (nat \<bar>x - y\<bar>) field_prime"
    by (intro is_prime_coprime [OF field_prime_prime]) (auto simp: fp_def)
  then have "coprime (int (nat \<bar>x - y\<bar>)) fp" unfolding fp_def coprime_int_iff .
  then show ?thesis by (simp add: coprime_commute)
qed

definition good_indices :: "share list \<Rightarrow> bool" where
  "good_indices shs \<longleftrightarrow> distinct (map Index shs) \<and> (\<forall>sh\<in>set shs. Index sh < Prime)"

lemma good_indices_apart:
  "good_indices shs \<Longrightarrow> x \<in> set (indices shs) \<Longrightarrow> y \<in> set (indices shs) \<Longrightarrow> x \<noteq> y \<Longrightarrow> coprime fp (x - y)"
proof (rule distinct_coprime)
  assume a: "good_indices shs" "x \<in> set (indices shs)" "y \<in> set (indices shs)"
  then have "0 \<le> x" "x < fp" "0 \<le> y" "y < fp" by (auto simp: good_indices_def word_lt_Prime)
  then show "\<bar>x - y\<bar> < fp" by linarith
qed

lemma good_indices_distinct: "good_indices shs \<Longrightarrow> distinct (indices shs)"
  by (auto simp: good_indices_def distinct_map inj_on_def fv_inj)

lemma others_not_self:
  assumes "distinct xs" "i < length xs" "a \<in> set (others xs i)"
  shows "a \<noteq> xs ! i" "a \<in> set xs"
  using assms by (auto simp: others_def nth_eq_iff_index_eq)

lemma good_indices_den:
  assumes "good_indices shs" "i < length shs"
  shows "coprime fp (basis_den (indices shs) i)"
  unfolding basis_den_def
proof (rule coprime_int_prod_list, rule good_indices_apart [OF assms(1)])
  fix a assume a: "a \<in> set (others (indices shs) i)"
  have i: "i < length (indices shs)" using assms(2) by simp
  show "indices shs ! i \<in> set (indices shs)" using i by (rule nth_mem)
  show "a \<in> set (indices shs)" "indices shs ! i \<noteq> a"
    using others_not_self [OF good_indices_distinct [OF assms(1)] i a] by simp_all
qed

text \<open>\<open>k\<close> shares with different indices determine the secret, and \<open>Join\<close> returns it.\<close>

lemma Join_sharing:
  assumes "sharing (length shs) s shs" "good_indices shs"
  shows "\<exists>z. Join shs = Some z \<and> fv z = s mod fp"
proof -
  let ?xs = "indices shs" and ?ws = "map (join_weight shs) [0..<length shs]"
  obtain cs where cs: "length cs \<le> length shs" "peval cs 0 mod fp = s mod fp"
    "\<forall>sh\<in>set shs. fv (Value sh) mod fp = peval cs (fv (Index sh)) mod fp"
    using assms(1) by (auto simp: sharing_def)
  have "fp dvd ?ws ! i * (\<Prod>a\<leftarrow>others ?xs i. ?xs ! i - a) - peval cs (?xs ! i)" if "i < length ?xs" for i
  proof -
    have i: "i < length shs" using that by simp
    let ?d = "basis_den ?xs i" and ?v = "fv (Value (shs ! i))"
    obtain d' where "fv d' = ?d mod fp" using Join_basis_all [OF i] by blast
    from invMod_den(2) [OF this good_indices_den [OF assms(2) i]] have "(?d * field_inv ?d) mod fp = 1" .
    then have "(?v * (?d * field_inv ?d)) mod fp = ?v mod fp" by (metis mod_mult_right_eq mult_1_right)
    moreover have "?v mod fp = peval cs (?xs ! i) mod fp" using cs(3) i by simp
    ultimately have "(join_weight shs i * ?d) mod fp = peval cs (?xs ! i) mod fp"
      by (simp add: join_weight_def ac_simps)
    then show ?thesis using i unfolding basis_den_def [symmetric] by (simp add: mod_eq_dvd_iff)
  qed
  from lagrange_interpolation [OF _ good_indices_distinct [OF assms(2)] good_indices_apart [OF assms(2)] this] cs(1)
  have "fp dvd (\<Sum>i<length shs. join_weight shs i * basis_num ?xs i) - peval cs 0"
    by (simp add: basis_num_def)
  then have "(\<Sum>i<length shs. join_weight shs i * basis_num ?xs i) mod fp = s mod fp"
    using cs(2) by (simp add: mod_eq_dvd_iff [symmetric])
  moreover have "fv 0 = 0 mod fp" by (simp add: fv_def)
  from Join_loop_value [OF good_indices_den [OF assms(2)] _ this, of "[0..<length shs]"]
  obtain z where "Join shs = Some z" "fv z = (\<Sum>i<length shs. join_weight shs i * basis_num ?xs i) mod fp"
    by (auto simp: Join_def interv_sum_list_conv_sum_set_nat lessThan_atLeast0)
  ultimately show ?thesis by simp
qed


text \<open>Two shares with the same index make a denominator zero; its inverse does not exist and
  \<^verbatim>\<open>ModInverse\<close> panics.\<close>

lemma basis_den_zero:
  assumes "i < length xs" "j < length xs" "i \<noteq> j" "xs ! i = xs ! j"
  shows "basis_den xs i = 0"
proof -
  have "xs ! j \<in> set (others xs i)" using assms by (intro others_mem) auto
  then have "0 \<in> set (map (\<lambda>a. xs ! i - a) (others xs i))" using assms(4) by force
  then show ?thesis by (simp add: basis_den_def prod_list_zero_iff)
qed

lemma Join_loop_panics:
  assumes "i < length shs" "basis_den (indices shs) i = 0"
  shows "i \<in> set is \<Longrightarrow> set is \<subseteq> {..<length shs} \<Longrightarrow> Join_loop shs is secret = None"
proof (induction "is" arbitrary: secret)
  case (Cons a "is")
  show ?case
  proof (cases "a = i")
    case True
    obtain n d where nd: "Join_basis shs i [0..<length shs] 1 1 = Some (n, d)"
      "fv d = basis_den (indices shs) i mod fp"
      using Join_basis_all [OF assms(1)] by blast
    have "\<not> coprime fp 0" by (simp add: fp_def field_prime_def)
    then have "invMod d Prime = None"
      using coprime_fv [OF nd(2)] assms(2) by (intro invMod_value(2)) simp
    then show ?thesis using nd(1) True by simp
  next
    case False
    then have "Join_loop shs is sec = None" for sec using Cons by simp
    then show ?thesis by (simp add: bind_eq_None_conv split: prod.split)
  qed
qed simp

lemma Join_duplicate:
  assumes "\<not> distinct (map Index shs)"
  shows "Join shs = None"
proof -
  obtain i j where ij: "i < length shs" "j < length shs" "i \<noteq> j" "Index (shs ! i) = Index (shs ! j)"
    using assms by (auto simp: distinct_conv_nth)
  have "basis_den (indices shs) i = 0" using ij by (intro basis_den_zero [of _ _ j]) auto
  then show ?thesis unfolding Join_def using ij(1) by (intro Join_loop_panics [of i]) auto
qed

subsection \<open>Subtraction\<close>

lemma Share_Sub_value:
  "\<exists>c. Share_Sub a b = Some c \<and> Index c = Index a \<and> fv (Value c) = (fv (Value a) - fv (Value b)) mod fp"
proof -
  obtain n where n: "subMod Prime (Value b) Prime = Some n" "fv n = (fv Prime - fv (Value b)) mod fp"
    using subMod_value by blast
  obtain v where v: "addMod (Value a) n Prime = Some v" "fv v = (fv (Value a) + fv n) mod fp"
    using addMod_value by blast
  have "fv v = (fv (Value a) + (fp - fv (Value b)) mod fp) mod fp" unfolding v n by simp
  also have "\<dots> = (fp + (fv (Value a) - fv (Value b))) mod fp" by (simp add: mod_simps)
  also have "\<dots> = (fv (Value a) - fv (Value b)) mod fp" by (rule mod_add_self1)
  finally show ?thesis using n v by (simp add: Share_Sub_def)
qed

definition Shares_Sub :: "share list \<Rightarrow> share list \<Rightarrow> share list option" where
  "Shares_Sub as bs = omap (\<lambda>(a, b). Share_Sub a b) (zip as bs)"

lemma Shares_Sub_value:
  assumes "length as = length bs"
  shows "\<exists>cs. Shares_Sub as bs = Some cs \<and> length cs = length as \<and> (\<forall>i<length as.
    Index (cs ! i) = Index (as ! i) \<and> fv (Value (cs ! i)) = (fv (Value (as ! i)) - fv (Value (bs ! i))) mod fp)"
proof -
  let ?f = "\<lambda>(a, b). the (Share_Sub a b)"
  have f: "Share_Sub a b = Some (?f (a, b))" "Index (?f (a, b)) = Index a"
    "fv (Value (?f (a, b))) = (fv (Value a) - fv (Value b)) mod fp" for a b
    using Share_Sub_value [of a b] by auto
  have "Shares_Sub as bs = Some (map ?f (zip as bs))"
    unfolding Shares_Sub_def using f(1) by (intro omap_eq_Some) auto
  then show ?thesis using assms f(2,3) by (intro exI [of _ "map ?f (zip as bs)"]) simp
qed

lemma sharing_sub:
  assumes "sharing k s as" "sharing k t bs" "map Index as = map Index bs"
  shows "\<exists>cs. Shares_Sub as bs = Some cs \<and> map Index cs = map Index as \<and> sharing k (s - t) cs"
proof -
  have len: "length as = length bs" using assms(3) by (rule map_eq_imp_length_eq)
  obtain cs where cs: "Shares_Sub as bs = Some cs" "length cs = length as"
    "\<And>i. i < length as \<Longrightarrow> Index (cs ! i) = Index (as ! i) \<and>
       fv (Value (cs ! i)) = (fv (Value (as ! i)) - fv (Value (bs ! i))) mod fp"
    using Shares_Sub_value [OF len] by blast
  have idx: "map Index cs = map Index as" using cs by (intro nth_equalityI) auto
  obtain p where p: "length p \<le> k" "peval p 0 mod fp = s mod fp"
    "\<forall>sh\<in>set as. fv (Value sh) mod fp = peval p (fv (Index sh)) mod fp" using assms(1) by (auto simp: sharing_def)
  obtain q where q: "length q \<le> k" "peval q 0 mod fp = t mod fp"
    "\<forall>sh\<in>set bs. fv (Value sh) mod fp = peval q (fv (Index sh)) mod fp" using assms(2) by (auto simp: sharing_def)
  let ?r = "padd p (pscale (- 1) q)"
  have "fv (Value (cs ! i)) mod fp = peval ?r (fv (Index (cs ! i))) mod fp" if i: "i < length cs" for i
  proof -
    have ib: "Index (bs ! i) = Index (as ! i)" using assms(3) i cs(2) len by (metis nth_map)
    have "fv (Value (cs ! i)) = (fv (Value (as ! i)) mod fp - fv (Value (bs ! i)) mod fp) mod fp"
      using cs i by (simp add: mod_diff_eq)
    also have "\<dots> = (peval p (fv (Index (as ! i))) mod fp - peval q (fv (Index (as ! i))) mod fp) mod fp"
      using p(3) q(3) i cs(2) len ib by simp
    finally show ?thesis using cs i by (simp add: mod_diff_eq)
  qed
  then have "\<forall>sh\<in>set cs. fv (Value sh) mod fp = peval ?r (fv (Index sh)) mod fp"
    by (auto simp: in_set_conv_nth)
  moreover have "peval ?r 0 mod fp = (s - t) mod fp" using mod_diff_cong [OF p(2) q(2)] by simp
  moreover have "length ?r \<le> k" using p(1) q(1) by simp
  ultimately show ?thesis using cs(1) idx unfolding sharing_def by blast
qed

lemma good_indices_map: "map Index cs = map Index as \<Longrightarrow> good_indices as \<Longrightarrow> good_indices cs"
  unfolding good_indices_def by (metis (no_types, lifting) imageE image_eqI list.set_map)

subsection \<open>Serialisation\<close>


lemma Share_roundtrip: "Share_UnmarshalBinary (Share_MarshalBinary sh @ rest) = Inr sh"
  by (simp add: Share_UnmarshalBinary_def Share_MarshalBinary_def)

lemma Share_Unmarshal_ok:
  assumes "length data = 16"
  shows "\<exists>sh. Share_UnmarshalBinary data = Inr sh \<and> Share_MarshalBinary sh = data"
proof -
  have t: "take 8 (drop 8 data) = drop 8 data" using assms by simp
  have "be_enc 8 (be_num (drop 8 data)) = drop 8 data"
    using be_enc_be_num_take [of 8 "drop 8 data"] assms t by simp
  then have "data = be_enc 8 (be_num (take 8 data)) @ be_enc 8 (be_num (drop 8 data))"
    using assms by simp
  moreover have "data \<noteq> []" using assms by auto
  ultimately show ?thesis
    using assms t by (simp add: Share_UnmarshalBinary_def be_read_ok Share_MarshalBinary_def unat_be_num_u64)
qed

lemma Share_Unmarshal_short:
  "length data < 16 \<Longrightarrow> Share_UnmarshalBinary data =
     Inl (if data = [] then ErrUnmarshalNilBytes
          else if length data = 8 then ErrRead EOF else ErrRead UnexpectedEOF)"
  by (cases "length data < 8") (auto simp: Share_UnmarshalBinary_def be_read_ok be_read_short)

lemma Share_Encrypt_roundtrip:
  assumes "\<And>m. m \<noteq> [] \<Longrightarrow> length m \<le> 16 \<Longrightarrow> \<exists>c. enc pub m = Inr c \<and> dec priv c = Inr m"
  shows "\<exists>c. Share_Encrypt enc sh pub = Inr c \<and> Share_Decrypt dec priv c = Inr sh"
proof -
  have "Share_MarshalBinary sh \<noteq> []" "length (Share_MarshalBinary sh) \<le> 16"
    by (simp_all add: Share_MarshalBinary_def)
  from assms [OF this] show ?thesis
    using Share_roundtrip [of sh "[]"] by (auto simp: Share_Encrypt_def Share_Decrypt_def)
qed

subsection \<open>The coefficients \<open>Split\<close> uses\<close>

text \<open>The loop of \<^verbatim>\<open>Split\<close> reads \<^verbatim>\<open>coefficients[j]\<close> where the polynomial has the
  coefficient \<open>j + 1\<close>: the last random coefficient is never used, and the coefficient of \<open>x\<close> is the
  secret itself. With a threshold of 2 no randomness is left.\<close>

lemma Split_two:
  assumes "2 \<le> n" "n < 2 ^ 63" "secret < Prime" "\<exists>r\<in>set rs. r < Prime"
  shows "\<exists>shs rs'. Split n 2 secret rs = Some (Inr shs, rs') \<and> length shs = nat n \<and>
    (\<forall>i<nat n. fv (Value (shs ! i)) = (fv secret * (int i + 2)) mod fp)"
proof -
  have "filter (\<lambda>r. r < Prime) rs \<noteq> []" using assms(4) by (auto simp: filter_empty_conv)
  then have "1 \<le> length (filter (\<lambda>r. r < Prime) rs)" by (simp add: Suc_le_eq)
  then obtain cs rs' where c: "rand_coefficients (nat 2 - 1) rs = Some (cs, rs')"
    using rand_coefficients_enough [of 1 rs] by auto
  then obtain c1 where c1: "cs = [c1]" using rand_coefficients_lt [OF c] by (auto simp: length_Suc_conv)
  obtain shs where "Split n 2 secret rs = Some (Inr shs, rs')" "length shs = nat n"
    "\<forall>i<nat n. fv (Value (shs ! i)) = peval (map fv (secret # butlast (secret # cs))) (int i + 1) mod fp"
    using Split_returns [OF _ assms(1-3) c] by auto
  then show ?thesis unfolding c1 by (auto simp: algebra_simps)
qed

subsection \<open>The interface of a secret sharing scheme\<close>

text \<open>What the users of the package rely on: fewer shares of a sharing are a sharing, shares are
  subtracted one by one, each where it is held, and as many shares as the threshold give the secret.\<close>

locale secret_sharing =
  fixes is_sharing :: "nat \<Rightarrow> int \<Rightarrow> 'sh list \<Rightarrow> bool"
    and index :: "'sh \<Rightarrow> 'i"
    and usable :: "'sh list \<Rightarrow> bool"
    and sub :: "'sh \<Rightarrow> 'sh \<Rightarrow> 'sh option"
    and join :: "'sh list \<Rightarrow> u64 option"
    and modulus :: int
  assumes part: "is_sharing k s as \<Longrightarrow> set bs \<subseteq> set as \<Longrightarrow> is_sharing k s bs"
    and usable_index: "usable as \<Longrightarrow> map index bs = map index as \<Longrightarrow> usable bs"
    and sub_sharing: "is_sharing k s as \<Longrightarrow> is_sharing k t bs \<Longrightarrow> map index as = map index bs \<Longrightarrow>
      \<exists>cs. omap (\<lambda>(a, b). sub a b) (zip as bs) = Some cs \<and> map index cs = map index as \<and> is_sharing k (s - t) cs"
    and join_sharing: "is_sharing (length as) s as \<Longrightarrow> usable as \<Longrightarrow>
      \<exists>z. join as = Some z \<and> uint z = s mod modulus"
begin

text \<open>The result does not depend on which shares are joined.\<close>

lemma join_agree:
  assumes "is_sharing k s as" "set bs \<subseteq> set as" "set cs \<subseteq> set as" "length bs = k" "length cs = k"
    "usable bs" "usable cs"
  shows "join bs = join cs \<and> join bs \<noteq> None"
proof -
  have "is_sharing (length bs) s bs" "is_sharing (length cs) s cs" using part assms by auto
  then obtain z w where "join bs = Some z" "uint z = s mod modulus" "join cs = Some w" "uint w = s mod modulus"
    using join_sharing assms(6,7) by blast
  then show ?thesis by (simp add: word_uint_eq_iff)
qed

text \<open>Joining the differences gives the difference of the secrets.\<close>

lemma join_difference:
  assumes "is_sharing k s as" "is_sharing k t bs" "map index as = map index bs" "length as = k" "usable as"
  shows "\<exists>cs z. omap (\<lambda>(a, b). sub a b) (zip as bs) = Some cs \<and> join cs = Some z \<and>
    uint z = (s - t) mod modulus"
proof -
  obtain cs where cs: "omap (\<lambda>(a, b). sub a b) (zip as bs) = Some cs" "map index cs = map index as"
    "is_sharing k (s - t) cs" using sub_sharing [OF assms(1-3)] by blast
  have "length cs = k" using cs(2) assms(4) by (metis length_map)
  then show ?thesis using join_sharing [of cs "s - t"] cs usable_index [OF assms(5) cs(2)] by auto
qed

end

interpretation shamir: secret_sharing sharing Index good_indices Share_Sub Join fp
proof unfold_locales
  fix k s and as bs :: "share list"
  show "sharing k s as \<Longrightarrow> set bs \<subseteq> set as \<Longrightarrow> sharing k s bs" by (rule sharing_subset)
  show "good_indices as \<Longrightarrow> map Index bs = map Index as \<Longrightarrow> good_indices bs" by (rule good_indices_map)
  show "sharing (length as) s as \<Longrightarrow> good_indices as \<Longrightarrow> \<exists>z. Join as = Some z \<and> uint z = s mod fp"
    using Join_sharing [of as s] unfolding fv_def .
next
  fix k s t and as bs :: "share list"
  show "sharing k s as \<Longrightarrow> sharing k t bs \<Longrightarrow> map Index as = map Index bs \<Longrightarrow>
      \<exists>cs. omap (\<lambda>(a, b). Share_Sub a b) (zip as bs) = Some cs \<and> map Index cs = map Index as \<and> sharing k (s - t) cs"
    using sharing_sub unfolding Shares_Sub_def .
qed

end
