(* ===== verification/Base58.thy ===== *)
theory Base58
  imports Codec
begin

section \<open>Base 58: \<^verbatim>\<open>vendor/github.com/jbenet/go-base58/base58.go\<close>\<close>

text \<open>
  The text form of the addresses. A string of digits is a number in base 58, most significant digit
  first, and its bytes are the number in base 256. Zeros in front are not part of the number: each
  leading zero byte is a leading digit zero, which is the character 1.
\<close>

subsection \<open>Numbers in a base\<close>

fun base_digits :: "nat \<Rightarrow> nat \<Rightarrow> nat list" where
  "base_digits b n = (if n = 0 \<or> b < 2 then [] else (n mod b) # base_digits b (n div b))"

declare base_digits.simps [simp del]

lemma base_digits_simps:
  "base_digits b 0 = []"
  "1 < b \<Longrightarrow> 0 < n \<Longrightarrow> base_digits b n = (n mod b) # base_digits b (n div b)"
  by (subst base_digits.simps; simp)+

fun base_value :: "nat \<Rightarrow> nat list \<Rightarrow> nat" where
  "base_value b [] = 0"
| "base_value b (d # ds) = d + b * base_value b ds"

lemma base_value_digits: "1 < b \<Longrightarrow> base_value b (base_digits b n) = n"
proof (induction b n rule: base_digits.induct)
  case (1 b n)
  then show ?case by (cases "n = 0") (simp_all add: base_digits_simps)
qed

lemma base_digits_lt: "1 < b \<Longrightarrow> d \<in> set (base_digits b n) \<Longrightarrow> d < b"
proof (induction b n rule: base_digits.induct)
  case (1 b n)
  show ?case
  proof (cases "n = 0")
    case False
    then have "d = n mod b \<or> d \<in> set (base_digits b (n div b))" using "1.prems" by (simp add: base_digits_simps)
    then show ?thesis using False 1 by auto
  qed (use "1.prems" in \<open>simp add: base_digits_simps\<close>)
qed

lemma base_digits_last: "1 < b \<Longrightarrow> base_digits b n \<noteq> [] \<Longrightarrow> last (base_digits b n) \<noteq> 0"
proof (induction b n rule: base_digits.induct)
  case (1 b n)
  show ?case
  proof (cases "n div b = 0")
    case True
    then have "n < b" using "1.prems"(1) by (simp add: div_eq_0_iff)
    then show ?thesis using "1.prems" by (cases "n = 0") (simp_all add: base_digits_simps)
  next
    case False
    then have "n \<noteq> 0" by (metis div_0)
    moreover have "base_digits b (n div b) \<noteq> []" using False "1.prems"(1) by (simp add: base_digits_simps)
    ultimately show ?thesis using 1 by (simp add: base_digits_simps)
  qed
qed

lemma base_value_lt: "\<forall>d\<in>set ds. d < b \<Longrightarrow> base_value b ds < b ^ length ds"
proof (induction ds)
  case (Cons d ds)
  then show ?case using two_digits_lt [of d b "base_value b ds" "b ^ length ds"] by (simp add: add.commute)
qed simp

lemma base_value_append: "base_value b (xs @ ys) = base_value b xs + b ^ length xs * base_value b ys"
  by (induction xs) (simp_all add: algebra_simps)

lemma base_value_replicate_0 [simp]: "base_value b (replicate k 0) = 0"
  by (induction k) simp_all

lemma base_value_ge: "ds \<noteq> [] \<Longrightarrow> last ds \<noteq> 0 \<Longrightarrow> b ^ (length ds - 1) \<le> base_value b ds"
proof (induction ds rule: rev_induct)
  case (snoc d ds)
  then show ?case by (cases d) (simp_all add: base_value_append)
qed simp

lemma base_value_pos: "0 < b \<Longrightarrow> ds \<noteq> [] \<Longrightarrow> last ds \<noteq> 0 \<Longrightarrow> 0 < base_value b ds"
  using base_value_ge [of ds b] by (meson less_le_trans zero_less_power)

text \<open>Digits without zeros at the top are the digits of their number.\<close>

lemma base_digits_value:
  "1 < b \<Longrightarrow> \<forall>d\<in>set ds. d < b \<Longrightarrow> ds = [] \<or> last ds \<noteq> 0 \<Longrightarrow> base_digits b (base_value b ds) = ds"
proof (induction ds)
  case (Cons d ds)
  have "0 < base_value b (d # ds)" using Cons.prems base_value_pos [of b "d # ds"] by simp
  then have "base_digits b (base_value b (d # ds)) =
      (base_value b (d # ds) mod b) # base_digits b (base_value b (d # ds) div b)"
    using Cons.prems(1) base_digits_simps(2) by blast
  moreover have "base_value b (d # ds) mod b = d" "base_value b (d # ds) div b = base_value b ds"
    using Cons.prems by simp_all
  moreover have "ds = [] \<or> last ds \<noteq> 0" using Cons.prems(3) by (cases "ds = []") auto
  ultimately show ?case using Cons by simp
qed (simp add: base_digits_simps)

lemma length_base_digits:
  assumes "1 < b" "b ^ k \<le> n" shows "k < length (base_digits b n)"
proof -
  have "n < b ^ length (base_digits b n)"
    using base_value_lt [of "base_digits b n" b] base_digits_lt [OF assms(1)] base_value_digits [OF assms(1), of n] by simp
  then have "b ^ k < b ^ length (base_digits b n)" using assms(2) by simp
  then show ?thesis using assms(1) power_less_imp_less_exp by blast
qed

lemma length_base_digits_le:
  assumes "1 < b" "n < b ^ k" shows "length (base_digits b n) \<le> k"
proof (cases "base_digits b n = []")
  case False
  have "b ^ (length (base_digits b n) - 1) \<le> n"
    using base_value_ge [OF False base_digits_last [OF assms(1) False], of b] base_value_digits [OF assms(1), of n] by simp
  then have "b ^ (length (base_digits b n) - 1) < b ^ k" using assms(2) by simp
  then have "length (base_digits b n) - 1 < k" using assms(1) power_less_imp_less_exp by blast
  then show ?thesis by simp
qed simp

subsection \<open>The encoding\<close>

definition BTCAlphabet :: string where
  "BTCAlphabet = ''123456789ABCDEFGHJKLMNPQRSTUVWXYZabcdefghijkmnopqrstuvwxyz''"

fun index_of :: "'a \<Rightarrow> 'a list \<Rightarrow> nat option" where
  "index_of x [] = None"
| "index_of x (y # ys) = (if x = y then Some 0 else map_option Suc (index_of x ys))"

definition leading :: "'a \<Rightarrow> 'a list \<Rightarrow> nat" where
  "leading x xs = length (takeWhile ((=) x) xs)"

text \<open>\<^verbatim>\<open>answer.Bytes()\<close> of a big integer: its bytes, the most significant first.\<close>

definition big_Bytes :: "nat \<Rightarrow> bytes" where
  "big_Bytes n = map word_of_nat (rev (base_digits 256 n))"

definition big_SetBytes :: "bytes \<Rightarrow> nat" where
  "big_SetBytes bs = base_value 256 (rev (map unat bs))"

definition EncodeAlphabet :: "bytes \<Rightarrow> string \<Rightarrow> string" where
  "EncodeAlphabet b alphabet =
     rev (map ((!) alphabet) (base_digits 58 (big_SetBytes b)) @ replicate (leading 0 b) (alphabet ! 0))"

definition DecodeAlphabet :: "string \<Rightarrow> string \<Rightarrow> bytes" where
  "DecodeAlphabet b alphabet =
     (if \<exists>c\<in>set b. index_of c alphabet = None then []
      else replicate (leading (alphabet ! 0) b) 0 @ big_Bytes (base_value 58 (rev (map (\<lambda>c. the (index_of c alphabet)) b))))"

subsection \<open>The round trip\<close>

lemma index_of_nth: "distinct xs \<Longrightarrow> i < length xs \<Longrightarrow> index_of (xs ! i) xs = Some i"
proof (induction xs arbitrary: i)
  case (Cons x xs)
  then show ?case by (cases i) auto
qed simp

lemma index_of_Some: "index_of x xs = Some i \<Longrightarrow> i < length xs \<and> xs ! i = x"
  by (induction xs arbitrary: i) (auto split: if_splits)

lemma alphabet: "length BTCAlphabet = 58" "distinct BTCAlphabet"
  by (simp_all add: BTCAlphabet_def)

lemma index_of_alphabet: "d < 58 \<Longrightarrow> index_of (BTCAlphabet ! d) BTCAlphabet = Some d"
  by (simp add: index_of_nth alphabet)

lemma alphabet_zero: "d < 58 \<Longrightarrow> BTCAlphabet ! 0 = BTCAlphabet ! d \<longleftrightarrow> d = 0"
  using nth_eq_iff_index_eq [OF alphabet(2), of 0 d] by (auto simp: alphabet(1))

lemma leading_split: "\<exists>ys. xs = replicate (leading x xs) x @ ys \<and> (ys = [] \<or> hd ys \<noteq> x)"
proof (intro exI conjI)
  have "takeWhile ((=) x) xs = replicate (leading x xs) x"
    unfolding leading_def by (rule replicate_eqI) (auto dest: set_takeWhileD)
  then show "xs = replicate (leading x xs) x @ dropWhile ((=) x) xs" by (metis takeWhile_dropWhile_id)
  show "dropWhile ((=) x) xs = [] \<or> hd (dropWhile ((=) x) xs) \<noteq> x" using hd_dropWhile by metis
qed

lemma leading_append: "ys = [] \<or> hd ys \<noteq> x \<Longrightarrow> leading x (replicate k x @ ys) = k"
  by (cases ys) (auto simp: leading_def takeWhile_append)

text \<open>A text without characters outside the alphabet: leading zeros and the digits of a number.\<close>

lemma Decode_digits:
  assumes "\<forall>d\<in>set ds. d < 58" "ds = [] \<or> last ds \<noteq> 0"
  shows "DecodeAlphabet (rev (map ((!) BTCAlphabet) ds @ replicate k (BTCAlphabet ! 0))) BTCAlphabet =
    replicate k 0 @ big_Bytes (base_value 58 ds)"
proof -
  let ?s = "rev (map ((!) BTCAlphabet) ds @ replicate k (BTCAlphabet ! 0))"
  have s: "?s = replicate k (BTCAlphabet ! 0) @ rev (map ((!) BTCAlphabet) ds)" by simp
  have "leading (BTCAlphabet ! 0) ?s = k" unfolding s
  proof (rule leading_append)
    show "rev (map ((!) BTCAlphabet) ds) = [] \<or> hd (rev (map ((!) BTCAlphabet) ds)) \<noteq> BTCAlphabet ! 0"
      using assms alphabet_zero [of "last ds"] by (cases "ds = []") (auto simp: hd_rev last_map dest: last_in_set)
  qed
  moreover have "rev (map (\<lambda>c. the (index_of c BTCAlphabet)) ?s) = ds @ replicate k 0"
    using assms(1) by (simp add: index_of_alphabet map_idI rev_map)
  moreover have "\<not> (\<exists>c\<in>set ?s. index_of c BTCAlphabet = None)" using assms(1) by (auto simp: index_of_alphabet)
  ultimately show ?thesis unfolding DecodeAlphabet_def by (simp only: if_False base_value_append base_value_replicate_0 mult_0_right add_0_right)
qed

lemma big_Bytes_SetBytes: "bs = [] \<or> hd bs \<noteq> 0 \<Longrightarrow> big_Bytes (big_SetBytes bs) = bs"
proof -
  assume a: "bs = [] \<or> hd bs \<noteq> 0"
  have "base_digits 256 (base_value 256 (rev (map unat bs))) = rev (map unat bs)"
    using a by (intro base_digits_value) (cases bs, auto simp: unat_eq_zero)+
  then show ?thesis by (simp add: big_Bytes_def big_SetBytes_def comp_def map_idI)
qed

lemma big_SetBytes_zeros: "big_SetBytes (replicate k 0 @ bs) = big_SetBytes bs"
  by (simp add: big_SetBytes_def base_value_append)

lemma Decode_Encode: "DecodeAlphabet (EncodeAlphabet b BTCAlphabet) BTCAlphabet = b"
proof -
  obtain ys where ys: "b = replicate (leading 0 b) 0 @ ys" "ys = [] \<or> hd ys \<noteq> 0"
    using leading_split [of b 0] by (elim exE conjE) (rule that)
  have "DecodeAlphabet (EncodeAlphabet b BTCAlphabet) BTCAlphabet =
      replicate (leading 0 b) 0 @ big_Bytes (base_value 58 (base_digits 58 (big_SetBytes b)))"
    unfolding EncodeAlphabet_def
  proof (rule Decode_digits)
    show "\<forall>d\<in>set (base_digits 58 (big_SetBytes b)). d < 58" by (rule ballI, rule base_digits_lt) simp_all
    show "base_digits 58 (big_SetBytes b) = [] \<or> last (base_digits 58 (big_SetBytes b)) \<noteq> 0"
      using base_digits_last [of 58 "big_SetBytes b"] by linarith
  qed
  also have "\<dots> = replicate (leading 0 b) 0 @ big_Bytes (big_SetBytes ys)"
    using arg_cong [OF ys(1), of big_SetBytes] by (simp add: base_value_digits big_SetBytes_zeros)
  also have "\<dots> = b" using ys(1) big_Bytes_SetBytes [OF ys(2)] by simp
  finally show ?thesis .
qed

text \<open>How many bytes a text of 30 characters has: at least 22, or none when a character is not a digit.\<close>

lemma fold_table: "(z :: nat) < 22 \<Longrightarrow> (256 :: nat) ^ (21 - z) \<le> 58 ^ (29 - z)"
proof -
  assume z: "z < 22"
  have "(256 :: nat) ^ (21 - z) * 58 ^ z * 256 ^ z \<le> 58 ^ 29 * 256 ^ z"
  proof -
    have "(256 :: nat) ^ (21 - z) * 256 ^ z = 256 ^ 21" using z by (simp flip: power_add)
    moreover have "(256 :: nat) ^ 21 * 58 ^ z \<le> 58 ^ 29 * 256 ^ z"
    proof -
      have "(58 :: nat) ^ z \<le> 256 ^ z" by (simp add: power_mono)
      moreover have "(256 :: nat) ^ 21 \<le> 58 ^ 29" by simp
      ultimately show ?thesis using mult_le_mono by blast
    qed
    ultimately show ?thesis by (simp add: algebra_simps)
  qed
  then have "(256 :: nat) ^ (21 - z) * 58 ^ z \<le> 58 ^ (29 - z) * 58 ^ z" using z by (simp flip: power_add)
  then show ?thesis by simp
qed

lemma length_Decode:
  assumes s: "length s = 30" "DecodeAlphabet s BTCAlphabet \<noteq> []"
  shows "22 \<le> length (DecodeAlphabet s BTCAlphabet)"
proof -
  let ?z = "leading (BTCAlphabet ! 0) s" and ?ix = "\<lambda>c. the (index_of c BTCAlphabet)"
  obtain ys where ys: "s = replicate ?z (BTCAlphabet ! 0) @ ys" "ys = [] \<or> hd ys \<noteq> BTCAlphabet ! 0"
    using leading_split [of s "BTCAlphabet ! 0"] by (elim exE conjE) (rule that)
  have ok: "\<forall>c\<in>set s. index_of c BTCAlphabet \<noteq> None" using s(2) by (auto simp: DecodeAlphabet_def split: if_splits)
  have len: "length (DecodeAlphabet s BTCAlphabet) = ?z + length (base_digits 256 (base_value 58 (rev (map ?ix s))))"
    using ok by (auto simp: DecodeAlphabet_def big_Bytes_def)
  show ?thesis
  proof (cases "ys = [] \<or> 22 \<le> ?z")
    case True
    have "ys = [] \<Longrightarrow> ?z = 30" using arg_cong [OF ys(1), of length] s(1) by simp
    then show ?thesis using len True by linarith
  next
    case False
    have k: "length ys = 30 - ?z" using arg_cong [OF ys(1), of length] s(1) by simp
    have "?ix (hd ys) \<noteq> 0"
    proof
      assume "?ix (hd ys) = 0"
      moreover have "hd ys \<in> set s" using False arg_cong [OF ys(1), of set] by auto
      ultimately have "index_of (hd ys) BTCAlphabet = Some 0" using ok by auto
      then show False using index_of_Some ys(2) False by metis
    qed
    then have "58 ^ (length ys - 1) \<le> base_value 58 (rev (map ?ix ys))"
      using base_value_ge [of "rev (map ?ix ys)" 58] False by (simp add: last_rev hd_map)
    also have "base_value 58 (rev (map ?ix ys)) \<le> base_value 58 (rev (map ?ix s))"
      using arg_cong [OF ys(1), of "\<lambda>s. base_value 58 (rev (map ?ix s))"] by (simp add: base_value_append)
    finally have "256 ^ (21 - ?z) \<le> base_value 58 (rev (map ?ix s))" using fold_table [of ?z] False k by simp
    then have "21 - ?z < length (base_digits 256 (base_value 58 (rev (map ?ix s))))" by (intro length_base_digits) simp_all
    then show ?thesis using len by simp
  qed
qed

subsection \<open>Numbers as bytes\<close>

lemma big_SetBytes_be_num: "big_SetBytes bs = be_num bs"
proof (induction bs rule: rev_induct)
  case (snoc b bs)
  then show ?case by (simp add: big_SetBytes_def)
qed (simp add: big_SetBytes_def)

lemma big_Bytes_num: "be_num (big_Bytes n) = n" "n \<noteq> 0 \<Longrightarrow> hd (big_Bytes n) \<noteq> 0" "big_Bytes n = [] \<longleftrightarrow> n = 0"
proof -
  have lt: "d < 256" if "d \<in> set (base_digits 256 n)" for d using base_digits_lt [OF _ that] by simp
  have "map (unat :: u8 \<Rightarrow> nat) (map word_of_nat (rev (base_digits 256 n))) = rev (base_digits 256 n)"
    using lt by (auto simp: unat_of_nat intro!: map_idI)
  then have "big_SetBytes (big_Bytes n) = n"
    unfolding big_SetBytes_def big_Bytes_def using base_value_digits [of 256 n] by (simp only: rev_rev_ident)
  then show "be_num (big_Bytes n) = n" by (simp add: big_SetBytes_be_num)
  have ne: "base_digits 256 n = [] \<longleftrightarrow> n = 0" by (cases "n = 0") (simp_all add: base_digits_simps)
  then show "big_Bytes n = [] \<longleftrightarrow> n = 0" by (simp add: big_Bytes_def)
  show "hd (big_Bytes n) \<noteq> 0" if "n \<noteq> 0"
  proof -
    have "last (base_digits 256 n) \<noteq> 0" "last (base_digits 256 n) < 256"
      using base_digits_last [of 256 n] ne that lt [of "last (base_digits 256 n)"] by auto
    then have "unat (word_of_nat (last (base_digits 256 n)) :: u8) \<noteq> 0" by (simp add: unat_of_nat)
    then have "(word_of_nat (last (base_digits 256 n)) :: u8) \<noteq> 0" by (metis unsigned_0)
    then show ?thesis using ne that by (simp add: big_Bytes_def hd_map hd_rev)
  qed
qed

end
