(* ===== verification/Strconv.thy ===== *)
theory Strconv
  imports Base58 "HOL-Library.Char_ord"
begin

section \<open>Numbers as text: \<^verbatim>\<open>strconv\<close>\<close>

text \<open>
  The functions of the standard library that print and read a word in a base, for a base that is given.
  Reading does not take a sign or a prefix; letters are digits in either case.

  The lemmas: the text of a number has its value and no zero in front, no other text in a base up to ten
  does; reading gives the value, or fails at the first character that is not a digit.
\<close>

subsection \<open>Digits\<close>

definition digit_chars :: string where
  "digit_chars = ''0123456789abcdefghijklmnopqrstuvwxyz''"

definition digit_char :: "nat \<Rightarrow> char" where
  "digit_char d = digit_chars ! d"

text \<open>Letters are digits in either case.\<close>

definition digit_of :: "char \<Rightarrow> nat option" where
  "digit_of c =
     (if c \<in> set (take 10 digit_chars) then Some (of_char c - 48)
      else if c \<in> set (drop 10 digit_chars) then Some (of_char c - 87)
      else if CHR ''A'' \<le> c \<and> c \<le> CHR ''Z'' then Some (of_char c - 55)
      else None)"

datatype text_error = ErrEmptyString | ErrSyntax | ErrRange

definition FormatUint :: "nat \<Rightarrow> u64 \<Rightarrow> string" where
  "FormatUint b w = (if w = 0 then ''0'' else map digit_char (rev (base_digits b (unat w))))"

fun parse_loop :: "nat \<Rightarrow> nat \<Rightarrow> string \<Rightarrow> text_error + nat" where
  "parse_loop b n [] = Inr n"
| "parse_loop b n (c # cs) =
     (case digit_of c of
        None \<Rightarrow> Inl ErrSyntax
      | Some d \<Rightarrow>
          if b \<le> d then Inl ErrSyntax
          else if 2 ^ 64 \<le> n * b + d then Inl ErrRange
          else parse_loop b (n * b + d) cs)"

definition ParseUint :: "string \<Rightarrow> nat \<Rightarrow> text_error + u64" where
  "ParseUint s b = (if s = [] then Inl ErrSyntax else map_sum id word_of_nat (parse_loop b 0 s))"

subsection \<open>The value of a text\<close>

definition text_value :: "nat \<Rightarrow> string \<Rightarrow> nat" where
  "text_value b s = base_value b (rev (map (\<lambda>c. the (digit_of c)) s))"

definition valid_text :: "nat \<Rightarrow> string \<Rightarrow> bool" where
  "valid_text b s \<longleftrightarrow> (\<forall>c\<in>set s. \<exists>d<b. digit_of c = Some d)"

text \<open>The text of a number in a base.\<close>

definition number_text :: "nat \<Rightarrow> nat \<Rightarrow> string" where
  "number_text b n = (if n = 0 then ''0'' else map digit_char (rev (base_digits b n)))"

lemma digit_of_char: "d < 36 \<Longrightarrow> digit_of (digit_char d) = Some d"
proof -
  have "\<forall>d\<in>set [0..<36]. digit_of (digit_char d) = Some d"
    by (simp add: digit_of_def digit_char_def digit_chars_def upt_conv_Cons less_eq_char_def)
  then show "d < 36 \<Longrightarrow> digit_of (digit_char d) = Some d" by auto
qed

lemma text_value_simps [simp]:
  "text_value b [] = 0"
  "text_value b (c # cs) = the (digit_of c) * b ^ length cs + text_value b cs"
  by (simp_all add: text_value_def base_value_append)

lemma text_value_append: "text_value b (s @ t) = text_value b s * b ^ length t + text_value b t"
  by (induction s) (simp_all add: algebra_simps power_add)

lemma valid_text_simps [simp]:
  "valid_text b []"
  "valid_text b (c # cs) \<longleftrightarrow> (\<exists>d<b. digit_of c = Some d) \<and> valid_text b cs"
  "valid_text b (s @ t) \<longleftrightarrow> valid_text b s \<and> valid_text b t"
  by (auto simp: valid_text_def)

lemma text_value_lt: "valid_text b s \<Longrightarrow> text_value b s < b ^ length s"
proof (induction s)
  case (Cons c s)
  then obtain d where "d < b" "digit_of c = Some d" "text_value b s < b ^ length s" by auto
  then show ?case using two_digits_lt [of "text_value b s" "b ^ length s" d b] by (simp add: add.commute mult.commute)
qed simp

lemma zero_digit: "digit_of CHR ''0'' = Some 0" "digit_char 0 = CHR ''0''"
  by (simp_all add: digit_of_def digit_char_def digit_chars_def)

lemma text_value_zeros [simp]: "text_value b (replicate n CHR ''0'' @ s) = text_value b s" "text_value b (replicate n CHR ''0'') = 0"
  by (induction n) (simp_all add: zero_digit)

lemma valid_zeros [simp]: "0 < b \<Longrightarrow> valid_text b (replicate n CHR ''0'')"
  by (auto simp: valid_text_def zero_digit)

lemma text_value_dropWhile: "text_value b (dropWhile ((=) CHR ''0'') s) = text_value b s"
  by (induction s) (auto simp: zero_digit)

lemma valid_dropWhile: "valid_text b s \<Longrightarrow> valid_text b (dropWhile P s)"
  by (auto simp: valid_text_def dest: set_dropWhileD)

text \<open>Only one valid text without zeros in front has a given value.\<close>

lemma digit_of_inj_lower: "digit_of c = Some d \<Longrightarrow> d < 10 \<Longrightarrow> c = digit_char d"
proof -
  have "\<forall>c\<in>set (take 10 digit_chars). c = digit_char (of_char c - 48)"
    by (simp add: digit_char_def digit_chars_def)
  moreover have "\<forall>c\<in>set (drop 10 digit_chars). 10 \<le> (of_char c - 87 :: nat)" by (simp add: digit_chars_def)
  moreover have "10 \<le> (of_char c - 55 :: nat)" if "CHR ''A'' \<le> c" using that by (simp add: less_eq_char_def)
  ultimately show "digit_of c = Some d \<Longrightarrow> d < 10 \<Longrightarrow> c = digit_char d"
    unfolding digit_of_def by (metis leD option.inject option.distinct(1))
qed

lemma map_digit_char:
  assumes "valid_text b s" "b \<le> 10"
  shows "map digit_char (map (\<lambda>c. the (digit_of c)) s) = s"
  using assms(1)
proof (induction s)
  case (Cons c s)
  then obtain d where d: "d < b" "digit_of c = Some d" by auto
  then show ?case using Cons digit_of_inj_lower [OF d(2)] assms(2) by simp
qed simp

lemma number_text_unique:
  assumes "valid_text b s" "1 < b" "b \<le> 10" "s = [] \<or> hd s \<noteq> CHR ''0''"
  shows "number_text b (text_value b s) = (if s = [] then ''0'' else s)"
proof (cases "s = []")
  case False
  let ?ds = "rev (map (\<lambda>c. the (digit_of c)) s)"
  have h: "hd s = digit_char (the (digit_of (hd s)))" "hd s \<noteq> CHR ''0''"
    using arg_cong [OF map_digit_char [OF assms(1,3)], of hd] False assms(4) by (simp_all add: hd_map)
  then have "the (digit_of (hd s)) \<noteq> 0" using zero_digit(2) by metis
  then have l: "last ?ds \<noteq> 0" "?ds \<noteq> []" using False by (simp_all add: last_rev hd_map)
  have "\<forall>d\<in>set ?ds. d < b" using assms(1) by (auto simp: valid_text_def)
  then have "base_digits b (text_value b s) = ?ds" unfolding text_value_def using assms(2) l by (intro base_digits_value) simp_all
  moreover have "text_value b s \<noteq> 0" unfolding text_value_def using base_value_pos [of b ?ds] l assms(2) by simp
  ultimately show ?thesis using False map_digit_char [OF assms(1,3)] by (simp add: number_text_def rev_map)
qed (simp add: number_text_def)

lemma number_text_value:
  assumes "1 < b" "b \<le> 36"
  shows "valid_text b (number_text b n)" "text_value b (number_text b n) = n" "number_text b n \<noteq> []"
    "n \<noteq> 0 \<Longrightarrow> the (digit_of (hd (number_text b n))) \<noteq> 0"
proof -
  have lt: "d < b" if "d \<in> set (base_digits b n)" for d using base_digits_lt [OF assms(1) that] .
  then have dig: "digit_of (digit_char d) = Some d" if "d \<in> set (base_digits b n)" for d
    using digit_of_char [of d] that assms(2) by fastforce
  show "valid_text b (number_text b n)" using lt dig assms(1) by (auto simp: number_text_def valid_text_def zero_digit)
  have "map (\<lambda>c. the (digit_of c)) (map digit_char (rev (base_digits b n))) = rev (base_digits b n)"
    using dig by (auto intro: map_idI)
  then have "text_value b (map digit_char (rev (base_digits b n))) = n"
    unfolding text_value_def using base_value_digits [OF assms(1)] by (simp only: rev_rev_ident)
  then show "text_value b (number_text b n) = n" by (auto simp: number_text_def zero_digit)
  have ne: "base_digits b n \<noteq> []" if "n \<noteq> 0" using that assms(1) by (simp add: base_digits_simps)
  then show "number_text b n \<noteq> []" by (simp add: number_text_def)
  show "the (digit_of (hd (number_text b n))) \<noteq> 0" if "n \<noteq> 0"
    using that ne [OF that] dig [of "last (base_digits b n)"] base_digits_last [OF assms(1)] by (simp add: number_text_def hd_map hd_rev)
qed

lemma FormatUint_text: "FormatUint b w = number_text b (unat w)"
  by (simp add: FormatUint_def number_text_def unat_eq_zero)

lemma length_number_text: "1 < b \<Longrightarrow> 0 < k \<Longrightarrow> n < b ^ k \<Longrightarrow> length (number_text b n) \<le> k"
  using length_base_digits_le [of b n k] by (simp add: number_text_def)

text \<open>Reading a block.\<close>

lemma parse_loop_value:
  "valid_text b s \<Longrightarrow> n * b ^ length s + text_value b s < 2 ^ 64 \<Longrightarrow> parse_loop b n s = Inr (n * b ^ length s + text_value b s)"
proof (induction s arbitrary: n)
  case (Cons c s)
  then obtain d where d: "d < b" "digit_of c = Some d" "valid_text b s" by auto
  have e: "(n * b + d) * b ^ length s + text_value b s = n * b ^ length (c # s) + text_value b (c # s)"
    using d(2) by (simp add: algebra_simps)
  have "1 \<le> b ^ length s" using d(1) by (intro one_le_power) simp
  then have "n * b + d \<le> (n * b + d) * b ^ length s" by (metis mult.right_neutral mult_le_mono2)
  then have "n * b + d < 2 ^ 64" using Cons.prems(2) e by linarith
  then show ?case using Cons.IH [OF d(3), of "n * b + d"] Cons.prems(2) d e by simp
qed simp

lemma ParseUint_value:
  assumes "valid_text b s" "s \<noteq> []" "length s \<le> k" "b ^ k \<le> 2 ^ 64" "0 < b"
  shows "\<exists>w. ParseUint s b = Inr w \<and> unat w = text_value b s"
proof -
  have "text_value b s < b ^ length s" by (rule text_value_lt [OF assms(1)])
  also have "\<dots> \<le> b ^ k" using assms(3,5) by (intro power_increasing) simp_all
  finally have lt: "text_value b s < 2 ^ 64" using assms(4) by linarith
  then have "parse_loop b 0 s = Inr (text_value b s)" using parse_loop_value [of b s 0] assms(1) by simp
  moreover have "unat (word_of_nat (text_value b s) :: u64) = text_value b s" using lt by (simp add: unat_of_nat)
  ultimately show ?thesis using assms(2) by (simp add: ParseUint_def)
qed

lemma parse_loop_invalid:
  "\<not> valid_text b s \<Longrightarrow> n < b ^ m \<Longrightarrow> m + length s \<le> k \<Longrightarrow> b ^ k \<le> 2 ^ 64 \<Longrightarrow> 0 < b \<Longrightarrow> parse_loop b n s = Inl ErrSyntax"
proof (induction s arbitrary: n m)
  case (Cons c s)
  show ?case
  proof (cases "\<exists>d<b. digit_of c = Some d")
    case True
    then obtain d where d: "d < b" "digit_of c = Some d" by blast
    have lt: "n * b + d < b ^ Suc m" using two_digits_lt [of d b n "b ^ m"] d(1) Cons.prems(2) by (simp add: algebra_simps)
    also have "b ^ Suc m \<le> b ^ k" using Cons.prems(3,5) by (intro power_increasing) simp_all
    finally have "n * b + d < 2 ^ 64" using Cons.prems(4) by linarith
    then show ?thesis using Cons.IH [OF _ lt] Cons.prems d by auto
  next
    case False
    then show ?thesis by (cases "digit_of c") auto
  qed
qed simp

lemma ParseUint_invalid:
  assumes "\<not> valid_text b s" "length s \<le> k" "b ^ k \<le> 2 ^ 64" "0 < b"
  shows "ParseUint s b = Inl ErrSyntax"
  using parse_loop_invalid [of b s 0 0 k] assms by (auto simp: ParseUint_def)

end
