(* ===== verification/Json.thy ===== *)
theory Json
  imports Strconv
begin

section \<open>Documents as text: \<^verbatim>\<open>encoding/json\<close>, \<^verbatim>\<open>encoding/base64\<close>, \<^verbatim>\<open>encoding/hex\<close>\<close>

text \<open>
  What the source uses of three packages of the standard library. A document is a tree; numbers are kept as
  their text, because the type that they are read into decides what they mean. Strings are bytes, as in Go.

  \<open>print_json\<close> writes a document the way \<^verbatim>\<open>json.Marshal\<close> does, without spaces. \<open>parse_json\<close> reads any document: it
  has fuel, one unit per call, and \<open>parse_json_fuel\<close> shows that the fuel it starts with is always enough. The main
  result is that reading what was written gives the document back, for documents whose strings are ASCII.
\<close>

subsection \<open>Hexadecimal text\<close>

definition hex_encode :: "bytes \<Rightarrow> string" where
  "hex_encode bs = concat (map (\<lambda>b. [digit_char (unat b div 16), digit_char (unat b mod 16)]) bs)"

definition hex_digit :: "char \<Rightarrow> nat option" where
  "hex_digit c = (case digit_of c of Some d \<Rightarrow> if d < 16 then Some d else None | None \<Rightarrow> None)"

fun hex_decode :: "string \<Rightarrow> bytes option" where
  "hex_decode [] = Some []"
| "hex_decode [c] = None"
| "hex_decode (a # b # cs) =
     do { x \<leftarrow> hex_digit a; y \<leftarrow> hex_digit b; bs \<leftarrow> hex_decode cs; Some (word_of_nat (16 * x + y) # bs) }"

subsection \<open>Base 64\<close>

definition b64_alphabet :: string where
  "b64_alphabet = ''ABCDEFGHIJKLMNOPQRSTUVWXYZabcdefghijklmnopqrstuvwxyz0123456789+/''"

definition b64_char :: "nat \<Rightarrow> char" where
  "b64_char n = b64_alphabet ! n"

definition b64_digit :: "char \<Rightarrow> nat option" where
  "b64_digit c = index_of c b64_alphabet"

fun b64_encode :: "bytes \<Rightarrow> string" where
  "b64_encode [] = []"
| "b64_encode [a] = [b64_char (unat a div 4), b64_char (unat a mod 4 * 16), CHR ''='', CHR ''='']"
| "b64_encode [a, b] =
     [b64_char (unat a div 4), b64_char (unat a mod 4 * 16 + unat b div 16), b64_char (unat b mod 16 * 4), CHR ''='']"
| "b64_encode (a # b # c # bs) =
     [b64_char (unat a div 4), b64_char (unat a mod 4 * 16 + unat b div 16),
      b64_char (unat b mod 16 * 4 + unat c div 64), b64_char (unat c mod 64)] @ b64_encode bs"

text \<open>Bits of the last group that no byte needs are ignored.\<close>

fun b64_groups :: "string \<Rightarrow> bytes option" where
  "b64_groups [] = Some []"
| "b64_groups (a # b # c # d # cs) =
     do { x \<leftarrow> b64_digit a;
          y \<leftarrow> b64_digit b;
          let b0 = word_of_nat (x * 4 + y div 16);
          if c = CHR ''='' then if d = CHR ''='' \<and> cs = [] then Some [b0] else None
          else do { z \<leftarrow> b64_digit c;
                    let b1 = word_of_nat (y mod 16 * 16 + z div 4);
                    if d = CHR ''='' then if cs = [] then Some [b0, b1] else None
                    else do { w \<leftarrow> b64_digit d; bs \<leftarrow> b64_groups cs; Some (b0 # b1 # word_of_nat (z mod 4 * 64 + w) # bs) } } }"
| "b64_groups _ = None"

definition b64_decode :: "string \<Rightarrow> bytes option" where
  "b64_decode s = b64_groups (filter (\<lambda>c. c \<noteq> CHR 0x0A \<and> c \<noteq> CHR 0x0D) s)"

subsection \<open>Characters\<close>

text \<open>The length of the character in front of a text in UTF-8, or 0 if there is none.\<close>

definition utf8_tail :: "char \<Rightarrow> bool" where
  "utf8_tail c \<longleftrightarrow> 0x80 \<le> (of_char c :: nat) \<and> (of_char c :: nat) \<le> 0xBF"

definition utf8_len :: "string \<Rightarrow> nat" where
  "utf8_len s =
     (case s of
        [] \<Rightarrow> 0
      | a # cs \<Rightarrow>
          (let x = of_char a :: nat
           in if x < 0x80 then 1
              else if 0xC2 \<le> x \<and> x \<le> 0xDF then (case cs of b # _ \<Rightarrow> if utf8_tail b then 2 else 0 | _ \<Rightarrow> 0)
              else if 0xE0 \<le> x \<and> x \<le> 0xEF then
                (case cs of
                   b # c # _ \<Rightarrow>
                     (if utf8_tail b \<and> utf8_tail c \<and> (x = 0xE0 \<longrightarrow> 0xA0 \<le> (of_char b :: nat)) \<and> (x = 0xED \<longrightarrow> (of_char b :: nat) \<le> 0x9F)
                      then 3 else 0)
                 | _ \<Rightarrow> 0)
              else if 0xF0 \<le> x \<and> x \<le> 0xF4 then
                (case cs of
                   b # c # d # _ \<Rightarrow>
                     (if utf8_tail b \<and> utf8_tail c \<and> utf8_tail d \<and> (x = 0xF0 \<longrightarrow> 0x90 \<le> (of_char b :: nat)) \<and>
                         (x = 0xF4 \<longrightarrow> (of_char b :: nat) \<le> 0x8F)
                      then 4 else 0)
                 | _ \<Rightarrow> 0)
              else 0))"

definition utf8_bad :: string where
  "utf8_bad = [CHR 0xEF, CHR 0xBF, CHR 0xBD]"

definition utf8_encode :: "nat \<Rightarrow> string" where
  "utf8_encode r =
     (if r < 0x80 then [char_of r]
      else if r < 0x800 then [char_of (0xC0 + r div 64), char_of (0x80 + r mod 64)]
      else if 0x10FFFF < r \<or> 0xD800 \<le> r \<and> r \<le> 0xDFFF then utf8_bad
      else if r < 0x10000 then [char_of (0xE0 + r div 4096), char_of (0x80 + r div 64 mod 64), char_of (0x80 + r mod 64)]
      else [char_of (0xF0 + r div 262144), char_of (0x80 + r div 4096 mod 64), char_of (0x80 + r div 64 mod 64), char_of (0x80 + r mod 64)])"

subsection \<open>Strings\<close>

definition quote_ascii :: "char \<Rightarrow> string" where
  "quote_ascii c =
     (if c = CHR 0x22 \<or> c = CHR 0x5C then [CHR 0x5C, c]
      else if c = CHR 0x0A then [CHR 0x5C, CHR ''n'']
      else if c = CHR 0x0D then [CHR 0x5C, CHR ''r'']
      else if c = CHR 0x09 then [CHR 0x5C, CHR ''t'']
      else if (of_char c :: nat) < 0x20 \<or> c \<in> set ''<>&'' then
        [CHR 0x5C, CHR ''u'', CHR ''0'', CHR ''0'', digit_char (of_char c div 16), digit_char (of_char c mod 16)]
      else [c])"

function quote_chars :: "string \<Rightarrow> string" where
  "quote_chars [] = []"
| "quote_chars (c # cs) =
     (if (of_char c :: nat) < 0x80 then quote_ascii c @ quote_chars cs
      else if utf8_len (c # cs) = 0 then CHR 0x5C # ''ufffd'' @ quote_chars cs
      else if take 2 (c # cs) = [CHR 0xE2, CHR 0x80] \<and> cs ! 1 \<in> {CHR 0xA8, CHR 0xA9}
        then CHR 0x5C # ''u202'' @ digit_char (of_char (cs ! 1) mod 16) # quote_chars (drop 2 cs)
      else take (utf8_len (c # cs)) (c # cs) @ quote_chars (drop (utf8_len (c # cs) - 1) cs))"
  by pat_completeness auto
termination by (relation "measure length") auto

definition quote :: "string \<Rightarrow> string" where
  "quote s = CHR 0x22 # quote_chars s @ [CHR 0x22]"

definition hex4 :: "string \<Rightarrow> nat option" where
  "hex4 s =
     (case s of
        a # b # c # d # _ \<Rightarrow>
          do { w \<leftarrow> hex_digit a; x \<leftarrow> hex_digit b; y \<leftarrow> hex_digit c; z \<leftarrow> hex_digit d; Some (((w * 16 + x) * 16 + y) * 16 + z) }
      | _ \<Rightarrow> None)"

definition surrogate :: "nat \<Rightarrow> bool" where
  "surrogate r \<longleftrightarrow> 0xD800 \<le> r \<and> r < 0xE000"

text \<open>A second half that follows the first half of a pair.\<close>

definition second_half :: "nat \<Rightarrow> string \<Rightarrow> nat option" where
  "second_half r s =
     (if take 2 s = [CHR 0x5C, CHR ''u''] then
        (case hex4 (drop 2 s) of
           Some q \<Rightarrow> if r < 0xDC00 \<and> 0xDC00 \<le> q \<and> q < 0xE000 then Some ((r - 0xD800) * 1024 + (q - 0xDC00) + 0x10000) else None
         | None \<Rightarrow> None)
      else None)"

definition escape :: "char \<Rightarrow> char option" where
  "escape c =
     (if c = CHR 0x22 \<or> c = CHR 0x5C \<or> c = CHR ''/'' then Some c
      else if c = CHR ''b'' then Some CHR 0x08
      else if c = CHR ''f'' then Some CHR 0x0C
      else if c = CHR ''n'' then Some CHR 0x0A
      else if c = CHR ''r'' then Some CHR 0x0D
      else if c = CHR ''t'' then Some CHR 0x09
      else None)"

text \<open>Reading a string from behind its opening quote.\<close>

function unquote :: "string \<Rightarrow> (string \<times> string) option" where
  "unquote [] = None"
| "unquote (c # cs) =
     (if c = CHR 0x22 then Some ([], cs)
      else if c = CHR 0x5C then
        (case cs of
           [] \<Rightarrow> None
         | e # ds \<Rightarrow>
             if e = CHR ''u'' then
               (case hex4 ds of
                  None \<Rightarrow> None
                | Some r \<Rightarrow>
                    if surrogate r then
                      (case second_half r (drop 4 ds) of
                         Some q \<Rightarrow> map_option (apfst ((@) (utf8_encode q))) (unquote (drop 10 ds))
                       | None \<Rightarrow> map_option (apfst ((@) utf8_bad)) (unquote (drop 4 ds)))
                    else map_option (apfst ((@) (utf8_encode r))) (unquote (drop 4 ds)))
             else (case escape e of None \<Rightarrow> None | Some x \<Rightarrow> map_option (apfst ((#) x)) (unquote ds)))
      else if (of_char c :: nat) < 0x20 then None
      else if (of_char c :: nat) < 0x80 then map_option (apfst ((#) c)) (unquote cs)
      else if utf8_len (c # cs) = 0 then map_option (apfst ((@) utf8_bad)) (unquote cs)
      else map_option (apfst ((@) (take (utf8_len (c # cs)) (c # cs)))) (unquote (drop (utf8_len (c # cs) - 1) cs)))"
  by pat_completeness auto
termination by (relation "measure length") auto

subsection \<open>Numbers\<close>

definition is_digit :: "char \<Rightarrow> bool" where
  "is_digit c \<longleftrightarrow> CHR ''0'' \<le> c \<and> c \<le> CHR ''9''"

definition scan_digits :: "string \<Rightarrow> (string \<times> string) option" where
  "scan_digits s = (if takeWhile is_digit s = [] then None else Some (takeWhile is_digit s, dropWhile is_digit s))"

definition scan_int :: "string \<Rightarrow> (string \<times> string) option" where
  "scan_int s = (case s of c # cs \<Rightarrow> if c = CHR ''0'' then Some ([c], cs) else scan_digits s | [] \<Rightarrow> None)"

definition scan_frac :: "string \<Rightarrow> (string \<times> string) option" where
  "scan_frac s =
     (case s of c # cs \<Rightarrow> if c = CHR ''.'' then map_option (apfst ((#) c)) (scan_digits cs) else Some ([], s) | [] \<Rightarrow> Some ([], s))"

definition scan_exp :: "string \<Rightarrow> (string \<times> string) option" where
  "scan_exp s =
     (case s of
        c # cs \<Rightarrow>
          if c = CHR ''e'' \<or> c = CHR ''E'' then
            (case cs of
               d # ds \<Rightarrow>
                 if d = CHR ''+'' \<or> d = CHR ''-'' then map_option (apfst (\<lambda>t. c # d # t)) (scan_digits ds)
                 else map_option (apfst ((#) c)) (scan_digits cs)
             | [] \<Rightarrow> None)
          else Some ([], s)
      | [] \<Rightarrow> Some ([], s))"

definition scan_number :: "string \<Rightarrow> (string \<times> string) option" where
  "scan_number s =
     (let (sign, s) = (case s of c # cs \<Rightarrow> if c = CHR ''-'' then ([c], cs) else ([], s) | [] \<Rightarrow> ([], s))
      in do { (i, s) \<leftarrow> scan_int s; (f, s) \<leftarrow> scan_frac s; (e, s) \<leftarrow> scan_exp s; Some (sign @ i @ f @ e, s) })"

subsection \<open>Documents\<close>

datatype json = JNull | JBool bool | JNumber string | JString string | JArray "json list" | JObject "(string \<times> json) list"

fun join_with :: "string list \<Rightarrow> string" where
  "join_with [] = []"
| "join_with [s] = s"
| "join_with (s # ss) = s @ CHR '','' # join_with ss"

fun print_json :: "json \<Rightarrow> string" where
  "print_json JNull = ''null''"
| "print_json (JBool b) = (if b then ''true'' else ''false'')"
| "print_json (JNumber t) = t"
| "print_json (JString s) = quote s"
| "print_json (JArray js) = CHR ''['' # join_with (map print_json js) @ '']''"
| "print_json (JObject kvs) = CHR ''{'' # join_with (map (\<lambda>(k, v). quote k @ CHR '':'' # print_json v) kvs) @ ''}''"

definition is_space :: "char \<Rightarrow> bool" where
  "is_space c \<longleftrightarrow> c = CHR '' '' \<or> c = CHR 0x09 \<or> c = CHR 0x0A \<or> c = CHR 0x0D"

abbreviation skip_space :: "string \<Rightarrow> string" where
  "skip_space \<equiv> dropWhile is_space"

definition scan_literal :: "string \<Rightarrow> (json \<times> string) option" where
  "scan_literal s =
     (if take 4 s = ''true'' then Some (JBool True, drop 4 s)
      else if take 5 s = ''false'' then Some (JBool False, drop 5 s)
      else if take 4 s = ''null'' then Some (JNull, drop 4 s)
      else map_option (apfst JNumber) (scan_number s))"

fun parse_value :: "nat \<Rightarrow> string \<Rightarrow> (json \<times> string) option"
  and parse_elements :: "nat \<Rightarrow> string \<Rightarrow> (json list \<times> string) option"
  and parse_members :: "nat \<Rightarrow> string \<Rightarrow> ((string \<times> json) list \<times> string) option" where
  "parse_value 0 s = None"
| "parse_value (Suc n) s =
     (case skip_space s of
        [] \<Rightarrow> None
      | c # cs \<Rightarrow>
          if c = CHR 0x22 then map_option (apfst JString) (unquote cs)
          else if c = CHR ''['' then
            if take 1 (skip_space cs) = '']'' then Some (JArray [], drop 1 (skip_space cs))
            else map_option (apfst JArray) (parse_elements n cs)
          else if c = CHR ''{'' then
            if take 1 (skip_space cs) = ''}'' then Some (JObject [], drop 1 (skip_space cs))
            else map_option (apfst JObject) (parse_members n cs)
          else scan_literal (c # cs))"
| "parse_elements 0 s = None"
| "parse_elements (Suc n) s =
     do { (v, r) \<leftarrow> parse_value n s;
          case skip_space r of
            [] \<Rightarrow> None
          | c # cs \<Rightarrow>
              if c = CHR '','' then map_option (apfst ((#) v)) (parse_elements n cs)
              else if c = CHR '']'' then Some ([v], cs)
              else None }"
| "parse_members 0 s = None"
| "parse_members (Suc n) s =
     (case skip_space s of
        [] \<Rightarrow> None
      | q # s \<Rightarrow>
          if q \<noteq> CHR 0x22 then None
          else do { (k, r) \<leftarrow> unquote s;
                    case skip_space r of
                      [] \<Rightarrow> None
                    | c # cs \<Rightarrow>
                        if c \<noteq> CHR '':'' then None
                        else do { (v, r) \<leftarrow> parse_value n cs;
                                  case skip_space r of
                                    [] \<Rightarrow> None
                                  | c # cs \<Rightarrow>
                                      if c = CHR '','' then map_option (apfst ((#) (k, v))) (parse_members n cs)
                                      else if c = CHR ''}'' then Some ([(k, v)], cs)
                                      else None } })"

definition parse_json :: "string \<Rightarrow> json option" where
  "parse_json s =
     (case parse_value (2 * length s + 2) s of
        None \<Rightarrow> None
      | Some (v, r) \<Rightarrow> if skip_space r = [] then Some v else None)"

subsection \<open>Documents read into the types of Go\<close>

text \<open>\<^verbatim>\<open>json.Unmarshal\<close> into a fresh variable. A null leaves the variable as it is. Bytes are a string in base 64, or an array
  of numbers. An array of Go takes the elements in front and keeps its own where there are too few. The later of two
  members with the same name counts.\<close>

datatype json_error = JsonSyntax | JsonType | JsonMissing string

definition int_text :: "int \<Rightarrow> string" where
  "int_text i = (if i < 0 then CHR ''-'' # number_text 10 (nat (- i)) else number_text 10 (nat i))"

definition ParseInt :: "string \<Rightarrow> text_error + int" where
  "ParseInt s =
     (case s of
        [] \<Rightarrow> Inl ErrSyntax
      | c # cs \<Rightarrow>
          (let neg = (c = CHR ''-'')
           in case ParseUint (if neg \<or> c = CHR ''+'' then cs else s) 10 of
                Inl e \<Rightarrow> Inl e
              | Inr un \<Rightarrow>
                  if \<not> neg \<and> 2 ^ 63 \<le> unat un \<or> neg \<and> 2 ^ 63 < unat un then Inl ErrRange
                  else Inr (if neg then - int (unat un) else int (unat un))))"

fun json_to_string :: "json \<Rightarrow> json_error + string" where
  "json_to_string (JString s) = Inr s"
| "json_to_string JNull = Inr []"
| "json_to_string _ = Inl JsonType"

fun json_to_int :: "json \<Rightarrow> json_error + int" where
  "json_to_int (JNumber t) = (case ParseInt t of Inl _ \<Rightarrow> Inl JsonType | Inr i \<Rightarrow> Inr i)"
| "json_to_int JNull = Inr 0"
| "json_to_int _ = Inl JsonType"

fun json_to_uint :: "nat \<Rightarrow> json \<Rightarrow> json_error + u64" where
  "json_to_uint bits (JNumber t) =
     (case ParseUint t 10 of Inl _ \<Rightarrow> Inl JsonType | Inr n \<Rightarrow> if 2 ^ bits \<le> unat n then Inl JsonType else Inr n)"
| "json_to_uint bits JNull = Inr 0"
| "json_to_uint bits _ = Inl JsonType"

fun json_all :: "('a \<Rightarrow> 'e + 'b) \<Rightarrow> 'a list \<Rightarrow> 'e + 'b list" where
  "json_all f [] = Inr []"
| "json_all f (x # xs) =
     (case f x of Inl e \<Rightarrow> Inl e | Inr y \<Rightarrow> (case json_all f xs of Inl e \<Rightarrow> Inl e | Inr ys \<Rightarrow> Inr (y # ys)))"

fun json_to_bytes :: "json \<Rightarrow> json_error + bytes" where
  "json_to_bytes (JString s) = (case b64_decode s of None \<Rightarrow> Inl JsonType | Some bs \<Rightarrow> Inr bs)"
| "json_to_bytes (JArray vs) = map_sum id (map (\<lambda>w. word_of_nat (unat w))) (json_all (json_to_uint 8) vs)"
| "json_to_bytes JNull = Inr []"
| "json_to_bytes _ = Inl JsonType"

fun json_to_object :: "json \<Rightarrow> json_error + (string \<rightharpoonup> json)" where
  "json_to_object (JObject kvs) = Inr (map_of (rev kvs))"
| "json_to_object JNull = Inr Map.empty"
| "json_to_object _ = Inl JsonType"

fun json_to_list :: "json \<Rightarrow> json_error + json list" where
  "json_to_list (JArray vs) = Inr vs"
| "json_to_list JNull = Inr []"
| "json_to_list _ = Inl JsonType"

fun json_to_pair :: "(json \<Rightarrow> json_error + 'a) \<Rightarrow> 'a \<Rightarrow> json \<Rightarrow> json_error + 'a \<times> 'a" where
  "json_to_pair f z (JArray vs) =
     (case json_all f (take 2 vs) of
        Inl e \<Rightarrow> Inl e
      | Inr ys \<Rightarrow> Inr (case ys of a # b # _ \<Rightarrow> (a, b) | [a] \<Rightarrow> (a, z) | [] \<Rightarrow> (z, z)))"
| "json_to_pair f z JNull = Inr (z, z)"
| "json_to_pair f z _ = Inl JsonType"

definition unmarshal :: "(json \<Rightarrow> json_error + 'a) \<Rightarrow> string \<Rightarrow> json_error + 'a" where
  "unmarshal f s = (case parse_json s of None \<Rightarrow> Inl JsonSyntax | Some j \<Rightarrow> f j)"

text \<open>Texts as bytes.\<close>

definition string_bytes :: "string \<Rightarrow> bytes" where
  "string_bytes s = map (\<lambda>c. word_of_nat (of_char c)) s"

definition bytes_string :: "bytes \<Rightarrow> string" where
  "bytes_string bs = map (\<lambda>b. char_of (unat b)) bs"

definition json_bytes :: "bytes \<Rightarrow> json" where
  "json_bytes bs = JString (b64_encode bs)"

definition json_int :: "int \<Rightarrow> json" where
  "json_int i = JNumber (int_text i)"

subsection \<open>Hexadecimal and base 64\<close>

lemma hex_digit_char: "d < 16 \<Longrightarrow> hex_digit (digit_char d) = Some d"
  by (simp add: hex_digit_def digit_of_char)

lemma word_unat_eq: "word_of_nat (unat w) = w"
  by simp

lemma word_of_unat_parts: "word_of_nat (16 * (unat b div 16) + unat b mod 16) = (b :: u8)"
  by (simp only: mult_div_mod_eq word_unat_eq)

lemma hex_decode_encode [simp]: "hex_decode (hex_encode bs) = Some bs"
proof (induction bs)
  case (Cons b bs)
  have "unat b div 16 < 16" "unat b mod 16 < 16" using unsigned_less [of b] by (simp_all add: less_mult_imp_div_less)
  then show ?case using Cons word_of_unat_parts [of b] by (simp add: hex_encode_def hex_digit_char del: of_nat_add of_nat_mult)
qed (simp add: hex_encode_def)

lemma b64_alphabet: "length b64_alphabet = 64" "distinct b64_alphabet" "set b64_alphabet \<inter> {CHR ''='', CHR 0x0A, CHR 0x0D} = {}"
  by (simp_all add: b64_alphabet_def)

lemma b64_char:
  assumes "n < 64"
  shows "b64_digit (b64_char n) = Some n" "b64_char n \<noteq> CHR ''=''" "b64_char n \<noteq> CHR 0x0A" "b64_char n \<noteq> CHR 0x0D"
    "b64_char n \<in> set b64_alphabet"
proof -
  show "b64_digit (b64_char n) = Some n"
    unfolding b64_digit_def b64_char_def using assms by (intro index_of_nth) (simp_all add: b64_alphabet)
  show "b64_char n \<in> set b64_alphabet" unfolding b64_char_def using assms by (simp add: b64_alphabet)
  then show "b64_char n \<noteq> CHR ''=''" "b64_char n \<noteq> CHR 0x0A" "b64_char n \<noteq> CHR 0x0D" using b64_alphabet(3) by auto
qed

text \<open>Six bits of a byte and the bits of the next.\<close>

lemma byte_split:
  fixes b :: u8
  assumes "k \<in> {4, 16, 64}"
  shows "unat b div k < 256 div k" "unat b mod k < k" "word_of_nat (unat b div k * k + unat b mod k) = b"
  using assms unsigned_less [of b] by (auto simp: less_mult_imp_div_less simp del: of_nat_add of_nat_mult)

lemma sextet:
  fixes p q :: nat
  assumes "p < m" "q < k" "k * m = 64"
  shows "p * k + q < 64" "(p * k + q) div k = p" "(p * k + q) mod k = q"
  using assms two_digits_lt [of q k p m] by (simp_all add: algebra_simps)

lemmas sextets = sextet [where m = 4 and k = 16, simplified] sextet [where m = 16 and k = 4, simplified]
  byte_split [where k = 4, simplified] byte_split [where k = 16, simplified] byte_split [where k = 64, simplified]

lemma b64_groups_encode: "b64_groups (b64_encode bs) = Some bs"
proof (induction bs rule: b64_encode.induct)
  case (2 a)
  have "unat a mod 4 * 16 < 64" using sextets(1) [of "unat a mod 4" 0] by simp
  then show ?case by (simp add: b64_char sextets(7-9) del: of_nat_add of_nat_mult)
next
  case (3 a b)
  have "unat b mod 16 * 4 < 64" using sextets(4) [of "unat b mod 16" 0] by simp
  then show ?case by (simp add: b64_char sextets del: of_nat_add of_nat_mult)
next
  case (4 a b c bs)
  then show ?case by (simp add: b64_char sextets del: of_nat_add of_nat_mult)
qed simp

lemma b64_encode_plain: "c \<in> set (b64_encode bs) \<Longrightarrow> c \<in> insert (CHR ''='') (set b64_alphabet)"
proof (induction bs rule: b64_encode.induct)
  case (2 a)
  have "unat a mod 4 * 16 < 64" using sextets(1) [of "unat a mod 4" 0] by simp
  then show ?case using 2 by (auto simp: sextets intro!: b64_char(5))
next
  case (3 a b)
  have "unat b mod 16 * 4 < 64" using sextets(4) [of "unat b mod 16" 0] by simp
  then show ?case using 3 by (auto simp: sextets intro!: b64_char(5))
next
  case (4 a b c bs)
  then show ?case by (auto simp: sextets intro!: b64_char(5))
qed simp

lemma b64_decode_encode [simp]: "b64_decode (b64_encode bs) = Some bs"
proof -
  have "filter (\<lambda>c. c \<noteq> CHR 0x0A \<and> c \<noteq> CHR 0x0D) (b64_encode bs) = b64_encode bs"
    using b64_encode_plain b64_alphabet(3) by (intro filter_True) fastforce
  then show ?thesis by (simp add: b64_decode_def b64_groups_encode)
qed

subsection \<open>Strings and numbers\<close>

definition ascii :: "string \<Rightarrow> bool" where
  "ascii s \<longleftrightarrow> (\<forall>c\<in>set s. (of_char c :: nat) < 0x80)"

lemma ascii_simps [simp]: "ascii []" "ascii (c # s) \<longleftrightarrow> (of_char c :: nat) < 0x80 \<and> ascii s" "ascii (s @ t) \<longleftrightarrow> ascii s \<and> ascii t"
  by (auto simp: ascii_def)

lemma unquote_u00:
  assumes "(of_char c :: nat) < 0x80"
  shows "unquote (CHR 0x5C # CHR ''u'' # CHR ''0'' # CHR ''0'' # digit_char (of_char c div 16) # digit_char (of_char c mod 16) # t) =
    map_option (apfst ((#) c)) (unquote t)"
proof -
  have "hex_digit CHR ''0'' = Some 0" by (simp add: hex_digit_def zero_digit)
  then have h: "hex4 (CHR ''0'' # CHR ''0'' # digit_char (of_char c div 16) # digit_char (of_char c mod 16) # t) = Some (of_char c)"
    using assms by (simp add: hex4_def hex_digit_char div_mult_mod_eq)
  moreover have "\<not> surrogate (of_char c)" "utf8_encode (of_char c) = [c]" using assms by (simp_all add: surrogate_def utf8_encode_def)
  moreover have "(@) [c] = (#) c" by auto
  ultimately show ?thesis by (simp add: h)
qed

lemma unquote_quote_ascii: "(of_char c :: nat) < 0x80 \<Longrightarrow> unquote (quote_ascii c @ t) = map_option (apfst ((#) c)) (unquote t)"
  using unquote_u00 [of c t] by (auto simp: quote_ascii_def escape_def)

text \<open>What \<^verbatim>\<open>json.Marshal\<close> writes for a string is read as this string.\<close>

lemma unquote_quote: "ascii s \<Longrightarrow> unquote (quote_chars s @ CHR 0x22 # rest) = Some (s, rest)"
  by (induction s) (simp_all add: unquote_quote_ascii)

text \<open>A number may be followed by anything that does not continue it.\<close>

definition number_ends :: "string \<Rightarrow> bool" where
  "number_ends s \<longleftrightarrow> (case s of [] \<Rightarrow> True | c # _ \<Rightarrow> \<not> is_digit c \<and> c \<notin> set ''.eE'')"

lemma digit_char_is_digit: "d < 10 \<Longrightarrow> is_digit (digit_char d)"
proof -
  have "\<forall>d\<in>set [0..<10]. is_digit (digit_char d)"
    by (simp add: is_digit_def digit_char_def digit_chars_def upt_conv_Cons less_eq_char_def)
  then show "d < 10 \<Longrightarrow> is_digit (digit_char d)" by auto
qed

lemma number_text_digits: "c \<in> set (number_text 10 n) \<Longrightarrow> is_digit c"
  using number_text_value(1) [of 10 n] digit_of_inj_lower digit_char_is_digit by (fastforce simp: valid_text_def)

lemma scan_int_text:
  assumes "number_ends r"
  shows "scan_int (number_text 10 n @ r) = Some (number_text 10 n, r)"
proof (cases "n = 0")
  case False
  have r: "takeWhile is_digit r = []" "dropWhile is_digit r = r" using assms by (cases r; simp add: number_ends_def)+
  have "hd (number_text 10 n) \<noteq> CHR ''0''" using number_text_value(4) [of 10 n] False by (auto simp: zero_digit)
  moreover have "number_text 10 n \<noteq> []" by (rule number_text_value) simp_all
  moreover have "takeWhile is_digit (number_text 10 n @ r) = number_text 10 n" "dropWhile is_digit (number_text 10 n @ r) = r"
    using r number_text_digits by simp_all
  ultimately show ?thesis by (cases "number_text 10 n") (auto simp: scan_int_def scan_digits_def)
qed (simp add: scan_int_def number_text_def)

lemma number_text_Cons: "\<exists>c cs. number_text 10 n = c # cs \<and> is_digit c"
  using number_text_value(3) [of 10 n] number_text_digits [of "hd (number_text 10 n)" n] by (cases "number_text 10 n") auto

lemma is_digit_not:
  assumes "is_digit c \<or> c = CHR ''-''"
  shows "\<not> is_space c" "c \<noteq> CHR 0x22" "c \<noteq> CHR ''[''" "c \<noteq> CHR ''{''" "c \<noteq> CHR '']''" "c \<noteq> CHR ''}''"
    "c \<noteq> CHR ''t''" "c \<noteq> CHR ''f''" "c \<noteq> CHR ''n''"
  using assms by (auto simp: is_digit_def is_space_def less_eq_char_def)

lemma minus_not_digit: "\<not> is_digit CHR ''-''"
  by (simp add: is_digit_def less_eq_char_def)

lemma scan_number_text:
  assumes "number_ends r"
  shows "scan_number (int_text i @ r) = Some (int_text i, r)"
proof -
  have e: "scan_frac r = Some ([], r)" "scan_exp r = Some ([], r)"
    using assms by (cases r; auto simp: scan_frac_def scan_exp_def number_ends_def)+
  have "scan_number (number_text 10 n @ r) = Some (number_text 10 n, r)" for n
  proof -
    obtain c cs where c: "number_text 10 n = c # cs" "is_digit c" using number_text_Cons by blast
    then have "c \<noteq> CHR ''-''" using minus_not_digit by blast
    then show ?thesis using scan_int_text [OF assms, of n] e c(1) by (simp add: scan_number_def)
  qed
  then show ?thesis using scan_int_text [OF assms] e by (auto simp: int_text_def scan_number_def)
qed

lemma int_text_Cons: "\<exists>c cs. int_text i = c # cs \<and> (is_digit c \<or> c = CHR ''-'')"
  using number_text_Cons [of "nat i"] by (cases "i < 0") (auto simp: int_text_def)

subsection \<open>Reading what was written\<close>

text \<open>Documents with ASCII strings and whole numbers.\<close>

fun plain :: "json \<Rightarrow> bool" where
  "plain (JNumber t) \<longleftrightarrow> (\<exists>i. t = int_text i)"
| "plain (JString s) \<longleftrightarrow> ascii s"
| "plain (JArray js) \<longleftrightarrow> (\<forall>j\<in>set js. plain j)"
| "plain (JObject kvs) \<longleftrightarrow> (\<forall>kv\<in>set kvs. ascii (fst kv) \<and> plain (snd kv))"
| "plain _ \<longleftrightarrow> True"

text \<open>A document is read from the front of a text with as much fuel as it has characters.\<close>

definition reads :: "json \<Rightarrow> bool" where
  "reads j \<longleftrightarrow> (\<forall>n r. length (print_json j) \<le> n \<longrightarrow> number_ends r \<longrightarrow> parse_value n (print_json j @ r) = Some (j, r))"

lemma print_json_start:
  assumes "plain j"
  shows "\<exists>c cs. print_json j = c # cs \<and> \<not> is_space c \<and> c \<noteq> CHR '']'' \<and> c \<noteq> CHR ''}''"
proof (cases j)
  case (JNumber t)
  then obtain i where "t = int_text i" using assms by auto
  moreover obtain c cs where "int_text i = c # cs" "is_digit c \<or> c = CHR ''-''" using int_text_Cons by blast
  ultimately show ?thesis using JNumber is_digit_not(1,5,6) [of c] by simp
qed (auto simp: is_space_def quote_def)

lemma reads_number: "reads (JNumber (int_text i))"
proof -
  obtain c cs where c: "int_text i = c # cs" "is_digit c \<or> c = CHR ''-''" using int_text_Cons by blast
  note n = is_digit_not [OF c(2)]
  have p: "parse_value (Suc n) (int_text i @ r) = Some (JNumber (int_text i), r)" if "number_ends r" for n r
    using scan_number_text [OF that, of i] n by (simp add: c(1) scan_literal_def)
  show ?thesis unfolding reads_def
  proof (intro allI impI)
    fix n r
    assume "length (print_json (JNumber (int_text i))) \<le> n" "number_ends r"
    then show "parse_value n (print_json (JNumber (int_text i)) @ r) = Some (JNumber (int_text i), r)"
      using p [of r] c(1) by (cases n) simp_all
  qed
qed

lemma parse_elements_print:
  assumes "\<forall>j\<in>set js. reads j \<and> plain j" "js \<noteq> []" "length (join_with (map print_json js)) < n"
  shows "parse_elements n (join_with (map print_json js) @ CHR '']'' # r) = Some (js, r)"
  using assms
proof (induction js arbitrary: n)
  case (Cons j js)
  then obtain m where n: "n = Suc m" by (cases n) auto
  show ?case
  proof (cases js)
    case Nil
    then have "parse_value m (print_json j @ CHR '']'' # r) = Some (j, CHR '']'' # r)"
      using Cons.prems n by (simp add: reads_def number_ends_def is_digit_def less_eq_char_def)
    then show ?thesis using Nil n by (simp add: is_space_def)
  next
    case (Cons j' js')
    let ?t = "join_with (map print_json js) @ CHR '']'' # r"
    have "parse_value m (print_json j @ CHR '','' # ?t) = Some (j, CHR '','' # ?t)"
      using Cons.prems n Cons by (simp add: reads_def number_ends_def is_digit_def less_eq_char_def)
    moreover have "parse_elements m ?t = Some (js, r)"
      using Cons.IH Cons.prems n Cons by simp
    ultimately show ?thesis using Cons n by (simp add: is_space_def)
  qed
qed simp

lemma quote_unfold: "quote k @ t = CHR 0x22 # (quote_chars k @ CHR 0x22 # t)"
  by (simp add: quote_def)

lemma parse_members_print:
  assumes "\<forall>(k, v)\<in>set kvs. ascii k \<and> reads v" "kvs \<noteq> []"
    "length (join_with (map (\<lambda>(k, v). quote k @ CHR '':'' # print_json v) kvs)) < n"
  shows "parse_members n (join_with (map (\<lambda>(k, v). quote k @ CHR '':'' # print_json v) kvs) @ CHR ''}'' # r) = Some (kvs, r)"
  using assms
proof (induction kvs arbitrary: n)
  case (Cons kv kvs)
  obtain k v where kv: "kv = (k, v)" by fastforce
  obtain m where n: "n = Suc m" using Cons.prems by (cases n) auto
  have k: "unquote (quote_chars k @ CHR 0x22 # t) = Some (k, t)" for t using Cons.prems(1) kv by (simp add: unquote_quote)
  show ?case
  proof (cases kvs)
    case Nil
    then have "parse_value m (print_json v @ CHR ''}'' # r) = Some (v, CHR ''}'' # r)"
      using Cons.prems n kv by (simp add: reads_def number_ends_def is_digit_def less_eq_char_def)
    then show ?thesis using Nil n kv k by (simp add: is_space_def quote_unfold)
  next
    case (Cons kv' kvs')
    let ?t = "join_with (map (\<lambda>(k, v). quote k @ CHR '':'' # print_json v) kvs) @ CHR ''}'' # r"
    have "parse_value m (print_json v @ CHR '','' # ?t) = Some (v, CHR '','' # ?t)"
      using Cons.prems n Cons kv by (simp add: reads_def number_ends_def is_digit_def less_eq_char_def)
    moreover have "parse_members m ?t = Some (kvs, r)"
      using Cons.IH Cons.prems n Cons kv by simp
    ultimately show ?thesis using Cons n kv k by (simp add: is_space_def quote_unfold)
  qed
qed simp

lemma readsI: "(\<And>n r. length (print_json j) \<le> Suc n \<Longrightarrow> parse_value (Suc n) (print_json j @ r) = Some (j, r)) \<Longrightarrow>
    print_json j \<noteq> [] \<Longrightarrow> reads j"
  unfolding reads_def by (metis Suc_le_D length_greater_0_conv less_eq_Suc_le not0_implies_Suc not_less_eq_eq)

lemma join_with_start:
  assumes "ts \<noteq> []" "\<exists>c cs. hd ts = c # cs \<and> P c"
  shows "\<exists>c cs. join_with ts = c # cs \<and> P c"
  using assms by (cases ts rule: join_with.cases) auto

lemma plain_reads: "plain j \<Longrightarrow> reads j"
proof (induction j)
  case (JNumber t)
  then show ?case using reads_number by auto
next
  case (JString s)
  then show ?case by (intro readsI) (simp_all add: quote_unfold is_space_def unquote_quote, simp add: quote_def)
next
  case (JArray js)
  show ?case
  proof (rule readsI)
    fix n r assume n: "length (print_json (JArray js)) \<le> Suc n"
    show "parse_value (Suc n) (print_json (JArray js) @ r) = Some (JArray js, r)"
    proof (cases "js = []")
      case False
      then have "plain (hd js)" using JArray.prems by simp
      then obtain c cs where c: "join_with (map print_json js) = c # cs" "\<not> is_space c \<and> c \<noteq> CHR '']''"
        using join_with_start [of "map print_json js" "\<lambda>c. \<not> is_space c \<and> c \<noteq> CHR '']''"] print_json_start [of "hd js"] False
        by (auto simp: hd_map)
      have "parse_elements n (join_with (map print_json js) @ CHR '']'' # r) = Some (js, r)"
        using JArray False n by (intro parse_elements_print) simp_all
      then show ?thesis using c by (simp add: is_space_def)
    qed (simp add: is_space_def)
  qed simp
next
  case (JObject kvs)
  show ?case
  proof (rule readsI)
    fix n r assume n: "length (print_json (JObject kvs)) \<le> Suc n"
    let ?p = "\<lambda>(k, v). quote k @ CHR '':'' # print_json v"
    show "parse_value (Suc n) (print_json (JObject kvs) @ r) = Some (JObject kvs, r)"
    proof (cases "kvs = []")
      case False
      then have "\<exists>c cs. hd (map ?p kvs) = c # cs \<and> c = CHR 0x22" by (cases "hd kvs") (simp add: hd_map quote_def)
      then obtain c cs where c: "join_with (map ?p kvs) = c # cs" "c = CHR 0x22"
        using join_with_start [of "map ?p kvs" "\<lambda>c. c = CHR 0x22"] False by blast
      have "parse_members n (join_with (map ?p kvs) @ CHR ''}'' # r) = Some (kvs, r)"
        using JObject False n by (intro parse_members_print) (auto simp: prod_set_defs)
      then show ?thesis using c by (simp add: is_space_def)
    qed (simp add: is_space_def)
  qed simp
qed (auto intro!: readsI simp: is_space_def scan_literal_def split: if_splits)

text \<open>Reading what \<^verbatim>\<open>json.Marshal\<close> wrote.\<close>

lemma parse_print_json:
  assumes "plain j"
  shows "parse_json (print_json j) = Some j"
proof -
  have "parse_value (2 * length (print_json j) + 2) (print_json j @ []) = Some (j, [])"
    using plain_reads [OF assms, unfolded reads_def, THEN spec, THEN spec, of "2 * length (print_json j) + 2" "[]"]
    by (simp add: number_ends_def del: parse_value.simps)
  then show ?thesis by (simp add: parse_json_def del: parse_value.simps)
qed

subsection \<open>Enough fuel\<close>

lemma unquote_shrinks: "unquote s = Some (t, r) \<Longrightarrow> length r < length s"
proof (induction s arbitrary: t r rule: unquote.induct)
  case (2 c cs)
  then show ?case
    by (auto simp del: unquote.simps(2) simp add: unquote.simps(2) [of c cs] split: if_splits option.splits list.splits) fastforce+
qed simp

lemma scan_digits_shrinks: "scan_digits s = Some (t, r) \<Longrightarrow> length r \<le> length s"
  by (auto simp: scan_digits_def length_dropWhile_le split: if_splits)

lemma scan_number_shrinks:
  assumes "scan_number s = Some (t, r)"
  shows "length r \<le> length s"
proof -
  have "length r \<le> length s" if "scan_int s = Some (t, r)" for s t r
    using that by (auto simp: scan_int_def dest: scan_digits_shrinks split: list.splits if_splits)
  moreover have "length r \<le> length s" if "scan_frac s = Some (t, r)" for s t r
    using that scan_digits_shrinks by (fastforce simp: scan_frac_def split: list.splits if_splits)
  moreover have "length r \<le> length s" if "scan_exp s = Some (t, r)" for s t r
    using that scan_digits_shrinks by (fastforce simp: scan_exp_def split: list.splits if_splits)
  ultimately show ?thesis using assms
    by (fastforce simp: scan_number_def Let_def split: list.splits if_splits prod.splits option.splits elim!: bind_eq_Some_conv [THEN iffD1, elim_format])
qed

lemma skip_space_shrinks: "skip_space s = c # cs \<Longrightarrow> length cs < length s"
  using length_dropWhile_le [of is_space s] by simp

lemma scan_literal_shrinks: "scan_literal s = Some (v, r) \<Longrightarrow> length r \<le> length s"
  by (auto simp: scan_literal_def dest: scan_number_shrinks split: if_splits)

lemma parse_shrinks:
  "parse_value n s = Some (v, r) \<Longrightarrow> length r \<le> length s"
  "parse_elements n s = Some (vs, r) \<Longrightarrow> length r \<le> length s"
  "parse_members n s = Some (ms, r) \<Longrightarrow> length r \<le> length s"
proof (induction n s and n s and n s arbitrary: v r and vs r and ms r rule: parse_value_parse_elements_parse_members.induct)
  case (2 n s)
  then obtain c cs where c: "skip_space s = c # cs" by (auto split: list.splits)
  note lt = skip_space_shrinks [OF c]
  have sp: "length (drop 1 (skip_space cs)) < length s" using lt length_dropWhile_le [of is_space cs] by simp
  show ?case
    using "2.prems" c lt sp "2.IH" [OF c] length_dropWhile_le [of is_space s]
    by (auto split: if_splits dest: unquote_shrinks scan_literal_shrinks)
next
  case (4 n s)
  then obtain v' r' where v1: "parse_value n s = Some (v', r')" by (auto simp: bind_eq_Some_conv)
  then obtain c cs where v: "parse_value n s = Some (v', r')" "skip_space r' = c # cs"
    using "4.prems" by (cases "skip_space r'") simp_all
  have "length r' \<le> length s" "length cs < length r'" using "4.IH"(1) [OF v(1)] skip_space_shrinks [OF v(2)] by simp_all
  then show ?case using "4.prems" v "4.IH"(2) [OF v(1) _ v(2)] by (fastforce split: if_splits)
next
  case (6 n s)
  then obtain q s1 where q: "skip_space s = q # s1" "q = CHR 0x22" by (auto split: list.splits if_splits)
  then obtain k r1 where k1: "unquote s1 = Some (k, r1)" using "6.prems" by (auto simp: bind_eq_Some_conv)
  then obtain c cs where k: "unquote s1 = Some (k, r1)" "skip_space r1 = c # cs" "c = CHR '':''"
    using "6.prems" q by (cases "skip_space r1") (auto split: if_splits)
  then obtain v' r' where v1: "parse_value n cs = Some (v', r')" using "6.prems" q by (auto simp: bind_eq_Some_conv)
  then obtain c' cs' where v: "parse_value n cs = Some (v', r')" "skip_space r' = c' # cs'"
    using "6.prems" q k by (cases "skip_space r'") simp_all
  have "length r' \<le> length cs" using "6.IH"(1) q k v(1) by simp
  then have "length cs' < length s"
    using skip_space_shrinks [OF q(1)] skip_space_shrinks [OF k(2)] skip_space_shrinks [OF v(2)] unquote_shrinks [OF k(1)] by linarith
  then show ?case using "6.prems" q k v "6.IH"(2) by (fastforce split: if_splits)
qed simp_all

text \<open>Twice the length of the text is enough: more fuel does not change the result.\<close>

lemma parse_fuel:
  "(2 * length s + 1 \<le> n \<longrightarrow> 2 * length s + 1 \<le> m \<longrightarrow> parse_value n s = parse_value m s) \<and>
   (2 * length s + 2 \<le> n \<longrightarrow> 2 * length s + 2 \<le> m \<longrightarrow>
      parse_elements n s = parse_elements m s \<and> parse_members n s = parse_members m s)"
proof (induction "length s" arbitrary: s n m rule: less_induct)
  case less
  have V: "parse_value n s = parse_value m s" if "2 * length s + 1 \<le> n" "2 * length s + 1 \<le> m" for n m
  proof -
    define n' m' where "n' = n - 1" and "m' = m - 1"
    then have nm: "n = Suc n'" "m = Suc m'" using that by simp_all
    show ?thesis
    proof (cases "skip_space s")
      case (Cons c cs)
      have "2 * length cs + 2 \<le> n'" "2 * length cs + 2 \<le> m'" using skip_space_shrinks [OF Cons] that nm by simp_all
      then show ?thesis using less.hyps [OF skip_space_shrinks [OF Cons], of n' m'] nm Cons by simp
    qed (simp add: nm del: dropWhile_eq_Nil_conv)
  qed
  moreover have "parse_elements n s = parse_elements m s" if nm: "2 * length s + 2 \<le> n" "2 * length s + 2 \<le> m"
  proof -
    define n' m' where "n' = n - 1" and "m' = m - 1"
    then have nm': "n = Suc n'" "m = Suc m'" using nm by simp_all
    have v: "parse_value n' s = parse_value m' s" using V [of n' m'] nm nm' by simp
    have e: "parse_elements n' cs = parse_elements m' cs" if "parse_value m' s = Some (v, r)" "skip_space r = c # cs" for v r c cs
    proof -
      have *: "length cs < length s" using parse_shrinks(1) [OF that(1)] skip_space_shrinks [OF that(2)] by simp
      then show ?thesis using less.hyps [OF *, of n' m'] nm nm' by simp
    qed
    show ?thesis unfolding nm' parse_elements.simps v
      by (intro list.case_cong if_cong Option.bind_cong prod.case_cong refl) (auto simp: e)
  qed
  moreover have "parse_members n s = parse_members m s" if nm: "2 * length s + 2 \<le> n" "2 * length s + 2 \<le> m"
  proof -
    define n' m' where "n' = n - 1" and "m' = m - 1"
    then have nm': "n = Suc n'" "m = Suc m'" using nm by simp_all
    have v: "parse_value n' cs = parse_value m' cs"
      if "skip_space s = q # s1" "unquote s1 = Some (k, r1)" "skip_space r1 = c # cs" for q s1 k r1 c cs
    proof -
      have *: "length cs < length s" using skip_space_shrinks [OF that(1)] skip_space_shrinks [OF that(3)] unquote_shrinks [OF that(2)] by linarith
      then show ?thesis using less.hyps [OF *, of n' m'] nm nm' by simp
    qed
    have "parse_members n' cs' = parse_members m' cs'"
      if "skip_space s = q # s1" "unquote s1 = Some (k, r1)" "skip_space r1 = c # cs" "parse_value m' cs = Some (v, r)" "skip_space r = c' # cs'"
      for q s1 k r1 c cs v r c' cs'
    proof -
      have *: "length cs' < length s" using skip_space_shrinks [OF that(1)] skip_space_shrinks [OF that(3)] unquote_shrinks [OF that(2)]
        parse_shrinks(1) [OF that(4)] skip_space_shrinks [OF that(5)] by linarith
      then show ?thesis using less.hyps [OF *, of n' m'] nm nm' by simp
    qed
    then show ?thesis unfolding nm' parse_members.simps
      by (intro list.case_cong if_cong Option.bind_cong prod.case_cong refl) (auto simp: v)
  qed
  ultimately show ?case by blast
qed

lemma parse_json_fuel: "2 * length s + 2 \<le> n \<Longrightarrow>
    parse_json s = (case parse_value n s of None \<Rightarrow> None | Some (v, r) \<Rightarrow> if skip_space r = [] then Some v else None)"
  using parse_fuel [of s "2 * length s + 2" n] by (simp add: parse_json_def del: parse_value.simps)

subsection \<open>Values read back\<close>

lemma ascii_b64: "ascii (b64_encode bs)"
proof -
  have "ascii b64_alphabet" by (simp add: b64_alphabet_def)
  then show ?thesis using b64_encode_plain by (fastforce simp: ascii_def)
qed

lemma ascii_hex: "ascii (hex_encode bs)"
proof -
  have "ascii digit_chars" "length digit_chars = 36" by (simp_all add: digit_chars_def)
  then have "(of_char (digit_char d) :: nat) < 0x80" if "d < 36" for d using that by (simp add: ascii_def digit_char_def)
  moreover have "unat b div 16 < 36" "unat b mod 16 < 36" for b :: u8
    using byte_split(1,2) [of 16 b] by simp_all
  ultimately show ?thesis by (auto simp: ascii_def hex_encode_def)
qed

lemma plain_json [simp]: "plain (json_bytes bs)" "plain (json_int i)"
  by (auto simp: json_bytes_def json_int_def ascii_b64)

lemma json_to_bytes_json [simp]: "json_to_bytes (json_bytes bs) = Inr bs"
  by (simp add: json_bytes_def)

lemma ParseUint_number: "n < 2 ^ 64 \<Longrightarrow> \<exists>w. ParseUint (number_text 10 n) 10 = Inr w \<and> unat w = n"
proof -
  assume n: "n < 2 ^ 64"
  have "parse_loop 10 0 (number_text 10 n) = Inr n"
    using parse_loop_value [of 10 "number_text 10 n" 0] number_text_value(1,2) [of 10 n] n by simp
  then show ?thesis using number_text_value(3) [of 10 n] n by (simp add: ParseUint_def unat_of_nat)
qed

lemma ParseInt_text:
  assumes "- (2 ^ 63) \<le> i" "i < 2 ^ 63"
  shows "ParseInt (int_text i) = Inr i"
proof (cases "i < 0")
  case True
  have "nat (- i) < 2 ^ 64" using assms by simp
  then obtain w where "ParseUint (number_text 10 (nat (- i))) 10 = Inr w" "unat w = nat (- i)"
    using ParseUint_number by blast
  then show ?thesis using assms True by (simp add: ParseInt_def int_text_def)
next
  case False
  obtain c cs where c: "number_text 10 (nat i) = c # cs" "is_digit c" using number_text_Cons by blast
  have n: "c \<noteq> CHR ''-''" "c \<noteq> CHR ''+''" using c(2) by (auto simp: is_digit_def less_eq_char_def)
  have "nat i < 2 ^ 64" using assms by simp
  then obtain w where "ParseUint (number_text 10 (nat i)) 10 = Inr w" "unat w = nat i"
    using ParseUint_number by blast
  then show ?thesis using assms False n c(1) by (simp add: ParseInt_def int_text_def)
qed

lemma json_to_int_json: "- (2 ^ 63) \<le> i \<Longrightarrow> i < 2 ^ 63 \<Longrightarrow> json_to_int (json_int i) = Inr i"
  by (simp add: json_int_def ParseInt_text)

lemma json_to_uint_json: "json_to_uint 64 (json_int (uint w)) = Inr w"
proof -
  have "unat w < 2 ^ 64" using unsigned_less [of w] by simp
  moreover from this obtain v where "ParseUint (number_text 10 (unat w)) 10 = Inr v" "unat v = unat w" using ParseUint_number by blast
  moreover from this have "v = w" by (simp add: word_unat_eq_iff)
  ultimately show ?thesis by (simp add: json_int_def int_text_def)
qed

lemma unmarshal_print [simp]: "plain j \<Longrightarrow> unmarshal f (print_json j) = f j"
  by (simp add: unmarshal_def parse_print_json)

lemma json_all_map: "(\<And>x. x \<in> set xs \<Longrightarrow> f (g x) = Inr x) \<Longrightarrow> json_all f (map g xs) = Inr xs"
  by (induction xs) auto

lemma bytes_string_bytes [simp]: "bytes_string (string_bytes s) = s"
proof -
  have "char_of (unat (word_of_nat (of_char c) :: u8)) = c" for c :: char
    using nat_of_char_less_256 [of c] by (simp add: unat_of_nat)
  then show ?thesis by (simp add: bytes_string_def string_bytes_def comp_def)
qed

lemma unmarshal_null: "unmarshal f ''null'' = f JNull"
  using unmarshal_print [of JNull f] by simp

declare print_json.simps [simp del]

end
