(* ===== verification/Order.thy ===== *)
theory Order
  imports Shamir Json
begin

unbundle bit_operations_syntax

section \<open>Orders and their fragments: \<^verbatim>\<open>order\<close>\<close>

text \<open>
  \<^verbatim>\<open>order.go\<close>, \<^verbatim>\<open>value.go\<close> and \<^verbatim>\<open>fragment.go\<close>: the data of an order, its token
  pairs, its serialisation and identifier, its fragments (one Shamir share per secret field), and the
  encryption of fragments. The forms in JSON are in \<open>Order_Json\<close>; files are not modelled.

  A \<^verbatim>\<open>time.Time\<close> is a number of nanoseconds since the Unix epoch. The \<^verbatim>\<open>int8\<close>
  enumerations are bytes: the code only compares and serialises them. Keccak256 is the parameter
  \<open>keccak\<close>, RSA the parameters \<open>enc\<close> and \<open>dec\<close>.
\<close>

type_synonym order_id = bytes
type_synonym fragment_id = bytes
type_synonym time = int
type_synonym token = u32
type_synonym tokens = u64
type_synonym parity = u8
type_synonym settlement = u32
type_synonym keccak = "bytes \<Rightarrow> bytes"

text \<open>The short identifiers the code prints.\<close>

definition ID_String :: "order_id \<Rightarrow> string" where
  "ID_String i = take 4 (b64_encode i)"

definition FragmentID_String :: "fragment_id \<Rightarrow> string" where
  "FragmentID_String i = b64_encode (take 8 i)"

subsection \<open>Tokens, parities, settlements, statuses\<close>

definition TokenBTC :: token where "TokenBTC = 0"
definition TokenETH :: token where "TokenETH = 1"
definition TokenDGX :: token where "TokenDGX = 256"
definition TokenREN :: token where "TokenREN = 65536"
definition TokenABC :: token where "TokenABC = 65537"
definition TokenXYZ :: token where "TokenXYZ = 65538"

definition Token_String :: "token \<Rightarrow> string" where
  "Token_String t =
     (if t = TokenBTC then ''BTC'' else if t = TokenETH then ''ETH'' else if t = TokenDGX then ''DGX''
      else if t = TokenREN then ''REN'' else if t = TokenABC then ''ABC'' else if t = TokenXYZ then ''XYZ''
      else ''unexpected token'')"

definition tokens_of :: "token \<Rightarrow> token \<Rightarrow> tokens" where
  "tokens_of a b = push_bit 32 (ucast a) OR ucast b"

definition TokensBTCETH :: tokens where "TokensBTCETH = tokens_of TokenBTC TokenETH"
definition TokensBTCDGX :: tokens where "TokensBTCDGX = tokens_of TokenBTC TokenDGX"
definition TokensBTCREN :: tokens where "TokensBTCREN = tokens_of TokenBTC TokenREN"
definition TokensETHDGX :: tokens where "TokensETHDGX = tokens_of TokenETH TokenDGX"
definition TokensETHREN :: tokens where "TokensETHREN = tokens_of TokenETH TokenREN"
definition TokensETHABC :: tokens where "TokensETHABC = tokens_of TokenETH TokenABC"
definition TokensETHXYZ :: tokens where "TokensETHXYZ = tokens_of TokenETH TokenXYZ"
definition TokensDGXREN :: tokens where "TokensDGXREN = tokens_of TokenDGX TokenREN"
definition TokensDGXABC :: tokens where "TokensDGXABC = tokens_of TokenDGX TokenABC"
definition TokensDGXXYZ :: tokens where "TokensDGXXYZ = tokens_of TokenDGX TokenXYZ"

definition PriorityToken :: "tokens \<Rightarrow> token" where
  "PriorityToken tokens = ucast (tokens AND 0x00000000FFFFFFFF)"

definition NonPriorityToken :: "tokens \<Rightarrow> token" where
  "NonPriorityToken tokens = ucast (drop_bit 32 tokens)"

definition Tokens_String :: "tokens \<Rightarrow> string" where
  "Tokens_String t =
     (if t = TokensBTCETH then ''BTC-ETH'' else if t = TokensBTCDGX then ''BTC-DGX''
      else if t = TokensBTCREN then ''BTC-REN'' else if t = TokensETHDGX then ''ETH-DGX''
      else if t = TokensETHREN then ''ETH-REN'' else if t = TokensDGXREN then ''DGX-REN''
      else ''unexpected tokens'')"

definition TypeMidpoint :: u8 where "TypeMidpoint = 0"
definition TypeLimit :: u8 where "TypeLimit = 1"

definition ParityBuy :: parity where "ParityBuy = 0"
definition ParitySell :: parity where "ParitySell = 1"

definition Parity_String :: "parity \<Rightarrow> string" where
  "Parity_String p = (if p = ParityBuy then ''buy'' else if p = ParitySell then ''sell'' else ''unexpected parity'')"

definition SettlementNil :: settlement where "SettlementNil = 0"
definition SettlementRenEx :: settlement where "SettlementRenEx = 1"
definition SettlementRenExAtomic :: settlement where "SettlementRenExAtomic = 2"

definition Settlement_String :: "settlement \<Rightarrow> string" where
  "Settlement_String s =
     (if s = SettlementRenEx then ''RenEx'' else if s = SettlementRenExAtomic then ''RenEx Atomic''
      else ''unexpected order settlement'')"

type_synonym status = u8

definition StatusNil :: status where "StatusNil = 0"
definition StatusOpen :: status where "StatusOpen = 1"
definition StatusConfirmed :: status where "StatusConfirmed = 2"
definition StatusCanceled :: status where "StatusCanceled = 3"

definition Status_String :: "status \<Rightarrow> string" where
  "Status_String s =
     (if s = StatusNil then ''nil'' else if s = StatusOpen then ''open''
      else if s = StatusConfirmed then ''confirmed'' else if s = StatusCanceled then ''canceled''
      else ''unexpected order status'')"

subsection \<open>Values\<close>

record coexp =
  Co :: u64
  Expn :: u64

record coexp_share =
  ShCo :: share
  ShExp :: share

record enc_coexp_share =
  EncCo :: bytes
  EncExp :: bytes

definition NewCoExp :: "u64 \<Rightarrow> u64 \<Rightarrow> coexp" where
  "NewCoExp co exp = \<lparr>Co = co, Expn = exp\<rparr>"

definition CoExp_MarshalBinary :: "coexp \<Rightarrow> bytes" where
  "CoExp_MarshalBinary val = be_enc 8 (unat (Co val)) @ be_enc 8 (unat (Expn val))"

definition CoExpShare_Equal :: "coexp_share \<Rightarrow> coexp_share \<Rightarrow> bool" where
  "CoExpShare_Equal val other \<longleftrightarrow> Share_Equal (ShCo val) (ShCo other) \<and> Share_Equal (ShExp val) (ShExp other)"

definition CoExpShare_MarshalBinary :: "coexp_share \<Rightarrow> bytes" where
  "CoExpShare_MarshalBinary val =
     be_enc 8 (unat (Index (ShCo val))) @ be_enc 8 (unat (Value (ShCo val))) @
     be_enc 8 (unat (Index (ShExp val))) @ be_enc 8 (unat (Value (ShExp val)))"

definition CoExpShare_Encrypt ::
    "('pub \<Rightarrow> bytes \<Rightarrow> 'e + bytes) \<Rightarrow> coexp_share \<Rightarrow> 'pub \<Rightarrow> 'e + enc_coexp_share" where
  "CoExpShare_Encrypt enc val pubKey =
     ebind (Share_Encrypt enc (ShCo val) pubKey) (\<lambda>co.
     ebind (Share_Encrypt enc (ShExp val) pubKey) (\<lambda>exp.
     Inr \<lparr>EncCo = co, EncExp = exp\<rparr>))"

definition EncryptedCoExpShare_Equal :: "enc_coexp_share \<Rightarrow> enc_coexp_share \<Rightarrow> bool" where
  "EncryptedCoExpShare_Equal val other \<longleftrightarrow> EncCo val = EncCo other \<and> EncExp val = EncExp other"

definition EncryptedCoExpShare_MarshalBinary :: "enc_coexp_share \<Rightarrow> bytes" where
  "EncryptedCoExpShare_MarshalBinary val = EncCo val @ EncExp val"

definition EncryptedCoExpShare_Decrypt ::
    "('priv \<Rightarrow> bytes \<Rightarrow> 'e + bytes) \<Rightarrow> enc_coexp_share \<Rightarrow> 'priv \<Rightarrow> ('e + shamir_error) + coexp_share" where
  "EncryptedCoExpShare_Decrypt dec val privKey =
     ebind (Share_Decrypt dec privKey (EncCo val)) (\<lambda>co.
     ebind (Share_Decrypt dec privKey (EncExp val)) (\<lambda>exp.
     Inr \<lparr>ShCo = co, ShExp = exp\<rparr>))"

subsection \<open>Fragments\<close>

record fragment =
  OrderID :: order_id
  OrderType :: u8
  OrderParity :: parity
  OrderSettlement :: settlement
  OrderExpiry :: time
  FragID :: fragment_id
  EpochDepth :: u32
  FTokens :: share
  FPrice :: coexp_share
  FVolume :: coexp_share
  FMinimumVolume :: coexp_share
  FNonce :: share

record enc_fragment =
  EOrderID :: order_id
  EOrderType :: u8
  EOrderParity :: parity
  EOrderSettlement :: settlement
  EOrderExpiry :: time
  EFragID :: fragment_id
  EEpochDepth :: u32
  ETokens :: bytes
  EPrice :: enc_coexp_share
  EVolume :: enc_coexp_share
  EMinimumVolume :: enc_coexp_share
  ENonce :: bytes

text \<open>\<^verbatim>\<open>time.Time.Unix\<close>, an \<^verbatim>\<open>int64\<close>, and \<^verbatim>\<open>copy(hash32[:], hash)\<close>.\<close>

definition Unix :: "time \<Rightarrow> u64" where
  "Unix t = word_of_int (t div 1000000000)"

definition copy32 :: "bytes \<Rightarrow> bytes" where
  "copy32 h = take 32 h @ replicate (32 - length h) 0"

definition Fragment_Bytes :: "fragment \<Rightarrow> bytes" where
  "Fragment_Bytes f =
     be_enc 1 (unat (OrderType f)) @ OrderID f @ be_enc 1 (unat (OrderParity f)) @
     be_enc 4 (unat (OrderSettlement f)) @ be_enc 8 (unat (Unix (OrderExpiry f))) @
     Share_MarshalBinary (FTokens f) @ CoExpShare_MarshalBinary (FPrice f) @
     CoExpShare_MarshalBinary (FVolume f) @ CoExpShare_MarshalBinary (FMinimumVolume f) @
     Share_MarshalBinary (FNonce f)"

definition Fragment_Hash :: "keccak \<Rightarrow> fragment \<Rightarrow> bytes" where
  "Fragment_Hash keccak f = copy32 (keccak (Fragment_Bytes f))"

definition NewFragment ::
    "keccak \<Rightarrow> order_id \<Rightarrow> u8 \<Rightarrow> parity \<Rightarrow> settlement \<Rightarrow> time \<Rightarrow> share \<Rightarrow> coexp_share \<Rightarrow> coexp_share \<Rightarrow>
     coexp_share \<Rightarrow> share \<Rightarrow> fragment" where
  "NewFragment keccak orderID ty parity settlement expiry tokens price volume minimumVolume nonce =
     (let f = \<lparr>OrderID = orderID, OrderType = ty, OrderParity = parity, OrderSettlement = settlement,
               OrderExpiry = expiry, FragID = replicate 32 0, EpochDepth = 0, FTokens = tokens,
               FPrice = price, FVolume = volume, FMinimumVolume = minimumVolume, FNonce = nonce\<rparr>
      in f\<lparr>FragID := Fragment_Hash keccak f\<rparr>)"

definition Fragment_Equal :: "fragment \<Rightarrow> fragment \<Rightarrow> bool" where
  "Fragment_Equal f g \<longleftrightarrow>
     OrderID f = OrderID g \<and> OrderType f = OrderType g \<and> OrderParity f = OrderParity g \<and>
     OrderExpiry f = OrderExpiry g \<and> FragID f = FragID g \<and>
     Share_Equal (FTokens f) (FTokens g) \<and> CoExpShare_Equal (FPrice f) (FPrice g) \<and>
     CoExpShare_Equal (FVolume f) (FVolume g) \<and> CoExpShare_Equal (FMinimumVolume f) (FMinimumVolume g) \<and>
     Share_Equal (FNonce f) (FNonce g)"

definition Fragment_Encrypt ::
    "('pub \<Rightarrow> bytes \<Rightarrow> 'e + bytes) \<Rightarrow> fragment \<Rightarrow> 'pub \<Rightarrow> 'e + enc_fragment" where
  "Fragment_Encrypt enc f pubKey =
     ebind (Share_Encrypt enc (FTokens f) pubKey) (\<lambda>tokens.
     ebind (CoExpShare_Encrypt enc (FPrice f) pubKey) (\<lambda>price.
     ebind (CoExpShare_Encrypt enc (FVolume f) pubKey) (\<lambda>volume.
     ebind (CoExpShare_Encrypt enc (FMinimumVolume f) pubKey) (\<lambda>minimumVolume.
     ebind (Share_Encrypt enc (FNonce f) pubKey) (\<lambda>nonce.
     Inr \<lparr>EOrderID = OrderID f, EOrderType = OrderType f, EOrderParity = OrderParity f,
          EOrderSettlement = OrderSettlement f, EOrderExpiry = OrderExpiry f, EFragID = FragID f,
          EEpochDepth = EpochDepth f, ETokens = tokens, EPrice = price, EVolume = volume,
          EMinimumVolume = minimumVolume, ENonce = nonce\<rparr>)))))"

definition EncryptedFragment_Decrypt ::
    "('priv \<Rightarrow> bytes \<Rightarrow> 'e + bytes) \<Rightarrow> enc_fragment \<Rightarrow> 'priv \<Rightarrow> ('e + shamir_error) + fragment" where
  "EncryptedFragment_Decrypt dec f privKey =
     ebind (Share_Decrypt dec privKey (ETokens f)) (\<lambda>tokens.
     ebind (EncryptedCoExpShare_Decrypt dec (EPrice f) privKey) (\<lambda>price.
     ebind (EncryptedCoExpShare_Decrypt dec (EVolume f) privKey) (\<lambda>volume.
     ebind (EncryptedCoExpShare_Decrypt dec (EMinimumVolume f) privKey) (\<lambda>minimumVolume.
     ebind (Share_Decrypt dec privKey (ENonce f)) (\<lambda>nonce.
     Inr \<lparr>OrderID = EOrderID f, OrderType = EOrderType f, OrderParity = EOrderParity f,
          OrderSettlement = EOrderSettlement f, OrderExpiry = EOrderExpiry f, FragID = EFragID f,
          EpochDepth = EEpochDepth f, FTokens = tokens, FPrice = price, FVolume = volume,
          FMinimumVolume = minimumVolume, FNonce = nonce\<rparr>)))))"

subsection \<open>Orders\<close>

record order =
  Signature :: bytes
  ID :: order_id
  Type :: u8
  Parity :: parity
  Settlement :: settlement
  Expiry :: time
  Tokens :: tokens
  Price :: coexp
  Volume :: coexp
  MinimumVolume :: coexp
  Nonce :: u64

definition BytesFromNonce :: "keccak \<Rightarrow> order \<Rightarrow> bytes" where
  "BytesFromNonce keccak ord = keccak (be_enc 8 (unat (Nonce ord)))"

definition Order_Bytes :: "keccak \<Rightarrow> order \<Rightarrow> bytes" where
  "Order_Bytes keccak ord =
     be_enc 1 (unat (Type ord)) @ be_enc 1 (unat (Parity ord)) @ be_enc 4 (unat (Settlement ord)) @
     be_enc 8 (unat (Unix (Expiry ord))) @ be_enc 8 (unat (Tokens ord)) @
     CoExp_MarshalBinary (Price ord) @ CoExp_MarshalBinary (Volume ord) @
     CoExp_MarshalBinary (MinimumVolume ord) @ BytesFromNonce keccak ord"

definition Order_Hash :: "keccak \<Rightarrow> order \<Rightarrow> bytes" where
  "Order_Hash keccak ord = copy32 (keccak (Order_Bytes keccak ord))"

definition NewOrder ::
    "keccak \<Rightarrow> u8 \<Rightarrow> parity \<Rightarrow> settlement \<Rightarrow> time \<Rightarrow> tokens \<Rightarrow> coexp \<Rightarrow> coexp \<Rightarrow> coexp \<Rightarrow> u64 \<Rightarrow> order" where
  "NewOrder keccak ty parity settlement expiry tokens price volume minimumVolume nonce =
     (let ord = \<lparr>Signature = replicate 65 0, ID = replicate 32 0, Type = ty, Parity = parity,
                 Settlement = settlement, Expiry = expiry, Tokens = tokens, Price = price,
                 Volume = volume, MinimumVolume = minimumVolume, Nonce = nonce mod Prime\<rparr>
      in ord\<lparr>ID := Order_Hash keccak ord\<rparr>)"

definition Order_Equal :: "order \<Rightarrow> order \<Rightarrow> bool" where
  "Order_Equal ord other \<longleftrightarrow>
     ID ord = ID other \<and> Type ord = Type other \<and> Parity ord = Parity other \<and>
     Settlement ord = Settlement other \<and> Expiry ord = Expiry other \<and> Tokens ord = Tokens other \<and>
     Price ord = Price other \<and> Volume ord = Volume other \<and> MinimumVolume ord = MinimumVolume other \<and>
     Nonce ord = Nonce other"

text \<open>\<^verbatim>\<open>Split\<close> shares the eight secret fields one after the other, each call consuming
  random values, and returns at the first error.\<close>

definition split_then ::
    "int \<Rightarrow> int \<Rightarrow> u64 \<Rightarrow> (share list \<Rightarrow> u64 list \<Rightarrow> ((shamir_error + 'a) \<times> u64 list) option) \<Rightarrow>
     u64 list \<Rightarrow> ((shamir_error + 'a) \<times> u64 list) option" where
  "split_then n k secret cont rs =
     (case Split n k secret rs of
        None \<Rightarrow> None
      | Some (Inl e, rs) \<Rightarrow> Some (Inl e, rs)
      | Some (Inr shares, rs) \<Rightarrow> cont shares rs)"

definition Order_Split ::
    "keccak \<Rightarrow> order \<Rightarrow> int \<Rightarrow> int \<Rightarrow> u64 list \<Rightarrow> ((shamir_error + fragment list) \<times> u64 list) option" where
  "Order_Split keccak ord n k =
     split_then n k (Tokens ord) (\<lambda>tokens.
     split_then n k (Co (Price ord)) (\<lambda>priceCos.
     split_then n k (Expn (Price ord)) (\<lambda>priceExps.
     split_then n k (Co (Volume ord)) (\<lambda>volumeCos.
     split_then n k (Expn (Volume ord)) (\<lambda>volumeExps.
     split_then n k (Co (MinimumVolume ord)) (\<lambda>minimumVolumeCos.
     split_then n k (Expn (MinimumVolume ord)) (\<lambda>minimumVolumeExps.
     split_then n k (Nonce ord) (\<lambda>nonces rs.
       Some (Inr (map (\<lambda>i. NewFragment keccak (ID ord) (Type ord) (Parity ord) (Settlement ord) (Expiry ord)
           (tokens ! i) \<lparr>ShCo = priceCos ! i, ShExp = priceExps ! i\<rparr>
           \<lparr>ShCo = volumeCos ! i, ShExp = volumeExps ! i\<rparr>
           \<lparr>ShCo = minimumVolumeCos ! i, ShExp = minimumVolumeExps ! i\<rparr> (nonces ! i))
         [0..<nat n]), rs)))))))))"

subsection \<open>Token pairs\<close>

lemma tokens_of_bits:
  "bit (tokens_of a b) i \<longleftrightarrow> (if i < 32 then bit b i else i < 64 \<and> bit a (i - 32))"
  by (auto simp: tokens_of_def bit_or_iff bit_push_bit_iff bit_ucast_iff dest: bit_imp_le_length)

lemma PriorityToken_tokens_of: "PriorityToken (tokens_of a b) = b"
  unfolding PriorityToken_def
proof (rule bit_word_eqI)
  fix i assume i: "i < LENGTH(32)"
  have "bit (0x00000000FFFFFFFF :: u64) i \<longleftrightarrow> i < 32"
  proof -
    have "(0x00000000FFFFFFFF :: u64) = mask 32" by (simp add: mask_eq_exp_minus_1)
    then show ?thesis by (simp only: bit_mask_iff) auto
  qed
  then show "bit (ucast (tokens_of a b AND 0x00000000FFFFFFFF) :: u32) i = bit b i"
    using i by (simp add: bit_ucast_iff bit_and_iff tokens_of_bits)
qed

lemma NonPriorityToken_tokens_of: "NonPriorityToken (tokens_of a b) = a"
  unfolding NonPriorityToken_def
  by (rule bit_word_eqI) (simp add: bit_ucast_iff bit_drop_bit_eq tokens_of_bits)

lemma tokens_of_inj: "tokens_of a b = tokens_of c d \<longleftrightarrow> a = c \<and> b = d"
  by (metis PriorityToken_tokens_of NonPriorityToken_tokens_of)

subsection \<open>Serialisation is injective\<close>

lemma be_enc_u64: "be_enc 8 (unat (x :: u64)) = be_enc 8 (unat y) \<longleftrightarrow> x = y"
  by (metis be_read_end(1) fst_conv sum.inject(2) word_unat_eq_iff)

lemma be_enc_u32: "be_enc 4 (unat (x :: u32)) = be_enc 4 (unat y) \<longleftrightarrow> x = y"
  by (metis be_read_end(2) fst_conv sum.inject(2) word_unat_eq_iff)

lemma be_enc_u8: "be_enc 1 (unat (x :: u8)) = be_enc 1 (unat y) \<longleftrightarrow> x = y"
  by simp

lemmas be_enc_words = be_enc_u64 be_enc_u32 be_enc_u8

lemma CoExp_bytes [simp]:
  "length (CoExp_MarshalBinary v) = 16" "CoExp_MarshalBinary v = CoExp_MarshalBinary w \<longleftrightarrow> v = w"
  by (auto simp: CoExp_MarshalBinary_def be_enc_words)

lemma Share_bytes [simp]:
  "length (Share_MarshalBinary v) = 16" "Share_MarshalBinary v = Share_MarshalBinary w \<longleftrightarrow> v = w"
  by (auto simp: Share_MarshalBinary_def be_enc_words)

lemma CoExpShare_bytes [simp]:
  "length (CoExpShare_MarshalBinary v) = 32"
  "CoExpShare_MarshalBinary v = CoExpShare_MarshalBinary w \<longleftrightarrow> v = w"
proof -
  have "CoExpShare_MarshalBinary v = Share_MarshalBinary (ShCo v) @ Share_MarshalBinary (ShExp v)" for v
    by (simp add: CoExpShare_MarshalBinary_def Share_MarshalBinary_def)
  then show "length (CoExpShare_MarshalBinary v) = 32"
    "CoExpShare_MarshalBinary v = CoExpShare_MarshalBinary w \<longleftrightarrow> v = w" by auto
qed

lemma Order_Bytes_inj:
  "Order_Bytes keccak o1 = Order_Bytes keccak o2 \<longleftrightarrow>
     Type o1 = Type o2 \<and> Parity o1 = Parity o2 \<and> Settlement o1 = Settlement o2 \<and>
     Unix (Expiry o1) = Unix (Expiry o2) \<and> Tokens o1 = Tokens o2 \<and> Price o1 = Price o2 \<and>
     Volume o1 = Volume o2 \<and> MinimumVolume o1 = MinimumVolume o2 \<and>
     BytesFromNonce keccak o1 = BytesFromNonce keccak o2"
  by (auto simp: Order_Bytes_def be_enc_words)

lemma Fragment_Bytes_inj:
  "length (OrderID f) = length (OrderID g) \<Longrightarrow> Fragment_Bytes f = Fragment_Bytes g \<longleftrightarrow>
     OrderType f = OrderType g \<and> OrderID f = OrderID g \<and> OrderParity f = OrderParity g \<and>
     OrderSettlement f = OrderSettlement g \<and> Unix (OrderExpiry f) = Unix (OrderExpiry g) \<and>
     FTokens f = FTokens g \<and> FPrice f = FPrice g \<and> FVolume f = FVolume g \<and>
     FMinimumVolume f = FMinimumVolume g \<and> FNonce f = FNonce g"
  by (auto simp: Fragment_Bytes_def be_enc_words)

lemma copy32_id: "length h = 32 \<Longrightarrow> copy32 h = h"
  by (simp add: copy32_def)

lemma NewOrder_simps [simp]:
  "Type (NewOrder h ty pa se ex to pr vo mi no) = ty" "Parity (NewOrder h ty pa se ex to pr vo mi no) = pa"
  "Settlement (NewOrder h ty pa se ex to pr vo mi no) = se" "Expiry (NewOrder h ty pa se ex to pr vo mi no) = ex"
  "Tokens (NewOrder h ty pa se ex to pr vo mi no) = to" "Price (NewOrder h ty pa se ex to pr vo mi no) = pr"
  "Volume (NewOrder h ty pa se ex to pr vo mi no) = vo" "MinimumVolume (NewOrder h ty pa se ex to pr vo mi no) = mi"
  "Nonce (NewOrder h ty pa se ex to pr vo mi no) = no mod Prime"
  by (simp_all add: NewOrder_def Let_def)

lemma Order_Bytes_ID [simp]: "Order_Bytes h (ord\<lparr>ID := i\<rparr>) = Order_Bytes h ord"
  by (simp add: Order_Bytes_def BytesFromNonce_def)

lemma NewOrder_ID: "ID (NewOrder h ty pa se ex to pr vo mi no) = Order_Hash h (NewOrder h ty pa se ex to pr vo mi no)"
  unfolding NewOrder_def Let_def Order_Hash_def Order_Bytes_ID by simp

lemma Order_Hash_inj:
  assumes "\<And>x. length (keccak x) = 32"
    and "inj_on keccak {Order_Bytes keccak o1, Order_Bytes keccak o2, be_enc 8 (unat (Nonce o1)), be_enc 8 (unat (Nonce o2))}"
    and "Order_Hash keccak o1 = Order_Hash keccak o2"
  shows "Type o1 = Type o2 \<and> Parity o1 = Parity o2 \<and> Settlement o1 = Settlement o2 \<and>
     Unix (Expiry o1) = Unix (Expiry o2) \<and> Tokens o1 = Tokens o2 \<and> Price o1 = Price o2 \<and>
     Volume o1 = Volume o2 \<and> MinimumVolume o1 = MinimumVolume o2 \<and> Nonce o1 = Nonce o2"
proof -
  have "keccak (Order_Bytes keccak o1) = keccak (Order_Bytes keccak o2)"
    using assms(1,3) by (simp add: Order_Hash_def copy32_id)
  then have b: "Order_Bytes keccak o1 = Order_Bytes keccak o2" by (rule inj_onD [OF assms(2)]) auto
  then have "keccak (be_enc 8 (unat (Nonce o1))) = keccak (be_enc 8 (unat (Nonce o2)))"
    unfolding Order_Bytes_inj by (simp add: BytesFromNonce_def)
  then have "be_enc 8 (unat (Nonce o1)) = be_enc 8 (unat (Nonce o2))" by (rule inj_onD [OF assms(2)]) auto
  then show ?thesis using b unfolding Order_Bytes_inj be_enc_u64 by blast
qed

subsection \<open>Equality of fragments\<close>

lemma Share_Equal_iff [simp]: "Share_Equal a b \<longleftrightarrow> a = b"
  by (auto simp: Share_Equal_def)

lemma CoExpShare_Equal_iff [simp]: "CoExpShare_Equal a b \<longleftrightarrow> a = b"
  by (auto simp: CoExpShare_Equal_def)

lemma Fragment_Equal_iff:
  "Fragment_Equal f g \<longleftrightarrow> f\<lparr>OrderSettlement := OrderSettlement g, EpochDepth := EpochDepth g\<rparr> = g"
  by (cases f; cases g) (auto simp: Fragment_Equal_def)

lemma Order_Equal_iff: "Order_Equal a b \<longleftrightarrow> a\<lparr>Signature := Signature b\<rparr> = b"
  by (cases a; cases b) (auto simp: Order_Equal_def)

subsection \<open>Encryption\<close>

lemma CoExpShare_Encrypt_roundtrip:
  assumes "\<And>m. m \<noteq> [] \<Longrightarrow> length m \<le> 16 \<Longrightarrow> \<exists>c. enc pub m = Inr c \<and> dec priv c = Inr m"
  shows "\<exists>c. CoExpShare_Encrypt enc v pub = Inr c \<and> EncryptedCoExpShare_Decrypt dec c priv = Inr v"
proof -
  note r = Share_Encrypt_roundtrip [of enc pub dec priv, OF assms]
  obtain c e where "Share_Encrypt enc (ShCo v) pub = Inr c" "Share_Decrypt dec priv c = Inr (ShCo v)"
    "Share_Encrypt enc (ShExp v) pub = Inr e" "Share_Decrypt dec priv e = Inr (ShExp v)"
    using r [of "ShCo v"] r [of "ShExp v"] by blast
  then show ?thesis by (simp add: CoExpShare_Encrypt_def EncryptedCoExpShare_Decrypt_def)
qed

lemma Fragment_Encrypt_roundtrip:
  assumes "\<And>m. m \<noteq> [] \<Longrightarrow> length m \<le> 16 \<Longrightarrow> \<exists>c. enc pub m = Inr c \<and> dec priv c = Inr m"
  shows "\<exists>c. Fragment_Encrypt enc f pub = Inr c \<and> EncryptedFragment_Decrypt dec c priv = Inr f \<and>
    EOrderID c = OrderID f \<and> EFragID c = FragID f"
proof -
  note r = Share_Encrypt_roundtrip [of enc pub dec priv, OF assms]
  note q = CoExpShare_Encrypt_roundtrip [of enc pub dec priv, OF assms]
  obtain t n where tn: "Share_Encrypt enc (FTokens f) pub = Inr t" "Share_Decrypt dec priv t = Inr (FTokens f)"
    "Share_Encrypt enc (FNonce f) pub = Inr n" "Share_Decrypt dec priv n = Inr (FNonce f)"
    using r [of "FTokens f"] r [of "FNonce f"] by blast
  obtain p v m where pvm:
    "CoExpShare_Encrypt enc (FPrice f) pub = Inr p" "EncryptedCoExpShare_Decrypt dec p priv = Inr (FPrice f)"
    "CoExpShare_Encrypt enc (FVolume f) pub = Inr v" "EncryptedCoExpShare_Decrypt dec v priv = Inr (FVolume f)"
    "CoExpShare_Encrypt enc (FMinimumVolume f) pub = Inr m" "EncryptedCoExpShare_Decrypt dec m priv = Inr (FMinimumVolume f)"
    using q [of "FPrice f"] q [of "FVolume f"] q [of "FMinimumVolume f"] by blast
  show ?thesis by (simp add: Fragment_Encrypt_def EncryptedFragment_Decrypt_def tn pvm)
qed

subsection \<open>Splitting an order\<close>

abbreviation in_field :: "u64 list \<Rightarrow> nat" where
  "in_field rs \<equiv> length (filter (\<lambda>r. r < Prime) rs)"

lemma rand_coefficient_rest: "rand_coefficient rs = Some (c, rs') \<Longrightarrow> in_field rs = Suc (in_field rs')"
  by (induction rs) (auto simp: not_le split: if_splits)

lemma rand_coefficients_rest: "rand_coefficients m rs = Some (cs, rs') \<Longrightarrow> in_field rs = m + in_field rs'"
proof (induction m arbitrary: rs cs)
  case (Suc m)
  then obtain c r1 cs1 where "rand_coefficient rs = Some (c, r1)" "rand_coefficients m r1 = Some (cs1, rs')"
    by (auto split: bind_splits)
  then show ?case using Suc.IH rand_coefficient_rest by auto
qed simp

lemma Split_rest: "Split n k secret rs = Some (Inr shs, rs') \<Longrightarrow> in_field rs = nat k - 1 + in_field rs'"
  by (auto simp: Split_def rand_coefficients_rest split: if_splits bind_splits)

text \<open>Any \<open>k\<close> different shares of a split give its secret.\<close>

lemma Split_Join:
  assumes S: "Split n k secret rs = Some (Inr shs, rs')" "n < 2 ^ 63" and ts: "set ts \<subseteq> set shs" "distinct ts" "length ts = nat k"
  shows "Join ts = Some secret"
proof -
  have k: "0 < k" "k \<le> n" "secret < Prime" using S(1) by (auto simp: Split_def not_le not_less split: if_splits)
  obtain cs where c: "rand_coefficients (nat k - 1) rs = Some (cs, rs')"
    using S(1) k by (auto simp: Split_def not_less not_le split: if_splits bind_splits)
  have "nat k - 1 \<le> length (filter (\<lambda>r. r < Prime) rs)" using rand_coefficients_rest [OF c] by simp
  from Split_value [OF k(1,2) S(2) k(3) this]
  have v: "length shs = nat n" "\<forall>i<nat n. fv (Index (shs ! i)) = int i + 1" "sharing (nat k) (fv secret) shs"
    using S(1) by auto
  have idx: "fv (Index sh) = fv (Index sh') \<Longrightarrow> sh = sh'" "Index sh < Prime" if mem: "sh \<in> set shs" "sh' \<in> set shs" for sh sh'
  proof -
    obtain i j where ij: "i < nat n" "j < nat n" "sh = shs ! i" "sh' = shs ! j" using mem v(1) by (auto simp: in_set_conv_nth)
    then show "fv (Index sh) = fv (Index sh') \<Longrightarrow> sh = sh'" using v(2) by simp
    have "fv (Index sh) < fp" using v(2) ij S(2) by (simp add: fp_def field_prime_def)
    then show "Index sh < Prime" by (simp add: word_lt_Prime)
  qed
  have "inj_on Index (set ts)" using idx(1) ts(1) by (intro inj_onI) (metis subset_iff)
  then have "good_indices ts" using ts idx(2) by (auto simp: good_indices_def distinct_map)
  moreover have "sharing (length ts) (fv secret) ts" using sharing_subset [OF v(3) ts(1)] ts(3) by simp
  ultimately obtain z where "Join ts = Some z" "fv z = fv secret mod fp" using Join_sharing by blast
  then show ?thesis using k(3) by (simp add: word_lt_Prime fv_def word_uint_eq_iff)
qed

text \<open>The shares of one field.\<close>

definition field_shares :: "int \<Rightarrow> int \<Rightarrow> u64 \<Rightarrow> share list \<Rightarrow> bool" where
  "field_shares n k secret shs \<longleftrightarrow> length shs = nat n \<and>
     (\<forall>i<nat n. Index (shs ! i) = word_of_nat (Suc i)) \<and> sharing (nat k) (fv secret) shs"

lemma split_then_ok:
  assumes "0 < k" "k \<le> n" "n < 2 ^ 63" "secret < Prime" "nat k - 1 \<le> in_field rs"
  shows "\<exists>shs rs'. split_then n k secret cont rs = cont shs rs' \<and> field_shares n k secret shs \<and>
    in_field rs = nat k - 1 + in_field rs'"
proof -
  obtain shs rs' where s: "Split n k secret rs = Some (Inr shs, rs')" "length shs = nat n"
    "\<forall>i<nat n. fv (Index (shs ! i)) = int i + 1" "sharing (nat k) (fv secret) shs"
    using Split_value [OF assms] by blast
  have "Index (shs ! i) = word_of_nat (Suc i)" if "i < nat n" for i
  proof -
    have "uint (Index (shs ! i)) = int (Suc i)" using s(3) that by (simp add: fv_def)
    then have "word_of_int (uint (Index (shs ! i))) = (word_of_int (int (Suc i)) :: u64)" by (rule arg_cong)
    then show ?thesis by simp
  qed
  then have "field_shares n k secret shs" using s unfolding field_shares_def by blast
  then show ?thesis using s(1) Split_rest [OF s(1)]
    by (intro exI [of _ shs] exI [of _ rs'] conjI) (simp_all add: split_then_def)
qed

lemma split_then_field_error:
  assumes "0 < k" "k \<le> n" "n < 2 ^ 63" "nat k - 1 \<le> in_field rs"
    and "secret < Prime \<Longrightarrow> (\<And>shs rs'. in_field rs = nat k - 1 + in_field rs' \<Longrightarrow>
      \<exists>rs''. cont shs rs' = Some (Inl ErrFiniteField, rs''))"
  shows "\<exists>rs''. split_then n k secret cont rs = Some (Inl ErrFiniteField, rs'')"
proof (cases "secret < Prime")
  case True
  then show ?thesis using split_then_ok [OF assms(1-3) True assms(4), of cont] assms(5) by metis
next
  case False
  then show ?thesis using assms(2) by (simp add: split_then_def Split_def not_less)
qed

definition order_secrets :: "order \<Rightarrow> u64 list" where
  "order_secrets ord = [Tokens ord, Co (Price ord), Expn (Price ord), Co (Volume ord), Expn (Volume ord),
     Co (MinimumVolume ord), Expn (MinimumVolume ord), Nonce ord]"

definition fragment_shares :: "fragment \<Rightarrow> share list" where
  "fragment_shares f = [FTokens f, ShCo (FPrice f), ShExp (FPrice f), ShCo (FVolume f), ShExp (FVolume f),
     ShCo (FMinimumVolume f), ShExp (FMinimumVolume f), FNonce f]"

lemma length_secrets [simp]: "length (order_secrets ord) = 8" "length (fragment_shares f) = 8"
  by (simp_all add: order_secrets_def fragment_shares_def)

text \<open>What the fragments of an order promise: the public fields are copied, and every secret field
  is shared with the threshold, at indices 1, 2, \<dots>\<close>

definition fragment_public :: "order \<Rightarrow> fragment \<Rightarrow> bool" where
  "fragment_public ord f \<longleftrightarrow> OrderID f = ID ord \<and> OrderType f = Type ord \<and> OrderParity f = Parity ord \<and>
     OrderSettlement f = Settlement ord \<and> OrderExpiry f = Expiry ord"

definition fragments_of :: "nat \<Rightarrow> order \<Rightarrow> fragment list \<Rightarrow> bool" where
  "fragments_of k ord fs \<longleftrightarrow> (\<forall>f\<in>set fs. fragment_public ord f) \<and>
     (\<forall>j<8. sharing k (fv (order_secrets ord ! j)) (map (\<lambda>f. fragment_shares f ! j) fs))"

lemma fragments_of_subset: "fragments_of k ord fs \<Longrightarrow> set gs \<subseteq> set fs \<Longrightarrow> fragments_of k ord gs"
proof -
  assume f: "fragments_of k ord fs" "set gs \<subseteq> set fs"
  then have "set (map (\<lambda>f. fragment_shares f ! j) gs) \<subseteq> set (map (\<lambda>f. fragment_shares f ! j) fs)" for j by auto
  then have "sharing k (fv (order_secrets ord ! j)) (map (\<lambda>f. fragment_shares f ! j) gs)" if "j < 8" for j
    using sharing_subset f(1) that unfolding fragments_of_def by blast
  then show ?thesis using f unfolding fragments_of_def by blast
qed

lemma all_less_8: "(\<forall>j<8. P j) \<longleftrightarrow> P 0 \<and> P 1 \<and> P 2 \<and> P 3 \<and> P 4 \<and> P 5 \<and> P 6 \<and> P (7::nat)"
  by (auto simp: eval_nat_numeral All_less_Suc)


lemma split_then_rule:
  assumes "0 < k" "k \<le> n" "n < 2 ^ 63" "secret < Prime" "nat k - 1 \<le> in_field rs"
    and "\<And>shs rs'. field_shares n k secret shs \<Longrightarrow> in_field rs = nat k - 1 + in_field rs' \<Longrightarrow> Q (cont shs rs')"
  shows "Q (split_then n k secret cont rs)"
  using split_then_ok [OF assms(1-5), of cont] assms(6) by metis

definition split_ok :: "order \<Rightarrow> int \<Rightarrow> int \<Rightarrow> fragment list \<Rightarrow> bool" where
  "split_ok ord n k fs \<longleftrightarrow> length fs = nat n \<and> fragments_of (nat k) ord fs \<and>
     (\<forall>i<nat n. \<forall>sh\<in>set (fragment_shares (fs ! i)). Index sh = word_of_nat (Suc i))"

lemma NewFragment_simps [simp]:
  "fragment_shares (NewFragment h oid ty pa se ex to pr vo mi no) =
     [to, ShCo pr, ShExp pr, ShCo vo, ShExp vo, ShCo mi, ShExp mi, no]"
  "OrderID (NewFragment h oid ty pa se ex to pr vo mi no) = oid"
  "OrderType (NewFragment h oid ty pa se ex to pr vo mi no) = ty"
  "OrderParity (NewFragment h oid ty pa se ex to pr vo mi no) = pa"
  "OrderSettlement (NewFragment h oid ty pa se ex to pr vo mi no) = se"
  "OrderExpiry (NewFragment h oid ty pa se ex to pr vo mi no) = ex"
  by (simp_all add: NewFragment_def fragment_shares_def Let_def)

lemma map_nth_upt: "length xs = m \<Longrightarrow> map (\<lambda>i. xs ! i) [0..<m] = xs"
  by (metis map_nth)

lemma split_ok_fragments:
  assumes "field_shares n k (Tokens ord) t" "field_shares n k (Co (Price ord)) pc" "field_shares n k (Expn (Price ord)) pe"
    "field_shares n k (Co (Volume ord)) vc" "field_shares n k (Expn (Volume ord)) ve"
    "field_shares n k (Co (MinimumVolume ord)) mc" "field_shares n k (Expn (MinimumVolume ord)) me"
    "field_shares n k (Nonce ord) no"
  shows "split_ok ord n k (map (\<lambda>i. NewFragment keccak (ID ord) (Type ord) (Parity ord) (Settlement ord) (Expiry ord)
     (t ! i) \<lparr>ShCo = pc ! i, ShExp = pe ! i\<rparr> \<lparr>ShCo = vc ! i, ShExp = ve ! i\<rparr>
     \<lparr>ShCo = mc ! i, ShExp = me ! i\<rparr> (no ! i)) [0..<nat n])" (is "split_ok ord n k ?fs")
proof -
  note a = assms [unfolded field_shares_def]
  have "fragments_of (nat k) ord ?fs"
    using a by (auto simp: fragments_of_def fragment_public_def all_less_8 order_secrets_def comp_def map_nth_upt)
  then show ?thesis using a by (simp add: split_ok_def)
qed

lemma Order_Split_value:
  assumes k: "0 < k" "k \<le> n" "n < 2 ^ 63" and sec: "\<forall>s\<in>set (order_secrets ord). s < Prime"
    and rs: "8 * (nat k - 1) \<le> in_field rs"
  shows "\<exists>fs rs'. Order_Split keccak ord n k rs = Some (Inr fs, rs') \<and> split_ok ord n k fs"
proof -
  define Q where "Q r \<longleftrightarrow> (\<exists>fs rs'. r = Some (Inr fs, rs') \<and> split_ok ord n k fs)"
    for r :: "((shamir_error + fragment list) \<times> u64 list) option"
  have s: "Tokens ord < Prime" "Co (Price ord) < Prime" "Expn (Price ord) < Prime" "Co (Volume ord) < Prime"
    "Expn (Volume ord) < Prime" "Co (MinimumVolume ord) < Prime" "Expn (MinimumVolume ord) < Prime" "Nonce ord < Prime"
    using sec by (auto simp: order_secrets_def)
  have QI: "split_ok ord n k fs \<Longrightarrow> Q (Some (Inr fs, rs'))" for fs rs' by (simp add: Q_def)
  have "Q (Order_Split keccak ord n k rs)"
    unfolding Order_Split_def
    by (insert rs, intro split_then_rule [OF k, where Q = Q] s)
      (linarith | (rule QI, rule split_ok_fragments; assumption))+
  then show ?thesis unfolding Q_def .
qed

lemma Order_Split_field_error:
  assumes k: "0 < k" "k \<le> n" "n < 2 ^ 63" and sec: "\<exists>s\<in>set (order_secrets ord). Prime \<le> s"
    and rs: "8 * (nat k - 1) \<le> in_field rs"
  shows "\<exists>rs'. Order_Split keccak ord n k rs = Some (Inl ErrFiniteField, rs')"
proof -
  have "\<not> (Tokens ord < Prime \<and> Co (Price ord) < Prime \<and> Expn (Price ord) < Prime \<and> Co (Volume ord) < Prime \<and>
    Expn (Volume ord) < Prime \<and> Co (MinimumVolume ord) < Prime \<and> Expn (MinimumVolume ord) < Prime \<and> Nonce ord < Prime)"
    using sec by (auto simp: order_secrets_def)
  then show ?thesis
    unfolding Order_Split_def
    by (insert rs, intro split_then_field_error [OF k]) (linarith | blast)+
qed

lemma Order_Split_nk_error: "n < k \<Longrightarrow> Order_Split keccak ord n k rs = Some (Inl ErrNKError, rs)"
  by (simp add: Order_Split_def split_then_def Split_def)

text \<open>Any \<open>k\<close> of the fragments of an order give back each of its secret fields.\<close>

lemma fragments_join:
  assumes "fragments_of k ord fs" "set gs \<subseteq> set fs" "length gs = k" "j < 8"
    and "good_indices (map (\<lambda>f. fragment_shares f ! j) gs)" "order_secrets ord ! j < Prime"
  shows "Join (map (\<lambda>f. fragment_shares f ! j) gs) = Some (order_secrets ord ! j)"
proof -
  have "sharing (length (map (\<lambda>f. fragment_shares f ! j) gs)) (fv (order_secrets ord ! j)) (map (\<lambda>f. fragment_shares f ! j) gs)"
    using fragments_of_subset [OF assms(1,2)] assms(3,4) by (simp add: fragments_of_def)
  from Join_sharing [OF this assms(5)] show ?thesis
    using assms(6) by (auto simp: word_lt_Prime fv_inj)
qed

text \<open>A split that succeeds checked everything: its fragments are good.\<close>

lemma split_then_Inr:
  assumes "split_then n k secret cont rs = Some (Inr x, r)" "n < 2 ^ 63"
  shows "\<exists>shs rs'. field_shares n k secret shs \<and> cont shs rs' = Some (Inr x, r) \<and> 0 < k \<and> k \<le> n \<and> secret < Prime"
proof -
  obtain shs rs' where S: "Split n k secret rs = Some (Inr shs, rs')"
    using assms(1) by (auto simp: split_then_def split: option.splits prod.splits sum.splits)
  then have k: "0 < k" "k \<le> n" "secret < Prime"
    by (auto simp: Split_def not_le not_less split: if_splits)
  have "nat k - 1 \<le> in_field rs" using Split_rest [OF S] by simp
  from split_then_ok [OF k(1,2) assms(2) k(3) this, of cont] show ?thesis using assms(1) k by metis
qed

lemma Order_Split_Inr:
  assumes "Order_Split keccak ord n k rs = Some (Inr fs, rs')" "n < 2 ^ 63"
  shows "split_ok ord n k fs" "0 < k" "k \<le> n" "\<forall>s\<in>set (order_secrets ord). s < Prime" "\<forall>f\<in>set fs. EpochDepth f = 0"
proof -
  note E = split_then_Inr [OF _ assms(2)]
  have depth: "EpochDepth (NewFragment h oid ty pa se ex to pr vo mi no) = 0" for h oid ty pa se ex to pr vo mi no
    by (simp add: NewFragment_def Let_def)
  show "split_ok ord n k fs" using assms(1) unfolding Order_Split_def
    by (auto dest!: E intro: split_ok_fragments)
  show "0 < k" "k \<le> n" "\<forall>s\<in>set (order_secrets ord). s < Prime" "\<forall>f\<in>set fs. EpochDepth f = 0"
    using assms(1) unfolding Order_Split_def by (auto dest!: E simp: order_secrets_def depth)
qed

end
