(* ===== verification/Int1024_String.thy ===== *)
theory Int1024_String
  imports Int1024_Mod Strconv
begin

section \<open>Integers as text: \<^verbatim>\<open>stackint/int1024.go\<close>\<close>

text \<open>
  Reading and printing of 1024-bit integers, in blocks of as many digits as fit a word, and the
  conversions to and from \<^verbatim>\<open>math/big\<close>.

  The lemmas: printing gives the decimal digits of the number, reading a text without zeros in front
  gives its value as long as that fits, anything that is not a digit is an error, and reading what
  was printed gives the number back.
\<close>

subsection \<open>Reading\<close>

definition number_base :: "string \<Rightarrow> string \<times> nat" where
  "number_base number =
     (if 2 < length number \<and> take 2 number = ''0x'' then (drop 2 number, 16)
      else if 2 < length number \<and> take 2 number = ''0b'' then (drop 2 number, 2)
      else (number, 10))"

text \<open>The number of digits of a block.\<close>

partial_function (option) block_size_loop :: "u64 \<Rightarrow> u64 \<Rightarrow> u64 \<Rightarrow> nat \<Rightarrow> nat option" where
  "block_size_loop b limit basePower blockSize =
     (if basePower < limit then block_size_loop b limit (basePower * b) (blockSize + 1) else Some blockSize)"

definition block_size :: "nat \<Rightarrow> nat option" where
  "block_size b = block_size_loop (word_of_nat b) ((2 ^ 63 - 1) div word_of_nat b) 1 1"

text \<open>The loop over the blocks, from the last one on; \<open>n\<close> blocks are left.\<close>

fun blocks_loop :: "string \<Rightarrow> nat \<Rightarrow> nat \<Rightarrow> int1024 \<Rightarrow> nat \<Rightarrow> nat \<Rightarrow> int1024 \<Rightarrow> int1024 \<Rightarrow> text_error + int1024" where
  "blocks_loop number b blockSize shift 0 i self shiftAcc = Inr self"
| "blocks_loop number b blockSize shift (Suc n) i self shiftAcc =
     (let stop = length number - i * blockSize;
          start = length number - (i + 1) * blockSize
      in case ParseUint (drop start (take stop number)) b of
           Inl err \<Rightarrow> Inl err
         | Inr word \<Rightarrow>
             blocks_loop number b blockSize shift n (i + 1)
               (Add self (Mul (FromUint word) shiftAcc)) (Mul shiftAcc shift))"

definition FromString :: "string \<Rightarrow> (text_error + int1024) option" where
  "FromString number =
     (case number_base number of
        (number, b) \<Rightarrow>
          if number = [] then Some (Inl ErrEmptyString)
          else if number = ''0'' then Some (Inr Zero)
          else
            do { blockSize \<leftarrow> block_size b;
                 let count = length number div blockSize + (if length number mod blockSize \<noteq> 0 then 1 else 0);
                 shift \<leftarrow> Exp (FromUint (word_of_nat b)) (FromUint (word_of_nat blockSize));
                 Some (blocks_loop number b blockSize shift count 0 Zero One) })"

subsection \<open>Printing\<close>

partial_function (option) String_loop :: "int1024 \<Rightarrow> int1024 \<Rightarrow> string \<Rightarrow> string option" where
  "String_loop b q ret =
     (if IsZero q then Some ret
      else
        do { (q, r) \<leftarrow> DivMod q b;
             let chars = FormatUint 10 (words r ! 0);
             if 19 < length chars then None
             else String_loop b q (replicate (19 - length chars) CHR ''0'' @ chars @ ret) })"

definition Int1024_String :: "int1024 \<Rightarrow> string option" where
  "Int1024_String x =
     do { b \<leftarrow> Exp (FromUint 10) (FromUint 19);
          ret \<leftarrow> String_loop b x [];
          let ret = dropWhile ((=) CHR ''0'') ret;
          Some (if ret = [] then ''0'' else ret) }"

definition ToBinary :: "int1024 \<Rightarrow> string" where
  "ToBinary x =
     (if len x = 0 then ''0''
      else FormatUint 2 (words x ! (len x - 1)) @
        concat (map (\<lambda>i. let s = FormatUint 2 (words x ! i) in replicate (64 - length s) CHR ''0'' @ s) (rev [0..<len x - 1])))"

definition ToBigInt :: "int1024 \<Rightarrow> nat option" where
  "ToBigInt x = map_option big_SetBytes (Bytes x)"

text \<open>\<^verbatim>\<open>Bytes\<close> of \<^verbatim>\<open>math/big\<close> gives the absolute value.\<close>

definition FromBigInt :: "int \<Rightarrow> stackint_error + int1024" where
  "FromBigInt bg = FromBytes (big_Bytes (nat \<bar>bg\<bar>))"

subsection \<open>Reading a number\<close>

text \<open>\<open>n\<close> blocks cover the \<open>l\<close> digits after \<open>i\<close> blocks, the last of them not empty.\<close>

definition blocks_left :: "nat \<Rightarrow> nat \<Rightarrow> nat \<Rightarrow> nat \<Rightarrow> bool" where
  "blocks_left l k n i \<longleftrightarrow> l \<le> (i + n) * k \<and> (n = 0 \<or> (i + n - 1) * k < l)"

lemma blocks_left_Suc:
  assumes "blocks_left l k (Suc n) i"
  shows "blocks_left l k n (i + 1)" "i * k < l"
proof -
  have "i * k \<le> (i + n) * k" by (simp add: add_mult_distrib)
  moreover have "(i + n) * k < l" using assms unfolding blocks_left_def by simp
  ultimately show "i * k < l" by (rule le_less_trans)
  show "blocks_left l k n (i + 1)" using assms by (auto simp: blocks_left_def)
qed

lemma blocks_left_count: "0 < k \<Longrightarrow> blocks_left l k (l div k + (if l mod k \<noteq> 0 then 1 else 0)) 0"
proof -
  assume "0 < k"
  then have "l mod k < k" "l = l div k * k + l mod k" by simp_all
  then show ?thesis using \<open>0 < k\<close> unfolding blocks_left_def
    by (cases "l div k"; cases "l mod k"; simp)
qed

lemma block_split:
  assumes "i * k < length s" "0 < k"
  defines "mid \<equiv> drop (length s - (i + 1) * k) (take (length s - i * k) s)"
  shows "drop (length s - (i + 1) * k) s = mid @ drop (length s - i * k) s" "mid \<noteq> []" "length mid \<le> k"
    "take (length s - i * k) s = take (length s - (i + 1) * k) s @ mid"
proof -
  have le: "length s - (i + 1) * k \<le> length s - i * k" by simp
  then show "drop (length s - (i + 1) * k) s = mid @ drop (length s - i * k) s"
    unfolding mid_def by (metis append_take_drop_id drop_append diff_is_0_eq' drop0 length_take min.absorb2 diff_le_self)
  show "mid \<noteq> []" "length mid \<le> k" unfolding mid_def using assms(1,2) by auto
  show "take (length s - i * k) s = take (length s - (i + 1) * k) s @ mid"
    unfolding mid_def using le by (metis append_take_drop_id min.absorb1 take_take)
qed

lemma blocks_loop_value:
  assumes "valid_text b s" "1 < b" "0 < k" "b ^ k \<le> 2 ^ 64"
    and "text_value b s < base ^ INT1024WORDS" "b ^ (length s - 1) < base ^ INT1024WORDS"
    and "int_wf shift" "int_val shift = b ^ k"
    and "blocks_left (length s) k n i"
    and "int_wf self" "int_val self = text_value b (drop (length s - i * k) s)"
    and "i * k < length s \<Longrightarrow> int_wf acc \<and> int_val acc = b ^ (i * k)"
  shows "\<exists>z. blocks_loop s b k shift n i self acc = Inr z \<and> int_wf z \<and> int_val z = text_value b s"
  using assms(9-)
proof (induction n arbitrary: i self acc)
  case 0
  then show ?case by (auto simp: blocks_left_def)
next
  case (Suc n)
  let ?start = "length s - (i + 1) * k" and ?stop = "length s - i * k"
  define mid where "mid = drop ?start (take ?stop s)"
  note left = blocks_left_Suc [OF Suc.prems(1)]
  note sp = block_split [OF left(2) assms(3), folded mid_def]
  have vm: "valid_text b mid" using assms(1) unfolding mid_def valid_text_def by (meson in_set_dropD in_set_takeD)
  obtain w where w: "ParseUint mid b = Inr w" "unat w = text_value b mid"
    using ParseUint_value [OF vm sp(2,3) assms(4)] assms(2) by auto
  have acc: "int_wf acc" "int_val acc = b ^ (i * k)" using Suc.prems(4) left(2) by simp_all
  have d: "text_value b (drop ?start s) = text_value b mid * b ^ (i * k) + text_value b (drop ?stop s)"
    using left(2) by (subst sp(1)) (simp add: text_value_append)
  have "text_value b (drop ?start s) \<le> text_value b s"
    using text_value_append [of b "take ?start s" "drop ?start s"] by simp
  then have lt: "text_value b mid * b ^ (i * k) + text_value b (drop ?stop s) < base ^ INT1024WORDS"
    using assms(5) d by linarith
  have m: "int_wf (Mul (FromUint w) acc)" "int_val (Mul (FromUint w) acc) = text_value b mid * b ^ (i * k)"
    using Mul_exact [of "FromUint w" acc] acc w(2) lt by auto
  have a: "int_wf (Add self (Mul (FromUint w) acc))"
    "int_val (Add self (Mul (FromUint w) acc)) = text_value b (drop ?start s)"
    using Add_exact [OF Suc.prems(2) m(1)] m(2) Suc.prems(3) lt d by (auto simp: add.commute)
  have "int_wf (Mul acc shift) \<and> int_val (Mul acc shift) = b ^ ((i + 1) * k)" if "(i + 1) * k < length s"
  proof -
    have "b ^ ((i + 1) * k) \<le> b ^ (length s - 1)" using that assms(2) by (intro power_increasing) simp_all
    then have "b ^ (i * k) * b ^ k < base ^ INT1024WORDS" using assms(6) by (simp add: power_add mult.commute)
    then show ?thesis using Mul_exact [OF acc(1) assms(7)] acc(2) assms(8) by (simp add: power_add mult.commute)
  qed
  then show ?case using Suc.IH [OF left(1) a] w(1) by (simp add: mid_def)
qed

lemma blocks_loop_invalid:
  assumes "\<not> valid_text b (take (length s - i * k) s)" "0 < b" "0 < k" "b ^ k \<le> 2 ^ 64" "blocks_left (length s) k n i"
  shows "blocks_loop s b k shift n i self acc = Inl ErrSyntax"
  using assms(1,5)
proof (induction n arbitrary: i self acc)
  case 0
  then show ?case by (simp add: blocks_left_def)
next
  case (Suc n)
  let ?mid = "drop (length s - (i + 1) * k) (take (length s - i * k) s)"
  note left = blocks_left_Suc [OF Suc.prems(2)]
  note sp = block_split [OF left(2) assms(3)]
  show ?case
  proof (cases "valid_text b ?mid")
    case True
    obtain w where "ParseUint ?mid b = Inr w" using ParseUint_value [OF True sp(2,3) assms(4,2)] by auto
    moreover have "\<not> valid_text b (take (length s - (i + 1) * k) s)" using Suc.prems(1) True sp(4) by (metis valid_text_simps(3))
    ultimately show ?thesis using Suc.IH [OF _ left(1)] by simp
  next
    case False
    then show ?thesis using ParseUint_invalid [OF False sp(3) assms(4,2)] by simp
  qed
qed

lemma block_size_value: "block_size 10 = Some 19" "block_size 16 = Some 16" "block_size 2 = Some 63"
  by (simp_all add: block_size_def block_size_loop.simps)

lemma FromString_blocks:
  assumes "number_base number = (s, b)" "s \<noteq> []" "s \<noteq> ''0''"
  shows "\<exists>k n shift. FromString number = Some (blocks_loop s b k shift n 0 Zero One) \<and> 1 < b \<and> 0 < k \<and> b ^ k \<le> 2 ^ 64 \<and>
    int_wf shift \<and> int_val shift = b ^ k \<and> blocks_left (length s) k n 0"
proof -
  have "(b, block_size b) \<in> {(10, Some 19), (16, Some 16), (2, Some 63)}"
    using assms(1) by (auto simp: number_base_def block_size_value split: if_splits)
  then obtain k where k: "block_size b = Some k" "1 < b" "0 < k" "b ^ k \<le> 2 ^ 64" "b < 2 ^ 64" "k < 2 ^ 64" by auto
  have "b ^ k < base ^ INT1024WORDS" using k(4) by (simp add: base_def)
  then obtain shift where shift: "Exp (FromUint (word_of_nat b)) (FromUint (word_of_nat k)) = Some shift" "int_wf shift" "int_val shift = b ^ k"
    using Exp_value [of "FromUint (word_of_nat b)" "FromUint (word_of_nat k)"] k(5,6) by (auto simp: unat_of_nat)
  then have "FromString number = Some (blocks_loop s b k shift (length s div k + (if length s mod k \<noteq> 0 then 1 else 0)) 0 Zero One)"
    using assms k(1) by (simp add: FromString_def Let_def)
  then show ?thesis using k shift blocks_left_count [OF k(3), of "length s"] by blast
qed

text \<open>A text without zeros in front is read as its value if that has at most 1024 bits.\<close>

lemma FromString_value:
  assumes "number_base number = (s, b)" "valid_text b s" "s \<noteq> []" "digit_of (hd s) \<noteq> Some 0" "text_value b s < base ^ INT1024WORDS"
  shows "\<exists>z. FromString number = Some (Inr z) \<and> int_wf z \<and> int_val z = text_value b s"
proof -
  have "s \<noteq> ''0''" using assms(4) by (auto simp: zero_digit)
  then obtain k n shift where K: "FromString number = Some (blocks_loop s b k shift n 0 Zero One)" "1 < b" "0 < k" "b ^ k \<le> 2 ^ 64"
    "int_wf shift" "int_val shift = b ^ k" "blocks_left (length s) k n 0"
    using FromString_blocks [OF assms(1,3)] by blast
  have "b ^ (length s - 1) \<le> text_value b s"
    using assms(2-4) by (cases s) (auto intro: trans_le_add1)
  then have "b ^ (length s - 1) < base ^ INT1024WORDS" using assms(5) by linarith
  then show ?thesis using blocks_loop_value [OF assms(2) K(2-4) assms(5) _ K(5-7), of Zero One] K(1) by simp
qed

text \<open>Anything that is not a digit of the base is an error, even if the number is too large.\<close>

lemma FromString_invalid:
  assumes "number_base number = (s, b)" "s \<noteq> []" "\<not> valid_text b s"
  shows "FromString number = Some (Inl ErrSyntax)"
proof -
  have "s \<noteq> ''0''" using assms(1,3) by (auto simp: zero_digit number_base_def split: if_splits)
  then show ?thesis using FromString_blocks [OF assms(1,2)] blocks_loop_invalid [of b s 0] assms(3) by fastforce
qed

subsection \<open>Printing a number\<close>

lemma low_word:
  assumes "int_wf x" "int_val x < base"
  shows "unat (words x ! 0) = int_val x"
proof (cases "words x")
  case (Cons w ws)
  then have "bnum ws = 0" using assms(2) by (cases "bnum ws") (auto simp: int_val_def)
  then show ?thesis using Cons by (simp add: int_val_def)
qed (use assms(1) in \<open>auto simp: int_wf_def\<close>)

lemma String_loop_value:
  assumes "int_wf b" "int_val b = 10 ^ 19" "int_wf q" "valid_text 10 ret"
  shows "\<exists>s. String_loop b q ret = Some s \<and> valid_text 10 s \<and> text_value 10 s = int_val q * 10 ^ length ret + text_value 10 ret"
  using assms(3,4)
proof (induction "int_val q" arbitrary: q ret rule: less_induct)
  case less
  show ?case
  proof (cases "int_val q = 0")
    case True
    then show ?thesis using less.prems IsZero_val [of q] by (subst String_loop.simps) simp
  next
    case False
    obtain q' r where d: "DivMod q b = Some (q', r)" "int_wf q'" "int_wf r"
      "int_val q' = int_val q div 10 ^ 19" "int_val r = int_val q mod 10 ^ 19"
      using DivMod_value(2) [OF less.prems(1) assms(1)] assms(2) by auto
    have "(10::nat) ^ 19 < base" by (simp add: base_def)
    then have r: "unat (words r ! 0) = int_val r" using d(3,5) mod_less_divisor [of "10 ^ 19" "int_val q"] by (intro low_word) simp_all
    define chars where "chars = FormatUint 10 (words r ! 0)"
    have l: "length chars \<le> 19" unfolding chars_def FormatUint_text
      by (rule length_number_text) (simp_all add: r d(5))
    have c: "valid_text 10 chars" "text_value 10 chars = int_val r"
      unfolding chars_def FormatUint_text using number_text_value [of 10 "int_val r"] by (simp_all add: r)
    let ?ret = "replicate (19 - length chars) CHR ''0'' @ chars @ ret"
    have lt: "int_val q' < int_val q" using False d(4) by simp
    have v: "valid_text 10 ?ret" using c(1) less.prems(2) by simp
    obtain s where s: "String_loop b q' ?ret = Some s" "valid_text 10 s"
      "text_value 10 s = int_val q' * 10 ^ length ?ret + text_value 10 ?ret"
      using less.hyps [OF lt d(2) v] by blast
    have "length ?ret = 19 + length ret" using l by simp
    then have "text_value 10 s = (int_val q' * 10 ^ 19 + int_val r) * 10 ^ length ret + text_value 10 ret"
      using s(3) c(2) by (simp add: text_value_append power_add algebra_simps)
    then have "text_value 10 s = int_val q * 10 ^ length ret + text_value 10 ret" using d(4,5) by (simp add: div_mult_mod_eq)
    moreover have "String_loop b q ret = Some s"
      using False IsZero_val [OF less.prems(1)] d(1) l s(1) by (subst String_loop.simps) (simp add: chars_def Let_def)
    ultimately show ?thesis using s(2) by blast
  qed
qed

text \<open>\<^verbatim>\<open>String\<close> gives the decimal digits.\<close>

lemma Int1024_String_value:
  assumes "int_wf x"
  shows "Int1024_String x = Some (number_text 10 (int_val x))"
proof -
  obtain b where b: "Exp (FromUint 10) (FromUint 19) = Some b" "int_wf b" "int_val b = 10 ^ 19"
    using Exp_value [of "FromUint 10" "FromUint 19"] by (auto simp: base_def)
  obtain s where s: "String_loop b x [] = Some s" "valid_text 10 s" "text_value 10 s = int_val x"
    using String_loop_value [OF b(2,3) assms, of "[]"] by auto
  let ?t = "dropWhile ((=) CHR ''0'') s"
  have "number_text 10 (text_value 10 ?t) = (if ?t = [] then ''0'' else ?t)"
    using hd_dropWhile [of "(=) CHR ''0''" s] by (intro number_text_unique valid_dropWhile s(2)) (simp, simp, metis)
  then show ?thesis using b(1) s(1,3) by (simp add: Int1024_String_def text_value_dropWhile)
qed

lemma number_base_text: "number_base (number_text 10 n) = (number_text 10 n, 10)"
proof (cases "n = 0")
  case False
  have "hd (number_text 10 n) \<noteq> CHR ''0''" using number_text_value(4) [of 10 n] False by (auto simp: zero_digit)
  then show ?thesis by (cases "number_text 10 n") (auto simp: number_base_def)
qed (simp add: number_base_def number_text_def)

text \<open>Reading what was printed.\<close>

lemma FromString_String:
  assumes "int_wf x"
  shows "\<exists>s. Int1024_String x = Some s \<and> FromString s = Some (Inr x)"
proof (cases "int_val x = 0")
  case True
  then have "x = Zero" using int_val_inj [OF assms] by simp
  then show ?thesis using Int1024_String_value [OF assms] True
    by (simp add: number_text_def FromString_def number_base_def)
next
  case False
  note t = number_text_value [of 10 "int_val x", simplified]
  have "digit_of (hd (number_text 10 (int_val x))) \<noteq> Some 0" using t(4) False by auto
  then obtain z where "FromString (number_text 10 (int_val x)) = Some (Inr z)" "int_wf z" "int_val z = int_val x"
    using FromString_value [OF number_base_text t(1,3)] t(2) int_val_bound [OF assms] by auto
  then show ?thesis using Int1024_String_value [OF assms] int_val_inj [OF _ assms] by auto
qed

subsection \<open>Binary digits and \<^verbatim>\<open>math/big\<close>\<close>

lemma FormatUint_2: "valid_text 2 (FormatUint 2 w)" "text_value 2 (FormatUint 2 w) = unat w" "length (FormatUint 2 w) \<le> 64"
  using number_text_value(1,2) [of 2 "unat w"] length_number_text [of 2 64 "unat w"] unsigned_less [of w]
  by (simp_all add: FormatUint_text)

definition padded_word :: "u64 \<Rightarrow> string" where
  "padded_word w = (let s = FormatUint 2 w in replicate (64 - length s) CHR ''0'' @ s)"

lemma padded_word: "length (padded_word w) = 64" "valid_text 2 (padded_word w)" "text_value 2 (padded_word w) = unat w"
  using FormatUint_2 [of w] by (simp_all add: padded_word_def Let_def)

lemma padded_words:
  assumes "n \<le> length ws"
  shows "valid_text 2 (concat (map (\<lambda>i. padded_word (ws ! i)) (rev [0..<n]))) \<and>
    length (concat (map (\<lambda>i. padded_word (ws ! i)) (rev [0..<n]))) = 64 * n \<and>
    text_value 2 (concat (map (\<lambda>i. padded_word (ws ! i)) (rev [0..<n]))) = bnum (take n ws)"
  using assms
proof (induction n)
  case (Suc n)
  then show ?case
    by (simp add: text_value_append padded_word take_Suc_conv_app_nth bnum_append base_def power_mult)
qed simp

text \<open>\<^verbatim>\<open>ToBinary\<close> gives the binary digits.\<close>

lemma ToBinary_value:
  assumes "int_wf x"
  shows "ToBinary x = number_text 2 (int_val x)"
proof (cases "len x = 0")
  case True
  then show ?thesis using int_val_0_iff [OF assms] by (simp add: ToBinary_def number_text_def)
next
  case False
  let ?n = "len x - 1" and ?top = "words x ! (len x - 1)"
  have l: "?n \<le> length (words x)" "?n < length (words x)" "len x = Suc ?n" using False int_wf_len [OF assms] int_wf_length [OF assms] by simp_all
  have t: "ToBinary x = FormatUint 2 ?top @ concat (map (\<lambda>i. padded_word (words x ! i)) (rev [0..<?n]))"
    using False by (simp add: ToBinary_def padded_word_def)
  have "take (len x) (words x) = take ?n (words x) @ [?top]" using l by (metis take_Suc_conv_app_nth)
  then have v: "text_value 2 (ToBinary x) = int_val x" "valid_text 2 (ToBinary x)"
    using padded_words [OF l(1)] FormatUint_2 [of ?top] l(2) int_val_take [OF assms]
    by (simp_all add: t text_value_append bnum_append base_def power_mult)
  have nz: "unat ?top \<noteq> 0" using int_wf_top [OF assms] False by (simp add: unat_eq_zero)
  have "hd (FormatUint 2 ?top) \<noteq> CHR ''0''" "FormatUint 2 ?top \<noteq> []"
    using number_text_value(3,4) [of 2 "unat ?top"] nz by (auto simp: FormatUint_text zero_digit)
  then have "hd (ToBinary x) \<noteq> CHR ''0''" "ToBinary x \<noteq> []" by (simp_all add: t)
  then show ?thesis using number_text_unique [OF v(2)] v(1) by simp
qed

lemma ToBigInt_value: "int_wf x \<Longrightarrow> ToBigInt x = Some (int_val x)"
  using SetBytes_Bytes [of x Zero] by (auto simp: ToBigInt_def big_SetBytes_be_num)

text \<open>A number that fits is converted; the sign is lost.\<close>

lemma FromBigInt_value:
  shows "\<bar>bg\<bar> < int (base ^ INT1024WORDS) \<Longrightarrow> \<exists>z. FromBigInt bg = Inr z \<and> int_wf z \<and> int (int_val z) = \<bar>bg\<bar>"
    and "int (base ^ INT1024WORDS) \<le> \<bar>bg\<bar> \<Longrightarrow> FromBigInt bg = Inl ErrBytesTooLong"
proof -
  define bs where "bs = big_Bytes (nat \<bar>bg\<bar>)"
  have b: "be_num bs = nat \<bar>bg\<bar>" "drop (leadingZeros 0 bs 0) bs = bs"
    using big_Bytes_num(1,2) [of "nat \<bar>bg\<bar>"] big_Bytes_num(3) [of "nat \<bar>bg\<bar>"]
    by (auto simp: bs_def leadingZeros_value Let_def dropWhile_eq_self_iff takeWhile_eq_Nil_iff)
  have e: "base ^ INT1024WORDS = 256 ^ 128" by (simp add: base_def)
  have F: "FromBigInt bg = SetBytes Zero bs" by (simp add: FromBigInt_def FromBytes_def bs_def)
  {
    assume "\<bar>bg\<bar> < int (base ^ INT1024WORDS)"
    then have "nat \<bar>bg\<bar> < 256 ^ 128" unfolding e by linarith
    then have "length bs \<le> 128" using length_base_digits_le [of 256 "nat \<bar>bg\<bar>" 128] by (simp add: bs_def big_Bytes_def)
    then show "\<exists>z. FromBigInt bg = Inr z \<and> int_wf z \<and> int (int_val z) = \<bar>bg\<bar>" using SetBytes_short [of bs Zero] F b(1) by auto
  next
    assume "int (base ^ INT1024WORDS) \<le> \<bar>bg\<bar>"
    then have "256 ^ 128 \<le> nat \<bar>bg\<bar>" unfolding e by linarith
    then have "128 < length bs" using length_base_digits [of 256 128 "nat \<bar>bg\<bar>"] by (simp add: bs_def big_Bytes_def)
    then show "FromBigInt bg = Inl ErrBytesTooLong" using SetBytes_value(2) [of bs Zero] F b(2) by simp
  }
qed

end
