(* ===== verification/Order_Json.thy ===== *)
theory Order_Json
  imports Order Json Int1024_String
begin

section \<open>Values as JSON: \<^verbatim>\<open>order/value.go\<close>, \<^verbatim>\<open>shamir/shamir.go\<close>, \<^verbatim>\<open>stackint/int1024.go\<close>\<close>

text \<open>
  The types that have their own form in JSON. A price is a pair of numbers; shares and integers are bytes in base
  64; a shared price is a pair of strings in base 64. An error is one of the text or one of the bytes in it.

  The locale \<open>json_text\<close> is what a user of these types relies on: what was written is read back.
\<close>

datatype 'e value_error = ErrJson json_error | ErrBase64 | ErrValue 'e

subsection \<open>Writing and reading\<close>

definition Int1024_MarshalJSON :: "int1024 \<Rightarrow> string option" where
  "Int1024_MarshalJSON x = map_option (\<lambda>bs. print_json (json_bytes bs)) (Bytes x)"

definition Int1024_UnmarshalJSON :: "int1024 \<Rightarrow> string \<Rightarrow> stackint_error value_error + int1024" where
  "Int1024_UnmarshalJSON x data =
     (case unmarshal json_to_bytes data of Inl e \<Rightarrow> Inl (ErrJson e) | Inr bs \<Rightarrow> map_sum ErrValue id (SetBytes x bs))"

definition Share_MarshalJSON :: "share \<Rightarrow> string" where
  "Share_MarshalJSON share = print_json (json_bytes (Share_MarshalBinary share))"

definition Share_UnmarshalJSON :: "string \<Rightarrow> shamir_error value_error + share" where
  "Share_UnmarshalJSON data =
     (case unmarshal json_to_bytes data of Inl e \<Rightarrow> Inl (ErrJson e) | Inr bs \<Rightarrow> map_sum ErrValue id (Share_UnmarshalBinary bs))"

definition CoExp_MarshalJSON :: "coexp \<Rightarrow> string" where
  "CoExp_MarshalJSON val = print_json (JArray [json_int (uint (Co val)), json_int (uint (Expn val))])"

definition CoExp_UnmarshalJSON :: "string \<Rightarrow> json_error + coexp" where
  "CoExp_UnmarshalJSON data =
     map_sum id (\<lambda>(co, exp). \<lparr>Co = co, Expn = exp\<rparr>) (unmarshal (json_to_pair (json_to_uint 64) 0) data)"

definition CoExpShare_MarshalJSON :: "coexp_share \<Rightarrow> string" where
  "CoExpShare_MarshalJSON val =
     print_json (JArray [JString (b64_encode (Share_MarshalBinary (ShCo val))), JString (b64_encode (Share_MarshalBinary (ShExp val)))])"

definition share_of_text :: "string \<Rightarrow> shamir_error value_error + share" where
  "share_of_text s = (case b64_decode s of None \<Rightarrow> Inl ErrBase64 | Some bs \<Rightarrow> map_sum ErrValue id (Share_UnmarshalBinary bs))"

definition CoExpShare_UnmarshalJSON :: "string \<Rightarrow> shamir_error value_error + coexp_share" where
  "CoExpShare_UnmarshalJSON data =
     (case unmarshal (json_to_pair json_to_string []) data of
        Inl e \<Rightarrow> Inl (ErrJson e)
      | Inr (co, exp) \<Rightarrow>
          (case share_of_text co of
             Inl e \<Rightarrow> Inl e
           | Inr c \<Rightarrow> (case share_of_text exp of Inl e \<Rightarrow> Inl e | Inr x \<Rightarrow> Inr \<lparr>ShCo = c, ShExp = x\<rparr>)))"

definition EncryptedCoExpShare_MarshalJSON :: "enc_coexp_share \<Rightarrow> string" where
  "EncryptedCoExpShare_MarshalJSON val = print_json (JArray [JString (b64_encode (EncCo val)), JString (b64_encode (EncExp val))])"

definition EncryptedCoExpShare_UnmarshalJSON :: "string \<Rightarrow> unit value_error + enc_coexp_share" where
  "EncryptedCoExpShare_UnmarshalJSON data =
     (case unmarshal (json_to_pair json_to_string []) data of
        Inl e \<Rightarrow> Inl (ErrJson e)
      | Inr (co, exp) \<Rightarrow>
          (case b64_decode co of
             None \<Rightarrow> Inl ErrBase64
           | Some c \<Rightarrow> (case b64_decode exp of None \<Rightarrow> Inl ErrBase64 | Some x \<Rightarrow> Inr \<lparr>EncCo = c, EncExp = x\<rparr>)))"

subsection \<open>The interface\<close>

locale json_text =
  fixes valid :: "'a \<Rightarrow> bool" and marshal :: "'a \<Rightarrow> string" and read :: "string \<Rightarrow> 'e + 'a"
  assumes read_marshal: "valid x \<Longrightarrow> read (marshal x) = Inr x"
begin

text \<open>Different values have different texts, and a text written for one value is never read as another.\<close>

lemma marshal_inj: "valid x \<Longrightarrow> valid y \<Longrightarrow> marshal x = marshal y \<longleftrightarrow> x = y"
  using read_marshal [of x] read_marshal [of y] by (metis sum.inject(2))

lemma marshal_all: "\<forall>x\<in>set xs. valid x \<Longrightarrow> map read (map marshal xs) = map Inr xs"
  using read_marshal by simp

end

lemma coexp_eta: "\<lparr>Co = Co v, Expn = Expn v\<rparr> = v" "\<lparr>ShCo = ShCo w, ShExp = ShExp w\<rparr> = w" "\<lparr>EncCo = EncCo u, EncExp = EncExp u\<rparr> = u"
  by simp_all

interpretation share_json: json_text "\<lambda>_. True" Share_MarshalJSON Share_UnmarshalJSON
  using Share_roundtrip [where rest = "[]"]
  by unfold_locales (simp add: Share_MarshalJSON_def Share_UnmarshalJSON_def)

interpretation coexp_json: json_text "\<lambda>_. True" CoExp_MarshalJSON CoExp_UnmarshalJSON
  by unfold_locales (simp add: CoExp_MarshalJSON_def CoExp_UnmarshalJSON_def json_to_uint_json coexp_eta)

interpretation coexp_share_json: json_text "\<lambda>_. True" CoExpShare_MarshalJSON CoExpShare_UnmarshalJSON
  using Share_roundtrip [where rest = "[]"]
  by unfold_locales (simp add: CoExpShare_MarshalJSON_def CoExpShare_UnmarshalJSON_def share_of_text_def ascii_b64 coexp_eta)

interpretation enc_coexp_share_json: json_text "\<lambda>_. True" EncryptedCoExpShare_MarshalJSON EncryptedCoExpShare_UnmarshalJSON
  by unfold_locales (simp add: EncryptedCoExpShare_MarshalJSON_def EncryptedCoExpShare_UnmarshalJSON_def ascii_b64 coexp_eta)

interpretation int1024_json: json_text int_wf "\<lambda>x. the (Int1024_MarshalJSON x)" "Int1024_UnmarshalJSON y"
proof
  fix x assume "int_wf x"
  then obtain bs where "Bytes x = Some bs" "SetBytes y bs = Inr x" using SetBytes_Bytes by blast
  then show "Int1024_UnmarshalJSON y (the (Int1024_MarshalJSON x)) = Inr x"
    by (simp add: Int1024_MarshalJSON_def Int1024_UnmarshalJSON_def)
qed

text \<open>A missing price, null, is read as a price of zero; as a shared price it is an error.\<close>

lemma null_values: "CoExp_UnmarshalJSON ''null'' = Inr \<lparr>Co = 0, Expn = 0\<rparr>"
  "CoExpShare_UnmarshalJSON ''null'' = Inl (ErrValue ErrUnmarshalNilBytes)"
  by (simp_all add: unmarshal_null CoExp_UnmarshalJSON_def CoExpShare_UnmarshalJSON_def share_of_text_def b64_decode_def
    Share_UnmarshalBinary_def)

end
