(* ===== verification/Json_Struct.thy ===== *)
theory Json_Struct
  imports Json
begin

section \<open>Documents as structures: \<^verbatim>\<open>encoding/json\<close>\<close>

text \<open>
  How \<^verbatim>\<open>json.Unmarshal\<close> reads a document into a structure, which is the argument \<open>r\<close> and is updated member by member by \<open>f\<close>: the name of a
  member may be written in other case, a member that comes twice is read into the same place twice, a null leaves the structure as
  it is, and members that the structure does not have are left out. The key store and the logs are read like this.
\<close>

definition lower :: "char \<Rightarrow> char" where
  "lower c = (if CHR ''A'' \<le> c \<and> c \<le> CHR ''Z'' then char_of (of_char c + 32 :: nat) else c)"

definition same_name :: "string \<Rightarrow> string \<Rightarrow> bool" where
  "same_name k name \<longleftrightarrow> map lower k = map lower name"

fun read_members :: "(string \<Rightarrow> json \<Rightarrow> 'r \<Rightarrow> json_error + 'r) \<Rightarrow> (string \<times> json) list \<Rightarrow> 'r \<Rightarrow> json_error + 'r" where
  "read_members f [] r = Inr r"
| "read_members f ((k, v) # kvs) r = (case f k v r of Inl e \<Rightarrow> Inl e | Inr r \<Rightarrow> read_members f kvs r)"

fun read_struct :: "(string \<Rightarrow> json \<Rightarrow> 'r \<Rightarrow> json_error + 'r) \<Rightarrow> json \<Rightarrow> 'r \<Rightarrow> json_error + 'r" where
  "read_struct f (JObject kvs) r = read_members f kvs r"
| "read_struct f JNull r = Inr r"
| "read_struct f _ r = Inl JsonType"

definition read_string :: "json \<Rightarrow> string \<Rightarrow> json_error + string" where
  "read_string v old = (if v = JNull then Inr old else json_to_string v)"

definition read_byte :: "json \<Rightarrow> u8 \<Rightarrow> json_error + u8" where
  "read_byte v old = (if v = JNull then Inr old else map_sum id (\<lambda>w. word_of_nat (unat w)) (json_to_uint 8 v))"

text \<open>An array of bytes is written as numbers; of \<open>n\<close> bytes, what is missing is zero, what is too much is left out.\<close>

definition json_array :: "bytes \<Rightarrow> json" where
  "json_array bs = JArray (map (\<lambda>b. json_int (uint b)) bs)"

definition read_array :: "nat \<Rightarrow> json \<Rightarrow> bytes \<Rightarrow> json_error + bytes" where
  "read_array n v old =
     (case v of
        JNull \<Rightarrow> Inr old
      | JArray vs \<Rightarrow>
          map_sum id (\<lambda>bs. bs @ replicate (n - length bs) 0) (json_all (\<lambda>(v, old). read_byte v old) (zip (take n vs) old))
      | _ \<Rightarrow> Inl JsonType)"

text \<open>The first document of a text, as a \<^verbatim>\<open>json.Decoder\<close> takes it; what follows is left.\<close>

definition decode_json :: "string \<Rightarrow> json option" where
  "decode_json s = map_option fst (parse_value (2 * length s + 2) s)"

subsection \<open>Names of members\<close>

lemma lower_T: "lower CHR ''T'' = CHR ''t''" "lower CHR ''P'' = CHR ''p''" "lower CHR ''K'' = CHR ''k''" "lower CHR ''I'' = CHR ''i''"
  by (simp_all add: lower_def less_eq_char_def char_of_def bit_Suc_0_iff)

lemma lower_lower: "CHR ''a'' \<le> c \<Longrightarrow> lower c = c"
  by (auto simp: lower_def less_eq_char_def)

lemma lower_letters:
  "lower CHR ''a'' = CHR ''a''" "lower CHR ''b'' = CHR ''b''" "lower CHR ''c'' = CHR ''c''" "lower CHR ''d'' = CHR ''d''"
  "lower CHR ''e'' = CHR ''e''" "lower CHR ''f'' = CHR ''f''" "lower CHR ''g'' = CHR ''g''" "lower CHR ''h'' = CHR ''h''" "lower CHR ''i'' = CHR ''i''"
  "lower CHR ''k'' = CHR ''k''" "lower CHR ''l'' = CHR ''l''" "lower CHR ''m'' = CHR ''m''" "lower CHR ''n'' = CHR ''n''"
  "lower CHR ''o'' = CHR ''o''" "lower CHR ''p'' = CHR ''p''" "lower CHR ''r'' = CHR ''r''" "lower CHR ''s'' = CHR ''s''"
  "lower CHR ''t'' = CHR ''t''" "lower CHR ''u'' = CHR ''u''" "lower CHR ''v'' = CHR ''v''" "lower CHR ''x'' = CHR ''x''"
  "lower CHR ''y'' = CHR ''y''"
  by (simp_all add: lower_lower less_eq_char_def)

lemmas names = same_name_def lower_T lower_letters

subsection \<open>Written and read\<close>

lemma read_byte_json [simp]: "read_byte (json_int (uint b)) old = Inr b"
proof -
  have b: "unat b < 256" using unsigned_less [of b, where 'a = nat] by simp
  then have nb: "\<not> 256 \<le> unat b" by (metis not_le)
  have "unat b < 2 ^ 64" by (rule less_trans [OF b]) simp
  then obtain w where w: "ParseUint (number_text 10 (unat b)) 10 = Inr w" "unat w = unat b" using ParseUint_number by blast
  have "(word_of_nat (unat w) :: u8) = word_of_nat (unat b)" by (simp only: w(2))
  then have "ucast w = b" by simp
  then show ?thesis using nb w by (auto simp: read_byte_def json_int_def int_text_def)
qed

lemma read_array_json:
  assumes "length bs = n" "length old = n"
  shows "read_array n (json_array bs) old = Inr bs"
proof -
  have "json_all (\<lambda>(v, old). read_byte v old) (zip (map (\<lambda>b. json_int (uint b)) bs) old) = Inr bs" if "length bs = length old" for bs old :: bytes
    using that by (induction bs old rule: list_induct2) simp_all
  then show ?thesis using assms by (simp add: read_array_def json_array_def)
qed

lemma plain_json_array [simp]: "plain (json_array bs)"
  by (simp add: json_array_def)

lemma decode_print_json:
  assumes "plain j" "number_ends rest"
  shows "decode_json (print_json j @ rest) = Some j"
proof -
  have "parse_value (2 * length (print_json j @ rest) + 2) (print_json j @ rest) = Some (j, rest)"
    using plain_reads [OF assms(1), unfolded reads_def] assms(2) by (simp del: parse_value.simps)
  then show ?thesis by (simp add: decode_json_def del: parse_value.simps)
qed

end
