(* ===== verification/Order_Files.thy ===== *)
theory Order_Files
  imports Order_Json Json_Struct
begin

section \<open>Orders in files: \<^verbatim>\<open>order/order.go\<close>\<close>

text \<open>
  Orders as documents, and their files. The files are texts by path; a path may be refused with an error. The texts of times are an argument
  \<open>T\<close>. An order that is returned beside an error is left out.
\<close>

record time_texts =
  order_time_json :: "time \<Rightarrow> string option"
  order_time_read :: "string \<Rightarrow> time option"
  order_time_zero :: time

record order_files =
  OfTexts :: "string \<rightharpoonup> string"
  OfRefuses :: "string \<rightharpoonup> string"

datatype file_error = ErrFile string | ErrFileJson json_error | ErrTimeRange

subsection \<open>Writing\<close>

definition coexp_document :: "coexp \<Rightarrow> json" where
  "coexp_document v = JArray [json_int (uint (Co v)), json_int (uint (Expn v))]"

definition order_document :: "time_texts \<Rightarrow> order \<Rightarrow> json option" where
  "order_document T ord =
     map_option (\<lambda>t. JObject
         [(''signature'', json_array (Signature ord)), (''id'', json_array (ID ord)), (''type'', json_int (sint (Type ord))),
          (''parity'', json_int (sint (Parity ord))), (''settlement'', json_int (uint (Settlement ord))), (''expiry'', JString t),
          (''tokens'', json_int (uint (Tokens ord))), (''price'', coexp_document (Price ord)), (''volume'', coexp_document (Volume ord)),
          (''minimumVolume'', coexp_document (MinimumVolume ord)), (''nonce'', json_int (uint (Nonce ord)))])
       (order_time_json T (Expiry ord))"

text \<open>A pointer that is nil is null.\<close>

fun orders_document :: "time_texts \<Rightarrow> order option list \<Rightarrow> json list option" where
  "orders_document T [] = Some []"
| "orders_document T (p # ps) =
     (case (case p of None \<Rightarrow> Some JNull | Some ord \<Rightarrow> order_document T ord) of
        None \<Rightarrow> None
      | Some j \<Rightarrow> map_option ((#) j) (orders_document T ps))"

text \<open>The file is there, and empty, before the orders are encoded.\<close>

definition WriteOrdersToJSONFile :: "time_texts \<Rightarrow> order_files \<Rightarrow> string \<Rightarrow> order option list \<Rightarrow> order_files \<times> file_error option" where
  "WriteOrdersToJSONFile T fs fileName orders =
     (case OfRefuses fs fileName of
        Some e \<Rightarrow> (fs, Some (ErrFile e))
      | None \<Rightarrow>
          (case orders_document T orders of
             None \<Rightarrow> (fs\<lparr>OfTexts := (OfTexts fs)(fileName \<mapsto> [])\<rparr>, Some ErrTimeRange)
           | Some js \<Rightarrow> (fs\<lparr>OfTexts := (OfTexts fs)(fileName \<mapsto> print_json (JArray js) @ [CHR 0x0A])\<rparr>, None)))"

subsection \<open>Reading\<close>

definition read_int8 :: "json \<Rightarrow> u8 \<Rightarrow> json_error + u8" where
  "read_int8 v old =
     (if v = JNull then Inr old
      else (case json_to_int v of Inl e \<Rightarrow> Inl e | Inr i \<Rightarrow> if i < - 128 \<or> 127 < i then Inl JsonType else Inr (word_of_int i)))"

definition read_uint32 :: "json \<Rightarrow> u32 \<Rightarrow> json_error + u32" where
  "read_uint32 v old = (if v = JNull then Inr old else map_sum id (\<lambda>w. word_of_nat (unat w)) (json_to_uint 32 v))"

definition read_uint64 :: "json \<Rightarrow> u64 \<Rightarrow> json_error + u64" where
  "read_uint64 v old = (if v = JNull then Inr old else json_to_uint 64 v)"

text \<open>A value has a reader of its own, which reads null as zero.\<close>

definition read_coexp :: "json \<Rightarrow> json_error + coexp" where
  "read_coexp v = map_sum id (\<lambda>(co, exp). \<lparr>Co = co, Expn = exp\<rparr>) (json_to_pair (json_to_uint 64) 0 v)"

definition read_expiry :: "time_texts \<Rightarrow> json \<Rightarrow> time \<Rightarrow> json_error + time" where
  "read_expiry T v old =
     (case v of
        JNull \<Rightarrow> Inr old
      | JString s \<Rightarrow> (case order_time_read T s of None \<Rightarrow> Inl JsonType | Some t \<Rightarrow> Inr t)
      | _ \<Rightarrow> Inl JsonType)"

definition read_order :: "time_texts \<Rightarrow> string \<Rightarrow> json \<Rightarrow> order \<Rightarrow> json_error + order" where
  "read_order T k v r =
     (if same_name k ''signature'' then map_sum id (\<lambda>x. r\<lparr>Signature := x\<rparr>) (read_array 65 v (Signature r))
      else if same_name k ''id'' then map_sum id (\<lambda>x. r\<lparr>ID := x\<rparr>) (read_array 32 v (ID r))
      else if same_name k ''type'' then map_sum id (\<lambda>x. r\<lparr>Type := x\<rparr>) (read_int8 v (Type r))
      else if same_name k ''parity'' then map_sum id (\<lambda>x. r\<lparr>Parity := x\<rparr>) (read_int8 v (Parity r))
      else if same_name k ''settlement'' then map_sum id (\<lambda>x. r\<lparr>Settlement := x\<rparr>) (read_uint32 v (Settlement r))
      else if same_name k ''expiry'' then map_sum id (\<lambda>x. r\<lparr>Expiry := x\<rparr>) (read_expiry T v (Expiry r))
      else if same_name k ''tokens'' then map_sum id (\<lambda>x. r\<lparr>Tokens := x\<rparr>) (read_uint64 v (Tokens r))
      else if same_name k ''price'' then map_sum id (\<lambda>x. r\<lparr>Price := x\<rparr>) (read_coexp v)
      else if same_name k ''volume'' then map_sum id (\<lambda>x. r\<lparr>Volume := x\<rparr>) (read_coexp v)
      else if same_name k ''minimumVolume'' then map_sum id (\<lambda>x. r\<lparr>MinimumVolume := x\<rparr>) (read_coexp v)
      else if same_name k ''nonce'' then map_sum id (\<lambda>x. r\<lparr>Nonce := x\<rparr>) (read_uint64 v (Nonce r))
      else Inr r)"

definition no_order :: "time_texts \<Rightarrow> order" where
  "no_order T = \<lparr>Signature = replicate 65 0, ID = replicate 32 0, Type = 0, Parity = 0, Settlement = 0, Expiry = order_time_zero T,
     Tokens = 0, Price = \<lparr>Co = 0, Expn = 0\<rparr>, Volume = \<lparr>Co = 0, Expn = 0\<rparr>, MinimumVolume = \<lparr>Co = 0, Expn = 0\<rparr>, Nonce = 0\<rparr>"

definition decode_file :: "(json \<Rightarrow> json_error + 'a) \<Rightarrow> order_files \<Rightarrow> string \<Rightarrow> file_error + 'a" where
  "decode_file f fs fileName =
     (case OfRefuses fs fileName of
        Some e \<Rightarrow> Inl (ErrFile e)
      | None \<Rightarrow>
          (case OfTexts fs fileName of
             None \<Rightarrow> Inl (ErrFile ''no such file or directory'')
           | Some s \<Rightarrow> (case decode_json s of None \<Rightarrow> Inl (ErrFileJson JsonSyntax) | Some j \<Rightarrow> map_sum ErrFileJson id (f j))))"

definition NewOrderFromJSONFile :: "time_texts \<Rightarrow> order_files \<Rightarrow> string \<Rightarrow> file_error + order" where
  "NewOrderFromJSONFile T = decode_file (\<lambda>j. read_struct (read_order T) j (no_order T))"

definition NewOrdersFromJSONFile :: "time_texts \<Rightarrow> order_files \<Rightarrow> string \<Rightarrow> file_error + order list" where
  "NewOrdersFromJSONFile T =
     decode_file (\<lambda>j. case json_to_list j of Inl e \<Rightarrow> Inl e | Inr vs \<Rightarrow> json_all (\<lambda>v. read_struct (read_order T) v (no_order T)) vs)"

subsection \<open>Orders that were written are read\<close>

definition time_texts_ok :: "time_texts \<Rightarrow> bool" where
  "time_texts_ok T \<longleftrightarrow> (\<forall>t s. order_time_json T t = Some s \<longrightarrow> ascii s \<and> order_time_read T s = Some t)"

definition order_sized :: "order \<Rightarrow> bool" where
  "order_sized ord \<longleftrightarrow> length (Signature ord) = 65 \<and> length (ID ord) = 32"

lemma read_int8_json: "read_int8 (json_int (sint w)) old = Inr w"
proof -
  have b: "- 128 \<le> sint w" "sint w < 128" using sint_ge [of w] sint_lt [of w] by simp_all
  then have "json_to_int (json_int (sint w)) = Inr (sint w)" by (intro json_to_int_json) simp_all
  then show ?thesis using b by (simp add: read_int8_def) (simp add: json_int_def)
qed

lemma read_uint32_json: "read_uint32 (json_int (uint w)) old = Inr w"
proof -
  have b: "unat w < 4294967296" using unsigned_less [of w, where 'a = nat] by simp
  then have nb: "\<not> 4294967296 \<le> unat w" by (metis not_le)
  have "unat w < 2 ^ 64" by (rule less_trans [OF b]) simp
  then obtain v where v: "ParseUint (number_text 10 (unat w)) 10 = Inr v" "unat v = unat w" using ParseUint_number by blast
  have "(word_of_nat (unat v) :: u32) = word_of_nat (unat w)" by (simp only: v(2))
  then have e: "ucast v = w" by simp
  show ?thesis using v e nb by (simp add: read_uint32_def json_int_def int_text_def)
qed

lemma read_uint64_json: "read_uint64 (json_int (uint w)) old = Inr w"
  using json_to_uint_json [of w] by (simp add: read_uint64_def) (simp add: json_int_def)

lemma read_coexp_document: "read_coexp (coexp_document v) = Inr v"
  by (simp add: read_coexp_def coexp_document_def json_to_uint_json coexp_eta)

lemma order_document_read:
  assumes "time_texts_ok T" "order_sized ord" "order_document T ord = Some j"
  shows "read_struct (read_order T) j (no_order T) = Inr ord" "plain j"
proof -
  obtain t where t: "order_time_json T (Expiry ord) = Some t" using assms(3) by (auto simp: order_document_def)
  then have r: "ascii t" "order_time_read T t = Some (Expiry ord)" using assms(1) unfolding time_texts_ok_def by blast+
  show "read_struct (read_order T) j (no_order T) = Inr ord"
    using assms(2,3) t r
    by (auto simp: order_document_def order_sized_def no_order_def read_order_def names read_array_json read_int8_json read_uint32_json
        read_uint64_json read_coexp_document read_expiry_def)
  show "plain j" using assms(3) t r(1) by (auto simp: order_document_def coexp_document_def)
qed

lemma orders_document_read:
  assumes "time_texts_ok T" "\<forall>ord\<in>set ords. order_sized ord \<and> order_time_json T (Expiry ord) \<noteq> None"
  shows "\<exists>js. orders_document T (map Some ords) = Some js \<and> json_all (\<lambda>v. read_struct (read_order T) v (no_order T)) js = Inr ords \<and>
    (\<forall>j\<in>set js. plain j)"
  using assms(2)
proof (induction ords)
  case (Cons ord ords)
  then obtain js where js: "orders_document T (map Some ords) = Some js" "json_all (\<lambda>v. read_struct (read_order T) v (no_order T)) js = Inr ords"
    "\<forall>j\<in>set js. plain j" by auto
  obtain j where "order_document T ord = Some j" using Cons.prems by (auto simp: order_document_def)
  then show ?case using js order_document_read [OF assms(1), of ord j] Cons.prems by simp
qed simp

text \<open>Orders that are written to a file are read from it, all of them in their order.\<close>

lemma orders_file_roundtrip:
  assumes "time_texts_ok T" "\<forall>ord\<in>set ords. order_sized ord \<and> order_time_json T (Expiry ord) \<noteq> None" "OfRefuses fs path = None"
  shows "\<exists>fs'. WriteOrdersToJSONFile T fs path (map Some ords) = (fs', None) \<and> NewOrdersFromJSONFile T fs' path = Inr ords"
proof -
  obtain js where js: "orders_document T (map Some ords) = Some js" "json_all (\<lambda>v. read_struct (read_order T) v (no_order T)) js = Inr ords"
    "\<forall>j\<in>set js. plain j" using orders_document_read [OF assms(1,2)] by blast
  have "decode_json (print_json (JArray js) @ [CHR 0x0A]) = Some (JArray js)"
    by (rule decode_print_json) (use js(3) in \<open>simp_all add: number_ends_def is_digit_def less_eq_char_def\<close>)
  then show ?thesis using js assms(3) by (simp add: WriteOrdersToJSONFile_def NewOrdersFromJSONFile_def decode_file_def)
qed

text \<open>An order that cannot be encoded leaves an empty file in the place of the old one.\<close>

lemma failed_write_empties:
  assumes "OfRefuses fs path = None" "order_time_json T (Expiry ord) = None"
  shows "\<exists>fs'. WriteOrdersToJSONFile T fs path (Some ord # ps) = (fs', Some ErrTimeRange) \<and> OfTexts fs' path = Some []"
  using assms by (simp add: WriteOrdersToJSONFile_def order_document_def)

text \<open>A file that starts with a null is an order without values, and no error.\<close>

lemma null_is_an_order:
  assumes "OfRefuses fs path = None" "OfTexts fs path = Some (print_json JNull)"
  shows "NewOrderFromJSONFile T fs path = Inr (no_order T)"
  using assms decode_print_json [of JNull "[]"] by (simp add: NewOrderFromJSONFile_def decode_file_def number_ends_def)

end
