(* ===== verification/Smpc_Joiner.thy ===== *)
theory Smpc_Joiner
  imports Order "HOL-Library.AList" "HOL-Library.Multiset"
begin

section \<open>Joining shares: \<^verbatim>\<open>smpc/joiner.go\<close>\<close>

text \<open>
  A \<^verbatim>\<open>Joiner\<close> collects joins (one share for each of several values, all held by one node)
  by their identifier, and once it has joins with \<open>k\<close> different indices it reconstructs the values
  and calls the callback. The mutex makes every call atomic, so a joiner is a state that each call
  transforms.

  A Go map is an association list with different keys; the order in which \<^verbatim>\<open>range\<close> visits
  it is unspecified, and differs from one loop to the next: \<open>rng i\<close> is the order in the \<open>i\<close>-th loop,
  and the lemmas hold for every \<open>rng\<close> that visits each entry once. \<^const>\<open>None\<close> stands for a panic.
  A callback is a value of type \<open>'cb\<close>; calling it is an output of the operation.
\<close>

type_synonym join_id = bytes

record join =
  JoinID :: join_id
  JoinIndex :: u64
  JoinShares :: "share list"

datatype join_error = ErrJoinLengthUnequal | ErrJoinLengthExceedsMax

definition MaxJoinLength :: nat where
  "MaxJoinLength = 16"

record 'cb join_set =
  JoinMap :: "(u64 \<times> join) list"
  Values :: "u64 list"
  ValuesOk :: bool
  ValuesLen :: nat
  Callback :: "'cb option"

record 'cb joiner =
  threshold :: int
  jcache :: "share list"
  joinSets :: "join_id \<Rightarrow> 'cb join_set option"

text \<open>\<^verbatim>\<open>make(shamir.Shares, k)\<close> panics on a negative length.\<close>

definition NewJoiner :: "int \<Rightarrow> 'cb joiner option" where
  "NewJoiner k =
     (if k < 0 then None
      else Some \<lparr>threshold = k, jcache = replicate (nat k) \<lparr>Index = 0, Value = 0\<rparr>, joinSets = (\<lambda>_. None)\<rparr>)"

text \<open>The loop over the joins of a set: copy the \<open>i\<close>-th share of each into the cache, until the
  cache has \<open>kk\<close> shares. Indexing the cache or the shares out of range panics.\<close>

fun fill_cache :: "int \<Rightarrow> nat \<Rightarrow> join list \<Rightarrow> nat \<Rightarrow> share list \<Rightarrow> share list option" where
  "fill_cache kk i [] k cache = Some cache"
| "fill_cache kk i (join # joins) k cache =
     (if i < length (JoinShares join) \<and> k < length cache then
        let cache = cache[k := JoinShares join ! i]
        in if int (Suc k) \<ge> kk then Some cache else fill_cache kk i joins (Suc k) cache
      else None)"

fun reconstruct :: "(nat \<Rightarrow> join list \<Rightarrow> join list) \<Rightarrow> int \<Rightarrow> join list \<Rightarrow> nat list \<Rightarrow> share list \<Rightarrow> u64 list \<Rightarrow>
    (share list \<times> u64 list) option" where
  "reconstruct rng kk joins [] cache vals = Some (cache, vals)"
| "reconstruct rng kk joins (i # is) cache vals =
     do { cache \<leftarrow> fill_cache kk i (rng i joins) 0 cache;
          v \<leftarrow> Shamir.Join cache;
          (if i < length vals then reconstruct rng kk joins is cache (vals[i := v]) else None) }"

definition new_join_set :: "join \<Rightarrow> 'cb join_set" where
  "new_join_set join = \<lparr>JoinMap = [], Values = replicate MaxJoinLength 0, ValuesOk = False,
     ValuesLen = length (JoinShares join), Callback = None\<rparr>"

definition insertJoin ::
    "(nat \<Rightarrow> join list \<Rightarrow> join list) \<Rightarrow> 'cb joiner \<Rightarrow> join \<Rightarrow> 'cb option \<Rightarrow> bool \<Rightarrow>
     ('cb joiner \<times> (join_error + ('cb \<times> join_id \<times> u64 list) option)) option" where
  "insertJoin rng joiner join callback overrideCallback =
     (if length (JoinShares join) > MaxJoinLength then Some (joiner, Inl ErrJoinLengthExceedsMax)
      else
        let put = (\<lambda>js c. joiner\<lparr>jcache := c, joinSets := (joinSets joiner)(JoinID join \<mapsto> js)\<rparr>);
            js = (case joinSets joiner (JoinID join) of None \<Rightarrow> new_join_set join | Some js \<Rightarrow> js)
        in if length (JoinShares join) \<noteq> ValuesLen js then Some (put js (jcache joiner), Inl ErrJoinLengthUnequal)
           else
             let js = (if ValuesOk js then js else js\<lparr>JoinMap := AList.update (JoinIndex join) join (JoinMap js)\<rparr>);
                 js = (if overrideCallback then js\<lparr>Callback := callback\<rparr> else js)
             in if int (length (JoinMap js)) < threshold joiner then Some (put js (jcache joiner), Inr None)
                else
                  do { (c, vals) \<leftarrow>
                         (if ValuesOk js then Some (jcache joiner, Values js)
                          else reconstruct rng (threshold joiner) (map snd (JoinMap js)) [0..<ValuesLen js]
                                 (jcache joiner) (Values js));
                       let js = js\<lparr>Values := vals, ValuesOk := True\<rparr>;
                       Some (put (js\<lparr>Callback := None\<rparr>) c,
                             Inr (map_option (\<lambda>cb. (cb, JoinID join, take (ValuesLen js) vals)) (Callback js))) })"

definition InsertJoinAndSetCallback where
  "InsertJoinAndSetCallback rng joiner join callback = insertJoin rng joiner join callback True"

definition InsertJoin where
  "InsertJoin rng joiner join = insertJoin rng joiner join None False"

subsection \<open>The state of a joiner\<close>

definition join_set_wf :: "int \<Rightarrow> join_id \<Rightarrow> 'cb join_set \<Rightarrow> bool" where
  "join_set_wf k jid js \<longleftrightarrow> distinct (map fst (JoinMap js)) \<and> length (Values js) = MaxJoinLength \<and>
     ValuesLen js \<le> MaxJoinLength \<and>
     (\<forall>(i, j)\<in>set (JoinMap js). JoinIndex j = i \<and> JoinID j = jid \<and> length (JoinShares j) = ValuesLen js) \<and>
     int (length (JoinMap js)) \<le> k \<and> (ValuesOk js \<longleftrightarrow> int (length (JoinMap js)) = k)"

definition joiner_wf :: "'cb joiner \<Rightarrow> bool" where
  "joiner_wf jr \<longleftrightarrow> 0 < threshold jr \<and> int (length (jcache jr)) = threshold jr \<and>
     (\<forall>jid js. joinSets jr jid = Some js \<longrightarrow> join_set_wf (threshold jr) jid js)"

lemma NewJoiner_wf: "0 < k \<Longrightarrow> \<exists>jr. NewJoiner k = Some jr \<and> joiner_wf jr \<and> threshold jr = k \<and> (\<forall>jid. joinSets jr jid = None)"
  by (simp add: NewJoiner_def joiner_wf_def)

subsection \<open>Reconstruction\<close>

definition any_order :: "(nat \<Rightarrow> 'a list \<Rightarrow> 'a list) \<Rightarrow> bool" where
  "any_order rng \<longleftrightarrow> (\<forall>i xs. mset (rng i xs) = mset xs)"

lemma any_order_facts:
  assumes "any_order rng"
  shows "set (rng i xs) = set xs" "length (rng i xs) = length xs"
    "distinct (map f (rng i xs)) \<longleftrightarrow> distinct (map f xs)"
proof -
  have m: "mset (rng i xs) = mset xs" using assms by (simp add: any_order_def)
  show "set (rng i xs) = set xs" "length (rng i xs) = length xs"
    using mset_eq_setD [OF m] mset_eq_length [OF m] by auto
  show "distinct (map f (rng i xs)) \<longleftrightarrow> distinct (map f xs)"
    by (intro mset_eq_imp_distinct_iff) (simp add: m)
qed

lemma fill_cache_value:
  "k + length joins = length cache \<Longrightarrow> int (length cache) = kk \<Longrightarrow> \<forall>j\<in>set joins. i < length (JoinShares j) \<Longrightarrow>
    fill_cache kk i joins k cache = Some (take k cache @ map (\<lambda>j. JoinShares j ! i) joins)"
proof (induction joins arbitrary: k cache)
  case (Cons j joins)
  have "take (Suc k) (cache[k := JoinShares j ! i]) = take k cache @ [JoinShares j ! i]"
    using Cons.prems(1) by (simp add: take_Suc_conv_app_nth)
  moreover have "joins = []" if "int (length cache) \<le> 1 + int k"
    using that Cons.prems(1) by (cases joins) auto
  ultimately show ?case using Cons by (auto simp: Let_def)
qed simp

lemma fill_cache_joins:
  assumes "any_order rng" "int (length joins) = kk" "length c = length joins" "\<forall>j\<in>set joins. i < length (JoinShares j)"
  shows "fill_cache kk i (rng i joins) 0 c = Some (map (\<lambda>j. JoinShares j ! i) (rng i joins))"
  using assms(2-4) by (subst fill_cache_value) (auto simp: any_order_facts [OF assms(1)])

lemma reconstruct_value:
  assumes "int (length joins) = kk" "any_order rng"
    and "\<And>i. i \<in> set is \<Longrightarrow> Shamir.Join (map (\<lambda>j. JoinShares j ! i) (rng i joins)) = Some (v i)"
    and "\<And>i j. i \<in> set is \<Longrightarrow> j \<in> set joins \<Longrightarrow> i < length (JoinShares j)"
  shows "length c = length joins \<Longrightarrow> \<forall>i\<in>set is. i < length vals \<Longrightarrow>
    \<exists>c'. reconstruct rng kk joins is c vals = Some (c', fold (\<lambda>i vs. vs[i := v i]) is vals) \<and> length c' = length joins"
  using assms(3,4)
proof (induction "is" arbitrary: c vals)
  case (Cons i "is")
  have fc: "fill_cache kk i (rng i joins) 0 c = Some (map (\<lambda>j. JoinShares j ! i) (rng i joins))"
    using Cons.prems(1,4) assms(1) by (intro fill_cache_joins [OF assms(2)]) auto
  have l: "length (map (\<lambda>j. JoinShares j ! i) (rng i joins)) = length joins" by (simp add: any_order_facts [OF assms(2)])
  have "\<exists>c'. reconstruct rng kk joins is (map (\<lambda>j. JoinShares j ! i) (rng i joins)) (vals[i := v i]) =
      Some (c', fold (\<lambda>i vs. vs[i := v i]) is (vals[i := v i])) \<and> length c' = length joins"
    using Cons.prems by (intro Cons.IH [OF l]) auto
  then show ?case using fc Cons.prems(2,3) by simp
qed simp

lemma fold_set_upt:
  "m \<le> length ws \<Longrightarrow> take m (fold (\<lambda>i ws. ws[i := f i]) [0..<m] ws) = map f [0..<m] \<and>
    length (fold (\<lambda>i ws. ws[i := f i]) [0..<m] ws) = length ws"
  by (induction m) (auto simp: take_Suc_conv_app_nth)

text \<open>The joins that the nodes of a network hold for one identifier: the \<open>i\<close>-th shares form a sharing
  of the \<open>i\<close>-th value, and every share carries the index of its join.\<close>

definition join_family :: "nat \<Rightarrow> join_id \<Rightarrow> int list \<Rightarrow> join list \<Rightarrow> bool" where
  "join_family k jid ss U \<longleftrightarrow> length ss \<le> MaxJoinLength \<and>
     (\<forall>j\<in>set U. JoinID j = jid \<and> length (JoinShares j) = length ss \<and> JoinIndex j < Prime \<and>
        (\<forall>sh\<in>set (JoinShares j). Index sh = JoinIndex j)) \<and>
     (\<forall>i<length ss. sharing k (ss ! i) (map (\<lambda>j. JoinShares j ! i) U))"

definition secret_words :: "int list \<Rightarrow> u64 list" where
  "secret_words ss = map (\<lambda>s. word_of_int (s mod fp)) ss"

lemma join_family_join:
  assumes U: "join_family k jid ss U" and i: "i < length ss"
    and js: "set js \<subseteq> set U" "distinct (map JoinIndex js)" "length js = k"
  shows "Shamir.Join (map (\<lambda>j. JoinShares j ! i) js) = Some (secret_words ss ! i)"
proof -
  let ?shs = "map (\<lambda>j. JoinShares j ! i) js"
  have idx: "Index (JoinShares j ! i) = JoinIndex j" "JoinIndex j < Prime" if "j \<in> set js" for j
    using that js(1) U i by (auto simp: join_family_def subset_iff)
  have "sharing (length ?shs) (ss ! i) ?shs"
  proof (rule sharing_subset)
    show "sharing (length ?shs) (ss ! i) (map (\<lambda>j. JoinShares j ! i) U)" using U i js(3) by (simp add: join_family_def)
  qed (use js(1) in auto)
  moreover have m: "map Index ?shs = map JoinIndex js" using idx by simp
  have "good_indices ?shs" using js(2) idx unfolding good_indices_def m by auto
  ultimately obtain z where "Shamir.Join ?shs = Some z" "uint z = ss ! i mod fp"
    using shamir.join_sharing by blast
  then show ?thesis using i by (metis (no_types, lifting) nth_map secret_words_def word_of_int_uint)
qed

subsection \<open>One insertion\<close>

definition join_set_inv :: "nat \<Rightarrow> join_id \<Rightarrow> int list \<Rightarrow> join list \<Rightarrow> 'cb join_set \<Rightarrow> bool" where
  "join_set_inv k jid ss U js \<longleftrightarrow> join_set_wf (int k) jid js \<and> ValuesLen js = length ss \<and>
     snd ` set (JoinMap js) \<subseteq> set U \<and>
     (ValuesOk js \<longrightarrow> take (ValuesLen js) (Values js) = secret_words ss \<and> Callback js = None)"

definition have_indices :: "'cb join_set \<Rightarrow> u64 set" where
  "have_indices js = fst ` set (JoinMap js)"

lemma card_have_indices: "join_set_wf k jid js \<Longrightarrow> card (have_indices js) = length (JoinMap js)"
  unfolding have_indices_def join_set_wf_def by (metis distinct_card length_map list.set_map)

lemma reconstruct_family:
  assumes U: "join_family k jid ss U" and "any_order rng"
    and js: "set joins \<subseteq> set U" "distinct (map JoinIndex joins)" "length joins = k"
    and "length c = k" "length vals = MaxJoinLength"
  shows "\<exists>c' vals'. reconstruct rng (int k) joins [0..<length ss] c vals = Some (c', vals') \<and> length c' = k \<and>
    length vals' = MaxJoinLength \<and> take (length ss) vals' = secret_words ss"
proof -
  let ?v = "\<lambda>i. secret_words ss ! i"
  have len: "length ss \<le> length vals" using U assms(7) by (simp add: join_family_def)
  have j: "Shamir.Join (map (\<lambda>j. JoinShares j ! i) (rng i joins)) = Some (?v i)" if "i \<in> set [0..<length ss]" for i
    using that js by (intro join_family_join [OF U]) (simp_all add: any_order_facts [OF assms(2)])
  have s: "i < length (JoinShares j)" if "i \<in> set [0..<length ss]" "j \<in> set joins" for i j
    using that js(1) U by (auto simp: join_family_def)
  have b: "\<forall>i\<in>set [0..<length ss]. i < length vals" using len by auto
  obtain c' where "reconstruct rng (int k) joins [0..<length ss] c vals =
      Some (c', fold (\<lambda>i vs. vs[i := ?v i]) [0..<length ss] vals)" "length c' = length joins"
    using reconstruct_value [OF _ assms(2) j s _ b, of "int k" c] assms(6) js(3) by auto
  moreover have "map ?v [0..<length ss] = secret_words ss"
    by (rule nth_equalityI) (simp_all add: secret_words_def)
  ultimately show ?thesis using fold_set_upt [OF len, of ?v] js(3) assms(7) by auto
qed



text \<open>What an insertion does to the set of its identifier, to the rest of the state, and which
  callback it calls.\<close>

definition pending :: "'cb joiner \<Rightarrow> join_id \<Rightarrow> 'cb option \<Rightarrow> bool \<Rightarrow> 'cb option" where
  "pending jr jid cb ov =
     (if ov then cb else case joinSets jr jid of None \<Rightarrow> None | Some js \<Rightarrow> Callback js)"

definition joined_indices :: "'cb joiner \<Rightarrow> join_id \<Rightarrow> u64 set" where
  "joined_indices jr jid = (case joinSets jr jid of None \<Rightarrow> {} | Some js \<Rightarrow> have_indices js)"

definition joined :: "'cb joiner \<Rightarrow> join_id \<Rightarrow> bool" where
  "joined jr jid = (case joinSets jr jid of None \<Rightarrow> False | Some js \<Rightarrow> ValuesOk js)"

definition joiner_inv :: "nat \<Rightarrow> join_id \<Rightarrow> int list \<Rightarrow> join list \<Rightarrow> 'cb joiner \<Rightarrow> bool" where
  "joiner_inv k jid ss U jr \<longleftrightarrow> joiner_wf jr \<and> threshold jr = int k \<and>
     (\<forall>js. joinSets jr jid = Some js \<longrightarrow> join_set_inv k jid ss U js)"

lemma joined_iff: "joiner_inv k jid ss U jr \<Longrightarrow> joined jr jid \<longleftrightarrow> k \<le> card (joined_indices jr jid)"
proof (cases "joinSets jr jid")
  case None
  assume "joiner_inv k jid ss U jr"
  then have "0 < k" by (simp add: joiner_inv_def joiner_wf_def)
  then show ?thesis using None by (simp add: joined_def joined_indices_def)
next
  case (Some js)
  assume "joiner_inv k jid ss U jr"
  then have w: "join_set_wf (int k) jid js" using Some by (simp add: joiner_inv_def join_set_inv_def)
  then show ?thesis using Some card_have_indices [OF w]
    by (auto simp: joined_def joined_indices_def join_set_wf_def)
qed

lemma set_update_subset: "set (AList.update k v al) \<subseteq> insert (k, v) (set al)"
  by (induction al) (auto split: if_splits)

lemma update_append: "k \<notin> fst ` set al \<Longrightarrow> AList.update k v al = al @ [(k, v)]"
  by (induction al) auto

lemma update_wf:
  assumes "join_set_wf k jid js" "\<not> ValuesOk js" "JoinID j = jid" "length (JoinShares j) = ValuesLen js"
  defines "m \<equiv> AList.update (JoinIndex j) j (JoinMap js)"
  shows "distinct (map fst m)" "\<forall>(i, j)\<in>set m. JoinIndex j = i \<and> JoinID j = jid \<and> length (JoinShares j) = ValuesLen js"
    "int (length m) \<le> k" "fst ` set m = insert (JoinIndex j) (have_indices js)"
    "snd ` set m \<subseteq> insert j (snd ` set (JoinMap js))"
proof -
  note w = assms(1) [unfolded join_set_wf_def]
  show d: "distinct (map fst m)" using w by (simp add: m_def distinct_update)
  show f: "fst ` set m = insert (JoinIndex j) (have_indices js)"
    by (simp add: m_def dom_update have_indices_def image_image)
  have sub: "set m \<subseteq> insert (JoinIndex j, j) (set (JoinMap js))"
    unfolding m_def by (rule set_update_subset)
  then show "\<forall>(i, j)\<in>set m. JoinIndex j = i \<and> JoinID j = jid \<and> length (JoinShares j) = ValuesLen js"
    using w assms(3,4) by blast
  show "snd ` set m \<subseteq> insert j (snd ` set (JoinMap js))" using sub by force
  have "length m = card (fst ` set m)" using d by (metis distinct_card length_map list.set_map)
  also have "\<dots> \<le> Suc (card (have_indices js))" unfolding f by (rule card_insert_le_m1) (auto simp: have_indices_def)
  finally show "int (length m) \<le> k" using w assms(2) card_have_indices [OF assms(1)] by linarith
qed


lemma new_join_set_inv:
  "0 < k \<Longrightarrow> length (JoinShares j) = length ss \<Longrightarrow> length ss \<le> MaxJoinLength \<Longrightarrow>
    join_set_inv k jid ss U (new_join_set j)"
  by (simp add: join_set_inv_def join_set_wf_def new_join_set_def)

lemma put_join_set:
  assumes "joiner_inv k jid ss U jr" "length c = k" "join_set_inv k jid ss U js'"
  defines "jr' \<equiv> jr\<lparr>jcache := c, joinSets := (joinSets jr)(jid \<mapsto> js')\<rparr>"
  shows "joiner_inv k jid ss U jr'" "\<forall>i. i \<noteq> jid \<longrightarrow> joinSets jr' i = joinSets jr i"
    "joined jr' jid = ValuesOk js'" "joined_indices jr' jid = have_indices js'"
    "pending jr' jid None False = Callback js'"
  using assms by (auto simp: joiner_inv_def joiner_wf_def join_set_inv_def joined_def joined_indices_def pending_def)

lemma insertJoin_unfold:
  assumes "length (JoinShares j) \<le> MaxJoinLength" "length (JoinShares j) = ValuesLen js"
    and js: "js = (case joinSets jr (JoinID j) of None \<Rightarrow> new_join_set j | Some js \<Rightarrow> js)"
    and m: "m = (if ValuesOk js then JoinMap js else AList.update (JoinIndex j) j (JoinMap js))"
    and p: "p = (if ov then cb else Callback js)"
    and put: "put = (\<lambda>js c. jr\<lparr>jcache := c, joinSets := (joinSets jr)(JoinID j \<mapsto> js)\<rparr>)"
  shows "insertJoin rng jr j cb ov =
    (if int (length m) < threshold jr then Some (put (js\<lparr>JoinMap := m, Callback := p\<rparr>) (jcache jr), Inr None)
     else do { (c, vals) \<leftarrow> (if ValuesOk js then Some (jcache jr, Values js)
                 else reconstruct rng (threshold jr) (map snd m) [0..<ValuesLen js] (jcache jr) (Values js));
               Some (put (js\<lparr>JoinMap := m, Values := vals, ValuesOk := True, Callback := None\<rparr>) c,
                 Inr (map_option (\<lambda>cb. (cb, JoinID j, take (ValuesLen js) vals)) p)) })"
  using assms(1,2) unfolding insertJoin_def js [symmetric] put m p Let_def
  by (cases "ValuesOk js"; cases ov) (simp_all cong: if_cong option.case_cong)

lemma insertJoin_family:
  fixes jr :: "'cb joiner"
  assumes U: "join_family k jid ss U" and rng: "any_order rng" and inv: "joiner_inv k jid ss U jr" and j: "j \<in> set U"
  shows "\<exists>jr' out. insertJoin rng jr j cb ov = Some (jr', Inr out) \<and> joiner_inv k jid ss U jr' \<and>
    (\<forall>i. i \<noteq> jid \<longrightarrow> joinSets jr' i = joinSets jr i) \<and>
    joined_indices jr' jid =
      (if joined jr jid then joined_indices jr jid else insert (JoinIndex j) (joined_indices jr jid)) \<and>
    (if joined jr' jid
     then out = map_option (\<lambda>c. (c, jid, secret_words ss)) (pending jr jid cb ov) \<and> pending jr' jid None False = None
     else out = None \<and> pending jr' jid None False = pending jr jid cb ov)"
    (is "\<exists>jr' out. ?ins = Some (jr', Inr out) \<and> ?post jr' out")
proof -
  have jf: "JoinID j = jid" "length (JoinShares j) = length ss" "length ss \<le> MaxJoinLength"
    using U j by (auto simp: join_family_def)
  have th: "threshold jr = int k" and k: "0 < k" "length (jcache jr) = k"
    using inv by (auto simp: joiner_inv_def joiner_wf_def)
  define js where "js = (case joinSets jr jid of None \<Rightarrow> new_join_set j | Some js \<Rightarrow> js)"
  define m where "m = (if ValuesOk js then JoinMap js else AList.update (JoinIndex j) j (JoinMap js))"
  define p where "p = (if ov then cb else Callback js)"
  define put where "put = (\<lambda>js c. jr\<lparr>jcache := c, joinSets := (joinSets jr)(jid \<mapsto> js)\<rparr>)"
  have I: "join_set_inv k jid ss U js"
    using inv new_join_set_inv [OF k(1) jf(2,3)] by (auto simp: js_def joiner_inv_def split: option.splits)
  have W: "join_set_wf (int k) jid js" and L: "ValuesLen js = length ss" using I by (simp_all add: join_set_inv_def)
  have old: "joined jr jid = ValuesOk js" "joined_indices jr jid = have_indices js" "pending jr jid cb ov = p"
    by (auto simp: joined_def joined_indices_def js_def have_indices_def new_join_set_def p_def pending_def split: option.splits)
  have put: "joiner_inv k jid ss U (put js' c)" "\<forall>i. i \<noteq> jid \<longrightarrow> joinSets (put js' c) i = joinSets jr i"
    "joined (put js' c) jid = ValuesOk js'" "joined_indices (put js' c) jid = have_indices js'"
    "pending (put js' c) jid None False = Callback js'" if "length c = k" "join_set_inv k jid ss U js'" for js' c
    using put_join_set [OF inv that] unfolding put_def by simp_all
  have unf: "?ins = (if int (length m) < int k then Some (put (js\<lparr>JoinMap := m, Callback := p\<rparr>) (jcache jr), Inr None)
     else do { (c, vals) \<leftarrow> (if ValuesOk js then Some (jcache jr, Values js)
                 else reconstruct rng (int k) (map snd m) [0..<length ss] (jcache jr) (Values js));
               Some (put (js\<lparr>JoinMap := m, Values := vals, ValuesOk := True, Callback := None\<rparr>) c,
                 Inr (map_option (\<lambda>cb. (cb, jid, take (length ss) vals)) p)) })"
    using insertJoin_unfold [OF _ _ _ m_def p_def put_def [folded jf(1)]] jf L th by (simp add: js_def)
  consider "ValuesOk js" | "\<not> ValuesOk js" "length m < k" | "\<not> ValuesOk js" "\<not> length m < k" by blast
  then show ?thesis
  proof cases
    case 1
    let ?js = "js\<lparr>JoinMap := m, Values := Values js, ValuesOk := True, Callback := None\<rparr>"
    have m: "m = JoinMap js" "length m = k" using 1 W by (simp_all add: m_def join_set_wf_def)
    have "join_set_inv k jid ss U ?js" using I 1 m by (auto simp: join_set_inv_def join_set_wf_def)
    note P = put [OF k(2) this]
    have "?ins = Some (put ?js (jcache jr), Inr (map_option (\<lambda>cb. (cb, jid, secret_words ss)) p))"
      using unf 1 m I L by (simp add: join_set_inv_def)
    then show ?thesis using P 1 old m(1) by (auto simp: have_indices_def)
  next
    case 2
    let ?js = "js\<lparr>JoinMap := m, Callback := p\<rparr>"
    have m: "m = AList.update (JoinIndex j) j (JoinMap js)" using 2 by (simp add: m_def)
    note w = update_wf [OF W 2(1) jf(1) jf(2) [folded L], folded m]
    have sub: "snd ` set m \<subseteq> set U" using w(5) I j unfolding join_set_inv_def by blast
    have "join_set_inv k jid ss U ?js"
      using I 2 w(1-3) sub unfolding join_set_inv_def join_set_wf_def by simp
    note P = put [OF k(2) this]
    have "?ins = Some (put ?js (jcache jr), Inr None)" using unf 2 by simp
    then show ?thesis using P 2 old w(4) by (simp add: have_indices_def)
  next
    case 3
    have m: "m = AList.update (JoinIndex j) j (JoinMap js)" using 3 by (simp add: m_def)
    note w = update_wf [OF W 3(1) jf(1) jf(2) [folded L], folded m]
    have lm: "length m = k" using w(3) 3 by simp
    have sub: "set (map snd m) \<subseteq> set U" using w(5) I j unfolding join_set_inv_def set_map by blast
    have "map JoinIndex (map snd m) = map fst m" using w(2) by auto
    then have d: "distinct (map JoinIndex (map snd m))" using w(1) by (simp only:)
    have lv: "length (Values js) = MaxJoinLength" using W by (simp add: join_set_wf_def)
    have lm': "length (map snd m) = k" using lm by simp
    obtain c vals where r: "reconstruct rng (int k) (map snd m) [0..<length ss] (jcache jr) (Values js) = Some (c, vals)"
      "length c = k" "length vals = MaxJoinLength" "take (length ss) vals = secret_words ss"
      using reconstruct_family [OF U rng sub d lm' k(2) lv] by blast
    let ?js = "js\<lparr>JoinMap := m, Values := vals, ValuesOk := True, Callback := None\<rparr>"
    have "join_set_inv k jid ss U ?js"
      using I r w sub lm by (auto simp: join_set_inv_def join_set_wf_def)
    note P = put [OF r(2) this]
    have "?ins = Some (put ?js c, Inr (map_option (\<lambda>cb. (cb, jid, secret_words ss)) p))"
      using unf 3 r by simp
    then show ?thesis using P 3 old w(4) by (auto simp: have_indices_def)
  qed
qed

subsection \<open>Sequences of insertions\<close>

text \<open>The joins of other nodes arrive one after the other, in any order and possibly repeated.\<close>

fun InsertJoins :: "'cb joiner \<Rightarrow> ((nat \<Rightarrow> join list \<Rightarrow> join list) \<times> join) list \<Rightarrow>
    ('cb joiner \<times> ('cb \<times> join_id \<times> u64 list) list) option" where
  "InsertJoins jr [] = Some (jr, [])"
| "InsertJoins jr ((rng, j) # evs) =
     do { (jr, r) \<leftarrow> InsertJoin rng jr j;
          (jr, outs) \<leftarrow> InsertJoins jr evs;
          Some (jr, (case r of Inr (Some out) \<Rightarrow> [out] | _ \<Rightarrow> []) @ outs) }"

definition fired :: "'cb option \<Rightarrow> join_id \<Rightarrow> int list \<Rightarrow> ('cb \<times> join_id \<times> u64 list) list" where
  "fired p jid ss = (case p of None \<Rightarrow> [] | Some c \<Rightarrow> [(c, jid, secret_words ss)])"

lemma pending_joined: "joiner_inv k jid ss U jr \<Longrightarrow> joined jr jid \<Longrightarrow> pending jr jid None False = None"
  by (auto simp: joiner_inv_def joined_def pending_def join_set_inv_def split: option.splits)

lemma joined_indices_finite [simp]: "finite (joined_indices jr jid)"
  by (simp add: joined_indices_def have_indices_def split: option.split)

lemma InsertJoins_family:
  assumes U: "join_family k jid ss U"
  shows "joiner_inv k jid ss U jr \<Longrightarrow> (\<forall>(rng, j)\<in>set evs. any_order rng \<and> j \<in> set U) \<Longrightarrow>
    \<exists>jr' outs. InsertJoins jr evs = Some (jr', outs) \<and> joiner_inv k jid ss U jr' \<and>
      (joined jr' jid \<longleftrightarrow> k \<le> card (joined_indices jr jid \<union> JoinIndex ` snd ` set evs)) \<and>
      (\<not> joined jr' jid \<longrightarrow> joined_indices jr' jid = joined_indices jr jid \<union> JoinIndex ` snd ` set evs) \<and>
      outs = (if joined jr' jid then fired (pending jr jid None False) jid ss else []) \<and>
      (\<not> joined jr' jid \<longrightarrow> pending jr' jid None False = pending jr jid None False)"
proof (induction evs arbitrary: jr)
  case Nil
  then show ?case using joined_iff [OF Nil(1)] pending_joined [OF Nil(1)] by (auto simp: fired_def)
next
  case (Cons ev evs)
  obtain rng j where ev: "ev = (rng, j)" by (cases ev)
  then have rj: "any_order rng" "j \<in> set U" using Cons.prems(2) by auto
  obtain jr1 out where 1: "insertJoin rng jr j None False = Some (jr1, Inr out)" "joiner_inv k jid ss U jr1"
    "joined_indices jr1 jid = (if joined jr jid then joined_indices jr jid else insert (JoinIndex j) (joined_indices jr jid))"
    "if joined jr1 jid
     then out = map_option (\<lambda>c. (c, jid, secret_words ss)) (pending jr jid None False) \<and> pending jr1 jid None False = None
     else out = None \<and> pending jr1 jid None False = pending jr jid None False"
    using insertJoin_family [OF U rj(1) Cons.prems(1) rj(2), of None False] by blast
  have evs: "\<forall>(rng, j)\<in>set evs. any_order rng \<and> j \<in> set U" using Cons.prems(2) by simp
  obtain jr2 outs where 2: "InsertJoins jr1 evs = Some (jr2, outs)" "joiner_inv k jid ss U jr2"
    "joined jr2 jid \<longleftrightarrow> k \<le> card (joined_indices jr1 jid \<union> JoinIndex ` snd ` set evs)"
    "\<not> joined jr2 jid \<Longrightarrow> joined_indices jr2 jid = joined_indices jr1 jid \<union> JoinIndex ` snd ` set evs"
    "outs = (if joined jr2 jid then fired (pending jr1 jid None False) jid ss else [])"
    "\<not> joined jr2 jid \<Longrightarrow> pending jr2 jid None False = pending jr1 jid None False"
    using Cons.IH [OF 1(2) evs] by blast
  let ?A = "joined_indices jr jid \<union> JoinIndex ` snd ` set (ev # evs)"
  have mono: "joined jr1 jid \<Longrightarrow> joined jr2 jid"
    using joined_iff [OF 1(2)] 2(3) card_mono [of "joined_indices jr1 jid \<union> JoinIndex ` snd ` set evs" "joined_indices jr1 jid"]
    by auto
  have all: "joined jr2 jid \<longleftrightarrow> k \<le> card ?A"
  proof (cases "joined jr jid")
    case True
    then have "k \<le> card (joined_indices jr jid)" using joined_iff [OF Cons.prems(1)] by simp
    moreover have "card (joined_indices jr jid) \<le> card ?A" by (rule card_mono) auto
    moreover have "joined jr1 jid" using joined_iff [OF Cons.prems(1)] joined_iff [OF 1(2)] 1(3) True by simp
    ultimately show ?thesis using mono by simp
  next
    case False
    then show ?thesis using 2(3) 1(3) ev by simp
  qed
  have ind: "joined_indices jr2 jid = ?A" if "\<not> joined jr2 jid"
  proof -
    have "\<not> joined jr jid" using that mono joined_iff [OF Cons.prems(1)] joined_iff [OF 1(2)] 1(3) by auto
    then show ?thesis using 2(4) [OF that] 1(3) ev by simp
  qed
  have run: "InsertJoins jr (ev # evs) = Some (jr2, (case out of None \<Rightarrow> [] | Some o' \<Rightarrow> [o']) @ outs)"
    using 1(1) 2(1) ev by (cases out) (simp_all add: InsertJoin_def)
  have out: "(case out of None \<Rightarrow> [] | Some o' \<Rightarrow> [o']) @ outs =
      (if joined jr2 jid then fired (pending jr jid None False) jid ss else [])"
    using 1(4) 2(5) mono by (cases "pending jr jid None False") (auto simp: fired_def split: if_splits)
  show ?case using run out all ind 2(2,6) 1(4) mono by (auto split: if_splits)
qed


text \<open>A node inserts its own join with a callback at some point among the joins of the others. The
  callback is called exactly once, with the secrets, if joins with \<open>k\<close> different indices arrive, and
  not at all otherwise.\<close>

definition join_run :: "'cb joiner \<Rightarrow> ((nat \<Rightarrow> join list \<Rightarrow> join list) \<times> join) list \<Rightarrow>
    (nat \<Rightarrow> join list \<Rightarrow> join list) \<Rightarrow> join \<Rightarrow> 'cb \<Rightarrow> ((nat \<Rightarrow> join list \<Rightarrow> join list) \<times> join) list \<Rightarrow>
    ('cb joiner \<times> ('cb \<times> join_id \<times> u64 list) list) option" where
  "join_run jr before rng own cb after =
     do { (jr, outs1) \<leftarrow> InsertJoins jr before;
          (jr, r) \<leftarrow> InsertJoinAndSetCallback rng jr own (Some cb);
          (jr, outs2) \<leftarrow> InsertJoins jr after;
          Some (jr, outs1 @ (case r of Inr (Some out) \<Rightarrow> [out] | _ \<Rightarrow> []) @ outs2) }"

lemma join_run_once:
  assumes U: "join_family k jid ss U" and k: "0 < k" and jr: "NewJoiner (int k) = Some jr"
    and evs: "\<forall>(rng, j)\<in>set (before @ (rng, own) # after). any_order rng \<and> j \<in> set U"
  shows "\<exists>jr'. join_run jr before rng own cb after = Some (jr',
    if k \<le> card (JoinIndex ` snd ` set (before @ (rng, own) # after)) then [(cb, jid, secret_words ss)] else [])"
proof -
  have inv: "joiner_inv k jid ss U jr" "joined_indices jr jid = {}" "pending jr jid None False = None"
    using NewJoiner_wf [of "int k", where 'a = 'a] k jr by (auto simp: joiner_inv_def joined_indices_def pending_def)
  have e: "\<forall>(rng, j)\<in>set before. any_order rng \<and> j \<in> set U" "\<forall>(rng, j)\<in>set after. any_order rng \<and> j \<in> set U"
    "any_order rng" "own \<in> set U" using evs by auto
  let ?B = "JoinIndex ` snd ` set before" and ?A = "JoinIndex ` snd ` set after"
  obtain jr1 where 1: "InsertJoins jr before = Some (jr1, [])" "joiner_inv k jid ss U jr1"
    "joined jr1 jid \<longleftrightarrow> k \<le> card ?B" "\<not> joined jr1 jid \<longrightarrow> joined_indices jr1 jid = ?B"
    using InsertJoins_family [OF U inv(1) e(1)] inv(2,3) by (auto simp: fired_def)
  have p: "pending jr1 jid (Some cb) True = Some cb" by (simp add: pending_def)
  obtain jr2 out where 2: "insertJoin rng jr1 own (Some cb) True = Some (jr2, Inr out)" "joiner_inv k jid ss U jr2"
    "joined_indices jr2 jid = (if joined jr1 jid then joined_indices jr1 jid else insert (JoinIndex own) (joined_indices jr1 jid))"
    "if joined jr2 jid then out = Some (cb, jid, secret_words ss) \<and> pending jr2 jid None False = None
     else out = None \<and> pending jr2 jid None False = Some cb"
    using insertJoin_family [OF U e(3) 1(2) e(4), of "Some cb" True] unfolding p option.map by blast
  obtain jr3 outs where 3: "InsertJoins jr2 after = Some (jr3, outs)"
    "joined jr3 jid \<longleftrightarrow> k \<le> card (joined_indices jr2 jid \<union> ?A)"
    "outs = (if joined jr3 jid then fired (pending jr2 jid None False) jid ss else [])"
    using InsertJoins_family [OF U 2(2) e(2)] by blast
  have all: "joined jr3 jid \<longleftrightarrow> k \<le> card (?B \<union> insert (JoinIndex own) ?A)"
  proof (cases "joined jr1 jid")
    case True
    then have "k \<le> card (joined_indices jr1 jid)" "k \<le> card ?B" using joined_iff [OF 1(2)] 1(3) by auto
    moreover have "card (joined_indices jr1 jid) \<le> card (joined_indices jr2 jid \<union> ?A)"
      using 2(3) True by (intro card_mono) auto
    moreover have "card ?B \<le> card (?B \<union> insert (JoinIndex own) ?A)" by (intro card_mono) auto
    ultimately show ?thesis using 3(2) by linarith
  next
    case False
    then have "joined_indices jr2 jid \<union> ?A = ?B \<union> insert (JoinIndex own) ?A" using 2(3) 1(4) by auto
    then show ?thesis using 3(2) by simp
  qed
  have mono: "joined jr2 jid \<Longrightarrow> joined jr3 jid"
    using joined_iff [OF 2(2)] 3(2) card_mono [of "joined_indices jr2 jid \<union> ?A" "joined_indices jr2 jid"] by auto
  have "join_run jr before rng own cb after =
      Some (jr3, if joined jr3 jid then [(cb, jid, secret_words ss)] else [])"
    using 1(1) 2(1,4) 3(1,3) mono
    by (auto simp: join_run_def InsertJoinAndSetCallback_def fired_def split: if_splits)
  then show ?thesis using all by (simp add: image_Un)
qed

subsection \<open>Any insertion\<close>

text \<open>Without assumptions on the shares: the state stays well formed, and the two errors change
  nothing.\<close>

lemma fill_cache_length: "fill_cache kk i joins k c = Some c' \<Longrightarrow> length c' = length c"
  by (induction kk i joins k c rule: fill_cache.induct) (auto simp: Let_def split: if_splits)

lemma reconstruct_length:
  "reconstruct rng kk joins is c vals = Some (c', vals') \<Longrightarrow> length c' = length c \<and> length vals' = length vals"
proof (induction "is" arbitrary: c vals)
  case (Cons i "is")
  then obtain c1 v where "fill_cache kk i (rng i joins) 0 c = Some c1" "Shamir.Join c1 = Some v"
    "reconstruct rng kk joins is c1 (vals[i := v]) = Some (c', vals')"
    by (auto split: bind_splits if_splits)
  then show ?case using Cons.IH fill_cache_length by fastforce
qed simp

lemma insertJoin_too_long:
  "MaxJoinLength < length (JoinShares j) \<Longrightarrow> insertJoin rng jr j cb ov = Some (jr, Inl ErrJoinLengthExceedsMax)"
  by (simp add: insertJoin_def)

lemma insertJoin_unequal:
  "length (JoinShares j) \<le> MaxJoinLength \<Longrightarrow> joinSets jr (JoinID j) = Some js \<Longrightarrow>
    length (JoinShares j) \<noteq> ValuesLen js \<Longrightarrow> insertJoin rng jr j cb ov = Some (jr, Inl ErrJoinLengthUnequal)"
  by (simp add: insertJoin_def map_upd_triv)

lemma put_wf:
  "joiner_wf jr \<Longrightarrow> int (length c) = threshold jr \<Longrightarrow> join_set_wf (threshold jr) jid js \<Longrightarrow>
    joiner_wf (jr\<lparr>jcache := c, joinSets := (joinSets jr)(jid \<mapsto> js)\<rparr>)"
  by (simp add: joiner_wf_def)

lemma insertJoin_wf:
  assumes wf: "joiner_wf jr" and ins: "insertJoin rng jr j cb ov = Some (jr', r)"
  shows "joiner_wf jr' \<and> threshold jr' = threshold jr"
proof -
  define js where "js = (case joinSets jr (JoinID j) of None \<Rightarrow> new_join_set j | Some js \<Rightarrow> js)"
  define m where "m = (if ValuesOk js then JoinMap js else AList.update (JoinIndex j) j (JoinMap js))"
  define p where "p = (if ov then cb else Callback js)"
  define put where "put = (\<lambda>js c. jr\<lparr>jcache := c, joinSets := (joinSets jr)(JoinID j \<mapsto> js)\<rparr>)"
  have k: "0 < threshold jr" "int (length (jcache jr)) = threshold jr" using wf by (auto simp: joiner_wf_def)
  show ?thesis
  proof (cases "length (JoinShares j) \<le> MaxJoinLength \<and> length (JoinShares j) = ValuesLen js")
    case False
    then have "jr' = jr"
    proof (cases "joinSets jr (JoinID j)")
      case None
      then show ?thesis using False ins insertJoin_too_long [of j rng jr cb ov]
        by (auto simp: js_def new_join_set_def not_le)
    next
      case (Some js')
      then show ?thesis using False ins insertJoin_too_long [of j rng jr cb ov] insertJoin_unequal [OF _ Some, of rng cb ov]
        by (cases "length (JoinShares j) \<le> MaxJoinLength") (auto simp: js_def not_le)
    qed
    then show ?thesis using wf by simp
  next
    case True
    have W: "join_set_wf (threshold jr) (JoinID j) js"
    proof (cases "joinSets jr (JoinID j)")
      case None
      then show ?thesis using k(1) True by (simp add: js_def new_join_set_def join_set_wf_def)
    qed (use wf in \<open>simp add: js_def joiner_wf_def\<close>)
    have M: "distinct (map fst m)" "\<forall>(i, j')\<in>set m. JoinIndex j' = i \<and> JoinID j' = JoinID j \<and> length (JoinShares j') = ValuesLen js"
      "int (length m) \<le> threshold jr"
      using update_wf(1-3) [OF W _ refl conjunct2 [OF True]] W unfolding m_def join_set_wf_def
      by (cases "ValuesOk js"; simp)+
    note unf = insertJoin_unfold [OF conjunct1 [OF True] conjunct2 [OF True] js_def m_def p_def put_def, of rng, unfolded ins]
    have A: "joiner_wf (put js' c)" "threshold (put js' c) = threshold jr"
      if "int (length c) = threshold jr" "join_set_wf (threshold jr) (JoinID j) js'" for js' c
      using put_wf [OF wf that] by (simp_all add: put_def)
    show ?thesis
    proof (cases "int (length m) < threshold jr")
      case lt: True
      then have "\<not> ValuesOk js" using W by (auto simp: m_def join_set_wf_def)
      then have "join_set_wf (threshold jr) (JoinID j) (js\<lparr>JoinMap := m, Callback := p\<rparr>)"
        using W M lt by (simp add: join_set_wf_def)
      moreover have "jr' = put (js\<lparr>JoinMap := m, Callback := p\<rparr>) (jcache jr)" using unf lt by simp
      ultimately show ?thesis using A k(2) by simp
    next
      case ge: False
      obtain c vals where c: "jr' = put (js\<lparr>JoinMap := m, Values := vals, ValuesOk := True, Callback := None\<rparr>) c"
        "length c = length (jcache jr)" "length vals = length (Values js)"
      proof (cases "ValuesOk js")
        case True
        show thesis by (rule that [of "Values js" "jcache jr"]) (use unf ge True in simp_all)
      qed (use unf ge that in \<open>auto split: bind_splits dest: reconstruct_length\<close>)
      have "join_set_wf (threshold jr) (JoinID j) (js\<lparr>JoinMap := m, Values := vals, ValuesOk := True, Callback := None\<rparr>)"
        using W M ge c(3) by (simp add: join_set_wf_def)
      then show ?thesis using A c(1,2) k(2) by simp
    qed
  qed
qed


text \<open>The index of a join and the indices of its shares are not compared: when the join that
  completes a set has a share with the index of another one's share, the reconstruction panics.\<close>

lemma insertJoin_mismatch_panics:
  assumes wf: "joiner_wf jr" and js: "joinSets jr (JoinID j) = Some js" "\<not> ValuesOk js"
    and len: "length (JoinShares j) = ValuesLen js" "0 < ValuesLen js"
    and k: "int (length (JoinMap js)) + 1 = threshold jr"
    and j': "j' \<in> snd ` set (JoinMap js)" "JoinIndex j \<notin> have_indices js"
      "Index (JoinShares j ! 0) = Index (JoinShares j' ! 0)"
    and rng: "any_order rng"
  shows "insertJoin rng jr j cb ov = None"
proof -
  have W: "join_set_wf (threshold jr) (JoinID j) js" using wf js by (simp add: joiner_wf_def)
  define m where "m = AList.update (JoinIndex j) j (JoinMap js)"
  note u = update_wf [OF W js(2) refl len(1), folded m_def]
  have m: "m = JoinMap js @ [(JoinIndex j, j)]"
    using j'(2) unfolding m_def have_indices_def by (rule update_append)
  have lm: "int (length m) = threshold jr" using k by (simp add: m)
  have fc: "fill_cache (threshold jr) 0 (rng 0 (map snd m)) 0 (jcache jr) =
      Some (map (\<lambda>j. JoinShares j ! 0) (rng 0 (map snd m)))"
  proof (rule fill_cache_joins [OF rng])
    show "\<forall>j\<in>set (map snd m). 0 < length (JoinShares j)" using u(2) len(2) by auto
  qed (use lm wf in \<open>auto simp: joiner_wf_def\<close>)
  have "\<not> distinct (map (\<lambda>j. Index (JoinShares j ! 0)) (map snd m))" using j' by (auto simp: m)
  then have "\<not> distinct (map Index (map (\<lambda>j. JoinShares j ! 0) (rng 0 (map snd m))))"
    using any_order_facts(3) [OF rng, of "\<lambda>j. Index (JoinShares j ! 0)" 0 "map snd m"] by (simp add: comp_def)
  then have "reconstruct rng (threshold jr) (map snd m) [0..<ValuesLen js] (jcache jr) (Values js) = None"
    using fc Join_duplicate len(2) by (simp add: upt_conv_Cons)
  moreover have "length (JoinShares j) \<le> MaxJoinLength" using W len(1) by (simp add: join_set_wf_def)
  ultimately show ?thesis using js len(1) lm
    by (subst insertJoin_unfold [OF _ _ _ refl refl refl]) (auto simp: m_def)
qed

end
