(* ===== verification/Smpc_Message.thy ===== *)
theory Smpc_Message
  imports Smpc_Joiner
begin

section \<open>Messages between nodes: \<^verbatim>\<open>smpc/message.go\<close> and the codec of joins\<close>

text \<open>
  The binary form of a join (\<^verbatim>\<open>smpc/joiner.go\<close>) and of the two messages that carry it.
  \<^const>\<open>None\<close> stands for a panic: a message whose pointer is nil, or a slice that
  \<^verbatim>\<open>make\<close> cannot allocate. \<open>maxlen\<close> is the number of shares the runtime can allocate.
\<close>

type_synonym network_id = bytes

definition read_array :: "nat \<Rightarrow> bytes \<Rightarrow> read_error + (bytes \<times> bytes)" where
  "read_array n buf =
     (if n \<le> length buf then Inr (take n buf, drop n buf)
      else if buf = [] then Inl EOF else Inl UnexpectedEOF)"

definition Join_MarshalBinary :: "join \<Rightarrow> bytes" where
  "Join_MarshalBinary j =
     JoinID j @ be_enc 8 (unat (JoinIndex j)) @ be_enc 8 (length (JoinShares j)) @
     concat (map Share_MarshalBinary (JoinShares j))"

text \<open>\<^verbatim>\<open>buf.Read\<close> fails on an empty buffer only: from a shorter one it fills the front of the
  array and leaves the rest zero.\<close>

fun read_shares :: "nat \<Rightarrow> bytes \<Rightarrow> read_error + share list" where
  "read_shares 0 buf = Inr []"
| "read_shares (Suc n) buf =
     (if buf = [] then Inl EOF
      else case Share_UnmarshalBinary (take 16 buf @ replicate (16 - length buf) 0) of
          Inl (ErrRead e) \<Rightarrow> Inl e
        | Inl _ \<Rightarrow> Inl UnexpectedEOF
        | Inr sh \<Rightarrow> ebind (read_shares n (drop 16 buf)) (\<lambda>shs. Inr (sh # shs)))"

definition Join_UnmarshalBinary :: "nat \<Rightarrow> bytes \<Rightarrow> (read_error + join) option" where
  "Join_UnmarshalBinary maxlen data =
     (case read_array 33 data of
        Inl e \<Rightarrow> Some (Inl e)
      | Inr (jid, buf) \<Rightarrow>
          (case be_read 8 buf of
             Inl e \<Rightarrow> Some (Inl e)
           | Inr (idx, buf) \<Rightarrow>
               (case be_read 8 buf of
                  Inl e \<Rightarrow> Some (Inl e)
                | Inr (n, buf) \<Rightarrow>
                    (let numShares = sint (word_of_nat n :: u64)
                     in if numShares < 0 \<or> int maxlen < numShares then None
                        else Some (ebind (read_shares (nat numShares) buf) (\<lambda>shs.
                          Inr \<lparr>JoinID = jid, JoinIndex = word_of_nat idx, JoinShares = shs\<rparr>))))))"

subsection \<open>Messages\<close>

definition MessageTypeJoin :: u8 where "MessageTypeJoin = 1"
definition MessageTypeJoinResponse :: u8 where "MessageTypeJoinResponse = 2"

record message_join =
  MNetworkID :: network_id
  MJoin :: join

record message =
  MessageType :: u8
  MessageJoin :: "message_join option"
  MessageJoinResponse :: "message_join option"

datatype message_error = ErrUnexpectedMessageType | ErrMessageRead read_error

definition MessageJoin_MarshalBinary :: "message_join \<Rightarrow> bytes" where
  "MessageJoin_MarshalBinary m = MNetworkID m @ Join_MarshalBinary (MJoin m)"

definition MessageJoin_UnmarshalBinary :: "nat \<Rightarrow> bytes \<Rightarrow> (read_error + message_join) option" where
  "MessageJoin_UnmarshalBinary maxlen data =
     (case read_array 32 data of
        Inl e \<Rightarrow> Some (Inl e)
      | Inr (nid, joinData) \<Rightarrow>
          map_option (\<lambda>r. ebind r (\<lambda>j. Inr \<lparr>MNetworkID = nid, MJoin = j\<rparr>)) (Join_UnmarshalBinary maxlen joinData))"

definition MessageJoinResponse_MarshalBinary :: "message_join \<Rightarrow> bytes" where
  "MessageJoinResponse_MarshalBinary m = MNetworkID m @ Join_MarshalBinary (MJoin m)"

definition MessageJoinResponse_UnmarshalBinary :: "nat \<Rightarrow> bytes \<Rightarrow> (read_error + message_join) option" where
  "MessageJoinResponse_UnmarshalBinary maxlen data =
     (case read_array 32 data of
        Inl e \<Rightarrow> Some (Inl e)
      | Inr (nid, joinData) \<Rightarrow>
          map_option (\<lambda>r. ebind r (\<lambda>j. Inr \<lparr>MNetworkID = nid, MJoin = j\<rparr>)) (Join_UnmarshalBinary maxlen joinData))"

definition Message_MarshalBinary :: "message \<Rightarrow> (message_error + bytes) option" where
  "Message_MarshalBinary m =
     (if MessageType m = MessageTypeJoin then
        map_option (\<lambda>mj. Inr (MessageType m # MessageJoin_MarshalBinary mj)) (MessageJoin m)
      else if MessageType m = MessageTypeJoinResponse then
        map_option (\<lambda>mj. Inr (MessageType m # MessageJoinResponse_MarshalBinary mj)) (MessageJoinResponse m)
      else Some (Inl ErrUnexpectedMessageType))"

definition Message_UnmarshalBinary :: "nat \<Rightarrow> bytes \<Rightarrow> (message_error + message) option" where
  "Message_UnmarshalBinary maxlen data =
     (case data of
        [] \<Rightarrow> Some (Inl (ErrMessageRead EOF))
      | ty # buf \<Rightarrow>
          if ty = MessageTypeJoin then
            map_option (\<lambda>r. case r of
                Inl e \<Rightarrow> Inl (ErrMessageRead e)
              | Inr mj \<Rightarrow> Inr \<lparr>MessageType = ty, MessageJoin = Some mj, MessageJoinResponse = None\<rparr>)
              (MessageJoin_UnmarshalBinary maxlen buf)
          else if ty = MessageTypeJoinResponse then
            map_option (\<lambda>r. case r of
                Inl e \<Rightarrow> Inl (ErrMessageRead e)
              | Inr mj \<Rightarrow> Inr \<lparr>MessageType = ty, MessageJoin = None, MessageJoinResponse = Some mj\<rparr>)
              (MessageJoinResponse_UnmarshalBinary maxlen buf)
          else Some (Inl ErrUnexpectedMessageType))"

subsection \<open>Round trips\<close>

lemma read_array_append [simp, codec]: "length xs = n \<Longrightarrow> read_array n (xs @ ys) = Inr (xs, ys)"
  by (simp add: read_array_def)

lemma Share_Unmarshal_exact [simp]: "Share_UnmarshalBinary (Share_MarshalBinary sh) = Inr sh"
  using Share_roundtrip [of sh "[]"] by simp

lemma Share_bytes_nonempty [simp]: "Share_MarshalBinary sh \<noteq> []"
  using Share_bytes(1) [of sh] by force

lemma read_shares_append:
  "read_shares (length shs + m) (concat (map Share_MarshalBinary shs) @ rest) =
     ebind (read_shares m rest) (\<lambda>ys. Inr (shs @ ys))"
proof (induction shs)
  case Nil
  then show ?case by (cases "read_shares m rest") simp_all
next
  case (Cons sh shs)
  then show ?case by (cases "read_shares m rest") simp_all
qed

lemma read_shares_marshal: "read_shares (length shs) (concat (map Share_MarshalBinary shs) @ rest) = Inr shs"
  using read_shares_append [of shs 0] by simp

text \<open>Every array of 16 bytes is a share, so reading shares fails only for lack of bytes.\<close>

lemma sint_of_small: "n < 2 ^ 63 \<Longrightarrow> sint (word_of_nat n :: u64) = int n"
  by (simp add: signed_of_nat signed_take_bit_int_eq_self)

lemma sint_of_large: "2 ^ 63 \<le> n \<Longrightarrow> n < 2 ^ 64 \<Longrightarrow> sint (word_of_nat n :: u64) < 0"
proof -
  assume "2 ^ 63 \<le> n" "n < 2 ^ 64"
  then have "n div 2 ^ 63 = 1" by (intro div_nat_eqI) simp_all
  then have "bit n 63" unfolding bit_iff_odd by (simp only: odd_one not_False_eq_True)
  then show ?thesis by (simp add: signed_of_nat bit_of_nat_iff_bit)
qed

lemma be_read_length [simp]: "n < 2 ^ 63 \<Longrightarrow> be_read 8 (be_enc 8 n @ rest) = Inr (n, rest)"
  by (intro be_read_be_enc) simp

lemma Join_roundtrip:
  assumes "length (JoinID j) = 33" "length (JoinShares j) \<le> maxlen" "length (JoinShares j) < 2 ^ 63"
  shows "Join_UnmarshalBinary maxlen (Join_MarshalBinary j @ rest) = Some (Inr j)"
  using assms(1,2) sint_of_small [OF assms(3)] be_read_length [OF assms(3)] read_shares_marshal [of "JoinShares j" rest]
  by (simp add: Join_UnmarshalBinary_def Join_MarshalBinary_def Let_def)

text \<open>A share cut short is read as if zeros followed.\<close>

lemma Join_truncated:
  assumes "length (JoinID j) = 33" "length (JoinShares j) \<le> maxlen" "length (JoinShares j) < 2 ^ 63"
    and "JoinShares j = shs @ [sh]" "0 < n" "n \<le> 16"
  shows "\<exists>sh'. Join_UnmarshalBinary maxlen (take (length (Join_MarshalBinary j) - (16 - n)) (Join_MarshalBinary j)) =
    Some (Inr (j\<lparr>JoinShares := shs @ [sh']\<rparr>))"
proof -
  let ?pre = "JoinID j @ be_enc 8 (unat (JoinIndex j)) @ be_enc 8 (length (JoinShares j))"
  let ?last = "take n (Share_MarshalBinary sh)"
  have data: "take (length (Join_MarshalBinary j) - (16 - n)) (Join_MarshalBinary j) =
      ?pre @ concat (map Share_MarshalBinary shs) @ ?last"
  proof -
    have m: "Join_MarshalBinary j = ?pre @ concat (map Share_MarshalBinary shs) @ Share_MarshalBinary sh"
      using assms(4) by (simp add: Join_MarshalBinary_def)
    show ?thesis unfolding m using assms(6) by simp
  qed
  have l: "length (?last @ replicate (16 - length ?last) 0) = 16" using assms(6) by simp
  obtain sh' where sh': "Share_UnmarshalBinary (?last @ replicate (16 - length ?last) 0) = Inr sh'"
    using Share_Unmarshal_ok [OF l] by blast
  have "read_shares 1 ?last = Inr [sh']"
    using sh' assms(5,6) by (simp add: min_def)
  then have "read_shares (length (JoinShares j)) (concat (map Share_MarshalBinary shs) @ ?last) = Inr (shs @ [sh'])"
    using read_shares_append [of shs 1 ?last] assms(4) by simp
  then show ?thesis unfolding data
    using assms(1,2) sint_of_small [OF assms(3)] be_read_length [OF assms(3)]
    by (intro exI [of _ sh'], cases j) (simp add: Join_UnmarshalBinary_def Let_def)
qed

text \<open>A count of shares with the sign bit set makes the decoder panic.\<close>

lemma Join_negative_panics:
  assumes "length jid = 33" "length idx = 8" "2 ^ 63 \<le> n" "n < 2 ^ 64"
  shows "Join_UnmarshalBinary maxlen (jid @ idx @ be_enc 8 n @ rest) = None"
proof -
  have "be_read 8 (be_enc 8 n @ rest) = Inr (n, rest)" using assms(4) by (intro be_read_be_enc) simp
  moreover have "be_read 8 (idx @ be_enc 8 n @ rest) = Inr (be_num idx, be_enc 8 n @ rest)"
    using assms(2) by (simp add: be_read_def)
  ultimately show ?thesis using assms(1) sint_of_large [OF assms(3,4)]
    by (simp add: Join_UnmarshalBinary_def Let_def)
qed

definition message_ok :: "message \<Rightarrow> bool" where
  "message_ok m \<longleftrightarrow>
     (case (MessageJoin m, MessageJoinResponse m) of
        (Some mj, None) \<Rightarrow> MessageType m = MessageTypeJoin \<and> length (MNetworkID mj) = 32 \<and>
          length (JoinID (MJoin mj)) = 33 \<and> length (JoinShares (MJoin mj)) < 2 ^ 63
      | (None, Some mj) \<Rightarrow> MessageType m = MessageTypeJoinResponse \<and> length (MNetworkID mj) = 32 \<and>
          length (JoinID (MJoin mj)) = 33 \<and> length (JoinShares (MJoin mj)) < 2 ^ 63
      | _ \<Rightarrow> False)"

definition message_shares :: "message \<Rightarrow> nat" where
  "message_shares m = (case MessageJoin m of Some mj \<Rightarrow> length (JoinShares (MJoin mj))
     | None \<Rightarrow> (case MessageJoinResponse m of Some mj \<Rightarrow> length (JoinShares (MJoin mj)) | None \<Rightarrow> 0))"

lemma Message_roundtrip:
  assumes "message_ok m" "message_shares m \<le> maxlen"
  shows "\<exists>data. Message_MarshalBinary m = Some (Inr data) \<and>
    Message_UnmarshalBinary maxlen data = Some (Inr m)"
proof (cases "MessageJoin m")
  case (Some mj)
  then have *: "MessageJoinResponse m = None" "MessageType m = MessageTypeJoin" "length (MNetworkID mj) = 32"
    "length (JoinID (MJoin mj)) = 33" "length (JoinShares (MJoin mj)) < 2 ^ 63" "length (JoinShares (MJoin mj)) \<le> maxlen"
    using assms by (auto simp: message_ok_def message_shares_def split: option.splits)
  show ?thesis using Join_roundtrip [OF *(4,6,5), of "[]"] * Some
    by (simp add: Message_MarshalBinary_def Message_UnmarshalBinary_def MessageJoin_MarshalBinary_def MessageJoin_UnmarshalBinary_def)
next
  case None
  then obtain mj where mj: "MessageJoinResponse m = Some mj" using assms(1) by (auto simp: message_ok_def split: option.splits)
  then have *: "MessageType m = MessageTypeJoinResponse" "length (MNetworkID mj) = 32"
    "length (JoinID (MJoin mj)) = 33" "length (JoinShares (MJoin mj)) < 2 ^ 63" "length (JoinShares (MJoin mj)) \<le> maxlen"
    using assms None by (auto simp: message_ok_def message_shares_def split: option.splits)
  have "MessageTypeJoinResponse \<noteq> MessageTypeJoin" by (simp add: MessageTypeJoin_def MessageTypeJoinResponse_def)
  then show ?thesis using Join_roundtrip [OF *(3,5,4), of "[]"] * None mj
    by (simp add: Message_MarshalBinary_def Message_UnmarshalBinary_def MessageJoinResponse_MarshalBinary_def
        MessageJoinResponse_UnmarshalBinary_def)
qed

end
