(* ===== verification/Identity.thy ===== *)
theory Identity
  imports Base58
begin

unbundle bit_operations_syntax

section \<open>Identities: \<^verbatim>\<open>identity/identity.go\<close> and \<^verbatim>\<open>identity/address.go\<close>\<close>

text \<open>
  An identifier has 20 bytes; its address is the base 58 text of these bytes after two bytes that name the
  hash function and the length. The distance of two addresses is the exclusive or of their identifiers, a
  number of 160 bits.

  A result \<open>None\<close> is a panic: reading a decoded address out of range.
\<close>

type_synonym address = string

definition IDLength :: nat where
  "IDLength = 20"

definition AddressLength :: nat where
  "AddressLength = 30"

datatype identity_error = ErrWrongAddressLength | ErrFailToDecode

subsection \<open>Identifiers and addresses\<close>

definition KECCAK_256 :: u8 where
  "KECCAK_256 = 0x1B"

definition ID_Address :: "bytes \<Rightarrow> address" where
  "ID_Address ident = EncodeAlphabet ([KECCAK_256, word_of_nat IDLength] @ ident) BTCAlphabet"

definition Address_ID :: "address \<Rightarrow> bytes option" where
  "Address_ID addr =
     (let bytes = DecodeAlphabet addr BTCAlphabet in if length bytes < 2 then None else Some (drop 2 bytes))"

definition Address_Distance :: "address \<Rightarrow> address \<Rightarrow> (identity_error + bytes) option" where
  "Address_Distance addr other =
     (if length addr \<noteq> AddressLength \<or> length other \<noteq> AddressLength then Some (Inl ErrWrongAddressLength)
      else
        let idByte = DecodeAlphabet addr BTCAlphabet in
        if length idByte = 0 then Some (Inl ErrFailToDecode)
        else
          let otherByte = DecodeAlphabet other BTCAlphabet in
          if length otherByte = 0 then Some (Inl ErrFailToDecode)
          else if length idByte < IDLength + 2 \<or> length otherByte < IDLength + 2 then None
          else Some (Inr (map (\<lambda>i. idByte ! (i + 2) XOR otherByte ! (i + 2)) [0..<IDLength])))"

text \<open>The loop over the bytes of the difference; a byte is printed as eight digits and its zeros are counted up to
  the first one.\<close>

definition byte_bits :: "u8 \<Rightarrow> bool list" where
  "byte_bits b = map (bit b) (rev [0..<8])"

fun prefix_loop :: "bytes \<Rightarrow> nat" where
  "prefix_loop [] = 0"
| "prefix_loop (b # bs) = (if b = 0 then 8 + prefix_loop bs else length (takeWhile Not (byte_bits b)))"

definition SamePrefixLength :: "address \<Rightarrow> address \<Rightarrow> (identity_error + nat) option" where
  "SamePrefixLength addr other = map_option (map_sum id prefix_loop) (Address_Distance addr other)"

fun closer_loop :: "bytes \<Rightarrow> bytes \<Rightarrow> bool" where
  "closer_loop (l # ls) (r # rs) = (if l < r then True else if r < l then False else closer_loop ls rs)"
| "closer_loop _ _ = False"

definition Closer :: "address \<Rightarrow> address \<Rightarrow> address \<Rightarrow> (identity_error + bool) option" where
  "Closer left right target =
     (case Address_Distance left target of
        None \<Rightarrow> None
      | Some (Inl err) \<Rightarrow> Some (Inl err)
      | Some (Inr leftDist) \<Rightarrow>
          (case Address_Distance right target of
             None \<Rightarrow> None
           | Some (Inl err) \<Rightarrow> Some (Inl err)
           | Some (Inr rightDist) \<Rightarrow> Some (Inr (closer_loop leftDist rightDist))))"

subsection \<open>Addresses of identifiers\<close>

lemma ID_Address_Decode: "DecodeAlphabet (ID_Address ident) BTCAlphabet = [KECCAK_256, word_of_nat IDLength] @ ident"
  by (simp add: ID_Address_def Decode_Encode)

lemma Address_ID_ID: "Address_ID (ID_Address ident) = Some ident"
  by (simp add: Address_ID_def ID_Address_Decode Let_def)

text \<open>The number of an identifier's address is between \<open>0x1B14\<close> and \<open>0x1B15\<close> times \<open>256\<^sup>2\<^sup>0\<close>, so it has 30 digits.\<close>

lemma ID_Address_length:
  assumes "length ident = IDLength" shows "length (ID_Address ident) = AddressLength"
proof -
  let ?n = "big_SetBytes ([KECCAK_256, word_of_nat IDLength] @ ident)"
  have n: "?n = 6932 * 256 ^ 20 + be_num ident"
    using assms by (simp add: big_SetBytes_be_num be_num_Cons KECCAK_256_def IDLength_def)
  have "58 ^ 29 \<le> ?n" unfolding n by simp
  then have "29 < length (base_digits 58 ?n)" by (intro length_base_digits) simp_all
  moreover have "?n < 58 ^ 30" unfolding n using be_num_lt [of ident] assms by (simp add: IDLength_def)
  then have "length (base_digits 58 ?n) \<le> 30" by (intro length_base_digits_le) simp_all
  moreover have "leading 0 ([KECCAK_256, word_of_nat IDLength] @ ident) = 0" by (simp add: leading_def KECCAK_256_def)
  ultimately show ?thesis by (simp add: ID_Address_def EncodeAlphabet_def AddressLength_def)
qed

subsection \<open>Distances\<close>

text \<open>A valid address: 30 characters of the alphabet.\<close>

definition valid_address :: "address \<Rightarrow> bool" where
  "valid_address addr \<longleftrightarrow> length addr = AddressLength \<and> DecodeAlphabet addr BTCAlphabet \<noteq> []"

definition id_num :: "address \<Rightarrow> bytes" where
  "id_num addr = take IDLength (drop 2 (DecodeAlphabet addr BTCAlphabet))"

definition xor_bytes :: "bytes \<Rightarrow> bytes \<Rightarrow> bytes" where
  "xor_bytes xs ys = map2 (XOR) xs ys"

definition xor_dist :: "address \<Rightarrow> address \<Rightarrow> nat" where
  "xor_dist a b = be_num (xor_bytes (id_num a) (id_num b))"

lemma valid_ID_Address: "length ident = IDLength \<Longrightarrow> valid_address (ID_Address ident)"
  by (simp add: valid_address_def ID_Address_length ID_Address_Decode)

lemma id_num_ID_Address: "length ident = IDLength \<Longrightarrow> id_num (ID_Address ident) = ident"
  by (simp add: id_num_def ID_Address_Decode)

lemma length_id_num: "valid_address a \<Longrightarrow> length (id_num a) = IDLength"
  using length_Decode [of a] by (simp add: valid_address_def id_num_def AddressLength_def IDLength_def)

lemma length_xor_bytes: "length (xor_bytes xs ys) = min (length xs) (length ys)"
  by (simp add: xor_bytes_def)

text \<open>\<^verbatim>\<open>Distance\<close> on every input: it never panics.\<close>

lemma Address_Distance_value:
  "Address_Distance a b =
    (if valid_address a \<and> valid_address b then Some (Inr (xor_bytes (id_num a) (id_num b)))
     else if length a \<noteq> AddressLength \<or> length b \<noteq> AddressLength then Some (Inl ErrWrongAddressLength)
     else Some (Inl ErrFailToDecode))"
proof (cases "valid_address a \<and> valid_address b")
  case True
  let ?a = "DecodeAlphabet a BTCAlphabet" and ?b = "DecodeAlphabet b BTCAlphabet"
  have l: "22 \<le> length ?a" "22 \<le> length ?b"
    using True length_Decode by (auto simp: valid_address_def AddressLength_def)
  have "map (\<lambda>i. ?a ! (i + 2) XOR ?b ! (i + 2)) [0..<IDLength] = xor_bytes (id_num a) (id_num b)"
    using l by (intro nth_equalityI) (auto simp: xor_bytes_def id_num_def IDLength_def add.commute)
  then show ?thesis using True l by (auto simp: Address_Distance_def valid_address_def IDLength_def Let_def)
qed (auto simp: Address_Distance_def valid_address_def Let_def)

lemma be_num_xor_0: "length xs = length ys \<Longrightarrow> be_num (xor_bytes xs ys) = 0 \<longleftrightarrow> xs = ys"
proof (induction xs ys rule: list_induct2)
  case (Cons x xs y ys)
  have "x XOR y = 0 \<longleftrightarrow> x = y" by (metis xor.right_neutral xor_self_eq bit.xor_left_self)
  then show ?case using Cons by (auto simp: xor_bytes_def be_num_Cons unat_eq_zero)
qed (simp add: xor_bytes_def)

lemma xor_dist_lt: "valid_address a \<Longrightarrow> valid_address b \<Longrightarrow> xor_dist a b < 2 ^ 160"
  using be_num_lt [of "xor_bytes (id_num a) (id_num b)"] by (simp add: xor_dist_def length_xor_bytes length_id_num IDLength_def)

lemma xor_dist_0: "valid_address a \<Longrightarrow> valid_address b \<Longrightarrow> xor_dist a b = 0 \<longleftrightarrow> id_num a = id_num b"
  by (simp add: xor_dist_def be_num_xor_0 length_id_num)

lemma xor_dist_sym: "xor_dist a b = xor_dist b a"
proof -
  have "xor_bytes xs ys = xor_bytes ys xs" for xs ys
    by (auto simp: xor_bytes_def list_eq_iff_nth_eq xor.commute)
  then show ?thesis by (simp add: xor_dist_def)
qed

text \<open>\<^verbatim>\<open>Closer\<close> compares the distances as numbers.\<close>

lemma closer_loop_num: "length ls = length rs \<Longrightarrow> closer_loop ls rs \<longleftrightarrow> be_num ls < be_num rs"
proof (induction ls rs rule: list_induct2)
  case (Cons l ls r rs)
  have lt: "be_num ls < 256 ^ length rs" "be_num rs < 256 ^ length rs" using be_num_lt [of ls] be_num_lt [of rs] Cons.hyps by simp_all
  have step: "unat x * 256 ^ length rs + c < unat y * 256 ^ length rs + d" if "x < y" "c < 256 ^ length rs" for x y :: u8 and c d :: nat
  proof -
    have "Suc (unat x) * 256 ^ length rs \<le> unat y * 256 ^ length rs" using that(1) by (intro mult_le_mono1) (simp add: word_less_nat_alt)
    then show ?thesis using that(2) by simp
  qed
  consider "l < r" | "r < l" | "l = r" by fastforce
  then show ?case
  proof cases
    case 1
    then show ?thesis using step [OF 1 lt(1)] Cons.hyps by (simp add: be_num_Cons)
  next
    case 2
    then show ?thesis using step [OF 2 lt(2), of "be_num ls"] Cons.hyps by (auto simp: be_num_Cons)
  next
    case 3
    then show ?thesis using Cons by (simp add: be_num_Cons)
  qed
qed simp

lemma Closer_value:
  assumes "valid_address l" "valid_address r" "valid_address t"
  shows "Closer l r t = Some (Inr (xor_dist l t < xor_dist r t))"
  using assms by (simp add: Closer_def Address_Distance_value closer_loop_num xor_dist_def length_xor_bytes length_id_num)

text \<open>The length of the common prefix is the place of the highest bit of the distance.\<close>

lemma bit_byte: "bit (b :: u8) i \<longleftrightarrow> odd (unat b div 2 ^ i)"
  by (simp add: bit_unsigned_iff flip: bit_iff_odd)

lemma first_one:
  "0 < n \<Longrightarrow> n < 2 ^ m \<Longrightarrow>
   let k = length (takeWhile Not (map (\<lambda>i. odd (n div 2 ^ i)) (rev [0..<m]))) in
     k < m \<and> 2 ^ (m - 1 - k) \<le> n \<and> n < (2 ^ (m - k) :: nat)"
proof (induction m)
  case (Suc m)
  show ?case
  proof (cases "n < 2 ^ m")
    case True
    then show ?thesis using Suc by (auto simp: Let_def Suc_diff_Suc)
  next
    case False
    then have "n div 2 ^ m = 1" using Suc.prems(2) by (intro div_nat_eqI) simp_all
    then show ?thesis using False Suc.prems(2) by (simp add: Let_def)
  qed
qed simp

lemma byte_prefix:
  assumes "(b :: u8) \<noteq> 0"
  defines "k \<equiv> length (takeWhile Not (byte_bits b))"
  shows "k < 8" "2 ^ (7 - k) \<le> unat b" "unat b < 2 ^ (8 - k)"
proof -
  have "0 < unat b" "unat b < 2 ^ 8" using assms(1) byte_lt [of b] by (simp_all add: unat_gt_0)
  from first_one [OF this] show "k < 8" "2 ^ (7 - k) \<le> unat b" "unat b < 2 ^ (8 - k)"
    unfolding k_def byte_bits_def bit_byte Let_def by simp_all
qed

lemma prefix_loop_bounds:
  "be_num bs \<noteq> 0 \<Longrightarrow> prefix_loop bs < 8 * length bs \<and>
    2 ^ (8 * length bs - 1 - prefix_loop bs) \<le> be_num bs \<and> be_num bs < 2 ^ (8 * length bs - prefix_loop bs)"
proof (induction bs)
  case (Cons b bs)
  show ?case
  proof (cases "b = 0")
    case True
    then show ?thesis using Cons by (simp add: be_num_Cons)
  next
    case False
    let ?k = "length (takeWhile Not (byte_bits b))"
    note b = byte_prefix [OF False]
    have p: "(256 :: nat) ^ length bs = 2 ^ (8 * length bs)" by (simp add: power_mult)
    have lt: "be_num bs < 2 ^ (8 * length bs)" using be_num_lt [of bs] by (simp only: p)
    have "2 ^ (7 - ?k) * 2 ^ (8 * length bs) \<le> unat b * 2 ^ (8 * length bs)" using b(2) by simp
    moreover have "(2 :: nat) ^ (7 - ?k) * 2 ^ (8 * length bs) = 2 ^ (8 * length (b # bs) - 1 - ?k)"
      using b(1) by (simp flip: power_add)
    moreover have "unat b * 2 ^ (8 * length bs) + be_num bs < 2 ^ (8 - ?k) * 2 ^ (8 * length bs)"
    proof -
      have "Suc (unat b) * 2 ^ (8 * length bs) \<le> 2 ^ (8 - ?k) * 2 ^ (8 * length bs)" using b(3) by (intro mult_le_mono1) simp
      then show ?thesis using lt by simp
    qed
    moreover have "(2 :: nat) ^ (8 - ?k) * 2 ^ (8 * length bs) = 2 ^ (8 * length (b # bs) - ?k)"
      using b(1) by (simp flip: power_add)
    ultimately show ?thesis using False b(1) by (simp add: be_num_Cons p)
  qed
qed simp

lemma prefix_loop_zero: "be_num bs = 0 \<Longrightarrow> prefix_loop bs = 8 * length bs"
  by (induction bs) (auto simp: be_num_Cons unat_eq_zero)

lemma SamePrefixLength_value:
  assumes "valid_address a" "valid_address b"
  shows "\<exists>k. SamePrefixLength a b = Some (Inr k) \<and>
    (if xor_dist a b = 0 then k = 160 else k < 160 \<and> 2 ^ (159 - k) \<le> xor_dist a b \<and> xor_dist a b < 2 ^ (160 - k))"
proof -
  let ?d = "xor_bytes (id_num a) (id_num b)"
  have l: "8 * length ?d = 160" using assms by (simp add: length_xor_bytes length_id_num IDLength_def)
  have "SamePrefixLength a b = Some (Inr (prefix_loop ?d))" using assms by (simp add: SamePrefixLength_def Address_Distance_value)
  then show ?thesis using prefix_loop_bounds [of ?d] prefix_loop_zero [of ?d] unfolding l xor_dist_def by auto
qed

lemma SamePrefixLength_error:
  assumes "\<not> (valid_address a \<and> valid_address b)"
  shows "\<exists>err. SamePrefixLength a b = Some (Inl err)"
  using assms by (auto simp: SamePrefixLength_def Address_Distance_value)

end
