(* ===== verification/Smpc.thy ===== *)
theory Smpc
  imports Smpc_Message Identity "HOL-Library.List_Lexorder" "HOL-Library.Char_ord"
begin

section \<open>The multi-party computer: \<^verbatim>\<open>smpc/network.go\<close> and \<^verbatim>\<open>smpc/smpc.go\<close>\<close>

text \<open>
  The network keeps, for every network it is connected to, a handle for sending to each peer and a
  function that cancels the connection. \<^verbatim>\<open>Connect\<close> starts a goroutine for every peer, so the
  network is a system of interleaved steps: the locked sections of the source are the atomic ones.

  The computer keeps one joiner per network and its own joins. Every call is atomic; the messages
  it sends and the callbacks it calls are its outputs. What a peer's server answers (querying the
  swarm, connecting, listening) is a parameter.
\<close>

subsection \<open>Network\<close>

record 'snd network =
  networkSenders :: "network_id \<Rightarrow> (address \<Rightarrow> 'snd option) option"
  networkCancels :: "network_id \<Rightarrow> address set option"

definition NewNetwork :: "'snd network" where
  "NewNetwork = \<lparr>networkSenders = (\<lambda>_. None), networkCancels = (\<lambda>_. None)\<rparr>"

text \<open>\<^verbatim>\<open>Connect\<close>: the section that resets the maps; then, for each address, the section that
  stores the cancel function (an assignment into a nil map panics) and the one that stores the sender.\<close>

definition network_reset :: "'snd network \<Rightarrow> network_id \<Rightarrow> 'snd network" where
  "network_reset net nid = net\<lparr>networkSenders := (networkSenders net)(nid \<mapsto> (\<lambda>_. None)),
     networkCancels := (networkCancels net)(nid \<mapsto> {})\<rparr>"

definition network_store_cancel :: "'snd network \<Rightarrow> network_id \<Rightarrow> address \<Rightarrow> 'snd network option" where
  "network_store_cancel net nid addr =
     (case networkCancels net nid of
        None \<Rightarrow> None
      | Some cancels \<Rightarrow> Some (net\<lparr>networkCancels := (networkCancels net)(nid \<mapsto> insert addr cancels)\<rparr>))"

definition network_store_sender :: "'snd network \<Rightarrow> network_id \<Rightarrow> address \<Rightarrow> 'snd \<Rightarrow> 'snd network" where
  "network_store_sender net nid addr sender =
     (case networkSenders net nid of
        None \<Rightarrow> net
      | Some senders \<Rightarrow> net\<lparr>networkSenders := (networkSenders net)(nid \<mapsto> senders(addr \<mapsto> sender))\<rparr>)"

definition connectOrListen ::
    "address \<Rightarrow> (address \<Rightarrow> 'e + 'ma) \<Rightarrow> (network_id \<Rightarrow> 'ma \<Rightarrow> 'e + 'snd) \<Rightarrow> (network_id \<Rightarrow> address \<Rightarrow> 'e + 'snd) \<Rightarrow>
     network_id \<Rightarrow> address \<Rightarrow> 'snd option" where
  "connectOrListen self query connect listen nid addr =
     (if addr < self then
        (case query addr of
           Inl _ \<Rightarrow> None
         | Inr multiAddr \<Rightarrow> (case connect nid multiAddr of Inl _ \<Rightarrow> None | Inr sender \<Rightarrow> Some sender))
      else (case listen nid addr of Inl _ \<Rightarrow> None | Inr sender \<Rightarrow> Some sender))"

text \<open>\<^verbatim>\<open>Disconnect\<close> also calls the cancel functions it holds.\<close>

definition Network_Disconnect :: "'snd network \<Rightarrow> network_id \<Rightarrow> 'snd network \<times> address set" where
  "Network_Disconnect net nid =
     (net\<lparr>networkSenders := (networkSenders net)(nid := None), networkCancels := (networkCancels net)(nid := None)\<rparr>,
      case networkCancels net nid of None \<Rightarrow> {} | Some cancels \<Rightarrow> cancels)"

text \<open>The senders a message goes to.\<close>

definition Network_Send :: "'snd network \<Rightarrow> network_id \<Rightarrow> address \<Rightarrow> 'snd option" where
  "Network_Send net nid = (case networkSenders net nid of None \<Rightarrow> (\<lambda>_. None) | Some senders \<Rightarrow> senders)"

definition Network_SendTo :: "'snd network \<Rightarrow> network_id \<Rightarrow> address \<Rightarrow> 'snd option" where
  "Network_SendTo net nid to =
     (case networkSenders net nid of None \<Rightarrow> None | Some senders \<Rightarrow> senders to)"

text \<open>The interleavings. \<open>spawned\<close> are the goroutines that have not stored their cancel function,
  \<open>dialing\<close> those between the two sections. \<open>None\<close> is the crash of the process.\<close>

record 'snd net_sys =
  net :: "'snd network"
  spawned :: "(network_id \<times> address) list"
  dialing :: "(network_id \<times> address) list"

datatype net_event =
    Connects network_id "address list"
  | Disconnects network_id
  | Starts network_id address
  | Dials network_id address

inductive net_step ::
    "address \<Rightarrow> (network_id \<Rightarrow> address \<Rightarrow> 'snd option) \<Rightarrow> 'snd net_sys \<Rightarrow> net_event \<Rightarrow> 'snd net_sys option \<Rightarrow> bool"
  for self :: address and dial :: "network_id \<Rightarrow> address \<Rightarrow> 'snd option" where
  connect: "net_step self dial s (Connects nid addrs)
     (Some (s\<lparr>net := network_reset (net s) nid, spawned := spawned s @ map (Pair nid) addrs\<rparr>))"
| disconnect: "net_step self dial s (Disconnects nid) (Some (s\<lparr>net := fst (Network_Disconnect (net s) nid)\<rparr>))"
| skip_self: "(nid, addr) \<in> set (spawned s) \<Longrightarrow> addr = self \<Longrightarrow>
     net_step self dial s (Starts nid addr) (Some (s\<lparr>spawned := remove1 (nid, addr) (spawned s)\<rparr>))"
| start: "(nid, addr) \<in> set (spawned s) \<Longrightarrow> addr \<noteq> self \<Longrightarrow> network_store_cancel (net s) nid addr = Some n \<Longrightarrow>
     net_step self dial s (Starts nid addr)
       (Some (s\<lparr>net := n, spawned := remove1 (nid, addr) (spawned s), dialing := (nid, addr) # dialing s\<rparr>))"
| crash: "(nid, addr) \<in> set (spawned s) \<Longrightarrow> addr \<noteq> self \<Longrightarrow> network_store_cancel (net s) nid addr = None \<Longrightarrow>
     net_step self dial s (Starts nid addr) None"
| dial_fails: "(nid, addr) \<in> set (dialing s) \<Longrightarrow> dial nid addr = None \<Longrightarrow>
     net_step self dial s (Dials nid addr) (Some (s\<lparr>dialing := remove1 (nid, addr) (dialing s)\<rparr>))"
| dial_ok: "(nid, addr) \<in> set (dialing s) \<Longrightarrow> dial nid addr = Some sender \<Longrightarrow>
     net_step self dial s (Dials nid addr)
       (Some (s\<lparr>net := network_store_sender (net s) nid addr sender, dialing := remove1 (nid, addr) (dialing s)\<rparr>))"

inductive net_run ::
    "address \<Rightarrow> (network_id \<Rightarrow> address \<Rightarrow> 'snd option) \<Rightarrow> net_event list \<Rightarrow> 'snd net_sys option \<Rightarrow> bool"
  for self :: address and dial :: "network_id \<Rightarrow> address \<Rightarrow> 'snd option" where
  init: "net_run self dial [] (Some \<lparr>net = NewNetwork, spawned = [], dialing = []\<rparr>)"
| step: "net_run self dial evs (Some s) \<Longrightarrow> net_step self dial s ev s' \<Longrightarrow> net_run self dial (evs @ [ev]) s'"

inductive_cases net_step_SomeE: "net_step self dial s ev (Some s')"
inductive_cases net_step_NoneE: "net_step self dial s ev None"

text \<open>In every reachable state the two maps have the same networks, no sender leads to the node
  itself, and the node never dials itself.\<close>

definition net_inv :: "address \<Rightarrow> 'snd net_sys \<Rightarrow> bool" where
  "net_inv self s \<longleftrightarrow> dom (networkSenders (net s)) = dom (networkCancels (net s)) \<and>
     (\<forall>nid senders. networkSenders (net s) nid = Some senders \<longrightarrow> senders self = None) \<and>
     (\<forall>nid cancels. networkCancels (net s) nid = Some cancels \<longrightarrow> self \<notin> cancels) \<and>
     (\<forall>(nid, addr)\<in>set (dialing s). addr \<noteq> self)"

lemmas network_defs = network_reset_def network_store_cancel_def network_store_sender_def Network_Disconnect_def NewNetwork_def

lemma in_remove1D: "x \<in> set (remove1 y xs) \<Longrightarrow> x \<in> set xs"
  by (rule set_remove1_subset [THEN subsetD])

lemma network_dom:
  "dom (networkSenders (network_reset n nid)) = insert nid (dom (networkSenders n))"
  "dom (networkCancels (network_reset n nid)) = insert nid (dom (networkCancels n))"
  "network_store_cancel n nid addr = Some n' \<Longrightarrow>
     dom (networkCancels n') = dom (networkCancels n) \<and> networkSenders n' = networkSenders n"
  "dom (networkSenders (network_store_sender n nid addr sender)) = dom (networkSenders n)"
  "networkCancels (network_store_sender n nid addr sender) = networkCancels n"
  "dom (networkSenders (fst (Network_Disconnect n nid))) = dom (networkSenders n) - {nid}"
  "dom (networkCancels (fst (Network_Disconnect n nid))) = dom (networkCancels n) - {nid}"
  by (auto simp: network_defs insert_absorb domI split: option.splits if_splits)

lemma net_step_dom:
  "net_step self dial s ev (Some s') \<Longrightarrow> dom (networkSenders (net s)) = dom (networkCancels (net s)) \<Longrightarrow>
    dom (networkSenders (net s')) = dom (networkCancels (net s'))"
  by (erule net_step_SomeE) (auto simp: network_dom dest: network_dom(3))

lemma net_step_inv: "net_step self dial s ev (Some s') \<Longrightarrow> net_inv self s \<Longrightarrow> net_inv self s'"
proof -
  assume step: "net_step self dial s ev (Some s')" and inv: "net_inv self s"
  have "(\<forall>nid senders. networkSenders (net s') nid = Some senders \<longrightarrow> senders self = None) \<and>
     (\<forall>nid cancels. networkCancels (net s') nid = Some cancels \<longrightarrow> self \<notin> cancels) \<and>
     (\<forall>(nid, addr)\<in>set (dialing s'). addr \<noteq> self)"
    using step inv unfolding net_inv_def
    by cases (auto simp: network_defs split: option.splits if_splits dest!: in_remove1D)
  then show ?thesis using net_step_dom [OF step] inv unfolding net_inv_def by blast
qed

lemma net_run_inv: "net_run self dial evs s' \<Longrightarrow> s' = Some s \<Longrightarrow> net_inv self s"
proof (induction arbitrary: s rule: net_run.induct)
  case init
  then show ?case by (auto simp: net_inv_def NewNetwork_def)
next
  case (step evs s ev s')
  then show ?case using net_step_inv by blast
qed

text \<open>As long as no network is disconnected the process does not crash: every goroutine that has been
  started finds its map.\<close>

lemma net_step_spawned:
  assumes "net_step self dial s ev (Some s')" "\<forall>nid. ev \<noteq> Disconnects nid"
  shows "dom (networkCancels (net s)) \<subseteq> dom (networkCancels (net s')) \<and>
    fst ` set (spawned s') \<subseteq> fst ` set (spawned s) \<union> dom (networkCancels (net s'))"
proof -
  have rem: "fst ` set (remove1 x xs) \<subseteq> fst ` set xs \<union> A" for x :: "network_id \<times> address" and xs A
    by (rule subset_trans [OF image_mono [OF set_remove1_subset]]) simp
  from assms(1) show ?thesis
  proof cases
    case (connect nid addrs)
    then show ?thesis by (simp add: network_dom image_Un image_image) blast
  next
    case (start nid addr n)
    then show ?thesis using network_dom(3) [OF start(5)] by (simp add: rem)
  qed (use assms(2) in \<open>simp_all add: rem network_dom\<close>)
qed

lemma net_run_spawned:
  "net_run self dial evs s' \<Longrightarrow> s' = Some s \<Longrightarrow> (\<forall>ev\<in>set evs. \<forall>nid. ev \<noteq> Disconnects nid) \<Longrightarrow>
    fst ` set (spawned s) \<subseteq> dom (networkCancels (net s))"
proof (induction arbitrary: s rule: net_run.induct)
  case (step evs s0 ev s')
  have "fst ` set (spawned s0) \<subseteq> dom (networkCancels (net s0))"
    using step.prems(2) by (intro step.IH) simp_all
  moreover have "net_step self dial s0 ev (Some s)" using step.hyps(2) step.prems(1) by simp
  then have "dom (networkCancels (net s0)) \<subseteq> dom (networkCancels (net s)) \<and>
      fst ` set (spawned s) \<subseteq> fst ` set (spawned s0) \<union> dom (networkCancels (net s))"
    using step.prems(2) by (intro net_step_spawned [of self dial]) auto
  ultimately show ?case by blast
qed (simp add: NewNetwork_def)

lemma net_no_crash:
  assumes "\<forall>ev\<in>set evs. \<forall>nid. ev \<noteq> Disconnects nid"
  shows "\<not> net_run self dial evs None"
proof
  assume "net_run self dial evs None"
  then show False
  proof (cases rule: net_run.cases)
    case (step evs' s ev)
    from step(3) obtain nid addr where c: "(nid, addr) \<in> set (spawned s)" "network_store_cancel (net s) nid addr = None"
      by (rule net_step_NoneE)
    moreover have "fst ` set (spawned s) \<subseteq> dom (networkCancels (net s))"
      using assms step(1) by (intro net_run_spawned [OF step(2) refl]) simp
    then have "nid \<in> dom (networkCancels (net s))" using c(1) by (metis fst_conv image_subset_iff)
    ultimately show False by (auto simp: network_store_cancel_def)
  qed
qed

text \<open>Disconnecting before a goroutine has stored its cancel function makes it write into a nil map.\<close>

lemma net_crash:
  assumes "addr \<noteq> self"
  shows "net_run self dial [Connects nid [addr], Disconnects nid, Starts nid addr] None"
proof -
  let ?s0 = "\<lparr>net = NewNetwork, spawned = [], dialing = []\<rparr> :: 'a net_sys"
  let ?s1 = "?s0\<lparr>net := network_reset NewNetwork nid, spawned := [(nid, addr)]\<rparr>"
  let ?s2 = "?s1\<lparr>net := fst (Network_Disconnect (network_reset NewNetwork nid) nid)\<rparr>"
  have "net_run self dial [Connects nid [addr]] (Some ?s1)"
    using net_run.step [OF net_run.init net_step.connect, of self dial nid "[addr]"] by simp
  then have "net_run self dial [Connects nid [addr], Disconnects nid] (Some ?s2)"
    using net_run.step [OF _ net_step.disconnect, of self dial "[Connects nid [addr]]" ?s1 nid] by simp
  moreover have "net_step self dial ?s2 (Starts nid addr) None"
    using assms by (intro net_step.crash) (simp_all add: network_defs)
  ultimately show ?thesis using net_run.step [of self dial "[Connects nid [addr], Disconnects nid]" ?s2] by simp
qed

subsection \<open>The computer\<close>

datatype smpc_error = ErrJoinOnDisconnectedNetwork | ErrJoin join_error

record 'cb smpcer =
  joiners :: "network_id \<Rightarrow> 'cb joiner option"
  selfJoins :: "join_id \<Rightarrow> join option"

datatype 'cb smpc_out =
    Broadcasts network_id message
  | Replies network_id address message
  | Calls 'cb join_id "u64 list"

definition NewSmpcer :: "'cb smpcer" where
  "NewSmpcer = \<lparr>joiners = (\<lambda>_. None), selfJoins = (\<lambda>_. None)\<rparr>"

definition smpc_threshold :: "nat \<Rightarrow> int" where
  "smpc_threshold n = int (2 * (n + 1) div 3)"

definition Smpcer_Connect :: "'cb smpcer \<Rightarrow> network_id \<Rightarrow> address list \<Rightarrow> 'cb smpcer option" where
  "Smpcer_Connect st nid addrs =
     do { jr \<leftarrow> NewJoiner (smpc_threshold (length addrs));
          Some (st\<lparr>joiners := (joiners st)(nid \<mapsto> jr)\<rparr>) }"

definition Smpcer_Disconnect :: "'cb smpcer \<Rightarrow> network_id \<Rightarrow> 'cb smpcer" where
  "Smpcer_Disconnect st nid = st\<lparr>joiners := (joiners st)(nid := None)\<rparr>"

definition calls :: "('cb \<times> join_id \<times> u64 list) option \<Rightarrow> 'cb smpc_out list" where
  "calls out = (case out of None \<Rightarrow> [] | Some (cb, jid, vals) \<Rightarrow> [Calls cb jid vals])"

definition Smpcer_Join ::
    "(nat \<Rightarrow> join list \<Rightarrow> join list) \<Rightarrow> 'cb smpcer \<Rightarrow> network_id \<Rightarrow> join \<Rightarrow> 'cb option \<Rightarrow>
     ('cb smpcer \<times> (smpc_error + 'cb smpc_out list)) option" where
  "Smpcer_Join rng st nid join callback =
     (let st = st\<lparr>selfJoins := (selfJoins st)(JoinID join \<mapsto> join)\<rparr>
      in case joiners st nid of
           None \<Rightarrow> Some (st, Inl ErrJoinOnDisconnectedNetwork)
         | Some joiner \<Rightarrow>
             do { (joiner, r) \<leftarrow> InsertJoinAndSetCallback rng joiner join callback;
                  let st = st\<lparr>joiners := (joiners st)(nid \<mapsto> joiner)\<rparr>;
                  Some (st, case r of
                      Inl e \<Rightarrow> Inl (ErrJoin e)
                    | Inr out \<Rightarrow> Inr (calls out @ [Broadcasts nid
                        \<lparr>MessageType = MessageTypeJoin,
                         MessageJoin = Some \<lparr>MNetworkID = nid, MJoin = join\<rparr>,
                         MessageJoinResponse = None\<rparr>])) })"

definition smpc_insert ::
    "(nat \<Rightarrow> join list \<Rightarrow> join list) \<Rightarrow> 'cb smpcer \<Rightarrow> message_join \<Rightarrow> ('cb smpcer \<times> (smpc_error + 'cb smpc_out list)) option" where
  "smpc_insert rng st m =
     (case joiners st (MNetworkID m) of
        None \<Rightarrow> Some (st, Inr [])
      | Some joiner \<Rightarrow>
          do { (joiner, r) \<leftarrow> InsertJoin rng joiner (MJoin m);
               Some (st\<lparr>joiners := (joiners st)(MNetworkID m \<mapsto> joiner)\<rparr>,
                 case r of Inl e \<Rightarrow> Inl (ErrJoin e) | Inr out \<Rightarrow> Inr (calls out)) })"

definition handleMessageJoin ::
    "(nat \<Rightarrow> join list \<Rightarrow> join list) \<Rightarrow> 'cb smpcer \<Rightarrow> address \<Rightarrow> message_join \<Rightarrow> ('cb smpcer \<times> (smpc_error + 'cb smpc_out list)) option" where
  "handleMessageJoin rng st from m =
     do { (st, r) \<leftarrow> smpc_insert rng st m;
          Some (st, ebind r (\<lambda>outs. Inr (outs @
            (case selfJoins st (JoinID (MJoin m)) of
               None \<Rightarrow> []
             | Some join \<Rightarrow> [Replies (MNetworkID m) from
                 \<lparr>MessageType = MessageTypeJoinResponse, MessageJoin = None,
                  MessageJoinResponse = Some \<lparr>MNetworkID = MNetworkID m, MJoin = join\<rparr>\<rparr>])))) }"

definition handleMessageJoinResponse ::
    "(nat \<Rightarrow> join list \<Rightarrow> join list) \<Rightarrow> 'cb smpcer \<Rightarrow> message_join \<Rightarrow> ('cb smpcer \<times> (smpc_error + 'cb smpc_out list)) option" where
  "handleMessageJoinResponse rng st m = smpc_insert rng st m"

text \<open>\<^verbatim>\<open>Receive\<close> logs the errors of its handlers.\<close>

definition Smpcer_Receive ::
    "(nat \<Rightarrow> join list \<Rightarrow> join list) \<Rightarrow> 'cb smpcer \<Rightarrow> address \<Rightarrow> message \<Rightarrow> ('cb smpcer \<times> 'cb smpc_out list) option" where
  "Smpcer_Receive rng st from m =
     (let ignore = (\<lambda>(st, r). (st, case r of Inl _ \<Rightarrow> [] | Inr outs \<Rightarrow> outs))
      in if MessageType m = MessageTypeJoin then
           do { mj \<leftarrow> MessageJoin m; map_option ignore (handleMessageJoin rng st from mj) }
         else if MessageType m = MessageTypeJoinResponse then
           do { mj \<leftarrow> MessageJoinResponse m; map_option ignore (handleMessageJoinResponse rng st mj) }
         else Some (st, []))"

text \<open>A sequence of messages received.\<close>

fun Smpcer_Receives ::
    "'cb smpcer \<Rightarrow> ((nat \<Rightarrow> join list \<Rightarrow> join list) \<times> address \<times> message) list \<Rightarrow> ('cb smpcer \<times> 'cb smpc_out list) option" where
  "Smpcer_Receives st [] = Some (st, [])"
| "Smpcer_Receives st ((rng, from, m) # evs) =
     do { (st, outs) \<leftarrow> Smpcer_Receive rng st from m;
          (st, outs') \<leftarrow> Smpcer_Receives st evs;
          Some (st, outs @ outs') }"

subsection \<open>The threshold\<close>

lemma smpc_threshold_bounds: "0 < n \<Longrightarrow> 0 < smpc_threshold n \<and> smpc_threshold n \<le> int n"
  by (auto simp: smpc_threshold_def)

text \<open>Any two sets of that many of the \<open>n\<close> nodes overlap in at least a third of them, less one.\<close>

lemma smpc_threshold_majority: "2 \<le> n \<Longrightarrow> int n < 2 * smpc_threshold n"
  by (simp add: smpc_threshold_def)

text \<open>Two sets of nodes that reach the threshold share a node.\<close>

lemma smpc_threshold_intersects:
  assumes "A \<subseteq> set addrs" "B \<subseteq> set addrs" "distinct addrs" "2 \<le> length addrs"
    and "smpc_threshold (length addrs) \<le> int (card A)" "smpc_threshold (length addrs) \<le> int (card B)"
  shows "A \<inter> B \<noteq> {} \<and> smpc_threshold (length addrs) \<le> int (length addrs)"
proof
  have fin: "finite A" "finite B" using assms(1,2) by (auto intro: finite_subset)
  have "card (A \<union> B) \<le> card (set addrs)" by (rule card_mono) (use assms(1,2) in auto)
  then have le: "card (A \<union> B) \<le> length addrs" using distinct_card [OF assms(3)] by simp
  show "A \<inter> B \<noteq> {}"
  proof
    assume "A \<inter> B = {}"
    then have "card (A \<union> B) = card A + card B" using fin by (simp add: card_Un_disjoint)
    then show False using smpc_threshold_majority [OF assms(4)] assms(5,6) le by linarith
  qed
  have "0 < length addrs" using assms(4) by linarith
  from smpc_threshold_bounds [OF this] show "smpc_threshold (length addrs) \<le> int (length addrs)" by simp
qed

subsection \<open>Receiving joins is inserting them\<close>

text \<open>The join of a message, and the callbacks among the outputs.\<close>

definition message_join_of :: "message \<Rightarrow> message_join option" where
  "message_join_of m =
     (if MessageType m = MessageTypeJoin then MessageJoin m
      else if MessageType m = MessageTypeJoinResponse then MessageJoinResponse m else None)"

definition called :: "'cb smpc_out list \<Rightarrow> ('cb \<times> join_id \<times> u64 list) list" where
  "called outs = List.map_filter (\<lambda>out. case out of Calls cb jid vals \<Rightarrow> Some (cb, jid, vals) | _ \<Rightarrow> None) outs"

lemma called_simps [simp]: "called [] = []" "called (xs @ ys) = called xs @ called ys"
  "called (Calls cb jid vals # xs) = (cb, jid, vals) # called xs"
  "called (Broadcasts nid m # xs) = called xs" "called (Replies nid a m # xs) = called xs"
  by (simp_all add: called_def List.map_filter_def)

lemma called_calls [simp]: "called (calls out) = (case out of None \<Rightarrow> [] | Some c \<Rightarrow> [c])"
  by (auto simp: calls_def split: option.splits)

lemma Smpcer_Receive_insert:
  assumes "joiners st nid = Some jr" "message_join_of m = Some mj" "MNetworkID mj = nid"
    and "InsertJoin rng jr (MJoin mj) = Some (jr', r)"
  shows "\<exists>outs. Smpcer_Receive rng st from m = Some (st\<lparr>joiners := (joiners st)(nid \<mapsto> jr')\<rparr>, outs) \<and>
    called outs = (case r of Inr (Some c) \<Rightarrow> [c] | _ \<Rightarrow> [])"
proof -
  have ne: "MessageTypeJoinResponse \<noteq> MessageTypeJoin" by (simp add: MessageTypeJoin_def MessageTypeJoinResponse_def)
  have ins: "smpc_insert rng st mj = Some (st\<lparr>joiners := (joiners st)(nid \<mapsto> jr')\<rparr>,
      case r of Inl e \<Rightarrow> Inl (ErrJoin e) | Inr out \<Rightarrow> Inr (calls out))"
    using assms by (simp add: smpc_insert_def)
  show ?thesis using assms(2) ins ne
    by (cases r) (auto simp: message_join_of_def Smpcer_Receive_def handleMessageJoin_def handleMessageJoinResponse_def
        split: if_splits option.splits)
qed

text \<open>The node refines the joiner of the network: the messages of a network are insertions.\<close>

definition join_events ::
    "network_id \<Rightarrow> ((nat \<Rightarrow> join list \<Rightarrow> join list) \<times> address \<times> message) list \<Rightarrow>
     ((nat \<Rightarrow> join list \<Rightarrow> join list) \<times> join) list \<Rightarrow> bool" where
  "join_events nid evs js \<longleftrightarrow> list_all2 (\<lambda>(rng, _, m) (rng', j).
     rng' = rng \<and> message_join_of m = Some \<lparr>MNetworkID = nid, MJoin = j\<rparr>) evs js"

lemma put_joiner_twice:
  "st\<lparr>joiners := (joiners st)(nid \<mapsto> a)\<rparr>\<lparr>joiners := (joiners (st\<lparr>joiners := (joiners st)(nid \<mapsto> a)\<rparr>))(nid \<mapsto> b)\<rparr> =
    st\<lparr>joiners := (joiners st)(nid \<mapsto> b)\<rparr>"
  by (cases st) simp

lemma Smpcer_Receives_refines:
  "join_events nid evs js \<Longrightarrow> joiners st nid = Some jr \<Longrightarrow> InsertJoins jr js = Some (jr', cs) \<Longrightarrow>
    \<exists>outs. Smpcer_Receives st evs = Some (st\<lparr>joiners := (joiners st)(nid \<mapsto> jr')\<rparr>, outs) \<and> called outs = cs"
proof (induction evs arbitrary: js st jr cs)
  case Nil
  then show ?case by (auto simp: join_events_def map_upd_triv)
next
  case (Cons ev evs)
  obtain rng frm m where ev: "ev = (rng, frm, m)" by (cases ev)
  obtain j js' where js: "js = (rng, j) # js'" "join_events nid evs js'"
    "message_join_of m = Some \<lparr>MNetworkID = nid, MJoin = j\<rparr>"
    using Cons.prems(1) ev by (auto simp: join_events_def list_all2_Cons1)
  obtain jr1 r cs' where 1: "InsertJoin rng jr j = Some (jr1, r)" "InsertJoins jr1 js' = Some (jr', cs')"
    "cs = (case r of Inr (Some c) \<Rightarrow> [c] | _ \<Rightarrow> []) @ cs'"
    using Cons.prems(3) js(1) by (auto split: bind_splits)
  let ?st = "st\<lparr>joiners := (joiners st)(nid \<mapsto> jr1)\<rparr>"
  obtain o1 where o1: "Smpcer_Receive rng st frm m = Some (?st, o1)" "called o1 = (case r of Inr (Some c) \<Rightarrow> [c] | _ \<Rightarrow> [])"
    using Smpcer_Receive_insert [OF Cons.prems(2) js(3), of rng jr1 r frm] 1(1) by auto
  have "joiners ?st nid = Some jr1" by simp
  from Cons.IH [OF js(2) this 1(2)]
  obtain o2 where o2: "Smpcer_Receives ?st evs = Some (?st\<lparr>joiners := (joiners ?st)(nid \<mapsto> jr')\<rparr>, o2)" "called o2 = cs'"
    by blast
  have "?st\<lparr>joiners := (joiners ?st)(nid \<mapsto> jr')\<rparr> = st\<lparr>joiners := (joiners st)(nid \<mapsto> jr')\<rparr>"
    by (rule put_joiner_twice)
  with o2(1) have o2': "Smpcer_Receives ?st evs = Some (st\<lparr>joiners := (joiners st)(nid \<mapsto> jr')\<rparr>, o2)" by (simp only:)
  have "Smpcer_Receives st (ev # evs) = Some (st\<lparr>joiners := (joiners st)(nid \<mapsto> jr')\<rparr>, o1 @ o2)"
    unfolding ev Smpcer_Receives.simps o1(1) bind.bind_lunit prod.case o2' ..
  moreover have "called (o1 @ o2) = cs" using o1(2) o2(2) 1(3) by simp
  ultimately show ?case by blast
qed

text \<open>A node that is connected, receives joins, joins itself and receives more joins.\<close>

definition smpc_run where
  "smpc_run st nid before rng own cb after =
     do { (st, outs1) \<leftarrow> Smpcer_Receives st before;
          (st, r) \<leftarrow> Smpcer_Join rng st nid own (Some cb);
          (st, outs2) \<leftarrow> Smpcer_Receives st after;
          Some (st, outs1 @ (case r of Inl _ \<Rightarrow> [] | Inr outs \<Rightarrow> outs) @ outs2) }"

lemma smpc_run_refines:
  assumes "joiners st nid = Some jr" "join_events nid before js1" "join_events nid after js2"
    and "join_run jr js1 rng own cb js2 = Some (jr', cs)"
  shows "\<exists>st' outs. smpc_run st nid before rng own cb after = Some (st', outs) \<and> called outs = cs"
proof -
  obtain jr1 c1 jr2 r c2 where j: "InsertJoins jr js1 = Some (jr1, c1)"
    "InsertJoinAndSetCallback rng jr1 own (Some cb) = Some (jr2, r)" "InsertJoins jr2 js2 = Some (jr', c2)"
    "cs = c1 @ (case r of Inr (Some out) \<Rightarrow> [out] | _ \<Rightarrow> []) @ c2"
    using assms(4) by (auto simp: join_run_def split: bind_splits)
  let ?st1 = "st\<lparr>joiners := (joiners st)(nid \<mapsto> jr1)\<rparr>"
  obtain o1 where o1: "Smpcer_Receives st before = Some (?st1, o1)" "called o1 = c1"
    using Smpcer_Receives_refines [OF assms(2,1) j(1)] by blast
  obtain st2 r2 where s: "Smpcer_Join rng ?st1 nid own (Some cb) = Some (st2, r2)" "joiners st2 nid = Some jr2"
    "called (case r2 of Inl _ \<Rightarrow> [] | Inr outs \<Rightarrow> outs) = (case r of Inr (Some out) \<Rightarrow> [out] | _ \<Rightarrow> [])"
    using j(2) by (auto simp: Smpcer_Join_def Let_def split: sum.splits option.splits)
  obtain st3 o2 where o2: "Smpcer_Receives st2 after = Some (st3, o2)" "called o2 = c2"
    using Smpcer_Receives_refines [OF assms(3) s(2) j(3)] by blast
  show ?thesis using o1 s o2 j(4) by (simp add: smpc_run_def)
qed

lemma smpc_run_once:
  fixes cb :: 'cb
  assumes U: "join_family k jid ss U" and k: "int k = smpc_threshold (length addrs)" "addrs \<noteq> []"
    and evs: "join_events nid before js1" "join_events nid after js2"
    and mem: "\<forall>(rng, j)\<in>set (js1 @ (rng, own) # js2). any_order rng \<and> j \<in> set U"
  shows "\<exists>st st' outs. Smpcer_Connect NewSmpcer nid addrs = Some st \<and>
    smpc_run st nid before rng own cb after = Some (st', outs) \<and>
    called outs = (if k \<le> card (JoinIndex ` snd ` set (js1 @ (rng, own) # js2)) then [(cb, jid, secret_words ss)] else [])"
proof -
  have "0 < k" using k smpc_threshold_bounds [of "length addrs"] by simp
  then obtain jr :: "'cb joiner" where jr: "NewJoiner (int k) = Some jr" using NewJoiner_wf [of "int k"] by force
  let ?st = "NewSmpcer\<lparr>joiners := (joiners NewSmpcer)(nid \<mapsto> jr)\<rparr>"
  have "Smpcer_Connect NewSmpcer nid addrs = Some ?st" using jr k(1) by (simp add: Smpcer_Connect_def)
  moreover obtain jr' where "join_run jr js1 rng own cb js2 = Some (jr',
      if k \<le> card (JoinIndex ` snd ` set (js1 @ (rng, own) # js2)) then [(cb, jid, secret_words ss)] else [])"
    using join_run_once [OF U \<open>0 < k\<close> jr mem] by blast
  from smpc_run_refines [OF _ evs this, of ?st]
  have "\<exists>st' outs. smpc_run ?st nid before rng own cb after = Some (st', outs) \<and>
    called outs = (if k \<le> card (JoinIndex ` snd ` set (js1 @ (rng, own) # js2)) then [(cb, jid, secret_words ss)] else [])"
    by simp
  ultimately show ?thesis by blast
qed

end
