(* ===== verification/Ome_Matcher.thy ===== *)
theory Ome_Matcher
  imports Smpc
begin

section \<open>Matching orders: \<^verbatim>\<open>ome/computation.go\<close> and \<^verbatim>\<open>ome/matcher.go\<close>\<close>

text \<open>
  A computation pairs a fragment of a buy order with a fragment of a sell order. The matcher resolves
  it in stages: at each stage every node subtracts its two shares of one value, the multi-party
  computer reveals the difference, and its sign decides the next stage.

  A handler's effects are its outputs: storing a computation, asking the computer for a join, calling
  the callback. The closure passed to the computer is the computation and the stage it captures.
  Errors of the store are logged and ignored by the source. The clock is a parameter.
\<close>

subsection \<open>Computations\<close>

type_synonym computation_id = bytes

datatype computation_state =
    ComputationStateNil
  | ComputationStateMatched
  | ComputationStateMismatched
  | ComputationStateAccepted
  | ComputationStateRejected
  | ComputationStateSettled

fun ComputationState_String :: "computation_state \<Rightarrow> string" where
  "ComputationState_String ComputationStateNil = ''nil''"
| "ComputationState_String ComputationStateMatched = ''matched''"
| "ComputationState_String ComputationStateMismatched = ''mismatched''"
| "ComputationState_String ComputationStateAccepted = ''accepted''"
| "ComputationState_String ComputationStateRejected = ''rejected''"
| "ComputationState_String ComputationStateSettled = ''settled''"

record computation =
  Timestamp :: time
  ComID :: computation_id
  Buy :: fragment
  Sell :: fragment
  ComEpoch :: bytes
  ComEpochDepth :: u32
  State :: computation_state
  Match :: bool

definition NewComputationID :: "keccak \<Rightarrow> order_id \<Rightarrow> order_id \<Rightarrow> u32 \<Rightarrow> computation_id" where
  "NewComputationID keccak buy sell depth =
     (let depthBytes = [ucast (drop_bit 24 depth), ucast (drop_bit 16 depth), ucast (drop_bit 8 depth), ucast depth]
      in copy32 (keccak (buy @ sell @ depthBytes)))"

definition ComputationID_String :: "computation_id \<Rightarrow> string" where
  "ComputationID_String i = take 4 (b64_encode i)"

definition NewComputation :: "keccak \<Rightarrow> time \<Rightarrow> bytes \<Rightarrow> fragment \<Rightarrow> fragment \<Rightarrow> computation_state \<Rightarrow> bool \<Rightarrow> computation" where
  "NewComputation keccak now epoch buy sell state match =
     \<lparr>Timestamp = now, ComID = NewComputationID keccak (OrderID buy) (OrderID sell) (EpochDepth buy),
      Buy = buy, Sell = sell, ComEpoch = epoch, ComEpochDepth = EpochDepth buy, State = state, Match = match\<rparr>"

definition Computation_Equal :: "computation \<Rightarrow> computation \<Rightarrow> bool" where
  "Computation_Equal com arg \<longleftrightarrow> Timestamp com = Timestamp arg \<and> ComID com = ComID arg \<and>
     Fragment_Equal (Buy com) (Buy arg) \<and> Fragment_Equal (Sell com) (Sell arg) \<and>
     State com = State arg \<and> Match com = Match arg"

subsection \<open>Stages\<close>

type_synonym resolve_stage = u8

definition ResolveStageNil :: resolve_stage where "ResolveStageNil = 0"
definition ResolveStagePriceExp :: resolve_stage where "ResolveStagePriceExp = 1"
definition ResolveStagePriceCo :: resolve_stage where "ResolveStagePriceCo = 2"
definition ResolveStageBuyVolumeExp :: resolve_stage where "ResolveStageBuyVolumeExp = 3"
definition ResolveStageBuyVolumeCo :: resolve_stage where "ResolveStageBuyVolumeCo = 4"
definition ResolveStageSellVolumeExp :: resolve_stage where "ResolveStageSellVolumeExp = 5"
definition ResolveStageSellVolumeCo :: resolve_stage where "ResolveStageSellVolumeCo = 6"
definition ResolveStageTokens :: resolve_stage where "ResolveStageTokens = 7"
definition ResolveStageSettlement :: resolve_stage where "ResolveStageSettlement = 8"

lemmas stage_defs = ResolveStageNil_def ResolveStagePriceExp_def ResolveStagePriceCo_def ResolveStageBuyVolumeExp_def
  ResolveStageBuyVolumeCo_def ResolveStageSellVolumeExp_def ResolveStageSellVolumeCo_def ResolveStageTokens_def
  ResolveStageSettlement_def

definition ResolveStage_String :: "resolve_stage \<Rightarrow> string" where
  "ResolveStage_String stage =
     (if stage = ResolveStageNil then ''nil'' else if stage = ResolveStagePriceExp then ''priceExp''
      else if stage = ResolveStagePriceCo then ''priceCo'' else if stage = ResolveStageBuyVolumeExp then ''buyVolumeExp''
      else if stage = ResolveStageBuyVolumeCo then ''buyVolumeCo''
      else if stage = ResolveStageSellVolumeExp then ''sellVolumeExp''
      else if stage = ResolveStageSellVolumeCo then ''sellVolumeCo'' else if stage = ResolveStageTokens then ''tokens''
      else '''')"

datatype matcher_error = ErrUnexpectedResolveStage

definition buildJoin :: "computation \<Rightarrow> resolve_stage \<Rightarrow> (matcher_error + join) option" where
  "buildJoin com stage =
     (let b = Buy com; s = Sell com;
          join = (\<lambda>share. Inr \<lparr>JoinID = copy32 (ComID com) @ [stage], JoinIndex = Index share, JoinShares = [share]\<rparr>)
      in if stage = ResolveStagePriceExp then map_option join (Share_Sub (ShExp (FPrice b)) (ShExp (FPrice s)))
         else if stage = ResolveStagePriceCo then map_option join (Share_Sub (ShCo (FPrice b)) (ShCo (FPrice s)))
         else if stage = ResolveStageBuyVolumeExp then map_option join (Share_Sub (ShExp (FVolume b)) (ShExp (FMinimumVolume s)))
         else if stage = ResolveStageBuyVolumeCo then map_option join (Share_Sub (ShCo (FVolume b)) (ShCo (FMinimumVolume s)))
         else if stage = ResolveStageSellVolumeExp then map_option join (Share_Sub (ShExp (FVolume s)) (ShExp (FMinimumVolume b)))
         else if stage = ResolveStageSellVolumeCo then map_option join (Share_Sub (ShCo (FVolume s)) (ShCo (FMinimumVolume b)))
         else if stage = ResolveStageTokens then map_option join (Share_Sub (FTokens b) (FTokens s))
         else Some (Inl ErrUnexpectedResolveStage))"

definition isGreaterThanOrEqualToZero :: "u64 \<Rightarrow> bool" where
  "isGreaterThanOrEqualToZero value \<longleftrightarrow> value \<ge> 0 \<and> value < Prime div 2"

definition isGreaterThanZero :: "u64 \<Rightarrow> bool" where
  "isGreaterThanZero value \<longleftrightarrow> value > 0 \<and> value < Prime div 2"

definition isEqualToZero :: "u64 \<Rightarrow> bool" where
  "isEqualToZero value \<longleftrightarrow> value = 0 \<or> value = Prime"

text \<open>The clock is read once for each order: \<open>now\<close> is a pair.\<close>

definition isExpired :: "time \<times> time \<Rightarrow> computation \<Rightarrow> bool" where
  "isExpired now com \<longleftrightarrow> fst now > OrderExpiry (Buy com) \<or> snd now > OrderExpiry (Sell com)"

subsection \<open>The matcher\<close>

datatype matcher_out =
    Puts computation
  | Joins network_id join computation resolve_stage
  | Callbacks computation

definition resolve :: "(resolve_stage \<Rightarrow> time \<times> time) \<Rightarrow> network_id \<Rightarrow> computation \<Rightarrow> resolve_stage \<Rightarrow> matcher_out list option" where
  "resolve clock nid com stage =
     (if isExpired (clock stage) com then Some [Puts (com\<lparr>State := ComputationStateRejected\<rparr>)]
      else map_option (\<lambda>r. case r of Inl _ \<Rightarrow> [] | Inr join \<Rightarrow> [Joins nid join com stage]) (buildJoin com stage))"

definition mismatch :: "computation \<Rightarrow> matcher_out list" where
  "mismatch com = (let com = com\<lparr>State := ComputationStateMismatched, Match := False\<rparr> in [Puts com, Callbacks com])"

definition resolveValues ::
    "(resolve_stage \<Rightarrow> time \<times> time) \<Rightarrow> u64 list \<Rightarrow> network_id \<Rightarrow> computation \<Rightarrow> resolve_stage \<Rightarrow> matcher_out list option" where
  "resolveValues clock values nid com stage =
     (if length values \<noteq> 1 then Some []
      else if stage \<in> {ResolveStagePriceExp, ResolveStageBuyVolumeExp, ResolveStageSellVolumeExp} then
        (if isGreaterThanZero (values ! 0) then resolve clock nid com (stage + 2)
         else if isEqualToZero (values ! 0) then resolve clock nid com (stage + 1)
         else Some (mismatch com))
      else if stage \<in> {ResolveStagePriceCo, ResolveStageBuyVolumeCo, ResolveStageSellVolumeCo} then
        (if isGreaterThanOrEqualToZero (values ! 0) then resolve clock nid com (stage + 1)
         else Some (mismatch com))
      else if stage = ResolveStageTokens then
        (if isEqualToZero (values ! 0) then
           (let com = com\<lparr>State := ComputationStateMatched, Match := True\<rparr> in Some [Puts com, Callbacks com])
         else Some (mismatch com))
      else Some (mismatch com))"

definition Resolve :: "(resolve_stage \<Rightarrow> time \<times> time) \<Rightarrow> computation \<Rightarrow> matcher_out list option" where
  "Resolve clock com =
     (if OrderSettlement (Buy com) \<noteq> OrderSettlement (Sell com) then Some (mismatch com)
      else resolve clock (ComEpoch com) com ResolveStagePriceExp)"

text \<open>The run of a computation: every join asked for is answered by \<open>J\<close> (\<open>None\<close>: never), and the
  closure runs on the answer. Each answer takes one unit of fuel.\<close>

fun pending_join :: "matcher_out list \<Rightarrow> (network_id \<times> join \<times> computation \<times> resolve_stage) option" where
  "pending_join [] = None"
| "pending_join (Joins nid join com stage # outs) = Some (nid, join, com, stage)"
| "pending_join (_ # outs) = pending_join outs"

fun match_run :: "nat \<Rightarrow> (resolve_stage \<Rightarrow> time \<times> time) \<Rightarrow> (join \<Rightarrow> u64 list option) \<Rightarrow> matcher_out list \<Rightarrow> matcher_out list option" where
  "match_run 0 clock J outs = None"
| "match_run (Suc n) clock J outs =
     (case pending_join outs of
        None \<Rightarrow> Some outs
      | Some (nid, join, com, stage) \<Rightarrow>
          (case J join of
             None \<Rightarrow> Some outs
           | Some vals \<Rightarrow>
               do { outs' \<leftarrow> resolveValues clock vals nid com stage;
                    rest \<leftarrow> match_run n clock J outs';
                    Some (outs @ rest) }))"

subsection \<open>What a match is\<close>

definition coexp_ge :: "coexp \<Rightarrow> coexp \<Rightarrow> bool" where
  "coexp_ge a b \<longleftrightarrow> Expn b < Expn a \<or> Expn a = Expn b \<and> Co b \<le> Co a"

definition orders_match :: "order \<Rightarrow> order \<Rightarrow> bool" where
  "orders_match buy sell \<longleftrightarrow> Settlement buy = Settlement sell \<and> coexp_ge (Price buy) (Price sell) \<and>
     coexp_ge (Volume buy) (MinimumVolume sell) \<and> coexp_ge (Volume sell) (MinimumVolume buy) \<and>
     Tokens buy = Tokens sell"

text \<open>The two values compared at a stage, and their difference.\<close>

definition stage_values :: "order \<Rightarrow> order \<Rightarrow> resolve_stage \<Rightarrow> u64 \<times> u64" where
  "stage_values buy sell stage =
     (if stage = ResolveStagePriceExp then (Expn (Price buy), Expn (Price sell))
      else if stage = ResolveStagePriceCo then (Co (Price buy), Co (Price sell))
      else if stage = ResolveStageBuyVolumeExp then (Expn (Volume buy), Expn (MinimumVolume sell))
      else if stage = ResolveStageBuyVolumeCo then (Co (Volume buy), Co (MinimumVolume sell))
      else if stage = ResolveStageSellVolumeExp then (Expn (Volume sell), Expn (MinimumVolume buy))
      else if stage = ResolveStageSellVolumeCo then (Co (Volume sell), Co (MinimumVolume buy))
      else (Tokens buy, Tokens sell))"

definition stage_diff :: "order \<Rightarrow> order \<Rightarrow> resolve_stage \<Rightarrow> int" where
  "stage_diff buy sell stage = fv (fst (stage_values buy sell stage)) - fv (snd (stage_values buy sell stage))"

subsection \<open>Signs\<close>

text \<open>Values below half the prime: the sign of the difference is which half of the field it is in.\<close>

lemma word_fv: "x < y \<longleftrightarrow> fv x < fv y" "x \<le> y \<longleftrightarrow> fv x \<le> fv y" "x = y \<longleftrightarrow> fv x = fv y"
  unfolding word_less_nat word_le_nat_alt fv_unat of_nat_less_iff of_nat_le_iff of_nat_eq_iff word_unat_eq_iff by (rule refl)+

lemma fv_const: "fv (Prime div 2) = fp div 2" "fv 0 = 0"
  by (simp_all add: fv_def uint_div fp_def)

lemma fv_word_mod: "fv (word_of_int (x mod fp)) = x mod fp"
proof -
  have "0 \<le> x mod fp" "x mod fp < fp" by simp_all
  moreover have "fp < 2 ^ 64" by (simp add: fp_def field_prime_def)
  ultimately have "x mod fp mod 2 ^ 64 = x mod fp" by (intro mod_pos_pos_trivial) linarith+
  then show ?thesis by (simp add: fv_def uint_word_of_int take_bit_eq_mod)
qed

lemma diff_mod: "a < fp \<Longrightarrow> b < fp \<Longrightarrow> 0 \<le> a \<Longrightarrow> 0 \<le> b \<Longrightarrow> (a - b) mod fp = (if b \<le> a then a - b else a - b + fp)"
proof -
  assume *: "a < fp" "b < fp" "0 \<le> a" "0 \<le> b"
  show ?thesis
  proof (cases "b \<le> a")
    case False
    have "(a - b) mod fp = (a - b + fp) mod fp" by simp
    also have "\<dots> = a - b + fp" using * False by (intro mod_pos_pos_trivial) auto
    finally show ?thesis using False by simp
  qed (use * in simp)
qed

lemma diff_mod_sign:
  assumes "0 \<le> a" "0 \<le> b" "a < fp" "b < fp"
  shows "(a - b) mod fp = 0 \<longleftrightarrow> a = b" "(a - b) mod fp \<noteq> fp"
    and "a < fp div 2 \<Longrightarrow> b < fp div 2 \<Longrightarrow> 0 < (a - b) mod fp \<and> (a - b) mod fp < fp div 2 \<longleftrightarrow> b < a"
    and "a < fp div 2 \<Longrightarrow> b < fp div 2 \<Longrightarrow> (a - b) mod fp < fp div 2 \<longleftrightarrow> b \<le> a"
proof -
  note m = diff_mod [OF assms(3,4,1,2)]
  have h: "fp div 2 + fp div 2 \<le> fp" by (simp add: fp_def field_prime_def)
  show "(a - b) mod fp = 0 \<longleftrightarrow> a = b" "(a - b) mod fp \<noteq> fp" unfolding m using assms by auto
  show "a < fp div 2 \<Longrightarrow> b < fp div 2 \<Longrightarrow> 0 < (a - b) mod fp \<and> (a - b) mod fp < fp div 2 \<longleftrightarrow> b < a"
    "a < fp div 2 \<Longrightarrow> b < fp div 2 \<Longrightarrow> (a - b) mod fp < fp div 2 \<longleftrightarrow> b \<le> a"
    unfolding m using assms h by (auto split: if_splits)
qed

lemma diff_zero:
  assumes "fv a < fp" "fv b < fp"
  shows "isEqualToZero (word_of_int ((fv a - fv b) mod fp)) \<longleftrightarrow> a = b"
  unfolding isEqualToZero_def word_fv(3) [of "word_of_int ((fv a - fv b) mod fp)"] word_fv(3) [of a] fv_word_mod fv_const fv_Prime
  using diff_mod_sign(1,2) [of "fv a" "fv b"] assms by simp

lemma half_lt: "x < fp div 2 \<Longrightarrow> x < fp"
  by (simp add: fp_def field_prime_def)

lemma diff_sign:
  assumes "fv a < fp div 2" "fv b < fp div 2"
  shows "isGreaterThanZero (word_of_int ((fv a - fv b) mod fp)) \<longleftrightarrow> b < a"
    and "isGreaterThanOrEqualToZero (word_of_int ((fv a - fv b) mod fp)) \<longleftrightarrow> b \<le> a"
  unfolding isGreaterThanZero_def isGreaterThanOrEqualToZero_def word_fv(1,2) fv_word_mod fv_const
  using diff_mod_sign(3,4) [of "fv a" "fv b"] assms half_lt by simp_all

subsection \<open>The join of a stage\<close>

definition matching_stage :: "resolve_stage \<Rightarrow> bool" where
  "matching_stage stage \<longleftrightarrow> stage \<in> {1, 2, 3, 4, 5, 6, 7}"

definition stage_shares :: "computation \<Rightarrow> resolve_stage \<Rightarrow> share \<times> share" where
  "stage_shares com stage =
     (let b = Buy com; s = Sell com
      in if stage = ResolveStagePriceExp then (ShExp (FPrice b), ShExp (FPrice s))
         else if stage = ResolveStagePriceCo then (ShCo (FPrice b), ShCo (FPrice s))
         else if stage = ResolveStageBuyVolumeExp then (ShExp (FVolume b), ShExp (FMinimumVolume s))
         else if stage = ResolveStageBuyVolumeCo then (ShCo (FVolume b), ShCo (FMinimumVolume s))
         else if stage = ResolveStageSellVolumeExp then (ShExp (FVolume s), ShExp (FMinimumVolume b))
         else if stage = ResolveStageSellVolumeCo then (ShCo (FVolume s), ShCo (FMinimumVolume b))
         else (FTokens b, FTokens s))"

definition stage_join :: "computation \<Rightarrow> resolve_stage \<Rightarrow> join" where
  "stage_join com stage =
     (let share = the (Share_Sub (fst (stage_shares com stage)) (snd (stage_shares com stage)))
      in \<lparr>JoinID = copy32 (ComID com) @ [stage], JoinIndex = Index share, JoinShares = [share]\<rparr>)"

lemma map_Share_Sub: "map_option f (Share_Sub a b) = Some (f (the (Share_Sub a b)))"
  using Share_Sub_value [of a b] by auto

lemma buildJoin_stage: "matching_stage stage \<Longrightarrow> buildJoin com stage = Some (Inr (stage_join com stage))"
  unfolding matching_stage_def
  by (auto simp: buildJoin_def stage_join_def stage_shares_def stage_defs Let_def map_Share_Sub)

lemma buildJoin_other: "\<not> matching_stage stage \<Longrightarrow> buildJoin com stage = Some (Inl ErrUnexpectedResolveStage)"
  by (simp add: matching_stage_def buildJoin_def stage_defs Let_def)

lemma stage_join_index: "Index (the (Share_Sub a b)) = Index a"
  using Share_Sub_value [of a b] by auto

subsection \<open>The matcher decides matches\<close>

definition verdict :: "computation \<Rightarrow> bool \<Rightarrow> computation" where
  "verdict com m = com\<lparr>State := if m then ComputationStateMatched else ComputationStateMismatched, Match := m\<rparr>"

definition only_joins :: "matcher_out list \<Rightarrow> bool" where
  "only_joins outs \<longleftrightarrow> (\<forall>out\<in>set outs. \<exists>nid join com stage. out = Joins nid join com stage)"

text \<open>The run from a stage on ends with the verdict \<open>m\<close>, stored and then passed to the callback.\<close>

definition run_verdict where
  "run_verdict clock J com stage m \<longleftrightarrow> (\<forall>nid n. 9 \<le> n + unat stage \<longrightarrow> (\<exists>outs0 outs js.
     resolve clock nid com stage = Some outs0 \<and> match_run n clock J outs0 = Some outs \<and>
     outs = js @ [Puts (verdict com m), Callbacks (verdict com m)] \<and> only_joins js))"

lemma resolve_stage:
  "matching_stage stage \<Longrightarrow> \<not> isExpired (clock stage) com \<Longrightarrow>
    resolve clock nid com stage = Some [Joins nid (stage_join com stage) com stage]"
  by (simp add: resolve_def buildJoin_stage)

lemma mismatch_verdict: "mismatch com = [Puts (verdict com False), Callbacks (verdict com False)]"
  by (simp add: mismatch_def verdict_def Let_def)

lemma stage_le: "matching_stage stage \<Longrightarrow> unat stage \<le> 7"
  by (auto simp: matching_stage_def)

lemma run_final:
  assumes "matching_stage stage" "\<not> isExpired (clock stage) com" "J (stage_join com stage) = Some [v]"
    "\<And>nid. resolveValues clock [v] nid com stage = Some [Puts (verdict com m), Callbacks (verdict com m)]"
  shows "run_verdict clock J com stage m"
  unfolding run_verdict_def
proof (intro allI impI)
  fix nid n assume "9 \<le> n + unat stage"
  then have "2 \<le> n" using stage_le [OF assms(1)] by linarith
  then obtain n' where n': "n = Suc (Suc n')" by (metis add_2_eq_Suc le_iff_add)
  show "\<exists>outs0 outs js. resolve clock nid com stage = Some outs0 \<and> match_run n clock J outs0 = Some outs \<and>
     outs = js @ [Puts (verdict com m), Callbacks (verdict com m)] \<and> only_joins js"
    unfolding n' by (simp add: resolve_stage [where clock = clock, OF assms(1,2)] assms(3,4) only_joins_def)
qed

lemma run_next:
  assumes "matching_stage stage" "\<not> isExpired (clock stage) com" "J (stage_join com stage) = Some [v]"
    "\<And>nid. resolveValues clock [v] nid com stage = resolve clock nid com stage'" "unat stage < unat stage'"
    "run_verdict clock J com stage' m"
  shows "run_verdict clock J com stage m"
  unfolding run_verdict_def
proof (intro allI impI)
  fix nid n assume n: "9 \<le> n + unat stage"
  then have "1 \<le> n" using stage_le [OF assms(1)] by linarith
  then obtain n' where n': "n = Suc n'" by (metis le_iff_add plus_1_eq_Suc)
  have "9 \<le> n' + unat stage'" using n n' assms(5) by linarith
  then obtain outs0 outs js where r: "resolve clock nid com stage' = Some outs0" "match_run n' clock J outs0 = Some outs"
    "outs = js @ [Puts (verdict com m), Callbacks (verdict com m)]" "only_joins js"
    using assms(6) unfolding run_verdict_def by blast
  let ?j = "Joins nid (stage_join com stage) com stage"
  have "match_run n clock J [?j] = Some ((?j # js) @ [Puts (verdict com m), Callbacks (verdict com m)])"
    using r assms(3,4) by (simp add: n')
  moreover have "only_joins (?j # js)" using r(4) by (simp add: only_joins_def)
  ultimately show "\<exists>outs0 outs js. resolve clock nid com stage = Some outs0 \<and> match_run n clock J outs0 = Some outs \<and>
     outs = js @ [Puts (verdict com m), Callbacks (verdict com m)] \<and> only_joins js"
    using resolve_stage [where clock = clock, OF assms(1,2)] by blast
qed

text \<open>The clock has not passed the expiries, and the computer reveals the differences of the orders.\<close>

definition stage_revealed where
  "stage_revealed clock J com buy sell stage \<longleftrightarrow>
     \<not> isExpired (clock stage) com \<and> J (stage_join com stage) = Some (secret_words [stage_diff buy sell stage])"

definition below_half :: "u64 \<times> u64 \<Rightarrow> bool" where
  "below_half ab \<longleftrightarrow> fst ab < Prime div 2 \<and> snd ab < Prime div 2"

lemma secret_words_diff: "secret_words [stage_diff buy sell stage] =
    [word_of_int ((fv (fst (stage_values buy sell stage)) - fv (snd (stage_values buy sell stage))) mod fp)]"
  by (simp add: secret_words_def stage_diff_def)

lemma run_exp:
  assumes "stage_revealed clock J com buy sell stage" "stage \<in> {1, 3, 5}" "stage_values buy sell stage = (a, b)"
    "below_half (a, b)" "run_verdict clock J com (stage + 1) m1" "run_verdict clock J com (stage + 2) m2"
  shows "run_verdict clock J com stage (if b < a then m2 else a = b \<and> m1)"
proof -
  let ?v = "word_of_int ((fv a - fv b) mod fp) :: u64"
  have ms: "matching_stage stage" "unat stage < unat (stage + 1)" "unat stage < unat (stage + 2)"
    using assms(2) by (auto simp: matching_stage_def)
  have r: "\<not> isExpired (clock stage) com" "J (stage_join com stage) = Some [?v]"
    using assms(1,3) by (simp_all add: stage_revealed_def secret_words_diff)
  have lt: "fv a < fp div 2" "fv b < fp div 2" using assms(4) by (simp_all add: below_half_def word_fv(1) fv_const)
  note lt' = half_lt [OF lt(1)] half_lt [OF lt(2)]
  note sg = diff_sign [OF lt] diff_zero [OF lt']
  have rv: "resolveValues clock [?v] nid com stage =
      (if b < a then resolve clock nid com (stage + 2) else if a = b then resolve clock nid com (stage + 1)
       else Some (mismatch com))" for nid
    using assms(2) sg unfolding resolveValues_def stage_defs by auto
  consider "b < a" | "a = b" | "\<not> b < a" "a \<noteq> b" by blast
  then show ?thesis
  proof cases
    case 1
    then show ?thesis using run_next [where clock = clock and J = J, OF ms(1) r _ ms(3) assms(6)] rv by simp
  next
    case 2
    then show ?thesis using run_next [where clock = clock and J = J, OF ms(1) r _ ms(2) assms(5)] rv by simp
  next
    case 3
    then show ?thesis using run_final [where clock = clock and J = J, OF ms(1) r, of False] rv by (simp add: mismatch_verdict)
  qed
qed

lemma run_co:
  assumes "stage_revealed clock J com buy sell stage" "stage \<in> {2, 4, 6}" "stage_values buy sell stage = (a, b)"
    "below_half (a, b)" "run_verdict clock J com (stage + 1) m"
  shows "run_verdict clock J com stage (b \<le> a \<and> m)"
proof -
  let ?v = "word_of_int ((fv a - fv b) mod fp) :: u64"
  have ms: "matching_stage stage" "unat stage < unat (stage + 1)"
    using assms(2) by (auto simp: matching_stage_def)
  have r: "\<not> isExpired (clock stage) com" "J (stage_join com stage) = Some [?v]"
    using assms(1,3) by (simp_all add: stage_revealed_def secret_words_diff)
  have lt: "fv a < fp div 2" "fv b < fp div 2" using assms(4) by (simp_all add: below_half_def word_fv(1) fv_const)
  have rv: "resolveValues clock [?v] nid com stage =
      (if b \<le> a then resolve clock nid com (stage + 1) else Some (mismatch com))" for nid
    using assms(2) diff_sign(2) [OF lt] unfolding resolveValues_def stage_defs by auto
  show ?thesis
  proof (cases "b \<le> a")
    case True
    then show ?thesis using run_next [where clock = clock and J = J, OF ms(1) r _ ms(2) assms(5)] rv by simp
  next
    case False
    then show ?thesis using run_final [where clock = clock and J = J, OF ms(1) r, of False] rv by (simp add: mismatch_verdict)
  qed
qed

lemma run_tokens:
  assumes "stage_revealed clock J com buy sell 7" "Tokens buy < Prime" "Tokens sell < Prime"
  shows "run_verdict clock J com 7 (Tokens buy = Tokens sell)"
proof -
  let ?v = "word_of_int ((fv (Tokens buy) - fv (Tokens sell)) mod fp) :: u64"
  have ms: "matching_stage 7" by (simp add: matching_stage_def)
  have r: "\<not> isExpired (clock 7) com" "J (stage_join com 7) = Some [?v]"
    using assms(1) by (simp_all add: stage_revealed_def secret_words_diff stage_values_def stage_defs)
  have "resolveValues clock [?v] nid com 7 = Some [Puts (verdict com (Tokens buy = Tokens sell)),
      Callbacks (verdict com (Tokens buy = Tokens sell))]" for nid
    using diff_zero [of "Tokens buy" "Tokens sell"] assms(2,3)
    by (simp add: resolveValues_def stage_defs mismatch_verdict word_lt_Prime verdict_def Let_def)
  then show ?thesis by (rule run_final [where clock = clock and J = J and v = ?v, OF ms r])
qed

lemma coexp_verdict: "(if Expn b < Expn a then m else Expn a = Expn b \<and> (Co b \<le> Co a \<and> m)) \<longleftrightarrow> coexp_ge a b \<and> m"
  by (auto simp: coexp_ge_def)

definition order_in_range :: "order \<Rightarrow> bool" where
  "order_in_range ord \<longleftrightarrow> Tokens ord < Prime \<and>
     (\<forall>c\<in>{Price ord, Volume ord, MinimumVolume ord}. Co c < Prime div 2 \<and> Expn c < Prime div 2)"

theorem match_run_correct:
  assumes pub: "fragment_public buy (Buy com)" "fragment_public sell (Sell com)"
    and range: "order_in_range buy" "order_in_range sell"
    and rev: "\<And>stage. matching_stage stage \<Longrightarrow> stage_revealed clock J com buy sell stage"
  shows "\<exists>outs0 outs js. Resolve clock com = Some outs0 \<and> match_run 8 clock J outs0 = Some outs \<and>
    outs = js @ [Puts (verdict com (orders_match buy sell)), Callbacks (verdict com (orders_match buy sell))] \<and> only_joins js"
proof (cases "Settlement buy = Settlement sell")
  case False
  then have "Resolve clock com = Some (mismatch com)" "\<not> orders_match buy sell"
    using pub by (simp_all add: Resolve_def fragment_public_def orders_match_def)
  then show ?thesis by (simp add: mismatch_verdict only_joins_def eval_nat_numeral)
next
  case True
  note sv = stage_values_def stage_defs
  have R: "stage_revealed clock J com buy sell stage" if "stage \<in> {1, 2, 3, 4, 5, 6, 7}" for stage
    using that by (intro rev) (simp add: matching_stage_def)
  have B: "below_half (Expn (Price buy), Expn (Price sell))" "below_half (Co (Price buy), Co (Price sell))"
    "below_half (Expn (Volume buy), Expn (MinimumVolume sell))" "below_half (Co (Volume buy), Co (MinimumVolume sell))"
    "below_half (Expn (Volume sell), Expn (MinimumVolume buy))" "below_half (Co (Volume sell), Co (MinimumVolume buy))"
    using range by (simp_all add: order_in_range_def below_half_def)
  have 7: "run_verdict clock J com 7 (Tokens buy = Tokens sell)" (is "run_verdict _ _ _ _ ?m7")
    using R range by (intro run_tokens) (auto simp: order_in_range_def)
  have 6: "run_verdict clock J com 6 (Co (MinimumVolume buy) \<le> Co (Volume sell) \<and> ?m7)"
    using run_co [OF R _ _ B(6)] 7 by (simp add: sv)
  have 5: "run_verdict clock J com 5 (coexp_ge (Volume sell) (MinimumVolume buy) \<and> ?m7)" (is "run_verdict _ _ _ _ ?m5")
    using run_exp [OF R _ _ B(5)] 6 7 unfolding coexp_verdict [symmetric] by (simp add: sv)
  have 4: "run_verdict clock J com 4 (Co (MinimumVolume sell) \<le> Co (Volume buy) \<and> ?m5)"
    using run_co [OF R _ _ B(4)] 5 by (simp add: sv)
  have 3: "run_verdict clock J com 3 (coexp_ge (Volume buy) (MinimumVolume sell) \<and> ?m5)" (is "run_verdict _ _ _ _ ?m3")
    using run_exp [OF R _ _ B(3)] 4 5 unfolding coexp_verdict [symmetric] by (simp add: sv)
  have 2: "run_verdict clock J com 2 (Co (Price sell) \<le> Co (Price buy) \<and> ?m3)"
    using run_co [OF R _ _ B(2)] 3 by (simp add: sv)
  have 1: "run_verdict clock J com 1 (coexp_ge (Price buy) (Price sell) \<and> ?m3)"
    using run_exp [OF R _ _ B(1)] 2 3 unfolding coexp_verdict [symmetric] by (simp add: sv)
  have "orders_match buy sell \<longleftrightarrow> coexp_ge (Price buy) (Price sell) \<and> ?m3"
    using True by (auto simp: orders_match_def)
  moreover have "Resolve clock com = resolve clock (ComEpoch com) com 1"
    using pub True by (simp add: Resolve_def fragment_public_def stage_defs)
  ultimately show ?thesis using 1 by (simp add: run_verdict_def)
qed

subsection \<open>The joins of the nodes\<close>

text \<open>Which secret fields a stage compares: whether the sell order comes first, and the positions of
  the fields among the secrets of an order.\<close>

definition stage_fields :: "resolve_stage \<Rightarrow> bool \<times> nat \<times> nat" where
  "stage_fields stage =
     (if stage = ResolveStagePriceExp then (False, 2, 2) else if stage = ResolveStagePriceCo then (False, 1, 1)
      else if stage = ResolveStageBuyVolumeExp then (False, 4, 6) else if stage = ResolveStageBuyVolumeCo then (False, 3, 5)
      else if stage = ResolveStageSellVolumeExp then (True, 4, 6) else if stage = ResolveStageSellVolumeCo then (True, 3, 5)
      else (False, 0, 0))"

lemma stage_fields_lt: "stage_fields stage = (sw, i, j) \<Longrightarrow> i < 8 \<and> j < 8"
  by (auto simp: stage_fields_def split: if_splits)

lemma stage_shares_fields:
  "stage_fields stage = (sw, i, j) \<Longrightarrow> stage_shares com stage =
    (if sw then (fragment_shares (Sell com) ! i, fragment_shares (Buy com) ! j)
     else (fragment_shares (Buy com) ! i, fragment_shares (Sell com) ! j))"
  by (auto simp: stage_fields_def stage_shares_def fragment_shares_def Let_def split: if_splits)

lemma stage_values_fields:
  "stage_fields stage = (sw, i, j) \<Longrightarrow> stage_values buy sell stage =
    (if sw then (order_secrets sell ! i, order_secrets buy ! j)
     else (order_secrets buy ! i, order_secrets sell ! j))"
  by (auto simp: stage_fields_def stage_values_def order_secrets_def split: if_splits)

text \<open>The nodes hold matching fragments: the same computation everywhere, and at every node all
  shares of both fragments have one index, different from node to node.\<close>

definition node_fragments :: "nat \<Rightarrow> order \<Rightarrow> order \<Rightarrow> computation list \<Rightarrow> bool" where
  "node_fragments k buy sell coms \<longleftrightarrow>
     fragments_of k buy (map Buy coms) \<and> fragments_of k sell (map Sell coms) \<and>
     (\<forall>c\<in>set coms. \<forall>d\<in>set coms. ComID c = ComID d) \<and>
     (\<forall>c\<in>set coms. Index (FTokens (Buy c)) < Prime \<and>
        (\<forall>sh\<in>set (fragment_shares (Buy c)) \<union> set (fragment_shares (Sell c)). Index sh = Index (FTokens (Buy c))))"

lemma stage_shares_index:
  assumes "node_fragments k buy sell coms" "c \<in> set coms"
  shows "Index (fst (stage_shares c stage)) = Index (FTokens (Buy c))"
    "Index (snd (stage_shares c stage)) = Index (FTokens (Buy c))"
proof -
  obtain sw i j where f: "stage_fields stage = (sw, i, j)" by (cases "stage_fields stage") auto
  have "i < 8" "j < 8" using stage_fields_lt [OF f] by auto
  then show "Index (fst (stage_shares c stage)) = Index (FTokens (Buy c))"
    "Index (snd (stage_shares c stage)) = Index (FTokens (Buy c))"
    using assms by (auto simp: stage_shares_fields [OF f] node_fragments_def)
qed

lemma stage_join_family:
  assumes N: "node_fragments k buy sell coms" and com: "com \<in> set coms"
  shows "join_family k (copy32 (ComID com) @ [stage]) [stage_diff buy sell stage] (map (\<lambda>c. stage_join c stage) coms)"
proof -
  obtain sw i j where f: "stage_fields stage = (sw, i, j)" by (cases "stage_fields stage") auto
  have ij: "i < 8" "j < 8" using stage_fields_lt [OF f] by auto
  let ?as = "map (\<lambda>c. fst (stage_shares c stage)) coms" and ?bs = "map (\<lambda>c. snd (stage_shares c stage)) coms"
  note idx = stage_shares_index [OF N]
  have sh: "sharing k (fv (order_secrets buy ! m)) (map (\<lambda>c. fragment_shares (Buy c) ! m) coms)"
    "sharing k (fv (order_secrets sell ! m)) (map (\<lambda>c. fragment_shares (Sell c) ! m) coms)" if "m < 8" for m
    using N that by (auto simp: node_fragments_def fragments_of_def comp_def)
  have A: "sharing k (fv (fst (stage_values buy sell stage))) ?as" "sharing k (fv (snd (stage_values buy sell stage))) ?bs"
    using sh ij by (simp_all add: stage_values_fields [OF f] stage_shares_fields [OF f])
  have "map Index ?as = map Index ?bs" using idx by simp
  from sharing_sub [OF A this] obtain cs where cs: "Shares_Sub ?as ?bs = Some cs" "sharing k (stage_diff buy sell stage) cs"
    by (auto simp: stage_diff_def)
  have "cs = map (\<lambda>c. the (Share_Sub (fst (stage_shares c stage)) (snd (stage_shares c stage)))) coms"
    using omap_SomeD [OF cs(1) [unfolded Shares_Sub_def]] by (intro nth_equalityI) (simp_all add: case_prod_beta)
  then have "sharing k (stage_diff buy sell stage) (map (\<lambda>jn. JoinShares jn ! 0) (map (\<lambda>c. stage_join c stage) coms))"
    using cs(2) by (simp add: stage_join_def comp_def Let_def)
  moreover have "ComID c = ComID com" if "c \<in> set coms" for c using N com that unfolding node_fragments_def by blast
  ultimately show ?thesis
    using N idx unfolding join_family_def
    by (auto simp: stage_join_def Let_def MaxJoinLength_def stage_join_index node_fragments_def)
qed

subsection \<open>The interface to the multi-party computer\<close>

text \<open>What the matcher relies on: when the joins of at least \<open>k\<close> nodes for one identifier are
  contributed, the values they share are delivered.\<close>

locale join_service =
  fixes deliver :: "nat \<Rightarrow> join list \<Rightarrow> u64 list option"
  assumes deliver_family: "join_family k jid ss U \<Longrightarrow> 0 < k \<Longrightarrow> k \<le> card (JoinIndex ` set U) \<Longrightarrow>
    deliver k U = Some (secret_words ss)"
begin

lemma reveals_difference:
  assumes "node_fragments k buy sell coms" "coms \<noteq> []" "0 < k" "k \<le> card ((\<lambda>c. Index (FTokens (Buy c))) ` set coms)"
  shows "deliver k (map (\<lambda>c. stage_join c stage) coms) = Some (secret_words [stage_diff buy sell stage])"
proof -
  obtain com where com: "com \<in> set coms" using assms(2) by (cases coms) auto
  have "JoinIndex (stage_join c stage) = Index (FTokens (Buy c))" if "c \<in> set coms" for c
    using stage_shares_index(1) [OF assms(1) that] by (simp add: stage_join_def Let_def stage_join_index)
  then have "JoinIndex ` set (map (\<lambda>c. stage_join c stage) coms) = (\<lambda>c. Index (FTokens (Buy c))) ` set coms"
    by (auto simp: image_image)
  then show ?thesis using deliver_family [OF stage_join_family [OF assms(1) com] assms(3)] assms(4) by simp
qed

lemma matcher_decides:
  assumes "node_fragments k buy sell coms" "0 < k" "k \<le> card ((\<lambda>c. Index (FTokens (Buy c))) ` set coms)"
    and com: "com \<in> set coms" and range: "order_in_range buy" "order_in_range sell"
    and clock: "\<And>stage. \<not> isExpired (clock stage) com"
    and J: "\<And>stage. J (stage_join com stage) = deliver k (map (\<lambda>c. stage_join c stage) coms)"
  shows "\<exists>outs0 outs js. Resolve clock com = Some outs0 \<and> match_run 8 clock J outs0 = Some outs \<and>
    outs = js @ [Puts (verdict com (orders_match buy sell)), Callbacks (verdict com (orders_match buy sell))] \<and> only_joins js"
proof (rule match_run_correct [OF _ _ range])
  show "fragment_public buy (Buy com)" "fragment_public sell (Sell com)"
    using assms(1) com by (auto simp: node_fragments_def fragments_of_def)
  fix stage
  have "coms \<noteq> []" using com by auto
  then show "stage_revealed clock J com buy sell stage"
    using reveals_difference [OF assms(1) _ assms(2,3)] clock J by (simp add: stage_revealed_def)
qed

end

text \<open>The joiner provides it: the first node contributes its own join, the others' arrive after it.\<close>

definition joiner_deliver :: "nat \<Rightarrow> join list \<Rightarrow> u64 list option" where
  "joiner_deliver k U =
     (case U of
        [] \<Rightarrow> None
      | own # rest \<Rightarrow>
          do { jr \<leftarrow> NewJoiner (int k);
               (jr, outs) \<leftarrow> join_run jr [] (\<lambda>_ js. js) own () (map (Pair (\<lambda>_ js. js)) rest);
               (case outs of [(_, _, vals)] \<Rightarrow> Some vals | _ \<Rightarrow> None) })"

interpretation joiner: join_service joiner_deliver
proof
  fix k jid ss U
  assume U: "join_family k jid ss U" and k: "0 < k" "k \<le> card (JoinIndex ` set U)"
  obtain own rest where own: "U = own # rest" using k by (cases U) auto
  obtain jr :: "unit joiner" where jr: "NewJoiner (int k) = Some jr" using NewJoiner_wf [of "int k"] k(1) by force
  have "\<forall>(rng, j)\<in>set ([] @ ((\<lambda>_ js. js), own) # map (Pair (\<lambda>_ js. js)) rest). any_order rng \<and> j \<in> set U"
    by (auto simp: any_order_def own)
  from join_run_once [OF U k(1) jr this, of "()"] obtain jr' where
    "join_run jr [] (\<lambda>_ js. js) own () (map (Pair (\<lambda>_ js. js)) rest) = Some (jr', [((), jid, secret_words ss)])"
    using k(2) own by (auto simp: image_image)
  then show "joiner_deliver k U = Some (secret_words ss)" using own jr by (simp add: joiner_deliver_def)
qed

end
