(* ===== verification/Ome_Settler.thy ===== *)
theory Ome_Settler
  imports Ome_Matcher
begin

section \<open>Settling matches: \<^verbatim>\<open>ome/settler.go\<close>\<close>

text \<open>
  The settler joins the sixteen secret values of a confirmed match, rebuilds the two orders from them
  and submits them to the contract. The contract is a parameter: \<open>settle buy sell\<close> is the error it
  returns, if any. Errors are logged; what is left are the outputs.
\<close>

datatype settler_out = Settles order order | Stores computation

definition joinOrderMatch :: "computation \<Rightarrow> join" where
  "joinOrderMatch com =
     \<lparr>JoinID = copy32 (ComID com) @ [ResolveStageSettlement],
      JoinIndex = Index (FTokens (Buy com)),
      JoinShares =
        [FTokens (Buy com),
         ShCo (FPrice (Buy com)), ShExp (FPrice (Buy com)),
         ShCo (FVolume (Buy com)), ShExp (FVolume (Buy com)),
         ShCo (FMinimumVolume (Buy com)), ShExp (FMinimumVolume (Buy com)),
         FNonce (Buy com),
         FTokens (Sell com),
         ShCo (FPrice (Sell com)), ShExp (FPrice (Sell com)),
         ShCo (FVolume (Sell com)), ShExp (FVolume (Sell com)),
         ShCo (FMinimumVolume (Sell com)), ShExp (FMinimumVolume (Sell com)),
         FNonce (Sell com)]\<rparr>"

definition settleOrderMatch :: "(order \<Rightarrow> order \<Rightarrow> 'e option) \<Rightarrow> computation \<Rightarrow> order \<Rightarrow> order \<Rightarrow> settler_out list" where
  "settleOrderMatch settle com buy sell =
     Settles buy sell #
     (case settle buy sell of
        Some _ \<Rightarrow> []
      | None \<Rightarrow> [Stores (com\<lparr>State := ComputationStateSettled\<rparr>)])"

text \<open>The closure passed to \<^verbatim>\<open>smpcer.Join\<close>.\<close>

definition settleValues :: "keccak \<Rightarrow> (order \<Rightarrow> order \<Rightarrow> 'e option) \<Rightarrow> computation \<Rightarrow> u64 list \<Rightarrow> settler_out list" where
  "settleValues keccak settle com values =
     (if length values \<noteq> 16 then []
      else
        let b = Buy com; s = Sell com;
            buy = NewOrder keccak (OrderType b) (OrderParity b) (OrderSettlement b) (OrderExpiry b) (values ! 0)
              (NewCoExp (values ! 1) (values ! 2)) (NewCoExp (values ! 3) (values ! 4))
              (NewCoExp (values ! 5) (values ! 6)) (values ! 7);
            sell = NewOrder keccak (OrderType s) (OrderParity s) (OrderSettlement s) (OrderExpiry s) (values ! 8)
              (NewCoExp (values ! 9) (values ! 10)) (NewCoExp (values ! 11) (values ! 12))
              (NewCoExp (values ! 13) (values ! 14)) (values ! 15)
        in settleOrderMatch settle com buy sell)"

definition Settle :: "computation \<Rightarrow> network_id \<times> join" where
  "Settle com = (ComEpoch com, joinOrderMatch com)"

subsection \<open>The join of the nodes\<close>

lemma joinOrderMatch_shares: "JoinShares (joinOrderMatch com) = fragment_shares (Buy com) @ fragment_shares (Sell com)"
  by (simp add: joinOrderMatch_def fragment_shares_def)

definition match_secrets :: "order \<Rightarrow> order \<Rightarrow> int list" where
  "match_secrets buy sell = map fv (order_secrets buy @ order_secrets sell)"

lemma settle_join_family:
  assumes N: "node_fragments k buy sell coms" and com: "com \<in> set coms"
  shows "join_family k (copy32 (ComID com) @ [ResolveStageSettlement]) (match_secrets buy sell) (map joinOrderMatch coms)"
proof -
  have "ComID c = ComID com" if "c \<in> set coms" for c using N com that unfolding node_fragments_def by blast
  then have ids: "JoinID (joinOrderMatch c) = copy32 (ComID com) @ [ResolveStageSettlement]"
    "length (JoinShares (joinOrderMatch c)) = length (match_secrets buy sell)" if "c \<in> set coms" for c
    using that by (simp_all add: joinOrderMatch_def match_secrets_def)
  have idx: "JoinIndex (joinOrderMatch c) < Prime"
    "\<forall>sh\<in>set (JoinShares (joinOrderMatch c)). Index sh = JoinIndex (joinOrderMatch c)" if "c \<in> set coms" for c
  proof -
    have j: "JoinIndex (joinOrderMatch c) = Index (FTokens (Buy c))" by (simp add: joinOrderMatch_def)
    show "JoinIndex (joinOrderMatch c) < Prime"
      "\<forall>sh\<in>set (JoinShares (joinOrderMatch c)). Index sh = JoinIndex (joinOrderMatch c)"
      unfolding joinOrderMatch_shares j set_append using N that unfolding node_fragments_def by blast+
  qed
  have sh: "sharing k (match_secrets buy sell ! i) (map (\<lambda>j. JoinShares j ! i) (map joinOrderMatch coms))"
    if i: "i < length (match_secrets buy sell)" for i
  proof (cases "i < 8")
    case True
    then show ?thesis using N by (simp add: match_secrets_def joinOrderMatch_shares nth_append node_fragments_def fragments_of_def comp_def)
  next
    case False
    then have "i - 8 < 8" using i by (simp add: match_secrets_def)
    then show ?thesis using N False
      by (simp add: match_secrets_def joinOrderMatch_shares nth_append node_fragments_def fragments_of_def comp_def)
  qed
  show ?thesis unfolding join_family_def using ids idx sh by (auto simp: match_secrets_def MaxJoinLength_def)
qed

lemma secret_words_fv: "\<forall>x\<in>set xs. x < Prime \<Longrightarrow> secret_words (map fv xs) = xs"
proof -
  assume "\<forall>x\<in>set xs. x < Prime"
  then have "word_of_int (fv x mod fp) = x" if "x \<in> set xs" for x
    using that by (simp add: word_lt_Prime fv_def)
  then show ?thesis by (induction xs) (simp_all add: secret_words_def)
qed

subsection \<open>Settlement rebuilds the orders\<close>

definition created_order :: "keccak \<Rightarrow> order \<Rightarrow> bool" where
  "created_order keccak ord \<longleftrightarrow>
     ord = NewOrder keccak (Type ord) (Parity ord) (Settlement ord) (Expiry ord) (Tokens ord) (Price ord) (Volume ord)
       (MinimumVolume ord) (Nonce ord)"

lemma created_NewOrder: "created_order keccak (NewOrder keccak ty pa se ex to pr vo mi no)"
proof -
  have "no mod Prime mod Prime = (no mod Prime :: u64)"
    by (simp add: word_unat_eq_iff unat_mod)
  then show ?thesis unfolding created_order_def NewOrder_simps by (simp add: NewOrder_def)
qed

lemma rebuild_order:
  assumes "fragment_public ord f" "created_order keccak ord"
  shows "NewOrder keccak (OrderType f) (OrderParity f) (OrderSettlement f) (OrderExpiry f) (order_secrets ord ! 0)
    (NewCoExp (order_secrets ord ! 1) (order_secrets ord ! 2)) (NewCoExp (order_secrets ord ! 3) (order_secrets ord ! 4))
    (NewCoExp (order_secrets ord ! 5) (order_secrets ord ! 6)) (order_secrets ord ! 7) = ord"
proof -
  have "NewCoExp (Co c) (Expn c) = c" for c :: coexp by (simp add: NewCoExp_def)
  then show ?thesis
    using assms(1) created_order_def [THEN iffD1, OF assms(2), symmetric]
    by (simp add: fragment_public_def order_secrets_def)
qed

lemma settleValues_rebuilds:
  assumes "fragment_public buy (Buy com)" "fragment_public sell (Sell com)"
    and "created_order keccak buy" "created_order keccak sell"
  shows "settleValues keccak settle com (order_secrets buy @ order_secrets sell) = settleOrderMatch settle com buy sell"
  using rebuild_order [OF assms(1,3)] rebuild_order [OF assms(2,4)]
  by (simp add: settleValues_def nth_append Let_def)

lemma settle_delivers:
  assumes N: "node_fragments k buy sell coms" and k: "0 < k" "k \<le> card ((\<lambda>c. Index (FTokens (Buy c))) ` set coms)"
    and com: "com \<in> set coms" and sec: "\<forall>s\<in>set (order_secrets buy @ order_secrets sell). s < Prime"
    and created: "created_order keccak buy" "created_order keccak sell"
  shows "\<exists>values. joiner_deliver k (map joinOrderMatch coms) = Some values \<and>
    settleValues keccak settle com values = settleOrderMatch settle com buy sell"
proof -
  have "JoinIndex ` set (map joinOrderMatch coms) = (\<lambda>c. Index (FTokens (Buy c))) ` set coms"
    by (simp add: image_image joinOrderMatch_def)
  then have "joiner_deliver k (map joinOrderMatch coms) = Some (secret_words (match_secrets buy sell))"
    using joiner.deliver_family [OF settle_join_family [OF N com] k(1)] k(2) by simp
  moreover have "secret_words (match_secrets buy sell) = order_secrets buy @ order_secrets sell"
    unfolding match_secrets_def by (rule secret_words_fv [OF sec])
  moreover have "fragment_public buy (Buy com)" "fragment_public sell (Sell com)"
    using N com by (auto simp: node_fragments_def fragments_of_def)
  ultimately show ?thesis using settleValues_rebuilds [OF _ _ created] by simp
qed

end
