(* ===== verification/Ome_Nodes.thy ===== *)
theory Ome_Nodes
  imports Ome_Settler
begin

section \<open>The nodes of a pod: from a split order to a settled match\<close>

text \<open>
  A trader splits an order into one fragment per node of a pod. Node \<open>i\<close> pairs its fragments of a buy
  and a sell order in a computation. This theory composes \<^verbatim>\<open>Order.Split\<close>, the computations, the
  joiner, the matcher and the settler: any threshold of the nodes reaches the verdict that the two
  whole orders deserve, and rebuilds them.
\<close>

definition node_computation :: "keccak \<Rightarrow> (nat \<Rightarrow> time) \<Rightarrow> bytes \<Rightarrow> fragment list \<Rightarrow> fragment list \<Rightarrow> nat \<Rightarrow> computation" where
  "node_computation keccak now epoch buys sells i =
     NewComputation keccak (now i) epoch (buys ! i) (sells ! i) ComputationStateNil False"

lemma node_computation_simps [simp]:
  "Buy (node_computation keccak now epoch buys sells i) = buys ! i"
  "Sell (node_computation keccak now epoch buys sells i) = sells ! i"
  "ComID (node_computation keccak now epoch buys sells i) =
     NewComputationID keccak (OrderID (buys ! i)) (OrderID (sells ! i)) (EpochDepth (buys ! i))"
  "ComEpoch (node_computation keccak now epoch buys sells i) = epoch"
  by (simp_all add: node_computation_def NewComputation_def)

lemma word_index:
  assumes "i < nat n" "n < 2 ^ 63"
  shows "word_of_nat (Suc i) < Prime" "unat (word_of_nat (Suc i) :: u64) = Suc i"
proof -
  have i: "Suc i < 2 ^ 64" "Suc i \<le> 2 ^ 63" using assms by auto
  have "unat (word_of_nat (Suc i) :: u64) = Suc i mod 2 ^ 64" unfolding unat_of_nat by simp
  then show u: "unat (word_of_nat (Suc i) :: u64) = Suc i" using i(1) by simp
  have "(2::nat) ^ 63 < unat Prime" by (simp add: Prime_def field_prime_def)
  then show "word_of_nat (Suc i) < Prime" using i(2) u by (simp add: word_less_nat_alt)
qed

lemma split_ok_node:
  assumes "split_ok ord n k fs" "i < nat n"
  shows "fragment_public ord (fs ! i)" "\<And>sh. sh \<in> set (fragment_shares (fs ! i)) \<Longrightarrow> Index sh = word_of_nat (Suc i)"
  using assms by (auto simp: split_ok_def fragments_of_def)

lemma FTokens_share: "FTokens f \<in> set (fragment_shares f)"
  by (simp add: fragment_shares_def)

text \<open>The computations of some of the nodes are fragments of the two orders at different indices.\<close>

lemma node_computations_fragments:
  fixes now :: "nat \<Rightarrow> time" and epoch :: bytes
  assumes n: "n < 2 ^ 63" and b: "Order_Split keccak buy n k rs = Some (Inr bfs, rs')"
    and s: "Order_Split keccak sell n k qs = Some (Inr sfs, qs')" and nodes: "\<forall>i\<in>set nodes. i < nat n"
  defines "coms \<equiv> map (node_computation keccak now epoch bfs sfs) nodes"
  shows "node_fragments (nat k) buy sell coms"
    and "card ((\<lambda>c. Index (FTokens (Buy c))) ` set coms) = card (set nodes)"
proof -
  note B = Order_Split_Inr [OF b n] and S = Order_Split_Inr [OF s n]
  have len: "length bfs = nat n" "length sfs = nat n" using B(1) S(1) by (auto simp: split_ok_def)
  have f: "fragments_of (nat k) buy (map Buy coms)" "fragments_of (nat k) sell (map Sell coms)"
    using B(1) S(1) nodes len by (auto simp: split_ok_def coms_def elim!: fragments_of_subset)
  note b = split_ok_node [OF B(1)] and s = split_ok_node [OF S(1)]
  have idx: "Index (FTokens (bfs ! i)) = word_of_nat (Suc i)" if "i < nat n" for i
    using b(2) [OF that FTokens_share] .
  have node: "ComID (node_computation keccak now epoch bfs sfs i) = NewComputationID keccak (ID buy) (ID sell) 0"
    "Index (FTokens (bfs ! i)) < Prime"
    "\<forall>sh\<in>set (fragment_shares (bfs ! i)) \<union> set (fragment_shares (sfs ! i)). Index sh = Index (FTokens (bfs ! i))"
    if i: "i < nat n" for i
  proof -
    show "ComID (node_computation keccak now epoch bfs sfs i) = NewComputationID keccak (ID buy) (ID sell) 0"
      using b(1) [OF i] s(1) [OF i] B(5) i len by (simp add: fragment_public_def)
    show "Index (FTokens (bfs ! i)) < Prime" using word_index(1) [OF i n] idx [OF i] by simp
    show "\<forall>sh\<in>set (fragment_shares (bfs ! i)) \<union> set (fragment_shares (sfs ! i)). Index sh = Index (FTokens (bfs ! i))"
      using b(2) [OF i] s(2) [OF i] idx [OF i] by auto
  qed
  show "node_fragments (nat k) buy sell coms"
    unfolding node_fragments_def using f node nodes by (auto simp: coms_def)
  have "(\<lambda>c. Index (FTokens (Buy c))) ` set coms = (\<lambda>i. word_of_nat (Suc i)) ` set nodes"
    unfolding coms_def set_map image_image by (rule image_cong) (use nodes idx in auto)
  moreover have "inj_on (\<lambda>i. word_of_nat (Suc i) :: u64) (set nodes)"
    by (rule inj_onI) (metis nodes word_index(2) [OF _ n] nat.inject)
  ultimately show "card ((\<lambda>c. Index (FTokens (Buy c))) ` set coms) = card (set nodes)" by (simp add: card_image)
qed

text \<open>What the joins of the nodes deliver to the callback of a node that contributes \<open>jn\<close>; the last
  byte of its identifier is the stage.\<close>

definition nodes_deliver :: "int \<Rightarrow> computation list \<Rightarrow> join \<Rightarrow> u64 list option" where
  "nodes_deliver k coms jn = joiner_deliver (nat k) (map (\<lambda>c. stage_join c (last (JoinID jn))) coms)"

lemma nodes_deliver_stage:
  "nodes_deliver k coms (stage_join com stage) = joiner_deliver (nat k) (map (\<lambda>c. stage_join c stage) coms)"
  by (simp add: nodes_deliver_def stage_join_def Let_def)

lemma nodes_match:
  fixes now :: "nat \<Rightarrow> time" and epoch :: bytes
  assumes n: "n < 2 ^ 63" and split: "Order_Split keccak buy n k rs = Some (Inr bfs, rs')"
      "Order_Split keccak sell n k qs = Some (Inr sfs, qs')"
    and nodes: "\<forall>j\<in>set nodes. j < nat n" "nat k \<le> card (set nodes)" and i: "i \<in> set nodes"
    and range: "order_in_range buy" "order_in_range sell"
  defines "coms \<equiv> map (node_computation keccak now epoch bfs sfs) nodes"
    and "com \<equiv> node_computation keccak now epoch bfs sfs i"
  assumes clock: "\<And>stage. \<not> isExpired (clock stage) com"
  shows "\<exists>outs0 js. Resolve clock com = Some outs0 \<and> only_joins js \<and>
    match_run 8 clock (nodes_deliver k coms) outs0 =
      Some (js @ [Puts (verdict com (orders_match buy sell)), Callbacks (verdict com (orders_match buy sell))])"
proof -
  note N = node_computations_fragments [OF n split nodes(1), where now = now and epoch = epoch, folded coms_def]
  have "0 < nat k" using Order_Split_Inr(2) [OF split(1) n] by simp
  moreover have "com \<in> set coms" using i by (simp add: com_def coms_def)
  ultimately show ?thesis
    using joiner.matcher_decides [where clock = clock and J = "nodes_deliver k coms",
        OF N(1) _ _ _ range clock nodes_deliver_stage] N(2) nodes(2) by force
qed

lemma nodes_settle:
  fixes now :: "nat \<Rightarrow> time" and epoch :: bytes
  assumes n: "n < 2 ^ 63" and split: "Order_Split keccak buy n k rs = Some (Inr bfs, rs')"
      "Order_Split keccak sell n k qs = Some (Inr sfs, qs')"
    and nodes: "\<forall>j\<in>set nodes. j < nat n" "nat k \<le> card (set nodes)" and i: "i \<in> set nodes"
    and created: "created_order keccak buy" "created_order keccak sell"
  defines "coms \<equiv> map (node_computation keccak now epoch bfs sfs) nodes"
    and "com \<equiv> node_computation keccak now epoch bfs sfs i"
  shows "\<exists>values. joiner_deliver (nat k) (map joinOrderMatch coms) = Some values \<and>
    settleValues keccak settle com values = settleOrderMatch settle com buy sell"
proof -
  note N = node_computations_fragments [OF n split nodes(1), where now = now and epoch = epoch, folded coms_def]
  have "0 < nat k" using Order_Split_Inr(2) [OF split(1) n] by simp
  moreover have "com \<in> set coms" using i by (simp add: com_def coms_def)
  moreover have "\<forall>s\<in>set (order_secrets buy @ order_secrets sell). s < Prime"
    using Order_Split_Inr(4) [OF split(1) n] Order_Split_Inr(4) [OF split(2) n] by auto
  ultimately show ?thesis
    using settle_delivers [where settle = settle, OF N(1) _ _ _ _ created] N(2) nodes(2) by simp
qed

end
