(* ===== verification/Registry.thy ===== *)
theory Registry
  imports Order "HOL-Library.AList" "HOL-Library.Multiset"
begin

section \<open>The registry: \<^verbatim>\<open>registry/epoch.go\<close> and \<^verbatim>\<open>registry/registry.go\<close>\<close>

text \<open>
  Epochs and their pods, and the crypter that verifies and encrypts for registered nodes. The crypter
  caches what the contract says about an address; the contract, the keystore and RSA are parameters.
  A cache is an association list with different keys; \<open>rng\<close> is the order in which a
  \<^verbatim>\<open>range\<close> loop visits it. An update reads the clock twice, so \<open>now\<close> is a pair.
\<close>

subsection \<open>Epochs\<close>

record pod =
  Position :: int
  PodHash :: bytes
  PodDarknodes :: "string list"

record epoch =
  EpochHash :: bytes
  Pods :: "pod list"
  Darknodes :: "string list"
  BlockNumber :: int
  BlockInterval :: int

datatype registry_error = ErrInvalidRegistration | ErrPodNotFound

definition Epoch_Equal :: "epoch \<Rightarrow> epoch \<Rightarrow> bool" where
  "Epoch_Equal e arg \<longleftrightarrow> EpochHash e = EpochHash arg"

fun pod_loop :: "pod list \<Rightarrow> string \<Rightarrow> registry_error + pod" where
  "pod_loop [] addr = Inl ErrPodNotFound"
| "pod_loop (pod # pods) addr = (if addr \<in> set (PodDarknodes pod) then Inr pod else pod_loop pods addr)"

definition Epoch_Pod :: "epoch \<Rightarrow> string \<Rightarrow> registry_error + pod" where
  "Epoch_Pod e addr = pod_loop (Pods e) addr"

definition Pod_Size :: "pod \<Rightarrow> nat" where
  "Pod_Size pod = length (PodDarknodes pod)"

definition Pod_Threshold :: "pod \<Rightarrow> nat" where
  "Pod_Threshold pod = (2 * (length (PodDarknodes pod) + 1)) div 3"

lemma Epoch_Pod_iff:
  "Epoch_Pod e addr = Inr pod \<longleftrightarrow> (\<exists>i<length (Pods e). Pods e ! i = pod \<and> addr \<in> set (PodDarknodes pod) \<and>
     (\<forall>j<i. addr \<notin> set (PodDarknodes (Pods e ! j))))"
proof -
  have "pod_loop ps addr = Inr pod \<longleftrightarrow> (\<exists>i<length ps. ps ! i = pod \<and> addr \<in> set (PodDarknodes pod) \<and>
     (\<forall>j<i. addr \<notin> set (PodDarknodes (ps ! j))))" for ps
  proof (induction ps)
    case (Cons p ps)
    show ?case
    proof (cases "addr \<in> set (PodDarknodes p)")
      case True
      then show ?thesis by (auto intro!: exI [of _ 0] simp: less_Suc_eq_0_disj nth_Cons')
    next
      case False
      then show ?thesis using Cons by (auto simp: Ex_less_Suc2 All_less_Suc2)
    qed
  qed simp
  then show ?thesis by (simp add: Epoch_Pod_def)
qed

lemma Epoch_Pod_not_found:
  "Epoch_Pod e addr = Inl err \<longleftrightarrow> err = ErrPodNotFound \<and> (\<forall>pod\<in>set (Pods e). addr \<notin> set (PodDarknodes pod))"
proof -
  have "pod_loop ps addr = Inl err \<longleftrightarrow> err = ErrPodNotFound \<and> (\<forall>pod\<in>set ps. addr \<notin> set (PodDarknodes pod))" for ps
    by (induction ps) auto
  then show ?thesis by (simp add: Epoch_Pod_def)
qed

text \<open>The threshold is the ceiling of two thirds of the size.\<close>

lemma Pod_Threshold_least: "m < Pod_Threshold pod \<longleftrightarrow> 3 * m < 2 * Pod_Size pod"
  unfolding Pod_Threshold_def Pod_Size_def by presburger

lemma Pod_Threshold_bounds:
  assumes "0 < Pod_Size pod"
  shows "0 < Pod_Threshold pod" "Pod_Threshold pod \<le> Pod_Size pod"
  using assms unfolding Pod_Threshold_def Pod_Size_def by presburger+

subsection \<open>The caches of the crypter\<close>

record 'v cache_entry =
  timestamp :: time
  entry_value :: 'v

type_synonym 'v cache = "(string \<times> 'v cache_entry) list"

definition cache_expired :: "int \<Rightarrow> time \<Rightarrow> 'v cache_entry \<Rightarrow> bool" where
  "cache_expired period now e \<longleftrightarrow> timestamp e + period < now"

fun oldest_loop :: "'v cache \<Rightarrow> time \<times> string \<Rightarrow> time \<times> string" where
  "oldest_loop [] old = old"
| "oldest_loop ((k, e) # es) (oldest, oldestK) =
     oldest_loop es (if oldestK = '''' \<or> timestamp e < oldest then (timestamp e, k) else (oldest, oldestK))"

definition evict :: "('v cache \<Rightarrow> 'v cache) \<Rightarrow> int \<Rightarrow> 'v cache \<Rightarrow> 'v cache" where
  "evict rng limit c =
     (if int (length c) > limit then AList.delete (snd (oldest_loop (rng c) (0, ''''))) c else c)"

text \<open>Both caches are updated in the same way: the value is loaded when there is none or it is too
  old; its timestamp is set in any case.\<close>

definition updateRegistryCache ::
    "(bool cache \<Rightarrow> bool cache) \<Rightarrow> (string \<Rightarrow> 'e + bool) \<Rightarrow> int \<Rightarrow> int \<Rightarrow> time \<times> time \<Rightarrow> bool cache \<Rightarrow> string \<Rightarrow> 'e + bool cache" where
  "updateRegistryCache rng isRegistered limit period now c addr =
     ebind (case map_of c addr of
              Some e \<Rightarrow> if cache_expired period (fst now) e then isRegistered addr else Inr (entry_value e)
            | None \<Rightarrow> isRegistered addr) (\<lambda>v.
     Inr (evict rng limit (AList.update addr \<lparr>timestamp = snd now, entry_value = v\<rparr> c)))"

definition updatePublicKeyCache ::
    "('pk cache \<Rightarrow> 'pk cache) \<Rightarrow> (string \<Rightarrow> 'e + 'pk) \<Rightarrow> int \<Rightarrow> int \<Rightarrow> time \<times> time \<Rightarrow> 'pk cache \<Rightarrow> string \<Rightarrow> 'e + 'pk cache" where
  "updatePublicKeyCache rng publicKey limit period now c addr =
     ebind (case map_of c addr of
              Some e \<Rightarrow> if cache_expired period (fst now) e then publicKey addr else Inr (entry_value e)
            | None \<Rightarrow> publicKey addr) (\<lambda>v.
     Inr (evict rng limit (AList.update addr \<lparr>timestamp = snd now, entry_value = v\<rparr> c)))"

text \<open>\<open>verifyAddress\<close> also returns the cache it leaves; an error of the contract leaves it unchanged.\<close>

definition verifyAddress ::
    "(bool cache \<Rightarrow> bool cache) \<Rightarrow> (string \<Rightarrow> 'e + bool) \<Rightarrow> int \<Rightarrow> int \<Rightarrow> time \<times> time \<Rightarrow> bool cache \<Rightarrow> string \<Rightarrow>
     bool cache \<times> (('e + registry_error) + unit)" where
  "verifyAddress rng isRegistered limit period now c addr =
     (case updateRegistryCache rng isRegistered limit period now c addr of
        Inl e \<Rightarrow> (c, Inl (Inl e))
      | Inr c \<Rightarrow>
          (c, case map_of c addr of
                Some e \<Rightarrow> if entry_value e then Inr () else Inl (Inr ErrInvalidRegistration)
              | None \<Rightarrow> Inl (Inr ErrInvalidRegistration)))"

definition Crypter_Verify where
  "Crypter_Verify recover rng isRegistered limit period now c data signature =
     (case recover data signature of
        Inl e \<Rightarrow> (c, Inl (Inl e))
      | Inr addr \<Rightarrow> verifyAddress rng isRegistered limit period now c addr)"

text \<open>An address that is missing from the cache after its update was evicted; the source then encrypts
  with the zero key \<open>zero_key\<close>.\<close>

definition encryptToAddress ::
    "('pk cache \<Rightarrow> 'pk cache) \<Rightarrow> (string \<Rightarrow> 'e + 'pk) \<Rightarrow> ('pk \<Rightarrow> bytes \<Rightarrow> 'e + bytes) \<Rightarrow> 'pk \<Rightarrow> int \<Rightarrow> int \<Rightarrow> time \<times> time \<Rightarrow>
     'pk cache \<Rightarrow> string \<Rightarrow> bytes \<Rightarrow> 'pk cache \<times> ('e + bytes)" where
  "encryptToAddress rng publicKey enc zero_key limit period now c addr plainText =
     (case updatePublicKeyCache rng publicKey limit period now c addr of
        Inl e \<Rightarrow> (c, Inl e)
      | Inr c \<Rightarrow> (c, enc (case map_of c addr of Some e \<Rightarrow> entry_value e | None \<Rightarrow> zero_key) plainText))"

definition Crypter_Encrypt where
  "Crypter_Encrypt rng rng' isRegistered publicKey enc zero_key limit period now now' rc pc addr plainText =
     (case verifyAddress rng isRegistered limit period now rc addr of
        (rc, Inl e) \<Rightarrow> (rc, pc, Inl e)
      | (rc, Inr _) \<Rightarrow>
          (case encryptToAddress rng' publicKey enc zero_key limit period now' pc addr plainText of
             (pc, r) \<Rightarrow> (rc, pc, case r of Inl e \<Rightarrow> Inl (Inl e) | Inr cipher \<Rightarrow> Inr cipher)))"

subsection \<open>The caches are bounded\<close>

definition cache_wf :: "int \<Rightarrow> 'v cache \<Rightarrow> bool" where
  "cache_wf limit c \<longleftrightarrow> distinct (map fst c) \<and> int (length c) \<le> limit"

lemma oldest_loop_in: "snd (oldest_loop es (t, k)) \<in> insert k (fst ` set es)"
proof (induction es arbitrary: t k)
  case (Cons e es)
  obtain k' e' where e: "e = (k', e')" by fastforce
  show ?case using Cons [of "timestamp e'" k'] Cons [of t k] by (auto simp: e)
qed simp

lemma oldest_loop_key:
  assumes "es \<noteq> []"
  shows "snd (oldest_loop es (0, '''')) \<in> fst ` set es"
proof -
  obtain k e es' where es: "es = (k, e) # es'" using assms by (cases es) fastforce+
  show ?thesis using oldest_loop_in [of es' "timestamp e" k] by (simp add: es)
qed

text \<open>The key it finds is one of an entry with the least timestamp, unless there is an empty key.\<close>

lemma oldest_loop_min:
  assumes "'''' \<notin> fst ` set es" "k \<noteq> ''''"
  shows "fst (oldest_loop es (t, k)) \<le> t \<and> (\<forall>x\<in>set es. fst (oldest_loop es (t, k)) \<le> timestamp (snd x)) \<and>
    (oldest_loop es (t, k) = (t, k) \<or>
      (\<exists>e. (snd (oldest_loop es (t, k)), e) \<in> set es \<and> timestamp e = fst (oldest_loop es (t, k))))"
  using assms
proof (induction es arbitrary: t k)
  case (Cons x es)
  obtain kx e where x: "x = (kx, e)" by fastforce
  have nk: "'''' \<notin> fst ` set es" "kx \<noteq> ''''" using Cons.prems(1) by (auto simp: x)
  show ?case
  proof (cases "timestamp e < t")
    case True
    then show ?thesis using Cons.IH [OF nk, of "timestamp e"] by (auto simp: x)
  next
    case False
    then show ?thesis using Cons.IH [OF nk(1) Cons.prems(2), of t] Cons.prems(2) by (auto simp: x)
  qed
qed simp

lemma oldest_key_min:
  assumes "distinct (map fst es)" "'''' \<notin> fst ` set es" "es \<noteq> []"
  shows "\<exists>e. map_of es (snd (oldest_loop es (0, ''''))) = Some e \<and> (\<forall>x\<in>set es. timestamp e \<le> timestamp (snd x))"
proof -
  obtain k e es' where es: "es = (k, e) # es'" using assms(3) by (cases es) fastforce+
  have nk: "'''' \<notin> fst ` set es'" "k \<noteq> ''''" using assms(2) by (auto simp: es)
  have "\<exists>e'. (snd (oldest_loop es (0, '''')), e') \<in> set es \<and> (\<forall>x\<in>set es. timestamp e' \<le> timestamp (snd x))"
    using oldest_loop_min [OF nk, of "timestamp e"] by (fastforce simp: es)
  then show ?thesis using assms(1) by auto
qed

lemma length_delete:
  assumes "distinct (map fst c)"
  shows "length (AList.delete k c) = length c - (if k \<in> fst ` set c then 1 else 0)"
  using assms
proof (induction c)
  case (Cons a c)
  have "k \<in> fst ` set c \<Longrightarrow> 0 < length c" by (cases c) auto
  then show ?case using Cons by (cases a) auto
qed simp

lemma length_update:
  "length (AList.update k v c) = length c + (if k \<in> fst ` set c then 0 else 1)"
  by (induction c) auto

lemma evict_wf:
  assumes "\<And>c. mset (rng c) = mset c" "distinct (map fst c)" "int (length c) \<le> limit + 1" "0 \<le> limit"
  shows "cache_wf limit (evict rng limit c)"
proof (cases "int (length c) > limit")
  case True
  then have "c \<noteq> []" using assms(4) by auto
  then have "rng c \<noteq> []" using assms(1) [of c] by auto
  then have "snd (oldest_loop (rng c) (0, '''')) \<in> fst ` set c"
    using oldest_loop_key [of "rng c"] mset_eq_setD [OF assms(1) [of c]] by simp
  then show ?thesis using True \<open>c \<noteq> []\<close> assms(2,3) length_greater_0_conv [of c]
    by (simp add: evict_def cache_wf_def length_delete distinct_delete Suc_leI)
next
  case False
  then show ?thesis using assms by (simp add: evict_def cache_wf_def)
qed

text \<open>Neither update lets its cache grow past the limit.\<close>

lemma update_cache_wf:
  assumes "\<And>c. mset (rng c) = mset c" "cache_wf limit c"
  shows "cache_wf limit (evict rng limit (AList.update addr e c))"
  using assms by (intro evict_wf) (auto simp: cache_wf_def length_update intro: distinct_update)

lemma updateRegistryCache_wf:
  assumes "\<And>c. mset (rng c) = mset c" "cache_wf limit c"
    "updateRegistryCache rng isRegistered limit period now c addr = Inr c'"
  shows "cache_wf limit c'"
  using assms(3) update_cache_wf [OF assms(1,2)]
  by (auto simp: updateRegistryCache_def ebind_def split: sum.splits)

lemma updatePublicKeyCache_wf:
  assumes "\<And>c. mset (rng c) = mset c" "cache_wf limit c"
    "updatePublicKeyCache rng publicKey limit period now c addr = Inr c'"
  shows "cache_wf limit c'"
  using assms(3) update_cache_wf [OF assms(1,2)]
  by (auto simp: updatePublicKeyCache_def ebind_def split: sum.splits)

text \<open>An address that is looked up for the first time, or again after the update period, is
  answered by the contract.\<close>

lemma update_old_entry:
  assumes "distinct (map fst c)" "x \<in> set c" "fst x \<noteq> addr"
  shows "x \<in> set (AList.update addr e c)"
  using assms by (induction c) auto

lemma evict_keeps:
  assumes "cache_wf limit c" "0 < limit" "\<And>c. mset (rng c) = mset c" "'''' \<notin> fst ` set c" "addr \<noteq> ''''"
    "\<And>x. x \<in> set c \<Longrightarrow> timestamp (snd x) < timestamp e"
  shows "map_of (evict rng limit (AList.update addr e c)) addr = Some e"
proof -
  let ?c = "AList.update addr e c" and ?k = "snd (oldest_loop (rng (AList.update addr e c)) (0, ''''))"
  have dc: "distinct (map fst ?c)" using assms(1) by (simp add: cache_wf_def distinct_update)
  have st: "set (rng ?c) = set ?c" by (rule mset_eq_setD [OF assms(3)])
  have dr: "distinct (map fst (rng ?c))"
    using dc assms(3) [of ?c] by (metis mset_map mset_eq_imp_distinct_iff)
  have "?k \<noteq> addr" if big: "int (length ?c) > limit"
  proof
    assume k: "?k = addr"
    have "?c \<noteq> []" using big assms(2) by auto
    moreover have "fst ` set ?c = insert addr (fst ` set c)"
      using dom_update [of addr e c] by (simp add: dom_map_of_conv_image_fst)
    ultimately have ne: "rng ?c \<noteq> []" "'''' \<notin> fst ` set (rng ?c)" using st assms(4,5) by auto
    obtain e' where e': "map_of (rng ?c) addr = Some e'" "\<forall>x\<in>set ?c. timestamp e' \<le> timestamp (snd x)"
      using oldest_key_min [OF dr ne(2,1)] k st by auto
    have "map_of ?c addr = map_of (rng ?c) addr" using dc dr st by (metis map_of_inject_set)
    then have "e' = e" using e'(1) by (simp add: update_conv')
    have "\<exists>x\<in>set c. fst x \<noteq> addr"
      using big assms(1,2) by (cases c) (auto simp: cache_wf_def length_update split: if_splits)
    then obtain x where x: "x \<in> set c" "fst x \<noteq> addr" by blast
    then have "x \<in> set ?c" using assms(1) by (simp add: cache_wf_def update_old_entry)
    then show False using e'(2) \<open>e' = e\<close> assms(6) [OF x(1)] by force
  qed
  then show ?thesis by (auto simp: evict_def update_conv' delete_conv')
qed

lemma verifyAddress_fresh:
  assumes "cache_wf limit c" "0 < limit" "\<And>c. mset (rng c) = mset c" "'''' \<notin> fst ` set c" "addr \<noteq> ''''"
    "\<And>x. x \<in> set c \<Longrightarrow> timestamp (snd x) < snd now"
    "\<And>e. map_of c addr = Some e \<Longrightarrow> cache_expired period (fst now) e"
  shows "snd (verifyAddress rng isRegistered limit period now c addr) =
    (case isRegistered addr of
       Inl e \<Rightarrow> Inl (Inl e)
     | Inr True \<Rightarrow> Inr ()
     | Inr False \<Rightarrow> Inl (Inr ErrInvalidRegistration))"
proof -
  have "updateRegistryCache rng isRegistered limit period now c addr =
      ebind (isRegistered addr) (\<lambda>v. Inr (evict rng limit (AList.update addr \<lparr>timestamp = snd now, entry_value = v\<rparr> c)))"
    using assms(7) by (simp add: updateRegistryCache_def split: option.splits)
  moreover have "map_of (evict rng limit (AList.update addr \<lparr>timestamp = snd now, entry_value = v\<rparr> c)) addr =
      Some \<lparr>timestamp = snd now, entry_value = v\<rparr>" for v
    using assms(6) by (intro evict_keeps assms(1-5)) simp
  ultimately show ?thesis by (auto simp: verifyAddress_def ebind_def split: sum.splits bool.splits)
qed

text \<open>An entry is only loaded again when it was not looked up for a whole period: an address that is
  verified more often keeps its first answer, whatever the contract says later.\<close>

fun verify_run ::
    "(bool cache \<Rightarrow> bool cache) \<Rightarrow> int \<Rightarrow> int \<Rightarrow> string \<Rightarrow> bool cache \<Rightarrow> ((string \<Rightarrow> 'e + bool) \<times> time \<times> time) list \<Rightarrow>
     bool cache \<times> (('e + registry_error) + unit) list" where
  "verify_run rng limit period addr c [] = (c, [])"
| "verify_run rng limit period addr c ((isRegistered, now) # qs) =
     (case verifyAddress rng isRegistered limit period now c addr of (c, r) \<Rightarrow>
        case verify_run rng limit period addr c qs of (c, rs) \<Rightarrow> (c, r # rs))"

fun renewed :: "int \<Rightarrow> time \<Rightarrow> ('q \<times> time \<times> time) list \<Rightarrow> bool" where
  "renewed period t [] = True"
| "renewed period t ((q, now) # qs) \<longleftrightarrow> fst now \<le> t + period \<and> renewed period (snd now) qs"

lemma verify_run_stale:
  assumes "map_of c addr = Some e" "renewed period (timestamp e) qs" "int (length c) \<le> limit"
  shows "snd (verify_run rng limit period addr c qs) =
    replicate (length qs) (if entry_value e then Inr () else Inl (Inr ErrInvalidRegistration))"
  using assms
proof (induction qs arbitrary: c e)
  case (Cons q qs)
  obtain isRegistered now where q: "q = (isRegistered, now)" by (cases q)
  let ?e = "\<lparr>timestamp = snd now, entry_value = entry_value e\<rparr>"
  let ?c = "AList.update addr ?e c"
  have "addr \<in> fst ` set c" using Cons.prems(1) by (metis map_of_eq_None_iff option.distinct(1))
  then have len: "int (length ?c) \<le> limit" using Cons.prems(3) by (simp add: length_update)
  have "updateRegistryCache rng isRegistered limit period now c addr = Inr ?c"
    using Cons.prems len by (simp add: updateRegistryCache_def cache_expired_def q evict_def ebind_def)
  moreover have ev: "map_of ?c addr = Some ?e" by (simp add: update_conv')
  ultimately have "verifyAddress rng isRegistered limit period now c addr =
      (?c, if entry_value e then Inr () else Inl (Inr ErrInvalidRegistration))"
    by (simp add: verifyAddress_def)
  then show ?case using Cons.IH [OF ev _ len] Cons.prems(2)
    by (cases "entry_value e") (auto simp: q split: prod.splits)
qed simp

end
