(* ===== verification/Leveldb.thy ===== *)
theory Leveldb
  imports Registry Ome_Matcher "HOL-Library.List_Lexorder"
begin

section \<open>Storage: \<^verbatim>\<open>leveldb/leveldb.go\<close>, \<^verbatim>\<open>leveldb/orderbook.go\<close>, \<^verbatim>\<open>leveldb/somer.go\<close>\<close>

text \<open>
  The tables keep orders, order fragments, computations and a pointer in one LevelDB database, each
  under keys of 66 bytes that start with the two bytes of its table. Values are stored as JSON, most
  with the time they were written.

  The database (the package goleveldb) and the JSON encoding are parameters: \<open>L\<close> holds the four
  operations the tables use, every one of which may fail, and \<open>js\<close> the two directions of the encoding.
  A time is an argument of the operations that read the clock. An iterator reads a snapshot: it is
  the list of the pairs ahead, with the error it ends with.
\<close>

subsection \<open>The database and the encoding\<close>

datatype db_error = ErrNotFound | ErrFault string

record 'db leveldb =
  db_get :: "'db \<Rightarrow> bytes \<Rightarrow> db_error + bytes"
  db_put :: "'db \<Rightarrow> bytes \<Rightarrow> bytes \<Rightarrow> 'db \<times> db_error option"
  db_delete :: "'db \<Rightarrow> bytes \<Rightarrow> 'db \<times> db_error option"
  db_range :: "'db \<Rightarrow> bytes \<Rightarrow> bytes \<Rightarrow> (bytes \<times> bytes) list \<times> db_error option"

record 'v json =
  to_json :: "'v \<Rightarrow> string + bytes"
  of_json :: "bytes \<Rightarrow> string + 'v"

datatype store_error =
    ErrOrderNotFound
  | ErrOrderFragmentNotFound
  | ErrComputationNotFound
  | ErrPointerNotFound
  | ErrCursorOutOfRange
  | ErrDb db_error
  | ErrJson string

subsection \<open>Operations all tables share\<close>

definition table_put :: "'db leveldb \<Rightarrow> 'v json \<Rightarrow> 'db \<Rightarrow> bytes \<Rightarrow> 'v \<Rightarrow> 'db \<times> store_error option" where
  "table_put L js db k v =
     (case to_json js v of
        Inl e \<Rightarrow> (db, Some (ErrJson e))
      | Inr data \<Rightarrow> (case db_put L db k data of (db, e) \<Rightarrow> (db, map_option ErrDb e)))"

definition table_delete :: "'db leveldb \<Rightarrow> 'db \<Rightarrow> bytes \<Rightarrow> 'db \<times> store_error option" where
  "table_delete L db k = (case db_delete L db k of (db, e) \<Rightarrow> (db, map_option ErrDb e))"

definition table_get :: "'db leveldb \<Rightarrow> 'v json \<Rightarrow> store_error \<Rightarrow> 'db \<Rightarrow> bytes \<Rightarrow> store_error + 'v" where
  "table_get L js not_found db k =
     (case db_get L db k of
        Inl e \<Rightarrow> Inl (if e = ErrNotFound then not_found else ErrDb e)
      | Inr data \<Rightarrow> (case of_json js data of Inl e \<Rightarrow> Inl (ErrJson e) | Inr v \<Rightarrow> Inr v))"

record iter =
  Ahead :: "(bytes \<times> bytes) list"
  Here :: "(bytes \<times> bytes) option"
  Fault :: "db_error option"

definition NewIterator :: "'db leveldb \<Rightarrow> 'db \<Rightarrow> bytes \<Rightarrow> bytes \<Rightarrow> iter" where
  "NewIterator L db start limit = (case db_range L db start limit of (ps, e) \<Rightarrow> \<lparr>Ahead = ps, Here = None, Fault = e\<rparr>)"

definition iter_next :: "iter \<Rightarrow> iter \<times> bool" where
  "iter_next it =
     (case Ahead it of
        [] \<Rightarrow> (it\<lparr>Here := None\<rparr>, False)
      | p # ps \<Rightarrow> (it\<lparr>Ahead := ps, Here := Some p\<rparr>, True))"

definition iter_error :: "iter \<Rightarrow> store_error option" where
  "iter_error it = (if Here it = None \<and> Ahead it = [] then map_option ErrDb (Fault it) else None)"

text \<open>\<open>f\<close> reads the pair at the cursor.\<close>

definition iter_cursor :: "(bytes \<times> bytes \<Rightarrow> store_error + 'a) \<Rightarrow> iter \<Rightarrow> store_error + 'a" where
  "iter_cursor f it =
     (case Here it of
        None \<Rightarrow> Inl ErrCursorOutOfRange
      | Some p \<Rightarrow> ebind (f p) (\<lambda>x. case iter_error it of None \<Rightarrow> Inr x | Some e \<Rightarrow> Inl e))"

function iter_collect :: "(bytes \<times> bytes \<Rightarrow> store_error + 'a) \<Rightarrow> iter \<Rightarrow> 'a list \<times> store_error option" where
  "iter_collect f it =
     (if snd (iter_next it) then
        (case iter_cursor f (fst (iter_next it)) of
           Inl e \<Rightarrow> ([], Some e)
         | Inr x \<Rightarrow> (case iter_collect f (fst (iter_next it)) of (xs, e) \<Rightarrow> (x # xs, e)))
      else ([], iter_error (fst (iter_next it))))"
  by pat_completeness auto
termination
  by (relation "measure (\<lambda>(f, it). length (Ahead it))") (auto simp: iter_next_def split: list.splits)

declare iter_collect.simps [simp del]

text \<open>A loop over an iterator that goes on after a cursor with an error: the results at the cursors.\<close>

function iter_results :: "(bytes \<times> bytes \<Rightarrow> store_error + 'a) \<Rightarrow> iter \<Rightarrow> (store_error + 'a) list" where
  "iter_results f it =
     (if snd (iter_next it) then iter_cursor f (fst (iter_next it)) # iter_results f (fst (iter_next it)) else [])"
  by pat_completeness auto
termination
  by (relation "measure (\<lambda>(f, it). length (Ahead it))") (auto simp: iter_next_def split: list.splits)

declare iter_results.simps [simp del]

definition read_json :: "'v json \<Rightarrow> bytes \<Rightarrow> store_error + 'v" where
  "read_json js data = (case of_json js data of Inl e \<Rightarrow> Inl (ErrJson e) | Inr v \<Rightarrow> Inr v)"

text \<open>The loop of the \<^verbatim>\<open>Prune\<close> methods: the last error is returned.\<close>

fun prune_loop :: "'db leveldb \<Rightarrow> 'v json \<Rightarrow> ('v \<Rightarrow> time) \<Rightarrow> int \<Rightarrow> time \<Rightarrow> 'db \<Rightarrow> (bytes \<times> bytes) list \<Rightarrow>
    store_error option \<Rightarrow> 'db \<times> store_error option" where
  "prune_loop L js written expiry now db [] err = (db, err)"
| "prune_loop L js written expiry now db ((k, data) # ps) err =
     (case of_json js data of
        Inl e \<Rightarrow> prune_loop L js written expiry now db ps (Some (ErrJson e))
      | Inr v \<Rightarrow>
          if written v + expiry < now then
            (case db_delete L db k of
               (db, None) \<Rightarrow> prune_loop L js written expiry now db ps err
             | (db, Some e) \<Rightarrow> prune_loop L js written expiry now db ps (Some (ErrDb e)))
          else prune_loop L js written expiry now db ps err)"

subsection \<open>Keys\<close>

definition paddingBytes :: "u8 \<Rightarrow> nat \<Rightarrow> bytes" where
  "paddingBytes value num = replicate num value"

definition OrderbookOrderTableBegin :: bytes where "OrderbookOrderTableBegin = [1, 0]"
definition OrderbookOrderTablePadding :: bytes where "OrderbookOrderTablePadding = paddingBytes 0 32"
definition OrderbookOrderIterBegin :: bytes where "OrderbookOrderIterBegin = paddingBytes 0 32"
definition OrderbookOrderIterEnd :: bytes where "OrderbookOrderIterEnd = paddingBytes 255 32"

definition OrderbookOrderFragmentTableBegin :: bytes where "OrderbookOrderFragmentTableBegin = [2, 0]"
definition OrderbookOrderFragmentTablePadding :: bytes where "OrderbookOrderFragmentTablePadding = paddingBytes 0 0"
definition OrderbookOrderFragmentIterBegin :: bytes where "OrderbookOrderFragmentIterBegin = paddingBytes 0 32"
definition OrderbookOrderFragmentIterEnd :: bytes where "OrderbookOrderFragmentIterEnd = paddingBytes 255 32"

definition OrderbookPointerTableBegin :: bytes where "OrderbookPointerTableBegin = [3, 0]"
definition OrderbookPointerTablePadding :: bytes where "OrderbookPointerTablePadding = paddingBytes 0 64"

definition SomerComputationTableBegin :: bytes where "SomerComputationTableBegin = [16, 0]"
definition SomerComputationTablePadding :: bytes where "SomerComputationTablePadding = paddingBytes 0 32"
definition SomerComputationIterBegin :: bytes where "SomerComputationIterBegin = paddingBytes 0 32"
definition SomerComputationIterEnd :: bytes where "SomerComputationIterEnd = paddingBytes 255 32"

definition SomerBuyOrderFragmentTableBegin :: bytes where "SomerBuyOrderFragmentTableBegin = [17, 0]"
definition SomerBuyOrderFragmentTablePadding :: bytes where "SomerBuyOrderFragmentTablePadding = paddingBytes 0 0"
definition SomerBuyOrderFragmentIterBegin :: bytes where "SomerBuyOrderFragmentIterBegin = paddingBytes 0 32"
definition SomerBuyOrderFragmentIterEnd :: bytes where "SomerBuyOrderFragmentIterEnd = paddingBytes 255 32"

definition SomerSellOrderFragmentTableBegin :: bytes where "SomerSellOrderFragmentTableBegin = [18, 0]"
definition SomerSellOrderFragmentTablePadding :: bytes where "SomerSellOrderFragmentTablePadding = paddingBytes 0 0"
definition SomerSellOrderFragmentIterBegin :: bytes where "SomerSellOrderFragmentIterBegin = paddingBytes 0 32"
definition SomerSellOrderFragmentIterEnd :: bytes where "SomerSellOrderFragmentIterEnd = paddingBytes 255 32"

definition order_key :: "bytes \<Rightarrow> bytes" where
  "order_key k = (OrderbookOrderTableBegin @ k) @ OrderbookOrderTablePadding"

definition fragment_key :: "bytes \<Rightarrow> bytes \<Rightarrow> bytes" where
  "fragment_key epoch orderID = ((OrderbookOrderFragmentTableBegin @ epoch) @ orderID) @ OrderbookOrderFragmentTablePadding"

definition pointer_key :: bytes where
  "pointer_key = OrderbookPointerTableBegin @ OrderbookPointerTablePadding"

definition computation_key :: "bytes \<Rightarrow> bytes" where
  "computation_key k = (SomerComputationTableBegin @ k) @ SomerComputationTablePadding"

definition buyKey :: "bytes \<Rightarrow> bytes \<Rightarrow> bytes" where
  "buyKey epoch orderID = ((SomerBuyOrderFragmentTableBegin @ epoch) @ orderID) @ SomerBuyOrderFragmentTablePadding"

definition sellKey :: "bytes \<Rightarrow> bytes \<Rightarrow> bytes" where
  "sellKey epoch orderID = ((SomerSellOrderFragmentTableBegin @ epoch) @ orderID) @ SomerSellOrderFragmentTablePadding"

subsection \<open>The orders of the orderbook\<close>

record order_value =
  OVTimestamp :: time
  OVStatus :: status
  OVTrader :: string

definition PutOrder where
  "PutOrder L js now db i status trader =
     table_put L js db (order_key i) \<lparr>OVTimestamp = now, OVStatus = status, OVTrader = trader\<rparr>"

definition DeleteOrder where
  "DeleteOrder L db i = table_delete L db (order_key i)"

definition Order_lookup where
  "Order_lookup L js db i =
     ebind (table_get L js ErrOrderNotFound db (order_key i)) (\<lambda>v. Inr (OVStatus v, OVTrader v))"

definition Orders where
  "Orders L db = NewIterator L db (order_key OrderbookOrderIterBegin) (order_key OrderbookOrderIterEnd)"

definition order_cursor :: "order_value json \<Rightarrow> bytes \<times> bytes \<Rightarrow> store_error + (order_id \<times> status \<times> string)" where
  "order_cursor js p =
     ebind (read_json js (snd p)) (\<lambda>v. Inr (take 32 (drop (length OrderbookOrderTableBegin) (fst p)), OVStatus v, OVTrader v))"

definition Orders_Collect where
  "Orders_Collect js it = iter_collect (order_cursor js) it"

definition Order_Prune where
  "Order_Prune L js expiry now db = prune_loop L js OVTimestamp expiry now db (Ahead (Orders L db)) None"

subsection \<open>The order fragments of the orderbook\<close>

record fragment_value =
  FVTimestamp :: time
  FVFragment :: fragment

definition PutOrderFragment where
  "PutOrderFragment L js now db epoch f =
     table_put L js db (fragment_key (EpochHash epoch) (OrderID f)) \<lparr>FVTimestamp = now, FVFragment = f\<rparr>"

definition DeleteOrderFragment where
  "DeleteOrderFragment L db epoch i = table_delete L db (fragment_key (EpochHash epoch) i)"

definition OrderFragment_lookup where
  "OrderFragment_lookup L js db epoch i =
     ebind (table_get L js ErrOrderFragmentNotFound db (fragment_key (EpochHash epoch) i)) (\<lambda>v. Inr (FVFragment v))"

definition OrderFragments where
  "OrderFragments L db epoch = NewIterator L db (fragment_key (EpochHash epoch) OrderbookOrderFragmentIterBegin)
     (fragment_key (EpochHash epoch) OrderbookOrderFragmentIterEnd)"

definition fragment_cursor where
  "fragment_cursor js p = ebind (read_json js (snd p)) (\<lambda>v. Inr (FVFragment v))"

definition OrderFragments_Collect where
  "OrderFragments_Collect js it = iter_collect (fragment_cursor js) it"

definition OrderFragment_Prune where
  "OrderFragment_Prune L js expiry now db =
     prune_loop L js FVTimestamp expiry now db
       (Ahead (NewIterator L db (fragment_key OrderbookOrderFragmentIterBegin OrderbookOrderFragmentIterBegin)
         (fragment_key OrderbookOrderFragmentIterEnd OrderbookOrderFragmentIterEnd))) None"

subsection \<open>The pointer\<close>

definition PutPointer :: "'db leveldb \<Rightarrow> int json \<Rightarrow> 'db \<Rightarrow> int \<Rightarrow> 'db \<times> store_error option" where
  "PutPointer L js db pointer = table_put L js db pointer_key pointer"

text \<open>An error of the database is replaced by the pointer zero and no error.\<close>

definition Pointer :: "'db leveldb \<Rightarrow> int json \<Rightarrow> 'db \<Rightarrow> store_error + int" where
  "Pointer L js db =
     (case db_get L db pointer_key of
        Inl _ \<Rightarrow> Inr 0
      | Inr data \<Rightarrow> read_json js data)"

subsection \<open>Computations\<close>

record computation_value =
  CVTimestamp :: time
  CVComputation :: computation

definition PutComputation where
  "PutComputation L js now db com =
     table_put L js db (computation_key (ComID com)) \<lparr>CVTimestamp = now, CVComputation = com\<rparr>"

definition DeleteComputation where
  "DeleteComputation L db i = table_delete L db (computation_key i)"

definition Computation_lookup where
  "Computation_lookup L js db i =
     ebind (table_get L js ErrComputationNotFound db (computation_key i)) (\<lambda>v. Inr (CVComputation v))"

definition Computations where
  "Computations L db = NewIterator L db (computation_key SomerComputationIterBegin) (computation_key SomerComputationIterEnd)"

definition computation_cursor where
  "computation_cursor js p = ebind (read_json js (snd p)) (\<lambda>v. Inr (CVComputation v))"

definition Computations_Collect where
  "Computations_Collect js it = iter_collect (computation_cursor js) it"

definition Computation_Prune where
  "Computation_Prune L js expiry now db = prune_loop L js CVTimestamp expiry now db (Ahead (Computations L db)) None"

subsection \<open>The order fragments of the matching engine\<close>

record somer_fragment_value =
  SVTimestamp :: time
  SVFragment :: fragment
  SVTrader :: string

definition PutBuyOrderFragment where
  "PutBuyOrderFragment L js now db epoch f trader =
     table_put L js db (buyKey (EpochHash epoch) (OrderID f)) \<lparr>SVTimestamp = now, SVFragment = f, SVTrader = trader\<rparr>"

definition DeleteBuyOrderFragment where
  "DeleteBuyOrderFragment L db epoch i = table_delete L db (buyKey (EpochHash epoch) i)"

definition BuyOrderFragment where
  "BuyOrderFragment L js db epoch i =
     ebind (table_get L js ErrOrderFragmentNotFound db (buyKey (EpochHash epoch) i)) (\<lambda>v. Inr (SVFragment v, SVTrader v))"

definition BuyOrderFragments where
  "BuyOrderFragments L db epoch = NewIterator L db (buyKey (EpochHash epoch) SomerBuyOrderFragmentIterBegin)
     (buyKey (EpochHash epoch) SomerBuyOrderFragmentIterEnd)"

definition PutSellOrderFragment where
  "PutSellOrderFragment L js now db epoch f trader =
     table_put L js db (sellKey (EpochHash epoch) (OrderID f)) \<lparr>SVTimestamp = now, SVFragment = f, SVTrader = trader\<rparr>"

definition DeleteSellOrderFragment where
  "DeleteSellOrderFragment L db epoch i = table_delete L db (sellKey (EpochHash epoch) i)"

definition SellOrderFragment where
  "SellOrderFragment L js db epoch i =
     ebind (table_get L js ErrOrderFragmentNotFound db (sellKey (EpochHash epoch) i)) (\<lambda>v. Inr (SVFragment v, SVTrader v))"

definition SellOrderFragments where
  "SellOrderFragments L db epoch = NewIterator L db (sellKey (EpochHash epoch) SomerSellOrderFragmentIterBegin)
     (sellKey (EpochHash epoch) SomerSellOrderFragmentIterEnd)"

definition somer_fragment_cursor where
  "somer_fragment_cursor js p = ebind (read_json js (snd p)) (\<lambda>v. Inr (SVFragment v, SVTrader v))"

definition SomerFragments_Collect where
  "SomerFragments_Collect js it = iter_collect (somer_fragment_cursor js) it"

definition SomerOrderFragment_Prune where
  "SomerOrderFragment_Prune L js expiry now db =
     (case prune_loop L js SVTimestamp expiry now db
         (Ahead (NewIterator L db (buyKey SomerBuyOrderFragmentIterBegin SomerBuyOrderFragmentIterBegin)
           (buyKey SomerBuyOrderFragmentIterEnd SomerBuyOrderFragmentIterEnd))) None of
        (db, err) \<Rightarrow>
          prune_loop L js SVTimestamp expiry now db
            (Ahead (NewIterator L db (sellKey SomerSellOrderFragmentIterBegin SomerSellOrderFragmentIterBegin)
              (sellKey SomerSellOrderFragmentIterEnd SomerSellOrderFragmentIterEnd))) err)"

subsection \<open>The store\<close>

text \<open>The table of computations is made without an expiry, which is zero then.\<close>

record codecs =
  order_json :: "order_value json"
  fragment_json :: "fragment_value json"
  pointer_json :: "int json"
  computation_json :: "computation_value json"
  somer_json :: "somer_fragment_value json"

definition Store_Prune :: "'db leveldb \<Rightarrow> codecs \<Rightarrow> int \<Rightarrow> (nat \<Rightarrow> time) \<Rightarrow> 'db \<Rightarrow> 'db \<times> store_error option" where
  "Store_Prune L C expiry now db =
     (case Order_Prune L (order_json C) expiry (now 0) db of (db, e1) \<Rightarrow>
      case OrderFragment_Prune L (fragment_json C) expiry (now 1) db of (db, e2) \<Rightarrow>
      case Computation_Prune L (computation_json C) 0 (now 2) db of (db, e3) \<Rightarrow>
      case SomerOrderFragment_Prune L (somer_json C) expiry (now 3) db of (db, e4) \<Rightarrow>
        (db, case e4 of Some _ \<Rightarrow> e4 | None \<Rightarrow> (case e3 of Some _ \<Rightarrow> e3 | None \<Rightarrow> (case e2 of Some _ \<Rightarrow> e2 | None \<Rightarrow> e1))))"

end
