(* ===== verification/Leveldb_Store.thy ===== *)
theory Leveldb_Store
  imports Leveldb
begin

section \<open>What the tables promise\<close>

text \<open>
  The contract of the database, the order of the keys of a table, and what follows for the tables:
  a value that was put is found, other identifiers and other tables are left alone, an iterator
  visits every entry of its table once, except one with the greatest identifier.
\<close>

subsection \<open>The order of keys\<close>

lemma lex_append_left: "p @ a < p @ b \<longleftrightarrow> a < b" "p @ a \<le> p @ b \<longleftrightarrow> a \<le> (b :: 'a::linorder list)"
  by (induction p) simp_all

lemma lex_append_right:
  fixes a b c :: "'a::linorder list"
  shows "length a = length b \<Longrightarrow> a @ c < b @ c \<longleftrightarrow> a < b"
  by (induction a b rule: list_induct2) simp_all

lemma lex_prefix:
  fixes p :: "'a::linorder list"
  shows "p @ lo \<le> x \<Longrightarrow> x < p @ hi \<Longrightarrow> \<exists>r. x = p @ r"
proof (induction p arbitrary: x)
  case (Cons c p)
  then obtain a y where "x = a # y" by (cases x) auto
  then show ?case using Cons by auto
qed simp

lemma lex_zeros: "replicate (length a) 0 \<le> (a :: bytes)"
  by (induction a) (auto simp: word_gt_0)

lemma byte_le_255: "(a :: u8) \<le> 255"
  using byte_lt [of a] unfolding word_le_nat_alt by (simp del: byte_lt)

lemma lex_ones: "length a = n \<Longrightarrow> a < replicate n 255 \<longleftrightarrow> (a :: bytes) \<noteq> replicate n 255"
proof (induction a arbitrary: n)
  case (Cons x a)
  have "x < 255 \<longleftrightarrow> x \<noteq> 255" using byte_le_255 [of x] by (auto simp: order_le_less)
  then show ?case using Cons by (cases n) auto
qed simp

subsection \<open>Keys of different tables and identifiers are different\<close>

lemmas key_defs = order_key_def fragment_key_def pointer_key_def computation_key_def buyKey_def sellKey_def paddingBytes_def
  OrderbookOrderTableBegin_def OrderbookOrderTablePadding_def OrderbookOrderFragmentTableBegin_def
  OrderbookOrderFragmentTablePadding_def OrderbookPointerTableBegin_def OrderbookPointerTablePadding_def
  SomerComputationTableBegin_def SomerComputationTablePadding_def SomerBuyOrderFragmentTableBegin_def
  SomerBuyOrderFragmentTablePadding_def SomerSellOrderFragmentTableBegin_def SomerSellOrderFragmentTablePadding_def

lemmas bound_defs = OrderbookOrderIterBegin_def OrderbookOrderIterEnd_def OrderbookOrderFragmentIterBegin_def
  OrderbookOrderFragmentIterEnd_def SomerComputationIterBegin_def SomerComputationIterEnd_def
  SomerBuyOrderFragmentIterBegin_def SomerBuyOrderFragmentIterEnd_def
  SomerSellOrderFragmentIterBegin_def SomerSellOrderFragmentIterEnd_def paddingBytes_def

lemma key_inj:
  "order_key i = order_key j \<longleftrightarrow> i = j" "computation_key i = computation_key j \<longleftrightarrow> i = j"
  "length e = length e' \<Longrightarrow> fragment_key e i = fragment_key e' j \<longleftrightarrow> e = e' \<and> i = j"
  "length e = length e' \<Longrightarrow> buyKey e i = buyKey e' j \<longleftrightarrow> e = e' \<and> i = j"
  "length e = length e' \<Longrightarrow> sellKey e i = sellKey e' j \<longleftrightarrow> e = e' \<and> i = j"
  by (simp_all add: key_defs)

lemma key_disjoint:
  "order_key i \<noteq> fragment_key e j" "order_key i \<noteq> pointer_key" "order_key i \<noteq> computation_key j"
  "order_key i \<noteq> buyKey e j" "order_key i \<noteq> sellKey e j" "fragment_key e i \<noteq> pointer_key"
  "fragment_key e i \<noteq> computation_key j" "fragment_key e i \<noteq> buyKey e' j" "fragment_key e i \<noteq> sellKey e' j"
  "pointer_key \<noteq> computation_key i" "pointer_key \<noteq> buyKey e i" "pointer_key \<noteq> sellKey e i"
  "computation_key i \<noteq> buyKey e j" "computation_key i \<noteq> sellKey e j" "buyKey e i \<noteq> sellKey e' j"
  by (simp_all add: key_defs)

lemmas keys_apart = key_disjoint key_disjoint [symmetric]

text \<open>The keys of all tables, and the ranges of the iterators among them.\<close>

definition table_keys :: "bytes set" where
  "table_keys = {pointer_key} \<union> {order_key i | i. length i = 32} \<union> {computation_key i | i. length i = 32} \<union>
     {fragment_key e i | e i. length e = 32 \<and> length i = 32} \<union> {buyKey e i | e i. length e = 32 \<and> length i = 32} \<union>
     {sellKey e i | e i. length e = 32 \<and> length i = 32}"

lemma table_keysI [simp, intro]:
  "pointer_key \<in> table_keys" "length i = 32 \<Longrightarrow> order_key i \<in> table_keys" "length i = 32 \<Longrightarrow> computation_key i \<in> table_keys"
  "length e = 32 \<Longrightarrow> length i = 32 \<Longrightarrow> fragment_key e i \<in> table_keys"
  "length e = 32 \<Longrightarrow> length i = 32 \<Longrightarrow> buyKey e i \<in> table_keys"
  "length e = 32 \<Longrightarrow> length i = 32 \<Longrightarrow> sellKey e i \<in> table_keys"
  unfolding table_keys_def by blast+

definition greatest_id :: bytes where
  "greatest_id = replicate 32 255"

lemma key_prefix:
  "take 2 (order_key i) = [1, 0]" "take 2 (fragment_key e i) = [2, 0]" "take 2 pointer_key = [3, 0]"
  "take 2 (computation_key i) = [16, 0]" "take 2 (buyKey e i) = [17, 0]" "take 2 (sellKey e i) = [18, 0]"
  by (simp_all add: key_defs)

lemma table_keys_prefix:
  assumes "x \<in> table_keys"
  shows "take 2 x = [1, 0] \<longleftrightarrow> (\<exists>i. length i = 32 \<and> x = order_key i)"
    "take 2 x = [16, 0] \<longleftrightarrow> (\<exists>i. length i = 32 \<and> x = computation_key i)"
    "take 2 x = [2, 0] \<longleftrightarrow> (\<exists>e i. length e = 32 \<and> length i = 32 \<and> x = fragment_key e i)"
    "take 2 x = [17, 0] \<longleftrightarrow> (\<exists>e i. length e = 32 \<and> length i = 32 \<and> x = buyKey e i)"
    "take 2 x = [18, 0] \<longleftrightarrow> (\<exists>e i. length e = 32 \<and> length i = 32 \<and> x = sellKey e i)"
  using assms unfolding table_keys_def by (auto simp: key_prefix keys_apart)

lemma between_bounds:
  assumes "length i = 32"
  shows "p @ replicate 32 0 @ q \<le> p @ i @ q \<and> p @ i @ q < p @ replicate 32 255 @ q \<longleftrightarrow> i \<noteq> (greatest_id :: bytes)"
proof -
  have "\<not> i < replicate 32 0" using lex_zeros [of i] assms by (simp add: not_less)
  then have "\<not> i @ q < replicate 32 0 @ q" using assms by (simp add: lex_append_right)
  moreover have "i @ q < replicate 32 255 @ q \<longleftrightarrow> i \<noteq> greatest_id"
    using assms lex_ones [OF assms] by (simp add: lex_append_right greatest_id_def)
  ultimately show ?thesis by (simp add: lex_append_left not_less)
qed

lemma prefix_between:
  fixes x :: bytes
  assumes "p @ lo \<le> x" "x < p @ hi"
  shows "take (length p) x = p"
  using lex_prefix [OF assms] by auto

lemma order_range:
  assumes "x \<in> table_keys"
  shows "order_key OrderbookOrderIterBegin \<le> x \<and> x < order_key OrderbookOrderIterEnd \<longleftrightarrow>
    (\<exists>i. length i = 32 \<and> i \<noteq> greatest_id \<and> x = order_key i)"
proof -
  have k: "order_key i = [1, 0] @ i @ replicate 32 0" for i by (simp add: key_defs)
  have b: "OrderbookOrderIterBegin = replicate 32 0" "OrderbookOrderIterEnd = replicate 32 255" by (simp_all add: bound_defs)
  show ?thesis
    using table_keys_prefix(1) [OF assms] prefix_between [of "[1, 0]" _ x] between_bounds [of _ "[1, 0]" "replicate 32 0"]
    unfolding k b by (metis length_Cons list.size(3) numeral_2_eq_2)
qed

lemma computation_range:
  assumes "x \<in> table_keys"
  shows "computation_key SomerComputationIterBegin \<le> x \<and> x < computation_key SomerComputationIterEnd \<longleftrightarrow>
    (\<exists>i. length i = 32 \<and> i \<noteq> greatest_id \<and> x = computation_key i)"
proof -
  have k: "computation_key i = [16, 0] @ i @ replicate 32 0" for i by (simp add: key_defs)
  have b: "SomerComputationIterBegin = replicate 32 0" "SomerComputationIterEnd = replicate 32 255" by (simp_all add: bound_defs)
  show ?thesis
    using table_keys_prefix(2) [OF assms] prefix_between [of "[16, 0]" _ x] between_bounds [of _ "[16, 0]" "replicate 32 0"]
    unfolding k b by (metis length_Cons list.size(3) numeral_2_eq_2)
qed

text \<open>The tables with an epoch in their keys: an iterator stays within one epoch.\<close>

lemma epoch_range:
  fixes x :: bytes
  assumes "take 2 x = [t, 0] \<longleftrightarrow> (\<exists>e i. length e = 32 \<and> length i = 32 \<and> x = ([t, 0] @ e) @ i @ [])" "length e = 32"
  shows "([t, 0] @ e) @ replicate 32 0 @ [] \<le> x \<and> x < ([t, 0] @ e) @ replicate 32 255 @ [] \<longleftrightarrow>
    (\<exists>i. length i = 32 \<and> i \<noteq> greatest_id \<and> x = ([t, 0] @ e) @ i @ [])" (is "?lo \<le> x \<and> x < ?hi \<longleftrightarrow> ?R")
proof
  assume r: "?lo \<le> x \<and> x < ?hi"
  then have p: "take (length ([t, 0] @ e)) x = [t, 0] @ e" using prefix_between by blast
  then have "take 2 x = [t, 0]" using take_take [of 2 "length ([t, 0] @ e)" x] by (simp add: numeral_2_eq_2)
  then obtain e' i where x: "length e' = 32" "length i = 32" "x = ([t, 0] @ e') @ i @ []" using assms(1) by blast
  then have "e' = e" using p assms(2) by simp
  then show ?R using x r between_bounds [OF x(2), of "[t, 0] @ e" "[]"] by blast
qed (use between_bounds in blast)

lemma fragment_range:
  assumes "x \<in> table_keys" "length e = 32"
  shows "fragment_key e OrderbookOrderFragmentIterBegin \<le> x \<and> x < fragment_key e OrderbookOrderFragmentIterEnd \<longleftrightarrow>
    (\<exists>i. length i = 32 \<and> i \<noteq> greatest_id \<and> x = fragment_key e i)"
proof -
  have k: "fragment_key e i = ([2, 0] @ e) @ i @ []" for e i by (simp add: key_defs)
  have b: "OrderbookOrderFragmentIterBegin = replicate 32 0" "OrderbookOrderFragmentIterEnd = replicate 32 255" by (simp_all add: bound_defs)
  show ?thesis unfolding k b using table_keys_prefix(3) [OF assms(1), unfolded k] by (rule epoch_range [OF _ assms(2)])
qed

lemma buy_range:
  assumes "x \<in> table_keys" "length e = 32"
  shows "buyKey e SomerBuyOrderFragmentIterBegin \<le> x \<and> x < buyKey e SomerBuyOrderFragmentIterEnd \<longleftrightarrow>
    (\<exists>i. length i = 32 \<and> i \<noteq> greatest_id \<and> x = buyKey e i)"
proof -
  have k: "buyKey e i = ([17, 0] @ e) @ i @ []" for e i by (simp add: key_defs)
  have b: "SomerBuyOrderFragmentIterBegin = replicate 32 0" "SomerBuyOrderFragmentIterEnd = replicate 32 255" by (simp_all add: bound_defs)
  show ?thesis unfolding k b using table_keys_prefix(4) [OF assms(1), unfolded k] by (rule epoch_range [OF _ assms(2)])
qed

lemma sell_range:
  assumes "x \<in> table_keys" "length e = 32"
  shows "sellKey e SomerSellOrderFragmentIterBegin \<le> x \<and> x < sellKey e SomerSellOrderFragmentIterEnd \<longleftrightarrow>
    (\<exists>i. length i = 32 \<and> i \<noteq> greatest_id \<and> x = sellKey e i)"
proof -
  have k: "sellKey e i = ([18, 0] @ e) @ i @ []" for e i by (simp add: key_defs)
  have b: "SomerSellOrderFragmentIterBegin = replicate 32 0" "SomerSellOrderFragmentIterEnd = replicate 32 255" by (simp_all add: bound_defs)
  show ?thesis unfolding k b using table_keys_prefix(5) [OF assms(1), unfolded k] by (rule epoch_range [OF _ assms(2)])
qed

subsection \<open>Iterators\<close>

lemma iter_results_map: "iter_results f it = map f (Ahead it)"
proof (induction f it rule: iter_results.induct)
  case (1 f it)
  show ?case
  proof (cases "Ahead it")
    case Nil
    then show ?thesis by (simp add: iter_results.simps [of f it] iter_next_def)
  next
    case (Cons p ps)
    have "iter_cursor f (it\<lparr>Ahead := ps, Here := Some p\<rparr>) = f p"
      by (cases "f p") (simp_all add: iter_cursor_def iter_error_def)
    then show ?thesis using 1 Cons by (simp add: iter_results.simps [of f it] iter_next_def)
  qed
qed

lemma iter_collect_map:
  assumes "map f (Ahead it) = map Inr xs"
  shows "iter_collect f it = (xs, map_option ErrDb (Fault it))"
  using assms
proof (induction f it arbitrary: xs rule: iter_collect.induct)
  case (1 f it)
  show ?case
  proof (cases "Ahead it")
    case Nil
    then show ?thesis using 1(2) by (simp add: iter_collect.simps [of f it] iter_next_def iter_error_def)
  next
    case (Cons p ps)
    then obtain x ys where xs: "xs = x # ys" "f p = Inr x" "map f ps = map Inr ys" using 1(2) by auto
    have c: "iter_cursor f (it\<lparr>Ahead := ps, Here := Some p\<rparr>) = Inr x"
      using xs(2) by (simp add: iter_cursor_def iter_error_def)
    then have "iter_collect f (it\<lparr>Ahead := ps, Here := Some p\<rparr>) = (ys, map_option ErrDb (Fault it))"
      using 1(1) [of x ys] Cons xs(3) by (simp add: iter_next_def)
    then show ?thesis using c Cons by (simp add: iter_collect.simps [of f it] iter_next_def xs(1))
  qed
qed

subsection \<open>The contract of the database\<close>

text \<open>\<open>content db\<close> is what the database holds. A read or a write that fails says nothing about its key
  and leaves the others alone.\<close>

locale leveldb_contract =
  fixes L :: "'db leveldb" and content :: "'db \<Rightarrow> bytes \<Rightarrow> bytes option"
  assumes get_found: "db_get L db k = Inr v \<Longrightarrow> content db k = Some v"
    and get_missing: "db_get L db k = Inl ErrNotFound \<Longrightarrow> content db k = None"
    and put_done: "db_put L db k v = (db', None) \<Longrightarrow> content db' = (content db)(k \<mapsto> v)"
    and put_other: "db_put L db k v = (db', e) \<Longrightarrow> k' \<noteq> k \<Longrightarrow> content db' k' = content db k'"
    and delete_done: "db_delete L db k = (db', None) \<Longrightarrow> content db' = (content db)(k := None)"
    and delete_other: "db_delete L db k = (db', e) \<Longrightarrow> k' \<noteq> k \<Longrightarrow> content db' k' = content db k'"
    and put_failed: "db_put L db k v = (db', Some err) \<Longrightarrow> content db' k = content db k \<or> content db' k = Some v"
    and delete_failed: "db_delete L db k = (db', Some err) \<Longrightarrow> content db' k = content db k \<or> content db' k = None"
    and range_done: "db_range L db lo hi = (ps, None) \<Longrightarrow>
      distinct (map fst ps) \<and> set ps = {(k, v). content db k = Some v \<and> lo \<le> k \<and> k < hi}"

definition json_ok :: "'v json \<Rightarrow> bool" where
  "json_ok js \<longleftrightarrow> (\<forall>v. \<exists>data. to_json js v = Inr data \<and> of_json js data = Inr v)"

text \<open>What a table sees of the content.\<close>

definition view :: "'v json \<Rightarrow> (bytes \<Rightarrow> bytes option) \<Rightarrow> bytes \<Rightarrow> 'v option" where
  "view js c k = (case c k of None \<Rightarrow> None | Some data \<Rightarrow> (case of_json js data of Inl _ \<Rightarrow> None | Inr v \<Rightarrow> Some v))"

context leveldb_contract
begin

lemma table_put_done:
  assumes "json_ok js" "table_put L js db k v = (db', None)"
  shows "view js (content db') = (view js (content db))(k \<mapsto> v)"
proof -
  obtain data where d: "to_json js v = Inr data" "of_json js data = Inr v" using assms(1) unfolding json_ok_def by blast
  then have "db_put L db k data = (db', None)" using assms(2) by (auto simp: table_put_def split: prod.splits)
  from put_done [OF this] show ?thesis using d(2) by (auto simp: view_def fun_eq_iff)
qed

lemma table_put_other:
  assumes "table_put L js db k v = (db', e)" "k' \<noteq> k"
  shows "content db' k' = content db k'"
  using assms put_other by (auto simp: table_put_def split: sum.splits prod.splits)

lemma table_delete_done: "table_delete L db k = (db', None) \<Longrightarrow> content db' = (content db)(k := None)"
  using delete_done by (auto simp: table_delete_def split: prod.splits)

lemma table_delete_other: "table_delete L db k = (db', e) \<Longrightarrow> k' \<noteq> k \<Longrightarrow> content db' k' = content db k'"
  using delete_other by (auto simp: table_delete_def split: prod.splits)

lemma table_get_found: "table_get L js nf db k = Inr v \<Longrightarrow> view js (content db) k = Some v"
  using get_found by (auto simp: table_get_def view_def split: sum.splits)

lemma table_get_missing:
  "table_get L js nf db k = Inl nf \<Longrightarrow> (\<And>e. nf \<noteq> ErrDb e) \<Longrightarrow> (\<And>e. nf \<noteq> ErrJson e) \<Longrightarrow> view js (content db) k = None"
  using get_missing by (auto simp: table_get_def view_def split: sum.splits if_splits)

end

subsection \<open>The tables over the contract\<close>

locale leveldb_tables = leveldb_contract +
  fixes C :: codecs
  assumes codecs: "json_ok (order_json C)" "json_ok (fragment_json C)" "json_ok (pointer_json C)"
    "json_ok (computation_json C)" "json_ok (somer_json C)"

text \<open>What each table holds, by epoch and identifier.\<close>

definition orders_of :: "codecs \<Rightarrow> (bytes \<Rightarrow> bytes option) \<Rightarrow> order_id \<Rightarrow> (status \<times> string) option" where
  "orders_of C c i = map_option (\<lambda>v. (OVStatus v, OVTrader v)) (view (order_json C) c (order_key i))"

definition fragments_in :: "codecs \<Rightarrow> (bytes \<Rightarrow> bytes option) \<Rightarrow> bytes \<Rightarrow> order_id \<Rightarrow> fragment option" where
  "fragments_in C c h i = (if length h = 32 then map_option FVFragment (view (fragment_json C) c (fragment_key h i)) else None)"

definition computations_of :: "codecs \<Rightarrow> (bytes \<Rightarrow> bytes option) \<Rightarrow> computation_id \<Rightarrow> computation option" where
  "computations_of C c i = map_option CVComputation (view (computation_json C) c (computation_key i))"

definition buys_in :: "codecs \<Rightarrow> (bytes \<Rightarrow> bytes option) \<Rightarrow> bytes \<Rightarrow> order_id \<Rightarrow> (fragment \<times> string) option" where
  "buys_in C c h i = (if length h = 32 then map_option (\<lambda>v. (SVFragment v, SVTrader v)) (view (somer_json C) c (buyKey h i)) else None)"

definition sells_in :: "codecs \<Rightarrow> (bytes \<Rightarrow> bytes option) \<Rightarrow> bytes \<Rightarrow> order_id \<Rightarrow> (fragment \<times> string) option" where
  "sells_in C c h i = (if length h = 32 then map_option (\<lambda>v. (SVFragment v, SVTrader v)) (view (somer_json C) c (sellKey h i)) else None)"

definition pointer_of :: "codecs \<Rightarrow> (bytes \<Rightarrow> bytes option) \<Rightarrow> int" where
  "pointer_of C c = (case view (pointer_json C) c pointer_key of None \<Rightarrow> 0 | Some p \<Rightarrow> p)"

lemmas table_views = orders_of_def fragments_in_def computations_of_def buys_in_def sells_in_def pointer_of_def

lemma view_cong: "c k = d k \<Longrightarrow> view js c k = view js d k"
  by (simp add: view_def)

lemma view_delete: "view js (c(k := None)) = (view js c)(k := None)"
  by (auto simp: view_def fun_eq_iff)

text \<open>A change at a key of one table is not seen by the others.\<close>

lemma views_apart:
  "(\<And>i. c (order_key i) = d (order_key i)) \<Longrightarrow> orders_of C c = orders_of C d"
  "(\<And>e i. c (fragment_key e i) = d (fragment_key e i)) \<Longrightarrow> fragments_in C c = fragments_in C d"
  "(\<And>i. c (computation_key i) = d (computation_key i)) \<Longrightarrow> computations_of C c = computations_of C d"
  "(\<And>e i. c (buyKey e i) = d (buyKey e i)) \<Longrightarrow> buys_in C c = buys_in C d"
  "(\<And>e i. c (sellKey e i) = d (sellKey e i)) \<Longrightarrow> sells_in C c = sells_in C d"
  "c pointer_key = d pointer_key \<Longrightarrow> pointer_of C c = pointer_of C d"
  by (auto simp: table_views view_def fun_eq_iff)

text \<open>Every key is one of a table, and its data decodes to a value with the identifier of the key.\<close>

definition entry_ok :: "codecs \<Rightarrow> bytes \<Rightarrow> bytes \<Rightarrow> bool" where
  "entry_ok C k d \<longleftrightarrow> (k = pointer_key \<and> (\<exists>p. of_json (pointer_json C) d = Inr p)) \<or>
     (\<exists>i v. length i = 32 \<and> k = order_key i \<and> of_json (order_json C) d = Inr v) \<or>
     (\<exists>v. length (ComID (CVComputation v)) = 32 \<and> k = computation_key (ComID (CVComputation v)) \<and> of_json (computation_json C) d = Inr v) \<or>
     (\<exists>h v. length h = 32 \<and> length (OrderID (FVFragment v)) = 32 \<and> k = fragment_key h (OrderID (FVFragment v)) \<and> of_json (fragment_json C) d = Inr v) \<or>
     (\<exists>h v. length h = 32 \<and> length (OrderID (SVFragment v)) = 32 \<and> (k = buyKey h (OrderID (SVFragment v)) \<or> k = sellKey h (OrderID (SVFragment v))) \<and>
        of_json (somer_json C) d = Inr v)"

definition content_ok :: "codecs \<Rightarrow> (bytes \<Rightarrow> bytes option) \<Rightarrow> bool" where
  "content_ok C c \<longleftrightarrow> (\<forall>k d. c k = Some d \<longrightarrow> entry_ok C k d)"

lemma entry_ok_keys: "entry_ok C k d \<Longrightarrow> k \<in> table_keys"
  by (auto simp: entry_ok_def)

lemma entry_ok_cases:
  "entry_ok C (order_key i) d \<Longrightarrow> length i = 32 \<and> (\<exists>v. of_json (order_json C) d = Inr v)"
  "entry_ok C (computation_key i) d \<Longrightarrow> length i = 32 \<and> (\<exists>v. ComID (CVComputation v) = i \<and> of_json (computation_json C) d = Inr v)"
  "length h = 32 \<Longrightarrow> entry_ok C (fragment_key h i) d \<Longrightarrow> length i = 32 \<and> (\<exists>v. OrderID (FVFragment v) = i \<and> of_json (fragment_json C) d = Inr v)"
  "length h = 32 \<Longrightarrow> entry_ok C (buyKey h i) d \<Longrightarrow> length i = 32 \<and> (\<exists>v. OrderID (SVFragment v) = i \<and> of_json (somer_json C) d = Inr v)"
  "length h = 32 \<Longrightarrow> entry_ok C (sellKey h i) d \<Longrightarrow> length i = 32 \<and> (\<exists>v. OrderID (SVFragment v) = i \<and> of_json (somer_json C) d = Inr v)"
  unfolding entry_ok_def by (auto simp: keys_apart key_inj)

context leveldb_tables
begin

abbreviation "orders db \<equiv> orders_of C (content db)"
abbreviation "frags db \<equiv> fragments_in C (content db)"
abbreviation "coms db \<equiv> computations_of C (content db)"
abbreviation "buys db \<equiv> buys_in C (content db)"
abbreviation "sells db \<equiv> sells_in C (content db)"

lemma PutOrder_done:
  assumes "PutOrder L (order_json C) now db i st tr = (db', None)"
  shows "orders db' = (orders db)(i \<mapsto> (st, tr))"
  using table_put_done [OF codecs(1) assms [unfolded PutOrder_def]]
  by (auto simp: orders_of_def fun_eq_iff key_inj)

lemma PutOrder_other:
  assumes "PutOrder L js now db i st tr = (db', e)"
  shows "frags db' = frags db" "coms db' = coms db" "buys db' = buys db" "sells db' = sells db" "pointer_of C (content db') = pointer_of C (content db)"
    "j \<noteq> i \<Longrightarrow> orders db' j = orders db j"
  using table_put_other [OF assms [unfolded PutOrder_def]]
  by (auto intro!: views_apart simp: keys_apart orders_of_def view_def key_inj)

lemma DeleteOrder_done:
  assumes "DeleteOrder L db i = (db', None)"
  shows "orders db' = (orders db)(i := None)"
  using table_delete_done [OF assms [unfolded DeleteOrder_def]]
  by (auto simp: orders_of_def view_def fun_eq_iff key_inj)

lemma DeleteOrder_other:
  assumes "DeleteOrder L db i = (db', e)"
  shows "frags db' = frags db" "coms db' = coms db" "buys db' = buys db" "sells db' = sells db" "pointer_of C (content db') = pointer_of C (content db)"
    "j \<noteq> i \<Longrightarrow> orders db' j = orders db j"
  using table_delete_other [OF assms [unfolded DeleteOrder_def]]
  by (auto intro!: views_apart simp: keys_apart orders_of_def view_def key_inj)

lemma Order_lookup_found: "Order_lookup L (order_json C) db i = Inr x \<Longrightarrow> orders db i = Some x"
  using table_get_found by (fastforce simp: Order_lookup_def ebind_eq_Inr orders_of_def)

lemma Order_lookup_missing: "Order_lookup L (order_json C) db i = Inl ErrOrderNotFound \<Longrightarrow> orders db i = None"
  using table_get_missing by (fastforce simp: Order_lookup_def ebind_eq_Inl orders_of_def)

lemma PutOrderFragment_done:
  assumes "length (EpochHash epoch) = 32" "PutOrderFragment L (fragment_json C) now db epoch f = (db', None)"
  shows "frags db' = (frags db)(EpochHash epoch := (frags db (EpochHash epoch))(OrderID f \<mapsto> f))"
  using assms(1) table_put_done [OF codecs(2) assms(2) [unfolded PutOrderFragment_def]]
  by (auto simp: fragments_in_def fun_eq_iff key_inj)

lemma PutOrderFragment_other:
  assumes "PutOrderFragment L js now db epoch f = (db', e)"
  shows "orders db' = orders db" "coms db' = coms db" "buys db' = buys db" "sells db' = sells db" "pointer_of C (content db') = pointer_of C (content db)"
  using table_put_other [OF assms [unfolded PutOrderFragment_def]] by (auto intro!: views_apart simp: keys_apart)

lemma DeleteOrderFragment_done:
  assumes "length (EpochHash epoch) = 32" "DeleteOrderFragment L db epoch i = (db', None)"
  shows "frags db' = (frags db)(EpochHash epoch := (frags db (EpochHash epoch))(i := None))"
  using assms(1) table_delete_done [OF assms(2) [unfolded DeleteOrderFragment_def]]
  by (auto simp: fragments_in_def view_def fun_eq_iff key_inj)

lemma DeleteOrderFragment_other:
  assumes "DeleteOrderFragment L db epoch i = (db', e)"
  shows "orders db' = orders db" "coms db' = coms db" "buys db' = buys db" "sells db' = sells db" "pointer_of C (content db') = pointer_of C (content db)"
  using table_delete_other [OF assms [unfolded DeleteOrderFragment_def]] by (auto intro!: views_apart simp: keys_apart)

lemma OrderFragment_lookup_found: "length (EpochHash epoch) = 32 \<Longrightarrow> OrderFragment_lookup L (fragment_json C) db epoch i = Inr x \<Longrightarrow> frags db (EpochHash epoch) i = Some x"
  using table_get_found by (fastforce simp: OrderFragment_lookup_def ebind_eq_Inr fragments_in_def)

lemma OrderFragment_lookup_missing: "OrderFragment_lookup L (fragment_json C) db epoch i = Inl ErrOrderFragmentNotFound \<Longrightarrow> frags db (EpochHash epoch) i = None"
  using table_get_missing by (fastforce simp: OrderFragment_lookup_def ebind_eq_Inl fragments_in_def)

lemma PutComputation_done:
  assumes "PutComputation L (computation_json C) now db com = (db', None)"
  shows "coms db' = (coms db)(ComID com \<mapsto> com)"
  using table_put_done [OF codecs(4) assms(1) [unfolded PutComputation_def]]
  by (auto simp: computations_of_def fun_eq_iff key_inj)

lemma PutComputation_other:
  assumes "PutComputation L js now db com = (db', e)"
  shows "orders db' = orders db" "frags db' = frags db" "buys db' = buys db" "sells db' = sells db" "pointer_of C (content db') = pointer_of C (content db)"
  using table_put_other [OF assms [unfolded PutComputation_def]] by (auto intro!: views_apart simp: keys_apart)

lemma DeleteComputation_done:
  assumes "DeleteComputation L db i = (db', None)"
  shows "coms db' = (coms db)(i := None)"
  using table_delete_done [OF assms(1) [unfolded DeleteComputation_def]]
  by (auto simp: computations_of_def view_def fun_eq_iff key_inj)

lemma DeleteComputation_other:
  assumes "DeleteComputation L db i = (db', e)"
  shows "orders db' = orders db" "frags db' = frags db" "buys db' = buys db" "sells db' = sells db" "pointer_of C (content db') = pointer_of C (content db)"
  using table_delete_other [OF assms [unfolded DeleteComputation_def]] by (auto intro!: views_apart simp: keys_apart)

lemma Computation_lookup_found: "Computation_lookup L (computation_json C) db i = Inr x \<Longrightarrow> coms db i = Some x"
  using table_get_found by (fastforce simp: Computation_lookup_def ebind_eq_Inr computations_of_def)

lemma Computation_lookup_missing: "Computation_lookup L (computation_json C) db i = Inl ErrComputationNotFound \<Longrightarrow> coms db i = None"
  using table_get_missing by (fastforce simp: Computation_lookup_def ebind_eq_Inl computations_of_def)

lemma PutBuyOrderFragment_done:
  assumes "length (EpochHash epoch) = 32" "PutBuyOrderFragment L (somer_json C) now db epoch f tr = (db', None)"
  shows "buys db' = (buys db)(EpochHash epoch := (buys db (EpochHash epoch))(OrderID f \<mapsto> (f, tr)))"
  using assms(1) table_put_done [OF codecs(5) assms(2) [unfolded PutBuyOrderFragment_def]]
  by (auto simp: buys_in_def fun_eq_iff key_inj)

lemma PutBuyOrderFragment_other:
  assumes "PutBuyOrderFragment L js now db epoch f tr = (db', e)"
  shows "orders db' = orders db" "frags db' = frags db" "coms db' = coms db" "sells db' = sells db" "pointer_of C (content db') = pointer_of C (content db)"
  using table_put_other [OF assms [unfolded PutBuyOrderFragment_def]] by (auto intro!: views_apart simp: keys_apart)

lemma DeleteBuyOrderFragment_done:
  assumes "length (EpochHash epoch) = 32" "DeleteBuyOrderFragment L db epoch i = (db', None)"
  shows "buys db' = (buys db)(EpochHash epoch := (buys db (EpochHash epoch))(i := None))"
  using assms(1) table_delete_done [OF assms(2) [unfolded DeleteBuyOrderFragment_def]]
  by (auto simp: buys_in_def view_def fun_eq_iff key_inj)

lemma DeleteBuyOrderFragment_other:
  assumes "DeleteBuyOrderFragment L db epoch i = (db', e)"
  shows "orders db' = orders db" "frags db' = frags db" "coms db' = coms db" "sells db' = sells db" "pointer_of C (content db') = pointer_of C (content db)"
  using table_delete_other [OF assms [unfolded DeleteBuyOrderFragment_def]] by (auto intro!: views_apart simp: keys_apart)

lemma BuyOrderFragment_found: "length (EpochHash epoch) = 32 \<Longrightarrow> BuyOrderFragment L (somer_json C) db epoch i = Inr x \<Longrightarrow> buys db (EpochHash epoch) i = Some x"
  using table_get_found by (fastforce simp: BuyOrderFragment_def ebind_eq_Inr buys_in_def)

lemma BuyOrderFragment_missing: "BuyOrderFragment L (somer_json C) db epoch i = Inl ErrOrderFragmentNotFound \<Longrightarrow> buys db (EpochHash epoch) i = None"
  using table_get_missing by (fastforce simp: BuyOrderFragment_def ebind_eq_Inl buys_in_def)

lemma PutSellOrderFragment_done:
  assumes "length (EpochHash epoch) = 32" "PutSellOrderFragment L (somer_json C) now db epoch f tr = (db', None)"
  shows "sells db' = (sells db)(EpochHash epoch := (sells db (EpochHash epoch))(OrderID f \<mapsto> (f, tr)))"
  using assms(1) table_put_done [OF codecs(5) assms(2) [unfolded PutSellOrderFragment_def]]
  by (auto simp: sells_in_def fun_eq_iff key_inj)

lemma PutSellOrderFragment_other:
  assumes "PutSellOrderFragment L js now db epoch f tr = (db', e)"
  shows "orders db' = orders db" "frags db' = frags db" "coms db' = coms db" "buys db' = buys db" "pointer_of C (content db') = pointer_of C (content db)"
  using table_put_other [OF assms [unfolded PutSellOrderFragment_def]] by (auto intro!: views_apart simp: keys_apart)

lemma DeleteSellOrderFragment_done:
  assumes "length (EpochHash epoch) = 32" "DeleteSellOrderFragment L db epoch i = (db', None)"
  shows "sells db' = (sells db)(EpochHash epoch := (sells db (EpochHash epoch))(i := None))"
  using assms(1) table_delete_done [OF assms(2) [unfolded DeleteSellOrderFragment_def]]
  by (auto simp: sells_in_def view_def fun_eq_iff key_inj)

lemma DeleteSellOrderFragment_other:
  assumes "DeleteSellOrderFragment L db epoch i = (db', e)"
  shows "orders db' = orders db" "frags db' = frags db" "coms db' = coms db" "buys db' = buys db" "pointer_of C (content db') = pointer_of C (content db)"
  using table_delete_other [OF assms [unfolded DeleteSellOrderFragment_def]] by (auto intro!: views_apart simp: keys_apart)

lemma SellOrderFragment_found: "length (EpochHash epoch) = 32 \<Longrightarrow> SellOrderFragment L (somer_json C) db epoch i = Inr x \<Longrightarrow> sells db (EpochHash epoch) i = Some x"
  using table_get_found by (fastforce simp: SellOrderFragment_def ebind_eq_Inr sells_in_def)

lemma SellOrderFragment_missing: "SellOrderFragment L (somer_json C) db epoch i = Inl ErrOrderFragmentNotFound \<Longrightarrow> sells db (EpochHash epoch) i = None"
  using table_get_missing by (fastforce simp: SellOrderFragment_def ebind_eq_Inl sells_in_def)

lemma PutPointer_done: "PutPointer L (pointer_json C) db p = (db', None) \<Longrightarrow> pointer_of C (content db') = p"
  using table_put_done [OF codecs(3)] by (simp add: PutPointer_def pointer_of_def)

lemma PutPointer_other:
  assumes "PutPointer L js db p = (db', e)"
  shows "orders db' = orders db" "frags db' = frags db" "coms db' = coms db" "buys db' = buys db" "sells db' = sells db"
  using table_put_other [OF assms [unfolded PutPointer_def]] by (auto intro!: views_apart simp: keys_apart)

text \<open>Every operation keeps the invariant, whether it fails or not.\<close>

lemma table_put_ok:
  assumes "content_ok C (content db)" "table_put L js db k v = (db', e)" "json_ok js"
    and "\<And>d. of_json js d = Inr v \<Longrightarrow> entry_ok C k d"
  shows "content_ok C (content db')"
proof -
  obtain d where d: "to_json js v = Inr d" "of_json js d = Inr v" using assms(3) unfolding json_ok_def by blast
  obtain e' where p: "db_put L db k d = (db', e')" using assms(2) d(1) by (auto simp: table_put_def split: prod.splits)
  have "content db' k = content db k \<or> content db' k = Some d"
    using put_done put_failed p by (cases e') auto
  moreover have "k' \<noteq> k \<Longrightarrow> content db' k' = content db k'" for k' using put_other [OF p] .
  ultimately show ?thesis using assms(1) assms(4) [OF d(2)] unfolding content_ok_def by (metis option.inject)
qed

lemma table_delete_ok:
  assumes "content_ok C (content db)" "table_delete L db k = (db', e)"
  shows "content_ok C (content db')"
proof -
  obtain e' where p: "db_delete L db k = (db', e')" using assms(2) by (auto simp: table_delete_def split: prod.splits)
  have "content db' k = content db k \<or> content db' k = None"
    using delete_done delete_failed p by (cases e') auto
  moreover have "k' \<noteq> k \<Longrightarrow> content db' k' = content db k'" for k' using delete_other [OF p] .
  ultimately show ?thesis using assms(1) unfolding content_ok_def by (metis option.distinct(1))
qed

lemma PutOrder_ok: "content_ok C (content db) \<Longrightarrow> length i = 32 \<Longrightarrow>
    PutOrder L (order_json C) now db i st tr = (db', e) \<Longrightarrow> content_ok C (content db')"
  unfolding PutOrder_def by (erule table_put_ok) (auto simp: codecs entry_ok_def)

lemma PutOrderFragment_ok: "content_ok C (content db) \<Longrightarrow> length (EpochHash epoch) = 32 \<Longrightarrow> length (OrderID f) = 32 \<Longrightarrow>
    PutOrderFragment L (fragment_json C) now db epoch f = (db', e) \<Longrightarrow> content_ok C (content db')"
  unfolding PutOrderFragment_def by (erule table_put_ok) (auto simp: codecs entry_ok_def intro!: exI [of _ "EpochHash epoch"])

lemma PutComputation_ok: "content_ok C (content db) \<Longrightarrow> length (ComID com) = 32 \<Longrightarrow>
    PutComputation L (computation_json C) now db com = (db', e) \<Longrightarrow> content_ok C (content db')"
  unfolding PutComputation_def by (erule table_put_ok) (auto simp: codecs entry_ok_def)

lemma PutPointer_ok: "content_ok C (content db) \<Longrightarrow>
    PutPointer L (pointer_json C) db p = (db', e) \<Longrightarrow> content_ok C (content db')"
  unfolding PutPointer_def by (erule table_put_ok) (auto simp: codecs entry_ok_def)

lemma PutBuyOrderFragment_ok: "content_ok C (content db) \<Longrightarrow> length (EpochHash epoch) = 32 \<Longrightarrow> length (OrderID f) = 32 \<Longrightarrow>
    PutBuyOrderFragment L (somer_json C) now db epoch f tr = (db', e) \<Longrightarrow> content_ok C (content db')"
  unfolding PutBuyOrderFragment_def by (erule table_put_ok) (auto simp: codecs entry_ok_def intro!: exI [of _ "EpochHash epoch"])

lemma PutSellOrderFragment_ok: "content_ok C (content db) \<Longrightarrow> length (EpochHash epoch) = 32 \<Longrightarrow> length (OrderID f) = 32 \<Longrightarrow>
    PutSellOrderFragment L (somer_json C) now db epoch f tr = (db', e) \<Longrightarrow> content_ok C (content db')"
  unfolding PutSellOrderFragment_def by (erule table_put_ok) (auto simp: codecs entry_ok_def intro!: exI [of _ "EpochHash epoch"])

lemma deletes_ok:
  "content_ok C (content db) \<Longrightarrow> DeleteOrder L db i = (db', e) \<Longrightarrow> content_ok C (content db')"
  "content_ok C (content db) \<Longrightarrow> DeleteOrderFragment L db epoch i = (db', e) \<Longrightarrow> content_ok C (content db')"
  "content_ok C (content db) \<Longrightarrow> DeleteComputation L db i = (db', e) \<Longrightarrow> content_ok C (content db')"
  "content_ok C (content db) \<Longrightarrow> DeleteBuyOrderFragment L db epoch i = (db', e) \<Longrightarrow> content_ok C (content db')"
  "content_ok C (content db) \<Longrightarrow> DeleteSellOrderFragment L db epoch i = (db', e) \<Longrightarrow> content_ok C (content db')"
  unfolding DeleteOrder_def DeleteOrderFragment_def DeleteComputation_def DeleteBuyOrderFragment_def DeleteSellOrderFragment_def
  by (blast intro: table_delete_ok)+

text \<open>An iterator that ends without an error visits every entry of its table once, but the one with the
  greatest identifier.\<close>

lemma iterate_table:
  assumes ok: "content_ok C (content db)" and end_: "Fault (NewIterator L db lo hi) = None"
    and range: "\<And>x. x \<in> table_keys \<Longrightarrow> lo \<le> x \<and> x < hi \<longleftrightarrow> (\<exists>i. length i = 32 \<and> i \<noteq> greatest_id \<and> x = key i)"
    and read: "\<And>i d. content db (key i) = Some d \<Longrightarrow> length i = 32 \<and> (\<exists>x. f (key i, d) = Inr x \<and> w i = Some x \<and> idf x = i)"
    and none: "\<And>i. content db (key i) = None \<Longrightarrow> w i = None"
  shows "\<exists>xs. map f (Ahead (NewIterator L db lo hi)) = map Inr xs \<and> distinct (map idf xs) \<and>
    (\<forall>x. x \<in> set xs \<longleftrightarrow> idf x \<noteq> greatest_id \<and> w (idf x) = Some x)"
proof -
  let ?ps = "Ahead (NewIterator L db lo hi)"
  have "db_range L db lo hi = (?ps, None)" using end_ by (simp add: NewIterator_def split: prod.splits)
  from range_done [OF this] have ps: "distinct (map fst ?ps)" "set ?ps = {(k, v). content db k = Some v \<and> lo \<le> k \<and> k < hi}"
    by auto
  have key: "\<exists>i x. i \<noteq> greatest_id \<and> p = (key i, snd p) \<and> content db (key i) = Some (snd p) \<and> f p = Inr x \<and> w i = Some x \<and> idf x = i"
    if "p \<in> set ?ps" for p
  proof -
    have c: "content db (fst p) = Some (snd p)" "lo \<le> fst p \<and> fst p < hi" using that ps(2) by auto
    then have "fst p \<in> table_keys" using ok entry_ok_keys unfolding content_ok_def by blast
    then obtain i where i: "i \<noteq> greatest_id" "fst p = key i" using range c(2) by blast
    then have "p = (key i, snd p)" by (metis prod.collapse)
    then show ?thesis using read [of i "snd p"] c(1) i by metis
  qed
  define g where "g p = (case f p of Inr x \<Rightarrow> x | Inl e \<Rightarrow> undefined)" for p
  have f: "f p = Inr (g p)" if "p \<in> set ?ps" for p using key [OF that] by (auto simp: g_def)
  have fst: "fst p = key (idf (g p))" "idf (g p) \<noteq> greatest_id" "w (idf (g p)) = Some (g p)" if "p \<in> set ?ps" for p
    using key [OF that] f [OF that] by (metis fst_conv sum.inject(2), metis sum.inject(2), metis sum.inject(2))
  have "inj_on (\<lambda>p. idf (g p)) (set ?ps)"
    using fst(1) ps(1) by (intro inj_onI) (metis distinct_map inj_on_def)
  then have "distinct (map idf (map g ?ps))" using ps(1) by (simp add: distinct_map comp_def)
  moreover have "x \<in> set (map g ?ps) \<longleftrightarrow> idf x \<noteq> greatest_id \<and> w (idf x) = Some x" for x
  proof
    assume x: "idf x \<noteq> greatest_id \<and> w (idf x) = Some x"
    then obtain d where d: "content db (key (idf x)) = Some d" using none [of "idf x"] by (cases "content db (key (idf x))") auto
    have "length (idf x) = 32" "f (key (idf x), d) = Inr x" using read [OF d] x by auto
    moreover have "key (idf x) \<in> table_keys" using ok entry_ok_keys d unfolding content_ok_def by blast
    ultimately have m: "(key (idf x), d) \<in> set ?ps" using ps(2) range [of "key (idf x)"] x d by blast
    then show "x \<in> set (map g ?ps)" using f [OF m] \<open>f (key (idf x), d) = Inr x\<close> by force
  qed (use fst(2,3) in auto)
  ultimately show ?thesis using f by (intro exI [of _ "map g ?ps"]) (auto simp: comp_def)
qed

lemma BuyOrderFragments_iterate:
  assumes ok: "content_ok C (content db)" and h: "length (EpochHash epoch) = 32" and e: "Fault (BuyOrderFragments L db epoch) = None"
  shows "\<exists>xs. iter_results (somer_fragment_cursor (somer_json C)) (BuyOrderFragments L db epoch) = map Inr xs \<and>
    distinct (map (\<lambda>x. OrderID (fst x)) xs) \<and>
    (\<forall>x. x \<in> set xs \<longleftrightarrow> OrderID (fst x) \<noteq> greatest_id \<and> buys db (EpochHash epoch) (OrderID (fst x)) = Some x)"
  unfolding iter_results_map BuyOrderFragments_def
proof (rule iterate_table [OF ok e [unfolded BuyOrderFragments_def]])
  show "buyKey (EpochHash epoch) SomerBuyOrderFragmentIterBegin \<le> x \<and> x < buyKey (EpochHash epoch) SomerBuyOrderFragmentIterEnd \<longleftrightarrow>
      (\<exists>i. length i = 32 \<and> i \<noteq> greatest_id \<and> x = buyKey (EpochHash epoch) i)" if "x \<in> table_keys" for x
    by (rule buy_range [OF that h])
  show "length i = 32 \<and> (\<exists>x. somer_fragment_cursor (somer_json C) (buyKey (EpochHash epoch) i, d) = Inr x \<and>
      buys db (EpochHash epoch) i = Some x \<and> OrderID (fst x) = i)" if d: "content db (buyKey (EpochHash epoch) i) = Some d" for i d
    using entry_ok_cases(4) [OF h] ok d unfolding content_ok_def
    by (fastforce simp: somer_fragment_cursor_def read_json_def buys_in_def view_def h)
qed (simp add: buys_in_def view_def)

lemma SellOrderFragments_iterate:
  assumes ok: "content_ok C (content db)" and h: "length (EpochHash epoch) = 32" and e: "Fault (SellOrderFragments L db epoch) = None"
  shows "\<exists>xs. iter_results (somer_fragment_cursor (somer_json C)) (SellOrderFragments L db epoch) = map Inr xs \<and>
    distinct (map (\<lambda>x. OrderID (fst x)) xs) \<and>
    (\<forall>x. x \<in> set xs \<longleftrightarrow> OrderID (fst x) \<noteq> greatest_id \<and> sells db (EpochHash epoch) (OrderID (fst x)) = Some x)"
  unfolding iter_results_map SellOrderFragments_def
proof (rule iterate_table [OF ok e [unfolded SellOrderFragments_def]])
  show "sellKey (EpochHash epoch) SomerSellOrderFragmentIterBegin \<le> x \<and> x < sellKey (EpochHash epoch) SomerSellOrderFragmentIterEnd \<longleftrightarrow>
      (\<exists>i. length i = 32 \<and> i \<noteq> greatest_id \<and> x = sellKey (EpochHash epoch) i)" if "x \<in> table_keys" for x
    by (rule sell_range [OF that h])
  show "length i = 32 \<and> (\<exists>x. somer_fragment_cursor (somer_json C) (sellKey (EpochHash epoch) i, d) = Inr x \<and>
      sells db (EpochHash epoch) i = Some x \<and> OrderID (fst x) = i)" if d: "content db (sellKey (EpochHash epoch) i) = Some d" for i d
    using entry_ok_cases(5) [OF h] ok d unfolding content_ok_def
    by (fastforce simp: somer_fragment_cursor_def read_json_def sells_in_def view_def h)
qed (simp add: sells_in_def view_def)

lemma Orders_iterate:
  assumes ok: "content_ok C (content db)" and e: "Fault (Orders L db) = None"
  shows "\<exists>xs. Orders_Collect (order_json C) (Orders L db) = (xs, None) \<and> distinct (map fst xs) \<and>
    (\<forall>i st tr. (i, st, tr) \<in> set xs \<longleftrightarrow> i \<noteq> greatest_id \<and> orders db i = Some (st, tr))"
proof -
  have "\<exists>xs. map (order_cursor (order_json C)) (Ahead (Orders L db)) = map Inr xs \<and> distinct (map fst xs) \<and>
    (\<forall>x. x \<in> set xs \<longleftrightarrow> fst x \<noteq> greatest_id \<and> map_option (Pair (fst x)) (orders db (fst x)) = Some x)"
    unfolding Orders_def
  proof (rule iterate_table [OF ok e [unfolded Orders_def]])
    show "length i = 32 \<and> (\<exists>x. order_cursor (order_json C) (order_key i, d) = Inr x \<and>
        map_option (Pair i) (orders db i) = Some x \<and> fst x = i)" if d: "content db (order_key i) = Some d" for i d
    proof -
      obtain v where v: "length i = 32" "of_json (order_json C) d = Inr v" using entry_ok_cases(1) ok d unfolding content_ok_def by blast
      have "take 32 (drop (length OrderbookOrderTableBegin) (order_key i)) = i" using v(1) by (simp add: key_defs)
      then show ?thesis using v d by (simp add: order_cursor_def read_json_def orders_of_def view_def)
    qed
  qed (simp_all add: order_range orders_of_def view_def)
  then obtain xs where xs: "map (order_cursor (order_json C)) (Ahead (Orders L db)) = map Inr xs" "distinct (map fst xs)"
    "\<And>x. x \<in> set xs \<longleftrightarrow> fst x \<noteq> greatest_id \<and> map_option (Pair (fst x)) (orders db (fst x)) = Some x" by blast
  have "Orders_Collect (order_json C) (Orders L db) = (xs, None)"
    using iter_collect_map [OF xs(1)] e by (simp add: Orders_Collect_def)
  moreover have "(i, st, tr) \<in> set xs \<longleftrightarrow> i \<noteq> greatest_id \<and> orders db i = Some (st, tr)" for i st tr
    using xs(3) [of "(i, st, tr)"] by auto
  ultimately show ?thesis using xs(2) by blast
qed

text \<open>Pruning removes the entries that were written too long ago, and no others.\<close>

lemma prune_loop_content:
  assumes "\<And>db k. snd (db_delete L db k) = None"
  shows "content (fst (prune_loop L js written expiry now db ps err)) k =
    (if \<exists>d v. (k, d) \<in> set ps \<and> of_json js d = Inr v \<and> written v + expiry < now then None else content db k)"
proof (induction ps arbitrary: db err)
  case (Cons p ps)
  obtain k' d where p: "p = (k', d)" by (cases p)
  obtain db' where d': "db_delete L db k' = (db', None)" using assms [of db k'] by (cases "db_delete L db k'") auto
  show ?case
  proof (cases "of_json js d")
    case (Inr v)
    then show ?thesis using Cons delete_done [OF d'] by (auto simp: p d')
  qed (auto simp: p Cons)
qed simp

text \<open>Pruning only removes entries.\<close>

lemma prune_loop_sub:
  assumes "\<And>db k. snd (db_delete L db k) = None" "prune_loop L js written expiry now db ps err = (db', e)"
  shows "content db' k = None \<or> content db' k = content db k"
  using prune_loop_content [OF assms(1), of js written expiry now db ps err k] assms(2) by (auto split: if_splits)

lemma content_ok_sub: "content_ok C (content db) \<Longrightarrow> (\<And>k. content db' k = None \<or> content db' k = content db k) \<Longrightarrow> content_ok C (content db')"
  unfolding content_ok_def by (metis option.distinct(1))

text \<open>The table of computations has the expiry zero, so that it keeps nothing written before now.\<close>

lemma Computation_Prune_all:
  assumes "\<And>db k. snd (db_delete L db k) = None" and ok: "content_ok C (content db)" and e: "Fault (Computations L db) = None"
    and old: "\<And>i v. view (computation_json C) (content db) (computation_key i) = Some v \<Longrightarrow> CVTimestamp v < now"
    and i: "i \<noteq> greatest_id"
  shows "coms (fst (Computation_Prune L (computation_json C) 0 now db)) i = None"
proof (cases "content db (computation_key i)")
  case None
  then show ?thesis
    by (simp add: Computation_Prune_def computations_of_def view_def prune_loop_content [OF assms(1)])
next
  case (Some d)
  then obtain v where v: "length i = 32" "of_json (computation_json C) d = Inr v"
    using entry_ok_cases(2) ok unfolding content_ok_def by blast
  then have "CVTimestamp v < now" using old [of i] Some by (simp add: view_def)
  moreover have "db_range L db (computation_key SomerComputationIterBegin) (computation_key SomerComputationIterEnd) = (Ahead (Computations L db), None)"
    using e by (simp add: Computations_def NewIterator_def split: prod.splits)
  then have "(computation_key i, d) \<in> set (Ahead (Computations L db))"
    using range_done Some computation_range [of "computation_key i"] v(1) i by blast
  ultimately have "\<exists>d' v'. (computation_key i, d') \<in> set (Ahead (Computations L db)) \<and> of_json (computation_json C) d' = Inr v' \<and> CVTimestamp v' + 0 < now"
    using v(2) by auto
  then show ?thesis
    by (simp add: Computation_Prune_def computations_of_def view_def prune_loop_content [OF assms(1)])
qed

text \<open>So whenever the store is pruned, every computation written before is lost, whatever the expiry of the store.\<close>

lemma Store_Prune_computations:
  assumes del: "\<And>db k. snd (db_delete L db k) = None" and ok: "content_ok C (content db)" and e: "\<And>db. Fault (Computations L db) = None"
    and old: "\<And>i v. view (computation_json C) (content db) (computation_key i) = Some v \<Longrightarrow> CVTimestamp v < now 2"
    and i: "i \<noteq> greatest_id"
  shows "coms (fst (Store_Prune L C expiry now db)) i = None"
proof -
  obtain db1 e1 where 1: "Order_Prune L (order_json C) expiry (now 0) db = (db1, e1)" by fastforce
  obtain db2 e2 where 2: "OrderFragment_Prune L (fragment_json C) expiry (now 1) db1 = (db2, e2)" by fastforce
  obtain db3 e3 where 3: "Computation_Prune L (computation_json C) 0 (now 2) db2 = (db3, e3)" by fastforce
  obtain db4 e4 where 4: "SomerOrderFragment_Prune L (somer_json C) expiry (now 3) db3 = (db4, e4)" by fastforce
  have s1: "content db1 k = None \<or> content db1 k = content db k" for k using prune_loop_sub [OF del] 1 unfolding Order_Prune_def by blast
  have s2: "content db2 k = None \<or> content db2 k = content db1 k" for k using prune_loop_sub [OF del] 2 unfolding OrderFragment_Prune_def by blast
  obtain db5 e5 ps ps' where 5: "prune_loop L (somer_json C) SVTimestamp expiry (now 3) db3 ps None = (db5, e5)"
    "prune_loop L (somer_json C) SVTimestamp expiry (now 3) db5 ps' e5 = (db4, e4)"
    using 4 unfolding SomerOrderFragment_Prune_def by (auto split: prod.splits)
  have s4: "content db4 k = None \<or> content db4 k = content db3 k" for k
    using prune_loop_sub [OF del 5(1), of k] prune_loop_sub [OF del 5(2), of k] by auto
  have "content db2 k = None \<or> content db2 k = content db k" for k using s1 [of k] s2 [of k] by auto
  then have sub: "content_ok C (content db2)" "\<And>i v. view (computation_json C) (content db2) (computation_key i) = Some v \<Longrightarrow> CVTimestamp v < now 2"
    using content_ok_sub [OF ok] old unfolding view_def by (blast, metis option.distinct(1) option.case(1))
  have "coms db3 i = None" using Computation_Prune_all [OF del sub(1) e sub(2) i] 3 by simp
  then have "coms db4 i = None" using s4 [of "computation_key i"] by (auto simp: computations_of_def view_def)
  then show ?thesis using 1 2 3 4 by (simp add: Store_Prune_def)
qed

end

end
