(* ===== verification/Leveldb_Memory.thy ===== *)
theory Leveldb_Memory
  imports Leveldb_Store "HOL-Library.AList" "HOL-Library.Countable"
begin

section \<open>A database in memory\<close>

text \<open>
  The contract of the database and of the encodings can be met: a database that is an association
  list, and encodings that write a value as a number in unary. They instantiate the parameters of the
  storage theorems.
\<close>

definition mem_db :: "(bytes \<times> bytes) list leveldb" where
  "mem_db = \<lparr>
     db_get = (\<lambda>db k. case map_of db k of None \<Rightarrow> Inl ErrNotFound | Some v \<Rightarrow> Inr v),
     db_put = (\<lambda>db k v. (AList.update k v db, None)),
     db_delete = (\<lambda>db k. (AList.delete k db, None)),
     db_range = (\<lambda>db lo hi. (map (\<lambda>k. (k, the (map_of db k))) (filter (\<lambda>k. lo \<le> k \<and> k < hi) (sort (remdups (map fst db)))), None))\<rparr>"

definition code_json :: "('v \<Rightarrow> nat) \<Rightarrow> (nat \<Rightarrow> 'v) \<Rightarrow> 'v json" where
  "code_json enc dec = \<lparr>to_json = (\<lambda>v. Inr (replicate (enc v) 0)), of_json = (\<lambda>data. Inr (dec (length data)))\<rparr>"

lemma code_json_ok: "(\<And>v. dec (enc v) = v) \<Longrightarrow> json_ok (code_json enc dec)"
  by (simp add: json_ok_def code_json_def)

definition enc_bytes :: "bytes \<Rightarrow> nat" where
  "enc_bytes bs = list_encode (map unat bs)"

definition dec_bytes :: "nat \<Rightarrow> bytes" where
  "dec_bytes n = map word_of_nat (list_decode n)"

definition enc_string :: "string \<Rightarrow> nat" where
  "enc_string s = list_encode (map of_char s)"

definition dec_string :: "nat \<Rightarrow> string" where
  "dec_string n = map char_of (list_decode n)"

definition enc_share :: "share \<Rightarrow> nat" where
  "enc_share sh = list_encode [unat (Index sh), unat (Value sh)]"

definition dec_share :: "nat \<Rightarrow> share" where
  "dec_share n = (let l = list_decode n in \<lparr>Index = word_of_nat (l ! 0), Value = word_of_nat (l ! 1)\<rparr>)"

definition enc_coexp :: "coexp_share \<Rightarrow> nat" where
  "enc_coexp c = list_encode [enc_share (ShCo c), enc_share (ShExp c)]"

definition dec_coexp :: "nat \<Rightarrow> coexp_share" where
  "dec_coexp n = (let l = list_decode n in \<lparr>ShCo = dec_share (l ! 0), ShExp = dec_share (l ! 1)\<rparr>)"

definition enc_frag :: "fragment \<Rightarrow> nat" where
  "enc_frag f = list_encode [enc_bytes (OrderID f), unat (OrderType f), unat (OrderParity f), unat (OrderSettlement f),
     int_encode (OrderExpiry f), enc_bytes (FragID f), unat (EpochDepth f), enc_share (FTokens f), enc_coexp (FPrice f),
     enc_coexp (FVolume f), enc_coexp (FMinimumVolume f), enc_share (FNonce f)]"

definition dec_frag :: "nat \<Rightarrow> fragment" where
  "dec_frag n = (let l = list_decode n in
     \<lparr>OrderID = dec_bytes (l ! 0), OrderType = word_of_nat (l ! 1), OrderParity = word_of_nat (l ! 2), OrderSettlement = word_of_nat (l ! 3),
      OrderExpiry = int_decode (l ! 4), FragID = dec_bytes (l ! 5), EpochDepth = word_of_nat (l ! 6), FTokens = dec_share (l ! 7),
      FPrice = dec_coexp (l ! 8), FVolume = dec_coexp (l ! 9), FMinimumVolume = dec_coexp (l ! 10), FNonce = dec_share (l ! 11)\<rparr>)"

definition state_list :: "computation_state list" where
  "state_list = [ComputationStateNil, ComputationStateMatched, ComputationStateMismatched, ComputationStateAccepted,
     ComputationStateRejected, ComputationStateSettled]"

fun enc_state :: "computation_state \<Rightarrow> nat" where
  "enc_state ComputationStateNil = 0"
| "enc_state ComputationStateMatched = 1"
| "enc_state ComputationStateMismatched = 2"
| "enc_state ComputationStateAccepted = 3"
| "enc_state ComputationStateRejected = 4"
| "enc_state ComputationStateSettled = 5"

definition enc_computation :: "computation \<Rightarrow> nat" where
  "enc_computation c = list_encode [int_encode (Timestamp c), enc_bytes (ComID c), enc_frag (Buy c), enc_frag (Sell c),
     enc_bytes (ComEpoch c), unat (ComEpochDepth c), enc_state (State c), of_bool (Match c)]"

definition dec_computation :: "nat \<Rightarrow> computation" where
  "dec_computation n = (let l = list_decode n in
     \<lparr>Timestamp = int_decode (l ! 0), ComID = dec_bytes (l ! 1), Buy = dec_frag (l ! 2), Sell = dec_frag (l ! 3),
      ComEpoch = dec_bytes (l ! 4), ComEpochDepth = word_of_nat (l ! 5), State = state_list ! (l ! 6), Match = (l ! 7 = 1)\<rparr>)"

lemma dec_enc [simp]:
  "dec_bytes (enc_bytes bs) = bs" "dec_string (enc_string s) = s" "dec_share (enc_share sh) = sh"
  "dec_coexp (enc_coexp c) = c"
  by (simp_all add: enc_bytes_def dec_bytes_def enc_string_def dec_string_def enc_share_def dec_share_def enc_coexp_def dec_coexp_def
      comp_def Let_def map_idI)

lemma dec_frag_enc [simp]: "dec_frag (enc_frag f) = f"
  by (simp add: enc_frag_def dec_frag_def Let_def)

lemma dec_computation_enc [simp]: "dec_computation (enc_computation c) = c"
  by (cases "State c") (simp_all add: enc_computation_def dec_computation_def Let_def state_list_def)

definition mem_codecs :: codecs where
  "mem_codecs = \<lparr>
     order_json = code_json (\<lambda>v. list_encode [int_encode (OVTimestamp v), unat (OVStatus v), enc_string (OVTrader v)])
       (\<lambda>n. let l = list_decode n in \<lparr>OVTimestamp = int_decode (l ! 0), OVStatus = word_of_nat (l ! 1), OVTrader = dec_string (l ! 2)\<rparr>),
     fragment_json = code_json (\<lambda>v. list_encode [int_encode (FVTimestamp v), enc_frag (FVFragment v)])
       (\<lambda>n. let l = list_decode n in \<lparr>FVTimestamp = int_decode (l ! 0), FVFragment = dec_frag (l ! 1)\<rparr>),
     pointer_json = code_json int_encode int_decode,
     computation_json = code_json (\<lambda>v. list_encode [int_encode (CVTimestamp v), enc_computation (CVComputation v)])
       (\<lambda>n. let l = list_decode n in \<lparr>CVTimestamp = int_decode (l ! 0), CVComputation = dec_computation (l ! 1)\<rparr>),
     somer_json = code_json (\<lambda>v. list_encode [int_encode (SVTimestamp v), enc_frag (SVFragment v), enc_string (SVTrader v)])
       (\<lambda>n. let l = list_decode n in \<lparr>SVTimestamp = int_decode (l ! 0), SVFragment = dec_frag (l ! 1), SVTrader = dec_string (l ! 2)\<rparr>)\<rparr>"

interpretation mem: leveldb_tables mem_db map_of mem_codecs
proof
  fix db :: "(bytes \<times> bytes) list" and k k' v db' lo hi ps err e
  show "db_get mem_db db k = Inr v \<Longrightarrow> map_of db k = Some v" by (simp add: mem_db_def split: option.splits)
  show "db_get mem_db db k = Inl ErrNotFound \<Longrightarrow> map_of db k = None" by (simp add: mem_db_def split: option.splits)
  show "db_put mem_db db k v = (db', None) \<Longrightarrow> map_of db' = (map_of db)(k \<mapsto> v)" by (auto simp: mem_db_def update_conv')
  show "db_put mem_db db k v = (db', e) \<Longrightarrow> k' \<noteq> k \<Longrightarrow> map_of db' k' = map_of db k'" by (auto simp: mem_db_def update_conv')
  show "db_delete mem_db db k = (db', None) \<Longrightarrow> map_of db' = (map_of db)(k := None)" by (auto simp: mem_db_def delete_conv')
  show "db_delete mem_db db k = (db', e) \<Longrightarrow> k' \<noteq> k \<Longrightarrow> map_of db' k' = map_of db k'" by (auto simp: mem_db_def delete_conv')
  show "db_put mem_db db k v = (db', Some err) \<Longrightarrow> map_of db' k = map_of db k \<or> map_of db' k = Some v" by (simp add: mem_db_def)
  show "db_delete mem_db db k = (db', Some err) \<Longrightarrow> map_of db' k = map_of db k \<or> map_of db' k = None" by (simp add: mem_db_def)
  show "db_range mem_db db lo hi = (ps, None) \<Longrightarrow>
      distinct (map fst ps) \<and> set ps = {(k, v). map_of db k = Some v \<and> lo \<le> k \<and> k < hi}"
    by (auto simp: mem_db_def comp_def map_of_eq_None_iff image_iff dest: weak_map_of_SomeI map_of_SomeD)
      (metis fst_conv map_of_SomeD)
next
  show "json_ok (order_json mem_codecs)" "json_ok (fragment_json mem_codecs)" "json_ok (pointer_json mem_codecs)"
    "json_ok (computation_json mem_codecs)" "json_ok (somer_json mem_codecs)"
    by (simp_all add: mem_codecs_def code_json_ok Let_def)
qed

lemma mem_content_ok_empty: "content_ok mem_codecs (map_of [])"
  by (simp add: content_ok_def)

end
