(* ===== verification/Orderbook.thy ===== *)
theory Orderbook
  imports Leveldb_Memory
begin

section \<open>The orderbook: \<^verbatim>\<open>orderbook/aggregate.go\<close>, \<^verbatim>\<open>orderbook/sync.go\<close>, \<^verbatim>\<open>orderbook/orderbook.go\<close>\<close>

text \<open>
  The orderbook brings together what it hears of an order: its status, from the contract, and its
  fragment, from the trader. When it has both it notifies the matching engine.

  The stores are an interface in the source; here they are a record \<open>S\<close> of operations on a state, and
  \<open>leveldb_stores\<close> is the one the LevelDB tables give. The contract is a parameter of the operations
  that call it. A notification that is sent to the channel is an output; the operations are modelled
  for as long as the done channel is open. Errors that are only logged leave no trace.
\<close>

subsection \<open>Stores and notifications\<close>

record 's stores =
  os_put :: "time \<Rightarrow> 's \<Rightarrow> order_id \<Rightarrow> status \<Rightarrow> string \<Rightarrow> 's \<times> store_error option"
  os_delete :: "'s \<Rightarrow> order_id \<Rightarrow> 's \<times> store_error option"
  os_get :: "'s \<Rightarrow> order_id \<Rightarrow> store_error + (status \<times> string)"
  os_collect :: "'s \<Rightarrow> (order_id \<times> status \<times> string) list \<times> store_error option"
  fs_put :: "time \<Rightarrow> 's \<Rightarrow> epoch \<Rightarrow> fragment \<Rightarrow> 's \<times> store_error option"
  fs_delete :: "'s \<Rightarrow> epoch \<Rightarrow> order_id \<Rightarrow> 's \<times> store_error option"
  fs_get :: "'s \<Rightarrow> epoch \<Rightarrow> order_id \<Rightarrow> store_error + fragment"
  ps_put :: "'s \<Rightarrow> int \<Rightarrow> 's \<times> store_error option"
  ps_get :: "'s \<Rightarrow> store_error + int"

definition leveldb_stores :: "'db leveldb \<Rightarrow> codecs \<Rightarrow> 'db stores" where
  "leveldb_stores L C = \<lparr>
     os_put = PutOrder L (order_json C),
     os_delete = DeleteOrder L,
     os_get = Order_lookup L (order_json C),
     os_collect = (\<lambda>db. Orders_Collect (order_json C) (Orders L db)),
     fs_put = PutOrderFragment L (fragment_json C),
     fs_delete = DeleteOrderFragment L,
     fs_get = OrderFragment_lookup L (fragment_json C),
     ps_put = PutPointer L (pointer_json C),
     ps_get = Pointer L (pointer_json C)\<rparr>"

datatype notification =
    NotificationOpenOrder order_id fragment string
  | NotificationConfirmOrder order_id
  | NotificationCancelOrder order_id

subsection \<open>The aggregator\<close>

text \<open>An aggregator has an epoch and the stores.\<close>

definition InsertOrder ::
    "'s stores \<Rightarrow> epoch \<Rightarrow> time \<Rightarrow> 's \<Rightarrow> order_id \<Rightarrow> status \<Rightarrow> string \<Rightarrow> 's \<times> (store_error + notification option)" where
  "InsertOrder S epoch now s orderID orderStatus trader =
     (if orderStatus \<noteq> StatusOpen then (fst (os_delete S s orderID), Inr None)
      else
        (case os_put S now s orderID orderStatus trader of
           (s, Some err) \<Rightarrow> (s, Inl err)
         | (s, None) \<Rightarrow>
             (case fs_get S s epoch orderID of
                Inl err \<Rightarrow> (s, if err = ErrOrderFragmentNotFound then Inr None else Inl err)
              | Inr f \<Rightarrow> (s, Inr (Some (NotificationOpenOrder orderID f trader))))))"

definition InsertOrderFragment ::
    "'s stores \<Rightarrow> epoch \<Rightarrow> time \<Rightarrow> 's \<Rightarrow> fragment \<Rightarrow> 's \<times> (store_error + notification option)" where
  "InsertOrderFragment S epoch now s f =
     (case fs_put S now s epoch f of
        (s, Some err) \<Rightarrow> (s, Inl err)
      | (s, None) \<Rightarrow>
          (case os_get S s (OrderID f) of
             Inl err \<Rightarrow> (s, if err = ErrOrderNotFound then Inr None else Inl err)
           | Inr (orderStatus, trader) \<Rightarrow>
               if orderStatus \<noteq> StatusOpen then
                 (let s = fst (os_delete S s (OrderID f)); s = fst (fs_delete S s epoch (OrderID f)) in (s, Inr None))
               else (s, Inr (Some (NotificationOpenOrder (OrderID f) f trader)))))"

subsection \<open>The syncer\<close>

text \<open>\<^verbatim>\<open>contractBinder.Orders\<close> is \<open>orders_at\<close>: it returns the order identifiers, statuses and traders from an
  offset on, as triples; the limit is not negative; \<open>zero_fragment\<close> is the fragment of a notification that has none.\<close>

datatype sync_error = ErrLoadPointer store_error | ErrLoadOrders string | ErrCollectOrders store_error

definition zero_share :: share where
  "zero_share = \<lparr>Index = 0, Value = 0\<rparr>"

definition zero_fragment :: fragment where
  "zero_fragment = \<lparr>OrderID = replicate 32 0, OrderType = 0, OrderParity = 0, OrderSettlement = 0, OrderExpiry = 0,
     FragID = replicate 32 0, EpochDepth = 0, FTokens = zero_share, FPrice = \<lparr>ShCo = zero_share, ShExp = zero_share\<rparr>,
     FVolume = \<lparr>ShCo = zero_share, ShExp = zero_share\<rparr>, FMinimumVolume = \<lparr>ShCo = zero_share, ShExp = zero_share\<rparr>, FNonce = zero_share\<rparr>"

definition changed :: "order_id \<times> status \<times> string \<Rightarrow> notification list" where
  "changed = (\<lambda>(orderID, status, trader).
     if status = StatusOpen then [NotificationOpenOrder orderID zero_fragment trader]
     else if status = StatusConfirmed then [NotificationConfirmOrder orderID]
     else if status = StatusCanceled then [NotificationCancelOrder orderID]
     else [])"

definition syncer_sync ::
    "'s stores \<Rightarrow> nat \<Rightarrow> (int \<Rightarrow> nat \<Rightarrow> string + (order_id \<times> status \<times> string) list) \<Rightarrow> 's \<Rightarrow>
     's \<times> notification list \<times> sync_error option" where
  "syncer_sync S limit orders_at s =
     (case ps_get S s of
        Inl err \<Rightarrow> (s, [], Some (ErrLoadPointer err))
      | Inr pointer \<Rightarrow>
          (case orders_at pointer limit of
             Inl err \<Rightarrow> (s, [], Some (ErrLoadOrders err))
           | Inr os \<Rightarrow> (fst (ps_put S s (pointer + int (length os))), concat (map changed os), None)))"

definition deleteOrder :: "'s stores \<Rightarrow> 's \<Rightarrow> order_id \<Rightarrow> status \<Rightarrow> 's \<times> notification list" where
  "deleteOrder S s orderID orderStatus =
     (case os_delete S s orderID of
        (s, Some _) \<Rightarrow> (s, [])
      | (s, None) \<Rightarrow>
          (s, if orderStatus = StatusConfirmed then [NotificationConfirmOrder orderID]
              else if orderStatus = StatusCanceled then [NotificationCancelOrder orderID] else []))"

text \<open>One round of the loop, for the order the resync pointer is at: the contract is asked for its status and
  its depth; \<open>i\<close> counts the rounds.\<close>

definition resync_round ::
    "'s stores \<Rightarrow> (order_id \<Rightarrow> string + status) \<Rightarrow> (order_id \<Rightarrow> string + nat) \<Rightarrow> 's \<Rightarrow> order_id \<Rightarrow> status \<Rightarrow> 's \<times> notification list" where
  "resync_round S status_of depth_of s orderID orderStatus =
     (if orderStatus \<noteq> StatusOpen then deleteOrder S s orderID orderStatus
      else
        (case status_of orderID of
           Inl _ \<Rightarrow> (s, [])
         | Inr orderStatus \<Rightarrow>
             (case (if orderStatus \<noteq> StatusOpen then deleteOrder S s orderID orderStatus else (s, [])) of
                (s, ns) \<Rightarrow>
                  (case depth_of orderID of
                     Inl _ \<Rightarrow> (s, ns)
                   | Inr orderDepth \<Rightarrow>
                       if orderDepth > 10000 then
                         (case deleteOrder S s orderID orderStatus of (s, ns') \<Rightarrow> (s, ns @ ns'))
                       else (s, ns)))))"

fun resync_loop ::
    "'s stores \<Rightarrow> (nat \<Rightarrow> order_id \<Rightarrow> string + status) \<Rightarrow> (nat \<Rightarrow> order_id \<Rightarrow> string + nat) \<Rightarrow> (order_id \<times> status \<times> string) list \<Rightarrow> nat \<Rightarrow>
     nat \<Rightarrow> nat \<Rightarrow> 's \<Rightarrow> nat \<Rightarrow> 's \<times> nat \<times> notification list" where
  "resync_loop S status_of depth_of os offset i 0 s p = (s, p, [])"
| "resync_loop S status_of depth_of os offset i (Suc n) s p =
     (let p = (offset + i) mod length os; (orderID, orderStatus, _) = os ! p in
        case resync_round S (status_of i) (depth_of i) s orderID orderStatus of
          (s, ns) \<Rightarrow> (case resync_loop S status_of depth_of os offset (Suc i) n s p of (s, p, ns') \<Rightarrow> (s, p, ns @ ns')))"

definition syncer_resync where
  "syncer_resync S limit status_of depth_of s resyncPointer =
     (case os_collect S s of
        (os, Some err) \<Rightarrow> (s, resyncPointer, [], Some (ErrCollectOrders err))
      | (os, None) \<Rightarrow>
          if os = [] then (s, resyncPointer, [], None)
          else
            (case resync_loop S status_of depth_of os resyncPointer 0 (2 * limit) s resyncPointer of
               (s, p, ns) \<Rightarrow> (s, p, ns, None)))"

definition Sync where
  "Sync S limit orders_at status_of depth_of s resyncPointer =
     (case syncer_sync S limit orders_at s of
        (s, ns, Some err) \<Rightarrow> (s, resyncPointer, ns, Some err)
      | (s, ns, None) \<Rightarrow>
          (case syncer_resync S limit status_of depth_of s resyncPointer of
             (s, p, ns', err) \<Rightarrow> (s, p, ns @ ns', err)))"

subsection \<open>The orderbook\<close>

record orderbook =
  aggCurr :: "epoch option"
  aggPrev :: "epoch option"

definition Orderbook_OnChangeEpoch :: "orderbook \<Rightarrow> epoch \<Rightarrow> orderbook" where
  "Orderbook_OnChangeEpoch ob epoch = ob\<lparr>aggPrev := aggCurr ob, aggCurr := Some epoch\<rparr>"

text \<open>Both aggregators are given the order; the error of the first is overwritten by the second's. Each call of
  an aggregator reads the clock.\<close>

definition notes_of :: "store_error + notification option \<Rightarrow> notification list" where
  "notes_of r = (case r of Inr (Some n) \<Rightarrow> [n] | _ \<Rightarrow> [])"

definition error_of :: "store_error + notification option \<Rightarrow> store_error option" where
  "error_of r = (case r of Inl err \<Rightarrow> Some err | Inr _ \<Rightarrow> None)"

definition routeOrder ::
    "'s stores \<Rightarrow> time \<times> time \<Rightarrow> orderbook \<Rightarrow> 's \<Rightarrow> order_id \<Rightarrow> status \<Rightarrow> string \<Rightarrow> 's \<times> notification list \<times> store_error option" where
  "routeOrder S now ob s orderID orderStatus trader =
     (case aggCurr ob of
        None \<Rightarrow> (s, [], None)
      | Some current \<Rightarrow>
          (case InsertOrder S current (fst now) s orderID orderStatus trader of
             (s, r0) \<Rightarrow>
               (case aggPrev ob of
                  None \<Rightarrow> (s, notes_of r0, error_of r0)
                | Some prev \<Rightarrow>
                    (case InsertOrder S prev (snd now) s orderID orderStatus trader of
                       (s, r1) \<Rightarrow> (s, notes_of r0 @ notes_of r1, error_of r1)))))"

definition routeOrderFragment ::
    "'s stores \<Rightarrow> time \<Rightarrow> orderbook \<Rightarrow> 's \<Rightarrow> fragment \<Rightarrow> 's \<times> notification list \<times> store_error option" where
  "routeOrderFragment S now ob s f =
     (case (if EpochDepth f = 0 then aggCurr ob else if EpochDepth f = 1 then aggPrev ob else None) of
        None \<Rightarrow> (s, [], None)
      | Some epoch \<Rightarrow> (case InsertOrderFragment S epoch now s f of (s, r) \<Rightarrow> (s, notes_of r, error_of r)))"

definition Orderbook_routeNotification where
  "Orderbook_routeNotification S now ob s n =
     (case n of
        NotificationOpenOrder orderID _ trader \<Rightarrow> routeOrder S now ob s orderID StatusOpen trader
      | _ \<Rightarrow> (s, [n], None))"

definition OpenOrder where
  "OpenOrder S dec priv now ob s encrypted =
     (case EncryptedFragment_Decrypt dec encrypted priv of
        Inl err \<Rightarrow> (s, [], Some (Inl err))
      | Inr f \<Rightarrow> (case routeOrderFragment S now ob s f of (s, ns, err) \<Rightarrow> (s, ns, map_option Inr err)))"

text \<open>A tick of the loop of \<^verbatim>\<open>sync\<close>.\<close>

fun route_all where
  "route_all S now ob s [] = (s, [], [])"
| "route_all S now ob s (n # ns) =
     (case Orderbook_routeNotification S (now (length ns)) ob s n of (s, out, err) \<Rightarrow>
        (case route_all S now ob s ns of (s, outs, errs) \<Rightarrow>
          (s, out @ outs, (case err of Some e \<Rightarrow> [e] | None \<Rightarrow> []) @ errs)))"

definition Orderbook_tick where
  "Orderbook_tick S limit orders_at status_of depth_of now ob s resyncPointer =
     (case Sync S limit orders_at status_of depth_of s resyncPointer of
        (s, p, ns, err) \<Rightarrow>
          (case route_all S now ob s ns of (s, outs, errs) \<Rightarrow> (s, p, outs, err, errs)))"

subsection \<open>The contract of the stores\<close>

text \<open>\<open>orders\<close> and \<open>frags\<close> are what the stores hold. A call that fails promises nothing.\<close>

locale orderbook_stores =
  fixes S :: "'s stores" and orders :: "'s \<Rightarrow> order_id \<Rightarrow> (status \<times> string) option"
    and frags :: "'s \<Rightarrow> bytes \<Rightarrow> order_id \<Rightarrow> fragment option"
  assumes os_put: "os_put S now s i st tr = (s', None) \<Longrightarrow> orders s' = (orders s)(i \<mapsto> (st, tr)) \<and> frags s' = frags s"
    and os_get: "os_get S s i = Inr x \<Longrightarrow> orders s i = Some x"
    and os_get_missing: "os_get S s i = Inl ErrOrderNotFound \<Longrightarrow> orders s i = None"
    and fs_put: "length (EpochHash epoch) = 32 \<Longrightarrow> fs_put S now s epoch f = (s', None) \<Longrightarrow>
      frags s' = (frags s)(EpochHash epoch := (frags s (EpochHash epoch))(OrderID f \<mapsto> f)) \<and> orders s' = orders s"
    and fs_get: "length (EpochHash epoch) = 32 \<Longrightarrow> fs_get S s epoch i = Inr f \<Longrightarrow> frags s (EpochHash epoch) i = Some f"
    and fs_get_missing: "fs_get S s epoch i = Inl ErrOrderFragmentNotFound \<Longrightarrow> frags s (EpochHash epoch) i = None"
begin

text \<open>A notification has the stored fragment, and the order is open.\<close>

lemma InsertOrder_notifies:
  assumes "length (EpochHash epoch) = 32" "InsertOrder S epoch now s i st tr = (s', Inr (Some n))"
  shows "st = StatusOpen \<and> orders s' i = Some (StatusOpen, tr) \<and>
    (\<exists>f. n = NotificationOpenOrder i f tr \<and> frags s' (EpochHash epoch) i = Some f)"
proof -
  obtain f where f: "st = StatusOpen" "os_put S now s i st tr = (s', None)" "fs_get S s' epoch i = Inr f" "n = NotificationOpenOrder i f tr"
    using assms(2) by (auto simp: InsertOrder_def split: if_splits prod.splits option.splits sum.splits)
  then show ?thesis using os_put [OF f(2)] fs_get [OF assms(1) f(3)] by simp
qed

lemma InsertOrderFragment_notifies:
  assumes "length (EpochHash epoch) = 32" "InsertOrderFragment S epoch now s f = (s', Inr (Some n))"
  shows "\<exists>tr. n = NotificationOpenOrder (OrderID f) f tr \<and> orders s' (OrderID f) = Some (StatusOpen, tr) \<and>
    frags s' (EpochHash epoch) (OrderID f) = Some f"
proof -
  obtain tr where f: "fs_put S now s epoch f = (s', None)" "os_get S s' (OrderID f) = Inr (StatusOpen, tr)"
    "n = NotificationOpenOrder (OrderID f) f tr"
    using assms(2) by (auto simp: InsertOrderFragment_def Let_def split: if_splits prod.splits option.splits sum.splits)
  then show ?thesis using fs_put [OF assms(1) f(1)] os_get [OF f(2)] by simp
qed

text \<open>Whichever comes second, the order or its fragment, there is one notification, then.\<close>

lemma order_then_fragment:
  assumes h: "length (EpochHash epoch) = 32" and f: "frags s (EpochHash epoch) (OrderID f) = None"
    and 1: "InsertOrder S epoch t1 s (OrderID f) StatusOpen tr = (s1, Inr r1)"
    and 2: "InsertOrderFragment S epoch t2 s1 f = (s2, Inr r2)"
  shows "r1 = None" "r2 = Some (NotificationOpenOrder (OrderID f) f tr)"
proof -
  obtain sp where p: "os_put S t1 s (OrderID f) StatusOpen tr = (sp, None)" "sp = s1"
    using 1 by (auto simp: InsertOrder_def split: prod.splits option.splits sum.splits)
  note o = os_put [OF p(1)]
  show "r1 = None" using 1 p o f fs_get [OF h, of s1 "OrderID f"]
    by (auto simp: InsertOrder_def split: sum.splits if_splits)
  obtain sq where q: "fs_put S t2 s1 epoch f = (sq, None)"
    using 2 by (auto simp: InsertOrderFragment_def split: prod.splits option.splits)
  have "orders sq (OrderID f) = Some (StatusOpen, tr)" using fs_put [OF h q] o p(2) by simp
  then have "os_get S sq (OrderID f) = Inr x \<Longrightarrow> x = (StatusOpen, tr)" "os_get S sq (OrderID f) \<noteq> Inl ErrOrderNotFound" for x
    using os_get os_get_missing by fastforce+
  then show "r2 = Some (NotificationOpenOrder (OrderID f) f tr)"
    using 2 q by (auto simp: InsertOrderFragment_def split: sum.splits if_splits)
qed

lemma fragment_then_order:
  assumes h: "length (EpochHash epoch) = 32" and f: "orders s (OrderID f) = None"
    and 1: "InsertOrderFragment S epoch t1 s f = (s1, Inr r1)"
    and 2: "InsertOrder S epoch t2 s1 (OrderID f) StatusOpen tr = (s2, Inr r2)"
  shows "r1 = None" "r2 = Some (NotificationOpenOrder (OrderID f) f tr)"
proof -
  obtain sp where p: "fs_put S t1 s epoch f = (sp, None)"
    using 1 by (auto simp: InsertOrderFragment_def split: prod.splits option.splits)
  note o = fs_put [OF h p]
  have no: "os_get S sp (OrderID f) \<noteq> Inr x" for x using o f os_get by fastforce
  then show "r1 = None" using 1 p by (auto simp: InsertOrderFragment_def split: sum.splits if_splits prod.splits)
  have "s1 = sp" using 1 p no by (auto simp: InsertOrderFragment_def split: sum.splits if_splits prod.splits)
  obtain sq where q: "os_put S t2 s1 (OrderID f) StatusOpen tr = (sq, None)"
    using 2 by (auto simp: InsertOrder_def split: prod.splits option.splits)
  have "frags sq (EpochHash epoch) (OrderID f) = Some f" using os_put [OF q] o \<open>s1 = sp\<close> by simp
  then have "fs_get S sq epoch (OrderID f) = Inr g \<Longrightarrow> g = f" "fs_get S sq epoch (OrderID f) \<noteq> Inl ErrOrderFragmentNotFound" for g
    using fs_get [OF h] fs_get_missing by fastforce+
  then show "r2 = Some (NotificationOpenOrder (OrderID f) f tr)"
    using 2 q by (auto simp: InsertOrder_def split: sum.splits if_splits)
qed

end

sublocale leveldb_tables \<subseteq> orderbook: orderbook_stores "leveldb_stores L C" "\<lambda>db. orders_of C (content db)" "\<lambda>db. fragments_in C (content db)"
  by unfold_locales
    (auto simp: leveldb_stores_def PutOrder_done PutOrder_other(1) Order_lookup_found Order_lookup_missing
      PutOrderFragment_done PutOrderFragment_other(1) OrderFragment_lookup_found OrderFragment_lookup_missing)

subsection \<open>Syncing\<close>

definition faultless :: "'db leveldb \<Rightarrow> bool" where
  "faultless L \<longleftrightarrow> (\<forall>db k v. snd (db_put L db k v) = None) \<and> (\<forall>db k. snd (db_delete L db k) = None) \<and>
     (\<forall>db k e. db_get L db k = Inl e \<longrightarrow> e = ErrNotFound) \<and> (\<forall>db lo hi. snd (db_range L db lo hi) = None)"

locale leveldb_faultless = leveldb_tables +
  assumes no_faults: "faultless L"

context leveldb_faultless
begin

lemma table_put_faultless: "json_ok js \<Longrightarrow> \<exists>db'. table_put L js db k v = (db', None)"
  using no_faults unfolding faultless_def json_ok_def table_put_def
  by (metis (no_types, lifting) case_prod_beta option.simps(8) sum.simps(6))

lemma table_delete_faultless: "\<exists>db'. table_delete L db k = (db', None)"
  using no_faults unfolding faultless_def table_delete_def by (metis (no_types, lifting) case_prod_beta option.simps(8))

lemma iterator_faultless: "Fault (NewIterator L db lo hi) = None"
  using no_faults by (auto simp: faultless_def NewIterator_def split: prod.splits) (metis snd_conv)

end

text \<open>The database in memory has no faults.\<close>

interpretation mem_faultless: leveldb_faultless mem_db map_of mem_codecs
  by unfold_locales (auto simp: faultless_def mem_db_def split: option.splits)

context leveldb_faultless
begin

lemma table_get_total:
  assumes "\<And>d. content db k = Some d \<Longrightarrow> \<exists>v. of_json js d = Inr v"
  shows "(\<exists>v. table_get L js nf db k = Inr v) \<or> table_get L js nf db k = Inl nf"
proof (cases "db_get L db k")
  case (Inl e)
  then show ?thesis using no_faults by (auto simp: table_get_def faultless_def)
next
  case (Inr d)
  then show ?thesis using assms [OF get_found [OF Inr]] by (auto simp: table_get_def)
qed

lemma Order_lookup_total:
  assumes "content_ok C (content db)"
  shows "(\<exists>x. Order_lookup L (order_json C) db i = Inr x) \<or> Order_lookup L (order_json C) db i = Inl ErrOrderNotFound"
  using table_get_total [of db "order_key i" "order_json C" ErrOrderNotFound] entry_ok_cases(1) assms
  unfolding content_ok_def Order_lookup_def by (fastforce simp: ebind_def)

lemma OrderFragment_lookup_total:
  assumes "content_ok C (content db)" "length (EpochHash epoch) = 32"
  shows "(\<exists>f. OrderFragment_lookup L (fragment_json C) db epoch i = Inr f) \<or>
    OrderFragment_lookup L (fragment_json C) db epoch i = Inl ErrOrderFragmentNotFound"
  using table_get_total [of db "fragment_key (EpochHash epoch) i" "fragment_json C" ErrOrderFragmentNotFound]
    entry_ok_cases(3) [OF assms(2)] assms(1)
  unfolding content_ok_def OrderFragment_lookup_def by (fastforce simp: ebind_def)

text \<open>Without faults of the database the aggregator returns no errors.\<close>

lemma InsertOrder_total:
  assumes ok: "content_ok C (content db)" and h: "length (EpochHash epoch) = 32" "length i = 32"
  shows "\<exists>db' r. InsertOrder (leveldb_stores L C) epoch now db i st tr = (db', Inr r) \<and> content_ok C (content db')"
proof (cases "st = StatusOpen")
  case True
  obtain db' where p: "PutOrder L (order_json C) now db i st tr = (db', None)"
    using table_put_faultless [OF codecs(1)] unfolding PutOrder_def by blast
  have ok': "content_ok C (content db')" by (rule PutOrder_ok [OF ok h(2) p])
  from OrderFragment_lookup_total [OF ok' h(1), of i] show ?thesis using True p ok'
    by (auto simp: InsertOrder_def leveldb_stores_def)
next
  case False
  obtain db' e where "DeleteOrder L db i = (db', e)" by fastforce
  then show ?thesis using False deletes_ok(1) [OF ok] by (simp add: InsertOrder_def leveldb_stores_def)
qed

lemma InsertOrderFragment_total:
  assumes ok: "content_ok C (content db)" and h: "length (EpochHash epoch) = 32" "length (OrderID f) = 32"
  shows "\<exists>db' r. InsertOrderFragment (leveldb_stores L C) epoch now db f = (db', Inr r) \<and> content_ok C (content db')"
proof -
  obtain db1 where p: "PutOrderFragment L (fragment_json C) now db epoch f = (db1, None)"
    using table_put_faultless [OF codecs(2)] unfolding PutOrderFragment_def by blast
  have ok1: "content_ok C (content db1)" by (rule PutOrderFragment_ok [OF ok h p])
  obtain db2 e2 where 2: "DeleteOrder L db1 (OrderID f) = (db2, e2)" by fastforce
  obtain db3 e3 where 3: "DeleteOrderFragment L db2 epoch (OrderID f) = (db3, e3)" by fastforce
  have "content_ok C (content db3)" by (rule deletes_ok(2) [OF deletes_ok(1) [OF ok1 2] 3])
  with Order_lookup_total [OF ok1, of "OrderID f"] show ?thesis using p ok1 2 3
    by (auto simp: InsertOrderFragment_def leveldb_stores_def Let_def split: prod.splits)
qed

text \<open>An order and its fragment give one notification, after the second of them.\<close>

lemma notified_once:
  assumes ok: "content_ok C (content db)" and h: "length (EpochHash epoch) = 32" "length (OrderID f) = 32"
    and fresh: "orders_of C (content db) (OrderID f) = None" "fragments_in C (content db) (EpochHash epoch) (OrderID f) = None"
  shows "\<exists>db1 db2. InsertOrder (leveldb_stores L C) epoch t1 db (OrderID f) StatusOpen tr = (db1, Inr None) \<and>
      InsertOrderFragment (leveldb_stores L C) epoch t2 db1 f = (db2, Inr (Some (NotificationOpenOrder (OrderID f) f tr)))"
    and "\<exists>db1 db2. InsertOrderFragment (leveldb_stores L C) epoch t1 db f = (db1, Inr None) \<and>
      InsertOrder (leveldb_stores L C) epoch t2 db1 (OrderID f) StatusOpen tr = (db2, Inr (Some (NotificationOpenOrder (OrderID f) f tr)))"
proof -
  obtain db1 r1 where 1: "InsertOrder (leveldb_stores L C) epoch t1 db (OrderID f) StatusOpen tr = (db1, Inr r1)" "content_ok C (content db1)"
    using InsertOrder_total [OF ok h] by blast
  obtain db2 r2 where 2: "InsertOrderFragment (leveldb_stores L C) epoch t2 db1 f = (db2, Inr r2)"
    using InsertOrderFragment_total [OF 1(2) h] by blast
  from orderbook.order_then_fragment [OF h(1) fresh(2) 1(1) 2] 1(1) 2
  show "\<exists>db1 db2. InsertOrder (leveldb_stores L C) epoch t1 db (OrderID f) StatusOpen tr = (db1, Inr None) \<and>
      InsertOrderFragment (leveldb_stores L C) epoch t2 db1 f = (db2, Inr (Some (NotificationOpenOrder (OrderID f) f tr)))" by auto
next
  obtain db1 r1 where 1: "InsertOrderFragment (leveldb_stores L C) epoch t1 db f = (db1, Inr r1)" "content_ok C (content db1)"
    using InsertOrderFragment_total [OF ok h] by blast
  obtain db2 r2 where 2: "InsertOrder (leveldb_stores L C) epoch t2 db1 (OrderID f) StatusOpen tr = (db2, Inr r2)"
    using InsertOrder_total [OF 1(2) h] by blast
  from orderbook.fragment_then_order [OF h(1) fresh(1) 1(1) 2] 1(1) 2
  show "\<exists>db1 db2. InsertOrderFragment (leveldb_stores L C) epoch t1 db f = (db1, Inr None) \<and>
      InsertOrder (leveldb_stores L C) epoch t2 db1 (OrderID f) StatusOpen tr = (db2, Inr (Some (NotificationOpenOrder (OrderID f) f tr)))" by auto
qed

end

text \<open>Successive syncs, without the resyncs between them, which do not touch the pointer.\<close>

fun sync_run where
  "sync_run S limit orders_at 0 s = (s, [])"
| "sync_run S limit orders_at (Suc n) s =
     (case syncer_sync S limit orders_at s of (s, ns, _) \<Rightarrow>
        (case sync_run S limit orders_at n s of (s, ns') \<Rightarrow> (s, ns @ ns')))"

context leveldb_tables
begin

lemma Pointer_value:
  assumes "faultless L" "content_ok C (content db)"
  shows "Pointer L (pointer_json C) db = Inr (pointer_of C (content db))"
proof (cases "db_get L db pointer_key")
  case (Inl e)
  then have "content db pointer_key = None" using assms(1) get_missing by (auto simp: faultless_def)
  then show ?thesis using Inl by (simp add: Pointer_def pointer_of_def view_def)
next
  case (Inr d)
  have c: "content db pointer_key = Some d" using get_found [OF Inr] .
  then have "entry_ok C pointer_key d" using assms(2) by (simp add: content_ok_def)
  then obtain p where "of_json (pointer_json C) d = Inr p" by (auto simp: entry_ok_def keys_apart)
  then show ?thesis using Inr c by (simp add: Pointer_def read_json_def pointer_of_def view_def)
qed

lemma syncer_sync_value:
  assumes "faultless L" "content_ok C (content db)" "orders_at (pointer_of C (content db)) limit = Inr os"
  shows "\<exists>db'. syncer_sync (leveldb_stores L C) limit orders_at db = (db', concat (map changed os), None) \<and>
    content_ok C (content db') \<and> pointer_of C (content db') = pointer_of C (content db) + int (length os)"
proof -
  let ?p = "pointer_of C (content db) + int (length os)"
  obtain db' e where p: "PutPointer L (pointer_json C) db ?p = (db', e)" by (cases "PutPointer L (pointer_json C) db ?p")
  have "e = None"
    using p assms(1) codecs(3) by (auto simp: PutPointer_def table_put_def faultless_def json_ok_def split: sum.splits prod.splits)
      (metis sum.distinct(1), metis snd_conv)
  then show ?thesis
    using p PutPointer_done PutPointer_ok [OF assms(2) p] assms
    by (auto simp: syncer_sync_def leveldb_stores_def Pointer_value)
qed

lemma sync_run_value:
  assumes "faultless L" "content_ok C (content db)" "pointer_of C (content db) = int p" "p \<le> length chain"
    and orders_at: "\<And>p. orders_at (int p) limit = Inr (take limit (drop p chain))"
  shows "\<exists>db'. sync_run (leveldb_stores L C) limit orders_at n db = (db', concat (map changed (take (n * limit) (drop p chain)))) \<and>
    pointer_of C (content db') = int (min (p + n * limit) (length chain))"
  using assms(2-4)
proof (induction n arbitrary: db p)
  case 0
  then show ?case by simp
next
  case (Suc n)
  let ?os = "take limit (drop p chain)"
  obtain db1 where 1: "syncer_sync (leveldb_stores L C) limit orders_at db = (db1, concat (map changed ?os), None)"
    "content_ok C (content db1)" "pointer_of C (content db1) = int (p + length ?os)"
    using syncer_sync_value [OF assms(1) Suc.prems(1), of orders_at limit] orders_at Suc.prems(2) by auto
  have "p + length ?os \<le> length chain" using Suc.prems(3) by simp
  from Suc.IH [OF 1(2,3) this] obtain db2 where 2:
    "sync_run (leveldb_stores L C) limit orders_at n db1 = (db2, concat (map changed (take (n * limit) (drop (p + length ?os) chain))))"
    "pointer_of C (content db2) = int (min (p + length ?os + n * limit) (length chain))" by blast
  have "take (Suc n * limit) (drop p chain) = ?os @ take (n * limit) (drop (p + length ?os) chain)"
  proof (cases "limit \<le> length chain - p")
    case True
    then show ?thesis by (simp add: take_add add.commute)
  next
    case False
    then show ?thesis using Suc.prems(3) by simp
  qed
  moreover have "min (p + length ?os + n * limit) (length chain) = min (p + Suc n * limit) (length chain)"
    using Suc.prems(3) by (cases "limit \<le> length chain - p") auto
  ultimately show ?case using 1(1) 2 by simp
qed

end

text \<open>The loop of a resync runs twice the limit, also over fewer orders: it sees a closed order again and again,
  in the list it read before it deleted the order.\<close>

lemma resync_loop_single:
  assumes "\<And>s. snd (os_delete S s i) = None" "\<And>k. status_of k i = Inr st" "st \<noteq> StatusOpen" "\<And>k. depth_of k i = Inr (d k)"
    "\<And>k. d k \<le> 10000"
  shows "\<exists>s' p'. resync_loop S status_of depth_of [(i, StatusOpen, tr)] offset j n s p =
    (s', p', concat (replicate n (if st = StatusConfirmed then [NotificationConfirmOrder i]
       else if st = StatusCanceled then [NotificationCancelOrder i] else [])))"
proof (induction n arbitrary: j s p)
  case (Suc n)
  obtain s1 where "os_delete S s i = (s1, None)" using assms(1) [of s] by (cases "os_delete S s i") auto
  then have "resync_round S (status_of j) (depth_of j) s i StatusOpen =
      (s1, if st = StatusConfirmed then [NotificationConfirmOrder i] else if st = StatusCanceled then [NotificationCancelOrder i] else [])"
    using assms(2-4) assms(5) [of j] by (simp add: resync_round_def deleteOrder_def not_less)
  then show ?case using Suc [of "Suc j" s1 0] by (auto simp: Let_def)
qed simp

end
