(* ===== verification/Ome_Generator.thy ===== *)
theory Ome_Generator
  imports Orderbook Leveldb_Memory
begin

section \<open>Generating computations: \<^verbatim>\<open>ome/generator.go\<close>\<close>

text \<open>
  The generator routes the notifications of the orderbook to the computation matrix of their epoch,
  the current or the previous one. A matrix stores the fragment of an order that was opened and pairs
  it with every opposite fragment that it holds, except those of the same trader.

  The store is an interface in the source: a record \<open>G\<close> of operations on a state. A matrix handles
  one notification after the other, and so it is a state that each notification transforms; the
  computations it sends are its outputs. \<open>now\<close> is the clock: the fragment is stored at \<open>now 0\<close>, the
  computation for the opposite fragment number \<open>j\<close> is made at \<open>now (Suc j)\<close>.
\<close>

subsection \<open>The store\<close>

record 's fragment_store =
  put_buy :: "time \<Rightarrow> 's \<Rightarrow> epoch \<Rightarrow> fragment \<Rightarrow> string \<Rightarrow> 's \<times> store_error option"
  delete_buy :: "'s \<Rightarrow> epoch \<Rightarrow> order_id \<Rightarrow> 's \<times> store_error option"
  each_buy :: "'s \<Rightarrow> epoch \<Rightarrow> (store_error + (fragment \<times> string)) list"
  put_sell :: "time \<Rightarrow> 's \<Rightarrow> epoch \<Rightarrow> fragment \<Rightarrow> string \<Rightarrow> 's \<times> store_error option"
  delete_sell :: "'s \<Rightarrow> epoch \<Rightarrow> order_id \<Rightarrow> 's \<times> store_error option"
  each_sell :: "'s \<Rightarrow> epoch \<Rightarrow> (store_error + (fragment \<times> string)) list"

text \<open>The LevelDB tables; their iterators are always made without an error, and the loop of the generator reads
  the cursor after every step.\<close>

definition leveldb_fragment_store :: "'db leveldb \<Rightarrow> codecs \<Rightarrow> 'db fragment_store" where
  "leveldb_fragment_store L C = \<lparr>
     put_buy = PutBuyOrderFragment L (somer_json C),
     delete_buy = DeleteBuyOrderFragment L,
     each_buy = (\<lambda>db epoch. iter_results (somer_fragment_cursor (somer_json C)) (BuyOrderFragments L db epoch)),
     put_sell = PutSellOrderFragment L (somer_json C),
     delete_sell = DeleteSellOrderFragment L,
     each_sell = (\<lambda>db epoch. iter_results (somer_fragment_cursor (somer_json C)) (SellOrderFragments L db epoch))\<rparr>"

subsection \<open>The matrix of an epoch\<close>

text \<open>The loop over the opposite fragments: \<open>pair\<close> makes the computation.\<close>

fun generate_loop :: "string \<Rightarrow> (nat \<Rightarrow> fragment \<Rightarrow> computation) \<Rightarrow> nat \<Rightarrow> (store_error + (fragment \<times> string)) list \<Rightarrow> computation list" where
  "generate_loop trader pair j [] = []"
| "generate_loop trader pair j (Inl _ # rs) = generate_loop trader pair (Suc j) rs"
| "generate_loop trader pair j (Inr (f, t) # rs) =
     (if t = trader then generate_loop trader pair (Suc j) rs
      else pair j f # generate_loop trader pair (Suc j) rs)"

definition insertOrderFragment ::
    "'s fragment_store \<Rightarrow> keccak \<Rightarrow> epoch \<Rightarrow> (nat \<Rightarrow> time) \<Rightarrow> 's \<Rightarrow> fragment \<Rightarrow> string \<Rightarrow> 's \<times> computation list" where
  "insertOrderFragment G keccak epoch now s f trader =
     (if OrderParity f = ParityBuy then
        (case put_buy G (now 0) s epoch f trader of
           (s, Some _) \<Rightarrow> (s, [])
         | (s, None) \<Rightarrow>
             (s, generate_loop trader (\<lambda>j g. NewComputation keccak (now (Suc j)) (EpochHash epoch) f g ComputationStateNil False) 0
                   (each_sell G s epoch)))
      else
        (case put_sell G (now 0) s epoch f trader of
           (s, Some _) \<Rightarrow> (s, [])
         | (s, None) \<Rightarrow>
             (s, generate_loop trader (\<lambda>j g. NewComputation keccak (now (Suc j)) (EpochHash epoch) g f ComputationStateNil False) 0
                   (each_buy G s epoch))))"

definition removeOrderFragment :: "'s fragment_store \<Rightarrow> epoch \<Rightarrow> 's \<Rightarrow> order_id \<Rightarrow> 's" where
  "removeOrderFragment G epoch s orderID = fst (delete_sell G (fst (delete_buy G s epoch orderID)) epoch orderID)"

definition handleNotification ::
    "'s fragment_store \<Rightarrow> keccak \<Rightarrow> epoch \<Rightarrow> (nat \<Rightarrow> time) \<Rightarrow> 's \<Rightarrow> notification \<Rightarrow> 's \<times> computation list" where
  "handleNotification G keccak epoch now s n =
     (case n of
        NotificationOpenOrder _ f trader \<Rightarrow> insertOrderFragment G keccak epoch now s f trader
      | NotificationConfirmOrder orderID \<Rightarrow> (removeOrderFragment G epoch s orderID, [])
      | NotificationCancelOrder orderID \<Rightarrow> (removeOrderFragment G epoch s orderID, []))"

subsection \<open>The generator\<close>

record generator =
  matCurr :: "epoch option"
  matPrev :: "epoch option"

definition Generator_OnChangeEpoch :: "generator \<Rightarrow> epoch \<Rightarrow> generator" where
  "Generator_OnChangeEpoch gen epoch = gen\<lparr>matPrev := matCurr gen, matCurr := Some epoch\<rparr>"

definition route_to where
  "route_to G keccak now mat s n =
     (case mat of None \<Rightarrow> (s, []) | Some epoch \<Rightarrow> handleNotification G keccak epoch now s n)"

definition routeNotificationOpenOrder where
  "routeNotificationOpenOrder G keccak now gen s n f =
     (if EpochDepth f = 0 then route_to G keccak now (matCurr gen) s n
      else if EpochDepth f = 1 then route_to G keccak now (matPrev gen) s n
      else (s, []))"

definition routeNotification ::
    "'s fragment_store \<Rightarrow> keccak \<Rightarrow> (nat \<Rightarrow> time) \<times> (nat \<Rightarrow> time) \<Rightarrow> generator \<Rightarrow> 's \<Rightarrow> notification \<Rightarrow> 's \<times> computation list" where
  "routeNotification G keccak now gen s n =
     (case n of
        NotificationOpenOrder _ f _ \<Rightarrow> routeNotificationOpenOrder G keccak (fst now) gen s n f
      | _ \<Rightarrow>
          (case route_to G keccak (fst now) (matCurr gen) s n of
             (s, cs) \<Rightarrow> (case route_to G keccak (snd now) (matPrev gen) s n of (s, cs') \<Rightarrow> (s, cs @ cs'))))"

text \<open>The notifications a matrix handles, one after the other.\<close>

fun matrix_run where
  "matrix_run G keccak epoch s [] = (s, [])"
| "matrix_run G keccak epoch s ((now, n) # ns) =
     (case handleNotification G keccak epoch now s n of
        (s, cs) \<Rightarrow> (case matrix_run G keccak epoch s ns of (s, cs') \<Rightarrow> (s, cs @ cs')))"

lemma matrix_run_append:
  "matrix_run G keccak epoch s (ns @ ms) =
     (case matrix_run G keccak epoch s ns of (s, cs) \<Rightarrow> (case matrix_run G keccak epoch s ms of (s, cs') \<Rightarrow> (s, cs @ cs')))"
  by (induction ns arbitrary: s) (auto split: prod.splits)

subsection \<open>The contract of the store\<close>

text \<open>\<open>B\<close> and \<open>A\<close> are the buy and sell fragments held for an epoch; \<open>inv\<close> is the invariant of the state.\<close>

definition holds_all :: "(store_error + (fragment \<times> string)) list \<Rightarrow> (order_id \<Rightarrow> (fragment \<times> string) option) \<Rightarrow> bool" where
  "holds_all rs m \<longleftrightarrow> (\<exists>xs. rs = map Inr xs \<and> distinct (map (\<lambda>x. OrderID (fst x)) xs) \<and>
     (\<forall>x. x \<in> set xs \<longleftrightarrow> OrderID (fst x) \<noteq> greatest_id \<and> m (OrderID (fst x)) = Some x))"

locale fragment_stores =
  fixes G :: "'s fragment_store" and B A :: "'s \<Rightarrow> bytes \<Rightarrow> order_id \<Rightarrow> (fragment \<times> string) option" and inv :: "'s \<Rightarrow> bool"
  assumes put_buy: "inv s \<Longrightarrow> length (EpochHash epoch) = 32 \<Longrightarrow> length (OrderID f) = 32 \<Longrightarrow>
      \<exists>s'. put_buy G now s epoch f tr = (s', None) \<and> inv s' \<and> A s' = A s \<and>
        B s' = (B s)(EpochHash epoch := (B s (EpochHash epoch))(OrderID f \<mapsto> (f, tr)))"
    and put_sell: "inv s \<Longrightarrow> length (EpochHash epoch) = 32 \<Longrightarrow> length (OrderID f) = 32 \<Longrightarrow>
      \<exists>s'. put_sell G now s epoch f tr = (s', None) \<and> inv s' \<and> B s' = B s \<and>
        A s' = (A s)(EpochHash epoch := (A s (EpochHash epoch))(OrderID f \<mapsto> (f, tr)))"
    and delete_buy: "inv s \<Longrightarrow> length (EpochHash epoch) = 32 \<Longrightarrow>
      \<exists>s'. delete_buy G s epoch i = (s', None) \<and> inv s' \<and> A s' = A s \<and>
        B s' = (B s)(EpochHash epoch := (B s (EpochHash epoch))(i := None))"
    and delete_sell: "inv s \<Longrightarrow> length (EpochHash epoch) = 32 \<Longrightarrow>
      \<exists>s'. delete_sell G s epoch i = (s', None) \<and> inv s' \<and> B s' = B s \<and>
        A s' = (A s)(EpochHash epoch := (A s (EpochHash epoch))(i := None))"
    and each_buy: "inv s \<Longrightarrow> length (EpochHash epoch) = 32 \<Longrightarrow> holds_all (each_buy G s epoch) (B s (EpochHash epoch))"
    and each_sell: "inv s \<Longrightarrow> length (EpochHash epoch) = 32 \<Longrightarrow> holds_all (each_sell G s epoch) (A s (EpochHash epoch))"

subsection \<open>Every pair is generated once\<close>

definition pair_of :: "computation \<Rightarrow> fragment \<times> fragment" where
  "pair_of c = (Buy c, Sell c)"

lemma generate_loop_map:
  assumes "\<And>k g. sel (pair k g) = h g"
  shows "map sel (generate_loop tr pair j (map Inr xs)) = map (\<lambda>x. h (fst x)) (filter (\<lambda>x. snd x \<noteq> tr) xs)"
proof (induction xs arbitrary: j)
  case (Cons x xs)
  then show ?case using assms by (cases x) simp
qed simp

definition buy_of :: "(fragment \<times> string) list \<Rightarrow> fragment \<times> string \<Rightarrow> bool" where
  "buy_of es x \<longleftrightarrow> x \<in> set es \<and> OrderParity (fst x) = ParityBuy"

definition sell_of :: "(fragment \<times> string) list \<Rightarrow> fragment \<times> string \<Rightarrow> bool" where
  "sell_of es x \<longleftrightarrow> x \<in> set es \<and> OrderParity (fst x) \<noteq> ParityBuy"

definition pairs_of :: "(fragment \<times> string) list \<Rightarrow> (fragment \<times> fragment) set" where
  "pairs_of es = {(fst b, fst a) | b a. buy_of es b \<and> sell_of es a \<and> snd b \<noteq> snd a}"

definition opened :: "fragment \<times> string \<Rightarrow> notification" where
  "opened x = NotificationOpenOrder (OrderID (fst x)) (fst x) (snd x)"

definition opens_ok :: "(fragment \<times> string) list \<Rightarrow> bool" where
  "opens_ok es \<longleftrightarrow> distinct (map (\<lambda>x. OrderID (fst x)) es) \<and>
     (\<forall>x\<in>set es. length (OrderID (fst x)) = 32 \<and> OrderID (fst x) \<noteq> greatest_id)"

lemma opens_ok_snoc:
  "opens_ok (es @ [x]) \<longleftrightarrow> opens_ok es \<and> length (OrderID (fst x)) = 32 \<and> OrderID (fst x) \<noteq> greatest_id \<and>
     (\<forall>y\<in>set es. OrderID (fst y) \<noteq> OrderID (fst x))"
  unfolding opens_ok_def by (simp add: image_iff) metis

text \<open>The pairs of a fragment with the opposite ones.\<close>

lemma new_pairs:
  assumes "holds_all rs m" "\<And>i y. m i = Some y \<longleftrightarrow> P y \<and> OrderID (fst y) = i" "\<And>y. P y \<Longrightarrow> OrderID (fst y) \<noteq> greatest_id"
    and "\<And>k g. pair_of (pair k g) = c g" "inj c"
  shows "distinct (map pair_of (generate_loop tr pair 0 rs)) \<and>
    set (map pair_of (generate_loop tr pair 0 rs)) = {c (fst y) | y. P y \<and> snd y \<noteq> tr}"
proof -
  obtain xs where xs': "rs = map Inr xs" "distinct (map (\<lambda>x. OrderID (fst x)) xs)"
    "\<forall>x. x \<in> set xs \<longleftrightarrow> OrderID (fst x) \<noteq> greatest_id \<and> m (OrderID (fst x)) = Some x"
    using assms(1) unfolding holds_all_def by blast
  have "x \<in> set xs \<longleftrightarrow> P x" for x using xs'(3) assms(2) [of "OrderID (fst x)" x] assms(3) [of x] by blast
  note xs = xs'(1,2) this
  have m: "map pair_of (generate_loop tr pair 0 rs) = map (\<lambda>x. c (fst x)) (filter (\<lambda>x. snd x \<noteq> tr) xs)"
    unfolding xs(1) by (rule generate_loop_map) (rule assms(4))
  have "distinct (map (\<lambda>x. c (fst x)) xs)"
    unfolding distinct_map
  proof (intro conjI inj_onI)
    show "distinct xs" using xs(2) by (simp add: distinct_map)
    fix x y assume mem: "x \<in> set xs" "y \<in> set xs" and eq: "c (fst x) = c (fst y)"
    have "OrderID (fst x) = OrderID (fst y)" using injD [OF assms(5) eq] by simp
    then show "x = y" using xs(2) mem by (simp add: distinct_map inj_on_def)
  qed
  then have "distinct (map (\<lambda>x. c (fst x)) (filter (\<lambda>x. snd x \<noteq> tr) xs))" by (rule distinct_map_filter)
  moreover have "set (filter (\<lambda>x. snd x \<noteq> tr) xs) = {y. P y \<and> snd y \<noteq> tr}" using xs(3) by auto
  ultimately show ?thesis unfolding m set_map by blast
qed

lemma upd_entry:
  assumes "\<And>i y. m i = Some y \<longleftrightarrow> P y \<and> g y = i" "\<And>y. P y \<Longrightarrow> g y \<noteq> g z"
  shows "(m(g z \<mapsto> z)) i = Some y \<longleftrightarrow> (P y \<or> y = z) \<and> g y = i"
  using assms(1) [of i y] assms(2) [of y] by auto

context fragment_stores
begin

lemma insert_buy:
  assumes "inv s" "length (EpochHash epoch) = 32" "length (OrderID f) = 32" "OrderParity f = ParityBuy"
  shows "\<exists>s' pair. insertOrderFragment G keccak epoch now s f tr = (s', generate_loop tr pair 0 (each_sell G s' epoch)) \<and>
    inv s' \<and> A s' = A s \<and> B s' = (B s)(EpochHash epoch := (B s (EpochHash epoch))(OrderID f \<mapsto> (f, tr))) \<and>
    (\<forall>k g. pair_of (pair k g) = (f, g))"
  using put_buy [OF assms(1-3), of "now 0" tr] assms(4)
  by (force simp: insertOrderFragment_def pair_of_def NewComputation_def)

lemma insert_sell:
  assumes "inv s" "length (EpochHash epoch) = 32" "length (OrderID f) = 32" "OrderParity f \<noteq> ParityBuy"
  shows "\<exists>s' pair. insertOrderFragment G keccak epoch now s f tr = (s', generate_loop tr pair 0 (each_buy G s' epoch)) \<and>
    inv s' \<and> B s' = B s \<and> A s' = (A s)(EpochHash epoch := (A s (EpochHash epoch))(OrderID f \<mapsto> (f, tr))) \<and>
    (\<forall>k g. pair_of (pair k g) = (g, f))"
  using put_sell [OF assms(1-3), of "now 0" tr] assms(4)
  by (force simp: insertOrderFragment_def pair_of_def NewComputation_def)

text \<open>What a matrix holds and has sent after it was given the orders \<open>es\<close>.\<close>

definition matrix_inv :: "bytes \<Rightarrow> (fragment \<times> string) list \<Rightarrow> 's \<Rightarrow> computation list \<Rightarrow> bool" where
  "matrix_inv h es s cs \<longleftrightarrow> inv s \<and>
     (\<forall>i x. B s h i = Some x \<longleftrightarrow> buy_of es x \<and> OrderID (fst x) = i) \<and>
     (\<forall>i x. A s h i = Some x \<longleftrightarrow> sell_of es x \<and> OrderID (fst x) = i) \<and>
     distinct (map pair_of cs) \<and> set (map pair_of cs) = pairs_of es"

lemma matrix_step:
  assumes I: "matrix_inv (EpochHash epoch) es s cs" and h: "length (EpochHash epoch) = 32" and ok: "opens_ok (es @ [x])"
  shows "\<exists>s' cs'. handleNotification G keccak epoch now s (opened x) = (s', cs') \<and> matrix_inv (EpochHash epoch) (es @ [x]) s' (cs @ cs')"
proof -
  obtain f tr where x: "x = (f, tr)" by (cases x)
  note I' = I [unfolded matrix_inv_def]
  have id: "length (OrderID f) = 32" "\<And>y. y \<in> set es \<Longrightarrow> OrderID (fst y) \<noteq> OrderID f" "\<And>y. y \<in> set (es @ [x]) \<Longrightarrow> OrderID (fst y) \<noteq> greatest_id"
    using ok by (auto simp: opens_ok_snoc x) (auto simp: opens_ok_def)
  have fresh: "(f, b) \<notin> pairs_of es" "(b, f) \<notin> pairs_of es" for b
    using id(2) unfolding pairs_of_def buy_of_def sell_of_def by force+
  show ?thesis
  proof (cases "OrderParity f = ParityBuy")
    case True
    obtain s' pair where 1: "insertOrderFragment G keccak epoch now s f tr = (s', generate_loop tr pair 0 (each_sell G s' epoch))"
      "inv s'" "A s' = A s" "B s' = (B s)(EpochHash epoch := (B s (EpochHash epoch))(OrderID f \<mapsto> (f, tr)))" "\<And>k g. pair_of (pair k g) = (f, g)"
      using insert_buy [OF conjunct1 [OF I'] h id(1) True, of keccak now tr] by blast
    have b: "buy_of (es @ [x]) y \<longleftrightarrow> buy_of es y \<or> y = (f, tr)" "sell_of (es @ [x]) y \<longleftrightarrow> sell_of es y" for y
      using True by (auto simp: buy_of_def sell_of_def x)
    have "distinct (map pair_of (generate_loop tr pair 0 (each_sell G s' epoch))) \<and>
        set (map pair_of (generate_loop tr pair 0 (each_sell G s' epoch))) = {(f, fst y) | y. sell_of es y \<and> snd y \<noteq> tr}"
      by (rule new_pairs [OF each_sell [OF 1(2) h]]) (use I' 1(3,5) id(3) in \<open>auto simp: sell_of_def inj_def\<close>)
    moreover have "pairs_of (es @ [x]) = pairs_of es \<union> {(f, fst y) | y. sell_of es y \<and> snd y \<noteq> tr}"
      by (auto simp: pairs_of_def b)
    moreover have "(B s' (EpochHash epoch) i = Some y) = (buy_of (es @ [x]) y \<and> OrderID (fst y) = i)" for i y
      using upd_entry [of "B s (EpochHash epoch)" "buy_of es" "\<lambda>y. OrderID (fst y)" "(f, tr)" i y] I' id(2)
      by (simp add: 1(4) b) (metis buy_of_def)
    ultimately have "matrix_inv (EpochHash epoch) (es @ [x]) s' (cs @ generate_loop tr pair 0 (each_sell G s' epoch))"
      using I' 1(2,3) fresh(1) unfolding matrix_inv_def b by auto
    then show ?thesis using 1(1) by (simp add: handleNotification_def opened_def x)
  next
    case False
    obtain s' pair where 1: "insertOrderFragment G keccak epoch now s f tr = (s', generate_loop tr pair 0 (each_buy G s' epoch))"
      "inv s'" "B s' = B s" "A s' = (A s)(EpochHash epoch := (A s (EpochHash epoch))(OrderID f \<mapsto> (f, tr)))" "\<And>k g. pair_of (pair k g) = (g, f)"
      using insert_sell [OF conjunct1 [OF I'] h id(1) False, of keccak now tr] by blast
    have b: "sell_of (es @ [x]) y \<longleftrightarrow> sell_of es y \<or> y = (f, tr)" "buy_of (es @ [x]) y \<longleftrightarrow> buy_of es y" for y
      using False by (auto simp: buy_of_def sell_of_def x)
    have "distinct (map pair_of (generate_loop tr pair 0 (each_buy G s' epoch))) \<and>
        set (map pair_of (generate_loop tr pair 0 (each_buy G s' epoch))) = {(fst y, f) | y. buy_of es y \<and> snd y \<noteq> tr}"
      by (rule new_pairs [OF each_buy [OF 1(2) h]]) (use I' 1(3,5) id(3) in \<open>auto simp: buy_of_def inj_def\<close>)
    moreover have "pairs_of (es @ [x]) = pairs_of es \<union> {(fst y, f) | y. buy_of es y \<and> snd y \<noteq> tr}"
      by (auto simp: pairs_of_def b)
    moreover have "(A s' (EpochHash epoch) i = Some y) = (sell_of (es @ [x]) y \<and> OrderID (fst y) = i)" for i y
      using upd_entry [of "A s (EpochHash epoch)" "sell_of es" "\<lambda>y. OrderID (fst y)" "(f, tr)" i y] I' id(2)
      by (simp add: 1(4) b) (metis sell_of_def)
    ultimately have "matrix_inv (EpochHash epoch) (es @ [x]) s' (cs @ generate_loop tr pair 0 (each_buy G s' epoch))"
      using I' 1(2,3) fresh(2) unfolding matrix_inv_def b by auto
    then show ?thesis using 1(1) by (simp add: handleNotification_def opened_def x)
  qed
qed

lemma matrix_run_pairs:
  assumes "inv s" "length (EpochHash epoch) = 32" "B s (EpochHash epoch) = (\<lambda>_. None)" "A s (EpochHash epoch) = (\<lambda>_. None)"
    and "opens_ok es" "map snd evs = map opened es"
  shows "\<exists>s' cs. matrix_run G keccak epoch s evs = (s', cs) \<and> distinct (map pair_of cs) \<and> set (map pair_of cs) = pairs_of es"
proof -
  have "\<exists>s' cs. matrix_run G keccak epoch s evs = (s', cs) \<and> matrix_inv (EpochHash epoch) es s' cs"
    using assms(5,6)
  proof (induction es arbitrary: evs rule: rev_induct)
    case Nil
    then show ?case using assms(1-4) by (simp add: matrix_inv_def buy_of_def sell_of_def pairs_of_def)
  next
    case (snoc x es)
    obtain evs' now where evs: "evs = evs' @ [(now, opened x)]" "map snd evs' = map opened es"
      using snoc.prems(2) by (cases evs rule: rev_cases) auto
    obtain s1 cs where 1: "matrix_run G keccak epoch s evs' = (s1, cs)" "matrix_inv (EpochHash epoch) es s1 cs"
      using snoc.IH [OF _ evs(2)] snoc.prems(1) by (auto simp: opens_ok_snoc)
    show ?case using matrix_step [OF 1(2) assms(2) snoc.prems(1), of keccak now] 1(1)
      by (auto simp: evs(1) matrix_run_append)
  qed
  then show ?thesis unfolding matrix_inv_def by blast
qed

end

sublocale leveldb_faultless \<subseteq> generator: fragment_stores "leveldb_fragment_store L C"
  "\<lambda>db. buys_in C (content db)" "\<lambda>db. sells_in C (content db)" "\<lambda>db. content_ok C (content db)"
proof
  fix s and epoch :: epoch and f :: fragment and now tr i
  assume ok: "content_ok C (content s)" and h: "length (EpochHash epoch) = 32"
  note defs = leveldb_fragment_store_def
  {
    assume i: "length (OrderID f) = 32"
    obtain s' where p: "PutBuyOrderFragment L (somer_json C) now s epoch f tr = (s', None)"
      using table_put_faultless [OF codecs(5)] unfolding PutBuyOrderFragment_def by blast
    show "\<exists>s'. put_buy (leveldb_fragment_store L C) now s epoch f tr = (s', None) \<and> content_ok C (content s') \<and>
        sells_in C (content s') = sells_in C (content s) \<and>
        buys_in C (content s') = (buys_in C (content s))(EpochHash epoch := (buys_in C (content s) (EpochHash epoch))(OrderID f \<mapsto> (f, tr)))"
      using p PutBuyOrderFragment_ok [OF ok h i p] PutBuyOrderFragment_done [OF h p] PutBuyOrderFragment_other(4) [OF p] by (simp add: defs)
    obtain s' where q: "PutSellOrderFragment L (somer_json C) now s epoch f tr = (s', None)"
      using table_put_faultless [OF codecs(5)] unfolding PutSellOrderFragment_def by blast
    show "\<exists>s'. put_sell (leveldb_fragment_store L C) now s epoch f tr = (s', None) \<and> content_ok C (content s') \<and>
        buys_in C (content s') = buys_in C (content s) \<and>
        sells_in C (content s') = (sells_in C (content s))(EpochHash epoch := (sells_in C (content s) (EpochHash epoch))(OrderID f \<mapsto> (f, tr)))"
      using q PutSellOrderFragment_ok [OF ok h i q] PutSellOrderFragment_done [OF h q] PutSellOrderFragment_other(4) [OF q] by (simp add: defs)
  }
  obtain s' where p: "DeleteBuyOrderFragment L s epoch i = (s', None)"
    using table_delete_faultless unfolding DeleteBuyOrderFragment_def by blast
  show "\<exists>s'. delete_buy (leveldb_fragment_store L C) s epoch i = (s', None) \<and> content_ok C (content s') \<and>
      sells_in C (content s') = sells_in C (content s) \<and>
      buys_in C (content s') = (buys_in C (content s))(EpochHash epoch := (buys_in C (content s) (EpochHash epoch))(i := None))"
    using p deletes_ok(4) [OF ok p] DeleteBuyOrderFragment_done [OF h p] DeleteBuyOrderFragment_other(4) [OF p] by (simp add: defs)
  obtain s' where q: "DeleteSellOrderFragment L s epoch i = (s', None)"
    using table_delete_faultless unfolding DeleteSellOrderFragment_def by blast
  show "\<exists>s'. delete_sell (leveldb_fragment_store L C) s epoch i = (s', None) \<and> content_ok C (content s') \<and>
      buys_in C (content s') = buys_in C (content s) \<and>
      sells_in C (content s') = (sells_in C (content s))(EpochHash epoch := (sells_in C (content s) (EpochHash epoch))(i := None))"
    using q deletes_ok(5) [OF ok q] DeleteSellOrderFragment_done [OF h q] DeleteSellOrderFragment_other(4) [OF q] by (simp add: defs)
  show "holds_all (each_buy (leveldb_fragment_store L C) s epoch) (buys_in C (content s) (EpochHash epoch))"
    using BuyOrderFragments_iterate [OF ok h] iterator_faultless by (simp add: holds_all_def defs BuyOrderFragments_def)
  show "holds_all (each_sell (leveldb_fragment_store L C) s epoch) (sells_in C (content s) (EpochHash epoch))"
    using SellOrderFragments_iterate [OF ok h] iterator_faultless by (simp add: holds_all_def defs SellOrderFragments_def)
qed

context leveldb_faultless
begin

text \<open>A matrix over the LevelDB tables.\<close>

lemma leveldb_matrix_run:
  assumes "content_ok C (content db)" "length (EpochHash epoch) = 32"
    and "buys_in C (content db) (EpochHash epoch) = (\<lambda>_. None)" "sells_in C (content db) (EpochHash epoch) = (\<lambda>_. None)"
    and "opens_ok es" "map snd evs = map opened es"
  shows "\<exists>db' cs. matrix_run (leveldb_fragment_store L C) keccak epoch db evs = (db', cs) \<and>
    distinct (map pair_of cs) \<and> set (map pair_of cs) = pairs_of es"
  using assms by (rule generator.matrix_run_pairs)

end

end
