(* ===== verification/Ome_Confirmer.thy ===== *)
theory Ome_Confirmer
  imports Ome_Generator
begin

section \<open>Confirming matches: \<^verbatim>\<open>ome/confirmer.go\<close>\<close>

text \<open>
  The confirmer submits every match to the contract and then polls: once the contract has confirmed
  an order, deep enough in the chain, the computation of the confirmed pair is passed on, unless one
  of its orders was passed on within the last hour.

  The orders that are being confirmed are maps with empty values, here lists of different keys;
  \<open>rng\<close> is the order a \<^verbatim>\<open>range\<close> loop visits them in. A key that is deleted before the loop comes
  to it is not visited. The contract and the store of computations are parameters; \<open>now ord j\<close> is
  the clock when it is read for the \<open>j\<close>-th time in the round of \<open>ord\<close>.
\<close>

subsection \<open>State\<close>

record 's computation_store =
  cs_put :: "time \<Rightarrow> 's \<Rightarrow> computation \<Rightarrow> 's \<times> store_error option"
  cs_get :: "'s \<Rightarrow> computation_id \<Rightarrow> store_error + computation"

definition leveldb_computation_store :: "'db leveldb \<Rightarrow> codecs \<Rightarrow> 'db computation_store" where
  "leveldb_computation_store L C = \<lparr>cs_put = PutComputation L (computation_json C), cs_get = Computation_lookup L (computation_json C)\<rparr>"

record contract_view =
  c_depth :: "order_id \<Rightarrow> string + nat"
  c_status :: "order_id \<Rightarrow> string + status"
  c_match :: "order_id \<Rightarrow> string + order_id"

record confirmer =
  confirmingBuyOrders :: "order_id list"
  confirmingSellOrders :: "order_id list"
  confirmed :: "order_id \<Rightarrow> time option"

definition NewConfirmer :: confirmer where
  "NewConfirmer = \<lparr>confirmingBuyOrders = [], confirmingSellOrders = [], confirmed = (\<lambda>_. None)\<rparr>"

datatype confirmer_error = ErrOrderNotConfirmed | ErrContract string | ErrStore store_error

subsection \<open>Operations\<close>

text \<open>A match that comes in: whether it is submitted to the contract.\<close>

definition confirm_receive :: "confirmer \<Rightarrow> computation \<Rightarrow> confirmer \<times> (order_id \<times> order_id) list" where
  "confirm_receive cf com =
     (if confirmed cf (OrderID (Buy com)) \<noteq> None \<or> confirmed cf (OrderID (Sell com)) \<noteq> None then (cf, [])
      else
        (cf\<lparr>confirmingBuyOrders := List.insert (OrderID (Buy com)) (confirmingBuyOrders cf),
            confirmingSellOrders := List.insert (OrderID (Sell com)) (confirmingSellOrders cf)\<rparr>,
         [(OrderID (Buy com), OrderID (Sell com))]))"

definition checkOrderForConfirmationFinality ::
    "contract_view \<Rightarrow> nat \<Rightarrow> confirmer \<Rightarrow> order_id \<Rightarrow> parity \<Rightarrow> confirmer \<times> (confirmer_error + order_id)" where
  "checkOrderForConfirmationFinality contract blockDepth cf ord orderParity =
     (case c_depth contract ord of
        Inl err \<Rightarrow> (cf, Inl (ErrContract err))
      | Inr depth \<Rightarrow>
          if depth < blockDepth then (cf, Inl ErrOrderNotConfirmed)
          else
            (case c_status contract ord of
               Inl err \<Rightarrow> (cf, Inl (ErrContract err))
             | Inr status \<Rightarrow>
                 if status \<noteq> StatusConfirmed then
                   (if orderParity = ParityBuy
                    then cf\<lparr>confirmingBuyOrders := removeAll ord (confirmingBuyOrders cf)\<rparr>
                    else cf\<lparr>confirmingSellOrders := removeAll ord (confirmingSellOrders cf)\<rparr>,
                    Inl ErrOrderNotConfirmed)
                 else
                   (case c_match contract ord of
                      Inl err \<Rightarrow> (cf, Inl (ErrContract err))
                    | Inr m \<Rightarrow> (cf, Inr m))))"

definition computationFromOrders ::
    "keccak \<Rightarrow> 's computation_store \<Rightarrow> time \<Rightarrow> 's \<Rightarrow> parity \<Rightarrow> order_id \<Rightarrow> order_id \<Rightarrow> store_error + computation" where
  "computationFromOrders keccak K now s orderParity ord ordMatch =
     (let comID = (\<lambda>depth. if orderParity = ParityBuy then NewComputationID keccak ord ordMatch depth
                            else NewComputationID keccak ordMatch ord depth);
          found = (case cs_get K s (comID 0) of Inr com \<Rightarrow> Inr com | Inl _ \<Rightarrow> cs_get K s (comID 1))
      in case found of
           Inl err \<Rightarrow> Inl err
         | Inr com \<Rightarrow> Inr (com\<lparr>State := ComputationStateAccepted, Timestamp := now\<rparr>))"

text \<open>The round for one order: the state, the store, the computations passed on and the errors sent.\<close>

definition check_round ::
    "keccak \<Rightarrow> 's computation_store \<Rightarrow> contract_view \<Rightarrow> nat \<Rightarrow> (nat \<Rightarrow> time) \<Rightarrow> parity \<Rightarrow> order_id \<Rightarrow> confirmer \<Rightarrow> 's \<Rightarrow>
     confirmer \<times> 's \<times> computation list \<times> confirmer_error list" where
  "check_round keccak K contract blockDepth now orderParity ord cf s =
     (case checkOrderForConfirmationFinality contract blockDepth cf ord orderParity of
        (cf, Inl err) \<Rightarrow> (cf, s, [], if err = ErrOrderNotConfirmed then [] else [err])
      | (cf, Inr ordMatch) \<Rightarrow>
          (case computationFromOrders keccak K (now 0) s orderParity ord ordMatch of
             Inl err \<Rightarrow>
               (if orderParity = ParityBuy
                then cf\<lparr>confirmingBuyOrders := removeAll ord (confirmingBuyOrders cf),
                        confirmingSellOrders := removeAll ordMatch (confirmingSellOrders cf)\<rparr>
                else cf\<lparr>confirmingBuyOrders := removeAll ordMatch (confirmingBuyOrders cf),
                        confirmingSellOrders := removeAll ord (confirmingSellOrders cf)\<rparr>,
                s, [], [ErrStore err])
           | Inr com \<Rightarrow>
               (case cs_put K (now 1) s com of
                  (s, e) \<Rightarrow>
                    (let errs = (case e of Some err \<Rightarrow> [ErrStore err] | None \<Rightarrow> []) in
                     if confirmed cf (OrderID (Buy com)) \<noteq> None \<or> confirmed cf (OrderID (Sell com)) \<noteq> None then (cf, s, [], errs)
                     else
                       (cf\<lparr>confirmingBuyOrders := removeAll (OrderID (Buy com)) (confirmingBuyOrders cf),
                           confirmingSellOrders := removeAll (OrderID (Sell com)) (confirmingSellOrders cf),
                           confirmed := (confirmed cf)(OrderID (Buy com) \<mapsto> now 2, OrderID (Sell com) \<mapsto> now 3)\<rparr>,
                        s, [com], errs)))))"

definition confirming :: "parity \<Rightarrow> confirmer \<Rightarrow> order_id list" where
  "confirming orderParity cf = (if orderParity = ParityBuy then confirmingBuyOrders cf else confirmingSellOrders cf)"

fun check_loop where
  "check_loop keccak K contract blockDepth now orderParity [] cf s = (cf, s, [], [])"
| "check_loop keccak K contract blockDepth now orderParity (ord # ords) cf s =
     (if ord \<in> set (confirming orderParity cf) then
        (case check_round keccak K contract blockDepth (now ord) orderParity ord cf s of
           (cf, s, out, errs) \<Rightarrow>
             (case check_loop keccak K contract blockDepth now orderParity ords cf s of
                (cf, s, outs, errs') \<Rightarrow> (cf, s, out @ outs, errs @ errs')))
      else check_loop keccak K contract blockDepth now orderParity ords cf s)"

definition checkOrdersForConfirmationFinality where
  "checkOrdersForConfirmationFinality keccak K rng contract blockDepth now orderParity cf s =
     check_loop keccak K contract blockDepth now orderParity (rng (confirming orderParity cf)) cf s"

definition forget_old :: "time \<Rightarrow> confirmer \<Rightarrow> confirmer" where
  "forget_old now cf =
     cf\<lparr>confirmed := (\<lambda>k. case confirmed cf k of None \<Rightarrow> None
         | Some t \<Rightarrow> if now - t > 3600 * 1000000000 then None else Some t)\<rparr>"

text \<open>A tick of the poll; \<open>forget\<close> is the clock of the clean-up.\<close>

record tick =
  rng_buy :: "order_id list \<Rightarrow> order_id list"
  rng_sell :: "order_id list \<Rightarrow> order_id list"
  view_buy :: contract_view
  view_sell :: contract_view
  now_buy :: "order_id \<Rightarrow> nat \<Rightarrow> time"
  now_sell :: "order_id \<Rightarrow> nat \<Rightarrow> time"
  forget :: time

definition confirm_tick where
  "confirm_tick keccak K blockDepth tk cf s =
     (case checkOrdersForConfirmationFinality keccak K (rng_buy tk) (view_buy tk) blockDepth (now_buy tk) ParityBuy cf s of
        (cf, s, outs, errs) \<Rightarrow>
          (case checkOrdersForConfirmationFinality keccak K (rng_sell tk) (view_sell tk) blockDepth (now_sell tk) ParitySell cf s of
             (cf, s, outs', errs') \<Rightarrow> (forget_old (forget tk) cf, s, outs @ outs', errs @ errs')))"

datatype confirm_event = Receives computation | Ticks tick

fun confirm_run where
  "confirm_run keccak K blockDepth cf s [] = (cf, s, [])"
| "confirm_run keccak K blockDepth cf s (Receives com # evs) = confirm_run keccak K blockDepth (fst (confirm_receive cf com)) s evs"
| "confirm_run keccak K blockDepth cf s (Ticks tk # evs) =
     (case confirm_tick keccak K blockDepth tk cf s of
        (cf, s, outs, _) \<Rightarrow> (case confirm_run keccak K blockDepth cf s evs of (cf, s, outs') \<Rightarrow> (cf, s, outs @ outs')))"

subsection \<open>No order is confirmed twice\<close>

definition orders_in :: "computation \<Rightarrow> order_id set" where
  "orders_in com = {OrderID (Buy com), OrderID (Sell com)}"

text \<open>No two computations of a list share an order.\<close>

fun no_order_twice :: "computation list \<Rightarrow> bool" where
  "no_order_twice [] = True"
| "no_order_twice (c # cs) \<longleftrightarrow> (\<forall>d\<in>set cs. orders_in c \<inter> orders_in d = {}) \<and> no_order_twice cs"

lemma no_order_twice_append:
  "no_order_twice (cs @ ds) \<longleftrightarrow> no_order_twice cs \<and> no_order_twice ds \<and> (\<forall>c\<in>set cs. \<forall>d\<in>set ds. orders_in c \<inter> orders_in d = {})"
  by (induction cs) auto

text \<open>What a step does to the confirmed orders: it passes on computations whose orders were not among them, and
  adds these.\<close>

definition confirms :: "time set \<Rightarrow> confirmer \<Rightarrow> computation list \<Rightarrow> confirmer \<Rightarrow> bool" where
  "confirms T cf outs cf' \<longleftrightarrow> no_order_twice outs \<and> (\<forall>c\<in>set outs. orders_in c \<inter> dom (confirmed cf) = {}) \<and>
     dom (confirmed cf') = dom (confirmed cf) \<union> (\<Union>c\<in>set outs. orders_in c) \<and>
     (ran (confirmed cf) \<subseteq> T \<longrightarrow> ran (confirmed cf') \<subseteq> T)"

lemma confirms_extend:
  assumes "confirms T cf outs cf'" "no_order_twice outs'" "\<forall>c\<in>set outs'. orders_in c \<inter> dom (confirmed cf') = {}"
  shows "no_order_twice (outs @ outs') \<and> (\<forall>c\<in>set (outs @ outs'). orders_in c \<inter> dom (confirmed cf) = {})"
proof -
  have d: "dom (confirmed cf') = dom (confirmed cf) \<union> \<Union> (orders_in ` set outs)" using assms(1) by (simp add: confirms_def)
  have dis: "orders_in c \<inter> orders_in c' = {}" if "c \<in> set outs" "c' \<in> set outs'" for c c'
    using assms(3) that unfolding d by blast
  have dis': "orders_in c' \<inter> dom (confirmed cf) = {}" if "c' \<in> set outs'" for c'
    using assms(3) that unfolding d by blast
  show ?thesis using assms(1,2) dis dis' by (simp add: confirms_def no_order_twice_append ball_Un)
qed

lemma confirms_trans:
  assumes "confirms T cf outs cf'" "confirms T cf' outs' cf''"
  shows "confirms T cf (outs @ outs') cf''"
  using confirms_extend [OF assms(1), of outs'] assms by (simp add: confirms_def Un_assoc)

lemma confirms_refl: "confirmed cf' = confirmed cf \<Longrightarrow> confirms T cf [] cf'"
  by (simp add: confirms_def)

lemma finality_confirmed: "checkOrderForConfirmationFinality contract blockDepth cf ord par = (cf', r) \<Longrightarrow> confirmed cf' = confirmed cf"
  by (auto simp: checkOrderForConfirmationFinality_def split: sum.splits if_splits)

lemma ran_upd2: "ran (m(a \<mapsto> x, b \<mapsto> y)) \<subseteq> insert x (insert y (ran m))"
  by (auto simp: ran_def split: if_splits)

lemma check_round_confirms:
  assumes "check_round keccak K contract blockDepth now par ord cf s = (cf', s', outs, errs)" "\<And>j. now j \<in> T"
  shows "confirms T cf outs cf'"
proof -
  obtain cf1 r where f: "checkOrderForConfirmationFinality contract blockDepth cf ord par = (cf1, r)" by fastforce
  note c1 = finality_confirmed [OF f]
  show ?thesis
  proof (cases r)
    case (Inl err)
    then show ?thesis using assms(1) f c1 by (simp add: check_round_def confirms_refl)
  next
    case (Inr m)
    show ?thesis
    proof (cases "computationFromOrders keccak K (now 0) s par ord m")
      case (Inl err)
      then show ?thesis using assms(1) f c1 Inr by (auto simp: check_round_def confirms_refl)
    next
      case com: (Inr com)
      obtain s2 e where p: "cs_put K (now 1) s com = (s2, e)" by fastforce
      show ?thesis
      proof (cases "confirmed cf (OrderID (Buy com)) \<noteq> None \<or> confirmed cf (OrderID (Sell com)) \<noteq> None")
        case True
        then show ?thesis using assms(1) f c1 Inr com p by (simp add: check_round_def confirms_refl Let_def)
      next
        case False
        then have "outs = [com]" "confirmed cf' = (confirmed cf)(OrderID (Buy com) \<mapsto> now 2, OrderID (Sell com) \<mapsto> now 3)"
          using assms(1) f c1 Inr com p by (auto simp: check_round_def Let_def)
        moreover have "ran (confirmed cf') \<subseteq> T" if "ran (confirmed cf) \<subseteq> T"
          using that assms(2) ran_upd2 [of "confirmed cf" "OrderID (Buy com)" "now 2" "OrderID (Sell com)" "now 3"]
          unfolding calculation(2) by blast
        ultimately show ?thesis using False by (auto simp: confirms_def orders_in_def)
      qed
    qed
  qed
qed

lemma check_loop_confirms:
  assumes "\<And>ord j. now ord j \<in> T"
  shows "check_loop keccak K contract blockDepth now par ords cf s = (cf', s', outs, errs) \<Longrightarrow> confirms T cf outs cf'"
proof (induction ords arbitrary: cf s outs errs)
  case Nil
  then show ?case by (simp add: confirms_refl)
next
  case (Cons ord ords)
  show ?case
  proof (cases "ord \<in> set (confirming par cf)")
    case True
    obtain cf1 s1 o1 e1 where 1: "check_round keccak K contract blockDepth (now ord) par ord cf s = (cf1, s1, o1, e1)" by (cases "check_round keccak K contract blockDepth (now ord) par ord cf s")
    obtain o2 e2 where 2: "check_loop keccak K contract blockDepth now par ords cf1 s1 = (cf', s', o2, e2)" "outs = o1 @ o2"
      using Cons.prems True 1 by (auto split: prod.splits)
    show ?thesis unfolding 2(2) using check_round_confirms [OF 1 assms] Cons.IH [OF 2(1)] by (rule confirms_trans)
  next
    case False
    then show ?thesis using Cons by simp
  qed
qed

lemma forget_old_recent:
  assumes "ran (confirmed cf) \<subseteq> {t0..t0 + 3600 * 1000000000}" "now \<in> {t0..t0 + 3600 * 1000000000}"
  shows "confirmed (forget_old now cf) = confirmed cf"
proof
  fix k
  show "confirmed (forget_old now cf) k = confirmed cf k"
  proof (cases "confirmed cf k")
    case (Some t)
    then have "t \<in> {t0..t0 + 3600 * 1000000000}" using assms(1) by (auto simp: ran_def)
    then show ?thesis using assms(2) Some by (simp add: forget_old_def)
  qed (simp add: forget_old_def)
qed

text \<open>All clocks of a run read within an hour.\<close>

definition within :: "time set \<Rightarrow> confirm_event list \<Rightarrow> bool" where
  "within T evs \<longleftrightarrow> (\<forall>tk. Ticks tk \<in> set evs \<longrightarrow> (\<forall>ord j. now_buy tk ord j \<in> T \<and> now_sell tk ord j \<in> T) \<and> forget tk \<in> T)"

lemma confirm_tick_confirms:
  assumes "confirm_tick keccak K blockDepth tk cf s = (cf', s', outs, errs)" "ran (confirmed cf) \<subseteq> T"
    and T: "T = {t0..t0 + 3600 * 1000000000}" and "within T [Ticks tk]"
  shows "confirms T cf outs cf'"
proof -
  have now: "\<And>ord j. now_buy tk ord j \<in> T" "\<And>ord j. now_sell tk ord j \<in> T" "forget tk \<in> T"
    using assms(4) by (auto simp: within_def)
  obtain cf1 s1 o1 e1 where 1: "checkOrdersForConfirmationFinality keccak K (rng_buy tk) (view_buy tk) blockDepth (now_buy tk) ParityBuy cf s = (cf1, s1, o1, e1)"
    by (cases "checkOrdersForConfirmationFinality keccak K (rng_buy tk) (view_buy tk) blockDepth (now_buy tk) ParityBuy cf s")
  obtain cf2 s2 o2 e2 where 2: "checkOrdersForConfirmationFinality keccak K (rng_sell tk) (view_sell tk) blockDepth (now_sell tk) ParitySell cf1 s1 = (cf2, s2, o2, e2)"
    by (cases "checkOrdersForConfirmationFinality keccak K (rng_sell tk) (view_sell tk) blockDepth (now_sell tk) ParitySell cf1 s1")
  have r: "cf' = forget_old (forget tk) cf2" "outs = o1 @ o2" using assms(1) 1 2 by (simp_all add: confirm_tick_def)
  have c: "confirms T cf (o1 @ o2) cf2"
    using check_loop_confirms [OF now(1) 1 [unfolded checkOrdersForConfirmationFinality_def]]
      check_loop_confirms [OF now(2) 2 [unfolded checkOrdersForConfirmationFinality_def]] by (rule confirms_trans)
  then have "ran (confirmed cf2) \<subseteq> T" using assms(2) by (simp add: confirms_def)
  then have "confirmed cf' = confirmed cf2" using forget_old_recent now(3) r(1) T by simp
  then show ?thesis using c r(2) by (simp add: confirms_def)
qed

lemma confirm_receive_confirmed: "confirmed (fst (confirm_receive cf com)) = confirmed cf"
  by (simp add: confirm_receive_def)

lemma confirm_run_once:
  assumes T: "T = {t0..t0 + 3600 * 1000000000}"
  shows "ran (confirmed cf) \<subseteq> T \<Longrightarrow> within T evs \<Longrightarrow> confirm_run keccak K blockDepth cf s evs = (cf', s', outs) \<Longrightarrow>
    no_order_twice outs \<and> (\<forall>c\<in>set outs. orders_in c \<inter> dom (confirmed cf) = {})"
proof (induction evs arbitrary: cf s outs)
  case (Cons ev evs)
  have w: "within T evs" using Cons.prems(2) by (simp add: within_def)
  show ?case
  proof (cases ev)
    case (Receives com)
    then show ?thesis using Cons.IH [OF _ w, of "fst (confirm_receive cf com)" s outs] Cons.prems
      by (simp add: confirm_receive_confirmed)
  next
    case (Ticks tk)
    obtain cf1 s1 o1 e1 where 1: "confirm_tick keccak K blockDepth tk cf s = (cf1, s1, o1, e1)" by (cases "confirm_tick keccak K blockDepth tk cf s")
    obtain o2 where 2: "confirm_run keccak K blockDepth cf1 s1 evs = (cf', s', o2)" "outs = o1 @ o2"
      using Cons.prems(3) 1 Ticks by (auto split: prod.splits)
    have w1: "within T [Ticks tk]" using Cons.prems(2) Ticks by (simp add: within_def)
    note c = confirm_tick_confirms [OF 1 Cons.prems(1) T w1, unfolded confirms_def]
    have "no_order_twice o2" "\<forall>c\<in>set o2. orders_in c \<inter> dom (confirmed cf1) = {}"
      using Cons.IH [OF _ w 2(1)] c Cons.prems(1) by auto
    with confirm_tick_confirms [OF 1 Cons.prems(1) T w1] show ?thesis unfolding 2(2) by (rule confirms_extend)
  qed
qed simp

subsection \<open>Only what the contract has confirmed is passed on\<close>

text \<open>The contract has confirmed the order \<open>ord\<close> with \<open>m\<close>, at least \<open>blockDepth\<close> blocks ago.\<close>

definition final_match :: "contract_view \<Rightarrow> nat \<Rightarrow> order_id \<Rightarrow> order_id \<Rightarrow> bool" where
  "final_match contract blockDepth ord m \<longleftrightarrow> (\<exists>d\<ge>blockDepth. c_depth contract ord = Inr d) \<and>
     c_status contract ord = Inr StatusConfirmed \<and> c_match contract ord = Inr m"

text \<open>The computation was stored under the identifier of this match, at one of the two depths, and is now accepted.\<close>

definition accepted_from :: "keccak \<Rightarrow> 's computation_store \<Rightarrow> 's \<Rightarrow> order_id \<Rightarrow> order_id \<Rightarrow> computation \<Rightarrow> bool" where
  "accepted_from keccak K s buy sell com \<longleftrightarrow> State com = ComputationStateAccepted \<and>
     (\<exists>com0. (cs_get K s (NewComputationID keccak buy sell 0) = Inr com0 \<or> cs_get K s (NewComputationID keccak buy sell 1) = Inr com0) \<and>
       com = com0\<lparr>State := ComputationStateAccepted, Timestamp := Timestamp com\<rparr>)"

definition confirmed_by :: "keccak \<Rightarrow> 's computation_store \<Rightarrow> nat \<Rightarrow> contract_view \<Rightarrow> computation \<Rightarrow> bool" where
  "confirmed_by keccak K blockDepth contract com \<longleftrightarrow>
     (\<exists>s buy sell. accepted_from keccak K s buy sell com \<and>
        (final_match contract blockDepth buy sell \<or> final_match contract blockDepth sell buy))"

lemma finality_Inr:
  "checkOrderForConfirmationFinality contract blockDepth cf ord par = (cf', Inr m) \<Longrightarrow> final_match contract blockDepth ord m"
  by (auto simp: checkOrderForConfirmationFinality_def final_match_def not_less split: sum.splits if_splits)

lemma computationFromOrders_Inr:
  assumes "computationFromOrders keccak K t s par ord m = Inr com"
  shows "accepted_from keccak K s (if par = ParityBuy then ord else m) (if par = ParityBuy then m else ord) com"
  using assms by (auto simp: computationFromOrders_def accepted_from_def Let_def split: sum.splits if_splits)

lemma check_round_sound:
  assumes "check_round keccak K contract blockDepth now par ord cf s = (cf', s', outs, errs)" "com \<in> set outs"
  shows "confirmed_by keccak K blockDepth contract com"
proof -
  obtain cf1 m where f: "checkOrderForConfirmationFinality contract blockDepth cf ord par = (cf1, Inr m)"
    and c: "computationFromOrders keccak K (now 0) s par ord m = Inr com"
    using assms by (auto simp: check_round_def Let_def split: prod.splits sum.splits if_splits)
  show ?thesis using finality_Inr [OF f] computationFromOrders_Inr [OF c] unfolding confirmed_by_def
    by (cases "par = ParityBuy") auto
qed

lemma check_loop_sound:
  "check_loop keccak K contract blockDepth now par ords cf s = (cf', s', outs, errs) \<Longrightarrow> com \<in> set outs \<Longrightarrow>
   confirmed_by keccak K blockDepth contract com"
proof (induction ords arbitrary: cf s outs errs)
  case (Cons ord ords)
  show ?case
  proof (cases "ord \<in> set (confirming par cf)")
    case True
    obtain cf1 s1 o1 e1 where 1: "check_round keccak K contract blockDepth (now ord) par ord cf s = (cf1, s1, o1, e1)" by (cases "check_round keccak K contract blockDepth (now ord) par ord cf s")
    obtain o2 e2 where 2: "check_loop keccak K contract blockDepth now par ords cf1 s1 = (cf', s', o2, e2)" "outs = o1 @ o2"
      using Cons.prems True 1 by (auto split: prod.splits)
    then show ?thesis using check_round_sound [OF 1] Cons.IH [OF 2(1)] Cons.prems(2) by auto
  qed (use Cons in simp)
qed simp

lemma confirm_tick_sound:
  assumes "confirm_tick keccak K blockDepth tk cf s = (cf', s', outs, errs)" "com \<in> set outs"
  shows "confirmed_by keccak K blockDepth (view_buy tk) com \<or> confirmed_by keccak K blockDepth (view_sell tk) com"
  using assms check_loop_sound
  by (fastforce simp: confirm_tick_def checkOrdersForConfirmationFinality_def split: prod.splits)

lemma confirm_run_sound:
  "confirm_run keccak K blockDepth cf s evs = (cf', s', outs) \<Longrightarrow> com \<in> set outs \<Longrightarrow>
   \<exists>tk. Ticks tk \<in> set evs \<and>
     (confirmed_by keccak K blockDepth (view_buy tk) com \<or> confirmed_by keccak K blockDepth (view_sell tk) com)"
proof (induction evs arbitrary: cf s outs)
  case (Cons ev evs)
  show ?case
  proof (cases ev)
    case (Receives com')
    then show ?thesis using Cons.IH [of "fst (confirm_receive cf com')" s outs] Cons.prems by auto
  next
    case (Ticks tk)
    obtain cf1 s1 o1 e1 where 1: "confirm_tick keccak K blockDepth tk cf s = (cf1, s1, o1, e1)" by (cases "confirm_tick keccak K blockDepth tk cf s")
    obtain o2 where 2: "confirm_run keccak K blockDepth cf1 s1 evs = (cf', s', o2)" "outs = o1 @ o2"
      using Cons.prems(1) 1 Ticks by (auto split: prod.splits)
    then show ?thesis using confirm_tick_sound [OF 1] Cons.IH [OF 2(1)] Cons.prems(2) Ticks by auto
  qed
qed simp

end
