(* ===== verification/Ome.thy ===== *)
theory Ome
  imports Ome_Nodes Ome_Confirmer Registry
begin

section \<open>The engine of a node: \<^verbatim>\<open>ome/ome.go\<close>\<close>

text \<open>
  The engine ties the parts together. Computations of the generator go to the matcher, matches to the
  confirmer, confirmed matches to the settler. When an epoch begins, the engine connects to its network,
  tells the orderbook and the generator, and disconnects from the network of the epoch before the last.

  \<^verbatim>\<open>OnChangeEpoch\<close> checks the epoch and leaves the change to a goroutine, so a change can be pending while
  another epoch is observed: the check and the change are separate steps. The change holds the lock of the
  epochs, so it is one step.
\<close>

subsection \<open>State\<close>

record 'cb ome =
  ome_addr :: address
  epochCurr :: "epoch option"
  epochPrev :: "epoch option"
  ome_smpcer :: "'cb smpcer"
  ome_orderbook :: orderbook
  ome_gen :: generator

text \<open>The check of \<^verbatim>\<open>OnChangeEpoch\<close>: whether a change is started.\<close>

definition epoch_changed :: "'cb ome \<Rightarrow> epoch \<Rightarrow> bool" where
  "epoch_changed om epoch \<longleftrightarrow>
     \<not> (case epochCurr om of None \<Rightarrow> False | Some current \<Rightarrow> EpochHash epoch = EpochHash current)"

text \<open>The goroutine it starts. An epoch without a pod of this node is logged and skipped.\<close>

definition change_epoch :: "'cb ome \<Rightarrow> epoch \<Rightarrow> 'cb ome option" where
  "change_epoch om epoch =
     (case Epoch_Pod epoch (ome_addr om) of
        Inl _ \<Rightarrow> Some om
      | Inr pod \<Rightarrow>
          do { sm \<leftarrow> Smpcer_Connect (ome_smpcer om) (EpochHash epoch) (PodDarknodes pod);
               let ob = Orderbook_OnChangeEpoch (ome_orderbook om) epoch;
               let gen = Generator_OnChangeEpoch (ome_gen om) epoch;
               let sm = (case epochPrev om of None \<Rightarrow> sm | Some prev \<Rightarrow> Smpcer_Disconnect sm (EpochHash prev));
               Some (om\<lparr>epochCurr := Some epoch, epochPrev := epochCurr om, ome_smpcer := sm, ome_orderbook := ob, ome_gen := gen\<rparr>) })"

text \<open>The fields \<^verbatim>\<open>NewOme\<close> starts with; it then observes its first epoch. Orderbook and generator are new as well.\<close>

definition NewOme_fields :: "address \<Rightarrow> 'cb ome" where
  "NewOme_fields addr = \<lparr>ome_addr = addr, epochCurr = None, epochPrev = None, ome_smpcer = NewSmpcer,
     ome_orderbook = \<lparr>aggCurr = None, aggPrev = None\<rparr>, ome_gen = \<lparr>matCurr = None, matPrev = None\<rparr>\<rparr>"

subsection \<open>Interleavings\<close>

datatype ome_event = Observes epoch | Changes epoch

text \<open>The engine with the changes that are pending.\<close>

inductive ome_step :: "'cb ome \<times> epoch list \<Rightarrow> ome_event \<Rightarrow> 'cb ome \<times> epoch list \<Rightarrow> bool" where
  unchanged: "\<not> epoch_changed om epoch \<Longrightarrow> ome_step (om, ps) (Observes epoch) (om, ps)"
| observed: "epoch_changed om epoch \<Longrightarrow> ome_step (om, ps) (Observes epoch) (om, ps @ [epoch])"
| change: "epoch \<in> set ps \<Longrightarrow> change_epoch om epoch = Some om' \<Longrightarrow> ome_step (om, ps) (Changes epoch) (om', remove1 epoch ps)"

inductive ome_run :: "address \<Rightarrow> ome_event list \<Rightarrow> 'cb ome \<times> epoch list \<Rightarrow> bool" for addr :: address where
  init: "ome_run addr [] (NewOme_fields addr, [])"
| step: "ome_run addr evs s \<Longrightarrow> ome_step s ev s' \<Longrightarrow> ome_run addr (evs @ [ev]) s'"

inductive_cases ome_step_ChangesE: "ome_step s (Changes epoch) s'"
inductive_cases ome_step_ObservesE: "ome_step s (Observes epoch) s'"

text \<open>The changes of a run that are not skipped, by the hash of their epochs.\<close>

definition changes :: "address \<Rightarrow> ome_event list \<Rightarrow> bytes list" where
  "changes addr evs = concat (map (\<lambda>ev. case ev of Observes _ \<Rightarrow> []
     | Changes epoch \<Rightarrow> (case Epoch_Pod epoch addr of Inl _ \<Rightarrow> [] | Inr _ \<Rightarrow> [EpochHash epoch])) evs)"

definition hashes :: "epoch option \<Rightarrow> epoch option \<Rightarrow> bytes set" where
  "hashes c p = EpochHash ` (set_option c \<union> set_option p)"

lemma changes_snoc:
  "changes addr (evs @ [Observes e]) = changes addr evs"
  "changes addr (evs @ [Changes e]) = changes addr evs @ (case Epoch_Pod e addr of Inl _ \<Rightarrow> [] | Inr _ \<Rightarrow> [EpochHash e])"
  by (simp_all add: changes_def)

subsection \<open>The networks of a node\<close>

text \<open>Orderbook, generator and engine agree on the current and the previous epoch, and the node is connected to no
  other networks. As long as no epoch comes twice, it is connected to both.\<close>

definition ome_inv :: "address \<Rightarrow> bytes list \<Rightarrow> 'cb ome \<Rightarrow> bool" where
  "ome_inv addr chs om \<longleftrightarrow> ome_addr om = addr \<and>
     aggCurr (ome_orderbook om) = epochCurr om \<and> aggPrev (ome_orderbook om) = epochPrev om \<and>
     matCurr (ome_gen om) = epochCurr om \<and> matPrev (ome_gen om) = epochPrev om \<and>
     dom (joiners (ome_smpcer om)) \<subseteq> hashes (epochCurr om) (epochPrev om) \<and>
     hashes (epochCurr om) (epochPrev om) \<subseteq> set chs \<and>
     (distinct chs \<longrightarrow> hashes (epochCurr om) (epochPrev om) \<subseteq> dom (joiners (ome_smpcer om)) \<and>
        (\<forall>c p. epochCurr om = Some c \<longrightarrow> epochPrev om = Some p \<longrightarrow> EpochHash c \<noteq> EpochHash p))"

lemma Smpcer_Connect_joiners:
  "Smpcer_Connect st nid addrs = Some st' \<Longrightarrow> dom (joiners st') = insert nid (dom (joiners st))"
  by (auto simp: Smpcer_Connect_def split: bind_splits)

lemma Smpcer_Connect_ok: "\<exists>st'. Smpcer_Connect st nid addrs = Some st'"
  by (simp add: Smpcer_Connect_def NewJoiner_def smpc_threshold_def)

lemma Smpcer_Disconnect_joiners: "dom (joiners (Smpcer_Disconnect st nid)) = dom (joiners st) - {nid}"
  by (simp add: Smpcer_Disconnect_def)

text \<open>A change never panics.\<close>

lemma change_epoch_ok: "\<exists>om'. change_epoch om epoch = Some om'"
proof (cases "Epoch_Pod epoch (ome_addr om)")
  case (Inr pod)
  then show ?thesis using Smpcer_Connect_ok [of "ome_smpcer om" "EpochHash epoch" "PodDarknodes pod"]
    by (auto simp: change_epoch_def Let_def)
qed (simp add: change_epoch_def)

lemma change_epoch_effect:
  assumes "change_epoch om epoch = Some om'" "Epoch_Pod epoch (ome_addr om) = Inr pod"
  shows "epochCurr om' = Some epoch" "epochPrev om' = epochCurr om" "ome_addr om' = ome_addr om"
    "ome_orderbook om' = Orderbook_OnChangeEpoch (ome_orderbook om) epoch" "ome_gen om' = Generator_OnChangeEpoch (ome_gen om) epoch"
    "dom (joiners (ome_smpcer om')) = insert (EpochHash epoch) (dom (joiners (ome_smpcer om))) - EpochHash ` set_option (epochPrev om)"
proof -
  obtain sm where sm: "Smpcer_Connect (ome_smpcer om) (EpochHash epoch) (PodDarknodes pod) = Some sm" using Smpcer_Connect_ok by blast
  then have om': "om' = om\<lparr>epochCurr := Some epoch, epochPrev := epochCurr om,
      ome_smpcer := (case epochPrev om of None \<Rightarrow> sm | Some prev \<Rightarrow> Smpcer_Disconnect sm (EpochHash prev)),
      ome_orderbook := Orderbook_OnChangeEpoch (ome_orderbook om) epoch, ome_gen := Generator_OnChangeEpoch (ome_gen om) epoch\<rparr>"
    using assms by (simp add: change_epoch_def Let_def)
  show "epochCurr om' = Some epoch" "epochPrev om' = epochCurr om" "ome_addr om' = ome_addr om"
    "ome_orderbook om' = Orderbook_OnChangeEpoch (ome_orderbook om) epoch" "ome_gen om' = Generator_OnChangeEpoch (ome_gen om) epoch"
    by (simp_all add: om')
  show "dom (joiners (ome_smpcer om')) = insert (EpochHash epoch) (dom (joiners (ome_smpcer om))) - EpochHash ` set_option (epochPrev om)"
    by (cases "epochPrev om") (simp_all add: om' Smpcer_Connect_joiners [OF sm] Smpcer_Disconnect_joiners)
qed

lemma hashes_simps:
  "hashes None None = {}" "hashes (Some e) None = {EpochHash e}" "hashes (Some e) (Some f) = {EpochHash e, EpochHash f}"
  by (auto simp: hashes_def)

lemma ome_inv_init: "ome_inv addr [] (NewOme_fields addr)"
  by (simp add: ome_inv_def NewOme_fields_def hashes_simps NewSmpcer_def)

lemma change_epoch_inv:
  assumes I: "ome_inv addr chs om" and c: "change_epoch om epoch = Some om'" and p: "Epoch_Pod epoch addr = Inr pod"
  shows "ome_inv addr (chs @ [EpochHash epoch]) om'"
proof -
  have a: "ome_addr om = addr" using I by (simp add: ome_inv_def)
  note E = change_epoch_effect [OF c p [folded a]]
  have I': "dom (joiners (ome_smpcer om)) \<subseteq> hashes (epochCurr om) (epochPrev om)"
    "hashes (epochCurr om) (epochPrev om) \<subseteq> set chs" using I by (simp_all add: ome_inv_def)
  have D: "hashes (epochCurr om) (epochPrev om) \<subseteq> dom (joiners (ome_smpcer om))"
    "EpochHash ` set_option (epochCurr om) \<inter> EpochHash ` set_option (epochPrev om) = {}" if "distinct (chs @ [EpochHash epoch])"
    using I that by (auto simp: ome_inv_def)
  have 1: "dom (joiners (ome_smpcer om')) \<subseteq> hashes (epochCurr om') (epochPrev om')"
    unfolding E using I'(1) by (auto simp: hashes_def)
  have 2: "hashes (epochCurr om') (epochPrev om') \<subseteq> set (chs @ [EpochHash epoch])"
    unfolding E using I'(2) by (auto simp: hashes_def)
  have 3: "hashes (epochCurr om') (epochPrev om') \<subseteq> dom (joiners (ome_smpcer om'))"
    and 4: "EpochHash epoch \<notin> EpochHash ` set_option (epochCurr om)" if d: "distinct (chs @ [EpochHash epoch])"
    using D [OF d] d I'(2) unfolding E by (auto simp: hashes_def image_iff)
  show ?thesis using I 1 2 3 4 unfolding ome_inv_def
    by (auto simp: E Orderbook_OnChangeEpoch_def Generator_OnChangeEpoch_def)
qed

lemma ome_run_inv: "ome_run addr evs s \<Longrightarrow> ome_inv addr (changes addr evs) (fst s)"
proof (induction rule: ome_run.induct)
  case init
  then show ?case by (simp add: ome_inv_init changes_def)
next
  case (step evs s ev s')
  show ?case
  proof (cases ev)
    case (Observes e)
    then show ?thesis using step.IH step.hyps(2) by (auto simp: changes_snoc elim: ome_step_ObservesE)
  next
    case (Changes e)
    obtain om ps om' ps' where s: "s = (om, ps)" "s' = (om', ps')" "change_epoch om e = Some om'"
      using step.hyps(2) unfolding Changes by (auto elim: ome_step_ChangesE)
    have I: "ome_inv addr (changes addr evs) om" using step.IH s by simp
    then have a: "ome_addr om = addr" by (simp add: ome_inv_def)
    show ?thesis
    proof (cases "Epoch_Pod e addr")
      case (Inl err)
      then show ?thesis using I s a Changes by (simp add: changes_snoc change_epoch_def)
    next
      case (Inr pod)
      then show ?thesis using change_epoch_inv [OF I s(3) Inr] s Changes by (simp add: changes_snoc)
    qed
  qed
qed

text \<open>An epoch that comes back while it is the previous one: the change disconnects the network it has just connected.\<close>

lemma change_back_disconnects:
  assumes "change_epoch om epoch = Some om'" "Epoch_Pod epoch (ome_addr om) = Inr pod" "epochPrev om = Some prev" "EpochHash prev = EpochHash epoch"
  shows "epochCurr om' = Some epoch \<and> joiners (ome_smpcer om') (EpochHash epoch) = None"
proof -
  have "EpochHash epoch \<notin> dom (joiners (ome_smpcer om'))" using change_epoch_effect(6) [OF assms(1,2)] assms(3,4) by simp
  then show ?thesis using change_epoch_effect(1) [OF assms(1,2)] by auto
qed

subsection \<open>From the generator to the settler\<close>

text \<open>The callback that the engine gives the matcher passes the matches on to the confirmer.\<close>

definition sendComputationToConfirmer :: "matcher_out list \<Rightarrow> computation list" where
  "sendComputationToConfirmer outs = concat (map (\<lambda>out. case out of Callbacks com \<Rightarrow> (if Match com then [com] else []) | _ \<Rightarrow> []) outs)"

definition sendComputationToMatcher ::
    "nat \<Rightarrow> (resolve_stage \<Rightarrow> time \<times> time) \<Rightarrow> (join \<Rightarrow> u64 list option) \<Rightarrow> computation \<Rightarrow> computation list option" where
  "sendComputationToMatcher fuel clock J com =
     do { outs \<leftarrow> Resolve clock com; outs \<leftarrow> match_run fuel clock J outs; Some (sendComputationToConfirmer outs) }"

definition sendComputationToSettler :: "computation \<Rightarrow> network_id \<times> join" where
  "sendComputationToSettler com = Settle com"

lemma sendComputationToConfirmer_simps:
  "sendComputationToConfirmer (xs @ ys) = sendComputationToConfirmer xs @ sendComputationToConfirmer ys"
  "only_joins js \<Longrightarrow> sendComputationToConfirmer js = []"
  "sendComputationToConfirmer [Puts c, Callbacks d] = (if Match d then [d] else [])"
  by (auto simp: sendComputationToConfirmer_def only_joins_def split: matcher_out.splits)

text \<open>The confirmer is given the computation exactly when the orders match.\<close>

lemma nodes_confirm:
  fixes now :: "nat \<Rightarrow> time" and epoch :: bytes
  assumes n: "n < 2 ^ 63" and split: "Order_Split keccak buy n k rs = Some (Inr bfs, rs')"
      "Order_Split keccak sell n k qs = Some (Inr sfs, qs')"
    and nodes: "\<forall>j\<in>set nodes. j < nat n" "nat k \<le> card (set nodes)" and i: "i \<in> set nodes"
    and range: "order_in_range buy" "order_in_range sell"
  defines "coms \<equiv> map (node_computation keccak now epoch bfs sfs) nodes"
    and "com \<equiv> node_computation keccak now epoch bfs sfs i"
  assumes clock: "\<And>stage. \<not> isExpired (clock stage) com"
  shows "sendComputationToMatcher 8 clock (nodes_deliver k coms) com =
    Some (if orders_match buy sell then [com\<lparr>State := ComputationStateMatched, Match := True\<rparr>] else [])"
proof -
  obtain outs0 js where r: "Resolve clock com = Some outs0" "only_joins js"
    "match_run 8 clock (nodes_deliver k coms) outs0 =
      Some (js @ [Puts (verdict com (orders_match buy sell)), Callbacks (verdict com (orders_match buy sell))])"
    using nodes_match [OF n split nodes i range, of clock now epoch] clock unfolding coms_def com_def by blast
  show ?thesis by (simp add: sendComputationToMatcher_def r sendComputationToConfirmer_simps verdict_def)
qed

end
