(* ===== verification/Dht.thy ===== *)
theory Dht
  imports Identity "HOL-Library.Monad_Syntax" "HOL-Library.Multiset"
begin

section \<open>The table of peers: \<^verbatim>\<open>dht/dht.go\<close>\<close>

text \<open>
  A node keeps its peers in 160 buckets: the bucket of a peer is given by the length of the prefix that the
  two addresses share, so bucket \<open>i\<close> has the peers at a distance of at least \<open>2 ^ i\<close> and less than \<open>2 ^ (i + 1)\<close>. A
  bucket has a limited size and keeps its oldest peers.

  The source returns pointers to buckets; here they are indices. A result \<open>None\<close> is a panic.
\<close>

subsection \<open>State\<close>

record multi_address =
  MASignature :: bytes
  MAAddress :: address
  MABase :: string

record bucket =
  BMultiAddresses :: "multi_address list"
  MaxLength :: int

record dht =
  DAddress :: address
  Buckets :: "bucket list"

datatype dht_error = ErrFullBucket | ErrDHTAddress | ErrIdentity identity_error

definition IDLengthInBits :: nat where
  "IDLengthInBits = IDLength * 8"

text \<open>Making a slice with a negative capacity panics.\<close>

definition NewBucket :: "int \<Rightarrow> bucket option" where
  "NewBucket maxLength = (if maxLength < 0 then None else Some \<lparr>BMultiAddresses = [], MaxLength = maxLength\<rparr>)"

definition NewDHT :: "address \<Rightarrow> int \<Rightarrow> dht option" where
  "NewDHT addr maxBucketLength =
     do { bucket \<leftarrow> NewBucket maxBucketLength; Some \<lparr>DAddress = addr, Buckets = replicate IDLengthInBits bucket\<rparr> }"

subsection \<open>Buckets\<close>

definition Bucket_Length :: "bucket \<Rightarrow> nat" where
  "Bucket_Length bucket = length (BMultiAddresses bucket)"

definition IsFull :: "bucket \<Rightarrow> bool" where
  "IsFull bucket \<longleftrightarrow> int (Bucket_Length bucket) = MaxLength bucket"

fun find_loop :: "address \<Rightarrow> nat \<Rightarrow> multi_address list \<Rightarrow> (multi_address \<times> nat) option" where
  "find_loop target i [] = None"
| "find_loop target i (m # ms) = (if MAAddress m = target then Some (m, i) else find_loop target (Suc i) ms)"

definition Bucket_FindMultiAddress :: "bucket \<Rightarrow> address \<Rightarrow> (multi_address \<times> nat) option" where
  "Bucket_FindMultiAddress bucket target = find_loop target 0 (BMultiAddresses bucket)"

text \<open>The loop that moves the entries from position \<open>i\<close> on one place down.\<close>

fun shift_loop :: "nat \<Rightarrow> nat \<Rightarrow> multi_address list \<Rightarrow> multi_address list" where
  "shift_loop 0 i ms = ms"
| "shift_loop (Suc n) i ms = shift_loop n (Suc i) (ms[i - 1 := ms ! i])"

definition Bucket_UpdateMultiAddress :: "bucket \<Rightarrow> multi_address \<Rightarrow> bucket \<times> dht_error option" where
  "Bucket_UpdateMultiAddress bucket m =
     (case Bucket_FindMultiAddress bucket (MAAddress m) of
        None \<Rightarrow>
          if IsFull bucket then (bucket, Some ErrFullBucket)
          else (bucket\<lparr>BMultiAddresses := BMultiAddresses bucket @ [m]\<rparr>, None)
      | Some (_, position) \<Rightarrow>
          (let ms = shift_loop (Bucket_Length bucket - (position + 1)) (position + 1) (BMultiAddresses bucket)
           in (bucket\<lparr>BMultiAddresses := ms[Bucket_Length bucket - 1 := m]\<rparr>, None)))"

definition Buckets_MultiAddresses :: "bucket list \<Rightarrow> multi_address list" where
  "Buckets_MultiAddresses buckets = concat (map BMultiAddresses buckets)"

subsection \<open>The table\<close>

definition findBucket :: "dht \<Rightarrow> address \<Rightarrow> (dht_error + nat) option" where
  "findBucket d target =
     do { r \<leftarrow> SamePrefixLength (DAddress d) target;
          case r of
            Inl err \<Rightarrow> Some (Inl (ErrIdentity err))
          | Inr same \<Rightarrow>
              if same = IDLengthInBits then Some (Inl ErrDHTAddress)
              else
                let index = int (length (Buckets d)) - int same - 1 in
                if index < 0 \<or> index > int (length (Buckets d)) - 1 then None
                else Some (Inr (nat index)) }"

definition updateMultiAddress :: "dht \<Rightarrow> multi_address \<Rightarrow> (dht \<times> dht_error option) option" where
  "updateMultiAddress d m =
     do { r \<leftarrow> findBucket d (MAAddress m);
          case r of
            Inl err \<Rightarrow> Some (d, Some err)
          | Inr i \<Rightarrow> (case Bucket_UpdateMultiAddress (Buckets d ! i) m of
              (bucket, e) \<Rightarrow> Some (d\<lparr>Buckets := (Buckets d)[i := bucket]\<rparr>, e)) }"

definition removeMultiAddress :: "dht \<Rightarrow> multi_address \<Rightarrow> (dht \<times> dht_error option) option" where
  "removeMultiAddress d m =
     do { r \<leftarrow> findBucket d (MAAddress m);
          case r of
            Inl err \<Rightarrow> Some (d, Some err)
          | Inr i \<Rightarrow>
              let ms = BMultiAddresses (Buckets d ! i) in
              (case find_loop (MAAddress m) 0 ms of
                 None \<Rightarrow> Some (d, None)
               | Some (_, removeIndex) \<Rightarrow>
                   let ms = (if removeIndex = length ms - 1 then take removeIndex ms else take removeIndex ms @ drop (removeIndex + 1) ms)
                   in Some (d\<lparr>Buckets := (Buckets d)[i := (Buckets d ! i)\<lparr>BMultiAddresses := ms\<rparr>]\<rparr>, None)) }"

definition findMultiAddress :: "dht \<Rightarrow> address \<Rightarrow> (dht_error + multi_address option) option" where
  "findMultiAddress d target =
     do { r \<leftarrow> findBucket d target;
          case r of
            Inl err \<Rightarrow> Some (Inl err)
          | Inr i \<Rightarrow> Some (Inr (map_option fst (Bucket_FindMultiAddress (Buckets d ! i) target))) }"

definition DHT_MultiAddresses :: "dht \<Rightarrow> multi_address list" where
  "DHT_MultiAddresses d = Buckets_MultiAddresses (Buckets d)"

text \<open>The stable sort: every entry in turn moves to the left, past the sorted entries (here the last one first) that
  it is closer than. The first error of a comparison is kept; a comparison with an error is false.\<close>

fun move_left :: "address \<Rightarrow> multi_address \<Rightarrow> multi_address list \<Rightarrow> identity_error option \<Rightarrow> (multi_address list \<times> identity_error option) option" where
  "move_left target m [] e = Some ([m], e)"
| "move_left target m (p # ps) e =
     do { r \<leftarrow> Closer (MAAddress m) (MAAddress p) target;
          case r of
            Inl err \<Rightarrow> Some (m # p # ps, case e of None \<Rightarrow> Some err | Some e \<Rightarrow> Some e)
          | Inr False \<Rightarrow> Some (m # p # ps, e)
          | Inr True \<Rightarrow> do { (qs, e) \<leftarrow> move_left target m ps e; Some (p # qs, e) } }"

fun sort_loop :: "address \<Rightarrow> multi_address list \<Rightarrow> multi_address list \<Rightarrow> identity_error option \<Rightarrow> (multi_address list \<times> identity_error option) option" where
  "sort_loop target [] ps e = Some (rev ps, e)"
| "sort_loop target (m # ms) ps e = do { (ps, e) \<leftarrow> move_left target m ps e; sort_loop target ms ps e }"

definition findMultiAddressNeighbors :: "dht \<Rightarrow> address \<Rightarrow> int \<Rightarrow> (multi_address list \<times> identity_error option) option" where
  "findMultiAddressNeighbors d target a =
     do { let ms = DHT_MultiAddresses d;
          let a = (if int (length ms) < a then int (length ms) else a);
          (ms, e) \<leftarrow> sort_loop target ms [] None;
          if a < 0 then None else Some (take (nat a) ms, e) }"

subsection \<open>Buckets: what the loops do\<close>

lemma find_loop_Some:
  "find_loop t i ms = Some (m, p) \<longleftrightarrow>
    (\<exists>xs ys. ms = xs @ m # ys \<and> p = i + length xs \<and> MAAddress m = t \<and> t \<notin> MAAddress ` set xs)"
proof (induction ms arbitrary: i)
  case (Cons a ms)
  show ?case
  proof (cases "MAAddress a = t")
    case True
    then show ?thesis by (auto simp: Cons_eq_append_conv)
  next
    case False
    have "(\<exists>xs ys. a # ms = xs @ m # ys \<and> p = i + length xs \<and> MAAddress m = t \<and> t \<notin> MAAddress ` set xs) \<longleftrightarrow>
        (\<exists>xs ys. ms = xs @ m # ys \<and> p = Suc i + length xs \<and> MAAddress m = t \<and> t \<notin> MAAddress ` set xs)"
      using False by (auto simp: Cons_eq_append_conv image_iff) (metis length_Cons set_ConsD)+
    then show ?thesis using False Cons.IH [of "Suc i"] by simp
  qed
qed simp

lemma find_loop_None: "find_loop t i ms = None \<longleftrightarrow> t \<notin> MAAddress ` set ms"
  by (induction ms arbitrary: i) auto

lemma shift_loop_value:
  "0 < i \<Longrightarrow> i + n = length ms \<Longrightarrow> shift_loop n i ms = take (i - 1) ms @ drop i ms @ [last ms]"
proof (induction n arbitrary: i ms)
  case 0
  then have "ms \<noteq> []" "take (i - 1) ms = butlast ms" by (auto simp: butlast_conv_take)
  then show ?case using 0 by simp
next
  case (Suc n)
  have len: "i < length ms" using Suc.prems by simp
  let ?ms = "ms[i - 1 := ms ! i]"
  have "shift_loop n (Suc i) ?ms = take i ?ms @ drop (Suc i) ?ms @ [last ?ms]" using Suc.IH [of "Suc i" ?ms] Suc.prems by simp
  moreover have "take i ?ms = take (i - 1) ms @ [ms ! i]"
    using Suc.prems(1) len take_Suc_conv_app_nth [of "i - 1" ?ms] by simp
  moreover have "drop (Suc i) ?ms = drop (Suc i) ms" using Suc.prems(1) by simp
  moreover have "last ?ms = last ms" using Suc.prems(1) len by (subst last_list_update) auto
  ultimately show ?case using len by (simp flip: Cons_nth_drop_Suc)
qed

lemma Bucket_UpdateMultiAddress_moves:
  assumes "BMultiAddresses b = xs @ m0 # ys" "MAAddress m0 = MAAddress m" "MAAddress m \<notin> MAAddress ` set xs"
  shows "Bucket_UpdateMultiAddress b m = (b\<lparr>BMultiAddresses := xs @ ys @ [m]\<rparr>, None)"
proof -
  have "Bucket_FindMultiAddress b (MAAddress m) = Some (m0, length xs)"
    unfolding Bucket_FindMultiAddress_def find_loop_Some using assms by auto
  moreover have "shift_loop (Bucket_Length b - (length xs + 1)) (length xs + 1) (BMultiAddresses b) = xs @ ys @ [last (m0 # ys)]"
    by (subst shift_loop_value) (simp_all add: Bucket_Length_def assms(1))
  moreover have "(xs @ ys @ [last (m0 # ys)])[Bucket_Length b - 1 := m] = xs @ ys @ [m]"
    by (simp add: Bucket_Length_def assms(1) list_update_append)
  ultimately show ?thesis by (simp add: Bucket_UpdateMultiAddress_def Let_def)
qed

lemma Bucket_UpdateMultiAddress_new:
  assumes "MAAddress m \<notin> MAAddress ` set (BMultiAddresses b)"
  shows "Bucket_UpdateMultiAddress b m =
    (if IsFull b then (b, Some ErrFullBucket) else (b\<lparr>BMultiAddresses := BMultiAddresses b @ [m]\<rparr>, None))"
  using find_loop_None [of "MAAddress m" 0 "BMultiAddresses b", THEN iffD2, OF assms]
  by (simp add: Bucket_UpdateMultiAddress_def Bucket_FindMultiAddress_def)

subsection \<open>The invariant\<close>

definition in_bucket :: "address \<Rightarrow> nat \<Rightarrow> address \<Rightarrow> bool" where
  "in_bucket self i a \<longleftrightarrow> valid_address a \<and> 2 ^ i \<le> xor_dist self a \<and> xor_dist self a < 2 ^ Suc i"

definition bucket_ok :: "address \<Rightarrow> nat \<Rightarrow> bucket \<Rightarrow> bool" where
  "bucket_ok self i b \<longleftrightarrow> (\<forall>m\<in>set (BMultiAddresses b). in_bucket self i (MAAddress m)) \<and>
     distinct (map MAAddress (BMultiAddresses b)) \<and> int (length (BMultiAddresses b)) \<le> MaxLength b"

definition dht_ok :: "dht \<Rightarrow> bool" where
  "dht_ok d \<longleftrightarrow> valid_address (DAddress d) \<and> length (Buckets d) = 160 \<and> (\<forall>i<160. bucket_ok (DAddress d) i (Buckets d ! i))"

lemma in_bucket_unique: "in_bucket s i a \<Longrightarrow> in_bucket s j a \<Longrightarrow> i = j"
proof (rule ccontr)
  assume b: "in_bucket s i a" "in_bucket s j a" and "i \<noteq> j"
  then consider "Suc i \<le> j" | "Suc j \<le> i" by linarith
  then show False
  proof cases
    case 1
    then have "(2 :: nat) ^ Suc i \<le> 2 ^ j" by (intro power_increasing) simp_all
    then show False using b by (simp add: in_bucket_def)
  next
    case 2
    then have "(2 :: nat) ^ Suc j \<le> 2 ^ i" by (intro power_increasing) simp_all
    then show False using b by (simp add: in_bucket_def)
  qed
qed

lemma NewDHT_ok: "valid_address addr \<Longrightarrow> 0 \<le> k \<Longrightarrow> \<exists>d. NewDHT addr k = Some d \<and> dht_ok d \<and> DHT_MultiAddresses d = []"
  by (simp add: NewDHT_def NewBucket_def dht_ok_def bucket_ok_def IDLengthInBits_def IDLength_def
      DHT_MultiAddresses_def Buckets_MultiAddresses_def)

text \<open>The bucket of a target: never a panic.\<close>

lemma findBucket_valid:
  assumes "dht_ok d" "valid_address t" "xor_dist (DAddress d) t \<noteq> 0"
  shows "\<exists>i<160. findBucket d t = Some (Inr i) \<and> in_bucket (DAddress d) i t"
proof -
  obtain k where k: "SamePrefixLength (DAddress d) t = Some (Inr k)" "k < 160" "2 ^ (159 - k) \<le> xor_dist (DAddress d) t"
      "xor_dist (DAddress d) t < 2 ^ (160 - k)"
    using SamePrefixLength_value [of "DAddress d" t] assms by (auto simp: dht_ok_def)
  have "Suc (159 - k) = 160 - k" using k(2) by simp
  then have "in_bucket (DAddress d) (159 - k) t" using k(3,4) assms(2) by (simp only: in_bucket_def)
  moreover have "findBucket d t = Some (Inr (159 - k))"
    using k(1,2) assms(1) by (simp add: findBucket_def dht_ok_def IDLengthInBits_def IDLength_def Let_def nat_diff_distrib)
  ultimately show ?thesis by (intro exI [of _ "159 - k"]) simp
qed

lemma findBucket_self:
  assumes "dht_ok d" "valid_address t" "xor_dist (DAddress d) t = 0"
  shows "findBucket d t = Some (Inl ErrDHTAddress)"
  using SamePrefixLength_value [of "DAddress d" t] assms by (auto simp: dht_ok_def findBucket_def IDLengthInBits_def IDLength_def)

lemma findBucket_invalid: "\<not> valid_address t \<Longrightarrow> \<exists>err. findBucket d t = Some (Inl (ErrIdentity err))"
  using SamePrefixLength_error [of "DAddress d" t] by (auto simp: findBucket_def)

lemma findBucket_error:
  assumes "dht_ok d" "\<not> (valid_address t \<and> xor_dist (DAddress d) t \<noteq> 0)"
  shows "\<exists>err. findBucket d t = Some (Inl err) \<and> (if valid_address t then err = ErrDHTAddress else (\<exists>e. err = ErrIdentity e))"
  using findBucket_self [OF assms(1), of t] findBucket_invalid [of t d] assms(2) by (cases "valid_address t") auto

lemma findBucket_total: "dht_ok d \<Longrightarrow> \<exists>r. findBucket d t = Some r"
  using findBucket_valid [of d t] findBucket_self [of d t] findBucket_invalid [of t d] by blast

lemma findBucket_Inr:
  assumes "dht_ok d" shows "findBucket d t = Some (Inr i) \<longleftrightarrow> i < 160 \<and> in_bucket (DAddress d) i t"
proof (cases "valid_address t \<and> xor_dist (DAddress d) t \<noteq> 0")
  case True
  then obtain j where "j < 160" "findBucket d t = Some (Inr j)" "in_bucket (DAddress d) j t" using findBucket_valid assms by blast
  then show ?thesis using in_bucket_unique by auto
next
  case False
  then have "\<not> in_bucket (DAddress d) i t" by (auto simp: in_bucket_def)
  moreover have "\<nexists>i. findBucket d t = Some (Inr i)" using findBucket_error [OF assms False] by auto
  ultimately show ?thesis by blast
qed

subsection \<open>The table as a map\<close>

definition peers :: "dht \<Rightarrow> multi_address set" where
  "peers d = set (DHT_MultiAddresses d)"

lemma peers_iff: "length (Buckets d) = 160 \<Longrightarrow> m \<in> peers d \<longleftrightarrow> (\<exists>i<160. m \<in> set (BMultiAddresses (Buckets d ! i)))"
  by (auto simp: peers_def DHT_MultiAddresses_def Buckets_MultiAddresses_def in_set_conv_nth) (metis nth_mem)+

lemma peers_bucket:
  assumes "dht_ok d" "i < 160"
  shows "set (BMultiAddresses (Buckets d ! i)) = {m \<in> peers d. in_bucket (DAddress d) i (MAAddress m)}"
proof -
  have l: "length (Buckets d) = 160" and b: "\<And>j m. j < 160 \<Longrightarrow> m \<in> set (BMultiAddresses (Buckets d ! j)) \<Longrightarrow> in_bucket (DAddress d) j (MAAddress m)"
    using assms(1) by (auto simp: dht_ok_def bucket_ok_def)
  show ?thesis unfolding peers_iff [OF l] using b assms(2) in_bucket_unique by blast
qed

lemma replace_bucket:
  assumes d: "dht_ok d" and i: "i < 160" and b: "bucket_ok (DAddress d) i b"
  defines "d' \<equiv> d\<lparr>Buckets := (Buckets d)[i := b]\<rparr>"
  shows "dht_ok d'" "peers d' = {m \<in> peers d. \<not> in_bucket (DAddress d) i (MAAddress m)} \<union> set (BMultiAddresses b)"
proof -
  have l: "length (Buckets d) = 160" using d by (simp add: dht_ok_def)
  show ok: "dht_ok d'" using d i b by (auto simp: dht_ok_def d'_def nth_list_update)
  have "m \<in> peers d' \<longleftrightarrow> m \<in> set (BMultiAddresses b) \<or> (\<exists>j<160. j \<noteq> i \<and> m \<in> set (BMultiAddresses (Buckets d ! j)))" for m
    using i l by (auto simp: peers_iff d'_def nth_list_update)
  moreover have "(\<exists>j<160. j \<noteq> i \<and> m \<in> set (BMultiAddresses (Buckets d ! j))) \<longleftrightarrow> m \<in> peers d \<and> \<not> in_bucket (DAddress d) i (MAAddress m)" for m
    using peers_bucket [OF d] i in_bucket_unique unfolding peers_iff [OF l] by blast
  ultimately show "peers d' = {m \<in> peers d. \<not> in_bucket (DAddress d) i (MAAddress m)} \<union> set (BMultiAddresses b)" by blast
qed

lemma peers_address_inj:
  assumes "dht_ok d" "m \<in> peers d" "n \<in> peers d" "MAAddress m = MAAddress n" shows "m = n"
proof -
  obtain i where i: "i < 160" "m \<in> set (BMultiAddresses (Buckets d ! i))" using assms(1,2) peers_iff by (auto simp: dht_ok_def)
  then have "in_bucket (DAddress d) i (MAAddress m)" using assms(1) by (auto simp: dht_ok_def bucket_ok_def)
  then have "n \<in> set (BMultiAddresses (Buckets d ! i))" using peers_bucket [OF assms(1) i(1)] assms(3,4) by simp
  moreover have "distinct (map MAAddress (BMultiAddresses (Buckets d ! i)))" using assms(1) i(1) by (simp add: dht_ok_def bucket_ok_def)
  ultimately show ?thesis using i(2) assms(4) by (simp add: distinct_map inj_on_def)
qed

lemma findMultiAddress_peers:
  assumes d: "dht_ok d" and t: "valid_address t" "xor_dist (DAddress d) t \<noteq> 0"
  shows "\<exists>r. findMultiAddress d t = Some (Inr r) \<and> (\<forall>m. r = Some m \<longleftrightarrow> m \<in> peers d \<and> MAAddress m = t)"
proof -
  obtain i where i: "i < 160" "findBucket d t = Some (Inr i)" "in_bucket (DAddress d) i t" using findBucket_valid [OF d t] by blast
  let ?ms = "BMultiAddresses (Buckets d ! i)"
  let ?r = "map_option fst (find_loop t 0 ?ms)"
  have ms: "m \<in> set ?ms \<and> MAAddress m = t \<longleftrightarrow> m \<in> peers d \<and> MAAddress m = t" for m
    using peers_bucket [OF d i(1)] i(3) by auto
  have "?r = Some m \<longleftrightarrow> m \<in> peers d \<and> MAAddress m = t" for m
  proof (cases "find_loop t 0 ?ms")
    case None
    then have "\<not> (m \<in> set ?ms \<and> MAAddress m = t)" unfolding find_loop_None by auto
    then show ?thesis using None ms by simp
  next
    case (Some p)
    obtain m0 k where p: "p = (m0, k)" by fastforce
    then have "m0 \<in> set ?ms" "MAAddress m0 = t" using Some by (auto simp: find_loop_Some)
    then have "m0 \<in> peers d \<and> MAAddress m0 = t" using ms by blast
    then show ?thesis using Some p peers_address_inj [OF d] by auto
  qed
  then show ?thesis using i(2) by (simp add: findMultiAddress_def Bucket_FindMultiAddress_def)
qed

text \<open>Adding a peer: the outcome on every branch.\<close>

lemma updateMultiAddress_spec:
  assumes d: "dht_ok d"
  shows "\<exists>d' e. updateMultiAddress d m = Some (d', e) \<and> dht_ok d' \<and> DAddress d' = DAddress d \<and>
    (if \<not> valid_address (MAAddress m) then d' = d \<and> (\<exists>err. e = Some (ErrIdentity err))
     else if xor_dist (DAddress d) (MAAddress m) = 0 then d' = d \<and> e = Some ErrDHTAddress
     else (e = None \<and> peers d' = insert m {n \<in> peers d. MAAddress n \<noteq> MAAddress m}) \<or>
       (e = Some ErrFullBucket \<and> d' = d \<and> MAAddress m \<notin> MAAddress ` peers d \<and>
        (\<exists>i<160. in_bucket (DAddress d) i (MAAddress m) \<and> IsFull (Buckets d ! i))))"
proof (cases "valid_address (MAAddress m) \<and> xor_dist (DAddress d) (MAAddress m) \<noteq> 0")
  case False
  then obtain err where "findBucket d (MAAddress m) = Some (Inl err)"
      "if valid_address (MAAddress m) then err = ErrDHTAddress else (\<exists>e. err = ErrIdentity e)"
    using findBucket_error [OF d] by blast
  then show ?thesis using False d by (auto simp: updateMultiAddress_def)
next
  case True
  then obtain i where i: "i < 160" "findBucket d (MAAddress m) = Some (Inr i)" "in_bucket (DAddress d) i (MAAddress m)"
    using findBucket_valid [OF d] by blast
  let ?b = "Buckets d ! i"
  have ok: "bucket_ok (DAddress d) i ?b" using d i(1) by (simp add: dht_ok_def)
  note B = peers_bucket [OF d i(1)]
  show ?thesis
  proof (cases "MAAddress m \<in> MAAddress ` set (BMultiAddresses ?b)")
    case present: True
    then obtain m0 k where f: "find_loop (MAAddress m) 0 (BMultiAddresses ?b) = Some (m0, k)"
      using find_loop_None [of "MAAddress m" 0 "BMultiAddresses ?b"] by (cases "find_loop (MAAddress m) 0 (BMultiAddresses ?b)") auto
    then obtain xs ys where xs: "BMultiAddresses ?b = xs @ m0 # ys" "MAAddress m0 = MAAddress m" "MAAddress m \<notin> MAAddress ` set xs"
      by (auto simp: find_loop_Some)
    let ?b' = "?b\<lparr>BMultiAddresses := xs @ ys @ [m]\<rparr>"
    have ys: "MAAddress m \<notin> MAAddress ` set ys" using ok xs by (auto simp: bucket_ok_def)
    have ok': "bucket_ok (DAddress d) i ?b'" using ok i(3) xs ys by (auto simp: bucket_ok_def)
    have "{n \<in> peers d. \<not> in_bucket (DAddress d) i (MAAddress n)} \<union> set (xs @ ys @ [m]) =
        insert m {n \<in> peers d. MAAddress n \<noteq> MAAddress m}"
      using B i(3) xs ys by (auto simp: set_eq_iff image_iff)
    then show ?thesis using replace_bucket [OF d i(1) ok'] i(2) True Bucket_UpdateMultiAddress_moves [OF xs]
      by (simp add: updateMultiAddress_def)
  next
    case absent: False
    then have np: "MAAddress m \<notin> MAAddress ` peers d" using B i(3) by auto
    show ?thesis
    proof (cases "IsFull ?b")
      case True
      then show ?thesis using Bucket_UpdateMultiAddress_new [OF absent] i d np \<open>valid_address (MAAddress m) \<and> xor_dist (DAddress d) (MAAddress m) \<noteq> 0\<close>
        by (auto simp: updateMultiAddress_def)
    next
      case False
      let ?b' = "?b\<lparr>BMultiAddresses := BMultiAddresses ?b @ [m]\<rparr>"
      have ok': "bucket_ok (DAddress d) i ?b'" using ok i(3) absent False by (auto simp: bucket_ok_def IsFull_def Bucket_Length_def)
      have "{n \<in> peers d. \<not> in_bucket (DAddress d) i (MAAddress n)} \<union> set (BMultiAddresses ?b @ [m]) =
          insert m {n \<in> peers d. MAAddress n \<noteq> MAAddress m}"
        using B np by (auto simp: image_iff)
      then show ?thesis using replace_bucket [OF d i(1) ok'] i(2) True False Bucket_UpdateMultiAddress_new [OF absent]
        by (simp add: updateMultiAddress_def)
    qed
  qed
qed

lemma removeMultiAddress_spec:
  assumes d: "dht_ok d"
  shows "\<exists>d' e. removeMultiAddress d m = Some (d', e) \<and> dht_ok d' \<and> DAddress d' = DAddress d \<and>
    (if valid_address (MAAddress m) \<and> xor_dist (DAddress d) (MAAddress m) \<noteq> 0
     then e = None \<and> peers d' = {n \<in> peers d. MAAddress n \<noteq> MAAddress m} else d' = d \<and> e \<noteq> None)"
proof (cases "valid_address (MAAddress m) \<and> xor_dist (DAddress d) (MAAddress m) \<noteq> 0")
  case False
  then obtain err where "findBucket d (MAAddress m) = Some (Inl err)"
      "if valid_address (MAAddress m) then err = ErrDHTAddress else (\<exists>e. err = ErrIdentity e)"
    using findBucket_error [OF d] by blast
  then show ?thesis using False d by (auto simp: removeMultiAddress_def)
next
  case True
  then obtain i where i: "i < 160" "findBucket d (MAAddress m) = Some (Inr i)" "in_bucket (DAddress d) i (MAAddress m)"
    using findBucket_valid [OF d] by blast
  let ?b = "Buckets d ! i"
  have ok: "bucket_ok (DAddress d) i ?b" using d i(1) by (simp add: dht_ok_def)
  note B = peers_bucket [OF d i(1)]
  show ?thesis
  proof (cases "find_loop (MAAddress m) 0 (BMultiAddresses ?b)")
    case None
    then have "MAAddress m \<notin> MAAddress ` peers d" using B i(3) by (auto simp: find_loop_None)
    then have "peers d = {n \<in> peers d. MAAddress n \<noteq> MAAddress m}" by (auto simp: image_iff)
    then show ?thesis using None i(2) d True by (simp add: removeMultiAddress_def Let_def)
  next
    case (Some p)
    obtain m0 k where p: "p = (m0, k)" by fastforce
    then obtain xs ys where xs: "BMultiAddresses ?b = xs @ m0 # ys" "MAAddress m0 = MAAddress m" "MAAddress m \<notin> MAAddress ` set xs" "k = length xs"
      using Some by (auto simp: find_loop_Some)
    let ?b' = "?b\<lparr>BMultiAddresses := xs @ ys\<rparr>"
    have ys: "MAAddress m \<notin> MAAddress ` set ys" using ok xs by (auto simp: bucket_ok_def)
    have ok': "bucket_ok (DAddress d) i ?b'" using ok xs by (auto simp: bucket_ok_def)
    have "{n \<in> peers d. \<not> in_bucket (DAddress d) i (MAAddress n)} \<union> set (xs @ ys) = {n \<in> peers d. MAAddress n \<noteq> MAAddress m}"
      using B i(3) xs ys by (auto simp: set_eq_iff image_iff)
    moreover have "(if k = length (BMultiAddresses ?b) - 1 then take k (BMultiAddresses ?b)
        else take k (BMultiAddresses ?b) @ drop (k + 1) (BMultiAddresses ?b)) = xs @ ys"
      using xs by auto
    ultimately show ?thesis using replace_bucket [OF d i(1) ok'] i(2) True Some p by (simp add: removeMultiAddress_def Let_def)
  qed
qed

subsection \<open>The closest peers\<close>

definition key :: "address \<Rightarrow> multi_address \<Rightarrow> nat" where
  "key target m = xor_dist (MAAddress m) target"

lemma move_left_value:
  assumes "valid_address t" "valid_address (MAAddress m)"
  shows "\<forall>p\<in>set ps. valid_address (MAAddress p) \<Longrightarrow> sorted_wrt (\<lambda>x y. key t y \<le> key t x) ps \<Longrightarrow>
    \<exists>qs. move_left t m ps e = Some (qs, e) \<and> mset qs = add_mset m (mset ps) \<and> sorted_wrt (\<lambda>x y. key t y \<le> key t x) qs"
proof (induction ps)
  case (Cons p ps)
  have C: "Closer (MAAddress m) (MAAddress p) t = Some (Inr (key t m < key t p))"
    using assms Cons.prems(1) by (simp add: Closer_value key_def)
  show ?case
  proof (cases "key t m < key t p")
    case True
    obtain qs where qs: "move_left t m ps e = Some (qs, e)" "mset qs = add_mset m (mset ps)" "sorted_wrt (\<lambda>x y. key t y \<le> key t x) qs"
      using Cons by auto
    have "set qs = insert m (set ps)" using arg_cong [OF qs(2), of set_mset] by simp
    then show ?thesis using C True qs Cons.prems(2) by auto
  next
    case False
    then show ?thesis using C Cons.prems(2) by (auto simp: not_less intro: order_trans)
  qed
qed simp

lemma sort_loop_value:
  assumes "valid_address t"
  shows "\<forall>m\<in>set ms \<union> set ps. valid_address (MAAddress m) \<Longrightarrow> sorted_wrt (\<lambda>x y. key t y \<le> key t x) ps \<Longrightarrow>
    \<exists>qs. sort_loop t ms ps e = Some (qs, e) \<and> mset qs = mset ms + mset ps \<and> sorted (map (key t) qs)"
proof (induction ms arbitrary: ps)
  case Nil
  then show ?case by (auto simp: sorted_wrt_rev sorted_wrt_map)
next
  case (Cons m ms)
  obtain qs where qs: "move_left t m ps e = Some (qs, e)" "mset qs = add_mset m (mset ps)" "sorted_wrt (\<lambda>x y. key t y \<le> key t x) qs"
    using move_left_value [OF assms, of m ps e] Cons.prems by auto
  have "set qs = insert m (set ps)" using arg_cong [OF qs(2), of set_mset] by simp
  then show ?case using Cons.IH [of qs] Cons.prems(1) qs by auto
qed

lemma peers_valid: "dht_ok d \<Longrightarrow> m \<in> peers d \<Longrightarrow> valid_address (MAAddress m)"
  using peers_iff [of d m] by (auto simp: dht_ok_def bucket_ok_def in_bucket_def)

lemma findMultiAddressNeighbors_spec:
  assumes d: "dht_ok d" and t: "valid_address t"
  shows "if a < 0 then findMultiAddressNeighbors d t a = None
    else \<exists>ns rest. findMultiAddressNeighbors d t a = Some (ns, None) \<and> mset (ns @ rest) = mset (DHT_MultiAddresses d) \<and>
      length ns = min (nat a) (length (DHT_MultiAddresses d)) \<and> sorted (map (key t) (ns @ rest))"
proof -
  have "\<forall>m\<in>set (DHT_MultiAddresses d) \<union> set []. valid_address (MAAddress m)" using peers_valid [OF d] by (simp add: peers_def)
  then obtain qs where qs: "sort_loop t (DHT_MultiAddresses d) [] None = Some (qs, None)" "mset qs = mset (DHT_MultiAddresses d)"
    "sorted (map (key t) qs)" using sort_loop_value [OF t, of "DHT_MultiAddresses d" "[]" None] by auto
  have l: "length qs = length (DHT_MultiAddresses d)" using qs(2) by (metis size_mset)
  show ?thesis
  proof (cases "a < 0")
    case True
    then show ?thesis using qs(1) by (simp add: findMultiAddressNeighbors_def Let_def)
  next
    case False
    let ?k = "nat (if int (length qs) < a then int (length qs) else a)"
    have "findMultiAddressNeighbors d t a = Some (take ?k qs, None)" using False qs(1) l by (simp add: findMultiAddressNeighbors_def Let_def)
    moreover have "length (take ?k qs) = min (nat a) (length qs)" using False by auto
    ultimately show ?thesis using False qs l by (intro if_not_P [THEN iffD2] exI [of _ "take ?k qs"] exI [of _ "drop ?k qs"]) auto
  qed
qed

end
