(* ===== verification/Swarm.thy ===== *)
theory Swarm
  imports Dht
begin

section \<open>Finding peers: \<^verbatim>\<open>swarm/swarm.go\<close>\<close>

text \<open>
  A node answers pings and queries, and searches the network for the multi-address of a peer: it asks the
  peers it knows for peers that are closer to the target, and goes on with these.

  The client that talks to the other nodes is a parameter, a record of operations on a state \<open>'w\<close>, the rest of
  the world. The search may go on as long as the other nodes answer with new addresses, so its loop is a partial
  function; \<open>None\<close> means that it does not return (or panics).
\<close>

subsection \<open>The client\<close>

datatype client_error = EOF_error | Other_error string

record 'w client =
  client_MultiAddress :: multi_address
  client_Ping :: "'w \<Rightarrow> multi_address \<Rightarrow> 'w \<times> (string + multi_address)"
  client_Query :: "'w \<Rightarrow> multi_address \<Rightarrow> address \<Rightarrow> 'w \<times> multi_address list \<times> client_error option"

datatype swarm_error = ErrMultiAddressNotFound | ErrCompare identity_error | ErrSendQuery string

definition self_address :: "'w client \<Rightarrow> address" where
  "self_address C = MAAddress (client_MultiAddress C)"

subsection \<open>Keeping the table\<close>

text \<open>The oldest entry of the bucket is pinged; whether it was removed.\<close>

definition pruneDHT :: "'w client \<Rightarrow> 'w \<Rightarrow> dht \<Rightarrow> address \<Rightarrow> ('w \<times> dht \<times> bool) option" where
  "pruneDHT C w d addr =
     do { r \<leftarrow> findBucket d addr;
          case r of
            Inl _ \<Rightarrow> Some (w, d, False)
          | Inr i \<Rightarrow>
              (case BMultiAddresses (Buckets d ! i) of
                 [] \<Rightarrow> Some (w, d, False)
               | m # _ \<Rightarrow>
                   (case client_Ping C w m of
                      (w, Inl _) \<Rightarrow> do { (d, _) \<leftarrow> removeMultiAddress d m; Some (w, d, True) }
                    | (w, Inr updated) \<Rightarrow> do { (d, _) \<leftarrow> updateMultiAddress d updated; Some (w, d, False) })) }"

definition updateDHT :: "'w client \<Rightarrow> 'w \<Rightarrow> dht \<Rightarrow> multi_address \<Rightarrow> ('w \<times> dht \<times> dht_error option) option" where
  "updateDHT C w d m =
     (if self_address C = MAAddress m then Some (w, d, None)
      else
        do { (d, e) \<leftarrow> updateMultiAddress d m;
             case e of
               None \<Rightarrow> Some (w, d, None)
             | Some err \<Rightarrow>
                 if err = ErrFullBucket then
                   do { (w, d, pruned) \<leftarrow> pruneDHT C w d (MAAddress m);
                        if pruned then do { (d, e) \<leftarrow> updateMultiAddress d m; Some (w, d, e) }
                        else Some (w, d, Some err) }
                 else Some (w, d, Some err) })"

subsection \<open>The server\<close>

text \<open>A ping whose signature does not verify is answered without an error.\<close>

definition Server_Ping ::
    "'w client \<Rightarrow> (multi_address \<Rightarrow> bool) \<Rightarrow> 'w \<Rightarrow> dht \<Rightarrow> multi_address \<Rightarrow> ('w \<times> dht \<times> multi_address \<times> dht_error option) option" where
  "Server_Ping C verified w d m =
     (if \<not> verified m then Some (w, d, client_MultiAddress C, None)
      else do { (w, d, e) \<leftarrow> updateDHT C w d m; Some (w, d, client_MultiAddress C, e) })"

fun closer_peers :: "address \<Rightarrow> address \<Rightarrow> multi_address list \<Rightarrow> (identity_error + multi_address list) option" where
  "closer_peers self query [] = Some (Inr [])"
| "closer_peers self query (m # ms) =
     do { r \<leftarrow> Closer (MAAddress m) self query;
          case r of
            Inl err \<Rightarrow> Some (Inl err)
          | Inr isPeerCloser \<Rightarrow>
              map_option (map_sum id (\<lambda>ms. if isPeerCloser then m # ms else ms)) (closer_peers self query ms) }"

definition Server_Query :: "'w client \<Rightarrow> dht \<Rightarrow> address \<Rightarrow> (multi_address list \<times> identity_error option) option" where
  "Server_Query C d query =
     do { r \<leftarrow> closer_peers (self_address C) query (DHT_MultiAddresses d);
          case r of
            Inl err \<Rightarrow> Some (DHT_MultiAddresses d, Some err)
          | Inr ms \<Rightarrow> Some (ms, None) }"

subsection \<open>The search\<close>

text \<open>The list of peers to ask first, or the target itself when the node knows it.\<close>

fun whitelist_loop :: "address \<Rightarrow> address \<Rightarrow> bool \<Rightarrow> multi_address list \<Rightarrow> multi_address list \<Rightarrow>
    (swarm_error + multi_address + multi_address list) option" where
  "whitelist_loop self query boot [] wl = Some (Inr (Inr wl))"
| "whitelist_loop self query boot (m # ms) wl =
     (if boot then whitelist_loop self query boot ms (if query \<noteq> MAAddress m then wl @ [m] else wl)
      else if query = MAAddress m then Some (Inr (Inl m))
      else
        do { r \<leftarrow> Closer (MAAddress m) self query;
             case r of
               Inl err \<Rightarrow> Some (Inl (ErrCompare err))
             | Inr isPeerCloser \<Rightarrow> whitelist_loop self query boot ms (if isPeerCloser then wl @ [m] else wl) })"

text \<open>The answer of a peer: the target, or more peers for the list.\<close>

fun answers_loop :: "'w client \<Rightarrow> address \<Rightarrow> bool \<Rightarrow> address list \<Rightarrow> 'w \<Rightarrow> dht \<Rightarrow> multi_address list \<Rightarrow> multi_address list \<Rightarrow>
    ('w \<times> dht \<times> multi_address list \<times> multi_address option) option" where
  "answers_loop C query boot bl w d [] wl = Some (w, d, wl, None)"
| "answers_loop C query boot bl w d (m # ms) wl =
     (if MAAddress m = query \<and> \<not> boot then Some (w, d, wl, Some m)
      else if MAAddress m \<in> set bl then answers_loop C query boot bl w d ms wl
      else do { (w, d, _) \<leftarrow> updateDHT C w d m; answers_loop C query boot bl w d ms (wl @ [m]) })"

definition no_multi_address :: multi_address where
  "no_multi_address = \<lparr>MASignature = [], MAAddress = [], MABase = []\<rparr>"

definition not_found :: "bool \<Rightarrow> swarm_error + multi_address" where
  "not_found boot = (if boot then Inr no_multi_address else Inl ErrMultiAddressNotFound)"

text \<open>The end of the stream is not a failure.\<close>

fun failure :: "client_error option \<Rightarrow> string option" where
  "failure (Some (Other_error err)) = Some err"
| "failure _ = None"

partial_function (option) query_loop ::
    "'w client \<Rightarrow> address \<Rightarrow> int \<Rightarrow> bool \<Rightarrow> int \<Rightarrow> 'w \<Rightarrow> dht \<Rightarrow> multi_address list \<Rightarrow> address list \<Rightarrow>
     ('w \<times> dht \<times> (swarm_error + multi_address)) option" where
  "query_loop C query depth boot i w d wl bl =
     (if \<not> (i < depth \<or> depth < 0) then Some (w, d, not_found boot)
      else
        case wl of
          [] \<Rightarrow> Some (w, d, not_found boot)
        | peer # wl \<Rightarrow>
            if MAAddress peer \<in> set bl then query_loop C query depth boot (i + 1) w d wl bl
            else
              (case (if boot then client_Ping C w peer else (w, Inr peer)) of
                (w, pong) \<Rightarrow>
                  (case pong of
                     Inl _ \<Rightarrow> query_loop C query depth boot (i + 1) w d wl (MAAddress peer # bl)
                   | Inr _ \<Rightarrow>
                       (case client_Query C w peer query of
                          (w, ms, e) \<Rightarrow>
                            (case failure e of
                               Some err \<Rightarrow> Some (w, d, Inl (ErrSendQuery err))
                             | None \<Rightarrow>
                                 Option.bind (answers_loop C query boot (MAAddress peer # bl) w d ms wl)
                                   (\<lambda>(w, d, wl, found).
                                      case found of
                                        Some m \<Rightarrow> Some (w, d, Inr m)
                                      | None \<Rightarrow> query_loop C query depth boot (i + 1) w d wl (MAAddress peer # bl)))))))"

definition swarmer_query ::
    "'w client \<Rightarrow> 'w \<Rightarrow> dht \<Rightarrow> address \<Rightarrow> int \<Rightarrow> bool \<Rightarrow> ('w \<times> dht \<times> (swarm_error + multi_address)) option" where
  "swarmer_query C w d query depth boot =
     do { r \<leftarrow> whitelist_loop (self_address C) query boot (DHT_MultiAddresses d) [];
          case r of
            Inl err \<Rightarrow> Some (w, d, Inl err)
          | Inr (Inl m) \<Rightarrow> Some (w, d, Inr m)
          | Inr (Inr wl) \<Rightarrow> query_loop C query depth boot 0 w d wl [self_address C] }"

definition Swarmer_Query where
  "Swarmer_Query C w d query depth = swarmer_query C w d query depth False"

text \<open>\<^verbatim>\<open>Bootstrap\<close>: the known peers are pinged (concurrently; the list is in the order the pings are done), then the
  node searches for itself. The first error is returned, if there is one.\<close>

datatype bootstrap_error = ErrPing string | ErrUpdate dht_error | ErrSearch swarm_error

fun bootstrap_loop :: "'w client \<Rightarrow> 'w \<Rightarrow> dht \<Rightarrow> multi_address list \<Rightarrow> ('w \<times> dht \<times> bootstrap_error list) option" where
  "bootstrap_loop C w d [] = Some (w, d, [])"
| "bootstrap_loop C w d (m # ms) =
     (if MAAddress m = self_address C then bootstrap_loop C w d ms
      else
        (case client_Ping C w m of
           (w, Inl err) \<Rightarrow> do { (w, d, errs) \<leftarrow> bootstrap_loop C w d ms; Some (w, d, ErrPing err # errs) }
         | (w, Inr pong) \<Rightarrow>
             do { (w, d, e) \<leftarrow> updateDHT C w d pong;
                  (w, d, errs) \<leftarrow> bootstrap_loop C w d ms;
                  Some (w, d, (case e of None \<Rightarrow> [] | Some err \<Rightarrow> [ErrUpdate err]) @ errs) }))"

definition Bootstrap :: "'w client \<Rightarrow> 'w \<Rightarrow> dht \<Rightarrow> multi_address list \<Rightarrow> ('w \<times> dht \<times> bootstrap_error option) option" where
  "Bootstrap C w d ms =
     do { (w, d, errs) \<leftarrow> bootstrap_loop C w d ms;
          (w, d, r) \<leftarrow> swarmer_query C w d (self_address C) (-1) True;
          let errs = errs @ (case r of Inl err \<Rightarrow> [ErrSearch err] | Inr _ \<Rightarrow> []);
          Some (w, d, (case errs of [] \<Rightarrow> None | err # _ \<Rightarrow> Some err)) }"

subsection \<open>The table is kept\<close>

lemma pruneDHT_ok:
  assumes "dht_ok d"
  shows "\<exists>w' d' b. pruneDHT C w d a = Some (w', d', b) \<and> dht_ok d' \<and> DAddress d' = DAddress d"
proof -
  obtain r where r: "findBucket d a = Some r" using findBucket_total [OF assms] by blast
  show ?thesis
  proof (cases "(\<exists>e. r = Inl e) \<or> (\<exists>i. r = Inr i \<and> BMultiAddresses (Buckets d ! i) = [])")
    case True
    then show ?thesis using r assms by (auto simp: pruneDHT_def)
  next
    case False
    then obtain i m ms where i: "r = Inr i" "BMultiAddresses (Buckets d ! i) = m # ms" by (cases r) (auto simp: neq_Nil_conv)
    obtain w' p where p: "client_Ping C w m = (w', p)" by fastforce
    show ?thesis
    proof (cases p)
      case (Inl e)
      then show ?thesis using removeMultiAddress_spec [OF assms, of m] r i p by (auto simp: pruneDHT_def)
    next
      case (Inr u)
      then show ?thesis using updateMultiAddress_spec [OF assms, of u] r i p by (auto simp: pruneDHT_def)
    qed
  qed
qed

lemma updateMultiAddress_ok:
  "dht_ok d \<Longrightarrow> \<exists>d' e. updateMultiAddress d m = Some (d', e) \<and> dht_ok d' \<and> DAddress d' = DAddress d"
  using updateMultiAddress_spec [of d m] by blast

lemma updateDHT_ok:
  assumes "dht_ok d"
  shows "\<exists>w' d' e. updateDHT C w d m = Some (w', d', e) \<and> dht_ok d' \<and> DAddress d' = DAddress d"
proof (cases "self_address C = MAAddress m")
  case False
  obtain d1 e1 where 1: "updateMultiAddress d m = Some (d1, e1)" "dht_ok d1" "DAddress d1 = DAddress d" using updateMultiAddress_ok [OF assms] by blast
  show ?thesis
  proof (cases "e1 = Some ErrFullBucket")
    case True
    obtain w2 d2 b where 2: "pruneDHT C w d1 (MAAddress m) = Some (w2, d2, b)" "dht_ok d2" "DAddress d2 = DAddress d1" using pruneDHT_ok [OF 1(2), of C w "MAAddress m"] by blast
    obtain d3 e3 where 3: "updateMultiAddress d2 m = Some (d3, e3)" "dht_ok d3" "DAddress d3 = DAddress d2" using updateMultiAddress_ok [OF 2(2)] by blast
    then show ?thesis using False True 1 2 by (simp add: updateDHT_def)
  next
    case not: False
    then show ?thesis using False 1 by (cases e1) (simp_all add: updateDHT_def)
  qed
qed (use assms in \<open>simp add: updateDHT_def\<close>)

lemma answers_loop_ok:
  "dht_ok d \<Longrightarrow> \<exists>w' d' new found. answers_loop C query boot bl w d ms wl = Some (w', d', wl @ new, found) \<and> dht_ok d' \<and> DAddress d' = DAddress d \<and>
     set new \<subseteq> {m \<in> set ms. MAAddress m \<notin> set bl} \<and>
     (found = None \<longrightarrow> {m \<in> set ms. MAAddress m \<notin> set bl} \<subseteq> set new \<and> (\<not> boot \<longrightarrow> query \<notin> MAAddress ` set ms)) \<and>
     (\<forall>m. found = Some m \<longrightarrow> m \<in> set ms \<and> MAAddress m = query)"
proof (induction ms arbitrary: w d wl)
  case (Cons m ms)
  show ?case
  proof (cases "(MAAddress m = query \<and> \<not> boot) \<or> MAAddress m \<in> set bl")
    case True
    then show ?thesis using Cons.prems Cons.IH [OF Cons.prems, of w wl] by auto
  next
    case False
    obtain w1 d1 e1 where 1: "updateDHT C w d m = Some (w1, d1, e1)" "dht_ok d1" "DAddress d1 = DAddress d" using updateDHT_ok [OF Cons.prems, of C w m] by blast
    obtain w' d' new found where 2: "answers_loop C query boot bl w1 d1 ms (wl @ [m]) = Some (w', d', (wl @ [m]) @ new, found)"
      "dht_ok d'" "DAddress d' = DAddress d1" "set new \<subseteq> {m \<in> set ms. MAAddress m \<notin> set bl}"
      "found = None \<longrightarrow> {m \<in> set ms. MAAddress m \<notin> set bl} \<subseteq> set new \<and> (\<not> boot \<longrightarrow> query \<notin> MAAddress ` set ms)"
      "\<forall>m. found = Some m \<longrightarrow> m \<in> set ms \<and> MAAddress m = query"
      using Cons.IH [OF 1(2), of w1 "wl @ [m]"] by blast
    show ?thesis
      by (rule exI [of _ w'], rule exI [of _ d'], rule exI [of _ "m # new"], rule exI [of _ found]) (use False 1 2 in auto)
  qed
qed simp

subsection \<open>The search ends and finds what can be found\<close>

text \<open>One round for a peer that was not asked before and does not fail.\<close>

lemma query_loop_round:
  assumes "depth < 0" "MAAddress peer \<notin> set bl" "client_Query C w peer query = (w1, ms, e)" "failure e = None"
    "answers_loop C query False (MAAddress peer # bl) w1 d ms wl = Some (w2, d2, wl2, found)"
  shows "query_loop C query depth False i w d (peer # wl) bl =
    (case found of Some m \<Rightarrow> Some (w2, d2, Inr m) | None \<Rightarrow> query_loop C query depth False (i + 1) w2 d2 wl2 (MAAddress peer # bl))"
  using assms by (subst query_loop.simps) simp

lemma query_loop_skip:
  assumes "depth < 0" "MAAddress peer \<in> set bl"
  shows "query_loop C query depth boot i w d (peer # wl) bl = query_loop C query depth boot (i + 1) w d wl bl"
  using assms by (subst query_loop.simps) simp

lemma query_loop_Nil: "query_loop C query depth boot i w d [] bl = Some (w, d, not_found boot)"
  by (subst query_loop.simps) simp

text \<open>The network as the client sees it: a peer answers with a list that depends on its address, and does not fail.\<close>

definition answers_with :: "'w client \<Rightarrow> address \<Rightarrow> (address \<Rightarrow> multi_address list) \<Rightarrow> bool" where
  "answers_with C query nodes \<longleftrightarrow>
     (\<forall>w peer. \<exists>w' e. client_Query C w peer query = (w', nodes (MAAddress peer), e) \<and> failure e = None)"

text \<open>The addresses that are reached from a list of peers; the node does not ask itself.\<close>

inductive reached :: "address \<Rightarrow> (address \<Rightarrow> multi_address list) \<Rightarrow> multi_address list \<Rightarrow> address \<Rightarrow> bool"
  for self :: address and nodes :: "address \<Rightarrow> multi_address list" and start :: "multi_address list" where
  start: "m \<in> set start \<Longrightarrow> reached self nodes start (MAAddress m)"
| answer: "reached self nodes start a \<Longrightarrow> a \<noteq> self \<Longrightarrow> m \<in> set (nodes a) \<Longrightarrow> reached self nodes start (MAAddress m)"

text \<open>What holds in every round: the addresses asked are closed under answers up to the list of those still to
  be asked, none of them answered with the target, and all addresses are reached.\<close>

definition search_inv :: "address \<Rightarrow> (address \<Rightarrow> multi_address list) \<Rightarrow> multi_address list \<Rightarrow> address \<Rightarrow> multi_address list \<Rightarrow> address list \<Rightarrow> bool" where
  "search_inv self nodes start query wl bl \<longleftrightarrow> self \<in> set bl \<and>
     MAAddress ` set start \<subseteq> set bl \<union> MAAddress ` set wl \<and>
     (\<forall>a\<in>set bl - {self}. MAAddress ` set (nodes a) \<subseteq> set bl \<union> MAAddress ` set wl \<and> query \<notin> MAAddress ` set (nodes a)) \<and>
     (\<forall>a\<in>(set bl - {self}) \<union> MAAddress ` set wl. reached self nodes start a)"

lemma search_inv_closed:
  assumes "search_inv self nodes start query [] bl" shows "reached self nodes start a \<Longrightarrow> a \<in> set bl"
proof (induction rule: reached.induct)
  case (start m)
  have "MAAddress ` set start \<subseteq> set bl" using assms by (simp add: search_inv_def)
  then show ?case using start by blast
next
  case (answer a m)
  have "MAAddress ` set (nodes a) \<subseteq> set bl" using assms answer by (simp add: search_inv_def)
  then show ?case using answer by blast
qed

text \<open>The peer whose answer contains the target can be reached.\<close>

definition findable :: "address \<Rightarrow> (address \<Rightarrow> multi_address list) \<Rightarrow> multi_address list \<Rightarrow> address \<Rightarrow> bool" where
  "findable self nodes start query \<longleftrightarrow> (\<exists>a. reached self nodes start a \<and> a \<noteq> self \<and> query \<in> MAAddress ` set (nodes a))"

lemma search_inv_end:
  assumes "search_inv self nodes start query [] bl" shows "\<not> findable self nodes start query"
proof
  assume "findable self nodes start query"
  then obtain a where a: "reached self nodes start a" "a \<noteq> self" "query \<in> MAAddress ` set (nodes a)" unfolding findable_def by blast
  then have "a \<in> set bl - {self}" using search_inv_closed [OF assms] by simp
  then have "query \<notin> MAAddress ` set (nodes a)" using assms unfolding search_inv_def by blast
  then show False using a(3) by contradiction
qed

lemma search_inv_skip:
  assumes "search_inv self nodes start query (peer # wl) bl" "MAAddress peer \<in> set bl"
  shows "search_inv self nodes start query wl bl"
proof -
  have "set bl \<union> MAAddress ` set (peer # wl) = set bl \<union> MAAddress ` set wl" using assms(2) by auto
  then show ?thesis using assms(1) unfolding search_inv_def by simp
qed

lemma search_inv_ask:
  assumes "search_inv self nodes start query (peer # wl) bl" "MAAddress peer \<notin> set bl"
    "{m \<in> set (nodes (MAAddress peer)). MAAddress m \<notin> set (MAAddress peer # bl)} = set new" "query \<notin> MAAddress ` set (nodes (MAAddress peer))"
  shows "search_inv self nodes start query (wl @ new) (MAAddress peer # bl)"
proof -
  have self: "MAAddress peer \<noteq> self" using assms(1,2) by (auto simp: search_inv_def)
  have r: "reached self nodes start (MAAddress peer)" using assms(1) by (simp add: search_inv_def)
  have n: "m \<in> set new \<longleftrightarrow> m \<in> set (nodes (MAAddress peer)) \<and> MAAddress m \<noteq> MAAddress peer \<and> MAAddress m \<notin> set bl" for m
    using assms(3) by auto
  have "\<forall>a\<in>MAAddress ` set new. reached self nodes start a" using reached.answer [OF r self] n by auto
  moreover have "MAAddress ` set (nodes (MAAddress peer)) \<subseteq> insert (MAAddress peer) (set bl) \<union> MAAddress ` set new" using n by auto
  moreover have e: "set (MAAddress peer # bl) \<union> MAAddress ` set (wl @ new) = (set bl \<union> MAAddress ` set (peer # wl)) \<union> MAAddress ` set new"
    by auto
  ultimately have "MAAddress ` set (nodes a) \<subseteq> set (MAAddress peer # bl) \<union> MAAddress ` set (wl @ new) \<and> query \<notin> MAAddress ` set (nodes a)"
    if "a \<in> set (MAAddress peer # bl) - {self}" for a
  proof (cases "a = MAAddress peer")
    case True
    then show ?thesis using \<open>MAAddress ` set (nodes (MAAddress peer)) \<subseteq> _\<close> assms(4) by auto
  next
    case False
    then have "a \<in> set bl - {self}" using that by simp
    then have "MAAddress ` set (nodes a) \<subseteq> set bl \<union> MAAddress ` set (peer # wl)" "query \<notin> MAAddress ` set (nodes a)"
      using assms(1) unfolding search_inv_def by blast+
    then show ?thesis unfolding e by blast
  qed
  moreover have "MAAddress ` set start \<subseteq> set (MAAddress peer # bl) \<union> MAAddress ` set (wl @ new)"
    using assms(1) unfolding search_inv_def e by blast
  moreover have "reached self nodes start a" if "a \<in> (set (MAAddress peer # bl) - {self}) \<union> MAAddress ` set (wl @ new)" for a
    using that r assms(1) \<open>\<forall>a\<in>MAAddress ` set new. reached self nodes start a\<close> unfolding search_inv_def by auto
  ultimately show ?thesis using assms(1) unfolding search_inv_def by simp
qed

lemma lexicographic_induct [case_names step]:
  fixes P :: "'a \<Rightarrow> bool" and f g :: "'a \<Rightarrow> nat"
  assumes "\<And>x. (\<And>y. f y < f x \<or> f y = f x \<and> g y < g x \<Longrightarrow> P y) \<Longrightarrow> P x"
  shows "P x"
proof -
  have "wf (inv_image (less_than <*lex*> less_than) (\<lambda>x. (f x, g x)))" by auto
  then show ?thesis by (induction x rule: wf_induct_rule) (auto intro: assms)
qed

theorem query_loop_finds:
  assumes net: "answers_with C query nodes" and fin: "finite A" and depth: "depth < 0"
    and A: "\<And>a. reached self nodes start a \<Longrightarrow> a \<in> A"
  shows "dht_ok d \<Longrightarrow> search_inv self nodes start query wl bl \<Longrightarrow>
    \<exists>w' d' r. query_loop C query depth False i w d wl bl = Some (w', d', r) \<and> dht_ok d' \<and>
      (if findable self nodes start query then \<exists>m. r = Inr m \<and> MAAddress m = query else r = Inl ErrMultiAddressNotFound)"
proof (induction "(i, w, d, wl, bl)" arbitrary: i w d wl bl
    rule: lexicographic_induct [where f = "\<lambda>(i, w, d, wl, bl). card (A - set bl)" and g = "\<lambda>(i, w, d, wl, bl). length wl"])
  case step
  note IH = step.hyps [simplified prod.case]
  show ?case
  proof (cases wl)
    case Nil
    then show ?thesis using step.prems search_inv_end by (simp add: query_loop_Nil not_found_def)
  next
    case (Cons peer wl')
    show ?thesis
    proof (cases "MAAddress peer \<in> set bl")
      case True
      have "search_inv self nodes start query wl' bl" using search_inv_skip step.prems(2) Cons True by blast
      then show ?thesis unfolding Cons query_loop_skip [OF depth True] using Cons step.prems(1) by (intro IH) simp_all
    next
      case False
      obtain w1 e where q: "client_Query C w peer query = (w1, nodes (MAAddress peer), e)" "failure e = None"
        using net unfolding answers_with_def by blast
      obtain w2 d2 new found where a: "answers_loop C query False (MAAddress peer # bl) w1 d (nodes (MAAddress peer)) wl' = Some (w2, d2, wl' @ new, found)"
        "dht_ok d2" "set new \<subseteq> {m \<in> set (nodes (MAAddress peer)). MAAddress m \<notin> set (MAAddress peer # bl)}"
        "found = None \<longrightarrow> {m \<in> set (nodes (MAAddress peer)). MAAddress m \<notin> set (MAAddress peer # bl)} \<subseteq> set new \<and>
           query \<notin> MAAddress ` set (nodes (MAAddress peer))"
        "\<forall>m. found = Some m \<longrightarrow> m \<in> set (nodes (MAAddress peer)) \<and> MAAddress m = query"
        using answers_loop_ok [OF step.prems(1), of C query False "MAAddress peer # bl" w1 "nodes (MAAddress peer)" wl'] by auto
      note round = query_loop_round [OF depth False q a(1)]
      have r: "reached self nodes start (MAAddress peer)" "MAAddress peer \<noteq> self"
        using step.prems(2) Cons False by (auto simp: search_inv_def)
      show ?thesis
      proof (cases found)
        case (Some m)
        then have "findable self nodes start query" using a(5) r by (auto simp: findable_def)
        then show ?thesis unfolding Cons round using Some a(2,5) by simp
      next
        case None
        have "search_inv self nodes start query (wl' @ new) (MAAddress peer # bl)"
          using search_inv_ask [of self nodes start query peer wl' bl new] step.prems(2) Cons False a(3,4) None by auto
        moreover have "card (A - set (MAAddress peer # bl)) < card (A - set bl)"
          using A [OF r(1)] False fin by (intro psubset_card_mono) auto
        ultimately show ?thesis unfolding Cons round None option.case using a(2) by (intro IH) simp_all
      qed
    qed
  qed
qed

text \<open>The peers to ask first are those that are closer to the target than the node itself.\<close>

definition nearer :: "address \<Rightarrow> address \<Rightarrow> multi_address list \<Rightarrow> multi_address list" where
  "nearer self query ms = filter (\<lambda>m. xor_dist (MAAddress m) query < xor_dist self query) ms"

lemma closer_peers_value:
  assumes "valid_address self" "valid_address query"
  shows "\<forall>m\<in>set ms. valid_address (MAAddress m) \<Longrightarrow> closer_peers self query ms = Some (Inr (nearer self query ms))"
  using assms by (induction ms) (simp_all add: Closer_value nearer_def)

lemma Server_Query_value:
  assumes "dht_ok d" "valid_address (self_address C)" "valid_address query"
  shows "Server_Query C d query = Some (nearer (self_address C) query (DHT_MultiAddresses d), None)"
  using closer_peers_value [OF assms(2,3), of "DHT_MultiAddresses d"] peers_valid [OF assms(1)] by (simp add: Server_Query_def peers_def)

lemma whitelist_loop_value:
  assumes "valid_address self" "valid_address query"
  shows "\<forall>m\<in>set ms. valid_address (MAAddress m) \<Longrightarrow> whitelist_loop self query False ms wl =
    Some (Inr (case find (\<lambda>m. MAAddress m = query) ms of Some m \<Rightarrow> Inl m | None \<Rightarrow> Inr (wl @ nearer self query ms)))"
  using assms by (induction ms arbitrary: wl) (auto simp: Closer_value nearer_def split: option.split)

text \<open>An exhaustive search in a network of finitely many nodes.\<close>

lemma Swarmer_Query_finds:
  assumes d: "dht_ok d" and v: "valid_address (self_address C)" "valid_address query" and depth: "depth < 0"
    and net: "answers_with C query nodes" and fin: "finite A"
    and A: "\<And>a. reached (self_address C) nodes (nearer (self_address C) query (DHT_MultiAddresses d)) a \<Longrightarrow> a \<in> A"
  shows "\<exists>w' d' r. Swarmer_Query C w d query depth = Some (w', d', r) \<and> dht_ok d' \<and>
    (if query \<in> MAAddress ` peers d \<or>
        findable (self_address C) nodes (nearer (self_address C) query (DHT_MultiAddresses d)) query
     then \<exists>m. r = Inr m \<and> MAAddress m = query else r = Inl ErrMultiAddressNotFound)"
proof -
  let ?ms = "DHT_MultiAddresses d" and ?self = "self_address C"
  have ms: "\<forall>m\<in>set ?ms. valid_address (MAAddress m)" using peers_valid [OF d] by (simp add: peers_def)
  note W = whitelist_loop_value [OF v ms, of "[]"]
  show ?thesis
  proof (cases "find (\<lambda>m. MAAddress m = query) ?ms")
    case (Some m)
    then have "m \<in> set ?ms" "MAAddress m = query" by (auto simp: find_Some_iff)
    then show ?thesis using W Some d by (auto simp: Swarmer_Query_def swarmer_query_def peers_def)
  next
    case None
    then have "query \<notin> MAAddress ` peers d" by (auto simp: find_None_iff peers_def)
    moreover have "search_inv ?self nodes (nearer ?self query ?ms) query (nearer ?self query ?ms) [?self]"
      by (auto simp: search_inv_def intro: reached.start)
    ultimately show ?thesis
      using query_loop_finds [OF net fin depth A d, where wl = "nearer ?self query ?ms" and bl = "[?self]" and i = 0 and w = w] W None
      by (simp add: Swarmer_Query_def swarmer_query_def)
  qed
qed

end
