(* ===== verification/Crypto_Aes.thy ===== *)
theory Crypto_Aes
  imports Codec "HOL-Library.Monad_Syntax"
begin

unbundle bit_operations_syntax

section \<open>Symmetric encryption: \<^verbatim>\<open>crypto/aes.go\<close>\<close>

text \<open>
  Messages are padded to full blocks and encrypted with AES in cipher feedback mode. The block cipher is a
  parameter \<open>aes\<close>: the key schedule fails on a key of the wrong length, otherwise it gives the permutation of
  blocks. The mode is the one of the standard library: the key stream of a block is the encryption of the
  cipher text block before it, starting with the random initialisation vector.

  A result \<open>None\<close> is a panic: slicing or indexing out of range.
\<close>

subsection \<open>Cipher feedback\<close>

definition BlockSize :: nat where
  "BlockSize = 16"

type_synonym block_cipher = "bytes \<Rightarrow> bytes"

function cfb_encrypt :: "block_cipher \<Rightarrow> bytes \<Rightarrow> bytes \<Rightarrow> bytes" where
  "cfb_encrypt E iv src =
     (if src = [] then []
      else let c = map2 (XOR) (take BlockSize src) (E iv) in c @ cfb_encrypt E c (drop BlockSize src))"
  by pat_completeness auto
termination
  by (relation "measure (\<lambda>(E, iv, src). length src)") (auto simp: BlockSize_def)

function cfb_decrypt :: "block_cipher \<Rightarrow> bytes \<Rightarrow> bytes \<Rightarrow> bytes" where
  "cfb_decrypt E iv src =
     (if src = [] then []
      else map2 (XOR) (take BlockSize src) (E iv) @ cfb_decrypt E (take BlockSize src) (drop BlockSize src))"
  by pat_completeness auto
termination
  by (relation "measure (\<lambda>(E, iv, src). length src)") (auto simp: BlockSize_def)

declare cfb_encrypt.simps [simp del] cfb_decrypt.simps [simp del]

lemma cfb_Nil [simp]: "cfb_encrypt E iv [] = []" "cfb_decrypt E iv [] = []"
  by (simp_all add: cfb_encrypt.simps [of E iv "[]"] cfb_decrypt.simps [of E iv "[]"])

subsection \<open>The cipher\<close>

datatype aes_error = ErrKeySize | ErrMalformedCipherText | ErrMalformedPadding

definition pad :: "bytes \<Rightarrow> bytes" where
  "pad src = (let p = BlockSize - length src mod BlockSize in src @ replicate p (word_of_nat p))"

definition strip :: "bytes \<Rightarrow> (aes_error + bytes) option" where
  "strip src =
     (if length src = 0 then None
      else let p = unat (src ! (length src - 1)) in
        if p > length src then Some (Inl ErrMalformedPadding) else Some (Inr (take (length src - p) src)))"

definition AESCipher_Encrypt :: "(bytes \<Rightarrow> block_cipher option) \<Rightarrow> bytes \<Rightarrow> bytes \<Rightarrow> bytes \<Rightarrow> aes_error + bytes" where
  "AESCipher_Encrypt aes secret iv plainText =
     (case aes secret of
        None \<Rightarrow> Inl ErrKeySize
      | Some block \<Rightarrow> Inr (iv @ cfb_encrypt block iv (pad plainText)))"

definition AESCipher_Decrypt :: "(bytes \<Rightarrow> block_cipher option) \<Rightarrow> bytes \<Rightarrow> bytes \<Rightarrow> (aes_error + bytes) option" where
  "AESCipher_Decrypt aes secret cipherText =
     (case aes secret of
        None \<Rightarrow> Some (Inl ErrKeySize)
      | Some block \<Rightarrow>
          if length cipherText mod BlockSize \<noteq> 0 then Some (Inl ErrMalformedCipherText)
          else if length cipherText < BlockSize then None
          else strip (cfb_decrypt block (take BlockSize cipherText) (drop BlockSize cipherText)))"

subsection \<open>The round trip\<close>

text \<open>The key schedule of a key gives a function of blocks of 16 bytes.\<close>

definition block_ok :: "block_cipher \<Rightarrow> bool" where
  "block_ok E \<longleftrightarrow> (\<forall>b. length b = BlockSize \<longrightarrow> length (E b) = BlockSize)"

lemma map2_xor_twice: "length ys \<le> length xs \<Longrightarrow> map2 (XOR) (map2 (XOR) ys xs) xs = (ys :: bytes)"
proof (induction ys arbitrary: xs)
  case (Cons y ys)
  then obtain x xs' where "xs = x # xs'" by (cases xs) auto
  then show ?case using Cons by (simp add: xor.assoc)
qed simp

lemma length_cfb_encrypt:
  "block_ok E \<Longrightarrow> length iv = BlockSize \<Longrightarrow> BlockSize dvd length src \<Longrightarrow> length (cfb_encrypt E iv src) = length src"
proof (induction E iv src rule: cfb_encrypt.induct)
  case (1 E iv src)
  show ?case
  proof (cases "src = []")
    case False
    then have l: "BlockSize \<le> length src" using "1.prems"(3) by (auto intro: dvd_imp_le)
    let ?c = "map2 (XOR) (take BlockSize src) (E iv)"
    have c: "length ?c = BlockSize" using "1.prems"(1,2) l by (simp add: block_ok_def)
    have "BlockSize dvd length (drop BlockSize src)" using "1.prems"(3) l by simp
    then show ?thesis using "1.IH" [OF False refl "1.prems"(1) c] False c l by (subst cfb_encrypt.simps) (simp add: Let_def)
  qed simp
qed

lemma cfb_decrypt_encrypt:
  "block_ok E \<Longrightarrow> length iv = BlockSize \<Longrightarrow> BlockSize dvd length src \<Longrightarrow> cfb_decrypt E iv (cfb_encrypt E iv src) = src"
proof (induction E iv src rule: cfb_encrypt.induct)
  case (1 E iv src)
  show ?case
  proof (cases "src = []")
    case False
    then have l: "BlockSize \<le> length src" using "1.prems"(3) by (auto intro: dvd_imp_le)
    let ?c = "map2 (XOR) (take BlockSize src) (E iv)"
    have e: "length (E iv) = BlockSize" using "1.prems"(1,2) by (simp add: block_ok_def)
    have c: "length ?c = BlockSize" "?c \<noteq> []" using e l by (auto simp: BlockSize_def)
    have "BlockSize dvd length (drop BlockSize src)" using "1.prems"(3) l by simp
    then have IH: "cfb_decrypt E ?c (cfb_encrypt E ?c (drop BlockSize src)) = drop BlockSize src"
      by (rule "1.IH" [OF False refl "1.prems"(1) c(1)])
    have "cfb_encrypt E iv src = ?c @ cfb_encrypt E ?c (drop BlockSize src)" using False by (subst cfb_encrypt.simps) (simp add: Let_def)
    moreover have "map2 (XOR) ?c (E iv) = take BlockSize src" using e by (intro map2_xor_twice) simp
    ultimately show ?thesis using IH c by (subst cfb_decrypt.simps) simp
  qed simp
qed

lemma pad_append:
  obtains p where "0 < p" "p \<le> 16" "pad src = src @ replicate p (word_of_nat p)" "BlockSize dvd length src + p"
proof
  let ?p = "BlockSize - length src mod BlockSize"
  show "0 < ?p" "?p \<le> 16" by (simp_all add: BlockSize_def)
  show "pad src = src @ replicate ?p (word_of_nat ?p)" by (simp add: pad_def Let_def)
  have "length src + ?p = BlockSize * (length src div BlockSize) + BlockSize"
    unfolding BlockSize_def by presburger
  then show "BlockSize dvd length src + ?p" by simp
qed

lemma pad_length: "BlockSize dvd length (pad src)" "length src < length (pad src)"
  by (rule pad_append [of src]; simp)+

lemma strip_pad: "strip (pad src) = Some (Inr src)"
proof -
  obtain p where p: "0 < p" "p \<le> 16" "pad src = src @ replicate p (word_of_nat p)" by (rule pad_append [of src])
  have "last (pad src) = word_of_nat p" "pad src \<noteq> []" using p(1,3) by auto
  then have "pad src ! (length (pad src) - 1) = word_of_nat p" by (simp add: last_conv_nth)
  moreover have "unat (word_of_nat p :: u8) = p" using p(2) by (simp add: unat_byte)
  ultimately show ?thesis using p(1,3) by (simp add: strip_def Let_def)
qed

lemma AES_roundtrip:
  assumes "aes secret = Some E" "block_ok E" "length iv = BlockSize"
  shows "\<exists>c. AESCipher_Encrypt aes secret iv m = Inr c \<and> AESCipher_Decrypt aes secret c = Some (Inr m)"
proof -
  let ?c = "iv @ cfb_encrypt E iv (pad m)"
  have l: "length ?c = BlockSize + length (pad m)" using assms by (simp add: length_cfb_encrypt pad_length)
  then have "length ?c mod BlockSize = 0" using pad_length(1) [of m] by simp
  then show ?thesis using assms l cfb_decrypt_encrypt [OF assms(2,3) pad_length(1)]
    by (simp add: AESCipher_Encrypt_def AESCipher_Decrypt_def strip_pad)
qed

text \<open>Decrypting one block or less panics: there is no initialisation vector, or no message after it.\<close>

lemma AES_short_panics:
  assumes "aes secret = Some E" "length c = 0 \<or> length c = BlockSize"
  shows "AESCipher_Decrypt aes secret c = None"
  using assms by (auto simp: AESCipher_Decrypt_def strip_def BlockSize_def)

lemma length_cfb_decrypt:
  "block_ok E \<Longrightarrow> length iv = BlockSize \<Longrightarrow> BlockSize dvd length src \<Longrightarrow> length (cfb_decrypt E iv src) = length src"
proof (induction E iv src rule: cfb_decrypt.induct)
  case (1 E iv src)
  show ?case
  proof (cases "src = []")
    case False
    then have l: "BlockSize \<le> length src" using "1.prems"(3) by (auto intro: dvd_imp_le)
    have "BlockSize dvd length (drop BlockSize src)" using "1.prems"(3) l by simp
    then have "length (cfb_decrypt E (take BlockSize src) (drop BlockSize src)) = length (drop BlockSize src)"
      using l by (intro "1.IH" [OF False "1.prems"(1)]) simp_all
    moreover have "length (E iv) = BlockSize" using "1.prems"(1,2) by (simp add: block_ok_def)
    ultimately show ?thesis using False l by (subst cfb_decrypt.simps) simp
  qed simp
qed

text \<open>These are the only panics.\<close>

lemma AES_Decrypt_panics:
  assumes "aes secret = Some E" "block_ok E"
  shows "AESCipher_Decrypt aes secret c = None \<longleftrightarrow> length c = 0 \<or> length c = BlockSize"
proof (cases "length c mod BlockSize = 0 \<and> BlockSize < length c")
  case True
  then have "BlockSize dvd length (drop BlockSize c)" by (simp add: mod_0_imp_dvd)
  then have "length (cfb_decrypt E (take BlockSize c) (drop BlockSize c)) = length c - BlockSize"
    using True assms(2) by (subst length_cfb_decrypt) simp_all
  then have "cfb_decrypt E (take BlockSize c) (drop BlockSize c) \<noteq> []" using True by auto
  then show ?thesis using True assms(1) by (auto simp: AESCipher_Decrypt_def strip_def Let_def)
next
  case False
  then show ?thesis using assms(1) AES_short_panics [of aes secret E c]
    by (auto simp: AESCipher_Decrypt_def BlockSize_def)
qed

end
