(* ===== verification/Grpc.thy ===== *)
theory Grpc
  imports Smpc Registry Crypto_Aes Orderbook
begin

section \<open>Services over gRPC: \<^verbatim>\<open>grpc/orderbook.go\<close> and \<^verbatim>\<open>grpc/stream.go\<close>\<close>

text \<open>
  A trader sends an encrypted fragment to a node as a protobuf message. The nodes talk to each other over
  streams: the one that connects sends a signed message with a fresh secret, encrypted for the other, and the
  messages of both directions are encrypted with this secret.

  Messages are records; a message inside another may be missing, and reading a missing one panics (\<open>None\<close>).
  Signing, recovering the signer and public key encryption are parameters.
\<close>

subsection \<open>Opening an order\<close>

record pb_coexp =
  pb_Co :: bytes
  pb_Exp :: bytes

record pb_fragment =
  pb_OrderId :: bytes
  pb_OrderType :: "32 word"
  pb_OrderParity :: "32 word"
  pb_OrderSettlement :: "32 word"
  pb_OrderExpiry :: u64
  pb_Id :: bytes
  pb_EpochDepth :: "32 word"
  pb_Tokens :: bytes
  pb_Price :: "pb_coexp option"
  pb_Volume :: "pb_coexp option"
  pb_MinimumVolume :: "pb_coexp option"
  pb_Nonce :: bytes

definition marshalEncryptedCoExpShare :: "enc_coexp_share \<Rightarrow> pb_coexp option" where
  "marshalEncryptedCoExpShare v = Some \<lparr>pb_Co = EncCo v, pb_Exp = EncExp v\<rparr>"

definition unmarshalEncryptedCoExpShare :: "pb_coexp option \<Rightarrow> enc_coexp_share option" where
  "unmarshalEncryptedCoExpShare v = map_option (\<lambda>v. \<lparr>EncCo = pb_Co v, EncExp = pb_Exp v\<rparr>) v"

text \<open>Types and parities are signed bytes, the enumerations of protobuf signed integers of 32 bits.\<close>

definition marshalEncryptedOrderFragment :: "enc_fragment \<Rightarrow> pb_fragment" where
  "marshalEncryptedOrderFragment f =
     \<lparr>pb_OrderId = EOrderID f, pb_OrderType = scast (EOrderType f), pb_OrderParity = scast (EOrderParity f),
      pb_OrderSettlement = EOrderSettlement f, pb_OrderExpiry = Unix (EOrderExpiry f), pb_Id = EFragID f,
      pb_EpochDepth = EEpochDepth f, pb_Tokens = ETokens f, pb_Price = marshalEncryptedCoExpShare (EPrice f),
      pb_Volume = marshalEncryptedCoExpShare (EVolume f), pb_MinimumVolume = marshalEncryptedCoExpShare (EMinimumVolume f),
      pb_Nonce = ENonce f\<rparr>"

definition time_Unix :: "u64 \<Rightarrow> time" where
  "time_Unix secs = sint secs * 1000000000"

definition unmarshalEncryptedOrderFragment :: "pb_fragment option \<Rightarrow> enc_fragment option" where
  "unmarshalEncryptedOrderFragment request =
     do { m \<leftarrow> request;
          price \<leftarrow> unmarshalEncryptedCoExpShare (pb_Price m);
          volume \<leftarrow> unmarshalEncryptedCoExpShare (pb_Volume m);
          minimumVolume \<leftarrow> unmarshalEncryptedCoExpShare (pb_MinimumVolume m);
          Some \<lparr>EOrderID = copy32 (pb_OrderId m), EOrderType = ucast (pb_OrderType m), EOrderParity = ucast (pb_OrderParity m),
            EOrderSettlement = pb_OrderSettlement m, EOrderExpiry = time_Unix (pb_OrderExpiry m), EFragID = copy32 (pb_Id m),
            EEpochDepth = pb_EpochDepth m, ETokens = pb_Tokens m, EPrice = price, EVolume = volume,
            EMinimumVolume = minimumVolume, ENonce = pb_Nonce m\<rparr> }"

text \<open>The handler passes the fragment to the orderbook.\<close>

definition OrderbookService_OpenOrder where
  "OrderbookService_OpenOrder S dec priv now ob s request =
     map_option (OpenOrder S dec priv now ob s) (unmarshalEncryptedOrderFragment request)"

lemma ucast_scast8: "ucast (scast (x :: u8) :: 32 word) = x"
  by (rule bit_word_eqI) (simp add: bit_simps)

lemma copy32_word: "length bs = 32 \<Longrightarrow> copy32 bs = bs"
  by (simp add: copy32_def)

text \<open>The fragment arrives as it was sent, but for the part of its expiry below a second.\<close>

lemma fragment_message_roundtrip:
  assumes "length (EOrderID f) = 32" "length (EFragID f) = 32"
    "- (2 ^ 63) \<le> EOrderExpiry f div 1000000000" "EOrderExpiry f div 1000000000 < 2 ^ 63"
  shows "unmarshalEncryptedOrderFragment (Some (marshalEncryptedOrderFragment f)) =
    Some (f\<lparr>EOrderExpiry := EOrderExpiry f div 1000000000 * 1000000000\<rparr>)"
proof -
  have "sint (word_of_int (EOrderExpiry f div 1000000000) :: u64) = EOrderExpiry f div 1000000000"
    using assms(3,4) by (simp add: signed_of_int signed_take_bit_int_eq_self)
  then show ?thesis using assms(1,2)
    by (simp add: unmarshalEncryptedOrderFragment_def marshalEncryptedOrderFragment_def marshalEncryptedCoExpShare_def
        unmarshalEncryptedCoExpShare_def copy32_word ucast_scast8 time_Unix_def Unix_def)
qed

text \<open>A request without a fragment, or a fragment without one of its values, makes the handler panic.\<close>

lemma missing_message_panics:
  "unmarshalEncryptedOrderFragment None = None"
  "pb_Price m = None \<or> pb_Volume m = None \<or> pb_MinimumVolume m = None \<Longrightarrow> unmarshalEncryptedOrderFragment (Some m) = None"
  by (auto simp: unmarshalEncryptedOrderFragment_def unmarshalEncryptedCoExpShare_def Option.bind_eq_None_conv)

subsection \<open>Streams: the authentication\<close>

record stream_message =
  SMSignature :: bytes
  SMAddress :: string
  SMNetwork :: bytes
  SMData :: bytes

datatype 'e stream_error = ErrMalformedSignature | ErrMalformedEncryptionSecret | ErrCannotEncryptSecret | ErrCannotSign 'e
  | ErrUnverified 'e | ErrDecrypt 'e | ErrNotReady | ErrStreamDisconnected

definition connect_text :: "address \<Rightarrow> address \<Rightarrow> network_id \<Rightarrow> bytes" where
  "connect_text client dest nid =
     string_bytes (''Republic Protocol: connect: from '' @ client @ '' to '' @ dest @ '' on '') @ nid"

text \<open>The message that \<^verbatim>\<open>Connector.connect\<close> sends, for the secret it has drawn.\<close>

definition Connector_connect ::
    "keccak \<Rightarrow> (bytes \<Rightarrow> 'e + bytes) \<Rightarrow> (address \<Rightarrow> bytes \<Rightarrow> 'e + bytes) \<Rightarrow> address \<Rightarrow> network_id \<Rightarrow> address \<Rightarrow> bytes \<Rightarrow>
     'e stream_error + stream_message" where
  "Connector_connect keccak sign encrypt self nid dest secret =
     (case encrypt dest secret of
        Inl _ \<Rightarrow> Inl ErrCannotEncryptSecret
      | Inr encryptedSecret \<Rightarrow>
          (case sign (keccak (connect_text self dest nid)) of
             Inl e \<Rightarrow> Inl (ErrCannotSign e)
           | Inr signature \<Rightarrow> Inr \<lparr>SMSignature = signature, SMAddress = self, SMNetwork = nid, SMData = encryptedSecret\<rparr>))"

text \<open>\<^verbatim>\<open>verify\<close> threads the caches of the verifier. An empty field of a message is nil.\<close>

definition verifyAuthentication ::
    "keccak \<Rightarrow> ('c \<Rightarrow> bytes \<Rightarrow> bytes \<Rightarrow> 'c \<times> ('e + unit)) \<Rightarrow> (bytes \<Rightarrow> 'e + bytes) \<Rightarrow> address \<Rightarrow> 'c \<Rightarrow> stream_message \<Rightarrow>
     'c \<times> ('e stream_error + (address \<times> network_id \<times> bytes))" where
  "verifyAuthentication keccak verify decrypt self c m =
     (if length (SMSignature m) \<noteq> 65 \<or> length (SMNetwork m) \<noteq> 32 \<or> SMAddress m = [] then (c, Inl ErrMalformedSignature)
      else if SMData m = [] then (c, Inl ErrMalformedEncryptionSecret)
      else
        (case verify c (keccak (connect_text (SMAddress m) self (SMNetwork m))) (SMSignature m) of
           (c, Inl e) \<Rightarrow> (c, Inl (ErrUnverified e))
         | (c, Inr _) \<Rightarrow>
             (case decrypt (SMData m) of
                Inl e \<Rightarrow> (c, Inl (ErrDecrypt e))
              | Inr secret \<Rightarrow>
                  if length secret \<noteq> 16 then (c, Inl ErrMalformedEncryptionSecret)
                  else (c, Inr (SMAddress m, SMNetwork m, secret)))))"

subsection \<open>Streams: sending and receiving\<close>

text \<open>Senders are objects that the network and the listener share: a sender is an index into a store. \<open>'st\<close> is the
  type of gRPC streams.\<close>

record 'st sender =
  cipher :: bytes
  sender_stream :: "'st option"

record 'st streams =
  sender_store :: "'st sender list"
  listening :: "network_id \<times> address \<Rightarrow> nat option"
  dones :: "network_id \<times> address \<Rightarrow> 'st option"

definition NewListener :: "'st streams" where
  "NewListener = \<lparr>sender_store = [], listening = (\<lambda>_. None), dones = (\<lambda>_. None)\<rparr>"

definition NewSender :: "bytes \<Rightarrow> 'st option \<Rightarrow> 'st sender" where
  "NewSender secret st = \<lparr>cipher = secret, sender_stream = st\<rparr>"

definition Sender_inject :: "'st sender \<Rightarrow> bytes \<Rightarrow> 'st \<Rightarrow> 'st sender" where
  "Sender_inject sd secret st = sd\<lparr>cipher := secret, sender_stream := Some st\<rparr>"

definition Sender_release :: "'st sender \<Rightarrow> 'st sender" where
  "Sender_release sd = sd\<lparr>sender_stream := None\<rparr>"

datatype send_error = ErrDisconnected | ErrMarshal message_error | ErrEncrypt aes_error

text \<open>The data that goes out and the stream it goes to.\<close>

definition Sender_Send ::
    "(bytes \<Rightarrow> block_cipher option) \<Rightarrow> bytes \<Rightarrow> 'st sender \<Rightarrow> message \<Rightarrow> (send_error + ('st \<times> bytes)) option" where
  "Sender_Send aes iv sd m =
     (case sender_stream sd of
        None \<Rightarrow> Some (Inl ErrDisconnected)
      | Some st \<Rightarrow>
          do { r \<leftarrow> Message_MarshalBinary m;
               Some (case r of
                   Inl e \<Rightarrow> Inl (ErrMarshal e)
                 | Inr data \<Rightarrow>
                     (case AESCipher_Encrypt aes (cipher sd) iv data of
                        Inl e \<Rightarrow> Inl (ErrEncrypt e)
                      | Inr data \<Rightarrow> Inr (st, data))) })"

datatype recv_error = ErrMalformedEncryption aes_error | ErrMalformedMessage message_error

text \<open>What the receiving loops of both sides do with a message: decrypt and unmarshal it for the receiver.\<close>

definition stream_recv :: "(bytes \<Rightarrow> block_cipher option) \<Rightarrow> nat \<Rightarrow> 'st sender \<Rightarrow> stream_message \<Rightarrow> (recv_error + message) option" where
  "stream_recv aes maxlen sd raw =
     do { r \<leftarrow> AESCipher_Decrypt aes (cipher sd) (SMData raw);
          case r of
            Inl e \<Rightarrow> Some (Inl (ErrMalformedEncryption e))
          | Inr data \<Rightarrow>
              do { r \<leftarrow> Message_UnmarshalBinary maxlen data;
                   Some (case r of Inl e \<Rightarrow> Inl (ErrMalformedMessage e) | Inr m \<Rightarrow> Inr m) } }"

definition Listener_Listen :: "'st streams \<Rightarrow> network_id \<Rightarrow> address \<Rightarrow> 'st streams \<times> nat" where
  "Listener_Listen st nid dest =
     (st\<lparr>sender_store := sender_store st @ [NewSender [] None],
         listening := (listening st)((nid, dest) \<mapsto> length (sender_store st))\<rparr>, length (sender_store st))"

text \<open>\<^verbatim>\<open>StreamerService.Connect\<close>: the first message of a stream. It also returns the stream of an earlier connection,
  which is told that it is done.\<close>

definition StreamerService_Connect ::
    "keccak \<Rightarrow> ('c \<Rightarrow> bytes \<Rightarrow> bytes \<Rightarrow> 'c \<times> ('e + unit)) \<Rightarrow> (bytes \<Rightarrow> 'e + bytes) \<Rightarrow> address \<Rightarrow> 'c \<Rightarrow> 'st streams \<Rightarrow> 'st \<Rightarrow> stream_message \<Rightarrow>
     'c \<times> 'st streams \<times> ('e stream_error + (nat \<times> 'st option))" where
  "StreamerService_Connect keccak verify decrypt self c st stream m =
     (case verifyAuthentication keccak verify decrypt self c m of
        (c, Inl e) \<Rightarrow> (c, st, Inl e)
      | (c, Inr (addr, nid, secret)) \<Rightarrow>
          (case listening st (nid, addr) of
             None \<Rightarrow> (c, st, Inl ErrNotReady)
           | Some i \<Rightarrow>
               (c, st\<lparr>sender_store := (sender_store st)[i := Sender_inject (sender_store st ! i) secret stream],
                      dones := (dones st)((nid, addr) \<mapsto> stream)\<rparr>,
                Inr (i, dones st (nid, addr)))))"

text \<open>The verifier of a node is the one of the registry.\<close>

definition node_verify where
  "node_verify recover rng isRegistered limit period now c data signature =
     Crypter_Verify recover rng isRegistered limit period now c data signature"

subsection \<open>Who is accepted\<close>

text \<open>The cryptography a node relies on: a signature has 65 bytes and its signer can be recovered, and what is
  encrypted for an address is decrypted there.\<close>

definition crypto_ok ::
    "(bytes \<Rightarrow> bytes \<Rightarrow> 'e + address) \<Rightarrow> (bytes \<Rightarrow> 'f + bytes) \<Rightarrow> (address \<Rightarrow> bytes \<Rightarrow> 'f + bytes) \<Rightarrow> (bytes \<Rightarrow> 'g + bytes) \<Rightarrow> address \<Rightarrow> address \<Rightarrow> bool" where
  "crypto_ok recover sign encrypt decrypt client self \<longleftrightarrow>
     (\<forall>h sg. sign h = Inr sg \<longrightarrow> length sg = 65 \<and> recover h sg = Inr client) \<and>
     (\<forall>p c. encrypt self p = Inr c \<longrightarrow> c \<noteq> [] \<and> decrypt c = Inr p)"

lemma authentication_roundtrip:
  assumes "Connector_connect keccak sign encrypt client nid self secret = Inr m"
    and "crypto_ok recover sign encrypt decrypt client self"
    and "length nid = 32" "client \<noteq> []" "length secret = 16"
    and "verifyAddress rng isRegistered limit period now c client = (c', Inr ())"
  shows "verifyAuthentication keccak (node_verify recover rng isRegistered limit period now) decrypt self c m = (c', Inr (client, nid, secret))"
proof -
  obtain e sg where e: "encrypt self secret = Inr e" and sg: "sign (keccak (connect_text client self nid)) = Inr sg"
    and m: "m = \<lparr>SMSignature = sg, SMAddress = client, SMNetwork = nid, SMData = e\<rparr>"
    using assms(1) by (auto simp: Connector_connect_def split: sum.splits)
  have "e \<noteq> []" "decrypt e = Inr secret" using assms(2) e unfolding crypto_ok_def by blast+
  moreover have "length sg = 65" "recover (keccak (connect_text client self nid)) sg = Inr client"
    using assms(2) sg unfolding crypto_ok_def by blast+
  ultimately show ?thesis using assms(3-6) by (simp add: verifyAuthentication_def m node_verify_def Crypter_Verify_def)
qed

text \<open>The check does not compare the signer with the address of the message: whoever signs, if the signer is
  registered, the stream is accepted as one of the address in the message.\<close>

lemma authentication_impersonation:
  assumes "recover (keccak (connect_text victim self nid)) sg = Inr signer"
    and "verifyAddress rng isRegistered limit period now c signer = (c', Inr ())"
    and "length sg = 65" "length nid = 32" "victim \<noteq> []" "data \<noteq> []" "decrypt data = Inr secret" "length secret = 16"
  shows "verifyAuthentication keccak (node_verify recover rng isRegistered limit period now) decrypt self c
    \<lparr>SMSignature = sg, SMAddress = victim, SMNetwork = nid, SMData = data\<rparr> = (c', Inr (victim, nid, secret))"
  using assms by (simp add: verifyAuthentication_def node_verify_def Crypter_Verify_def)

lemma unregistered_rejected:
  assumes "recover (keccak (connect_text (SMAddress m) self (SMNetwork m))) (SMSignature m) = Inr signer"
    and "verifyAddress rng isRegistered limit period now c signer = (c', Inl e)"
  shows "\<exists>c'' err. verifyAuthentication keccak (node_verify recover rng isRegistered limit period now) decrypt self c m = (c'', Inl err)"
  using assms by (simp add: verifyAuthentication_def node_verify_def Crypter_Verify_def)

subsection \<open>A session\<close>

lemma Send_recv:
  assumes "aes secret = Some E" "block_ok E" "length iv = BlockSize" "message_ok m" "message_shares m \<le> maxlen"
    and "cipher sd = secret" "sender_stream sd = Some st" "cipher sd' = secret"
  shows "\<exists>data. Sender_Send aes iv sd m = Some (Inr (st, data)) \<and>
    stream_recv aes maxlen sd' \<lparr>SMSignature = [], SMAddress = [], SMNetwork = [], SMData = data\<rparr> = Some (Inr m)"
proof -
  obtain data where d: "Message_MarshalBinary m = Some (Inr data)" "Message_UnmarshalBinary maxlen data = Some (Inr m)"
    using Message_roundtrip [OF assms(4,5)] by blast
  obtain c where "AESCipher_Encrypt aes secret iv data = Inr c" "AESCipher_Decrypt aes secret c = Some (Inr data)"
    using AES_roundtrip [of aes secret E iv data] assms(1-3) by blast
  then show ?thesis using d assms(6-8) by (simp add: Sender_Send_def stream_recv_def)
qed

text \<open>After a node has listened for a peer and the peer has connected, the sender the network was given is
  connected and both sides have the same secret.\<close>

lemma session_established:
  assumes "Listener_Listen st0 nid client = (st1, i)"
    and "verifyAuthentication keccak verify decrypt self c m = (c', Inr (client, nid, secret))"
    and "StreamerService_Connect keccak verify decrypt self c st1 stream m = (c'', st2, r)"
  shows "\<exists>old. r = Inr (i, old) \<and> i < length (sender_store st2) \<and> cipher (sender_store st2 ! i) = secret \<and>
    sender_stream (sender_store st2 ! i) = Some stream"
  using assms by (auto simp: Listener_Listen_def StreamerService_Connect_def Sender_inject_def)

lemma short_data_panics:
  assumes "aes (cipher sd) = Some E" "length (SMData raw) = 0 \<or> length (SMData raw) = BlockSize"
  shows "stream_recv aes maxlen sd raw = None"
  using AES_short_panics [of aes "cipher sd" E "SMData raw"] assms by (simp add: stream_recv_def)

end
