(* ===== verification/Crypto_Keys.thy ===== *)
theory Crypto_Keys
  imports Identity Json Crypto_Aes
begin

section \<open>Keys: \<^verbatim>\<open>crypto/crypto.go\<close>, \<^verbatim>\<open>crypto/rsa.go\<close>, \<^verbatim>\<open>crypto/ecdsa.go\<close>\<close>

text \<open>
  The keys of a node as documents and as bytes, the address of a key, and the verification of signatures. Big integers
  are natural numbers, an \<^verbatim>\<open>int\<close> is a word that is read as signed. Hashing, signing and the recovery of a public key from
  a signature are parameters. The standard library is that of Go 1.9, which the repository is built with: a key that is
  read is precomputed, which panics unless there are two primes and none is one, and a point is written with
  32 bytes per coordinate.

  A result \<open>None\<close> is a panic.
\<close>

type_synonym hash = "bytes \<Rightarrow> bytes"

subsection \<open>Reading a member of a document\<close>

definition unmarshalFromMap :: "(json \<Rightarrow> json_error + 'a) \<Rightarrow> (string \<rightharpoonup> json) \<Rightarrow> string \<Rightarrow> json_error + 'a" where
  "unmarshalFromMap f m k = (case m k of Some val \<Rightarrow> f val | None \<Rightarrow> Inl (JsonMissing k))"

definition unmarshalStringFromMap :: "(string \<rightharpoonup> json) \<Rightarrow> string \<Rightarrow> json_error + string" where
  "unmarshalStringFromMap = unmarshalFromMap json_to_string"

definition unmarshalIntFromMap :: "(string \<rightharpoonup> json) \<Rightarrow> string \<Rightarrow> json_error + u64" where
  "unmarshalIntFromMap = unmarshalFromMap (\<lambda>val. map_sum id word_of_int (json_to_int val))"

definition json_to_bigint :: "json \<Rightarrow> json_error + nat" where
  "json_to_bigint val = map_sum id big_SetBytes (json_to_bytes val)"

definition unmarshalBigIntFromMap :: "(string \<rightharpoonup> json) \<Rightarrow> string \<Rightarrow> json_error + nat" where
  "unmarshalBigIntFromMap = unmarshalFromMap json_to_bigint"

definition unmarshalBigIntsFromMap :: "(string \<rightharpoonup> json) \<Rightarrow> string \<Rightarrow> json_error + nat list" where
  "unmarshalBigIntsFromMap =
     unmarshalFromMap (\<lambda>val. case json_to_list val of Inl e \<Rightarrow> Inl e | Inr vals \<Rightarrow> json_all json_to_bigint vals)"

subsection \<open>RSA keys\<close>

record rsa_public =
  RsaN :: nat
  RsaE :: u64

record rsa_key =
  RsaD :: nat
  Primes :: "nat list"
  RsaPublic :: rsa_public

definition Precompute :: "rsa_key \<Rightarrow> rsa_key option" where
  "Precompute key = (if length (Primes key) < 2 \<or> 1 \<in> set (Primes key) then None else Some key)"

definition RsaKey_Equal :: "rsa_key \<Rightarrow> rsa_key \<Rightarrow> bool" where
  "RsaKey_Equal key rhs \<longleftrightarrow>
     length (Primes key) = length (Primes rhs) \<and> (\<forall>i<length (Primes key). Primes key ! i = Primes rhs ! i) \<and>
     RsaD key = RsaD rhs \<and> RsaN (RsaPublic key) = RsaN (RsaPublic rhs) \<and> RsaE (RsaPublic key) = RsaE (RsaPublic rhs)"

definition json_bigint :: "nat \<Rightarrow> json" where
  "json_bigint n = json_bytes (big_Bytes n)"

definition RsaKey_MarshalJSON :: "rsa_key \<Rightarrow> string" where
  "RsaKey_MarshalJSON key =
     print_json (JObject
       [(''d'', json_bigint (RsaD key)), (''e'', json_int (sint (RsaE (RsaPublic key)))), (''n'', json_bigint (RsaN (RsaPublic key))),
        (''primes'', JArray (map json_bigint (Primes key)))])"

definition RsaKey_UnmarshalJSON :: "string \<Rightarrow> (json_error + rsa_key) option" where
  "RsaKey_UnmarshalJSON data =
     (case unmarshal json_to_object data of
        Inl e \<Rightarrow> Some (Inl e)
      | Inr m \<Rightarrow>
     (case unmarshalBigIntFromMap m ''d'' of
        Inl e \<Rightarrow> Some (Inl e)
      | Inr d \<Rightarrow>
     (case unmarshalBigIntsFromMap m ''primes'' of
        Inl e \<Rightarrow> Some (Inl e)
      | Inr primes \<Rightarrow>
     (case unmarshalBigIntFromMap m ''n'' of
        Inl e \<Rightarrow> Some (Inl e)
      | Inr n \<Rightarrow>
     (case unmarshalIntFromMap m ''e'' of
        Inl e \<Rightarrow> Some (Inl e)
      | Inr e \<Rightarrow> map_option Inr (Precompute \<lparr>RsaD = d, Primes = primes, RsaPublic = \<lparr>RsaN = n, RsaE = e\<rparr>\<rparr>))))))"

definition BytesFromRsaPublicKey :: "rsa_public \<Rightarrow> bytes" where
  "BytesFromRsaPublicKey key = be_enc 8 (unat (RsaE key)) @ big_Bytes (RsaN key)"

definition RsaPublicKeyFromBytes :: "bytes \<Rightarrow> read_error + rsa_public" where
  "RsaPublicKeyFromBytes data =
     (case be_read 8 data of
        Inl err \<Rightarrow> Inl err
      | Inr (e, n) \<Rightarrow> Inr \<lparr>RsaN = big_SetBytes n, RsaE = word_of_nat e\<rparr>)"

subsection \<open>Addresses of keys\<close>

record curve_params =
  CurveP :: nat
  CurveN :: nat
  CurveB :: nat
  CurveGx :: nat
  CurveGy :: nat
  BitSize :: u64
  CurveName :: string

definition s256 :: curve_params where
  "s256 = \<lparr>CurveP = 0xFFFFFFFFFFFFFFFFFFFFFFFFFFFFFFFFFFFFFFFFFFFFFFFFFFFFFFFEFFFFFC2F,
     CurveN = 0xFFFFFFFFFFFFFFFFFFFFFFFFFFFFFFFEBAAEDCE6AF48A03BBFD25E8CD0364141,
     CurveB = 7,
     CurveGx = 0x79BE667EF9DCBBAC55A06295CE870B07029BFCDB2DCE28D959F2815B16F81798,
     CurveGy = 0x483ADA7726A3C4655DA4FBFC0E1108A8FD17B448A68554199C47D08FFB10D4B8,
     BitSize = 256, CurveName = ''s256''\<rparr>"

record ecdsa_key =
  EcD :: nat
  EcX :: nat
  EcY :: nat
  Curve :: curve_params
  KeyAddress :: address

definition copy_at :: "nat \<Rightarrow> 'a list \<Rightarrow> 'a list \<Rightarrow> 'a list" where
  "copy_at k src dst = take k dst @ take (length dst - k) src @ drop (k + length src) dst"

definition elliptic_Marshal :: "nat \<Rightarrow> nat \<Rightarrow> bytes option" where
  "elliptic_Marshal x y =
     (let xs = big_Bytes x; ys = big_Bytes y
      in if 33 < length xs \<or> 65 < length ys then None
         else Some (copy_at (65 - length ys) ys (copy_at (33 - length xs) xs (4 # replicate 64 0))))"

definition addressFromPublickey :: "hash \<Rightarrow> nat \<Rightarrow> nat \<Rightarrow> address option" where
  "addressFromPublickey keccak x y =
     do { bs \<leftarrow> elliptic_Marshal x y;
          let hash = keccak (tl bs);
          if length hash < 20 then None
          else Some (EncodeAlphabet ([KECCAK_256, 20] @ drop (length hash - 20) hash) BTCAlphabet) }"

definition NewEcdsaKey :: "hash \<Rightarrow> nat \<Rightarrow> nat \<Rightarrow> nat \<Rightarrow> curve_params \<Rightarrow> ecdsa_key option" where
  "NewEcdsaKey keccak d x y curve =
     do { address \<leftarrow> addressFromPublickey keccak x y;
          Some \<lparr>EcD = d, EcX = x, EcY = y, Curve = curve, KeyAddress = address\<rparr> }"

subsection \<open>Signatures\<close>

datatype 'e verify_error = ErrNilData | ErrNilSignature | ErrInvalidSignature | ErrRecover 'e

definition RecoverAddress :: "hash \<Rightarrow> (bytes \<Rightarrow> bytes \<Rightarrow> 'e + bytes) \<Rightarrow> bytes \<Rightarrow> bytes \<Rightarrow> ('e + address) option" where
  "RecoverAddress keccak ecrecover data signature =
     (case ecrecover data signature of
        Inl err \<Rightarrow> Some (Inl err)
      | Inr publicKey \<Rightarrow>
          if length publicKey < 65 then None
          else map_option Inr
            (addressFromPublickey keccak (big_SetBytes (take 32 (drop 1 publicKey))) (big_SetBytes (take 32 (drop 33 publicKey)))))"

definition EcdsaVerifier_Verify ::
    "hash \<Rightarrow> (bytes \<Rightarrow> bytes \<Rightarrow> 'e + bytes) \<Rightarrow> address \<Rightarrow> bytes \<Rightarrow> bytes \<Rightarrow> ('e verify_error + unit) option" where
  "EcdsaVerifier_Verify keccak ecrecover addr data signature =
     (if data = [] then Some (Inl ErrNilData)
      else if signature = [] then Some (Inl ErrNilSignature)
      else
        (case RecoverAddress keccak ecrecover data signature of
           None \<Rightarrow> None
         | Some (Inl err) \<Rightarrow> Some (Inl (ErrRecover err))
         | Some (Inr addrRecovered) \<Rightarrow> Some (if addrRecovered \<noteq> addr then Inl ErrInvalidSignature else Inr ())))"

definition EcdsaKey_Verify ::
    "hash \<Rightarrow> (bytes \<Rightarrow> bytes \<Rightarrow> 'e + bytes) \<Rightarrow> ecdsa_key \<Rightarrow> bytes \<Rightarrow> bytes \<Rightarrow> ('e verify_error + unit) option" where
  "EcdsaKey_Verify keccak ecrecover key = EcdsaVerifier_Verify keccak ecrecover (KeyAddress key)"

definition EcdsaKey_Equal :: "ecdsa_key \<Rightarrow> ecdsa_key \<Rightarrow> bool" where
  "EcdsaKey_Equal key rhs \<longleftrightarrow>
     KeyAddress key = KeyAddress rhs \<and> EcD key = EcD rhs \<and> EcX key = EcX rhs \<and> EcY key = EcY rhs \<and>
     CurveP (Curve key) = CurveP (Curve rhs) \<and> CurveN (Curve key) = CurveN (Curve rhs) \<and> CurveB (Curve key) = CurveB (Curve rhs) \<and>
     CurveGx (Curve key) = CurveGx (Curve rhs) \<and> CurveGy (Curve key) = CurveGy (Curve rhs) \<and> BitSize (Curve key) = BitSize (Curve rhs)"

subsection \<open>Addresses of Ethereum\<close>

definition BytesToAddress :: "bytes \<Rightarrow> bytes" where
  "BytesToAddress b = (if length b > 20 then drop (length b - 20) b else replicate (20 - length b) 0 @ b)"

definition republicAddressToEthAddress :: "address \<Rightarrow> (unit + bytes) option" where
  "republicAddressToEthAddress repAddress =
     (let bs = DecodeAlphabet repAddress BTCAlphabet
      in if length bs < 2 then None
         else if drop 2 bs = [] then Some (Inl ())
         else Some (Inr (BytesToAddress (drop 2 bs))))"

definition FromHex :: "string \<Rightarrow> bytes" where
  "FromHex s =
     (let s = (if 1 < length s \<and> (take 2 s = ''0x'' \<or> take 2 s = ''0X'') then drop 2 s else s);
          s = (if length s mod 2 = 1 then CHR ''0'' # s else s)
      in case hex_decode s of None \<Rightarrow> [] | Some bs \<Rightarrow> bs)"

definition ethAddressToRepublicAddress :: "string \<Rightarrow> address" where
  "ethAddressToRepublicAddress ethAddress =
     EncodeAlphabet ([KECCAK_256, 20] @ BytesToAddress (FromHex ethAddress)) BTCAlphabet"

text \<open>The text of an address, in which the letters that the hash selects are capital.\<close>

definition hash_digit :: "bytes \<Rightarrow> nat \<Rightarrow> nat" where
  "hash_digit hash i = (if i mod 2 = 0 then unat (hash ! (i div 2)) div 16 else unat (hash ! (i div 2)) mod 16)"

definition Address_Hex :: "hash \<Rightarrow> bytes \<Rightarrow> string option" where
  "Address_Hex keccak a =
     (let unchecksummed = hex_encode a;
          hash = keccak (string_bytes unchecksummed)
      in if 2 * length hash < length unchecksummed then None
         else Some (''0x'' @
           map (\<lambda>i. let c = unchecksummed ! i in if CHR ''9'' < c \<and> 7 < hash_digit hash i then char_of (of_char c - 32 :: nat) else c)
             [0..<length unchecksummed]))"

subsection \<open>ECDSA keys as documents\<close>

definition curve_json :: json where
  "curve_json = JObject
     [(''b'', json_bigint (CurveB s256)), (''bits'', json_int (sint (BitSize s256))), (''n'', json_bigint (CurveN s256)),
      (''name'', JString ''s256''), (''p'', json_bigint (CurveP s256)), (''x'', json_bigint (CurveGx s256)),
      (''y'', json_bigint (CurveGy s256))]"

definition EcdsaKey_MarshalJSON :: "hash \<Rightarrow> ecdsa_key \<Rightarrow> (unit + string) option" where
  "EcdsaKey_MarshalJSON keccak key =
     (case republicAddressToEthAddress (KeyAddress key) of
        None \<Rightarrow> None
      | Some (Inl err) \<Rightarrow> Some (Inl err)
      | Some (Inr ethAddress) \<Rightarrow>
          do { hex \<leftarrow> Address_Hex keccak ethAddress;
               Some (Inr (print_json (JObject
                 [(''address'', JString hex), (''curveParams'', curve_json), (''d'', json_bigint (EcD key)),
                  (''x'', json_bigint (EcX key)), (''y'', json_bigint (EcY key))]))) })"

definition curve_of_json :: "json \<Rightarrow> json_error + curve_params" where
  "curve_of_json val =
     (case json_to_object val of Inl e \<Rightarrow> Inl e | Inr m \<Rightarrow>
     (case unmarshalBigIntFromMap m ''p'' of Inl e \<Rightarrow> Inl e | Inr p \<Rightarrow>
     (case unmarshalBigIntFromMap m ''n'' of Inl e \<Rightarrow> Inl e | Inr n \<Rightarrow>
     (case unmarshalBigIntFromMap m ''b'' of Inl e \<Rightarrow> Inl e | Inr b \<Rightarrow>
     (case unmarshalBigIntFromMap m ''x'' of Inl e \<Rightarrow> Inl e | Inr gx \<Rightarrow>
     (case unmarshalBigIntFromMap m ''y'' of Inl e \<Rightarrow> Inl e | Inr gy \<Rightarrow>
     (case unmarshalIntFromMap m ''bits'' of Inl e \<Rightarrow> Inl e | Inr bits \<Rightarrow>
     (case unmarshalStringFromMap m ''name'' of Inl e \<Rightarrow> Inl e | Inr name \<Rightarrow>
        Inr \<lparr>CurveP = p, CurveN = n, CurveB = b, CurveGx = gx, CurveGy = gy, BitSize = bits, CurveName = name\<rparr>))))))))"

definition EcdsaKey_UnmarshalJSON :: "hash \<Rightarrow> string \<Rightarrow> (json_error + ecdsa_key) option" where
  "EcdsaKey_UnmarshalJSON keccak data =
     (case unmarshal json_to_object data of Inl e \<Rightarrow> Some (Inl e) | Inr m \<Rightarrow>
     (case unmarshalBigIntFromMap m ''d'' of Inl e \<Rightarrow> Some (Inl e) | Inr d \<Rightarrow>
     (case unmarshalBigIntFromMap m ''x'' of Inl e \<Rightarrow> Some (Inl e) | Inr x \<Rightarrow>
     (case unmarshalBigIntFromMap m ''y'' of Inl e \<Rightarrow> Some (Inl e) | Inr y \<Rightarrow>
     (case unmarshalFromMap curve_of_json m ''curveParams'' of Inl e \<Rightarrow> Some (Inl e) | Inr curve \<Rightarrow>
        map_option Inr (NewEcdsaKey keccak d x y curve))))))"

subsection \<open>RSA keys are read back\<close>

lemma json_to_bigint_json [simp]: "json_to_bigint (json_bigint n) = Inr n" "plain (json_bigint n)"
  by (simp_all add: json_to_bigint_def json_bigint_def big_SetBytes_be_num big_Bytes_num(1))

lemma json_to_int_word [simp]: "map_sum id word_of_int (json_to_int (json_int (sint (w :: u64)))) = Inr w"
  using sint_greater_eq [of w] sint_less [of w] by (simp add: json_to_int_json)

lemma json_to_bigints [simp]: "json_all json_to_bigint (map json_bigint ns) = Inr ns"
  by (rule json_all_map) simp

lemmas unmarshal_defs = unmarshalStringFromMap_def unmarshalIntFromMap_def unmarshalBigIntFromMap_def unmarshalBigIntsFromMap_def
  unmarshalFromMap_def

lemma RsaKey_JSON:
  "RsaKey_UnmarshalJSON (RsaKey_MarshalJSON key) = map_option Inr (Precompute key)"
proof -
  obtain d ps n e where key: "key = \<lparr>RsaD = d, Primes = ps, RsaPublic = \<lparr>RsaN = n, RsaE = e\<rparr>\<rparr>"
    by (metis rsa_key.surjective rsa_public.surjective old.unit.exhaust)
  have "plain (JArray (map json_bigint ps))" by auto
  then show ?thesis by (simp add: key RsaKey_UnmarshalJSON_def RsaKey_MarshalJSON_def unmarshal_defs)
qed

lemma RsaKey_Equal_iff: "RsaKey_Equal key rhs \<longleftrightarrow> key = (rhs :: rsa_key)"
  by (cases key; cases rhs; cases "RsaPublic key"; cases "RsaPublic rhs") (auto simp: RsaKey_Equal_def list_eq_iff_nth_eq)

lemma RsaPublicKey_Bytes: "RsaPublicKeyFromBytes (BytesFromRsaPublicKey key) = Inr key"
  by (simp add: RsaPublicKeyFromBytes_def BytesFromRsaPublicKey_def big_SetBytes_be_num big_Bytes_num(1))

lemma RsaPublicKey_short: "length data < 8 \<Longrightarrow> RsaPublicKeyFromBytes data = Inl (if data = [] then EOF else UnexpectedEOF)"
  by (simp add: RsaPublicKeyFromBytes_def be_read_short)

subsection \<open>Addresses\<close>

lemma big_Bytes_be_enc: "n < 256 ^ k \<Longrightarrow> replicate (k - length (big_Bytes n)) 0 @ big_Bytes n = be_enc k n" "n < 256 ^ k \<Longrightarrow> length (big_Bytes n) \<le> k"
proof -
  assume n: "n < 256 ^ k"
  then show l: "length (big_Bytes n) \<le> k" using length_base_digits_le [of 256 n k] by (simp add: big_Bytes_def)
  let ?b = "replicate (k - length (big_Bytes n)) 0 @ big_Bytes n"
  have "be_num ?b = n" "length ?b = k" using l by (simp_all add: big_Bytes_num(1))
  then show "?b = be_enc k n" using be_enc_be_num [of ?b] by simp
qed

lemma copy_at_middle: "copy_at (length p) q (p @ replicate (length q) 0 @ r) = p @ q @ r"
  by (simp add: copy_at_def)

lemma elliptic_Marshal_point:
  assumes "x < 256 ^ 32" "y < 256 ^ 32"
  shows "elliptic_Marshal x y = Some (4 # be_enc 32 x @ be_enc 32 y)"
proof -
  note X = big_Bytes_be_enc [OF assms(1)] and Y = big_Bytes_be_enc [OF assms(2)]
  let ?xs = "big_Bytes x" and ?ys = "big_Bytes y"
  have "4 # replicate 64 (0::u8) = (4 # replicate (32 - length ?xs) 0) @ replicate (length ?xs) 0 @ replicate 32 0"
    using X(2) by (simp flip: replicate_add)
  moreover have "length (4 # replicate (32 - length ?xs) (0::u8)) = 33 - length ?xs" using X(2) by simp
  ultimately have "copy_at (33 - length ?xs) ?xs (4 # replicate 64 0) = (4 # be_enc 32 x) @ replicate 32 0"
    using X(1) copy_at_middle by (metis append.assoc append_Cons)
  moreover have "copy_at (65 - length ?ys) ?ys ((4 # be_enc 32 x) @ replicate 32 0) = 4 # be_enc 32 x @ be_enc 32 y"
  proof -
    have e: "(4 # be_enc 32 x) @ replicate 32 (0::u8) = ((4 # be_enc 32 x) @ replicate (32 - length ?ys) 0) @ replicate (length ?ys) 0 @ []"
      using Y(2) by (simp flip: replicate_add)
    have l: "length ((4 # be_enc 32 x) @ replicate (32 - length ?ys) (0::u8)) = 65 - length ?ys" using Y(2) by simp
    show ?thesis using Y(1) l copy_at_middle unfolding e by (metis append.assoc append_Cons append_Nil2)
  qed
  ultimately show ?thesis using X(2) Y(2) by (simp add: elliptic_Marshal_def)
qed

text \<open>The address of a point is the address of the identifier at the end of its hash.\<close>

lemma addressFromPublickey_ID:
  assumes "x < 256 ^ 32" "y < 256 ^ 32" "20 \<le> length (keccak (be_enc 32 x @ be_enc 32 y))"
  shows "addressFromPublickey keccak x y =
    Some (ID_Address (drop (length (keccak (be_enc 32 x @ be_enc 32 y)) - 20) (keccak (be_enc 32 x @ be_enc 32 y))))"
  using assms by (simp add: addressFromPublickey_def elliptic_Marshal_point ID_Address_def IDLength_def Let_def)

lemma addressFromPublickey_some:
  assumes "addressFromPublickey keccak x y = Some a"
  shows "\<exists>ident. length ident = 20 \<and> a = ID_Address ident"
proof -
  obtain bs where "elliptic_Marshal x y = Some bs" "20 \<le> length (keccak (tl bs))"
    "a = EncodeAlphabet ([KECCAK_256, 20] @ drop (length (keccak (tl bs)) - 20) (keccak (tl bs))) BTCAlphabet"
    using assms by (auto simp: addressFromPublickey_def Let_def bind_eq_Some_conv split: if_splits)
  then show ?thesis
    by (intro exI [of _ "drop (length (keccak (tl bs)) - 20) (keccak (tl bs))"]) (simp add: ID_Address_def IDLength_def)
qed

lemma republic_to_eth: "length ident = 20 \<Longrightarrow> republicAddressToEthAddress (ID_Address ident) = Some (Inr ident)"
  by (auto simp: republicAddressToEthAddress_def ID_Address_Decode BytesToAddress_def)

text \<open>Capital letters do not change what a hexadecimal text means.\<close>

definition capital :: "char \<Rightarrow> char" where
  "capital c = char_of (of_char c - 32 :: nat)"

lemma digit_of_upper:
  "digit_of CHR ''A'' = Some 10" "digit_of CHR ''B'' = Some 11" "digit_of CHR ''C'' = Some 12"
  "digit_of CHR ''D'' = Some 13" "digit_of CHR ''E'' = Some 14" "digit_of CHR ''F'' = Some 15"
  by (simp_all add: digit_of_def digit_chars_def less_eq_char_def)

lemma capital_digits:
  "capital (digit_char 10) = CHR ''A''" "capital (digit_char 11) = CHR ''B''" "capital (digit_char 12) = CHR ''C''"
  "capital (digit_char 13) = CHR ''D''" "capital (digit_char 14) = CHR ''E''" "capital (digit_char 15) = CHR ''F''"
  by (simp_all add: capital_def digit_char_def digit_chars_def char_of_def bit_Suc_0_iff)

lemma hex_digit_capital:
  assumes "10 \<le> d" "d < 16"
  shows "hex_digit (capital (digit_char d)) = Some d" "(of_char (capital (digit_char d)) :: nat) < 0x80"
proof -
  have "d = 10 \<or> d = 11 \<or> d = 12 \<or> d = 13 \<or> d = 14 \<or> d = 15" using assms by linarith
  then show "hex_digit (capital (digit_char d)) = Some d" "(of_char (capital (digit_char d)) :: nat) < 0x80"
    by (auto simp: capital_digits digit_of_upper hex_digit_def)
qed

lemma hex_chars:
  assumes "c \<in> set (hex_encode bs)"
  shows "\<exists>d<16. c = digit_char d"
proof -
  obtain b :: u8 where "c = digit_char (unat b div 16) \<or> c = digit_char (unat b mod 16)" using assms by (auto simp: hex_encode_def)
  moreover have "unat b div 16 < 16" "unat b mod 16 < 16" using byte_split(1,2) [of 16 b] by simp_all
  ultimately show ?thesis by blast
qed

lemma length_hex_encode: "length (hex_encode bs) = 2 * length bs"
  by (induction bs) (simp_all add: hex_encode_def)

lemma hex_decode_cong: "map hex_digit s = map hex_digit t \<Longrightarrow> hex_decode s = hex_decode t"
proof (induction s arbitrary: t rule: hex_decode.induct)
  case (2 c)
  then show ?case by (cases t rule: hex_decode.cases) auto
next
  case (3 a b cs)
  then obtain a' b' cs' where t: "t = a' # b' # cs'" "hex_digit a = hex_digit a'" "hex_digit b = hex_digit b'" "map hex_digit cs = map hex_digit cs'"
    by (cases t rule: hex_decode.cases) auto
  then show ?case using "3.IH" by (cases "hex_digit a'"; cases "hex_digit b'") auto
qed simp

text \<open>The letters of an address of Ethereum.\<close>

definition checksum_char :: "bytes \<Rightarrow> string \<Rightarrow> nat \<Rightarrow> char" where
  "checksum_char hash s i = (if CHR ''9'' < s ! i \<and> 7 < hash_digit hash i then capital (s ! i) else s ! i)"

lemma checksum_char:
  assumes "i < length (hex_encode bs)"
  shows "hex_digit (checksum_char hash (hex_encode bs) i) = hex_digit (hex_encode bs ! i)"
    "(of_char (checksum_char hash (hex_encode bs) i) :: nat) < 0x80"
proof -
  obtain d where d: "d < 16" "hex_encode bs ! i = digit_char d" using hex_chars nth_mem [OF assms] by blast
  have a: "(of_char (digit_char d) :: nat) < 0x80" using ascii_hex [of bs] nth_mem [OF assms] d(2) by (auto simp: ascii_def)
  have "10 \<le> d" if "CHR ''9'' < digit_char d" using digit_char_is_digit [of d] that by (force simp: is_digit_def)
  then show "hex_digit (checksum_char hash (hex_encode bs) i) = hex_digit (hex_encode bs ! i)"
    "(of_char (checksum_char hash (hex_encode bs) i) :: nat) < 0x80"
    using d a hex_digit_capital [of d] hex_digit_char [OF d(1)] by (auto simp: checksum_char_def)
qed

lemma Address_Hex_value:
  assumes "length a \<le> length (keccak (string_bytes (hex_encode a)))"
  shows "Address_Hex keccak a =
    Some (''0x'' @ map (checksum_char (keccak (string_bytes (hex_encode a))) (hex_encode a)) [0..<length (hex_encode a)])"
  using assms by (simp add: Address_Hex_def Let_def length_hex_encode checksum_char_def capital_def)

text \<open>The two forms of an address are translated into each other.\<close>

lemma eth_roundtrip:
  assumes "length ident = 20" "20 \<le> length (keccak (string_bytes (hex_encode ident)))"
  shows "\<exists>text. republicAddressToEthAddress (ID_Address ident) = Some (Inr ident) \<and> Address_Hex keccak ident = Some text \<and>
    ascii text \<and> ethAddressToRepublicAddress text = ID_Address ident"
proof -
  let ?t = "map (checksum_char (keccak (string_bytes (hex_encode ident))) (hex_encode ident)) [0..<length (hex_encode ident)]"
  have "map hex_digit ?t = map hex_digit (hex_encode ident)"
    using checksum_char(1) by (intro nth_equalityI) simp_all
  then have "hex_decode ?t = Some ident" using hex_decode_cong hex_decode_encode by metis
  moreover have "length ?t mod 2 = 0" by (simp add: length_hex_encode)
  ultimately have "FromHex (''0x'' @ ?t) = ident" by (simp add: FromHex_def Let_def)
  then have "ethAddressToRepublicAddress (''0x'' @ ?t) = ID_Address ident"
    using assms(1) by (simp add: ethAddressToRepublicAddress_def BytesToAddress_def ID_Address_def IDLength_def)
  moreover have "ascii (''0x'' @ ?t)" using checksum_char(2) by (auto simp: ascii_def)
  ultimately show ?thesis using republic_to_eth [OF assms(1)] Address_Hex_value [of ident keccak] assms by simp
qed

subsection \<open>ECDSA keys are read back\<close>

lemma curve_of_json [simp]: "curve_of_json curve_json = Inr s256" "plain curve_json"
proof -
  have "map_sum id word_of_int (json_to_int (json_int (sint (BitSize s256)))) = Inr (BitSize s256)" by (rule json_to_int_word)
  moreover have "CurveName s256 = ''s256''" by (simp add: s256_def)
  moreover have "\<lparr>CurveP = CurveP s256, CurveN = CurveN s256, CurveB = CurveB s256, CurveGx = CurveGx s256, CurveGy = CurveGy s256,
      BitSize = BitSize s256, CurveName = CurveName s256\<rparr> = s256" by simp
  ultimately show "curve_of_json curve_json = Inr s256" unfolding curve_of_json_def curve_json_def by (simp add: unmarshal_defs)
  show "plain curve_json" by (simp add: curve_json_def)
qed

lemma EcdsaKey_JSON:
  assumes "NewEcdsaKey keccak d x y s256 = Some key" "\<And>data. length (keccak data) = 32"
  shows "\<exists>data. EcdsaKey_MarshalJSON keccak key = Some (Inr data) \<and> EcdsaKey_UnmarshalJSON keccak data = Some (Inr key)"
proof -
  obtain a where a: "addressFromPublickey keccak x y = Some a"
    and key: "key = \<lparr>EcD = d, EcX = x, EcY = y, Curve = s256, KeyAddress = a\<rparr>"
    using assms(1) by (auto simp: NewEcdsaKey_def bind_eq_Some_conv)
  obtain ident where i: "length ident = 20" "a = ID_Address ident" using addressFromPublickey_some [OF a] by blast
  obtain hex where h: "republicAddressToEthAddress a = Some (Inr ident)" "Address_Hex keccak ident = Some hex" "ascii hex"
    using eth_roundtrip [OF i(1), of keccak] assms(2) i(2) by auto
  let ?j = "JObject [(''address'', JString hex), (''curveParams'', curve_json), (''d'', json_bigint d), (''x'', json_bigint x), (''y'', json_bigint y)]"
  have "EcdsaKey_MarshalJSON keccak key = Some (Inr (print_json ?j))" using h(1,2) by (simp add: EcdsaKey_MarshalJSON_def key)
  moreover have "EcdsaKey_UnmarshalJSON keccak (print_json ?j) = Some (Inr key)"
    using h(3) assms(1) by (simp add: EcdsaKey_UnmarshalJSON_def unmarshal_defs)
  ultimately show ?thesis by blast
qed

lemma EcdsaKey_Equal_iff: "EcdsaKey_Equal key rhs \<longleftrightarrow> key\<lparr>Curve := Curve key\<lparr>CurveName := []\<rparr>\<rparr> = (rhs\<lparr>Curve := Curve rhs\<lparr>CurveName := []\<rparr>\<rparr> :: ecdsa_key)"
  by (cases key; cases rhs; cases "Curve key"; cases "Curve rhs") (auto simp: EcdsaKey_Equal_def)

subsection \<open>Signatures\<close>

text \<open>A signature is accepted for exactly one address, the one that is recovered from it.\<close>

lemma Verify_iff:
  assumes "data \<noteq> []" "signature \<noteq> []"
  shows "EcdsaVerifier_Verify keccak ecrecover addr data signature = Some (Inr ()) \<longleftrightarrow>
    RecoverAddress keccak ecrecover data signature = Some (Inr addr)"
  using assms by (auto simp: EcdsaVerifier_Verify_def split: option.splits sum.splits)

lemma Verify_unique:
  assumes "EcdsaVerifier_Verify keccak ecrecover addr data signature = Some (Inr ())"
    "EcdsaVerifier_Verify keccak ecrecover addr' data signature = Some (Inr ())"
  shows "addr = addr'"
  using assms by (auto simp: EcdsaVerifier_Verify_def split: option.splits sum.splits if_splits)

text \<open>The recovery gives the public key of the signer: the documented behaviour of the signature scheme.\<close>

definition recovers :: "(nat \<Rightarrow> bytes \<Rightarrow> 'e + bytes) \<Rightarrow> (bytes \<Rightarrow> bytes \<Rightarrow> 'e + bytes) \<Rightarrow> (nat \<Rightarrow> nat \<times> nat) \<Rightarrow> bool" where
  "recovers sign ecrecover pub \<longleftrightarrow>
     (\<forall>d data sig. sign d data = Inr sig \<longrightarrow> sig \<noteq> [] \<and>
        fst (pub d) < 256 ^ 32 \<and> snd (pub d) < 256 ^ 32 \<and>
        ecrecover data sig = Inr (4 # be_enc 32 (fst (pub d)) @ be_enc 32 (snd (pub d))))"

lemma RecoverAddress_sign:
  assumes "recovers sign ecrecover pub" "sign d data = Inr sig" "pub d = (x, y)"
  shows "RecoverAddress keccak ecrecover data sig = map_option Inr (addressFromPublickey keccak x y)" "sig \<noteq> []"
proof -
  have e: "ecrecover data sig = Inr (4 # be_enc 32 x @ be_enc 32 y)" "x < 256 ^ 32" "y < 256 ^ 32" "sig \<noteq> []"
    using assms(1) [unfolded recovers_def, rule_format, OF assms(2)] assms(3) by simp_all
  then show "RecoverAddress keccak ecrecover data sig = map_option Inr (addressFromPublickey keccak x y)"
    by (simp add: RecoverAddress_def big_SetBytes_be_num)
  show "sig \<noteq> []" by (rule e)
qed

text \<open>What a key signs is verified by its address, and by no other.\<close>

lemma Verify_sign:
  assumes "recovers sign ecrecover pub" "pub d = (x, y)" "NewEcdsaKey keccak d x y curve = Some key"
    "sign d data = Inr sig" "data \<noteq> []"
  shows "EcdsaKey_Verify keccak ecrecover key data sig = Some (Inr ())"
    "addr \<noteq> KeyAddress key \<Longrightarrow> EcdsaVerifier_Verify keccak ecrecover addr data sig = Some (Inl ErrInvalidSignature)"
proof -
  obtain a where a: "addressFromPublickey keccak x y = Some a" "KeyAddress key = a"
    using assms(3) by (auto simp: NewEcdsaKey_def bind_eq_Some_conv)
  note R = RecoverAddress_sign(1) [OF assms(1,4,2), of keccak] RecoverAddress_sign(2) [OF assms(1,4,2)]
  show "EcdsaKey_Verify keccak ecrecover key data sig = Some (Inr ())"
    using R a assms(5) by (simp add: EcdsaKey_Verify_def EcdsaVerifier_Verify_def)
  show "EcdsaVerifier_Verify keccak ecrecover addr data sig = Some (Inl ErrInvalidSignature)" if "addr \<noteq> KeyAddress key"
    using R a assms(5) that by (simp add: EcdsaVerifier_Verify_def)
qed

text \<open>The translation of an address takes two bytes off before it looks at the length.\<close>

lemma republicAddressToEthAddress_panics: "length (DecodeAlphabet a BTCAlphabet) < 2 \<Longrightarrow> republicAddressToEthAddress a = None"
  by (simp add: republicAddressToEthAddress_def)

text \<open>Reading an RSA key with one prime, or none, panics.\<close>

lemma RsaKey_UnmarshalJSON_panics: "length (Primes key) < 2 \<Longrightarrow> RsaKey_UnmarshalJSON (RsaKey_MarshalJSON key) = None"
  by (simp add: RsaKey_JSON Precompute_def)

end
