(* ===== verification/Crypto_Keystore.thy ===== *)
theory Crypto_Keystore
  imports Crypto_Keys Json_Struct
begin

unbundle bit_operations_syntax

section \<open>The key store: \<^verbatim>\<open>crypto/keystore.go\<close>\<close>

text \<open>
  A key store keeps the two keys of a node in a document, each encrypted under a key that is derived from a passphrase.
  The cipher is AES in counter mode, and a hash over the second half of the derived key and the cipher text tells a wrong
  passphrase. \<open>env\<close> holds what comes from other packages: the derivation of keys (scrypt; the bytes of the slice it returns up to
  its capacity, which is what a slice of it is checked against), the block cipher, the hash, and what a number of a document is as a \<^verbatim>\<open>float64\<close>, cut to a whole number.

  A document is read into a structure member by member: the name of a member may be written in other case, a member that
  comes twice is read into the same place twice, a null leaves a value as it is and removes a key. Salt, initialisation
  vector and identifier are random and are arguments. A result \<open>None\<close> is a panic.
\<close>

subsection \<open>State\<close>

record 'e keystore_env =
  scrypt_Key :: "bytes \<Rightarrow> bytes \<Rightarrow> int \<Rightarrow> int \<Rightarrow> int \<Rightarrow> int \<Rightarrow> 'e + bytes"
  aes_NewCipher :: "bytes \<Rightarrow> block_cipher option"
  env_keccak :: hash
  float_int :: "string \<Rightarrow> int option"

datatype 'e keystore_error = ErrUnsupportedKeystoreVersion | ErrUnsupportedKDF | ErrPassphraseCannotDecryptKey
  | ErrCipherNotSupported string | ErrHex | ErrKDF 'e | ErrCipherKey | ErrDocument json_error | ErrKeyAddress

record keystore =
  KsID :: bytes
  KsVersion :: string
  KsEcdsa :: ecdsa_key
  KsRsa :: rsa_key

record crypto_json =
  Cipher :: string
  CipherText :: string
  CipherIV :: string
  KDF :: string
  KDFParams :: "string \<rightharpoonup> json"
  MAC :: string

record encrypted_key =
  EkAddress :: "string option"
  EkPublicKey :: bytes
  EkCrypto :: crypto_json

record encrypted_keystore =
  EkID :: string
  EkVersion :: string
  EkEcdsa :: "encrypted_key option"
  EkRsa :: "encrypted_key option"

definition NewKeystore :: "bytes \<Rightarrow> ecdsa_key \<Rightarrow> rsa_key \<Rightarrow> keystore" where
  "NewKeystore ident ecdsaKey rsaKey = \<lparr>KsID = ident, KsVersion = ''3'', KsEcdsa = ecdsaKey, KsRsa = rsaKey\<rparr>"

subsection \<open>Identifiers\<close>

definition uuid_String :: "bytes \<Rightarrow> string" where
  "uuid_String u =
     (if length u \<noteq> 16 then []
      else hex_encode (take 4 u) @ CHR ''-'' # hex_encode (take 2 (drop 4 u)) @ CHR ''-'' # hex_encode (take 2 (drop 6 u)) @
        CHR ''-'' # hex_encode (take 2 (drop 8 u)) @ CHR ''-'' # hex_encode (drop 10 u))"

definition uuid_Parse :: "string \<Rightarrow> bytes" where
  "uuid_Parse s =
     (if length s \<noteq> 36 \<and> \<not> (length s = 45 \<and> map lower (take 9 s) = ''urn:uuid:'') then []
      else
        let s = (if length s = 45 then drop 9 s else s)
        in if s ! 8 \<noteq> CHR ''-'' \<or> s ! 13 \<noteq> CHR ''-'' \<or> s ! 18 \<noteq> CHR ''-'' \<or> s ! 23 \<noteq> CHR ''-'' then []
           else (case hex_decode (concat (map (\<lambda>x. take 2 (drop x s)) [0, 2, 4, 6, 9, 11, 14, 16, 19, 21, 24, 26, 28, 30, 32, 34])) of
                   None \<Rightarrow> [] | Some bs \<Rightarrow> bs))"

subsection \<open>The cipher\<close>

text \<open>The counter is a number of 128 bits that wraps around.\<close>

definition ctr_next :: "bytes \<Rightarrow> bytes" where
  "ctr_next ctr = be_enc BlockSize (be_num ctr + 1)"

function ctr_xor :: "block_cipher \<Rightarrow> bytes \<Rightarrow> bytes \<Rightarrow> bytes" where
  "ctr_xor E ctr src =
     (if src = [] then [] else map2 (XOR) (take BlockSize src) (E ctr) @ ctr_xor E (ctr_next ctr) (drop BlockSize src))"
  by pat_completeness auto
termination
  by (relation "measure (\<lambda>(E, ctr, src). length src)") (auto simp: BlockSize_def)

declare ctr_xor.simps [simp del]

definition aesCTRXOR :: "'e keystore_env \<Rightarrow> bytes \<Rightarrow> bytes \<Rightarrow> bytes \<Rightarrow> ('e keystore_error + bytes) option" where
  "aesCTRXOR env key inText iv =
     (case aes_NewCipher env key of
        None \<Rightarrow> Some (Inl ErrCipherKey)
      | Some aesBlock \<Rightarrow> if length iv \<noteq> BlockSize then None else Some (Inr (ctr_xor aesBlock iv inText)))"

subsection \<open>Encryption\<close>

definition scryptR :: int where
  "scryptR = 8"

definition scryptDKLen :: int where
  "scryptDKLen = 32"

definition scrypt_params :: "int \<Rightarrow> int \<Rightarrow> bytes \<Rightarrow> (string \<times> json) list" where
  "scrypt_params scryptN scryptP salt =
     [(''dkLength'', json_int scryptDKLen), (''n'', json_int scryptN), (''p'', json_int scryptP), (''r'', json_int scryptR),
      (''salt'', JString (hex_encode salt))]"

text \<open>What \<^verbatim>\<open>encryptEcdsaKey\<close> and \<^verbatim>\<open>encryptRsaKey\<close> do with the document of their key, \<open>keyBytes\<close>.\<close>

definition encrypt_key ::
    "'e keystore_env \<Rightarrow> string \<Rightarrow> int \<Rightarrow> int \<Rightarrow> bytes \<Rightarrow> bytes \<Rightarrow> ('e keystore_error + string) option \<Rightarrow> ('e keystore_error + crypto_json) option" where
  "encrypt_key env passphrase scryptN scryptP salt iv keyBytes =
     (case scrypt_Key env (string_bytes passphrase) salt scryptN scryptR scryptP scryptDKLen of
        Inl err \<Rightarrow> Some (Inl (ErrKDF err))
      | Inr keyDerived \<Rightarrow>
          if length keyDerived < 32 then None
          else
            (case keyBytes of
               None \<Rightarrow> None
             | Some (Inl err) \<Rightarrow> Some (Inl err)
             | Some (Inr keyBytes) \<Rightarrow>
                 (case aesCTRXOR env (take 16 keyDerived) (string_bytes keyBytes) iv of
                    None \<Rightarrow> None
                  | Some (Inl err) \<Rightarrow> Some (Inl err)
                  | Some (Inr cipherText) \<Rightarrow>
                      Some (Inr \<lparr>Cipher = ''aes-128-ctr'', CipherText = hex_encode cipherText, CipherIV = hex_encode iv, KDF = ''scrypt'',
                        KDFParams = map_of (scrypt_params scryptN scryptP salt),
                        MAC = hex_encode (env_keccak env (take 16 (drop 16 keyDerived) @ cipherText))\<rparr>))))"

definition encryptEcdsaKey ::
    "'e keystore_env \<Rightarrow> keystore \<Rightarrow> string \<Rightarrow> int \<Rightarrow> int \<Rightarrow> bytes \<Rightarrow> bytes \<Rightarrow> ('e keystore_error + encrypted_key) option" where
  "encryptEcdsaKey env ks passphrase scryptN scryptP salt iv =
     map_option (map_sum id (\<lambda>c. \<lparr>EkAddress = Some (KeyAddress (KsEcdsa ks)), EkPublicKey = [], EkCrypto = c\<rparr>))
       (encrypt_key env passphrase scryptN scryptP salt iv
         (map_option (map_sum (\<lambda>_. ErrKeyAddress) id) (EcdsaKey_MarshalJSON (env_keccak env) (KsEcdsa ks))))"

definition encryptRsaKey ::
    "'e keystore_env \<Rightarrow> keystore \<Rightarrow> string \<Rightarrow> int \<Rightarrow> int \<Rightarrow> bytes \<Rightarrow> bytes \<Rightarrow> ('e keystore_error + encrypted_key) option" where
  "encryptRsaKey env ks passphrase scryptN scryptP salt iv =
     map_option (map_sum id (\<lambda>c. \<lparr>EkAddress = None, EkPublicKey = BytesFromRsaPublicKey (RsaPublic (KsRsa ks)), EkCrypto = c\<rparr>))
       (encrypt_key env passphrase scryptN scryptP salt iv (Some (Inr (RsaKey_MarshalJSON (KsRsa ks)))))"

text \<open>The document of a structure has its members in the order of the structure; an empty address or public key is
  left out. \<open>kvs\<close> are the parameters of the derivation.\<close>

definition crypto_to_json :: "(string \<times> json) list \<Rightarrow> crypto_json \<Rightarrow> json" where
  "crypto_to_json kvs c = JObject
     [(''cipher'', JString (Cipher c)), (''cipherText'', JString (CipherText c)),
      (''cipherParams'', JObject [(''iv'', JString (CipherIV c))]), (''kdf'', JString (KDF c)), (''kdfParams'', JObject kvs),
      (''mac'', JString (MAC c))]"

definition key_to_json :: "(string \<times> json) list \<Rightarrow> encrypted_key \<Rightarrow> json" where
  "key_to_json kvs k = JObject
     ((case EkAddress k of None \<Rightarrow> [] | Some a \<Rightarrow> [(''address'', JString a)]) @
      (if EkPublicKey k = [] then [] else [(''publicKey'', json_bytes (EkPublicKey k))]) @
      [(''crypto'', crypto_to_json kvs (EkCrypto k))])"

record keystore_entropy =
  EcdsaSalt :: bytes
  EcdsaIV :: bytes
  RsaSalt :: bytes
  RsaIV :: bytes

definition EncryptToJSON ::
    "'e keystore_env \<Rightarrow> keystore_entropy \<Rightarrow> keystore \<Rightarrow> string \<Rightarrow> int \<Rightarrow> int \<Rightarrow> ('e keystore_error + string) option" where
  "EncryptToJSON env rand ks passphrase scryptN scryptP =
     (case encryptEcdsaKey env ks passphrase scryptN scryptP (EcdsaSalt rand) (EcdsaIV rand) of
        None \<Rightarrow> None
      | Some (Inl err) \<Rightarrow> Some (Inl err)
      | Some (Inr ecdsaKeyEncrypted) \<Rightarrow>
          (case encryptRsaKey env ks passphrase scryptN scryptP (RsaSalt rand) (RsaIV rand) of
             None \<Rightarrow> None
           | Some (Inl err) \<Rightarrow> Some (Inl err)
           | Some (Inr rsaKeyEncrypted) \<Rightarrow>
               Some (Inr (print_json (JObject
                 [(''ecdsa'', key_to_json (scrypt_params scryptN scryptP (EcdsaSalt rand)) ecdsaKeyEncrypted),
                  (''id'', JString (uuid_String (KsID ks))),
                  (''rsa'', key_to_json (scrypt_params scryptN scryptP (RsaSalt rand)) rsaKeyEncrypted),
                  (''version'', JString (KsVersion ks))])))))"

subsection \<open>Reading a document into the structures\<close>

text \<open>Every number must be one as a \<^verbatim>\<open>float64\<close>.\<close>

fun floats_ok :: "(string \<Rightarrow> int option) \<Rightarrow> json \<Rightarrow> bool" where
  "floats_ok float (JNumber t) \<longleftrightarrow> float t \<noteq> None"
| "floats_ok float (JArray vs) \<longleftrightarrow> (\<forall>v\<in>set vs. floats_ok float v)"
| "floats_ok float (JObject kvs) \<longleftrightarrow> (\<forall>kv\<in>set kvs. floats_ok float (snd kv))"
| "floats_ok float _ \<longleftrightarrow> True"

definition read_map :: "(string \<Rightarrow> int option) \<Rightarrow> json \<Rightarrow> (string \<rightharpoonup> json) \<Rightarrow> json_error + (string \<rightharpoonup> json)" where
  "read_map float v old =
     (if \<not> floats_ok float v then Inl JsonType
      else case v of JObject kvs \<Rightarrow> Inr (old ++ map_of (rev kvs)) | JNull \<Rightarrow> Inr Map.empty | _ \<Rightarrow> Inl JsonType)"

definition read_cipher_params :: "string \<Rightarrow> json \<Rightarrow> crypto_json \<Rightarrow> json_error + crypto_json" where
  "read_cipher_params k v c = (if same_name k ''iv'' then map_sum id (\<lambda>s. c\<lparr>CipherIV := s\<rparr>) (read_string v (CipherIV c)) else Inr c)"

definition read_crypto :: "(string \<Rightarrow> int option) \<Rightarrow> string \<Rightarrow> json \<Rightarrow> crypto_json \<Rightarrow> json_error + crypto_json" where
  "read_crypto float k v c =
     (if same_name k ''cipher'' then map_sum id (\<lambda>s. c\<lparr>Cipher := s\<rparr>) (read_string v (Cipher c))
      else if same_name k ''cipherText'' then map_sum id (\<lambda>s. c\<lparr>CipherText := s\<rparr>) (read_string v (CipherText c))
      else if same_name k ''cipherParams'' then read_struct read_cipher_params v c
      else if same_name k ''kdf'' then map_sum id (\<lambda>s. c\<lparr>KDF := s\<rparr>) (read_string v (KDF c))
      else if same_name k ''kdfParams'' then map_sum id (\<lambda>m. c\<lparr>KDFParams := m\<rparr>) (read_map float v (KDFParams c))
      else if same_name k ''mac'' then map_sum id (\<lambda>s. c\<lparr>MAC := s\<rparr>) (read_string v (MAC c))
      else Inr c)"

definition read_key :: "(string \<Rightarrow> int option) \<Rightarrow> string \<Rightarrow> json \<Rightarrow> encrypted_key \<Rightarrow> json_error + encrypted_key" where
  "read_key float k v e =
     (if same_name k ''address'' then
        if v = JNull then Inr (e\<lparr>EkAddress := None\<rparr>) else map_sum id (\<lambda>s. e\<lparr>EkAddress := Some s\<rparr>) (json_to_string v)
      else if same_name k ''publicKey'' then map_sum id (\<lambda>bs. e\<lparr>EkPublicKey := bs\<rparr>) (json_to_bytes v)
      else if same_name k ''crypto'' then map_sum id (\<lambda>c. e\<lparr>EkCrypto := c\<rparr>) (read_struct (read_crypto float) v (EkCrypto e))
      else Inr e)"

definition no_crypto :: crypto_json where
  "no_crypto = \<lparr>Cipher = [], CipherText = [], CipherIV = [], KDF = [], KDFParams = Map.empty, MAC = []\<rparr>"

definition no_key :: encrypted_key where
  "no_key = \<lparr>EkAddress = None, EkPublicKey = [], EkCrypto = no_crypto\<rparr>"

definition read_key_pointer :: "(string \<Rightarrow> int option) \<Rightarrow> json \<Rightarrow> encrypted_key option \<Rightarrow> json_error + encrypted_key option" where
  "read_key_pointer float v old =
     (if v = JNull then Inr None
      else map_sum id Some (read_struct (read_key float) v (case old of None \<Rightarrow> no_key | Some e \<Rightarrow> e)))"

definition read_keystore :: "(string \<Rightarrow> int option) \<Rightarrow> string \<Rightarrow> json \<Rightarrow> encrypted_keystore \<Rightarrow> json_error + encrypted_keystore" where
  "read_keystore float k v s =
     (if same_name k ''id'' then map_sum id (\<lambda>t. s\<lparr>EkID := t\<rparr>) (read_string v (EkID s))
      else if same_name k ''version'' then map_sum id (\<lambda>t. s\<lparr>EkVersion := t\<rparr>) (read_string v (EkVersion s))
      else if same_name k ''ecdsa'' then map_sum id (\<lambda>e. s\<lparr>EkEcdsa := e\<rparr>) (read_key_pointer float v (EkEcdsa s))
      else if same_name k ''rsa'' then map_sum id (\<lambda>e. s\<lparr>EkRsa := e\<rparr>) (read_key_pointer float v (EkRsa s))
      else Inr s)"

subsection \<open>Decryption\<close>

definition ensureInt :: "(string \<Rightarrow> int option) \<Rightarrow> json option \<Rightarrow> int option" where
  "ensureInt float x = (case x of Some (JNumber t) \<Rightarrow> float t | _ \<Rightarrow> None)"

definition getKDFKey :: "'e keystore_env \<Rightarrow> crypto_json \<Rightarrow> string \<Rightarrow> ('e keystore_error + bytes) option" where
  "getKDFKey env c auth =
     (case KDFParams c ''salt'' of
        Some (JString s) \<Rightarrow>
          (case hex_decode s of
             None \<Rightarrow> Some (Inl ErrHex)
           | Some salt \<Rightarrow>
               do { dkLen \<leftarrow> ensureInt (float_int env) (KDFParams c ''dkLength'');
                    if KDF c = ''scrypt'' then
                      do { n \<leftarrow> ensureInt (float_int env) (KDFParams c ''n'');
                           r \<leftarrow> ensureInt (float_int env) (KDFParams c ''r'');
                           p \<leftarrow> ensureInt (float_int env) (KDFParams c ''p'');
                           Some (map_sum ErrKDF id (scrypt_Key env (string_bytes auth) salt n r p dkLen)) }
                    else Some (Inl ErrUnsupportedKDF) })
      | _ \<Rightarrow> None)"

definition decryptKeyV3 :: "'e keystore_env \<Rightarrow> encrypted_key \<Rightarrow> string \<Rightarrow> ('e keystore_error + string) option" where
  "decryptKeyV3 env k auth =
     (let c = EkCrypto k
      in if Cipher c \<noteq> ''aes-128-ctr'' then Some (Inl (ErrCipherNotSupported (Cipher c)))
         else
           (case (hex_decode (MAC c), hex_decode (CipherIV c), hex_decode (CipherText c)) of
              (Some mac, Some iv, Some cipherText) \<Rightarrow>
                (case getKDFKey env c auth of
                   None \<Rightarrow> None
                 | Some (Inl err) \<Rightarrow> Some (Inl err)
                 | Some (Inr derivedKey) \<Rightarrow>
                     if length derivedKey < 32 then None
                     else if env_keccak env (take 16 (drop 16 derivedKey) @ cipherText) \<noteq> mac then Some (Inl ErrPassphraseCannotDecryptKey)
                     else map_option (map_sum id bytes_string) (aesCTRXOR env (take 16 derivedKey) cipherText iv))
            | _ \<Rightarrow> Some (Inl ErrHex)))"

definition decryptEcdsaKeyV3 :: "'e keystore_env \<Rightarrow> encrypted_key \<Rightarrow> string \<Rightarrow> ('e keystore_error + ecdsa_key) option" where
  "decryptEcdsaKeyV3 env k passphrase =
     (case decryptKeyV3 env k passphrase of
        None \<Rightarrow> None
      | Some (Inl err) \<Rightarrow> Some (Inl err)
      | Some (Inr keyBytes) \<Rightarrow> map_option (map_sum ErrDocument id) (EcdsaKey_UnmarshalJSON (env_keccak env) keyBytes))"

definition decryptRsaKeyV3 :: "'e keystore_env \<Rightarrow> encrypted_key \<Rightarrow> string \<Rightarrow> ('e keystore_error + rsa_key) option" where
  "decryptRsaKeyV3 env k passphrase =
     (case decryptKeyV3 env k passphrase of
        None \<Rightarrow> None
      | Some (Inl err) \<Rightarrow> Some (Inl err)
      | Some (Inr keyBytes) \<Rightarrow> map_option (map_sum ErrDocument id) (RsaKey_UnmarshalJSON keyBytes))"

text \<open>The keys that are found replace those of the store; an error after the first leaves it replaced.\<close>

definition DecryptFromJSON :: "'e keystore_env \<Rightarrow> keystore \<Rightarrow> string \<Rightarrow> string \<Rightarrow> (keystore \<times> 'e keystore_error option) option" where
  "DecryptFromJSON env ks data passphrase =
     (case unmarshal (\<lambda>j. if floats_ok (float_int env) j then map_sum id (\<lambda>m. (j, m)) (json_to_object j) else Inl JsonType) data of
        Inl e \<Rightarrow> Some (ks, Some (ErrDocument e))
      | Inr (j, val) \<Rightarrow>
          if val ''version'' \<noteq> Some (JString ''3'') then Some (ks, Some ErrUnsupportedKeystoreVersion)
          else
            (case read_struct (read_keystore (float_int env)) j \<lparr>EkID = [], EkVersion = [], EkEcdsa = None, EkRsa = None\<rparr> of
               Inl e \<Rightarrow> Some (ks, Some (ErrDocument e))
             | Inr enc \<Rightarrow>
                 (case (case EkEcdsa enc of
                          None \<Rightarrow> Some (Inr ks)
                        | Some k \<Rightarrow> map_option (map_sum id (\<lambda>key. ks\<lparr>KsEcdsa := key\<rparr>)) (decryptEcdsaKeyV3 env k passphrase)) of
                    None \<Rightarrow> None
                  | Some (Inl err) \<Rightarrow> Some (ks, Some err)
                  | Some (Inr ks) \<Rightarrow>
                      (case (case EkRsa enc of
                               None \<Rightarrow> Some (Inr ks)
                             | Some k \<Rightarrow> map_option (map_sum id (\<lambda>key. ks\<lparr>KsRsa := key\<rparr>)) (decryptRsaKeyV3 env k passphrase)) of
                         None \<Rightarrow> None
                       | Some (Inl err) \<Rightarrow> Some (ks, Some err)
                       | Some (Inr ks) \<Rightarrow> Some (ks\<lparr>KsID := uuid_Parse (EkID enc), KsVersion := ''3''\<rparr>, None)))))"

subsection \<open>What is encrypted is decrypted\<close>

lemma block_append: "length x = n \<or> r = [] \<and> length x \<le> n \<Longrightarrow> take n (x @ r) = x \<and> drop n (x @ r) = r"
  by auto

lemma ctr_xor_twice:
  "block_ok E \<Longrightarrow> length ctr = BlockSize \<Longrightarrow> ctr_xor E ctr (ctr_xor E ctr src) = src \<and> length (ctr_xor E ctr src) = length src"
proof (induction E ctr src rule: ctr_xor.induct)
  case (1 E ctr src)
  show ?case
  proof (cases "src = []")
    case False
    let ?x = "map2 (XOR) (take BlockSize src) (E ctr)" and ?r = "ctr_xor E (ctr_next ctr) (drop BlockSize src)"
    have e: "length (E ctr) = BlockSize" using "1.prems" by (simp add: block_ok_def)
    have c: "ctr_xor E ctr src = ?x @ ?r" using False by (subst ctr_xor.simps) simp
    have l: "length ?x = min (length src) BlockSize" using e by simp
    have ih: "ctr_xor E (ctr_next ctr) ?r = drop BlockSize src \<and> length ?r = length (drop BlockSize src)"
      using "1.IH" [OF False] "1.prems"(1) by (simp add: ctr_next_def)
    have "length ?x = BlockSize \<or> ?r = [] \<and> length ?x \<le> BlockSize"
      using l ih by (cases "BlockSize \<le> length src") (simp_all add: min_absorb1 min_absorb2)
    then have t: "take BlockSize (?x @ ?r) = ?x" "drop BlockSize (?x @ ?r) = ?r"
      using block_append [of ?x BlockSize ?r] by simp_all
    have "?x @ ?r \<noteq> []" using l e False by (auto simp: BlockSize_def)
    then have "ctr_xor E ctr (?x @ ?r) = map2 (XOR) ?x (E ctr) @ ctr_xor E (ctr_next ctr) ?r"
      by (subst ctr_xor.simps) (simp only: t if_False)
    also have "\<dots> = src" using map2_xor_twice [of "take BlockSize src" "E ctr"] ih e by (simp add: BlockSize_def)
    finally show ?thesis using c l ih by auto
  qed (simp add: ctr_xor.simps)
qed

text \<open>What the other packages document: derived keys have the length that was asked for, hashes have 32 bytes, a key schedule
  gives a function of blocks, and a \<^verbatim>\<open>float64\<close> is exact on whole numbers up to \<open>2 ^ 53\<close>.\<close>

definition env_ok :: "'e keystore_env \<Rightarrow> bool" where
  "env_ok env \<longleftrightarrow>
     (\<forall>pass salt n r p dk. scrypt_Key env pass salt n r p scryptDKLen = Inr dk \<longrightarrow> length dk = 32) \<and>
     (\<forall>data. length (env_keccak env data) = 32) \<and>
     (\<forall>key E. aes_NewCipher env key = Some E \<longrightarrow> block_ok E) \<and> (\<forall>key. length key = 16 \<longrightarrow> aes_NewCipher env key \<noteq> None) \<and>
     (\<forall>i. \<bar>i\<bar> \<le> 2 ^ 53 \<longrightarrow> float_int env (int_text i) = Some i)"

lemma aesCTRXOR_twice:
  assumes "env_ok env" "aesCTRXOR env key t iv = Some (Inr c)"
  shows "aesCTRXOR env key c iv = Some (Inr t)"
  using assms ctr_xor_twice by (auto simp: aesCTRXOR_def env_ok_def split: option.splits if_splits)

lemma getKDFKey_params:
  assumes "env_ok env" "\<bar>scryptN\<bar> \<le> 2 ^ 53" "\<bar>scryptP\<bar> \<le> 2 ^ 53" "KDF c = ''scrypt''"
    "KDFParams c = map_of (scrypt_params scryptN scryptP salt)"
  shows "getKDFKey env c auth = Some (map_sum ErrKDF id (scrypt_Key env (string_bytes auth) salt scryptN scryptR scryptP scryptDKLen))"
  using assms by (simp add: getKDFKey_def scrypt_params_def ensureInt_def json_int_def env_ok_def scryptR_def scryptDKLen_def)

lemma encrypt_key_cases:
  assumes "encrypt_key env passphrase scryptN scryptP salt iv keyBytes = Some (Inr c)"
  obtains dk bs ct where "scrypt_Key env (string_bytes passphrase) salt scryptN scryptR scryptP scryptDKLen = Inr dk" "32 \<le> length dk"
    "keyBytes = Some (Inr bs)" "aesCTRXOR env (take 16 dk) (string_bytes bs) iv = Some (Inr ct)"
    "c = \<lparr>Cipher = ''aes-128-ctr'', CipherText = hex_encode ct, CipherIV = hex_encode iv, KDF = ''scrypt'',
      KDFParams = map_of (scrypt_params scryptN scryptP salt),
      MAC = hex_encode (env_keccak env (take 16 (drop 16 dk) @ ct))\<rparr>"
  using assms that by (auto simp: encrypt_key_def split: sum.splits option.splits if_splits)

lemma decryptKeyV3_encrypt:
  assumes "env_ok env" "\<bar>scryptN\<bar> \<le> 2 ^ 53" "\<bar>scryptP\<bar> \<le> 2 ^ 53"
    "encrypt_key env passphrase scryptN scryptP salt iv (Some (Inr bs)) = Some (Inr c)" "EkCrypto k = c"
  shows "decryptKeyV3 env k passphrase = Some (Inr bs)"
  using assms(4)
proof (cases rule: encrypt_key_cases)
  case (1 dk bs' ct)
  then show ?thesis
    using assms(1-3,5) aesCTRXOR_twice [OF assms(1) 1(4)] getKDFKey_params [OF assms(1-3), of c salt passphrase]
    by (simp add: decryptKeyV3_def)
qed

text \<open>Another passphrase is refused, if its derived key gives another hash.\<close>

lemma decryptKeyV3_wrong:
  assumes "env_ok env" "\<bar>scryptN\<bar> \<le> 2 ^ 53" "\<bar>scryptP\<bar> \<le> 2 ^ 53"
    "encrypt_key env passphrase scryptN scryptP salt iv (Some (Inr bs)) = Some (Inr c)" "EkCrypto k = c"
    "scrypt_Key env (string_bytes other) salt scryptN scryptR scryptP scryptDKLen = Inr dk'"
    "\<And>dk ct. scrypt_Key env (string_bytes passphrase) salt scryptN scryptR scryptP scryptDKLen = Inr dk \<Longrightarrow>
       env_keccak env (take 16 (drop 16 dk') @ ct) \<noteq> env_keccak env (take 16 (drop 16 dk) @ ct)"
  shows "decryptKeyV3 env k other = Some (Inl ErrPassphraseCannotDecryptKey)"
  using assms(4)
proof (cases rule: encrypt_key_cases)
  case (1 dk bs' ct)
  have "32 \<le> length dk'" using assms(1,6) by (auto simp: env_ok_def)
  then show ?thesis
    using assms(1-3,5-7) 1 getKDFKey_params [OF assms(1-3), of c salt other]
    by (simp add: decryptKeyV3_def)
qed

subsection \<open>The document of a key store\<close>

lemma read_crypto_json:
  assumes "KDFParams c = map_of kvs" "distinct (map fst kvs)" "floats_ok float (JObject kvs)" "KDFParams c0 = Map.empty"
  shows "read_struct (read_crypto float) (crypto_to_json kvs c) c0 = Inr c"
proof -
  have "map_of (rev kvs) = map_of kvs" using assms(2) by (simp add: map_of_inject_set rev_map [symmetric])
  then show ?thesis using assms(1,3,4)
    by (simp add: crypto_to_json_def read_crypto_def names read_string_def read_cipher_params_def read_map_def)
qed

lemma read_key_json:
  assumes "KDFParams (EkCrypto k) = map_of kvs" "distinct (map fst kvs)" "floats_ok float (JObject kvs)"
  shows "read_key_pointer float (key_to_json kvs k) None = Inr (Some k)"
proof -
  have c: "read_struct (read_crypto float) (crypto_to_json kvs (EkCrypto k)) no_crypto = Inr (EkCrypto k)"
    using assms by (intro read_crypto_json) (simp_all add: no_crypto_def)
  show ?thesis
    by (cases "EkAddress k"; cases "EkPublicKey k = []")
      (simp_all add: read_key_pointer_def key_to_json_def read_key_def names no_key_def c)
qed

lemma floats_scrypt_params:
  assumes "env_ok env" "\<bar>scryptN\<bar> \<le> 2 ^ 53" "\<bar>scryptP\<bar> \<le> 2 ^ 53"
  shows "floats_ok (float_int env) (JObject (scrypt_params scryptN scryptP salt))"
  using assms by (simp add: scrypt_params_def json_int_def env_ok_def scryptR_def scryptDKLen_def)

lemma distinct_scrypt_params: "distinct (map fst (scrypt_params scryptN scryptP salt))"
  by (simp add: scrypt_params_def)

lemma uuid_Parse_String:
  assumes "length u = 16"
  shows "uuid_Parse (uuid_String u) = u" "ascii (uuid_String u)"
proof -
  show "ascii (uuid_String u)" using ascii_hex by (simp add: uuid_String_def)
  have "u = map ((!) u) [0..<16]" using assms map_nth [of u] by simp
  then obtain b0 b1 b2 b3 b4 b5 b6 b7 b8 b9 b10 b11 b12 b13 b14 b15
    where u: "u = [b0, b1, b2, b3, b4, b5, b6, b7, b8, b9, b10, b11, b12, b13, b14, b15]"
    by (simp add: upt_conv_Cons)
  have "hex_decode (hex_encode u) = Some u" by simp
  then show "uuid_Parse (uuid_String u) = u" by (simp add: u uuid_Parse_def uuid_String_def hex_encode_def Let_def del: hex_decode.simps)
qed

lemma EncodeAlphabet_chars: "c \<in> set (EncodeAlphabet b BTCAlphabet) \<Longrightarrow> c \<in> set BTCAlphabet"
proof -
  have "BTCAlphabet ! d \<in> set BTCAlphabet" if "d < 58" for d using that by (simp add: alphabet(1))
  then show "c \<in> set (EncodeAlphabet b BTCAlphabet) \<Longrightarrow> c \<in> set BTCAlphabet"
    using base_digits_lt [of 58] by (auto simp: EncodeAlphabet_def)
qed

lemma ascii_address: "ascii (ID_Address ident)"
proof -
  have "ascii BTCAlphabet" by (simp add: BTCAlphabet_def)
  then show ?thesis using EncodeAlphabet_chars by (fastforce simp: ascii_def ID_Address_def)
qed

lemma plain_key:
  assumes "KDFParams (EkCrypto k) = map_of (scrypt_params n p salt)" "case EkAddress k of None \<Rightarrow> True | Some a \<Rightarrow> ascii a"
    "ascii (Cipher (EkCrypto k))" "ascii (CipherText (EkCrypto k))" "ascii (CipherIV (EkCrypto k))" "ascii (KDF (EkCrypto k))"
    "ascii (MAC (EkCrypto k))"
  shows "plain (key_to_json (scrypt_params n p salt) k)"
  using assms by (auto simp: key_to_json_def crypto_to_json_def scrypt_params_def ascii_hex split: option.splits)

lemma encrypt_key_total:
  assumes "env_ok env" "scrypt_Key env (string_bytes passphrase) salt scryptN scryptR scryptP scryptDKLen = Inr dk" "length iv = BlockSize"
  shows "\<exists>c. encrypt_key env passphrase scryptN scryptP salt iv (Some (Inr bs)) = Some (Inr c)"
proof -
  have dk: "length dk = 32" using assms(1,2) by (auto simp: env_ok_def)
  then have "aes_NewCipher env (take 16 dk) \<noteq> None" using assms(1) by (simp add: env_ok_def)
  then show ?thesis using assms(2,3) dk by (auto simp: encrypt_key_def aesCTRXOR_def)
qed

text \<open>A store that is written and read with the same passphrase is the same store.\<close>

definition keystore_ok :: "'e keystore_env \<Rightarrow> keystore \<Rightarrow> bool" where
  "keystore_ok env ks \<longleftrightarrow>
     length (KsID ks) = 16 \<and> KsVersion ks = ''3'' \<and>
     NewEcdsaKey (env_keccak env) (EcD (KsEcdsa ks)) (EcX (KsEcdsa ks)) (EcY (KsEcdsa ks)) s256 = Some (KsEcdsa ks) \<and>
     Precompute (KsRsa ks) \<noteq> None"

lemma encryptEcdsaKey_value:
  assumes "env_ok env" "keystore_ok env ks" "length iv = BlockSize" "\<bar>scryptN\<bar> \<le> 2 ^ 53" "\<bar>scryptP\<bar> \<le> 2 ^ 53"
    "scrypt_Key env (string_bytes passphrase) salt scryptN scryptR scryptP scryptDKLen = Inr dk"
  shows "\<exists>k. encryptEcdsaKey env ks passphrase scryptN scryptP salt iv = Some (Inr k) \<and>
    KDFParams (EkCrypto k) = map_of (scrypt_params scryptN scryptP salt) \<and> plain (key_to_json (scrypt_params scryptN scryptP salt) k) \<and>
    decryptEcdsaKeyV3 env k passphrase = Some (Inr (KsEcdsa ks))"
proof -
  obtain data where m: "EcdsaKey_MarshalJSON (env_keccak env) (KsEcdsa ks) = Some (Inr data)"
    "EcdsaKey_UnmarshalJSON (env_keccak env) data = Some (Inr (KsEcdsa ks))"
    using EcdsaKey_JSON assms(1,2) unfolding keystore_ok_def env_ok_def by metis
  obtain c where c: "encrypt_key env passphrase scryptN scryptP salt iv (Some (Inr data)) = Some (Inr c)"
    using encrypt_key_total [OF assms(1,6,3)] by blast
  let ?k = "\<lparr>EkAddress = Some (KeyAddress (KsEcdsa ks)), EkPublicKey = [], EkCrypto = c\<rparr>"
  have "ascii (KeyAddress (KsEcdsa ks))"
    using assms(2) addressFromPublickey_some ascii_address unfolding keystore_ok_def NewEcdsaKey_def
    by (auto simp: bind_eq_Some_conv) (metis ecdsa_key.select_convs(5))
  moreover have "KDFParams c = map_of (scrypt_params scryptN scryptP salt)" using c by (rule encrypt_key_cases) simp
  moreover have "ascii (Cipher c) \<and> ascii (CipherText c) \<and> ascii (CipherIV c) \<and> ascii (KDF c) \<and> ascii (MAC c)"
    using c by (rule encrypt_key_cases) (simp add: ascii_hex)
  ultimately have "plain (key_to_json (scrypt_params scryptN scryptP salt) ?k)" by (intro plain_key) simp_all
  moreover have "decryptEcdsaKeyV3 env ?k passphrase = Some (Inr (KsEcdsa ks))"
    using decryptKeyV3_encrypt [OF assms(1,4,5) c, of ?k] m(2) by (simp add: decryptEcdsaKeyV3_def)
  moreover have "encryptEcdsaKey env ks passphrase scryptN scryptP salt iv = Some (Inr ?k)"
    using c m(1) by (simp add: encryptEcdsaKey_def)
  ultimately show ?thesis using \<open>KDFParams c = _\<close> by auto
qed

lemma encryptRsaKey_value:
  assumes "env_ok env" "keystore_ok env ks" "length iv = BlockSize" "\<bar>scryptN\<bar> \<le> 2 ^ 53" "\<bar>scryptP\<bar> \<le> 2 ^ 53"
    "scrypt_Key env (string_bytes passphrase) salt scryptN scryptR scryptP scryptDKLen = Inr dk"
  shows "\<exists>k. encryptRsaKey env ks passphrase scryptN scryptP salt iv = Some (Inr k) \<and>
    KDFParams (EkCrypto k) = map_of (scrypt_params scryptN scryptP salt) \<and> plain (key_to_json (scrypt_params scryptN scryptP salt) k) \<and>
    decryptRsaKeyV3 env k passphrase = Some (Inr (KsRsa ks))"
proof -
  obtain c where c: "encrypt_key env passphrase scryptN scryptP salt iv (Some (Inr (RsaKey_MarshalJSON (KsRsa ks)))) = Some (Inr c)"
    using encrypt_key_total [OF assms(1,6,3)] by blast
  let ?k = "\<lparr>EkAddress = None, EkPublicKey = BytesFromRsaPublicKey (RsaPublic (KsRsa ks)), EkCrypto = c\<rparr>"
  have p: "KDFParams c = map_of (scrypt_params scryptN scryptP salt)" using c by (rule encrypt_key_cases) simp
  have "ascii (Cipher c) \<and> ascii (CipherText c) \<and> ascii (CipherIV c) \<and> ascii (KDF c) \<and> ascii (MAC c)"
    using c by (rule encrypt_key_cases) (simp add: ascii_hex)
  then have "plain (key_to_json (scrypt_params scryptN scryptP salt) ?k)" using p by (intro plain_key) simp_all
  moreover have "Precompute (KsRsa ks) = Some (KsRsa ks)" using assms(2) by (auto simp: keystore_ok_def Precompute_def split: if_splits)
  then have "decryptRsaKeyV3 env ?k passphrase = Some (Inr (KsRsa ks))"
    using decryptKeyV3_encrypt [OF assms(1,4,5) c, of ?k] by (simp add: decryptRsaKeyV3_def RsaKey_JSON)
  moreover have "encryptRsaKey env ks passphrase scryptN scryptP salt iv = Some (Inr ?k)" using c by (simp add: encryptRsaKey_def)
  ultimately show ?thesis using p by auto
qed

lemma floats_key: "floats_ok float (JObject kvs) \<Longrightarrow> floats_ok float (key_to_json kvs k)"
  by (auto simp: key_to_json_def crypto_to_json_def json_bytes_def split: option.splits)

lemma DecryptFromJSON_document:
  fixes k r :: encrypted_key
  defines "j \<equiv> \<lambda>kvs kvs' v t. JObject [(''ecdsa'', key_to_json kvs k), (''id'', JString t), (''rsa'', key_to_json kvs' r), (''version'', JString v)]"
  assumes "plain (key_to_json kvs k)" "plain (key_to_json kvs' r)" "ascii t"
    "KDFParams (EkCrypto k) = map_of kvs" "distinct (map fst kvs)" "floats_ok (float_int env) (JObject kvs)"
    "KDFParams (EkCrypto r) = map_of kvs'" "distinct (map fst kvs')" "floats_ok (float_int env) (JObject kvs')"
    "decryptEcdsaKeyV3 env k passphrase = Some (Inr ek)" "decryptRsaKeyV3 env r passphrase = Some (Inr rk)"
  shows "DecryptFromJSON env ks (print_json (j kvs kvs' ''3'' t)) passphrase =
    Some (\<lparr>KsID = uuid_Parse t, KsVersion = ''3'', KsEcdsa = ek, KsRsa = rk\<rparr>, None)"
proof -
  have p: "plain (j kvs kvs' ''3'' t)" using assms(2-4) by (simp add: j_def)
  have f: "floats_ok (float_int env) (j kvs kvs' ''3'' t)" using floats_key assms(7,10) by (simp add: j_def)
  have "read_key_pointer (float_int env) (key_to_json kvs k) None = Inr (Some k)" by (rule read_key_json [OF assms(5-7)])
  moreover have "read_key_pointer (float_int env) (key_to_json kvs' r) None = Inr (Some r)" by (rule read_key_json [OF assms(8-10)])
  ultimately have "read_struct (read_keystore (float_int env)) (j kvs kvs' ''3'' t) \<lparr>EkID = [], EkVersion = [], EkEcdsa = None, EkRsa = None\<rparr> =
      Inr \<lparr>EkID = t, EkVersion = ''3'', EkEcdsa = Some k, EkRsa = Some r\<rparr>"
    by (simp add: j_def read_keystore_def names read_string_def)
  moreover have "json_to_object (j kvs kvs' ''3'' t) = Inr (map_of [(''version'', JString ''3''), (''rsa'', key_to_json kvs' r), (''id'', JString t), (''ecdsa'', key_to_json kvs k)])"
    by (simp add: j_def)
  ultimately show ?thesis using p f assms(11,12) by (simp add: DecryptFromJSON_def)
qed

lemma keystore_roundtrip_ok:
  assumes "env_ok env" "keystore_ok env ks" "length (EcdsaIV rand) = BlockSize" "length (RsaIV rand) = BlockSize"
    "\<bar>scryptN\<bar> \<le> 2 ^ 53" "\<bar>scryptP\<bar> \<le> 2 ^ 53"
    "\<forall>salt\<in>{EcdsaSalt rand, RsaSalt rand}. \<exists>dk. scrypt_Key env (string_bytes passphrase) salt scryptN scryptR scryptP scryptDKLen = Inr dk"
  shows "\<exists>data. EncryptToJSON env rand ks passphrase scryptN scryptP = Some (Inr data) \<and>
    DecryptFromJSON env ks0 data passphrase = Some (ks, None)"
proof -
  let ?p = "scrypt_params scryptN scryptP (EcdsaSalt rand)" and ?q = "scrypt_params scryptN scryptP (RsaSalt rand)"
  obtain k where k: "encryptEcdsaKey env ks passphrase scryptN scryptP (EcdsaSalt rand) (EcdsaIV rand) = Some (Inr k)"
    "KDFParams (EkCrypto k) = map_of ?p" "plain (key_to_json ?p k)" "decryptEcdsaKeyV3 env k passphrase = Some (Inr (KsEcdsa ks))"
    using encryptEcdsaKey_value [OF assms(1,2,3,5,6)] assms(7) by blast
  obtain r where r: "encryptRsaKey env ks passphrase scryptN scryptP (RsaSalt rand) (RsaIV rand) = Some (Inr r)"
    "KDFParams (EkCrypto r) = map_of ?q" "plain (key_to_json ?q r)" "decryptRsaKeyV3 env r passphrase = Some (Inr (KsRsa ks))"
    using encryptRsaKey_value [OF assms(1,2,4,5,6)] assms(7) by blast
  have u: "length (KsID ks) = 16" "KsVersion ks = ''3''" using assms(2) by (simp_all add: keystore_ok_def)
  note U = uuid_Parse_String [OF u(1)]
  have "EncryptToJSON env rand ks passphrase scryptN scryptP = Some (Inr (print_json (JObject [(''ecdsa'', key_to_json ?p k),
      (''id'', JString (uuid_String (KsID ks))), (''rsa'', key_to_json ?q r), (''version'', JString ''3'')])))"
    using k(1) r(1) u(2) by (simp add: EncryptToJSON_def)
  moreover have "ks = \<lparr>KsID = uuid_Parse (uuid_String (KsID ks)), KsVersion = ''3'', KsEcdsa = KsEcdsa ks, KsRsa = KsRsa ks\<rparr>"
    using u(2) U(1) by simp
  ultimately show ?thesis
    using DecryptFromJSON_document [OF k(3) r(3) U(2) k(2) distinct_scrypt_params floats_scrypt_params [OF assms(1,5,6)]
      r(2) distinct_scrypt_params floats_scrypt_params [OF assms(1,5,6)] k(4) r(4), of ks0] by metis
qed

text \<open>A document of another version is refused. One without a salt, or with a vector of another length, panics.\<close>

lemma DecryptFromJSON_version:
  assumes "parse_json data = Some (JObject kvs)" "floats_ok (float_int env) (JObject kvs)"
    "map_of (rev kvs) ''version'' \<noteq> Some (JString ''3'')"
  shows "DecryptFromJSON env ks data passphrase = Some (ks, Some ErrUnsupportedKeystoreVersion)"
  using assms by (simp add: DecryptFromJSON_def unmarshal_def)

lemma getKDFKey_panics: "KDFParams c ''salt'' = None \<Longrightarrow> getKDFKey env c auth = None"
  by (simp add: getKDFKey_def)

lemma aesCTRXOR_panics: "aes_NewCipher env key = Some E \<Longrightarrow> length iv \<noteq> BlockSize \<Longrightarrow> aesCTRXOR env key t iv = None"
  by (simp add: aesCTRXOR_def)

end
