(* ===== verification/Contract.thy ===== *)
theory Contract
  imports Registry Identity "HOL-Library.Multiset"
begin

section \<open>The contract binder: \<^verbatim>\<open>contract/binder.go\<close>\<close>

text \<open>
  The binder turns the answers of the contracts into the data of the node. The contracts are parameters. The
  main computation is the assignment of the registered nodes to pods, which every node does on its own from the
  hash of the epoch and must agree on. Within one assignment \<^verbatim>\<open>isRegistered\<close> answers the same for the same node.

  The loop that looks for the next node of a pod may run forever, so it is a partial function; \<open>None\<close> is a
  computation that does not return, or a panic.
\<close>

subsection \<open>Pods\<close>

datatype 'e binder_error = ErrCall 'e | ErrDegradedPod | ErrNoMatches | ErrOrderNotExist | ErrLengthMismatch

definition toByte :: "bytes \<Rightarrow> 'e binder_error + bytes" where
  "toByte ident = (if length ident \<noteq> 20 then Inl ErrLengthMismatch else Inr ident)"

definition binder_darknodes :: "'e + bytes list \<Rightarrow> 'e binder_error + address list" where
  "binder_darknodes r = (case r of Inl e \<Rightarrow> Inl (ErrCall e) | Inr ids \<Rightarrow> Inr (map ID_Address ids))"

text \<open>The search for the next position that is registered and not taken (position \<open>-1\<close>).\<close>

partial_function (option) find_free ::
    "(address \<Rightarrow> 'e + bool) \<Rightarrow> address list \<Rightarrow> int list \<Rightarrow> nat \<Rightarrow> ('e + nat) option" where
  "find_free isRegistered addrs positionInOcean x =
     (case isRegistered (addrs ! x) of
        Inl e \<Rightarrow> Some (Inl e)
      | Inr r \<Rightarrow>
          if \<not> r \<or> positionInOcean ! x \<noteq> -1
          then find_free isRegistered addrs positionInOcean ((x + 1) mod length addrs)
          else Some (Inr x))"

fun pods_loop ::
    "(address \<Rightarrow> 'e + bool) \<Rightarrow> address list \<Rightarrow> nat \<Rightarrow> nat \<Rightarrow> nat \<Rightarrow> nat \<Rightarrow> int list \<Rightarrow> address list list \<Rightarrow> ('e + address list list) option" where
  "pods_loop isRegistered addrs epochVal 0 i x positionInOcean pods = Some (Inr pods)"
| "pods_loop isRegistered addrs epochVal (Suc k) i x positionInOcean pods =
     Option.bind (find_free isRegistered addrs positionInOcean x)
       (\<lambda>r. case r of
          Inl e \<Rightarrow> Some (Inl e)
        | Inr x \<Rightarrow>
            let podID = i mod length pods in
            pods_loop isRegistered addrs epochVal k (Suc i) ((x + epochVal) mod length addrs)
              (positionInOcean[x := int i]) (pods[podID := pods ! podID @ [addrs ! x]]))"

text \<open>The hash of a pod is the one of the identifiers of its nodes.\<close>

definition pod_hash :: "keccak \<Rightarrow> address list \<Rightarrow> bytes option" where
  "pod_hash keccak ns =
     map_option (\<lambda>ids. copy32 (keccak (concat ids))) (those (map Address_ID ns))"

fun make_pods :: "keccak \<Rightarrow> nat \<Rightarrow> address list list \<Rightarrow> pod list option" where
  "make_pods keccak i [] = Some []"
| "make_pods keccak i (ns # nss) =
     do { h \<leftarrow> pod_hash keccak ns; ps \<leftarrow> make_pods keccak (Suc i) nss;
          Some (\<lparr>Position = int i, PodHash = h, PodDarknodes = ns\<rparr> # ps) }"

definition binder_pods ::
    "keccak \<Rightarrow> (address \<Rightarrow> 'e + bool) \<Rightarrow> 'e + bytes list \<Rightarrow> 'e + nat \<Rightarrow> nat \<Rightarrow> ('e binder_error + pod list) option" where
  "binder_pods keccak isRegistered darknodes minimumPodSize epochVal =
     (case binder_darknodes darknodes of
        Inl e \<Rightarrow> Some (Inl e)
      | Inr addrs \<Rightarrow>
          (case minimumPodSize of
             Inl e \<Rightarrow> Some (Inl (ErrCall e))
           | Inr m \<Rightarrow>
               if length addrs < m then Some (Inl ErrDegradedPod)
               else if length addrs = 0 \<or> m = 0 then None
               else
                 Option.bind
                   (pods_loop isRegistered addrs epochVal (length addrs) 0 (epochVal mod length addrs)
                      (replicate (length addrs) (-1)) (replicate (length addrs div m) []))
                   (\<lambda>r. case r of
                      Inl e \<Rightarrow> Some (Inl (ErrCall e))
                    | Inr nss \<Rightarrow> map_option Inr (make_pods keccak 0 nss))))"

text \<open>The epoch: its hash is the number from the contract, as bytes without leading zeros, copied to the front of 32 bytes.\<close>

definition epoch_hash :: "nat \<Rightarrow> bytes" where
  "epoch_hash n = copy32 (big_Bytes n)"

definition binder_epoch ::
    "keccak \<Rightarrow> (address \<Rightarrow> 'e + bool) \<Rightarrow> 'e + bytes list \<Rightarrow> 'e + nat \<Rightarrow> 'e + int \<Rightarrow> nat \<times> int \<Rightarrow> ('e binder_error + epoch) option" where
  "binder_epoch keccak isRegistered darknodes minimumPodSize minimumEpochInterval ep =
     (case minimumEpochInterval of
        Inl e \<Rightarrow> Some (Inl (ErrCall e))
      | Inr blockInterval \<Rightarrow>
          Option.bind (binder_pods keccak isRegistered darknodes minimumPodSize (fst ep))
            (\<lambda>r. case r of
               Inl e \<Rightarrow> Some (Inl e)
             | Inr pods \<Rightarrow>
                 (case binder_darknodes darknodes of
                    Inl e \<Rightarrow> Some (Inl e)
                  | Inr addrs \<Rightarrow> Some (Inr \<lparr>EpochHash = epoch_hash (fst ep), Pods = pods, Darknodes = addrs,
                      BlockNumber = snd ep, BlockInterval = blockInterval\<rparr>))))"

subsection \<open>Orders\<close>

definition binder_orderMatch :: "(order_id \<Rightarrow> 'e + order_id list) \<Rightarrow> order_id \<Rightarrow> 'e binder_error + order_id" where
  "binder_orderMatch orderMatch ident =
     (case orderMatch ident of
        Inl e \<Rightarrow> Inl (ErrCall e)
      | Inr matches \<Rightarrow> if length matches \<noteq> 1 then Inl ErrNoMatches else Inr (matches ! 0))"

text \<open>The flag that an order exists is looked at before the error.\<close>

fun binder_sellOrders :: "(int \<Rightarrow> order_id \<times> bool \<times> 'e option) \<Rightarrow> int \<Rightarrow> nat \<Rightarrow> order_id list \<Rightarrow> 'e binder_error + order_id list" where
  "binder_sellOrders sellOrder at 0 ords = Inr ords"
| "binder_sellOrders sellOrder at (Suc k) ords =
     (case sellOrder at of
        (ident, ok, e) \<Rightarrow>
          if \<not> ok then Inr ords
          else (case e of Some err \<Rightarrow> Inl (ErrCall err) | None \<Rightarrow> binder_sellOrders sellOrder (at + 1) k (ords @ [ident])))"

definition binder_orderID :: "(int \<Rightarrow> order_id \<times> bool \<times> 'e option) \<Rightarrow> int \<Rightarrow> 'e binder_error + order_id" where
  "binder_orderID getOrder index =
     (case getOrder index of
        (ident, exist, e) \<Rightarrow>
          if \<not> exist then Inl ErrOrderNotExist else (case e of Some err \<Rightarrow> Inl (ErrCall err) | None \<Rightarrow> Inr ident))"

text \<open>Waiting until the order has been in its new state for a block. The subtraction is one of unsigned integers.
  \<open>depths\<close> is what the contract answers, poll after poll.\<close>

definition BlocksForConfirmation :: u64 where
  "BlocksForConfirmation = 1"

definition depth_reached :: "u64 \<Rightarrow> u64 \<Rightarrow> bool" where
  "depth_reached before depth \<longleftrightarrow> BlocksForConfirmation \<le> depth - before"

partial_function (option) wait_loop :: "(nat \<Rightarrow> 'e + u64) \<Rightarrow> u64 \<Rightarrow> nat \<Rightarrow> ('e option \<times> nat) option" where
  "wait_loop depths before j =
     (case depths j of
        Inl e \<Rightarrow> Some (Some e, j)
      | Inr depth \<Rightarrow> if depth_reached before depth then Some (None, j) else wait_loop depths before (Suc j))"

definition waitForOrderDepth :: "'e option \<Rightarrow> (nat \<Rightarrow> 'e + u64) \<Rightarrow> u64 \<Rightarrow> ('e option \<times> nat) option" where
  "waitForOrderDepth mined depths before = (case mined of Some e \<Rightarrow> Some (Some e, 0) | None \<Rightarrow> wait_loop depths before 0)"

subsection \<open>Transactions\<close>

text \<open>Sending a transaction: \<open>send\<close> is the function that sends it with a nonce, a step of the world; an error is
  classified by what the source compares it with. \<open>pending\<close> asks the client for the nonce.\<close>

datatype tx_error = NonceTooLow | ReplaceUnderpriced | NonceTooHigh | OtherNonce string | OtherTx string

fun mentions_nonce :: "tx_error \<Rightarrow> bool" where
  "mentions_nonce (OtherTx _) = False"
| "mentions_nonce ReplaceUnderpriced = False"
| "mentions_nonce _ = True"

fun refresh_loop ::
    "('w \<Rightarrow> int \<Rightarrow> 'w \<times> (tx_error + 'tx)) \<Rightarrow> ('w \<Rightarrow> 'w \<times> (tx_error + nat)) \<Rightarrow> nat \<Rightarrow> 'w \<Rightarrow> int \<Rightarrow> tx_error \<Rightarrow> 'w \<times> int \<times> (tx_error + 'tx)" where
  "refresh_loop send pending 0 w nonce e = (w, nonce, Inl e)"
| "refresh_loop send pending (Suc k) w nonce e =
     (if \<not> mentions_nonce e then (w, nonce, Inl e)
      else
        (case pending w of
           (w, Inl e) \<Rightarrow> refresh_loop send pending k w nonce e
         | (w, Inr n) \<Rightarrow>
             (case send w (int n) of
                (w, Inr tx) \<Rightarrow> (w, int n + 1, Inr tx)
              | (w, Inl e) \<Rightarrow> refresh_loop send pending k w (int n) e)))"

partial_function (option) sendTx ::
    "('w \<Rightarrow> int \<Rightarrow> 'w \<times> (tx_error + 'tx)) \<Rightarrow> ('w \<Rightarrow> 'w \<times> (tx_error + nat)) \<Rightarrow> 'w \<Rightarrow> int \<Rightarrow> ('w \<times> int \<times> (tx_error + 'tx)) option" where
  "sendTx send pending w nonce =
     (case send w nonce of
        (w, r) \<Rightarrow>
          (case r of
             Inr tx \<Rightarrow> Some (w, nonce + 1, Inr tx)
           | Inl e \<Rightarrow>
               if e = NonceTooLow \<or> e = ReplaceUnderpriced then sendTx send pending w (nonce + 1)
               else if e = NonceTooHigh then sendTx send pending w (nonce - 1)
               else Some (refresh_loop send pending 60 w nonce e)))"

text \<open>What an order is submitted as: prices and volumes are cut to 16 bits.\<close>

record submission =
  sub_settlement :: "32 word"
  sub_type :: u8
  sub_parity :: u8
  sub_expiry :: u64
  sub_tokens :: u64
  sub_price :: "16 word \<times> 16 word"
  sub_volume :: "16 word \<times> 16 word"
  sub_minimum_volume :: "16 word \<times> 16 word"
  sub_nonce :: nat

definition coexp16 :: "coexp \<Rightarrow> 16 word \<times> 16 word" where
  "coexp16 v = (ucast (Co v), ucast (Expn v))"

definition submitOrder :: "keccak \<Rightarrow> order \<Rightarrow> submission" where
  "submitOrder keccak ord =
     \<lparr>sub_settlement = Settlement ord, sub_type = Type ord, sub_parity = Parity ord, sub_expiry = Unix (Expiry ord),
      sub_tokens = Tokens ord, sub_price = coexp16 (Price ord), sub_volume = coexp16 (Volume ord),
      sub_minimum_volume = coexp16 (MinimumVolume ord), sub_nonce = big_SetBytes (BytesFromNonce keccak ord)\<rparr>"

datatype call = SubmitOrder submission | SubmitMatch order_id order_id

datatype settle_error = ErrSettleOrder tx_error | ErrSettleMatch tx_error | ErrWait string

text \<open>\<^verbatim>\<open>Settle\<close> goes on when an order cannot be submitted (another node may have done it), and returns the last error.\<close>

definition Binder_Settle ::
    "keccak \<Rightarrow> (call \<Rightarrow> 'w \<Rightarrow> int \<Rightarrow> 'w \<times> (tx_error + 'tx)) \<Rightarrow> ('w \<Rightarrow> 'w \<times> (tx_error + nat)) \<Rightarrow> ('w \<Rightarrow> 'tx \<Rightarrow> 'w \<times> string option) \<Rightarrow>
     'w \<Rightarrow> int \<Rightarrow> order \<Rightarrow> order \<Rightarrow> ('w \<times> int \<times> settle_error option) option" where
  "Binder_Settle keccak send pending wait_mined w nonce buy sell =
     Option.bind (sendTx (send (SubmitOrder (submitOrder keccak buy))) pending w nonce) (\<lambda>(w, nonce, r1).
     Option.bind (sendTx (send (SubmitOrder (submitOrder keccak sell))) pending w nonce) (\<lambda>(w, nonce, r2).
     Option.bind (sendTx (send (SubmitMatch (ID buy) (ID sell))) pending w nonce) (\<lambda>(w, nonce, r3).
       case r3 of
         Inl e \<Rightarrow> Some (w, nonce, Some (ErrSettleMatch e))
       | Inr tx \<Rightarrow>
           (case wait_mined w tx of
              (w, Some e) \<Rightarrow> Some (w, nonce, Some (ErrWait e))
            | (w, None) \<Rightarrow>
                Some (w, nonce, (case r2 of Inl e \<Rightarrow> Some (ErrSettleOrder e)
                  | Inr _ \<Rightarrow> (case r1 of Inl e \<Rightarrow> Some (ErrSettleOrder e) | Inr _ \<Rightarrow> None)))))))"

subsection \<open>The pods partition the nodes\<close>

text \<open>The positions that are registered and those that are taken.\<close>

definition free :: "(address \<Rightarrow> 'e + bool) \<Rightarrow> address list \<Rightarrow> int list \<Rightarrow> nat set" where
  "free isRegistered addrs pos = {x. x < length addrs \<and> isRegistered (addrs ! x) = Inr True \<and> pos ! x = -1}"

definition answers :: "(address \<Rightarrow> 'e + bool) \<Rightarrow> address list \<Rightarrow> bool" where
  "answers isRegistered addrs \<longleftrightarrow> (\<forall>a\<in>set addrs. \<exists>r. isRegistered a = Inr r)"

lemma find_free_ok:
  assumes "answers isRegistered addrs"
  shows "x < length addrs \<Longrightarrow> (x + d) mod length addrs \<in> free isRegistered addrs pos \<Longrightarrow>
    \<exists>y\<in>free isRegistered addrs pos. find_free isRegistered addrs pos x = Some (Inr y)"
proof (induction d arbitrary: x)
  case 0
  then have "x \<in> free isRegistered addrs pos" by simp
  then show ?case by (subst find_free.simps) (auto simp: free_def)
next
  case (Suc d)
  show ?case
  proof (cases "x \<in> free isRegistered addrs pos")
    case True
    then show ?thesis by (subst find_free.simps) (auto simp: free_def)
  next
    case False
    let ?x = "(x + 1) mod length addrs"
    have "?x < length addrs" using Suc.prems(1) by (intro mod_less_divisor) linarith
    moreover have "(?x + d) mod length addrs \<in> free isRegistered addrs pos" using Suc.prems(2) by (simp add: mod_simps)
    ultimately have "\<exists>y\<in>free isRegistered addrs pos. find_free isRegistered addrs pos ?x = Some (Inr y)" by (rule Suc.IH)
    moreover obtain r where "isRegistered (addrs ! x) = Inr r" using assms Suc.prems(1) unfolding answers_def by (meson nth_mem)
    ultimately show ?thesis using False Suc.prems(1) by (subst find_free.simps) (auto simp: free_def)
  qed
qed

lemma find_free_reaches:
  assumes "answers isRegistered addrs" "x < length addrs" "free isRegistered addrs pos \<noteq> {}"
  shows "\<exists>y\<in>free isRegistered addrs pos. find_free isRegistered addrs pos x = Some (Inr y)"
proof -
  obtain z where z: "z \<in> free isRegistered addrs pos" using assms(3) by blast
  then have l: "z < length addrs" by (simp add: free_def)
  have "(x + (length addrs - x + z)) mod length addrs = z" using assms(2) l by simp
  then show ?thesis using find_free_ok [OF assms(1,2), of "length addrs - x + z" pos] z by simp
qed

text \<open>A search that returns has found a free position.\<close>

definition found :: "(address \<Rightarrow> 'e + bool) \<Rightarrow> address list \<Rightarrow> int list \<Rightarrow> 'e + nat \<Rightarrow> bool" where
  "found isRegistered addrs pos r \<longleftrightarrow> (\<forall>y. r = Inr y \<longrightarrow> y \<in> free isRegistered addrs pos) \<and>
     (answers isRegistered addrs \<longrightarrow> (\<forall>e. r \<noteq> Inl e))"

lemma find_free_found:
  assumes "find_free isRegistered addrs pos x = Some r" "x < length addrs"
  shows "found isRegistered addrs pos r"
proof -
  have "x < length addrs \<longrightarrow> found isRegistered addrs pos r"
  proof (rule find_free.raw_induct [where xa = "(((isRegistered, addrs), pos), x)" and y = r, unfolded prod.case,
        of "\<lambda>isRegistered addrs pos x r. x < length addrs \<longrightarrow> found isRegistered addrs pos r"])
    fix ff and isRegistered :: "address \<Rightarrow> 'a + bool" and addrs pos x and r :: "'a + nat"
    assume IH: "\<And>isRegistered addrs pos x r. ff isRegistered addrs pos x = Some r \<Longrightarrow>
        x < length addrs \<longrightarrow> found isRegistered addrs pos r"
      and eq: "(case isRegistered (addrs ! x) of Inl e \<Rightarrow> Some (Inl e) | Inr v \<Rightarrow>
        if \<not> v \<or> pos ! x \<noteq> - 1 then ff isRegistered addrs pos ((x + 1) mod length addrs) else Some (Inr x)) = Some r"
    show "x < length addrs \<longrightarrow> found isRegistered addrs pos r"
    proof
      assume x: "x < length addrs"
      then have "(x + 1) mod length addrs < length addrs" by (intro mod_less_divisor) linarith
      moreover have "answers isRegistered addrs \<Longrightarrow> \<exists>v. isRegistered (addrs ! x) = Inr v" using x unfolding answers_def by (meson nth_mem)
      ultimately show "found isRegistered addrs pos r"
        using eq x IH [of isRegistered addrs pos "(x + 1) mod length addrs" r]
        by (auto simp: found_def free_def split: sum.splits if_splits)
    qed
  qed (use assms(1) in simp)
  then show ?thesis using assms(2) by blast
qed

lemma find_free_sound: "find_free isRegistered addrs pos x = Some (Inr y) \<Longrightarrow> x < length addrs \<Longrightarrow> y \<in> free isRegistered addrs pos"
  using find_free_found unfolding found_def by blast

lemma find_free_no_error:
  "answers isRegistered addrs \<Longrightarrow> x < length addrs \<Longrightarrow> find_free isRegistered addrs pos x \<noteq> Some (Inl e)"
  using find_free_found unfolding found_def by blast

text \<open>The length of pod \<open>p\<close> after \<open>i\<close> nodes have been dealt out to \<open>n\<close> pods.\<close>

definition dealt :: "nat \<Rightarrow> nat \<Rightarrow> nat \<Rightarrow> nat" where
  "dealt n i p = (i + n - 1 - p) div n"

lemma dealt_Suc:
  assumes "p < n" shows "dealt n (Suc i) p = dealt n i p + (if i mod n = p then 1 else 0)"
proof -
  let ?a = "i + n - 1 - p"
  have a: "Suc i + n - 1 - p = Suc ?a" "Suc ?a = i + (n - p)" using assms by simp_all
  have "Suc ?a mod n = 0 \<longleftrightarrow> i mod n = p"
  proof
    assume "i mod n = p"
    then have "Suc ?a mod n = (p + (n - p)) mod n" unfolding a(2) by (metis mod_add_left_eq)
    then show "Suc ?a mod n = 0" using assms by simp
  next
    assume "Suc ?a mod n = 0"
    then have "(i + (n - p) + p) mod n = p mod n" unfolding a(2) by (metis add_0 mod_add_left_eq)
    then show "i mod n = p" using assms by simp
  qed
  then show ?thesis unfolding dealt_def a(1) by (simp add: div_Suc)
qed

definition taken :: "int list \<Rightarrow> nat set" where
  "taken pos = {x. x < length pos \<and> pos ! x \<noteq> -1}"

lemma taken_finite: "finite (taken pos)"
  by (simp add: taken_def)

definition deal_inv :: "address list \<Rightarrow> nat \<Rightarrow> nat \<Rightarrow> int list \<Rightarrow> address list list \<Rightarrow> bool" where
  "deal_inv addrs n i pos pods \<longleftrightarrow> length pos = length addrs \<and> length pods = n \<and> card (taken pos) = i \<and>
     mset (concat pods) = image_mset ((!) addrs) (mset_set (taken pos)) \<and> (\<forall>p<n. length (pods ! p) = dealt n i p)"

lemma mset_concat_update: "p < length xss \<Longrightarrow> mset (concat (xss[p := xss ! p @ [x]])) = add_mset x (mset (concat xss))"
proof (induction xss arbitrary: p)
  case (Cons xs xss)
  then show ?case by (cases p) simp_all
qed simp

lemma deal_step:
  assumes "deal_inv addrs n i pos pods" "0 < n" "x < length addrs" "pos ! x = -1"
  shows "deal_inv addrs n (Suc i) (pos[x := int i]) (pods[i mod length pods := pods ! (i mod length pods) @ [addrs ! x]])"
proof -
  note I = assms(1) [unfolded deal_inv_def]
  have t: "taken (pos[x := int i]) = insert x (taken pos)" "x \<notin> taken pos" "finite (taken pos)"
    using I assms(3,4) by (auto simp: taken_def nth_list_update)
  have p: "i mod n < length pods" using I assms(2) by simp
  have "mset (concat (pods[i mod n := pods ! (i mod n) @ [addrs ! x]])) = add_mset (addrs ! x) (mset (concat pods))"
    by (rule mset_concat_update [OF p])
  then have "mset (concat (pods[i mod n := pods ! (i mod n) @ [addrs ! x]])) = image_mset ((!) addrs) (mset_set (taken (pos[x := int i])))"
    using I t by simp
  moreover have "\<forall>p<n. length (pods[i mod n := pods ! (i mod n) @ [addrs ! x]] ! p) = dealt n (Suc i) p"
    using I p by (auto simp: dealt_Suc nth_list_update)
  ultimately show ?thesis using I t by (simp add: deal_inv_def)
qed

lemma pods_loop_ok:
  assumes "\<forall>a\<in>set addrs. isRegistered a = Inr True" "0 < n"
  shows "deal_inv addrs n i pos pods \<Longrightarrow> i + k = length addrs \<Longrightarrow> x < length addrs \<Longrightarrow>
    \<exists>pods' pos'. pods_loop isRegistered addrs epochVal k i x pos pods = Some (Inr pods') \<and> deal_inv addrs n (length addrs) pos' pods'"
proof (induction k arbitrary: i x pos pods)
  case 0
  then show ?case by auto
next
  case (Suc k)
  note I = Suc.prems(1) [unfolded deal_inv_def]
  have "card (taken pos) < card {..<length addrs}" using I Suc.prems(2) by simp
  then obtain z where "z < length addrs" "z \<notin> taken pos" by (metis card_mono lessThan_iff not_le subsetI taken_finite)
  then have "z \<in> free isRegistered addrs pos" using I assms(1) by (simp add: free_def taken_def)
  then obtain y where y: "y \<in> free isRegistered addrs pos" "find_free isRegistered addrs pos x = Some (Inr y)"
    using find_free_reaches [of isRegistered addrs x pos] assms(1) Suc.prems(3) by (auto simp: answers_def)
  have l: "(y + epochVal) mod length addrs < length addrs" using Suc.prems(3) by (intro mod_less_divisor) linarith
  have D: "deal_inv addrs n (Suc i) (pos[y := int i]) (pods[i mod length pods := pods ! (i mod length pods) @ [addrs ! y]])"
    using deal_step [OF Suc.prems(1) assms(2)] y(1) by (simp add: free_def)
  show ?case using Suc.IH [OF D _ l] Suc.prems(2) y(2) by (simp add: Let_def)
qed

lemma make_pods_ok:
  assumes "\<forall>ns\<in>set nss. \<forall>a\<in>set ns. Address_ID a \<noteq> None"
  shows "\<exists>ps. make_pods keccak i nss = Some ps \<and> map PodDarknodes ps = nss \<and> map Position ps = map int [i..<i + length nss]"
  using assms
proof (induction nss arbitrary: i)
  case (Cons ns nss)
  have "\<exists>ids. those (map Address_ID ns) = Some ids"
    using Cons.prems by (induction ns) auto
  then obtain h where "pod_hash keccak ns = Some h" by (auto simp: pod_hash_def)
  moreover obtain ps where "make_pods keccak (Suc i) nss = Some ps" "map PodDarknodes ps = nss"
      "map Position ps = map int [Suc i..<Suc i + length nss]"
    using Cons.IH [of "Suc i"] Cons.prems by auto
  moreover have "[i..<i + length (ns # nss)] = i # [Suc i..<Suc i + length nss]" by (simp add: upt_conv_Cons del: upt_Suc)
  ultimately show ?case by (simp del: upt_Suc)
qed simp

text \<open>When every node is registered, the pods are a partition of the nodes: each node is in exactly one pod, every
  pod reaches the minimum size, and the sizes differ by at most one.\<close>

lemma binder_pods_partition:
  assumes reg: "\<forall>a\<in>set (map ID_Address ids). isRegistered a = Inr True" and m: "0 < m" "m \<le> length ids"
  shows "\<exists>ps. binder_pods keccak isRegistered (Inr ids) (Inr m) epochVal = Some (Inr ps) \<and> length ps = length ids div m \<and>
    mset (concat (map PodDarknodes ps)) = mset (map ID_Address ids) \<and>
    (\<forall>p\<in>set ps. m \<le> Pod_Size p \<and> length ids div length ps \<le> Pod_Size p \<and> Pod_Size p \<le> length ids div length ps + 1)"
proof -
  let ?addrs = "map ID_Address ids" and ?n = "length ids div m"
  let ?pos = "replicate (length ids) (-1)"
  have n: "0 < ?n" "m * ?n \<le> length ids" using m by (simp_all add: div_greater_zero_iff)
  have l: "epochVal mod length ids < length ids" using m by (intro mod_less_divisor) linarith
  have "taken ?pos = {}" by (auto simp: taken_def)
  then have D0: "deal_inv ?addrs ?n 0 ?pos (replicate ?n [])" by (simp add: deal_inv_def dealt_def)
  obtain nss pos where D: "pods_loop isRegistered ?addrs epochVal (length ids) 0 (epochVal mod length ids) ?pos (replicate ?n []) = Some (Inr nss)"
      "deal_inv ?addrs ?n (length ids) pos nss"
    using pods_loop_ok [OF reg n(1) D0, of "length ids" "epochVal mod length ids" epochVal] l by auto
  note I = D(2) [unfolded deal_inv_def]
  have "taken pos \<subseteq> {..<length ids}" using I by (auto simp: taken_def)
  then have "taken pos = {..<length ids}" using I by (metis card_subset_eq card_lessThan finite_lessThan length_map)
  then have ms: "mset (concat nss) = mset ?addrs"
    using I by (metis length_map mset_map map_nth mset_set_upto_eq_mset_upto)
  then have "set (concat nss) = set ?addrs" by (metis set_mset_mset)
  then have "Address_ID a \<noteq> None" if "ns \<in> set nss" "a \<in> set ns" for ns a
    using that Address_ID_ID by (metis (no_types, lifting) UN_I imageE list.set_map option.distinct(1) set_concat)
  then obtain ps where ps: "make_pods keccak 0 nss = Some ps" "map PodDarknodes ps = nss" using make_pods_ok [of nss keccak 0] by blast
  have size: "dealt ?n (length ids) j \<le> length ids div ?n + 1 \<and> length ids div ?n \<le> dealt ?n (length ids) j" if "j < ?n" for j
  proof -
    have "length ids \<le> length ids + ?n - 1 - j" "length ids + ?n - 1 - j \<le> length ids + ?n" using that by simp_all
    then have "length ids div ?n \<le> dealt ?n (length ids) j" "dealt ?n (length ids) j \<le> (length ids + ?n) div ?n"
      unfolding dealt_def by (blast intro: div_le_mono)+
    moreover have "(length ids + ?n) div ?n = length ids div ?n + 1" using n(1) by (intro div_add_self2) linarith
    ultimately show ?thesis by simp
  qed
  have "m \<le> length ids div ?n" using n by (simp add: less_eq_div_iff_mult_less_eq)
  moreover have "Pod_Size p \<le> length ids div ?n + 1 \<and> length ids div ?n \<le> Pod_Size p" if p: "p \<in> set ps" for p
  proof -
    obtain j where j: "j < length ps" "p = ps ! j" using p unfolding in_set_conv_nth by blast
    have "length ps = ?n" using arg_cong [OF ps(2), of length] I by simp
    moreover have "PodDarknodes p = nss ! j" using j ps(2) by auto
    ultimately have "Pod_Size p = dealt ?n (length ids) j" "j < ?n" using I j(1) by (simp_all add: Pod_Size_def)
    then show ?thesis using size [of j] by simp
  qed
  moreover have "length ps = ?n" using arg_cong [OF ps(2), of length] I by simp
  ultimately show ?thesis using m D(1) ps ms by (auto simp: binder_pods_def binder_darknodes_def intro: order_trans)
qed

text \<open>A loop that returns has found as many free positions as it has rounds.\<close>

lemma pods_loop_sound:
  "pods_loop isRegistered addrs epochVal k i x pos pods = Some (Inr pods') \<Longrightarrow> x < length addrs \<Longrightarrow> length pos = length addrs \<Longrightarrow>
   k \<le> card (free isRegistered addrs pos)"
proof (induction k arbitrary: i x pos pods)
  case (Suc k)
  obtain r where r: "find_free isRegistered addrs pos x = Some r" using Suc.prems(1) by (cases "find_free isRegistered addrs pos x") auto
  obtain y where y: "r = Inr y" using Suc.prems(1) r by (cases r) auto
  have f: "y \<in> free isRegistered addrs pos" using find_free_sound [of isRegistered addrs pos x y] r y Suc.prems(2) by blast
  have "k \<le> card (free isRegistered addrs (pos[y := int i]))"
  proof (rule Suc.IH)
    show "pods_loop isRegistered addrs epochVal k (Suc i) ((y + epochVal) mod length addrs) (pos[y := int i])
        (pods[i mod length pods := pods ! (i mod length pods) @ [addrs ! y]]) = Some (Inr pods')"
      using Suc.prems(1) r y by (simp add: Let_def)
    show "(y + epochVal) mod length addrs < length addrs" using Suc.prems(2) by (intro mod_less_divisor) linarith
  qed (use Suc.prems(3) in simp)
  also have "free isRegistered addrs (pos[y := int i]) = free isRegistered addrs pos - {y}"
    using f Suc.prems(3) by (auto simp: free_def nth_list_update)
  finally show ?case using f card_Suc_Diff1 [of "free isRegistered addrs pos" y] by (simp add: free_def)
qed simp

lemma pods_loop_error:
  "answers isRegistered addrs \<Longrightarrow> x < length addrs \<Longrightarrow> length pos = length addrs \<Longrightarrow>
   pods_loop isRegistered addrs epochVal k i x pos pods \<noteq> Some (Inl e)"
proof (induction k arbitrary: i x pos pods)
  case (Suc k)
  show ?case
  proof (cases "free isRegistered addrs pos = {}")
    case True
    then have "find_free isRegistered addrs pos x \<noteq> Some (Inr y)" for y
      using find_free_sound [of isRegistered addrs pos x y] Suc.prems(2) by blast
    moreover have "find_free isRegistered addrs pos x \<noteq> Some (Inl e)" for e using find_free_no_error [OF Suc.prems(1,2)] by blast
    ultimately have "find_free isRegistered addrs pos x = None" by (metis old.sum.exhaust option.exhaust)
    then show ?thesis by simp
  next
    case False
    obtain y where y: "find_free isRegistered addrs pos x = Some (Inr y)" using find_free_reaches [OF Suc.prems(1,2) False] by blast
    have "(y + epochVal) mod length addrs < length addrs" using Suc.prems(2) by (intro mod_less_divisor) linarith
    then show ?thesis using Suc.IH [OF Suc.prems(1)] Suc.prems(3) y by (simp add: Let_def)
  qed
qed simp

text \<open>A node that is listed but not registered: the assignment never ends.\<close>

lemma binder_pods_diverges:
  assumes "answers isRegistered (map ID_Address ids)" "ident \<in> set ids" "isRegistered (ID_Address ident) = Inr False"
    "0 < m" "m \<le> length ids"
  shows "binder_pods keccak isRegistered (Inr ids) (Inr m) epochVal = None"
proof -
  let ?addrs = "map ID_Address ids" and ?pos = "replicate (length ids) (-1 :: int)"
  let ?r = "pods_loop isRegistered ?addrs epochVal (length ids) 0 (epochVal mod length ids) ?pos (replicate (length ids div m) [])"
  have l: "epochVal mod length ids < length ids" using assms(4,5) by (intro mod_less_divisor) linarith
  obtain j where j: "j < length ids" "ids ! j = ident" using assms(2) by (metis in_set_conv_nth)
  have "free isRegistered ?addrs ?pos \<subseteq> {..<length ids} - {j}" using assms(3) j by (auto simp: free_def)
  then have "card (free isRegistered ?addrs ?pos) \<le> card ({..<length ids} - {j})" by (intro card_mono) simp_all
  then have "\<not> length ids \<le> card (free isRegistered ?addrs ?pos)" using j(1) by simp
  then have "?r \<noteq> Some (Inr pods)" for pods using pods_loop_sound [of isRegistered ?addrs epochVal "length ids" 0 _ ?pos] l by fastforce
  moreover have "?r \<noteq> Some (Inl e)" for e using pods_loop_error [OF assms(1), of "epochVal mod length ids" ?pos] l by simp
  ultimately have "?r = None" by (metis old.sum.exhaust option.exhaust)
  then show ?thesis using assms(4,5) by (simp add: binder_pods_def binder_darknodes_def)
qed

subsection \<open>Waiting and hashes\<close>

text \<open>The wait ends at the first poll that shows any other depth than before, a smaller one too.\<close>

lemma depth_reached_iff: "depth_reached before depth \<longleftrightarrow> depth \<noteq> before"
  by (auto simp: depth_reached_def BlocksForConfirmation_def word_le_nat_alt unat_gt_0 Suc_le_eq)

lemma wait_loop_value:
  assumes "\<forall>i<k. depths (j + i) = Inr before" "depths (j + k) = Inr depth" "depth \<noteq> before"
  shows "wait_loop depths before j = Some (None, j + k)"
  using assms
proof (induction k arbitrary: j)
  case 0
  then show ?case by (subst wait_loop.simps) (simp add: depth_reached_iff)
next
  case (Suc k)
  have "depths j = Inr before" using Suc.prems(1) by (metis add_0_right zero_less_Suc)
  moreover have "wait_loop depths before (Suc j) = Some (None, Suc j + k)"
    using Suc.prems by (intro Suc.IH) (auto dest: spec [of _ "Suc _"])
  ultimately show ?case by (subst wait_loop.simps) (simp add: depth_reached_iff)
qed

text \<open>Numbers that differ by trailing zero bytes have the same epoch hash.\<close>

lemma epoch_hash_collision:
  assumes "0 < n" "n < 256 ^ 31" shows "epoch_hash (n * 256) = epoch_hash n"
proof -
  have "base_digits 256 (n * 256) = 0 # base_digits 256 n" using assms(1) by (subst base_digits_simps) simp_all
  then have b: "big_Bytes (n * 256) = big_Bytes n @ [0]" by (simp add: big_Bytes_def)
  have "length (big_Bytes n) \<le> 31" using length_base_digits_le [of 256 n 31] assms(2) by (simp add: big_Bytes_def)
  then obtain k where "31 = length (big_Bytes n) + k" using le_Suc_ex by blast
  then have "32 - length (big_Bytes n) = Suc k" "32 - Suc (length (big_Bytes n)) = k" by simp_all
  then show ?thesis using \<open>length (big_Bytes n) \<le> 31\<close> by (simp add: epoch_hash_def copy32_def b)
qed

text \<open>An order is submitted unchanged when its prices and volumes fit into 16 bits.\<close>

lemma unat_ucast16: "unat (ucast (x :: u64) :: 16 word) = unat x mod 2 ^ 16"
  by (simp add: unsigned_ucast_eq take_bit_eq_mod)

lemma coexp16_value:
  assumes "Co v < 2 ^ 16" "Expn v < 2 ^ 16"
  shows "unat (fst (coexp16 v)) = unat (Co v)" "unat (snd (coexp16 v)) = unat (Expn v)"
  using assms by (simp_all add: coexp16_def unat_ucast16 word_less_nat_alt)

lemma coexp16_truncates: "unat x < 2 ^ 63 \<Longrightarrow> coexp16 \<lparr>Co = x, Expn = y\<rparr> = coexp16 \<lparr>Co = x + 2 ^ 16, Expn = y\<rparr>"
  by (simp add: coexp16_def word_unat_eq_iff unat_ucast16 unat_add64)

end
