(* ===== verification/Contract_Binder.thy ===== *)
theory Contract_Binder
  imports Contract Crypto_Keys Int1024_String
begin

section \<open>The operations of the binder: \<^verbatim>\<open>contract/binder.go\<close>\<close>

text \<open>
  Every operation of the binder on the contracts. The chain is a parameter \<open>C\<close>: the state \<open>'w\<close> of the world, the calls that
  send a transaction with options and the views that read. A transaction that was sent is waited for, and waiting moves the world.
  Views take the world as it is, so that all views of one operation see the same contracts.

  The binder itself keeps the options of its transactions: the nonce, the gas price and the value. An operation runs
  \<^verbatim>\<open>sendTx\<close> under the lock, so it is one step. An operation that may not return, because its loop does not end or because it
  panics, has the result \<open>None\<close>. \<^verbatim>\<open>NewBinder\<close> leaves out that binding a contract may fail; the nonces a client reports are below
  \<open>2 ^ 63\<close>.
\<close>

subsection \<open>State\<close>

record tx_opts =
  TxNonce :: int
  TxGasPrice :: int
  TxValue :: int

datatype tx_call = TxRegister bytes bytes nat | TxDeregister bytes | TxRefund bytes | TxApprove bytes nat | TxEpoch
  | TxOpenBuyOrder bytes order_id | TxOpenSellOrder bytes order_id | TxCancelOrder bytes order_id | TxConfirmOrder order_id "order_id list"
  | TxSubmitOrder submission | TxSubmitMatch order_id order_id | TxDeposit bytes int | TxWithdraw bytes int

record ('w, 'tx) chain =
  tx_send :: "tx_opts \<Rightarrow> tx_call \<Rightarrow> 'w \<Rightarrow> 'w \<times> (tx_error + 'tx)"
  tx_pending :: "'w \<Rightarrow> 'w \<times> (tx_error + nat)"
  tx_mined :: "'w \<Rightarrow> 'tx \<Rightarrow> 'w \<times> string option"
  next_poll :: "'w \<Rightarrow> 'w"
  view_bond :: "'w \<Rightarrow> bytes \<Rightarrow> string + nat"
  view_registered :: "'w \<Rightarrow> bytes \<Rightarrow> string + bool"
  view_deregistered :: "'w \<Rightarrow> bytes \<Rightarrow> string + bool"
  view_owner :: "'w \<Rightarrow> bytes \<Rightarrow> string + bytes"
  view_publicKey :: "'w \<Rightarrow> bytes \<Rightarrow> string + bytes"
  view_darknodes :: "'w \<Rightarrow> string + bytes list"
  view_minimumBond :: "'w \<Rightarrow> string + nat"
  view_minimumEpochInterval :: "'w \<Rightarrow> string + int"
  view_minimumPodSize :: "'w \<Rightarrow> string + nat"
  view_currentEpoch :: "'w \<Rightarrow> string + nat \<times> int"
  view_previousEpoch :: "'w \<Rightarrow> string + nat \<times> int"
  view_gasPriceLimit :: "'w \<Rightarrow> string + int"
  view_depth :: "'w \<Rightarrow> order_id \<Rightarrow> string + nat"
  view_priority :: "'w \<Rightarrow> order_id \<Rightarrow> string + nat"
  view_state :: "'w \<Rightarrow> order_id \<Rightarrow> string + u8"
  view_match :: "'w \<Rightarrow> order_id \<Rightarrow> string + order_id list"
  view_orders :: "'w \<Rightarrow> int \<Rightarrow> int \<Rightarrow> string + order_id list \<times> bytes list \<times> u8 list"
  view_sellOrder :: "'w \<Rightarrow> int \<Rightarrow> order_id \<times> bool \<times> string option"
  view_order :: "'w \<Rightarrow> int \<Rightarrow> order_id \<times> bool \<times> string option"
  view_trader :: "'w \<Rightarrow> order_id \<Rightarrow> string + bytes"
  view_broker :: "'w \<Rightarrow> order_id \<Rightarrow> string + bytes"
  view_confirmer :: "'w \<Rightarrow> order_id \<Rightarrow> string + bytes"
  view_blockNumber :: "'w \<Rightarrow> order_id \<Rightarrow> string + int"
  view_ordersCount :: "'w \<Rightarrow> string + nat"
  view_balances :: "'w \<Rightarrow> bytes \<Rightarrow> string + bytes list \<times> int list"
  view_block :: "'w \<Rightarrow> string + int"

datatype op_error = ErrSend tx_error | ErrMined string | ErrView string | ErrBinder "string binder_error" | ErrInt stackint_error
  | ErrPodNotFound | ErrKey read_error

definition NewBinder :: "('w, 'tx) chain \<Rightarrow> int \<Rightarrow> 'w \<Rightarrow> 'w \<times> (op_error + tx_opts)" where
  "NewBinder C val w =
     (case tx_pending C w of
        (w, Inl e) \<Rightarrow> (w, Inl (ErrSend e))
      | (w, Inr nonce) \<Rightarrow> (w, Inr \<lparr>TxNonce = int nonce, TxGasPrice = 20000000000, TxValue = val\<rparr>))"

subsection \<open>Transactions\<close>

definition Binder_SendTx ::
    "('w, 'tx) chain \<Rightarrow> (tx_opts \<Rightarrow> 'w \<Rightarrow> 'w \<times> (tx_error + 'tx)) \<Rightarrow> tx_opts \<Rightarrow> 'w \<Rightarrow> (tx_opts \<times> 'w \<times> (tx_error + 'tx)) option" where
  "Binder_SendTx C f b w =
     map_option (\<lambda>(w, nonce, r). (b\<lparr>TxNonce := nonce\<rparr>, w, r)) (sendTx (\<lambda>w nonce. f (b\<lparr>TxNonce := nonce\<rparr>) w) (tx_pending C) w (TxNonce b))"

text \<open>The pattern of the operations: send, then wait for the transaction.\<close>

definition send_and_wait ::
    "('w, 'tx) chain \<Rightarrow> (tx_opts \<Rightarrow> 'w \<Rightarrow> 'w \<times> (tx_error + 'tx)) \<Rightarrow> tx_opts \<Rightarrow> 'w \<Rightarrow> (tx_opts \<times> 'w \<times> op_error option) option" where
  "send_and_wait C f b w =
     map_option (\<lambda>(b, w, r).
         case r of
           Inl e \<Rightarrow> (b, w, Some (ErrSend e))
         | Inr tx \<Rightarrow> (case tx_mined C w tx of (w, e) \<Rightarrow> (b, w, map_option ErrMined e)))
       (Binder_SendTx C f b w)"

definition with_id :: "bytes \<Rightarrow> (bytes \<Rightarrow> (tx_opts \<times> 'w \<times> op_error option) option) \<Rightarrow> tx_opts \<Rightarrow> 'w \<Rightarrow> (tx_opts \<times> 'w \<times> op_error option) option" where
  "with_id darknodeID f b w = (case toByte darknodeID of Inl e \<Rightarrow> Some (b, w, Some (ErrBinder e)) | Inr darknodeIDByte \<Rightarrow> f darknodeIDByte)"

text \<open>The gas price is the limit of the contract for the time of the call, if the contract answers.\<close>

definition submit_order :: "('w, 'tx) chain \<Rightarrow> keccak \<Rightarrow> order \<Rightarrow> tx_opts \<Rightarrow> 'w \<Rightarrow> 'w \<times> (tx_error + 'tx)" where
  "submit_order C keccak ord b w =
     tx_send C (case view_gasPriceLimit C w of Inr limit \<Rightarrow> b\<lparr>TxGasPrice := limit\<rparr> | Inl _ \<Rightarrow> b) (TxSubmitOrder (submitOrder keccak ord)) w"

definition submitMatch :: "('w, 'tx) chain \<Rightarrow> order_id \<Rightarrow> order_id \<Rightarrow> tx_opts \<Rightarrow> 'w \<Rightarrow> 'w \<times> (tx_error + 'tx)" where
  "submitMatch C buy sell b w = tx_send C b (TxSubmitMatch buy sell) w"

definition Binder_SubmitOrder where
  "Binder_SubmitOrder C keccak ord = send_and_wait C (submit_order C keccak ord)"

definition Binder_SubmitMatch where
  "Binder_SubmitMatch C buy sell = send_and_wait C (submitMatch C buy sell)"

text \<open>\<^verbatim>\<open>Settle\<close> with the options of the binder.\<close>

definition settle_send :: "('w, 'tx) chain \<Rightarrow> tx_opts \<Rightarrow> call \<Rightarrow> 'w \<Rightarrow> int \<Rightarrow> 'w \<times> (tx_error + 'tx)" where
  "settle_send C b c w nonce =
     (case c of
        SubmitOrder s \<Rightarrow>
          tx_send C (case view_gasPriceLimit C w of Inr limit \<Rightarrow> b\<lparr>TxNonce := nonce, TxGasPrice := limit\<rparr> | Inl _ \<Rightarrow> b\<lparr>TxNonce := nonce\<rparr>)
            (TxSubmitOrder s) w
      | SubmitMatch buy sell \<Rightarrow> tx_send C (b\<lparr>TxNonce := nonce\<rparr>) (TxSubmitMatch buy sell) w)"

definition Binder_settle :: "('w, 'tx) chain \<Rightarrow> keccak \<Rightarrow> order \<Rightarrow> order \<Rightarrow> tx_opts \<Rightarrow> 'w \<Rightarrow> (tx_opts \<times> 'w \<times> settle_error option) option" where
  "Binder_settle C keccak buy sell b w =
     map_option (\<lambda>(w, nonce, r). (b\<lparr>TxNonce := nonce\<rparr>, w, r))
       (Binder_Settle keccak (settle_send C b) (tx_pending C) (tx_mined C) w (TxNonce b) buy sell)"

subsection \<open>Darknodes\<close>

definition Binder_Register :: "('w, 'tx) chain \<Rightarrow> bytes \<Rightarrow> bytes \<Rightarrow> int1024 \<Rightarrow> tx_opts \<Rightarrow> 'w \<Rightarrow> (tx_opts \<times> 'w \<times> op_error option) option" where
  "Binder_Register C darknodeID publicKey bond b w =
     with_id darknodeID (\<lambda>d. Option.bind (ToBigInt bond) (\<lambda>n. send_and_wait C (\<lambda>b. tx_send C b (TxRegister d publicKey n)) b w)) b w"

definition Binder_Deregister where
  "Binder_Deregister C darknodeID b w = with_id darknodeID (\<lambda>d. send_and_wait C (\<lambda>b. tx_send C b (TxDeregister d)) b w) b w"

definition Binder_Refund where
  "Binder_Refund C darknodeID b w = with_id darknodeID (\<lambda>d. send_and_wait C (\<lambda>b. tx_send C b (TxRefund d)) b w) b w"

definition Binder_ApproveRen :: "('w, 'tx) chain \<Rightarrow> string \<Rightarrow> int1024 \<Rightarrow> tx_opts \<Rightarrow> 'w \<Rightarrow> (tx_opts \<times> 'w \<times> op_error option) option" where
  "Binder_ApproveRen C registryAddress val b w =
     Option.bind (ToBigInt val) (\<lambda>n. send_and_wait C (\<lambda>b. tx_send C b (TxApprove (BytesToAddress (FromHex registryAddress)) n)) b w)"

definition id_view :: "('w \<Rightarrow> bytes \<Rightarrow> string + 'a) \<Rightarrow> 'w \<Rightarrow> bytes \<Rightarrow> op_error + 'a" where
  "id_view v w darknodeID = (case toByte darknodeID of Inl e \<Rightarrow> Inl (ErrBinder e) | Inr d \<Rightarrow> map_sum ErrView id (v w d))"

definition int_view :: "op_error + nat \<Rightarrow> op_error + int1024" where
  "int_view r = (case r of Inl e \<Rightarrow> Inl e | Inr n \<Rightarrow> map_sum ErrInt id (FromBigInt (int n)))"

definition Binder_GetBond where
  "Binder_GetBond C w darknodeID = int_view (id_view (view_bond C) w darknodeID)"

text \<open>\<^verbatim>\<open>ID\<close> of an address panics if there is nothing behind its first two bytes.\<close>

definition Binder_IsRegistered where
  "Binder_IsRegistered C w addr = map_option (id_view (view_registered C) w) (Address_ID addr)"

definition Binder_IsDeregistered where
  "Binder_IsDeregistered C w darknodeID = id_view (view_deregistered C) w darknodeID"

definition Binder_GetOwner where
  "Binder_GetOwner C w darknodeID = id_view (view_owner C) w darknodeID"

definition Binder_PublicKey :: "('w, 'tx) chain \<Rightarrow> 'w \<Rightarrow> address \<Rightarrow> (op_error + rsa_public) option" where
  "Binder_PublicKey C w addr =
     map_option (\<lambda>d. case id_view (view_publicKey C) w d of Inl e \<Rightarrow> Inl e | Inr bs \<Rightarrow> map_sum ErrKey id (RsaPublicKeyFromBytes bs))
       (Address_ID addr)"

definition Binder_Darknodes where
  "Binder_Darknodes C w = map_sum ErrBinder id (binder_darknodes (view_darknodes C w))"

definition Binder_MinimumBond where
  "Binder_MinimumBond C w = int_view (map_sum ErrView id (view_minimumBond C w))"

definition Binder_MinimumEpochInterval where
  "Binder_MinimumEpochInterval C w = map_sum ErrView id (view_minimumEpochInterval C w)"

definition Binder_MinimumPodSize where
  "Binder_MinimumPodSize C w = int_view (map_sum ErrView id (view_minimumPodSize C w))"

subsection \<open>Pods and epochs\<close>

text \<open>The addresses of the registry are those of identifiers of 20 bytes, so \<^verbatim>\<open>isRegistered\<close> does not panic on them.\<close>

definition registered_view :: "('w, 'tx) chain \<Rightarrow> 'w \<Rightarrow> address \<Rightarrow> string + bool" where
  "registered_view C w addr =
     (case Binder_IsRegistered C w addr of Some (Inr r) \<Rightarrow> Inr r | Some (Inl (ErrView e)) \<Rightarrow> Inl e | _ \<Rightarrow> Inl ''length mismatch'')"

text \<open>The size of a pod is cut to 64 bits. With a negative one the slice of pods cannot be made, or it is empty, and then the
  first node that is found has no pod to go to.\<close>

definition negative_pods :: "('w, 'tx) chain \<Rightarrow> address list \<Rightarrow> 'w \<Rightarrow> nat \<Rightarrow> int \<Rightarrow> (op_error + pod list) option" where
  "negative_pods C addrs w epochVal m =
     (if length addrs = 0 \<or> - m \<le> int (length addrs) then None
      else Option.bind (find_free (registered_view C w) addrs (replicate (length addrs) (-1)) (epochVal mod length addrs))
        (\<lambda>r. case r of Inl e \<Rightarrow> Some (Inl (ErrBinder (ErrCall e))) | Inr _ \<Rightarrow> None))"

definition pods_of :: "('w, 'tx) chain \<Rightarrow> keccak \<Rightarrow> 'w \<Rightarrow> nat \<Rightarrow> (op_error + pod list) option" where
  "pods_of C keccak w epochVal =
     (case Binder_Darknodes C w of
        Inl e \<Rightarrow> Some (Inl e)
      | Inr addrs \<Rightarrow>
          (case Binder_MinimumPodSize C w of
             Inl e \<Rightarrow> Some (Inl e)
           | Inr x \<Rightarrow>
               Option.bind (ToBigInt x) (\<lambda>n.
                 let m = sint (word_of_nat n :: u64)
                 in if m < 0 then negative_pods C addrs w epochVal m
                    else map_option (map_sum ErrBinder id)
                      (binder_pods keccak (registered_view C w) (view_darknodes C w) (Inr (nat m)) epochVal))))"

definition Binder_Pods where
  "Binder_Pods C keccak w = (case view_currentEpoch C w of Inl e \<Rightarrow> Some (Inl (ErrView e)) | Inr ep \<Rightarrow> pods_of C keccak w (fst ep))"

definition Binder_PreviousPods where
  "Binder_PreviousPods C keccak w = (case view_previousEpoch C w of Inl e \<Rightarrow> Some (Inl (ErrView e)) | Inr ep \<Rightarrow> pods_of C keccak w (fst ep))"

definition epoch_of :: "('w, 'tx) chain \<Rightarrow> keccak \<Rightarrow> 'w \<Rightarrow> nat \<times> int \<Rightarrow> (op_error + epoch) option" where
  "epoch_of C keccak w ep =
     (case view_minimumEpochInterval C w of
        Inl e \<Rightarrow> Some (Inl (ErrView e))
      | Inr blockInterval \<Rightarrow>
          map_option (\<lambda>r.
            case r of
              Inl e \<Rightarrow> Inl e
            | Inr pods \<Rightarrow>
                (case Binder_Darknodes C w of
                   Inl e \<Rightarrow> Inl e
                 | Inr darknodes \<Rightarrow> Inr \<lparr>EpochHash = epoch_hash (fst ep), Pods = pods, Darknodes = darknodes, BlockNumber = snd ep,
                     BlockInterval = blockInterval\<rparr>))
            (pods_of C keccak w (fst ep)))"

definition Binder_Epoch where
  "Binder_Epoch C keccak w = (case view_currentEpoch C w of Inl e \<Rightarrow> Some (Inl (ErrView e)) | Inr ep \<Rightarrow> epoch_of C keccak w ep)"

definition Binder_PreviousEpoch where
  "Binder_PreviousEpoch C keccak w = (case view_previousEpoch C w of Inl e \<Rightarrow> Some (Inl (ErrView e)) | Inr ep \<Rightarrow> epoch_of C keccak w ep)"

definition Binder_NextEpoch :: "('w, 'tx) chain \<Rightarrow> keccak \<Rightarrow> tx_opts \<Rightarrow> 'w \<Rightarrow> (tx_opts \<times> 'w \<times> (op_error + epoch)) option" where
  "Binder_NextEpoch C keccak b w =
     Option.bind (send_and_wait C (\<lambda>b. tx_send C (b\<lparr>TxGasPrice := 1000000000\<rparr>) TxEpoch) b w) (\<lambda>(b, w, e).
       case e of
         Some e \<Rightarrow> Some (b, w, Inl e)
       | None \<Rightarrow> map_option (\<lambda>r. (b, w, r)) (Binder_Epoch C keccak w))"

fun find_pod :: "address \<Rightarrow> pod list \<Rightarrow> op_error + pod" where
  "find_pod addr [] = Inl ErrPodNotFound"
| "find_pod addr (p # ps) = (if addr \<in> set (PodDarknodes p) then Inr p else find_pod addr ps)"

definition Binder_Pod :: "('w, 'tx) chain \<Rightarrow> keccak \<Rightarrow> 'w \<Rightarrow> address \<Rightarrow> (op_error + pod) option" where
  "Binder_Pod C keccak w addr =
     map_option (\<lambda>r. case r of Inl e \<Rightarrow> Inl e | Inr pods \<Rightarrow> find_pod addr pods) (Binder_Pods C keccak w)"

subsection \<open>Orders\<close>

definition wait_for_depth ::
    "('w, 'tx) chain \<Rightarrow> order_id \<Rightarrow> u64 \<Rightarrow> tx_opts \<Rightarrow> 'w \<Rightarrow> 'tx \<Rightarrow> (tx_opts \<times> 'w \<times> op_error option) option" where
  "wait_for_depth C ident before b w tx =
     (case tx_mined C w tx of
        (w, Some e) \<Rightarrow> Some (b, w, Some (ErrMined e))
      | (w, None) \<Rightarrow>
          map_option (\<lambda>(e, j). (b, (next_poll C ^^ j) w, map_option ErrView e))
            (wait_loop (\<lambda>j. map_sum id word_of_nat (view_depth C ((next_poll C ^^ j) w) ident)) before 0))"

definition send_and_wait_depth ::
    "('w, 'tx) chain \<Rightarrow> tx_call \<Rightarrow> order_id \<Rightarrow> u64 \<Rightarrow> tx_opts \<Rightarrow> 'w \<Rightarrow> (tx_opts \<times> 'w \<times> op_error option) option" where
  "send_and_wait_depth C c ident before b w =
     Option.bind (Binder_SendTx C (\<lambda>b. tx_send C b c) b w) (\<lambda>(b, w, r).
       case r of Inl e \<Rightarrow> Some (b, w, Some (ErrSend e)) | Inr tx \<Rightarrow> wait_for_depth C ident before b w tx)"

definition Binder_OpenBuyOrder where
  "Binder_OpenBuyOrder C signature ident = send_and_wait_depth C (TxOpenBuyOrder signature ident) ident 0"

definition Binder_OpenSellOrder where
  "Binder_OpenSellOrder C signature ident = send_and_wait_depth C (TxOpenSellOrder signature ident) ident 0"

definition Binder_CancelOrder where
  "Binder_CancelOrder C signature ident = send_and_wait C (\<lambda>b. tx_send C b (TxCancelOrder signature ident))"

definition Binder_ConfirmOrder :: "('w, 'tx) chain \<Rightarrow> order_id \<Rightarrow> order_id \<Rightarrow> tx_opts \<Rightarrow> 'w \<Rightarrow> (tx_opts \<times> 'w \<times> op_error option) option" where
  "Binder_ConfirmOrder C ident mtch b w =
     (case view_depth C w ident of
        Inl e \<Rightarrow> Some (b, w, Some (ErrView e))
      | Inr before \<Rightarrow> send_and_wait_depth C (TxConfirmOrder ident [mtch]) ident (word_of_nat before) b w)"

definition uint64_view :: "string + nat \<Rightarrow> op_error + u64" where
  "uint64_view r = map_sum ErrView word_of_nat r"

definition Binder_Priority where
  "Binder_Priority C w ident = uint64_view (view_priority C w ident)"

definition Binder_Status where
  "Binder_Status C w ident = map_sum ErrView id (view_state C w (copy32 ident))"

definition Binder_OrderMatch where
  "Binder_OrderMatch C w ident = map_sum ErrBinder id (binder_orderMatch (view_match C w) ident)"

text \<open>The traders are given as the text of their addresses.\<close>

definition Binder_Orders ::
    "('w, 'tx) chain \<Rightarrow> hash \<Rightarrow> 'w \<Rightarrow> int \<Rightarrow> int \<Rightarrow> (op_error + order_id list \<times> u8 list \<times> string list) option" where
  "Binder_Orders C keccak w offset limit =
     (case view_orders C w offset limit of
        Inl e \<Rightarrow> Some (Inl (ErrView e))
      | Inr (orderIDs, tradersAddrs, orderStatuses) \<Rightarrow>
          map_option (\<lambda>traders. Inr (orderIDs, orderStatuses, traders)) (those (map (Address_Hex keccak) tradersAddrs)))"

text \<open>A negative limit panics: it is the capacity of a slice.\<close>

definition Binder_SellOrders :: "('w, 'tx) chain \<Rightarrow> 'w \<Rightarrow> int \<Rightarrow> int \<Rightarrow> (op_error + order_id list) option" where
  "Binder_SellOrders C w offset limit =
     (if limit < 0 then None else Some (map_sum ErrBinder id (binder_sellOrders (view_sellOrder C w) offset (nat limit) [])))"

definition Binder_Trader :: "('w, 'tx) chain \<Rightarrow> hash \<Rightarrow> 'w \<Rightarrow> order_id \<Rightarrow> (op_error + string) option" where
  "Binder_Trader C keccak w ident =
     (case view_trader C w ident of Inl e \<Rightarrow> Some (Inl (ErrView e)) | Inr a \<Rightarrow> map_option Inr (Address_Hex keccak a))"

definition Binder_Broker where
  "Binder_Broker C w ident = map_sum ErrView id (view_broker C w ident)"

definition Binder_Confirmer where
  "Binder_Confirmer C w ident = map_sum ErrView id (view_confirmer C w ident)"

definition Binder_Fee :: int where
  "Binder_Fee = 0"

definition Binder_Depth where
  "Binder_Depth C w ident = uint64_view (view_depth C w ident)"

definition Binder_BlockNumber where
  "Binder_BlockNumber C w ident = map_sum ErrView id (view_blockNumber C w ident)"

definition Binder_OrderCounts where
  "Binder_OrderCounts C w = uint64_view (view_ordersCount C w)"

definition Binder_OrderID where
  "Binder_OrderID C w index = map_sum ErrBinder id (binder_orderID (view_order C w) index)"

subsection \<open>Balances\<close>

definition EthereumAddress :: string where
  "EthereumAddress = ''0xEeeeeEeeeEeEeeEeEeEeeEEEeeeeEeeeeeeeEEeE''"

definition Binder_Deposit :: "('w, 'tx) chain \<Rightarrow> hash \<Rightarrow> bytes \<Rightarrow> int \<Rightarrow> tx_opts \<Rightarrow> 'w \<Rightarrow> (tx_opts \<times> 'w \<times> op_error option) option" where
  "Binder_Deposit C keccak tokenAddress val b w =
     Option.bind (Address_Hex keccak tokenAddress) (\<lambda>hex.
       send_and_wait C (\<lambda>b. tx_send C (if hex = EthereumAddress then b\<lparr>TxValue := val\<rparr> else b) (TxDeposit tokenAddress val)) b w)"

definition Binder_GetBalance where
  "Binder_GetBalance C w traderAddress = map_sum ErrView id (view_balances C w traderAddress)"

definition Binder_Withdraw where
  "Binder_Withdraw C tokenAddress val = send_and_wait C (\<lambda>b. tx_send C b (TxWithdraw tokenAddress val))"

definition Binder_CurrentBlockNumber where
  "Binder_CurrentBlockNumber C w = map_sum ErrView id (view_block C w)"

subsection \<open>The nonce\<close>

text \<open>An account: \<open>next\<close> is the number of its transactions. A transaction with another nonce is refused and says in which
  direction; one with the right nonce is accepted, or refused for another reason.\<close>

definition answered :: "('w \<Rightarrow> int) \<Rightarrow> 'w \<Rightarrow> int \<Rightarrow> 'w \<times> (tx_error + 'tx) \<Rightarrow> bool" where
  "answered next w n res \<longleftrightarrow>
     (n < next w \<longrightarrow> res = (w, Inl NonceTooLow)) \<and> (next w < n \<longrightarrow> res = (w, Inl NonceTooHigh)) \<and>
     (n = next w \<longrightarrow>
        (case snd res of
           Inr _ \<Rightarrow> next (fst res) = next w + 1
         | Inl e \<Rightarrow> next (fst res) = next w \<and> e \<noteq> ReplaceUnderpriced \<and> \<not> mentions_nonce e))"

definition account :: "('w \<Rightarrow> int) \<Rightarrow> ('w \<Rightarrow> int \<Rightarrow> 'w \<times> (tx_error + 'tx)) \<Rightarrow> bool" where
  "account next send \<longleftrightarrow> (\<forall>w n. answered next w n (send w n))"

lemma sendTx_exact:
  assumes "account next send"
  shows "sendTx send pending w (next w) = Some (fst (send w (next w)), next (fst (send w (next w))), snd (send w (next w)))"
proof -
  obtain w' r where s: "send w (next w) = (w', r)" by fastforce
  have "answered next w (next w) (send w (next w))" using assms unfolding account_def by blast
  then show ?thesis using s by (subst sendTx.simps; cases r) (auto simp: answered_def numeral_eq_Suc)
qed

text \<open>Whatever nonce the binder has, the transaction is sent with the right one, and the binder knows the next.\<close>

lemma sendTx_account:
  assumes "account next send"
  shows "sendTx send pending w n = Some (fst (send w (next w)), next (fst (send w (next w))), snd (send w (next w)))"
proof (induction "nat \<bar>next w - n\<bar>" arbitrary: n)
  case 0
  then have "n = next w" by simp
  then show ?case by (simp only: sendTx_exact [OF assms])
next
  case (Suc d)
  consider "n < next w" | "next w < n" using Suc.hyps(2) by (cases n "next w" rule: linorder_cases) auto
  then show ?case
  proof cases
    case 1
    then have "send w n = (w, Inl NonceTooLow)" using assms unfolding account_def answered_def by blast
    moreover have "d = nat \<bar>next w - (n + 1)\<bar>" using Suc.hyps(2) 1 by linarith
    ultimately show ?thesis using Suc.hyps(1) by (subst sendTx.simps) simp
  next
    case 2
    then have "send w n = (w, Inl NonceTooHigh)" using assms unfolding account_def answered_def by blast
    moreover have "d = nat \<bar>next w - (n - 1)\<bar>" using Suc.hyps(2) 2 by linarith
    ultimately show ?thesis using Suc.hyps(1) by (subst sendTx.simps) simp
  qed
qed

text \<open>A node that has a transaction in its pool answers that the replacement is underpriced; if it finds the next nonce too
  high, the binder goes back and forth forever.\<close>

lemma sendTx_diverges:
  assumes "send w n = (w, Inl ReplaceUnderpriced)" "send w (n + 1) = (w, Inl NonceTooHigh)"
  shows "sendTx send pending w n = None"
proof (rule ccontr)
  let ?stuck = "\<lambda>(send :: 'w \<Rightarrow> int \<Rightarrow> 'w \<times> (tx_error + 'tx)) w n.
    send w n = (w, Inl ReplaceUnderpriced) \<and> send w (n + 1) = (w, Inl NonceTooHigh) \<or>
    send w n = (w, Inl NonceTooHigh) \<and> send w (n - 1) = (w, Inl ReplaceUnderpriced)"
  assume "sendTx send pending w n \<noteq> None"
  then obtain r where r: "sendTx send pending w n = Some r" by blast
  have "\<not> ?stuck send w n"
  proof (rule sendTx.raw_induct [where P = "\<lambda>send pending w n r. \<not> ?stuck send w n", OF _ r])
    fix st and send :: "'w \<Rightarrow> int \<Rightarrow> 'w \<times> (tx_error + 'tx)" and pending w n and r :: "'w \<times> int \<times> (tx_error + 'tx)"
    assume IH: "\<And>send pending w n r. st send pending w n = Some r \<Longrightarrow> \<not> ?stuck send w n"
      and eq: "(case send w n of (w, r) \<Rightarrow> (case r of Inr tx \<Rightarrow> Some (w, n + 1, Inr tx)
        | Inl e \<Rightarrow> if e = NonceTooLow \<or> e = ReplaceUnderpriced then st send pending w (n + 1)
            else if e = NonceTooHigh then st send pending w (n - 1) else Some (refresh_loop send pending 60 w n e))) = Some r"
    show "\<not> ?stuck send w n" using eq IH [of send pending w "n + 1" r] IH [of send pending w "n - 1" r] by auto
  qed
  then show False using assms by blast
qed

subsection \<open>What the operations keep\<close>

text \<open>A chain whose account is like that for every call, and does not move while the binder waits.\<close>

definition honest :: "('w, 'tx) chain \<Rightarrow> ('w \<Rightarrow> int) \<Rightarrow> bool" where
  "honest C next \<longleftrightarrow>
     (\<forall>b c. account next (\<lambda>w n. tx_send C (b\<lparr>TxNonce := n\<rparr>) c w)) \<and> (\<forall>w tx. next (fst (tx_mined C w tx)) = next w)"

text \<open>What an operation sends is one call, with the nonce it is given.\<close>

definition sends :: "('w, 'tx) chain \<Rightarrow> (tx_opts \<Rightarrow> 'w \<Rightarrow> 'w \<times> (tx_error + 'tx)) \<Rightarrow> bool" where
  "sends C f \<longleftrightarrow> (\<forall>w. \<exists>g c. \<forall>b. TxNonce (g b) = TxNonce b \<and> f b w = tx_send C (g b) c w)"

lemma account_sends:
  assumes "honest C next" "sends C f"
  shows "account next (\<lambda>w n. f (b\<lparr>TxNonce := n\<rparr>) w)"
proof -
  have "answered next w n (f (b\<lparr>TxNonce := n\<rparr>) w)" for w n
  proof -
    obtain g c where g: "TxNonce (g (b\<lparr>TxNonce := n\<rparr>)) = TxNonce (b\<lparr>TxNonce := n\<rparr>)" "f (b\<lparr>TxNonce := n\<rparr>) w = tx_send C (g (b\<lparr>TxNonce := n\<rparr>)) c w"
      using assms(2) unfolding sends_def by blast
    then have "g (b\<lparr>TxNonce := n\<rparr>) = (g (b\<lparr>TxNonce := n\<rparr>))\<lparr>TxNonce := n\<rparr>" by simp
    then show ?thesis using assms(1) g(2) unfolding honest_def account_def by metis
  qed
  then show ?thesis unfolding account_def by blast
qed

text \<open>An operation returns, sends at most one transaction, knows the next nonce afterwards, and leaves the gas price and the value
  as they were.\<close>

definition kept :: "('w \<Rightarrow> int) \<Rightarrow> tx_opts \<Rightarrow> 'w \<Rightarrow> tx_opts \<times> 'w \<times> op_error option \<Rightarrow> bool" where
  "kept next b w res \<longleftrightarrow>
     (case res of (b', w', e) \<Rightarrow>
        TxGasPrice b' = TxGasPrice b \<and> TxValue b' = TxValue b \<and>
        (b' = b \<and> w' = w \<and> e \<noteq> None \<or>
         TxNonce b' = next w' \<and> next w' = next w + (case e of Some (ErrSend _) \<Rightarrow> 0 | _ \<Rightarrow> 1)))"

lemma send_and_wait_kept:
  assumes "honest C next" "sends C f"
  shows "\<exists>res. send_and_wait C f b w = Some res \<and> kept next b w res"
proof -
  let ?s = "\<lambda>w n. f (b\<lparr>TxNonce := n\<rparr>) w"
  have acc: "account next ?s" by (rule account_sends [OF assms])
  obtain w' r where s: "?s w (next w) = (w', r)" by fastforce
  have n: "answered next w (next w) (w', r)" using acc s unfolding account_def by metis
  have t: "Binder_SendTx C f b w = Some (b\<lparr>TxNonce := next w'\<rparr>, w', r)"
    using sendTx_account [OF acc, of "tx_pending C" w "TxNonce b"] s by (simp add: Binder_SendTx_def)
  show ?thesis
  proof (cases r)
    case (Inl e)
    then show ?thesis using t n by (simp add: send_and_wait_def kept_def answered_def)
  next
    case (Inr tx)
    obtain w'' e where m: "tx_mined C w' tx = (w'', e)" by fastforce
    then have "next w'' = next w'" using assms(1) unfolding honest_def by (metis fst_conv)
    then show ?thesis using t n Inr m by (cases e) (simp_all add: send_and_wait_def kept_def answered_def)
  qed
qed

lemma sends_call: "(\<And>b. TxNonce (g b) = TxNonce b) \<Longrightarrow> sends C (\<lambda>b. tx_send C (g b) c)"
  unfolding sends_def by blast

lemma sends_submit: "sends C (submit_order C keccak ord)" "sends C (submitMatch C buy sell)"
proof -
  show "sends C (submit_order C keccak ord)"
    unfolding sends_def
  proof
    fix w
    let ?g = "\<lambda>b. case view_gasPriceLimit C w of Inr limit \<Rightarrow> b\<lparr>TxGasPrice := limit\<rparr> | Inl _ \<Rightarrow> b"
    show "\<exists>g c. \<forall>b. TxNonce (g b) = TxNonce b \<and> submit_order C keccak ord b w = tx_send C (g b) c w"
      by (intro exI [of _ ?g] exI [of _ "TxSubmitOrder (submitOrder keccak ord)"]) (simp add: submit_order_def split: sum.splits)
  qed
  have "submitMatch C buy sell = (\<lambda>b. tx_send C b (TxSubmitMatch buy sell))" by (simp add: fun_eq_iff submitMatch_def)
  then show "sends C (submitMatch C buy sell)" using sends_call [of "\<lambda>b. b"] by simp
qed

subsection \<open>Runs of operations\<close>

text \<open>The operations that send one transaction and wait for it.\<close>

datatype binder_op = OpSubmitOrder order | OpSubmitMatch order_id order_id | OpRegister bytes bytes int1024 | OpDeregister bytes
  | OpRefund bytes | OpApproveRen string int1024 | OpCancelOrder bytes order_id | OpDeposit bytes int | OpWithdraw bytes int

fun binder_step ::
    "('w, 'tx) chain \<Rightarrow> keccak \<Rightarrow> binder_op \<Rightarrow> tx_opts \<Rightarrow> 'w \<Rightarrow> (tx_opts \<times> 'w \<times> op_error option) option" where
  "binder_step C keccak (OpSubmitOrder ord) b w = Binder_SubmitOrder C keccak ord b w"
| "binder_step C keccak (OpSubmitMatch buy sell) b w = Binder_SubmitMatch C buy sell b w"
| "binder_step C keccak (OpRegister d k bond) b w = Binder_Register C d k bond b w"
| "binder_step C keccak (OpDeregister d) b w = Binder_Deregister C d b w"
| "binder_step C keccak (OpRefund d) b w = Binder_Refund C d b w"
| "binder_step C keccak (OpApproveRen a v) b w = Binder_ApproveRen C a v b w"
| "binder_step C keccak (OpCancelOrder s i) b w = Binder_CancelOrder C s i b w"
| "binder_step C keccak (OpDeposit t v) b w = Binder_Deposit C keccak t v b w"
| "binder_step C keccak (OpWithdraw t v) b w = Binder_Withdraw C t v b w"

fun binder_run ::
    "('w, 'tx) chain \<Rightarrow> keccak \<Rightarrow> binder_op list \<Rightarrow> tx_opts \<Rightarrow> 'w \<Rightarrow> (tx_opts \<times> 'w \<times> op_error option list) option" where
  "binder_run C keccak [] b w = Some (b, w, [])"
| "binder_run C keccak (op # ops) b w =
     Option.bind (binder_step C keccak op b w) (\<lambda>(b, w, e). map_option (\<lambda>(b, w, es). (b, w, e # es)) (binder_run C keccak ops b w))"

text \<open>The arguments that an operation does not panic on: well-formed integers, and tokens of 20 bytes.\<close>

fun op_ok :: "keccak \<Rightarrow> binder_op \<Rightarrow> bool" where
  "op_ok keccak (OpRegister d k bond) \<longleftrightarrow> int_wf bond"
| "op_ok keccak (OpApproveRen a v) \<longleftrightarrow> int_wf v"
| "op_ok keccak (OpDeposit t v) \<longleftrightarrow> Address_Hex keccak t \<noteq> None"
| "op_ok keccak _ \<longleftrightarrow> True"

lemma with_id_kept:
  "(\<And>d. length d = 20 \<Longrightarrow> \<exists>res. f d = Some res \<and> kept next b w res) \<Longrightarrow> \<exists>res. with_id i f b w = Some res \<and> kept next b w res"
  by (auto simp: with_id_def toByte_def kept_def)

lemma binder_step_kept:
  assumes "honest C next" "op_ok keccak op"
  shows "\<exists>res. binder_step C keccak op b w = Some res \<and> kept next b w res"
proof -
  note S = send_and_wait_kept [OF assms(1)]
  have call: "sends C (\<lambda>b. tx_send C b c)" for c by (rule sends_call) simp
  show ?thesis
  proof (cases op)
    case (OpDeposit t v)
    then obtain hex where "Address_Hex keccak t = Some hex" using assms(2) by auto
    moreover have "sends C (\<lambda>b. tx_send C (if hex = EthereumAddress then b\<lparr>TxValue := v\<rparr> else b) (TxDeposit t v))" by (rule sends_call) simp
    ultimately show ?thesis using S OpDeposit by (simp add: Binder_Deposit_def)
  qed (use assms(2) in \<open>auto simp del: split_paired_Ex simp: Binder_SubmitOrder_def Binder_SubmitMatch_def Binder_Register_def Binder_Deregister_def Binder_Refund_def
      Binder_ApproveRen_def Binder_CancelOrder_def Binder_Withdraw_def ToBigInt_value intro!: S sends_submit call with_id_kept\<close>)
qed

text \<open>A run returns; the nonces of its transactions follow one another without a gap, and the options are as before.\<close>

lemma binder_run_nonces:
  assumes "honest C next" "\<forall>op\<in>set ops. op_ok keccak op" "TxNonce b = next w"
  shows "\<exists>b' w' es. binder_run C keccak ops b w = Some (b', w', es) \<and> length es = length ops \<and>
    TxNonce b' = next w' \<and> TxGasPrice b' = TxGasPrice b \<and> TxValue b' = TxValue b \<and>
    next w \<le> next w' \<and> next w' \<le> next w + int (length ops) \<and> int (length (filter (\<lambda>e. e = None) es)) \<le> next w' - next w"
  using assms(2,3)
proof (induction ops arbitrary: b w)
  case (Cons op ops)
  obtain b1 w1 e where s: "binder_step C keccak op b w = Some (b1, w1, e)" "kept next b w (b1, w1, e)"
    using binder_step_kept [OF assms(1), of keccak op b w] Cons.prems(1) by auto
  have n: "TxNonce b1 = next w1" "next w \<le> next w1" "next w1 \<le> next w + 1" "e = None \<Longrightarrow> next w1 = next w + 1"
    "TxGasPrice b1 = TxGasPrice b" "TxValue b1 = TxValue b"
    using s(2) Cons.prems(2) by (auto simp: kept_def split: option.splits op_error.splits)
  obtain b' w' es where r: "binder_run C keccak ops b1 w1 = Some (b', w', es)" "length es = length ops" "TxNonce b' = next w'"
    "TxGasPrice b' = TxGasPrice b1" "TxValue b' = TxValue b1" "next w1 \<le> next w'" "next w' \<le> next w1 + int (length ops)"
    "int (length (filter (\<lambda>e. e = None) es)) \<le> next w' - next w1"
    using Cons.IH [OF _ n(1)] Cons.prems(1) by auto
  show ?case
    by (intro exI [of _ b'] exI [of _ w'] exI [of _ "e # es"]) (use s(1) r n in auto)
qed simp

subsection \<open>Views\<close>

lemma find_pod_iff:
  "(\<exists>p\<in>set ps. addr \<in> set (PodDarknodes p)) \<Longrightarrow> \<exists>p\<in>set ps. find_pod addr ps = Inr p \<and> addr \<in> set (PodDarknodes p)"
  "(\<forall>p\<in>set ps. addr \<notin> set (PodDarknodes p)) \<Longrightarrow> find_pod addr ps = Inl ErrPodNotFound"
  by (induction ps) auto

text \<open>The contracts of an epoch in which every listed node is registered and there are enough nodes for a pod.\<close>

definition epoch_view :: "('w, 'tx) chain \<Rightarrow> 'w \<Rightarrow> bytes list \<Rightarrow> nat \<Rightarrow> nat \<times> int \<Rightarrow> bool" where
  "epoch_view C w ids m ep \<longleftrightarrow>
     view_darknodes C w = Inr ids \<and> view_minimumPodSize C w = Inr m \<and> view_currentEpoch C w = Inr ep \<and>
     (\<forall>i\<in>set ids. length i = 20 \<and> view_registered C w i = Inr True) \<and> 0 < m \<and> m \<le> length ids \<and> m < 2 ^ 63"

lemma registered_view_ID: "length i = 20 \<Longrightarrow> registered_view C w (ID_Address i) = view_registered C w i"
  by (cases "view_registered C w i") (simp_all add: registered_view_def Binder_IsRegistered_def Address_ID_ID id_view_def toByte_def)

lemma int_view_value: "n < base ^ INT1024WORDS \<Longrightarrow> \<exists>z. int_view (Inr n) = Inr z \<and> ToBigInt z = Some n"
  using FromBigInt_value(1) [of "int n"] by (force simp: int_view_def ToBigInt_value simp del: of_nat_power)

lemma Binder_Pods_partition:
  assumes "epoch_view C w ids m ep"
  shows "\<exists>ps. Binder_Pods C keccak w = Some (Inr ps) \<and> mset (concat (map PodDarknodes ps)) = mset (map ID_Address ids) \<and>
    (\<forall>p\<in>set ps. m \<le> Pod_Size p)"
proof -
  note V = assms [unfolded epoch_view_def]
  have reg: "\<forall>a\<in>set (map ID_Address ids). registered_view C w a = Inr True" using V by (auto simp: registered_view_ID)
  have "(2 :: nat) ^ 63 \<le> base ^ INT1024WORDS" by (simp add: base_def)
  then obtain z where z: "Binder_MinimumPodSize C w = Inr z" "ToBigInt z = Some m"
    using int_view_value [of m] V by (auto simp: Binder_MinimumPodSize_def)
  have "sint (word_of_nat m :: u64) = int m" using V by (simp add: signed_of_nat signed_take_bit_int_eq_self)
  moreover obtain ps where "binder_pods keccak (registered_view C w) (Inr ids) (Inr m) (fst ep) = Some (Inr ps)"
    "mset (concat (map PodDarknodes ps)) = mset (map ID_Address ids)" "\<forall>p\<in>set ps. m \<le> Pod_Size p"
    using binder_pods_partition [OF reg, of m keccak "fst ep"] V by blast
  ultimately show ?thesis using V z by (simp add: Binder_Pods_def pods_of_def Binder_Darknodes_def binder_darknodes_def Let_def)
qed

text \<open>Every listed node has a pod, and it contains the node; any other address has none.\<close>

lemma Binder_Pod_listed:
  assumes "epoch_view C w ids m ep"
  shows "addr \<in> ID_Address ` set ids \<Longrightarrow> \<exists>p. Binder_Pod C keccak w addr = Some (Inr p) \<and> addr \<in> set (PodDarknodes p) \<and> m \<le> Pod_Size p"
    and "addr \<notin> ID_Address ` set ids \<Longrightarrow> Binder_Pod C keccak w addr = Some (Inl ErrPodNotFound)"
proof -
  obtain ps where ps: "Binder_Pods C keccak w = Some (Inr ps)" "mset (concat (map PodDarknodes ps)) = mset (map ID_Address ids)"
    "\<forall>p\<in>set ps. m \<le> Pod_Size p" using Binder_Pods_partition [OF assms] by blast
  have s: "(\<exists>p\<in>set ps. addr \<in> set (PodDarknodes p)) \<longleftrightarrow> addr \<in> ID_Address ` set ids"
    using arg_cong [OF ps(2), of set_mset] by auto
  show "\<exists>p. Binder_Pod C keccak w addr = Some (Inr p) \<and> addr \<in> set (PodDarknodes p) \<and> m \<le> Pod_Size p" if "addr \<in> ID_Address ` set ids"
    using find_pod_iff(1) [of ps addr] ps s that by (auto simp: Binder_Pod_def)
  show "Binder_Pod C keccak w addr = Some (Inl ErrPodNotFound)" if "addr \<notin> ID_Address ` set ids"
    using find_pod_iff(2) [of ps addr] ps s that by (auto simp: Binder_Pod_def)
qed

text \<open>The key and the bond that a node was registered with are read back.\<close>

lemma Binder_PublicKey_registered:
  "length i = 20 \<Longrightarrow> view_publicKey C w i = Inr (BytesFromRsaPublicKey key) \<Longrightarrow> Binder_PublicKey C w (ID_Address i) = Some (Inr key)"
  by (simp add: Binder_PublicKey_def Address_ID_ID id_view_def toByte_def RsaPublicKey_Bytes)

lemma Binder_GetBond_registered:
  assumes "length i = 20" "int_wf bond" "ToBigInt bond = Some n" "view_bond C w i = Inr n"
  shows "\<exists>z. Binder_GetBond C w i = Inr z \<and> int_val z = int_val bond"
proof -
  have "n = int_val bond" using assms(2,3) by (simp add: ToBigInt_value)
  moreover have "int_val bond < base ^ INT1024WORDS" using assms(2) by (rule int_val_bound)
  ultimately show ?thesis using assms(1,4) FromBigInt_value(1) [of "int n"]
    by (force simp: Binder_GetBond_def id_view_def toByte_def int_view_def simp del: of_nat_power)
qed

end
