(* ===== verification/Dispatch.thy ===== *)
theory Dispatch
  imports Prelude "HOL-Library.Sublist" "HOL-Library.Multiset"
begin

section \<open>Goroutines and channels: \<^verbatim>\<open>dispatch\<close>\<close>

text \<open>
  The helpers that run functions on goroutines and move values between channels. Goroutines are lists of calls, and a run of
  several goroutines is one of their interleavings; \<^verbatim>\<open>CoBegin\<close>, \<^verbatim>\<open>CoForAll\<close> and \<^verbatim>\<open>ForAll\<close> return when every goroutine has
  ended, which is when its list is used up. A channel that is read until it is closed is the list of the values it will carry.

  \<^verbatim>\<open>Merge\<close> is a step relation: it accepts channels and starts a goroutine for each, which receives a value and
  sends it on in two steps; as soon as the channel \<^verbatim>\<open>done\<close> is closed, any of them may stop, with the value it holds.
  \<^verbatim>\<open>Forward\<close> is the merge of one channel. The arguments are checked by reflection; \<open>None\<close> is a panic.
\<close>

subsection \<open>Interleavings\<close>

inductive interleaves :: "'a list list \<Rightarrow> 'a list \<Rightarrow> bool" where
  interleaves_end: "\<forall>xs\<in>set gs. xs = [] \<Longrightarrow> interleaves gs []"
| interleaves_step: "i < length gs \<Longrightarrow> gs ! i = x # xs \<Longrightarrow> interleaves (gs[i := xs]) tr \<Longrightarrow> interleaves gs (x # tr)"

inductive_cases interleaves_Nil: "interleaves gs []"

lemma mset_concat_take:
  "i < length gs \<Longrightarrow> gs ! i = x # xs \<Longrightarrow> mset (concat gs) = add_mset x (mset (concat (gs[i := xs])))"
proof (induction gs arbitrary: i)
  case (Cons g gs)
  then show ?case by (cases i) simp_all
qed simp

lemma interleaves_mset: "interleaves gs tr \<Longrightarrow> mset tr = mset (concat gs)"
proof (induction rule: interleaves.induct)
  case (interleaves_end gs)
  then show ?case by simp
next
  case (interleaves_step i gs x xs tr)
  then show ?case using mset_concat_take by fastforce
qed

lemma interleaves_subseq: "interleaves gs tr \<Longrightarrow> j < length gs \<Longrightarrow> subseq (gs ! j) tr"
proof (induction rule: interleaves.induct)
  case (interleaves_step i gs x xs tr)
  then show ?case by (cases "i = j") (auto simp: nth_list_update)
qed (metis nth_mem subseq_order.order_refl)

lemma interleaves_exists: "\<exists>tr. interleaves gs tr"
proof (induction "length (concat gs)" arbitrary: gs)
  case 0
  then have "\<forall>xs\<in>set gs. xs = []" by simp
  then have "interleaves gs []" by (rule interleaves_end)
  then show ?case by blast
next
  case (Suc n)
  have "concat gs \<noteq> []" using Suc.hyps(2) by (metis length_0_conv nat.distinct(1))
  then obtain ys where "ys \<in> set gs" "ys \<noteq> []" by auto
  then obtain i x xs where i: "i < length gs" "gs ! i = x # xs" by (metis in_set_conv_nth neq_Nil_conv)
  have "length (concat gs) = Suc (length (concat (gs[i := xs])))" using arg_cong [OF mset_concat_take [OF i], of size] by simp
  then obtain tr where "interleaves (gs[i := xs]) tr" using Suc by (metis Suc_inject)
  then show ?case using interleaves_step [OF i] by blast
qed

text \<open>One more value at the end of a list, one more list.\<close>

lemma interleaves_snoc: "interleaves gs tr \<Longrightarrow> i < length gs \<Longrightarrow> interleaves (gs[i := gs ! i @ [x]]) (tr @ [x])"
proof (induction rule: interleaves.induct)
  case (interleaves_end gs)
  have g: "gs ! i = []" using interleaves_end nth_mem by blast
  then have "interleaves (gs[i := []]) []" using interleaves_end by (metis interleaves.interleaves_end list_update_id)
  then have "interleaves (gs[i := [x]]) [x]" using interleaves_end interleaves.interleaves_step [of i "gs[i := [x]]" x "[]" "[]"] by simp
  then show ?case unfolding g by simp
next
  case (interleaves_step j gs y ys tr)
  show ?case
  proof (cases "i = j")
    case True
    then show ?thesis using interleaves_step interleaves.interleaves_step [of j "gs[j := y # ys @ [x]]" y "ys @ [x]" "tr @ [x]"] by simp
  next
    case False
    then have "interleaves (gs[i := gs ! i @ [x], j := ys]) (tr @ [x])" using interleaves_step by (simp add: list_update_swap)
    then show ?thesis using False interleaves_step interleaves.interleaves_step [of j "gs[i := gs ! i @ [x]]" y ys "tr @ [x]"] by simp
  qed
qed

lemma interleaves_new: "interleaves gs tr \<Longrightarrow> interleaves (gs @ [[]]) tr"
proof (induction rule: interleaves.induct)
  case (interleaves_step i gs x xs tr)
  then show ?case using interleaves.interleaves_step [of i "gs @ [[]]" x xs tr] by (simp add: nth_append list_update_append)
next
  case (interleaves_end gs)
  then show ?case by (intro interleaves.interleaves_end) auto
qed

subsection \<open>Running functions\<close>

text \<open>Every function once, on its own goroutine.\<close>

definition CoBegin :: "'f list \<Rightarrow> 'f list list" where
  "CoBegin fs = map (\<lambda>f. [f]) fs"

text \<open>What the iterator is, by reflection; the arguments of the calls are indices or keys of a map. A map is listed in
  some order.\<close>

datatype 'k iterator = IterSlice nat | IterMap "'k list" | IterInt int | IterOtherInt | IterOther

datatype 'k call_arg = ArgInt nat | ArgKey 'k

definition CoForAll :: "'k iterator \<Rightarrow> bool \<Rightarrow> 'k call_arg list list option" where
  "CoForAll iter is_func =
     (if \<not> is_func then None
      else
        (case iter of
           IterSlice numGoroutines \<Rightarrow> Some (map (\<lambda>i. [ArgInt i]) [0..<numGoroutines])
         | IterMap keys \<Rightarrow> Some (map (\<lambda>i. [ArgKey (keys ! i)]) [0..<length keys])
         | IterInt numGoroutines \<Rightarrow> if numGoroutines < 0 then None else Some (map (\<lambda>i. [ArgInt i]) [0..<nat numGoroutines])
         | IterOtherInt \<Rightarrow> None
         | IterOther \<Rightarrow> None))"

text \<open>The calls of \<^verbatim>\<open>ForAll\<close> on one goroutine, and the goroutines: the outer loop.\<close>

definition forall_worker :: "nat \<Rightarrow> nat \<Rightarrow> nat \<Rightarrow> nat list" where
  "forall_worker num numPerGoroutine i = [i..<min (i + numPerGoroutine) num]"

function forall_loop :: "nat \<Rightarrow> nat \<Rightarrow> nat \<Rightarrow> nat list list" where
  "forall_loop num numPerGoroutine i =
     (if i < num \<and> 0 < numPerGoroutine
      then forall_worker num numPerGoroutine i # forall_loop num numPerGoroutine (i + numPerGoroutine) else [])"
  by pat_completeness auto
termination
  by (relation "measure (\<lambda>(num, per, i). num - i)") auto

declare forall_loop.simps [simp del]

definition forall_indices :: "nat \<Rightarrow> nat \<Rightarrow> nat list list" where
  "forall_indices numCPU num = forall_loop num (num div numCPU + 1) 0"

definition ForAll :: "nat \<Rightarrow> 'k iterator \<Rightarrow> bool \<Rightarrow> 'k call_arg list list option" where
  "ForAll numCPU iter is_func =
     (if \<not> is_func then None
      else
        (case iter of
           IterSlice num \<Rightarrow> Some (map (map ArgInt) (forall_indices numCPU num))
         | IterMap keys \<Rightarrow> Some (map (map (\<lambda>j. ArgKey (keys ! j))) (forall_indices numCPU (length keys)))
         | IterInt num \<Rightarrow> Some (map (map ArgInt) (forall_indices numCPU (nat num)))
         | IterOtherInt \<Rightarrow> None
         | IterOther \<Rightarrow> None))"

text \<open>Every index is on exactly one goroutine, and there are at most as many goroutines as processors.\<close>

lemma forall_loop_concat: "0 < per \<Longrightarrow> concat (forall_loop num per i) = [i..<num]"
proof (induction num per i rule: forall_loop.induct)
  case (1 num per i)
  show ?case
  proof (cases "i < num")
    case True
    then have "[i..<min (i + per) num] @ [i + per..<num] = [i..<num]"
      using upt_add_eq_append [of i "i + per" "num - (i + per)"] by (cases "i + per \<le> num") (simp_all add: min_def)
    then show ?thesis using True 1 by (subst forall_loop.simps) (simp add: forall_worker_def)
  qed (subst forall_loop.simps, simp)
qed

lemma forall_indices_concat: "concat (forall_indices numCPU num) = [0..<num]"
  by (simp add: forall_indices_def forall_loop_concat)

lemma forall_loop_length: "0 < per \<Longrightarrow> num - i \<le> n * per \<Longrightarrow> length (forall_loop num per i) \<le> n"
proof (induction n arbitrary: i)
  case 0
  then show ?case by (subst forall_loop.simps) simp
next
  case (Suc n)
  then show ?case by (subst forall_loop.simps) (simp, linarith?)
qed

lemma forall_indices_length:
  assumes "0 < numCPU" shows "length (forall_indices numCPU num) \<le> numCPU"
proof -
  have "num < numCPU * (num div numCPU + 1)" using assms by (simp add: dividend_less_times_div)
  then show ?thesis unfolding forall_indices_def by (intro forall_loop_length) simp_all
qed

text \<open>The sequential loop: what the calls are in the end if they commute.\<close>

definition sequential :: "'k iterator \<Rightarrow> 'k call_arg list" where
  "sequential iter = (case iter of IterSlice num \<Rightarrow> map ArgInt [0..<num] | IterMap keys \<Rightarrow> map ArgKey keys
     | IterInt num \<Rightarrow> map ArgInt [0..<nat num] | _ \<Rightarrow> [])"

lemma concat_singletons: "concat (map (\<lambda>i. [f i]) xs) = map f xs"
  by (induction xs) simp_all

lemma map_nth_indices: "map (\<lambda>i. f (xs ! i)) [0..<length xs] = map f xs"
  by (rule nth_equalityI) simp_all

lemma ForAll_calls:
  assumes "ForAll numCPU iter True = Some gs" shows "concat gs = sequential iter"
proof -
  note c = map_concat [symmetric] forall_indices_concat
  show ?thesis
    using assms by (cases iter) (auto simp: ForAll_def sequential_def c map_nth_indices)
qed

lemma CoForAll_calls: "CoForAll iter True = Some gs \<Longrightarrow> concat gs = sequential iter"
  by (cases iter) (auto simp: CoForAll_def sequential_def concat_singletons map_nth_indices split: if_splits)

definition commute :: "('a \<Rightarrow> 's \<Rightarrow> 's) \<Rightarrow> bool" where
  "commute f \<longleftrightarrow> (\<forall>x y s. f x (f y s) = f y (f x s))"

lemma fold_commute_mset: "commute f \<Longrightarrow> mset xs = mset ys \<Longrightarrow> fold f xs s = fold f ys s"
  by (rule fun_cong [OF fold_multiset_equiv]) (auto simp: commute_def fun_eq_iff)

lemma ForAll_sequential:
  assumes "ForAll numCPU iter True = Some gs" "interleaves gs tr" "commute f"
  shows "fold f tr s = fold f (sequential iter) s"
  using fold_commute_mset [OF assms(3)] interleaves_mset [OF assms(2)] ForAll_calls [OF assms(1)] by metis

lemma CoForAll_sequential:
  assumes "CoForAll iter True = Some gs" "interleaves gs tr" "commute f"
  shows "fold f tr s = fold f (sequential iter) s"
  using fold_commute_mset [OF assms(3)] interleaves_mset [OF assms(2)] CoForAll_calls [OF assms(1)] by metis

text \<open>A negative number: \<^verbatim>\<open>ForAll\<close> does nothing, \<^verbatim>\<open>CoForAll\<close> panics in the wait group.\<close>

lemma negative_iterators:
  assumes "n < 0" shows "ForAll numCPU (IterInt n) True = Some []" "CoForAll (IterInt n) True = None"
proof -
  have "forall_loop 0 per 0 = []" for per by (subst forall_loop.simps) simp
  then show "ForAll numCPU (IterInt n) True = Some []" using assms by (simp add: ForAll_def forall_indices_def)
qed (use assms in \<open>simp add: CoForAll_def\<close>)

subsection \<open>Merging channels\<close>

record 'a merge_worker =
  Held :: "'a option"
  Rest :: "'a list"
  Live :: bool

record 'a merger =
  Coming :: "'a list list"
  Accepting :: bool
  Workers :: "'a merge_worker list"
  Done :: bool
  Out :: "'a list"

definition Merge_start :: "'a list list \<Rightarrow> 'a merger" where
  "Merge_start chs = \<lparr>Coming = chs, Accepting = True, Workers = [], Done = False, Out = []\<rparr>"

inductive merge_step :: "'a merger \<Rightarrow> 'a merger \<Rightarrow> bool" where
  MergeDone: "merge_step m (m\<lparr>Done := True\<rparr>)"
| MergeAccept: "Accepting m \<Longrightarrow> Coming m = ch # chs \<Longrightarrow>
    merge_step m (m\<lparr>Coming := chs, Workers := Workers m @ [\<lparr>Held = None, Rest = ch, Live = True\<rparr>]\<rparr>)"
| MergeBreak: "Accepting m \<Longrightarrow> Done m \<or> Coming m = [] \<Longrightarrow> merge_step m (m\<lparr>Accepting := False\<rparr>)"
| MergeReceive: "i < length (Workers m) \<Longrightarrow> Workers m ! i = \<lparr>Held = None, Rest = v # vs, Live = True\<rparr> \<Longrightarrow>
    merge_step m (m\<lparr>Workers := (Workers m)[i := \<lparr>Held = Some v, Rest = vs, Live = True\<rparr>]\<rparr>)"
| MergeSend: "i < length (Workers m) \<Longrightarrow> Workers m ! i = \<lparr>Held = Some v, Rest = vs, Live = True\<rparr> \<Longrightarrow>
    merge_step m (m\<lparr>Workers := (Workers m)[i := \<lparr>Held = None, Rest = vs, Live = True\<rparr>], Out := Out m @ [v]\<rparr>)"
| MergeReturn: "i < length (Workers m) \<Longrightarrow> Workers m ! i = w \<Longrightarrow> Live w \<Longrightarrow> Done m \<or> Held w = None \<and> Rest w = [] \<Longrightarrow>
    merge_step m (m\<lparr>Workers := (Workers m)[i := w\<lparr>Live := False\<rparr>]\<rparr>)"

text \<open>\<^verbatim>\<open>Merge\<close> returns when it accepts no more channels and every goroutine has ended.\<close>

definition Merge_returned :: "'a merger \<Rightarrow> bool" where
  "Merge_returned m \<longleftrightarrow> \<not> Accepting m \<and> (\<forall>w\<in>set (Workers m). \<not> Live w)"

definition Forward_start :: "'a list \<Rightarrow> 'a merger" where
  "Forward_start ch = \<lparr>Coming = [], Accepting = False, Workers = [\<lparr>Held = None, Rest = ch, Live = True\<rparr>], Done = False, Out = []\<rparr>"

text \<open>What each goroutine has sent, has in hand and has left makes up its channel. Without \<^verbatim>\<open>done\<close> a goroutine
  ends with nothing left.\<close>

definition held_list :: "'a merge_worker \<Rightarrow> 'a list" where
  "held_list w = (case Held w of None \<Rightarrow> [] | Some v \<Rightarrow> [v])"

definition worker_has :: "'a list \<Rightarrow> 'a merge_worker \<Rightarrow> 'a list" where
  "worker_has s w = s @ held_list w @ Rest w"

text \<open>The parts of the channels: \<open>ss\<close> is what each goroutine has sent.\<close>

definition merge_parts :: "'a list list \<Rightarrow> 'a merge_worker list \<Rightarrow> 'a list list \<Rightarrow> 'a list \<Rightarrow> bool" where
  "merge_parts chs ws coming out \<longleftrightarrow>
     (\<exists>ss. length ss = length ws \<and> interleaves ss out \<and> chs = map2 worker_has ss ws @ coming)"

definition merge_inv :: "'a list list \<Rightarrow> 'a merger \<Rightarrow> bool" where
  "merge_inv chs m \<longleftrightarrow> merge_parts chs (Workers m) (Coming m) (Out m) \<and>
     (\<not> Done m \<longrightarrow> (\<forall>w\<in>set (Workers m). \<not> Live w \<longrightarrow> Held w = None \<and> Rest w = []) \<and> (\<not> Accepting m \<longrightarrow> Coming m = []))"

lemma map2_update:
  "i < length xs \<Longrightarrow> length xs = length ys \<Longrightarrow> f (xs ! i) (ys ! i) = f x y \<Longrightarrow> map2 f (xs[i := x]) (ys[i := y]) = map2 f xs ys"
  by (rule nth_equalityI) (auto simp: nth_list_update)

lemma merge_parts_accept:
  assumes "merge_parts chs ws (ch # coming) out"
  shows "merge_parts chs (ws @ [\<lparr>Held = None, Rest = ch, Live = True\<rparr>]) coming out"
proof -
  obtain ss where ss: "length ss = length ws" "interleaves ss out" "chs = map2 worker_has ss ws @ ch # coming"
    using assms unfolding merge_parts_def by blast
  moreover have "worker_has [] \<lparr>Held = None, Rest = ch, Live = True\<rparr> = ch" by (simp add: worker_has_def held_list_def)
  ultimately show ?thesis unfolding merge_parts_def by (intro exI [of _ "ss @ [[]]"]) (simp add: interleaves_new)
qed

lemma merge_parts_same:
  assumes "merge_parts chs ws coming out" "i < length ws" "held_list w @ Rest w = held_list (ws ! i) @ Rest (ws ! i)"
  shows "merge_parts chs (ws[i := w]) coming out"
proof -
  obtain ss where ss: "length ss = length ws" "interleaves ss out" "chs = map2 worker_has ss ws @ coming"
    using assms(1) unfolding merge_parts_def by blast
  have "map2 worker_has (ss[i := ss ! i]) (ws[i := w]) = map2 worker_has ss ws"
    by (rule map2_update) (use ss(1) assms(2,3) in \<open>simp_all add: worker_has_def\<close>)
  then show ?thesis unfolding merge_parts_def by (intro exI [of _ ss]) (use ss in simp)
qed

lemma merge_parts_send:
  assumes "merge_parts chs ws coming out" "i < length ws" "held_list (ws ! i) @ Rest (ws ! i) = v # held_list w @ Rest w"
  shows "merge_parts chs (ws[i := w]) coming (out @ [v])"
proof -
  obtain ss where ss: "length ss = length ws" "interleaves ss out" "chs = map2 worker_has ss ws @ coming"
    using assms(1) unfolding merge_parts_def by blast
  have "map2 worker_has (ss[i := ss ! i @ [v]]) (ws[i := w]) = map2 worker_has ss ws"
    by (rule map2_update) (use ss(1) assms(2,3) in \<open>simp_all add: worker_has_def\<close>)
  moreover have "interleaves (ss[i := ss ! i @ [v]]) (out @ [v])" using interleaves_snoc [OF ss(2)] ss(1) assms(2) by simp
  ultimately show ?thesis unfolding merge_parts_def by (intro exI [of _ "ss[i := ss ! i @ [v]]"]) (use ss in simp)
qed

lemma merge_inv_start:
  fixes ch :: "'b list"
  shows "merge_inv chs (Merge_start chs :: 'b merger)" "merge_inv [ch] (Forward_start ch)"
proof -
  have "interleaves [] []" by (simp add: interleaves_end)
  then have p: "merge_parts cs [] cs []" for cs :: "'b list list" by (auto simp: merge_parts_def)
  then show "merge_inv chs (Merge_start chs)" by (simp add: merge_inv_def Merge_start_def)
  show "merge_inv [ch] (Forward_start ch)" using merge_parts_accept [OF p, of ch "[]"] by (simp add: merge_inv_def Forward_start_def)
qed

lemma merge_inv_update:
  assumes "merge_inv chs m" "merge_parts chs ((Workers m)[i := w]) (Coming m) out" "Done m \<or> Live w \<or> Held w = None \<and> Rest w = []"
  shows "merge_inv chs (m\<lparr>Workers := (Workers m)[i := w], Out := out\<rparr>)"
proof -
  have "set ((Workers m)[i := w]) \<subseteq> insert w (set (Workers m))" by (rule set_update_subset_insert)
  then have "\<forall>x\<in>set ((Workers m)[i := w]). \<not> Live x \<longrightarrow> Held x = None \<and> Rest x = []" if "\<not> Done m"
    using assms(1,3) that unfolding merge_inv_def by blast
  then show ?thesis using assms(1,2) by (simp add: merge_inv_def)
qed

lemma merge_step_inv: "merge_step m m' \<Longrightarrow> merge_inv chs m \<Longrightarrow> merge_inv chs m'"
proof (induction rule: merge_step.induct)
  case (MergeAccept m ch cs)
  then show ?case using merge_parts_accept [of chs "Workers m" ch cs "Out m"] by (auto simp: merge_inv_def)
next
  case (MergeReceive i m v vs)
  have p: "merge_parts chs (Workers m) (Coming m) (Out m)" using MergeReceive.prems unfolding merge_inv_def by blast
  have "merge_parts chs ((Workers m)[i := \<lparr>Held = Some v, Rest = vs, Live = True\<rparr>]) (Coming m) (Out m)"
    by (rule merge_parts_same [OF p MergeReceive.hyps(1)]) (simp add: MergeReceive.hyps(2) held_list_def)
  then show ?case using merge_inv_update [OF MergeReceive.prems] by fastforce
next
  case (MergeSend i m v vs)
  have p: "merge_parts chs (Workers m) (Coming m) (Out m)" using MergeSend.prems unfolding merge_inv_def by blast
  have "merge_parts chs ((Workers m)[i := \<lparr>Held = None, Rest = vs, Live = True\<rparr>]) (Coming m) (Out m @ [v])"
    by (rule merge_parts_send [OF p MergeSend.hyps(1)]) (simp add: MergeSend.hyps(2) held_list_def)
  then show ?case by (rule merge_inv_update [OF MergeSend.prems]) simp
next
  case (MergeReturn i m w)
  have p: "merge_parts chs (Workers m) (Coming m) (Out m)" using MergeReturn.prems unfolding merge_inv_def by blast
  have "merge_parts chs ((Workers m)[i := w\<lparr>Live := False\<rparr>]) (Coming m) (Out m)"
    by (rule merge_parts_same [OF p MergeReturn.hyps(1)]) (simp add: MergeReturn.hyps(2) held_list_def)
  moreover have "Done m \<or> Live (w\<lparr>Live := False\<rparr>) \<or> Held (w\<lparr>Live := False\<rparr>) = None \<and> Rest (w\<lparr>Live := False\<rparr>) = []"
    using MergeReturn.hyps(4) by simp
  ultimately show ?case using merge_inv_update [OF MergeReturn.prems] by fastforce
qed (auto simp: merge_inv_def)

text \<open>What comes out is an interleaving of prefixes of the channels, in their order; if \<^verbatim>\<open>done\<close> was never closed and \<^verbatim>\<open>Merge\<close>
  has returned, it is an interleaving of the whole channels: nothing is lost and nothing comes twice.\<close>

lemma merge_run_inv: "merge_step\<^sup>*\<^sup>* m m' \<Longrightarrow> merge_inv chs m \<Longrightarrow> merge_inv chs m'"
  by (induction rule: rtranclp_induct) (auto intro: merge_step_inv)

lemma merge_out:
  assumes "merge_inv chs m"
  shows "\<exists>ss. interleaves ss (Out m) \<and> length ss \<le> length chs \<and> (\<forall>i<length ss. prefix (ss ! i) (chs ! i))"
    and "Merge_returned m \<Longrightarrow> \<not> Done m \<Longrightarrow> interleaves chs (Out m)"
proof -
  obtain ss where ss: "length ss = length (Workers m)" "interleaves ss (Out m)" "chs = map2 worker_has ss (Workers m) @ Coming m"
    using assms unfolding merge_inv_def merge_parts_def by blast
  then show "\<exists>ss. interleaves ss (Out m) \<and> length ss \<le> length chs \<and> (\<forall>i<length ss. prefix (ss ! i) (chs ! i))"
    by (intro exI [of _ ss]) (auto simp: nth_append worker_has_def)
  assume r: "Merge_returned m" "\<not> Done m"
  then have "\<forall>w\<in>set (Workers m). held_list w @ Rest w = []" "Coming m = []"
    using assms by (auto simp: merge_inv_def Merge_returned_def held_list_def)
  then have "chs = ss" using ss(1,3) by (auto simp: worker_has_def intro!: nth_equalityI)
  then show "interleaves chs (Out m)" using ss(2) by simp
qed

lemma Merge_interleaves:
  assumes "merge_step\<^sup>*\<^sup>* (Merge_start chs) m" "Merge_returned m" "\<not> Done m"
  shows "interleaves chs (Out m)"
  using merge_out(2) [OF merge_run_inv [OF assms(1) merge_inv_start(1)]] assms(2,3) .

lemma interleaves_single: "interleaves gs tr \<Longrightarrow> gs = [xs] \<Longrightarrow> tr = xs"
proof (induction arbitrary: xs rule: interleaves.induct)
  case (interleaves_step i gs x ys tr)
  then show ?case by auto
qed simp

lemma Forward_copies:
  assumes "merge_step\<^sup>*\<^sup>* (Forward_start ch) m"
  shows "prefix (Out m) ch" "Merge_returned m \<Longrightarrow> \<not> Done m \<Longrightarrow> Out m = ch"
proof -
  note I = merge_run_inv [OF assms merge_inv_start(2)]
  obtain ss where ss: "interleaves ss (Out m)" "length ss \<le> 1" "\<forall>i<length ss. prefix (ss ! i) ([ch] ! i)"
    using merge_out(1) [OF I] by auto
  show "prefix (Out m) ch"
  proof (cases ss)
    case Nil
    then have "mset (Out m) = {#}" using interleaves_mset [OF ss(1)] by simp
    then show ?thesis by simp
  next
    case (Cons s ss')
    then have "ss = [s]" using ss(2) by simp
    then show ?thesis using interleaves_single [OF ss(1)] ss(3) by simp
  qed
  show "Out m = ch" if "Merge_returned m" "\<not> Done m" using interleaves_single [OF merge_out(2) [OF I that]] by simp
qed

subsection \<open>Channels of errors\<close>

text \<open>The channel that \<^verbatim>\<open>MergeErrors\<close> returns carries an interleaving of its arguments; nothing stops it.\<close>

definition MergeErrors :: "'e list list \<Rightarrow> 'e list \<Rightarrow> bool" where
  "MergeErrors chs out \<longleftrightarrow> interleaves chs out"

definition FilterErrors :: "('e \<Rightarrow> bool) \<Rightarrow> 'e list \<Rightarrow> 'e list" where
  "FilterErrors predicate ch = filter predicate ch"

fun ConsumeErrors :: "('e \<Rightarrow> 's \<Rightarrow> 's) list \<Rightarrow> 'e list \<Rightarrow> 's \<Rightarrow> 's" where
  "ConsumeErrors f [] s = s"
| "ConsumeErrors f (err # errs) s = ConsumeErrors f errs (fold (\<lambda>g. g err) f s)"

lemma MergeErrors_all: "MergeErrors chs out \<Longrightarrow> err \<in> set out \<longleftrightarrow> (\<exists>ch\<in>set chs. err \<in> set ch)"
  using arg_cong [OF interleaves_mset, of chs out set_mset] by (auto simp: MergeErrors_def)

end
