(* ===== verification/Stream.thy ===== *)
theory Stream
  imports Prelude Codec "HOL-Library.List_Lexorder" "HOL-Library.Char_ord"
begin

section \<open>Streams between nodes: \<^verbatim>\<open>stream\<close>\<close>

text \<open>
  Three layers. A streamer decides by the order of the addresses which of two nodes connects and which listens. A recycler
  opens one stream per address, counts its users and closes it after the last of them. A hub connects streamers of one
  process by channels.

  The recycler is a step relation: a call of \<^verbatim>\<open>Open\<close> takes the lock of its address, looks at the counter, dials without
  the lock of the maps, and stores the stream; the goroutine that it starts waits for the context of the user to end. Every
  locked section is one step. Locks, streams and cancel functions are numbers; a stream is closed when its number is
  in \<open>cancelled\<close>. A panic is \<open>None\<close>.
\<close>

type_synonym addr = string

subsection \<open>Connecting or listening\<close>

definition streamer_Open :: "addr \<Rightarrow> ('m \<Rightarrow> addr) \<Rightarrow> ('m \<Rightarrow> 'e + 's) \<Rightarrow> (addr \<Rightarrow> 'e + 's) \<Rightarrow> 'm \<Rightarrow> 'e + 's" where
  "streamer_Open self address connect listen multiAddr =
     (if self < address multiAddr then connect multiAddr else listen (address multiAddr))"

text \<open>Of two different nodes exactly one connects, and the other listens.\<close>

lemma streamer_complement:
  assumes "a \<noteq> b" "address ma = a" "address mb = b"
  shows "(streamer_Open a address connect listen mb = connect mb \<and> streamer_Open b address connect' listen' ma = listen' a) \<or>
    (streamer_Open a address connect listen mb = listen b \<and> streamer_Open b address connect' listen' ma = connect' ma)"
  using assms by (cases "a < b") (auto simp: streamer_Open_def)

subsection \<open>The recycler\<close>

record recycler =
  open_streams :: "addr \<rightharpoonup> nat"
  streamsCancel :: "addr \<rightharpoonup> nat"
  streamsRc :: "addr \<Rightarrow> int"
  streamsMu :: "addr \<rightharpoonup> nat"

definition NewStreamRecycler :: recycler where
  "NewStreamRecycler = \<lparr>open_streams = Map.empty, streamsCancel = Map.empty, streamsRc = (\<lambda>_. 0), streamsMu = Map.empty\<rparr>"

text \<open>The lock of an address: an existing one, or a new one with the number \<open>fresh\<close>.\<close>

definition address_lock :: "recycler \<Rightarrow> addr \<Rightarrow> nat \<Rightarrow> recycler \<times> nat" where
  "address_lock rc a fresh = (case streamsMu rc a of Some mu \<Rightarrow> (rc, mu) | None \<Rightarrow> (rc\<lparr>streamsMu := (streamsMu rc)(a \<mapsto> fresh)\<rparr>, fresh))"

definition count_up :: "recycler \<Rightarrow> addr \<Rightarrow> recycler" where
  "count_up rc a = rc\<lparr>streamsRc := (streamsRc rc)(a := streamsRc rc a + 1)\<rparr>"

definition store_stream :: "recycler \<Rightarrow> addr \<Rightarrow> nat \<Rightarrow> recycler" where
  "store_stream rc a s = count_up (rc\<lparr>open_streams := (open_streams rc)(a \<mapsto> s), streamsCancel := (streamsCancel rc)(a \<mapsto> s)\<rparr>) a"

text \<open>The end of a use: the stream that is cancelled, if it was the last. A cancel function that is missing panics.\<close>

definition end_use :: "recycler \<Rightarrow> addr \<Rightarrow> (recycler \<times> nat option) option" where
  "end_use rc a =
     (let rc = rc\<lparr>streamsRc := (streamsRc rc)(a := streamsRc rc a - 1)\<rparr>
      in if streamsRc rc a \<noteq> 0 then Some (rc, None)
         else
           (case streamsCancel rc a of
              None \<Rightarrow> None
            | Some s \<Rightarrow> Some (rc\<lparr>open_streams := (open_streams rc)(a := None), streamsCancel := (streamsCancel rc)(a := None),
                streamsRc := (streamsRc rc)(a := 0), streamsMu := (streamsMu rc)(a := None)\<rparr>, Some s)))"

datatype phase = Waiting addr nat | Holding addr nat | Dialing addr nat | Using addr "nat option"

text \<open>The system: the recycler, the calls and uses by their number, the locks that are held, the streams that were opened with their
  addresses, and those that were cancelled. \<open>nxt\<close> is above every number in use.\<close>

record rec_sys =
  rec :: recycler
  phases :: "nat \<rightharpoonup> phase"
  held :: "nat set"
  dialed_to :: "nat \<rightharpoonup> addr"
  cancelled :: "nat set"
  nxt :: nat

definition rec_init :: rec_sys where
  "rec_init = \<lparr>rec = NewStreamRecycler, phases = Map.empty, held = {}, dialed_to = Map.empty, cancelled = {}, nxt = 0\<rparr>"

inductive rec_step :: "rec_sys \<Rightarrow> rec_sys option \<Rightarrow> bool" where
  RecArrive: "phases s p = None \<Longrightarrow> address_lock (rec s) a (nxt s) = (rc, mu) \<Longrightarrow>
    rec_step s (Some (s\<lparr>rec := rc, phases := (phases s)(p \<mapsto> Waiting a mu), nxt := Suc (nxt s)\<rparr>))"
| RecAcquire: "phases s p = Some (Waiting a mu) \<Longrightarrow> mu \<notin> held s \<Longrightarrow>
    rec_step s (Some (s\<lparr>phases := (phases s)(p \<mapsto> Holding a mu), held := insert mu (held s)\<rparr>))"
| RecReuse: "phases s p = Some (Holding a mu) \<Longrightarrow> streamsRc (rec s) a \<noteq> 0 \<Longrightarrow>
    rec_step s (Some (s\<lparr>rec := count_up (rec s) a, phases := (phases s)(p \<mapsto> Using a (open_streams (rec s) a)), held := held s - {mu}\<rparr>))"
| RecDial: "phases s p = Some (Holding a mu) \<Longrightarrow> streamsRc (rec s) a = 0 \<Longrightarrow>
    rec_step s (Some (s\<lparr>phases := (phases s)(p \<mapsto> Dialing a mu)\<rparr>))"
| RecDialed: "phases s p = Some (Dialing a mu) \<Longrightarrow>
    rec_step s (Some (s\<lparr>rec := store_stream (rec s) a (nxt s), phases := (phases s)(p \<mapsto> Using a (Some (nxt s))), held := held s - {mu},
      dialed_to := (dialed_to s)(nxt s \<mapsto> a), nxt := Suc (nxt s)\<rparr>))"
| RecFail: "phases s p = Some (Dialing a mu) \<Longrightarrow>
    rec_step s (Some (s\<lparr>phases := (phases s)(p := None), held := held s - {mu}\<rparr>))"
| RecEnd: "phases s p = Some (Using a st) \<Longrightarrow> end_use (rec s) a = Some (rc, c) \<Longrightarrow>
    rec_step s (Some (s\<lparr>rec := rc, phases := (phases s)(p := None), cancelled := cancelled s \<union> set_option c\<rparr>))"
| RecPanic: "phases s p = Some (Using a st) \<Longrightarrow> end_use (rec s) a = None \<Longrightarrow> rec_step s None"

inductive rec_reach :: "rec_sys option \<Rightarrow> bool" where
  RecInit: "rec_reach (Some rec_init)"
| RecNext: "rec_reach (Some s) \<Longrightarrow> rec_step s s' \<Longrightarrow> rec_reach s'"

inductive_cases rec_step_SomeE: "rec_step s (Some s')"
inductive_cases rec_step_NoneE: "rec_step s None"

definition users :: "rec_sys \<Rightarrow> addr \<Rightarrow> nat set" where
  "users s a = {p. \<exists>st. phases s p = Some (Using a st)}"

definition rec_inv :: "rec_sys \<Rightarrow> bool" where
  "rec_inv s \<longleftrightarrow> finite (dom (phases s)) \<and> (\<forall>i\<in>dom (dialed_to s). i < nxt s) \<and> cancelled s \<subseteq> dom (dialed_to s) \<and>
     (\<forall>a. streamsRc (rec s) a = int (card (users s a))) \<and>
     (\<forall>a. streamsCancel (rec s) a = open_streams (rec s) a \<and> (open_streams (rec s) a = None \<longleftrightarrow> users s a = {})) \<and>
     (\<forall>a i. open_streams (rec s) a = Some i \<longrightarrow> dialed_to s i = Some a \<and> i \<notin> cancelled s) \<and>
     (\<forall>p a st. phases s p = Some (Using a st) \<longrightarrow> (\<exists>i. st = Some i \<and> dialed_to s i = Some a \<and> i \<notin> cancelled s))"

lemma users_finite: "finite (dom (phases s)) \<Longrightarrow> finite (users s a)"
  by (rule finite_subset [of _ "dom (phases s)"]) (auto simp: users_def)

lemma rec_invI:
  assumes "finite (dom (phases s))" "\<And>i b. dialed_to s i = Some b \<Longrightarrow> i < nxt s" "\<And>i. i \<in> cancelled s \<Longrightarrow> \<exists>b. dialed_to s i = Some b"
    "\<And>a. streamsRc (rec s) a = int (card (users s a))" "\<And>a. streamsCancel (rec s) a = open_streams (rec s) a"
    "\<And>a. open_streams (rec s) a = None \<longleftrightarrow> users s a = {}"
    "\<And>a i. open_streams (rec s) a = Some i \<Longrightarrow> dialed_to s i = Some a \<and> i \<notin> cancelled s"
    "\<And>p a st. phases s p = Some (Using a st) \<Longrightarrow> \<exists>i. st = Some i \<and> dialed_to s i = Some a \<and> i \<notin> cancelled s"
  shows "rec_inv s"
  using assms unfolding rec_inv_def by blast

lemma rec_invD:
  assumes "rec_inv s"
  shows "finite (dom (phases s))" "dialed_to s i = Some b \<Longrightarrow> i < nxt s" "i \<in> cancelled s \<Longrightarrow> \<exists>b. dialed_to s i = Some b"
    "streamsRc (rec s) a = int (card (users s a))" "streamsCancel (rec s) a = open_streams (rec s) a"
    "open_streams (rec s) a = None \<longleftrightarrow> users s a = {}"
    "open_streams (rec s) a = Some i \<Longrightarrow> dialed_to s i = Some a \<and> i \<notin> cancelled s"
    "phases s p = Some (Using a st) \<Longrightarrow> \<exists>i. st = Some i \<and> dialed_to s i = Some a \<and> i \<notin> cancelled s"
  using assms unfolding rec_inv_def by blast+

text \<open>How a change of a phase changes the users.\<close>

definition uses :: "phase option \<Rightarrow> addr \<Rightarrow> bool" where
  "uses ph a \<longleftrightarrow> (\<exists>st. ph = Some (Using a st))"

text \<open>A step that neither begins nor ends a use.\<close>

lemma rec_inv_idle:
  assumes "rec_inv s" "phases s' = (phases s)(p := ph)" "\<forall>a. \<not> uses (phases s p) a" "\<forall>a. \<not> uses ph a"
    "open_streams (rec s') = open_streams (rec s)" "streamsCancel (rec s') = streamsCancel (rec s)" "streamsRc (rec s') = streamsRc (rec s)"
    "dialed_to s' = dialed_to s" "cancelled s' = cancelled s" "nxt s \<le> nxt s'"
  shows "rec_inv s'"
proof -
  note I = rec_invD [OF assms(1)]
  have u: "users s' a = users s a" for a using assms(2,3,4) by (auto simp: users_def uses_def)
  have q: "phases s' q = Some (Using a st) \<Longrightarrow> phases s q = Some (Using a st)" for q a st
    using assms(2,4) by (auto simp: uses_def split: if_splits)
  show ?thesis
  proof (rule rec_invI)
    show "i < nxt s'" if "dialed_to s' i = Some b" for i b using I(2) that assms(8,10) by fastforce
    show "finite (dom (phases s'))" using I(1) assms(2) by simp
    show "\<exists>i. st = Some i \<and> dialed_to s' i = Some a \<and> i \<notin> cancelled s'" if "phases s' q = Some (Using a st)" for q a st
      using I(8) q [OF that] assms(8,9) by simp
  qed (use I assms(5-9) u in simp_all)
qed

text \<open>A use begins: \<open>p\<close> becomes a user of the stream in the map.\<close>

lemma rec_inv_begin:
  assumes "rec_inv s" "phases s' = (phases s)(p \<mapsto> Using a (Some i))" "\<forall>a. \<not> uses (phases s p) a"
    "open_streams (rec s') = (open_streams (rec s))(a \<mapsto> i)" "streamsCancel (rec s') = (streamsCancel (rec s))(a \<mapsto> i)"
    "streamsRc (rec s') = (streamsRc (rec s))(a := streamsRc (rec s) a + 1)"
    "dialed_to s' = (dialed_to s)(i \<mapsto> a)" "cancelled s' = cancelled s" "nxt s \<le> nxt s'" "i < nxt s'"
    "dialed_to s i = None \<or> dialed_to s i = Some a \<and> i \<notin> cancelled s"
  shows "rec_inv s'"
proof -
  note I = rec_invD [OF assms(1)]
  have f: "finite (users s a)" using I(1) by (rule users_finite)
  have u: "users s' b = (if b = a then insert p (users s a) else users s b)" for b
    using assms(2,3) by (auto simp: users_def uses_def)
  have p: "p \<notin> users s a" using assms(3) by (auto simp: users_def uses_def)
  have i: "i \<notin> cancelled s" using I(3) [of i] assms(11) by auto
  have o: "dialed_to s j = Some b \<Longrightarrow> dialed_to s' j = Some b" for j b using assms(7,11) by auto
  show ?thesis
  proof (rule rec_invI)
    show "finite (dom (phases s'))" using I(1) assms(2) by simp
    show "j < nxt s'" if "dialed_to s' j = Some b" for j b
      using that I(2) [of j b] assms(7,9,10) by (auto split: if_splits)
    show "\<exists>b. dialed_to s' j = Some b" if "j \<in> cancelled s'" for j using that I(3) [of j] o assms(8) by auto
    show "streamsRc (rec s') b = int (card (users s' b))" for b using I(4) f p assms(6) by (simp add: u)
    show "streamsCancel (rec s') b = open_streams (rec s') b" for b using I(5) assms(4,5) by simp
    show "open_streams (rec s') b = None \<longleftrightarrow> users s' b = {}" for b using I(6) assms(4) by (simp add: u)
    show "dialed_to s' j = Some b \<and> j \<notin> cancelled s'" if "open_streams (rec s') b = Some j" for b j
    proof (cases "b = a")
      case True
      then show ?thesis using that i assms(4,7,8) by simp
    next
      case False
      then have "open_streams (rec s) b = Some j" using that assms(4) by simp
      then show ?thesis using I(7) o assms(8) by metis
    qed
    show "\<exists>j. st = Some j \<and> dialed_to s' j = Some b \<and> j \<notin> cancelled s'" if "phases s' q = Some (Using b st)" for q b st
    proof (cases "q = p")
      case True
      then have "st = Some i" "b = a" using that assms(2) by simp_all
      then show ?thesis using i assms(7,8) by simp
    next
      case False
      then have "phases s q = Some (Using b st)" using that assms(2) by simp
      then show ?thesis using I(8) o assms(8) by metis
    qed
  qed
qed

text \<open>A use ends.\<close>

lemma rec_end:
  assumes "rec_inv s" "phases s p = Some (Using a st)"
  shows "end_use (rec s) a \<noteq> None"
    and "end_use (rec s) a = Some (rc, c) \<Longrightarrow>
      rec_inv (s\<lparr>rec := rc, phases := (phases s)(p := None), cancelled := cancelled s \<union> set_option c\<rparr>)"
proof -
  note I = rec_invD [OF assms(1)]
  define t where "t = s\<lparr>rec := rc, phases := (phases s)(p := None), cancelled := cancelled s \<union> set_option c\<rparr>"
  have t: "rec t = rc" "phases t = (phases s)(p := None)" "cancelled t = cancelled s \<union> set_option c" "dialed_to t = dialed_to s" "nxt t = nxt s"
    by (simp_all add: t_def)
  have f: "finite (users s a)" using I(1) by (rule users_finite)
  have p: "p \<in> users s a" using assms(2) by (auto simp: users_def)
  have u: "users t b = (if b = a then users s a - {p} else users s b)" for b using assms(2) t(2) by (auto simp: users_def)
  have n: "streamsRc (rec s) a - 1 = int (card (users s a - {p}))"
    using I(4) [of a] card_Suc_Diff1 [OF f p] by simp
  obtain i where "open_streams (rec s) a = Some i" using I(6) [of a] p by blast
  then have i: "open_streams (rec s) a = Some i" "streamsCancel (rec s) a = Some i" "dialed_to s i = Some a" using I(5,7) by simp_all
  show "end_use (rec s) a \<noteq> None" using i(2) by (simp add: end_use_def Let_def)
  assume e: "end_use (rec s) a = Some (rc, c)"
  have "rec_inv t"
  proof (cases "users s a - {p} = {}")
    case True
    have "streamsRc (rec s) a - 1 = 0" unfolding n True by simp
    then have r: "c = Some i" "open_streams rc = (open_streams (rec s))(a := None)" "streamsCancel rc = (streamsCancel (rec s))(a := None)"
      "streamsRc rc = (streamsRc (rec s))(a := 0)" using e i(2) by (auto simp: end_use_def Let_def)
    show ?thesis
    proof (rule rec_invI)
      show "dialed_to t j = Some b \<and> j \<notin> cancelled t" if "open_streams (rec t) b = Some j" for b j
        using that I(7) [of b j] i(3) r t by (auto split: if_splits)
      show "\<exists>j. st' = Some j \<and> dialed_to t j = Some b \<and> j \<notin> cancelled t" if "phases t q = Some (Using b st')" for q b st'
      proof -
        have q: "q \<noteq> p" "phases s q = Some (Using b st')" using that t(2) by (auto split: if_splits)
        then have "b \<noteq> a" using True by (auto simp: users_def)
        moreover obtain j where "st' = Some j" "dialed_to s j = Some b" "j \<notin> cancelled s" using I(8) [OF q(2)] by blast
        ultimately show ?thesis using i(3) r(1) t by auto
      qed
      show "streamsRc (rec t) b = int (card (users t b))" for b using I(4) r t by (simp add: u True)
    qed (use I i True r in \<open>auto simp: u t\<close>)
  next
    case False
    then have "streamsRc (rec s) a - 1 \<noteq> 0" unfolding n using f by simp
    then have r: "c = None" "rc = (rec s)\<lparr>streamsRc := (streamsRc (rec s))(a := streamsRc (rec s) a - 1)\<rparr>"
      using e by (auto simp: end_use_def Let_def)
    show ?thesis
    proof (rule rec_invI)
      show "\<exists>j. st' = Some j \<and> dialed_to t j = Some b \<and> j \<notin> cancelled t" if "phases t q = Some (Using b st')" for q b st'
        using that I(8) [of q b st'] r(1) t by (auto split: if_splits)
      show "streamsRc (rec t) b = int (card (users t b))" for b using I(4) n r t by (simp add: u)
      show "open_streams (rec t) b = None \<longleftrightarrow> users t b = {}" for b
        using I(6) [of b] False p r t by (cases "b = a") (auto simp: u)
      show "dialed_to t j = Some b \<and> j \<notin> cancelled t" if "open_streams (rec t) b = Some j" for b j using that I(7) r t by simp
      show "\<exists>b. dialed_to t j = Some b" if "j \<in> cancelled t" for j using that I(3) r t by simp
    qed (use I(1,2,5) r t in simp_all)
  qed
  then show "rec_inv (s\<lparr>rec := rc, phases := (phases s)(p := None), cancelled := cancelled s \<union> set_option c\<rparr>)" by (simp add: t_def)
qed

lemma rec_begin_reuse:
  assumes "rec_inv s" "phases s p = Some (Holding a mu)" "streamsRc (rec s) a \<noteq> 0"
  shows "rec_inv (s\<lparr>rec := count_up (rec s) a, phases := (phases s)(p \<mapsto> Using a (open_streams (rec s) a)), held := h\<rparr>)"
proof -
  note I = rec_invD [OF assms(1)]
  have "users s a \<noteq> {}" using I(4) [of a] assms(3) by auto
  then obtain i where i: "open_streams (rec s) a = Some i" using I(6) [of a] by blast
  then have j: "streamsCancel (rec s) a = Some i" "dialed_to s i = Some a" "i \<notin> cancelled s" "i < nxt s" using I(2,5,7) by simp_all
  show ?thesis
    by (rule rec_inv_begin [OF assms(1), of _ p a i]) (use assms(2) i j in \<open>simp_all add: uses_def count_up_def fun_upd_idem\<close>)
qed

lemma rec_begin_dialed:
  assumes "rec_inv s" "phases s p = Some (Dialing a mu)"
  shows "rec_inv (s\<lparr>rec := store_stream (rec s) a (nxt s), phases := (phases s)(p \<mapsto> Using a (Some (nxt s))), held := h,
    dialed_to := (dialed_to s)(nxt s \<mapsto> a), nxt := Suc (nxt s)\<rparr>)"
proof -
  have "dialed_to s (nxt s) = None" using rec_invD(2) [OF assms(1), of "nxt s"] by (cases "dialed_to s (nxt s)") auto
  then show ?thesis
    by (intro rec_inv_begin [OF assms(1), of _ p a "nxt s"]) (use assms(2) in \<open>simp_all add: uses_def store_stream_def count_up_def\<close>)
qed

lemma rec_step_inv: "rec_step s (Some s') \<Longrightarrow> rec_inv s \<Longrightarrow> rec_inv s'"
proof (erule rec_step_SomeE, goal_cases)
  case (1 p a rc mu)
  then show ?case
    by (intro rec_inv_idle [of s s' p "Some (Waiting a mu)"]) (auto simp: uses_def address_lock_def split: option.splits)
next
  case (2 p a mu)
  then show ?case by (intro rec_inv_idle [of s s' p "Some (Holding a mu)"]) (simp_all add: uses_def)
next
  case (3 p a mu)
  then show ?case using rec_begin_reuse [of s p a mu "held s - {mu}"] by simp
next
  case (4 p a mu)
  then show ?case by (intro rec_inv_idle [of s s' p "Some (Dialing a mu)"]) (simp_all add: uses_def)
next
  case (5 p a mu)
  then show ?case using rec_begin_dialed [of s p a mu "held s - {mu}"] by simp
next
  case (6 p a mu)
  then show ?case by (intro rec_inv_idle [of s s' p None]) (simp_all add: uses_def)
next
  case (7 p a st rc c)
  then show ?case using rec_end(2) [of s p a st rc c] by simp
qed

lemma rec_init_inv: "rec_inv rec_init"
  by (auto simp: rec_inv_def rec_init_def NewStreamRecycler_def users_def)

text \<open>The recycler never panics, its counter is the number of users, there is a stream in the map exactly while there are users, and
  no stream is closed that somebody uses.\<close>

lemma rec_reach_inv: "rec_reach s \<Longrightarrow> \<exists>s'. s = Some s' \<and> rec_inv s'"
proof (induction rule: rec_reach.induct)
  case RecInit
  then show ?case using rec_init_inv by blast
next
  case (RecNext s s')
  show ?case
  proof (cases s')
    case None
    then obtain p a st where "phases s p = Some (Using a st)" "end_use (rec s) a = None" using RecNext.hyps(2) rec_step_NoneE by metis
    then show ?thesis using rec_end(1) RecNext.IH by blast
  next
    case (Some t)
    then show ?thesis using rec_step_inv RecNext.hyps(2) RecNext.IH by blast
  qed
qed

subsection \<open>A stream that is never closed\<close>

text \<open>The steps as events, so that a run can be computed.\<close>

datatype rec_event = Arrives nat addr | Acquires nat | Looks nat | DialReturns nat bool | Ends nat

fun rec_exec :: "rec_event \<Rightarrow> rec_sys \<Rightarrow> rec_sys option" where
  "rec_exec (Arrives p a) s =
     (if phases s p \<noteq> None then None
      else (case address_lock (rec s) a (nxt s) of
        (rc, mu) \<Rightarrow> Some (s\<lparr>rec := rc, phases := (phases s)(p \<mapsto> Waiting a mu), nxt := Suc (nxt s)\<rparr>)))"
| "rec_exec (Acquires p) s =
     (case phases s p of
        Some (Waiting a mu) \<Rightarrow>
          if mu \<in> held s then None else Some (s\<lparr>phases := (phases s)(p \<mapsto> Holding a mu), held := insert mu (held s)\<rparr>)
      | _ \<Rightarrow> None)"
| "rec_exec (Looks p) s =
     (case phases s p of
        Some (Holding a mu) \<Rightarrow>
          Some (if streamsRc (rec s) a = 0 then s\<lparr>phases := (phases s)(p \<mapsto> Dialing a mu)\<rparr>
            else s\<lparr>rec := count_up (rec s) a, phases := (phases s)(p \<mapsto> Using a (open_streams (rec s) a)), held := held s - {mu}\<rparr>)
      | _ \<Rightarrow> None)"
| "rec_exec (DialReturns p ok) s =
     (case phases s p of
        Some (Dialing a mu) \<Rightarrow>
          Some (if ok then s\<lparr>rec := store_stream (rec s) a (nxt s), phases := (phases s)(p \<mapsto> Using a (Some (nxt s))), held := held s - {mu},
              dialed_to := (dialed_to s)(nxt s \<mapsto> a), nxt := Suc (nxt s)\<rparr>
            else s\<lparr>phases := (phases s)(p := None), held := held s - {mu}\<rparr>)
      | _ \<Rightarrow> None)"
| "rec_exec (Ends p) s =
     (case phases s p of
        Some (Using a st) \<Rightarrow>
          map_option (\<lambda>(rc, c). s\<lparr>rec := rc, phases := (phases s)(p := None), cancelled := cancelled s \<union> set_option c\<rparr>) (end_use (rec s) a)
      | _ \<Rightarrow> None)"

fun rec_execs :: "rec_event list \<Rightarrow> rec_sys \<Rightarrow> rec_sys option" where
  "rec_execs [] s = Some s"
| "rec_execs (ev # evs) s = Option.bind (rec_exec ev s) (rec_execs evs)"

lemma rec_exec_step: "rec_exec ev s = Some s' \<Longrightarrow> rec_step s (Some s')"
  by (cases ev) (auto split: option.splits phase.splits if_splits prod.splits intro: rec_step.intros)

lemma rec_execs_reach: "rec_execs evs s = Some s' \<Longrightarrow> rec_reach (Some s) \<Longrightarrow> rec_reach (Some s')"
proof (induction evs arbitrary: s)
  case (Cons ev evs)
  then obtain t where t: "rec_exec ev s = Some t" "rec_execs evs t = Some s'" by (auto simp: bind_eq_Some_conv)
  then show ?case using Cons.IH Cons.prems(2) RecNext rec_exec_step by blast
qed simp

text \<open>The lock of an address is thrown away with the last use, also while a call waits for it. That call and the next one hold
  different locks and both dial; the second stream replaces the first, which nobody can close any more.\<close>

definition leak_run :: "addr \<Rightarrow> rec_event list" where
  "leak_run a = [Arrives 0 a, Acquires 0, Looks 0, DialReturns 0 True, Arrives 1 a, Acquires 1, Ends 0, Looks 1, Arrives 2 a, Acquires 2, Looks 2,
     DialReturns 1 True, DialReturns 2 True, Ends 1, Ends 2]"

lemmas rec_exec_defs = rec_init_def NewStreamRecycler_def address_lock_def count_up_def store_stream_def end_use_def

lemma recycler_leaks:
  "\<exists>s i. rec_reach (Some s) \<and> phases s = Map.empty \<and> open_streams (rec s) = Map.empty \<and> streamsCancel (rec s) = Map.empty \<and>
    dialed_to s i = Some a \<and> i \<notin> cancelled s"
proof -
  have "\<exists>s. rec_execs (leak_run a) rec_init = Some s \<and> phases s = Map.empty \<and> open_streams (rec s) = Map.empty \<and>
      streamsCancel (rec s) = Map.empty \<and> dialed_to s 4 = Some a \<and> 4 \<notin> cancelled s"
    by (simp add: leak_run_def rec_exec_defs Let_def fun_eq_iff)
  then show ?thesis using rec_execs_reach RecInit by blast
qed

subsection \<open>The hub\<close>

text \<open>A stream of the hub is a pair of channels with a flag that both ends share; channels and flags are numbers. Locks are left out;
  \<^verbatim>\<open>Send\<close> and \<^verbatim>\<open>Recv\<close> meet in one step, because the channels are not buffered.\<close>

record channel_stream =
  SendCh :: nat
  RecvCh :: nat
  ClosedRef :: nat

record hub =
  conns :: "addr \<rightharpoonup> (addr \<rightharpoonup> channel_stream)"
  closed_refs :: "nat set"
  hub_next :: nat

definition NewChannelHub :: hub where
  "NewChannelHub = \<lparr>conns = Map.empty, closed_refs = {}, hub_next = 0\<rparr>"

definition conn :: "hub \<Rightarrow> addr \<Rightarrow> addr \<Rightarrow> channel_stream option" where
  "conn h a b = Option.bind (conns h a) (\<lambda>m. m b)"

definition init_conns :: "hub \<Rightarrow> addr \<Rightarrow> hub" where
  "init_conns h a = (case conns h a of Some _ \<Rightarrow> h | None \<Rightarrow> h\<lparr>conns := (conns h)(a \<mapsto> Map.empty)\<rparr>)"

definition set_conn :: "hub \<Rightarrow> addr \<Rightarrow> addr \<Rightarrow> channel_stream \<Rightarrow> hub" where
  "set_conn h a b st = h\<lparr>conns := (conns h)(a := map_option (\<lambda>m. m(b \<mapsto> st)) (conns h a))\<rparr>"

definition reverse_stream :: "channel_stream \<Rightarrow> channel_stream" where
  "reverse_stream st = \<lparr>SendCh = RecvCh st, RecvCh = SendCh st, ClosedRef = ClosedRef st\<rparr>"

definition hub_register :: "hub \<Rightarrow> addr \<Rightarrow> addr \<Rightarrow> (hub \<times> channel_stream) option" where
  "hub_register h clientAddr serverAddr =
     (let h = init_conns (init_conns h clientAddr) serverAddr
      in case (conn h clientAddr serverAddr, conn h serverAddr clientAddr) of
           (Some st, Some _) \<Rightarrow> Some (h, st)
         | (None, None) \<Rightarrow>
             let n = hub_next h;
                 st = \<lparr>SendCh = n, RecvCh = Suc n, ClosedRef = n\<rparr>;
                 h = set_conn h clientAddr serverAddr st;
                 h = set_conn h serverAddr clientAddr (reverse_stream st)
             in Some (h\<lparr>hub_next := n + 2\<rparr>, the (conn h clientAddr serverAddr))
         | _ \<Rightarrow> None)"

definition channel_Close :: "hub \<Rightarrow> channel_stream \<Rightarrow> hub" where
  "channel_Close h st = h\<lparr>closed_refs := insert (ClosedRef st) (closed_refs h)\<rparr>"

text \<open>What \<^verbatim>\<open>channelStreamer.Open\<close> returns at once; when its context ends, the stream is closed.\<close>

definition channelStreamer_Open :: "hub \<Rightarrow> addr \<Rightarrow> addr \<Rightarrow> (hub \<times> channel_stream \<times> (hub \<Rightarrow> hub)) option" where
  "channelStreamer_Open h self addr = map_option (\<lambda>(h, st). (h, st, \<lambda>h. channel_Close h st)) (hub_register h self addr)"

datatype 'e channel_error = ErrSendOnClosedStream | ErrRecvOnClosedStream | ErrMessage 'e

definition channel_Send :: "('m \<Rightarrow> 'e + bytes) \<Rightarrow> hub \<Rightarrow> channel_stream \<Rightarrow> 'm \<Rightarrow> 'e channel_error + nat \<times> bytes" where
  "channel_Send marshal h st message =
     (if ClosedRef st \<in> closed_refs h then Inl ErrSendOnClosedStream
      else (case marshal message of Inl e \<Rightarrow> Inl (ErrMessage e) | Inr data \<Rightarrow> Inr (SendCh st, data)))"

text \<open>A receiver takes what is offered on its channel.\<close>

definition channel_Recv :: "(bytes \<Rightarrow> 'e + 'm) \<Rightarrow> hub \<Rightarrow> channel_stream \<Rightarrow> nat \<times> bytes \<Rightarrow> ('e channel_error + 'm) option" where
  "channel_Recv unmarshal h st offer =
     (if ClosedRef st \<in> closed_refs h then Some (Inl ErrRecvOnClosedStream)
      else if RecvCh st \<noteq> fst offer then None
      else Some (map_sum ErrMessage id (unmarshal (snd offer))))"

text \<open>The connections are symmetric: the invariant that \<^verbatim>\<open>register\<close> checks.\<close>

definition hub_ok :: "hub \<Rightarrow> bool" where
  "hub_ok h \<longleftrightarrow> (\<forall>a b st. a \<noteq> b \<longrightarrow> conn h a b = Some st \<longrightarrow> conn h b a = Some (reverse_stream st))"

lemma reverse_reverse: "reverse_stream (reverse_stream st) = st"
  by (simp add: reverse_stream_def)

lemma conn_init: "conn (init_conns h c) a b = conn h a b" "closed_refs (init_conns h c) = closed_refs h" "hub_next (init_conns h c) = hub_next h"
  "conns (init_conns h c) c \<noteq> None" "conns h a \<noteq> None \<Longrightarrow> conns (init_conns h c) a \<noteq> None"
  by (auto simp: conn_def init_conns_def split: option.splits)

lemma conn_set: "conns h a \<noteq> None \<Longrightarrow> conn (set_conn h a b st) c d = (if c = a \<and> d = b then Some st else conn h c d)"
  "conns (set_conn h a b st) c = None \<longleftrightarrow> conns h c = None" "closed_refs (set_conn h a b st) = closed_refs h"
  by (auto simp: conn_def set_conn_def)

lemma hub_register_ok:
  assumes "hub_ok h" "c \<noteq> d"
  shows "\<exists>h' st. hub_register h c d = Some (h', st) \<and> hub_ok h' \<and> conn h' c d = Some st \<and> conn h' d c = Some (reverse_stream st) \<and>
    closed_refs h' = closed_refs h \<and> (\<forall>st'. conn h c d = Some st' \<longrightarrow> st = st' \<and> conn h' = conn h)"
proof -
  define g where "g = init_conns (init_conns h c) d"
  have g: "\<And>a b. conn g a b = conn h a b" "closed_refs g = closed_refs h" "conns g c \<noteq> None" "conns g d \<noteq> None"
    using conn_init(4,5) by (simp_all add: g_def conn_init)
  show ?thesis
  proof (cases "conn h c d")
    case (Some st)
    then have "conn h d c = Some (reverse_stream st)" using assms unfolding hub_ok_def by blast
    then show ?thesis using Some g assms(1) by (auto simp: hub_register_def Let_def g_def [symmetric] hub_ok_def fun_eq_iff)
  next
    case None
    then have n: "conn h d c = None" using assms unfolding hub_ok_def by (metis not_None_eq option.distinct(1))
    let ?st = "\<lparr>SendCh = hub_next g, RecvCh = Suc (hub_next g), ClosedRef = hub_next g\<rparr>"
    let ?h = "set_conn (set_conn g c d ?st) d c (reverse_stream ?st)"
    have k: "conn ?h a b = (if a = d \<and> b = c then Some (reverse_stream ?st) else if a = c \<and> b = d then Some ?st else conn h a b)" for a b
      using g by (simp add: conn_set)
    have "conn (?h\<lparr>hub_next := i\<rparr>) = conn ?h" for i by (simp add: conn_def fun_eq_iff)
    then show ?thesis using None n g assms k
      by (auto simp: hub_register_def Let_def g_def [symmetric] hub_ok_def conn_set reverse_reverse)
  qed
qed

text \<open>A message that is sent on one end is received at the other.\<close>

lemma channel_delivers:
  assumes "conn h a b = Some st" "conn h b a = Some (reverse_stream st)" "ClosedRef st \<notin> closed_refs h" "marshal m = Inr data" "unmarshal data = Inr m"
  shows "\<exists>offer. channel_Send marshal h st m = Inr offer \<and> channel_Recv unmarshal h (reverse_stream st) offer = Some (Inr m)"
  using assms by (simp add: channel_Send_def channel_Recv_def reverse_stream_def)

text \<open>A stream stays in the hub when it is closed: opened again, it is closed still, at both ends.\<close>

lemma closed_stays:
  assumes "hub_ok h" "c \<noteq> d" "conn h c d = Some st"
  shows "\<exists>h'. hub_register (channel_Close h st) c d = Some (h', st) \<and> channel_Send marshal h' st m = Inl ErrSendOnClosedStream \<and>
    channel_Send marshal h' (reverse_stream st) m = Inl ErrSendOnClosedStream"
proof -
  have "hub_ok (channel_Close h st)" "conn (channel_Close h st) c d = Some st"
    using assms by (simp_all add: hub_ok_def channel_Close_def conn_def)
  then obtain h' where "hub_register (channel_Close h st) c d = Some (h', st)" "closed_refs h' = closed_refs (channel_Close h st)"
    using hub_register_ok [of "channel_Close h st" c d] assms(2) by auto
  then show ?thesis by (simp add: channel_Send_def channel_Close_def reverse_stream_def)
qed

text \<open>The other side gets the other end of the same stream, and either side closes it for both.\<close>

lemma channelStreamer_symmetric:
  assumes "hub_ok h" "a \<noteq> b" "channelStreamer_Open h a b = Some (h1, st, cl)"
  shows "\<exists>cl'. channelStreamer_Open h1 b a = Some (h1, reverse_stream st, cl') \<and> cl h1 = cl' h1"
proof -
  have r: "hub_register h a b = Some (h1, st)" "cl = (\<lambda>h. channel_Close h st)" using assms(3) by (auto simp: channelStreamer_Open_def)
  then have c: "hub_ok h1" "conn h1 a b = Some st" "conn h1 b a = Some (reverse_stream st)" using hub_register_ok [OF assms(1,2)] by auto
  then have "conns h1 a \<noteq> None" "conns h1 b \<noteq> None" by (auto simp: conn_def bind_eq_Some_conv)
  then have "hub_register h1 b a = Some (h1, reverse_stream st)"
    using c(2,3) by (auto simp: hub_register_def init_conns_def Let_def split: option.splits)
  then show ?thesis using r(2) by (simp add: channelStreamer_Open_def channel_Close_def reverse_stream_def)
qed

end
