(* ===== verification/Transact.thy ===== *)
theory Transact
  imports Contract_Binder
begin

section \<open>Transactions of an account: \<^verbatim>\<open>contract/transact\<close>, \<^verbatim>\<open>contract/ethereum.go\<close>, \<^verbatim>\<open>contract/config.go\<close>\<close>

text \<open>
  A transacter sends the transactions of one account, as the binder does, but with a context, and with options that a caller may
  set for one transaction. The nonce is a pointer to an integer that is changed in place, so integers with an identity
  matter: they are numbers into a store. The options that a transaction is built from are read through the store.

  \<open>env\<close> is the client and the clock: the nonce that the client reports, whether the context is done, and the wait of a second, which
  the end of the context cuts short. \<open>None\<close> is a call that does not return.
\<close>

subsection \<open>State\<close>

record transacter =
  NonceRef :: nat
  TrValue :: "int option"
  TrGasPrice :: "int option"
  TrGasLimit :: u64

record 'w tr_state =
  ints :: "nat \<Rightarrow> int"
  fresh_int :: nat
  world :: 'w

record built_opts =
  BNonce :: int
  BValue :: "int option"
  BGasPrice :: "int option"
  BGasLimit :: u64

record 'w tr_env =
  pending_nonce :: "'w \<Rightarrow> 'w \<times> (tx_error + u64)"
  ctx_err :: "'w \<Rightarrow> string option"
  wait_second :: "'w \<Rightarrow> 'w \<times> string option"

datatype transact_error = ErrContext string | ErrTransact tx_error

type_synonym ('w, 'tx) build = "built_opts \<Rightarrow> 'w \<Rightarrow> 'w \<times> (tx_error + 'tx)"

text \<open>A new integer.\<close>

definition new_int :: "int \<Rightarrow> 'w tr_state \<Rightarrow> 'w tr_state \<times> nat" where
  "new_int n st = (st\<lparr>ints := (ints st)(fresh_int st := n), fresh_int := Suc (fresh_int st)\<rparr>, fresh_int st)"

definition NewTransacter :: "'w tr_env \<Rightarrow> int option \<Rightarrow> int option \<Rightarrow> u64 \<Rightarrow> 'w tr_state \<Rightarrow> 'w tr_state \<times> (tx_error + transacter)" where
  "NewTransacter env val gasPrice gasLimit st =
     (case pending_nonce env (world st) of
        (w, Inl err) \<Rightarrow> (st\<lparr>world := w\<rparr>, Inl err)
      | (w, Inr nonce) \<Rightarrow>
          (case new_int (uint nonce) (st\<lparr>world := w\<rparr>) of
             (st, r) \<Rightarrow> (st, Inr \<lparr>NonceRef = r, TrValue = val, TrGasPrice = gasPrice, TrGasLimit = gasLimit\<rparr>)))"

subsection \<open>Transacting\<close>

definition built :: "transacter \<Rightarrow> 'w tr_state \<Rightarrow> built_opts" where
  "built t st = \<lparr>BNonce = ints st (NonceRef t), BValue = TrValue t, BGasPrice = TrGasPrice t, BGasLimit = TrGasLimit t\<rparr>"

definition add_nonce :: "transacter \<Rightarrow> int \<Rightarrow> 'w tr_state \<Rightarrow> 'w tr_state" where
  "add_nonce t d st = st\<lparr>ints := (ints st)(NonceRef t := ints st (NonceRef t) + d)\<rparr>"

fun transact_refresh ::
    "'w tr_env \<Rightarrow> ('w, 'tx) build \<Rightarrow> nat \<Rightarrow> transacter \<Rightarrow> 'w tr_state \<Rightarrow> tx_error \<Rightarrow> 'w tr_state \<times> transacter \<times> (transact_error + 'tx)" where
  "transact_refresh env buildTx 0 t st err = (st, t, Inl (ErrTransact err))"
| "transact_refresh env buildTx (Suc k) t st err =
     (if \<not> mentions_nonce err then (st, t, Inl (ErrTransact err))
      else
        (case wait_second env (world st) of
           (w, Some e) \<Rightarrow> (st\<lparr>world := w\<rparr>, t, Inl (ErrContext e))
         | (w, None) \<Rightarrow>
             (case pending_nonce env w of
                (w, Inl err) \<Rightarrow> transact_refresh env buildTx k t (st\<lparr>world := w\<rparr>) err
              | (w, Inr nonce) \<Rightarrow>
                  (case new_int (sint nonce) (st\<lparr>world := w\<rparr>) of
                     (st, r) \<Rightarrow>
                       let t = t\<lparr>NonceRef := r\<rparr>
                       in (case buildTx (built t st) (world st) of
                             (w, Inr tx) \<Rightarrow> (add_nonce t 1 (st\<lparr>world := w\<rparr>), t, Inr tx)
                           | (w, Inl err) \<Rightarrow> transact_refresh env buildTx k t (st\<lparr>world := w\<rparr>) err)))))"

partial_function (option) transact ::
    "'w tr_env \<Rightarrow> ('w, 'tx) build \<Rightarrow> transacter \<Rightarrow> 'w tr_state \<Rightarrow> ('w tr_state \<times> transacter \<times> (transact_error + 'tx)) option" where
  "transact env buildTx t st =
     (case ctx_err env (world st) of
        Some e \<Rightarrow> Some (st, t, Inl (ErrContext e))
      | None \<Rightarrow>
          (case buildTx (built t st) (world st) of
             (w, r) \<Rightarrow>
               (case r of
                  Inr tx \<Rightarrow> Some (add_nonce t 1 (st\<lparr>world := w\<rparr>), t, Inr tx)
                | Inl err \<Rightarrow>
                    if err = NonceTooLow \<or> err = ReplaceUnderpriced then transact env buildTx t (add_nonce t 1 (st\<lparr>world := w\<rparr>))
                    else if err = NonceTooHigh then transact env buildTx t (add_nonce t (-1) (st\<lparr>world := w\<rparr>))
                    else Some (transact_refresh env buildTx 60 t (st\<lparr>world := w\<rparr>) err))))"

text \<open>\<^verbatim>\<open>Transfer\<close> sets the value and the gas limit for its transaction, \<^verbatim>\<open>TransactWithValue\<close> what it is given; both restore what was
  there. The nonce that is given is an integer of the caller.\<close>

definition Transacter_Transfer ::
    "'w tr_env \<Rightarrow> ('w, 'tx) build \<Rightarrow> int \<Rightarrow> transacter \<Rightarrow> 'w tr_state \<Rightarrow> ('w tr_state \<times> transacter \<times> (transact_error + 'tx)) option" where
  "Transacter_Transfer env transfer val t st =
     map_option (\<lambda>(st, t', r). (st, t'\<lparr>TrValue := TrValue t, TrGasLimit := TrGasLimit t\<rparr>, r))
       (transact env transfer (t\<lparr>TrValue := Some val, TrGasLimit := 21000\<rparr>) st)"

definition Transacter_TransactWithValue ::
    "'w tr_env \<Rightarrow> ('w, 'tx) build \<Rightarrow> nat option \<Rightarrow> int option \<Rightarrow> int option \<Rightarrow> u64 \<Rightarrow> transacter \<Rightarrow> 'w tr_state \<Rightarrow>
     ('w tr_state \<times> transacter \<times> (transact_error + 'tx)) option" where
  "Transacter_TransactWithValue env buildTx nonce val gasPrice gasLimit t st =
     (let t0 = \<lparr>NonceRef = (case nonce of None \<Rightarrow> NonceRef t | Some r \<Rightarrow> r), TrValue = (case val of None \<Rightarrow> TrValue t | Some v \<Rightarrow> Some v),
            TrGasPrice = (case gasPrice of None \<Rightarrow> TrGasPrice t | Some p \<Rightarrow> Some p),
            TrGasLimit = (if gasLimit \<noteq> 0 then gasLimit else TrGasLimit t)\<rparr>
      in map_option (\<lambda>(st, t', r). (st, t, r)) (transact env buildTx t0 st))"

subsection \<open>Transacting is what the binder does\<close>

text \<open>With a context that does not end, \<^verbatim>\<open>transact\<close> sends what \<^verbatim>\<open>Binder.sendTx\<close> sends: the same calls with the same nonces, and it knows
  the same next nonce. The nonces that the client reports are below \<open>2 ^ 63\<close>.\<close>

definition endless :: "'w tr_env \<Rightarrow> bool" where
  "endless env \<longleftrightarrow> (\<forall>w. ctx_err env w = None \<and> snd (wait_second env w) = None) \<and>
     (\<forall>w w' n. pending_nonce env w = (w', Inr n) \<longrightarrow> unat n < 2 ^ 63)"

definition waited_pending :: "'w tr_env \<Rightarrow> 'w \<Rightarrow> 'w \<times> (tx_error + nat)" where
  "waited_pending env w = (case pending_nonce env (fst (wait_second env w)) of (w, r) \<Rightarrow> (w, map_sum id unat r))"

definition nonce_send :: "('w, 'tx) build \<Rightarrow> transacter \<Rightarrow> 'w \<Rightarrow> int \<Rightarrow> 'w \<times> (tx_error + 'tx)" where
  "nonce_send buildTx t w n =
     buildTx \<lparr>BNonce = n, BValue = TrValue t, BGasPrice = TrGasPrice t, BGasLimit = TrGasLimit t\<rparr> w"

text \<open>What is seen of a result: the world, the next nonce, the answer.\<close>

fun seen :: "'w tr_state \<times> transacter \<times> (transact_error + 'tx) \<Rightarrow> 'w \<times> int \<times> (transact_error + 'tx)" where
  "seen (st, t, r) = (world st, ints st (NonceRef t), r)"

definition as_transact :: "'w \<times> int \<times> (tx_error + 'tx) \<Rightarrow> 'w \<times> int \<times> (transact_error + 'tx)" where
  "as_transact x = (case x of (w, n, r) \<Rightarrow> (w, n, map_sum ErrTransact id r))"

lemma nonce_send_ref: "nonce_send buildTx (t\<lparr>NonceRef := r\<rparr>) = nonce_send buildTx t"
  by (simp add: nonce_send_def fun_eq_iff)

lemma built_send: "buildTx (built t st) (world st) = nonce_send buildTx t (world st) (ints st (NonceRef t))"
  by (simp add: built_def nonce_send_def)

lemma sint_nat_small: "m < 2 ^ 63 \<Longrightarrow> sint (word_of_nat m :: u64) = int m"
  by (simp add: signed_of_nat signed_take_bit_int_eq_self)

lemma sint_unat_small: "unat (n :: u64) < 2 ^ 63 \<Longrightarrow> sint n = int (unat n)"
  using sint_nat_small [of "unat n"] by simp

lemma transact_refresh_seen:
  assumes "endless env"
  shows "seen (transact_refresh env buildTx k t st err) =
    as_transact (refresh_loop (nonce_send buildTx t) (waited_pending env) k (world st) (ints st (NonceRef t)) err)"
proof (induction k arbitrary: t st err)
  case (Suc k)
  obtain w1 where w1: "wait_second env (world st) = (w1, None)" using assms unfolding endless_def by (metis prod.collapse)
  obtain w2 p where p: "pending_nonce env w1 = (w2, p)" by fastforce
  have wp: "waited_pending env (world st) = (w2, map_sum id unat p)" using w1 p by (simp add: waited_pending_def)
  show ?case
  proof (cases p)
    case (Inl e)
    then show ?thesis using w1 p wp Suc.IH [of t "st\<lparr>world := w2\<rparr>" e] by (simp add: as_transact_def)
  next
    case (Inr n)
    then have n: "sint n = int (unat n)" using p assms sint_unat_small unfolding endless_def by blast
    let ?t = "t\<lparr>NonceRef := fresh_int st\<rparr>"
    let ?st = "st\<lparr>world := w2, ints := (ints st)(fresh_int st := int (unat n)), fresh_int := Suc (fresh_int st)\<rparr>"
    obtain w3 r where r: "nonce_send buildTx t w2 (int (unat n)) = (w3, r)" by fastforce
    have b: "buildTx (built ?t ?st) (world ?st) = (w3, r)" unfolding built_send using r by (simp add: nonce_send_ref)
    show ?thesis
      using w1 p wp Inr n r b Suc.IH [of ?t "?st\<lparr>world := w3\<rparr>"]
      by (cases r) (simp_all add: as_transact_def new_int_def Let_def add_nonce_def nonce_send_ref)
  qed
qed (simp add: as_transact_def)

lemma transact_gives_sendTx:
  assumes "transact env buildTx t st = Some x" "endless env"
  shows "\<exists>y. sendTx (nonce_send buildTx t) (waited_pending env) (world st) (ints st (NonceRef t)) = Some y \<and> seen x = as_transact y"
proof -
  have "endless env \<longrightarrow> (\<exists>y. sendTx (nonce_send buildTx t) (waited_pending env) (world st) (ints st (NonceRef t)) = Some y \<and> seen x = as_transact y)"
  proof (rule transact.raw_induct [where P = "\<lambda>env buildTx t st x. endless env \<longrightarrow>
        (\<exists>y. sendTx (nonce_send buildTx t) (waited_pending env) (world st) (ints st (NonceRef t)) = Some y \<and> seen x = as_transact y)", OF _ assms(1)])
    fix tr and env :: "'a tr_env" and buildTx :: "('a, 'b) build" and t st x
    assume IH: "\<And>env (buildTx :: ('a, 'b) build) t st x. tr env buildTx t st = Some x \<Longrightarrow> endless env \<longrightarrow>
        (\<exists>y. sendTx (nonce_send buildTx t) (waited_pending env) (world st) (ints st (NonceRef t)) = Some y \<and> seen x = as_transact y)"
      and eq: "(case ctx_err env (world st) of Some e \<Rightarrow> Some (st, t, Inl (ErrContext e)) | None \<Rightarrow>
        (case buildTx (built t st) (world st) of (w, r) \<Rightarrow> (case r of Inr tx \<Rightarrow> Some (add_nonce t 1 (st\<lparr>world := w\<rparr>), t, Inr tx)
          | Inl err \<Rightarrow> if err = NonceTooLow \<or> err = ReplaceUnderpriced then tr env buildTx t (add_nonce t 1 (st\<lparr>world := w\<rparr>))
              else if err = NonceTooHigh then tr env buildTx t (add_nonce t (- 1) (st\<lparr>world := w\<rparr>))
              else Some (transact_refresh env buildTx 60 t (st\<lparr>world := w\<rparr>) err)))) = Some x"
    show "endless env \<longrightarrow>
        (\<exists>y. sendTx (nonce_send buildTx t) (waited_pending env) (world st) (ints st (NonceRef t)) = Some y \<and> seen x = as_transact y)"
    proof
      assume en: "endless env"
      then have c: "ctx_err env (world st) = None" unfolding endless_def by blast
      obtain w r where b: "nonce_send buildTx t (world st) (ints st (NonceRef t)) = (w, r)" by fastforce
      note b' = b [folded built_send]
      show "\<exists>y. sendTx (nonce_send buildTx t) (waited_pending env) (world st) (ints st (NonceRef t)) = Some y \<and> seen x = as_transact y"
      proof (cases r)
        case (Inr tx)
        then show ?thesis using eq c b b' by (subst sendTx.simps) (auto simp: add_nonce_def as_transact_def)
      next
        case (Inl err)
        consider "err = NonceTooLow \<or> err = ReplaceUnderpriced" | "err = NonceTooHigh"
          | "err \<noteq> NonceTooLow" "err \<noteq> ReplaceUnderpriced" "err \<noteq> NonceTooHigh" by blast
        then show ?thesis
        proof cases
          case 1
          then show ?thesis using eq c b b' Inl en IH [of env buildTx t "add_nonce t 1 (st\<lparr>world := w\<rparr>)" x]
            by (subst sendTx.simps) (auto simp: add_nonce_def)
        next
          case 2
          then show ?thesis using eq c b b' Inl en IH [of env buildTx t "add_nonce t (- 1) (st\<lparr>world := w\<rparr>)" x]
            by (subst sendTx.simps) (auto simp: add_nonce_def)
        next
          case 3
          then show ?thesis using eq c b b' Inl transact_refresh_seen [OF en, of buildTx 60 t "st\<lparr>world := w\<rparr>" err]
            by (subst sendTx.simps) auto
        qed
      qed
    qed
  qed
  then show ?thesis using assms(2) by blast
qed

lemma sendTx_gives_transact:
  assumes "sendTx (nonce_send buildTx t) (waited_pending env) (world st) (ints st (NonceRef t)) = Some y" "endless env"
  shows "\<exists>x. transact env buildTx t st = Some x"
proof -
  let ?P = "\<lambda>send pending w n (y :: 'a \<times> int \<times> (tx_error + 'b)). \<forall>(st :: 'a tr_state). send = nonce_send buildTx t \<longrightarrow> w = world st \<longrightarrow> n = ints st (NonceRef t) \<longrightarrow>
      (\<exists>x. transact env buildTx t st = Some x)"
  have "?P (nonce_send buildTx t) (waited_pending env) (world st) (ints st (NonceRef t)) y"
  proof (rule sendTx.raw_induct [where P = ?P, OF _ assms(1)])
    fix tr and send :: "'a \<Rightarrow> int \<Rightarrow> 'a \<times> (tx_error + 'b)" and pending w n y
    assume IH: "\<And>(send :: 'a \<Rightarrow> int \<Rightarrow> 'a \<times> (tx_error + 'b)) pending w n y. tr send pending w n = Some y \<Longrightarrow> ?P send pending w n y"
      and eq: "(case send w n of (w, r) \<Rightarrow> (case r of Inr tx \<Rightarrow> Some (w, n + 1, Inr tx)
        | Inl e \<Rightarrow> if e = NonceTooLow \<or> e = ReplaceUnderpriced then tr send pending w (n + 1)
            else if e = NonceTooHigh then tr send pending w (n - 1) else Some (refresh_loop send pending 60 w n e))) = Some y"
    show "?P send pending w n y"
    proof (intro allI impI)
      fix st :: "'a tr_state"
      assume h: "send = nonce_send buildTx t" "w = world st" "n = ints st (NonceRef t)"
      have c: "ctx_err env (world st) = None" using assms(2) unfolding endless_def by blast
      obtain w' r where b: "nonce_send buildTx t (world st) (ints st (NonceRef t)) = (w', r)" by fastforce
      show "\<exists>x. transact env buildTx t st = Some x"
        using eq h c b b [folded built_send] IH [of send pending w' "n + 1" y] IH [of send pending w' "n - 1" y]
        by (subst transact.simps)
          (auto simp del: split_paired_Ex simp: add_nonce_def split: sum.splits if_splits dest: spec [of _ "add_nonce t 1 (st\<lparr>world := w'\<rparr>)"] spec [of _ "add_nonce t (- 1) (st\<lparr>world := w'\<rparr>)"])
    qed
  qed
  then show ?thesis by blast
qed

lemma transact_sendTx:
  assumes "endless env"
  shows "map_option seen (transact env buildTx t st) =
    map_option as_transact (sendTx (nonce_send buildTx t) (waited_pending env) (world st) (ints st (NonceRef t)))"
proof (cases "transact env buildTx t st")
  case None
  then have "sendTx (nonce_send buildTx t) (waited_pending env) (world st) (ints st (NonceRef t)) = None"
    using sendTx_gives_transact [OF _ assms] by (metis not_None_eq)
  then show ?thesis using None by simp
next
  case (Some x)
  then show ?thesis using transact_gives_sendTx [OF Some assms] by auto
qed

subsection \<open>An account\<close>

text \<open>When transactions are accepted in the order of their nonces only, the transaction is sent with the right nonce whatever nonce
  the transacter has, and the integer of the nonce is the next one then.\<close>

lemma transact_account:
  assumes "account next (nonce_send buildTx t)" "endless env" "nonce_send buildTx t (world st) (next (world st)) = (w, r)"
  shows "transact env buildTx t st =
    Some (st\<lparr>world := w, ints := (ints st)(NonceRef t := next w)\<rparr>, t, map_sum ErrTransact id r)"
  using assms(3)
proof (induction "nat \<bar>next (world st) - ints st (NonceRef t)\<bar>" arbitrary: st)
  case 0
  then have n: "ints st (NonceRef t) = next (world st)" by simp
  have c: "ctx_err env (world st) = None" using assms(2) unfolding endless_def by blast
  have a: "answered next (world st) (next (world st)) (w, r)" using assms(1) 0(2) unfolding account_def by metis
  have b: "buildTx (built t st) (world st) = (w, r)" unfolding built_send n by (rule 0(2))
  have u: "(ints st)(NonceRef t := next (world st)) = ints st" by (simp flip: n)
  show ?case
    using a b c n u by (subst transact.simps; cases r) (auto simp: answered_def add_nonce_def numeral_eq_Suc)
next
  case (Suc d)
  have c: "ctx_err env (world st) = None" using assms(2) unfolding endless_def by blast
  have a: "answered next (world st) (ints st (NonceRef t)) (nonce_send buildTx t (world st) (ints st (NonceRef t)))"
    using assms(1) unfolding account_def by blast
  have eq: "st\<lparr>world := world st\<rparr> = st" by simp
  consider "ints st (NonceRef t) < next (world st)" | "next (world st) < ints st (NonceRef t)"
    using Suc.hyps(2) by (cases "ints st (NonceRef t)" "next (world st)" rule: linorder_cases) auto
  then show ?case
  proof cases
    case 1
    then have "buildTx (built t st) (world st) = (world st, Inl NonceTooLow)" using a unfolding built_send answered_def by blast
    moreover have "d = nat \<bar>next (world st) - (ints st (NonceRef t) + 1)\<bar>" using Suc.hyps(2) 1 by linarith
    ultimately show ?thesis using c Suc.hyps(1) [of "add_nonce t 1 st"] Suc.prems by (subst transact.simps) (simp add: add_nonce_def)
  next
    case 2
    then have "buildTx (built t st) (world st) = (world st, Inl NonceTooHigh)" using a unfolding built_send answered_def by blast
    moreover have "d = nat \<bar>next (world st) - (ints st (NonceRef t) - 1)\<bar>" using Suc.hyps(2) 2 by linarith
    ultimately show ?thesis using c Suc.hyps(1) [of "add_nonce t (- 1) st"] Suc.prems by (subst transact.simps) (simp add: add_nonce_def)
  qed
qed

text \<open>A transfer leaves the options as they were.\<close>

lemma Transfer_account:
  assumes "account next (nonce_send transfer (t\<lparr>TrValue := Some val, TrGasLimit := 21000\<rparr>))" "endless env"
    "transfer \<lparr>BNonce = next (world st), BValue = Some val, BGasPrice = TrGasPrice t, BGasLimit = 21000\<rparr> (world st) = (w, r)"
  shows "Transacter_Transfer env transfer val t st =
    Some (st\<lparr>world := w, ints := (ints st)(NonceRef t := next w)\<rparr>, t, map_sum ErrTransact id r)"
  using transact_account [OF assms(1,2), of st w r] assms(3) by (simp add: Transacter_Transfer_def nonce_send_def)

text \<open>With a nonce of its own, the caller's integer is changed, and the transacter does not learn of the transaction.\<close>

lemma TransactWithValue_account:
  assumes "account next (nonce_send buildTx \<lparr>NonceRef = n, TrValue = val, TrGasPrice = gasPrice, TrGasLimit = gasLimit\<rparr>)" "endless env"
    "buildTx \<lparr>BNonce = next (world st), BValue = val, BGasPrice = gasPrice, BGasLimit = gasLimit\<rparr> (world st) = (w, r)"
    "val \<noteq> None" "gasPrice \<noteq> None" "gasLimit \<noteq> 0"
  shows "Transacter_TransactWithValue env buildTx (Some n) val gasPrice gasLimit t st =
    Some (st\<lparr>world := w, ints := (ints st)(n := next w)\<rparr>, t, map_sum ErrTransact id r)"
  using transact_account [OF assms(1,2), of st w r] assms(3-6)
  by (auto simp: Transacter_TransactWithValue_def nonce_send_def Let_def)

text \<open>A context that is done sends nothing.\<close>

lemma transact_done: "ctx_err env (world st) = Some e \<Longrightarrow> transact env buildTx t st = Some (st, t, Inl (ErrContext e))"
  by (subst transact.simps) simp

subsection \<open>Connecting\<close>

record config =
  CfgNetwork :: string
  CfgURI :: string
  CfgRepublicToken :: string
  CfgDarknodeRegistry :: string
  CfgOrderbook :: string
  CfgRewardVault :: string
  CfgRenExBalances :: string
  CfgRenExSettlement :: string

definition NetworkMainnet :: string where "NetworkMainnet = ''mainnet''"
definition NetworkTestnet :: string where "NetworkTestnet = ''testnet''"
definition NetworkFalcon :: string where "NetworkFalcon = ''falcon''"
definition NetworkNightly :: string where "NetworkNightly = ''nightly''"
definition NetworkLocal :: string where "NetworkLocal = ''local''"

text \<open>A text that is not given is the one of the network; the local network has no addresses.\<close>

definition default_text :: "string \<Rightarrow> string \<Rightarrow> string \<Rightarrow> string \<Rightarrow> string \<Rightarrow> string \<Rightarrow> unit + string" where
  "default_text network testnet falcon nightly local given =
     (if given \<noteq> [] then Inr given
      else if network = NetworkTestnet then Inr testnet
      else if network = NetworkFalcon then Inr falcon
      else if network = NetworkNightly then Inr nightly
      else if network = NetworkLocal then Inr local
      else Inl ())"

definition default_uri :: "string \<Rightarrow> string \<Rightarrow> unit + string" where
  "default_uri network =
     default_text network ''https://kovan.infura.io'' ''https://kovan.infura.io''
       ''https://kovan.infura.io'' ''http://localhost:8545''"

definition default_token :: "string \<Rightarrow> string \<Rightarrow> unit + string" where
  "default_token network =
     default_text network ''0x6f429121a3bd3e6c1c17edbc676eec44cf117faf'' ''0x87e83f957a2f3a2e5fe16d5c6b22e38fd28bdc06''
       ''0x15f692d6b9ba8cec643c7d16909e8acdec431bf6'' []"

definition default_registry :: "string \<Rightarrow> string \<Rightarrow> unit + string" where
  "default_registry network =
     default_text network ''0x372b6204263c6867f81e2a9e11057ff43efea14b'' ''0xfafd5c83d1e21763b79418c4ecb5d62b4970df8e''
       ''0xb3972e45d16b0942ed34943fdde413190cf5b12a'' []"

definition default_orderbook :: "string \<Rightarrow> string \<Rightarrow> unit + string" where
  "default_orderbook network =
     default_text network ''0xa7caa4780a39d8b8acd6a0bdfb5b906210bc76cd'' ''0x044b08eec761c39ac32aee1d6ef0583812f21699''
       ''0x8356e57aa32547685149a859293ad83c144b800c'' []"

definition default_vault :: "string \<Rightarrow> string \<Rightarrow> unit + string" where
  "default_vault network =
     default_text network ''0x5d62ccc1086f38286dc152962a4f3e337eec1ec1'' ''0x0e6bbbb35835cc3624a000e1698b7b68e9eec7df''
       ''0x7214c4584ab01e61355244e2325ab3f40aca4d85'' []"

definition default_balances :: "string \<Rightarrow> string \<Rightarrow> unit + string" where
  "default_balances network =
     default_text network ''0xc5b98949AB0dfa0A7d4c07Bb29B002D6d6DA3e25'' ''0x3083e5ba36c6b42ca93c22c803013a4539eedc7f''
       ''0xc2c126e1eb32e6ad50c611fb92d009b4b4518b00'' []"

definition default_settlement :: "string \<Rightarrow> string \<Rightarrow> unit + string" where
  "default_settlement network =
     default_text network ''0xc4f1420de7efbd76e973fe8c99294fe482819f9a'' ''0x8617dcd709bb8660602ef70ade78626b7408a210''
       ''0xaa14f741b8dc7fc9166807144d881b016f0ee92f'' []"

definition complete_config :: "config \<Rightarrow> unit + config" where
  "complete_config c =
     (case default_uri (CfgNetwork c) (CfgURI c) of Inl e \<Rightarrow> Inl e | Inr uri \<Rightarrow>
     (case default_token (CfgNetwork c) (CfgRepublicToken c) of Inl e \<Rightarrow> Inl e | Inr token \<Rightarrow>
     (case default_registry (CfgNetwork c) (CfgDarknodeRegistry c) of Inl e \<Rightarrow> Inl e | Inr registry \<Rightarrow>
     (case default_orderbook (CfgNetwork c) (CfgOrderbook c) of Inl e \<Rightarrow> Inl e | Inr orderbook \<Rightarrow>
     (case default_vault (CfgNetwork c) (CfgRewardVault c) of Inl e \<Rightarrow> Inl e | Inr vault \<Rightarrow>
     (case default_balances (CfgNetwork c) (CfgRenExBalances c) of Inl e \<Rightarrow> Inl e | Inr balances \<Rightarrow>
     (case default_settlement (CfgNetwork c) (CfgRenExSettlement c) of Inl e \<Rightarrow> Inl e | Inr settlement \<Rightarrow>
       Inr \<lparr>CfgNetwork = CfgNetwork c, CfgURI = uri, CfgRepublicToken = token, CfgDarknodeRegistry = registry, CfgOrderbook = orderbook,
         CfgRewardVault = vault, CfgRenExBalances = balances, CfgRenExSettlement = settlement\<rparr>)))))))"

definition Connect :: "(string \<Rightarrow> 'e + 'client) \<Rightarrow> config \<Rightarrow> 'e option + 'client \<times> config" where
  "Connect dial c =
     (case complete_config c of
        Inl e \<Rightarrow> Inl None
      | Inr c \<Rightarrow> (case dial (CfgURI c) of Inl e \<Rightarrow> Inl (Some e) | Inr client \<Rightarrow> Inr (client, c)))"

text \<open>On the local network nothing is waited for.\<close>

definition PatchedWaitMined :: "('tx \<Rightarrow> 'e + 'receipt) \<Rightarrow> config \<Rightarrow> 'tx \<Rightarrow> 'e + 'receipt option" where
  "PatchedWaitMined wait_mined c tx = (if CfgNetwork c = NetworkLocal then Inr None else map_sum id Some (wait_mined tx))"

definition PatchedWaitDeployed :: "('tx \<Rightarrow> 'e + bytes) \<Rightarrow> config \<Rightarrow> 'tx \<Rightarrow> 'e + bytes" where
  "PatchedWaitDeployed wait_deployed c tx = (if CfgNetwork c = NetworkLocal then Inr (replicate 20 0) else wait_deployed tx)"

definition SendEth :: "(built_opts \<Rightarrow> 'e + 'tx) \<Rightarrow> int \<Rightarrow> int option \<Rightarrow> int \<Rightarrow> 'e + 'tx" where
  "SendEth transfer nonce gasPrice val = transfer \<lparr>BNonce = nonce, BValue = Some val, BGasPrice = gasPrice, BGasLimit = 30000\<rparr>"

definition TransferEth :: "(built_opts \<Rightarrow> 'e + 'tx) \<Rightarrow> ('tx \<Rightarrow> 'e + 'receipt) \<Rightarrow> config \<Rightarrow> int \<Rightarrow> int option \<Rightarrow> int \<Rightarrow> 'e option" where
  "TransferEth transfer wait_mined c nonce gasPrice val =
     (case SendEth transfer nonce gasPrice val of
        Inl e \<Rightarrow> Some e
      | Inr tx \<Rightarrow> (case PatchedWaitMined wait_mined c tx of Inl e \<Rightarrow> Some e | Inr _ \<Rightarrow> None))"

definition TokenAddresses :: "string \<Rightarrow> (string \<times> string) list option" where
  "TokenAddresses network =
     (if network = NetworkFalcon then Some
        [(''ABC'', ''0xc96884276d70a1176b2fe102469348d224b0a1fa''), (''DGX'', ''0xf4faf1b22cee0a024ad6b12bb29ec0e13f5827c2''),
         (''REN'', ''0x87e83f957a2f3a2e5fe16d5c6b22e38fd28bdc06''), (''XYZ'', ''0x8a4a68db5ad08c215c6078111be8793843a53302'')]
      else if network = NetworkTestnet then Some
        [(''ABC'', ''0xc65d2e9c8924d4848935f4f22e3deca78c5217e5''), (''DGX'', ''0x0798297a11cefef7479e40e67839fee3c025691e''),
         (''REN'', ''0x6f429121a3bd3e6c1c17edbc676eec44cf117faf''), (''XYZ'', ''0x5753addcd942b495b7297cbfc240a24ba7058274'')]
      else if network = NetworkNightly then Some
        [(''ABC'', ''0x49fa7a3b9705fa8deb135b7ba64c2ab00ab915a1''), (''DGX'', ''0x092ece29781777604afac04887af30042c3bc5df''),
         (''REN'', ''0x15f692d6b9ba8cec643c7d16909e8acdec431bf6''), (''XYZ'', ''0x6662449d05312afe0ca147db6eb155641077883f'')]
      else None)"

text \<open>Completing keeps what is given and is done once.\<close>

lemma default_text_given: "default_text network a b c d given = Inr t \<Longrightarrow> (given \<noteq> [] \<longrightarrow> t = given) \<and> default_text network a b c d t = Inr t"
  by (auto simp: default_text_def split: if_splits)

lemmas default_defs = default_uri_def default_token_def default_registry_def default_orderbook_def default_vault_def default_balances_def
  default_settlement_def

lemma default_once:
  "default_uri network given = Inr t \<Longrightarrow> (given \<noteq> [] \<longrightarrow> t = given) \<and> default_uri network t = Inr t"
  "default_token network given = Inr t \<Longrightarrow> (given \<noteq> [] \<longrightarrow> t = given) \<and> default_token network t = Inr t"
  "default_registry network given = Inr t \<Longrightarrow> (given \<noteq> [] \<longrightarrow> t = given) \<and> default_registry network t = Inr t"
  "default_orderbook network given = Inr t \<Longrightarrow> (given \<noteq> [] \<longrightarrow> t = given) \<and> default_orderbook network t = Inr t"
  "default_vault network given = Inr t \<Longrightarrow> (given \<noteq> [] \<longrightarrow> t = given) \<and> default_vault network t = Inr t"
  "default_balances network given = Inr t \<Longrightarrow> (given \<noteq> [] \<longrightarrow> t = given) \<and> default_balances network t = Inr t"
  "default_settlement network given = Inr t \<Longrightarrow> (given \<noteq> [] \<longrightarrow> t = given) \<and> default_settlement network t = Inr t"
  unfolding default_defs by (rule default_text_given, assumption)+

lemma complete_config_once:
  assumes "complete_config c = Inr c'"
  shows "complete_config c' = Inr c'" "CfgNetwork c' = CfgNetwork c" "CfgURI c \<noteq> [] \<Longrightarrow> CfgURI c' = CfgURI c"
proof -
  obtain u k r ob v b se where c: "default_uri (CfgNetwork c) (CfgURI c) = Inr u" "default_token (CfgNetwork c) (CfgRepublicToken c) = Inr k"
    "default_registry (CfgNetwork c) (CfgDarknodeRegistry c) = Inr r" "default_orderbook (CfgNetwork c) (CfgOrderbook c) = Inr ob"
    "default_vault (CfgNetwork c) (CfgRewardVault c) = Inr v" "default_balances (CfgNetwork c) (CfgRenExBalances c) = Inr b"
    "default_settlement (CfgNetwork c) (CfgRenExSettlement c) = Inr se"
    "c' = \<lparr>CfgNetwork = CfgNetwork c, CfgURI = u, CfgRepublicToken = k, CfgDarknodeRegistry = r, CfgOrderbook = ob,
       CfgRewardVault = v, CfgRenExBalances = b, CfgRenExSettlement = se\<rparr>"
    using assms by (auto simp: complete_config_def split: sum.splits)
  note o = default_once(1) [OF c(1)] default_once(2) [OF c(2)] default_once(3) [OF c(3)] default_once(4) [OF c(4)]
    default_once(5) [OF c(5)] default_once(6) [OF c(6)] default_once(7) [OF c(7)]
  show "complete_config c' = Inr c'" using o by (simp add: complete_config_def c(8))
  show "CfgNetwork c' = CfgNetwork c" "CfgURI c \<noteq> [] \<Longrightarrow> CfgURI c' = CfgURI c" using o(1) by (simp_all add: c(8))
qed

text \<open>The token \<^verbatim>\<open>REN\<close> of a network is the Republic token it is connected with.\<close>

lemma TokenAddresses_REN:
  assumes "TokenAddresses network = Some toks" "default_token network [] = Inr token"
  shows "map_of toks ''REN'' = Some token"
  using assms unfolding TokenAddresses_def default_token_def default_text_def
  by (cases "network = NetworkTestnet"; cases "network = NetworkFalcon"; cases "network = NetworkNightly")
    (auto simp: NetworkTestnet_def NetworkFalcon_def NetworkNightly_def)

subsection \<open>The networks of the transaction package\<close>

text \<open>\<open>hex\<close> is \<^verbatim>\<open>common.HexToAddress\<close>, \<open>zero\<close> the empty address. The local network is the empty record; another text panics.\<close>

record 'a network_addresses =
  NwID :: string
  NwRepublicToken :: 'a
  NwDarknodeRegistry :: 'a
  NwOrderbook :: 'a
  NwRewardVault :: 'a
  NwRenExBalances :: 'a
  NwRenExSettlement :: 'a

definition defaultNetwork :: "(string \<Rightarrow> 'a) \<Rightarrow> 'a \<Rightarrow> string \<Rightarrow> 'a network_addresses option" where
  "defaultNetwork hex zero i =
     (if i = NetworkTestnet then Some
        \<lparr>NwID = i, NwRepublicToken = hex ''0x6f429121a3bd3e6c1c17edbc676eec44cf117faf'',
         NwDarknodeRegistry = hex ''0x5d09eb34ce084bece690651f147dbd8ff41007bf'', NwOrderbook = hex ''0xB01219Cf49e92ffcd48fecC96241dBd1372B8Bb1'',
         NwRewardVault = hex ''0x5d62ccc1086f38286dc152962a4f3e337eec1ec1'', NwRenExBalances = hex ''0xc5b98949AB0dfa0A7d4c07Bb29B002D6d6DA3e25'',
         NwRenExSettlement = hex ''0xc53abbc5713e606a86533088707e80fcae33eff8''\<rparr>
      else if i = NetworkFalcon then Some
        \<lparr>NwID = i, NwRepublicToken = hex ''0x87e83f957a2f3a2e5fe16d5c6b22e38fd28bdc06'',
         NwDarknodeRegistry = hex ''0x7352e7244899b7cb5d803cc02741c8910d3b75de'', NwOrderbook = hex ''0x044b08eec761c39ac32aee1d6ef0583812f21699'',
         NwRewardVault = hex ''0x0e6bbbb35835cc3624a000e1698b7b68e9eec7df'', NwRenExBalances = hex ''0x3083e5ba36c6b42ca93c22c803013a4539eedc7f'',
         NwRenExSettlement = hex ''0x038b63c120a7e60946d6ebaa6dcfc3a475108cc9''\<rparr>
      else if i = NetworkNightly then Some
        \<lparr>NwID = i, NwRepublicToken = hex ''0x15f692d6b9ba8cec643c7d16909e8acdec431bf6'',
         NwDarknodeRegistry = hex ''0xb3972e45d16b0942ed34943fdde413190cf5b12a'', NwOrderbook = hex ''0x8356e57aa32547685149a859293ad83c144b800c'',
         NwRewardVault = hex ''0x7214c4584ab01e61355244e2325ab3f40aca4d85'', NwRenExBalances = hex ''0xc2c126e1eb32e6ad50c611fb92d009b4b4518b00'',
         NwRenExSettlement = hex ''0xaa14f741b8dc7fc9166807144d881b016f0ee92f''\<rparr>
      else if i = NetworkLocal then Some
        \<lparr>NwID = [], NwRepublicToken = zero, NwDarknodeRegistry = zero, NwOrderbook = zero, NwRewardVault = zero, NwRenExBalances = zero,
         NwRenExSettlement = zero\<rparr>
      else None)"

text \<open>The two tables of addresses agree on the nightly network; on the other two they have different registries.\<close>

lemma network_names_distinct:
  "NetworkTestnet \<noteq> NetworkFalcon" "NetworkTestnet \<noteq> NetworkNightly" "NetworkFalcon \<noteq> NetworkNightly"
  by (simp_all add: NetworkTestnet_def NetworkFalcon_def NetworkNightly_def)

lemma nightly_agrees:
  "\<exists>n. defaultNetwork id [] NetworkNightly = Some n \<and> default_token NetworkNightly [] = Inr (NwRepublicToken n) \<and>
    default_registry NetworkNightly [] = Inr (NwDarknodeRegistry n) \<and> default_orderbook NetworkNightly [] = Inr (NwOrderbook n) \<and>
    default_vault NetworkNightly [] = Inr (NwRewardVault n) \<and> default_balances NetworkNightly [] = Inr (NwRenExBalances n) \<and>
    default_settlement NetworkNightly [] = Inr (NwRenExSettlement n)"
  using network_names_distinct by (auto simp: defaultNetwork_def default_defs default_text_def)

lemma registries_differ:
  assumes "network = NetworkTestnet \<or> network = NetworkFalcon"
  shows "\<exists>n r. defaultNetwork id [] network = Some n \<and> default_registry network [] = Inr r \<and> r \<noteq> NwDarknodeRegistry n"
  using assms network_names_distinct by (auto simp: defaultNetwork_def default_defs default_text_def)

end
