(* ===== verification/Registry_Cmd.thy ===== *)
theory Registry_Cmd
  imports Transact
begin

section \<open>The program that registers nodes: \<^verbatim>\<open>cmd/registry\<close>\<close>

text \<open>
  The commands of the program, each a sequence of operations of the binder over the nodes of a deployment or over the arguments. Reading
  the command line and the file of the deployment belongs to other packages: what was read is an argument, \<open>Inl ()\<close> if it
  could not be. What is printed for the reader is left out, apart from the answers of \<^verbatim>\<open>pool\<close> and \<^verbatim>\<open>checkreg\<close>. A result \<open>None\<close> is
  a panic or an operation that does not return.
\<close>

subsection \<open>Commands\<close>

record deployed =
  DepAddress :: address
  DepKey :: rsa_public

datatype cmd_error = ErrReadDeployment | ErrOneAddress | ErrCheckRegistration address op_error | ErrRegisterNode address op_error
  | ErrDeregisterNode address op_error | ErrOperation op_error | ErrDecodeAddress | ErrAmount text_error

text \<open>The networks that the program knows, and the configuration it connects with; another name ends the program.\<close>

definition network_config :: "string \<Rightarrow> config option" where
  "network_config network =
     (if network = NetworkTestnet \<or> network = NetworkFalcon \<or> network = NetworkNightly then Some
        \<lparr>CfgNetwork = network, CfgURI = ''https://kovan.infura.io'', CfgRepublicToken = [], CfgDarknodeRegistry = [], CfgOrderbook = [],
         CfgRewardVault = [], CfgRenExBalances = [], CfgRenExSettlement = []\<rparr>
      else None)"

definition default_network :: string where
  "default_network = ''kovan''"

text \<open>A loop that ends with the first error.\<close>

fun for_each ::
    "('a \<Rightarrow> tx_opts \<Rightarrow> 'w \<Rightarrow> (tx_opts \<times> 'w \<times> cmd_error option) option) \<Rightarrow> 'a list \<Rightarrow> tx_opts \<Rightarrow> 'w \<Rightarrow>
     (tx_opts \<times> 'w \<times> cmd_error option) option" where
  "for_each f [] b w = Some (b, w, None)"
| "for_each f (x # xs) b w =
     (case f x b w of
        None \<Rightarrow> None
      | Some (b, w, Some e) \<Rightarrow> Some (b, w, Some e)
      | Some (b, w, None) \<Rightarrow> for_each f xs b w)"

definition register_node :: "('w, 'tx) chain \<Rightarrow> deployed \<Rightarrow> tx_opts \<Rightarrow> 'w \<Rightarrow> (tx_opts \<times> 'w \<times> cmd_error option) option" where
  "register_node C n b w =
     (let address = DepAddress n;
          pk = BytesFromRsaPublicKey (DepKey n)
      in case Binder_IsRegistered C w address of
           None \<Rightarrow> None
         | Some (Inl e) \<Rightarrow> Some (b, w, Some (ErrCheckRegistration address e))
         | Some (Inr isRegistered) \<Rightarrow>
             if isRegistered then Some (b, w, None)
             else
               (case Binder_MinimumBond C w of
                  Inl e \<Rightarrow> Some (b, w, Some (ErrOperation e))
                | Inr minimumBond \<Rightarrow>
                    Option.bind (Address_ID address) (\<lambda>ident.
                      map_option (\<lambda>(b, w, e). (b, w, map_option (ErrRegisterNode address) e)) (Binder_Register C ident pk minimumBond b w))))"

definition RegisterAll :: "('w, 'tx) chain \<Rightarrow> unit + deployed list \<Rightarrow> tx_opts \<Rightarrow> 'w \<Rightarrow> (tx_opts \<times> 'w \<times> cmd_error option) option" where
  "RegisterAll C conf b w =
     (case conf of Inl _ \<Rightarrow> Some (b, w, Some ErrReadDeployment) | Inr ns \<Rightarrow> for_each (register_node C) ns b w)"

definition deregister_node :: "('w, 'tx) chain \<Rightarrow> deployed \<Rightarrow> tx_opts \<Rightarrow> 'w \<Rightarrow> (tx_opts \<times> 'w \<times> cmd_error option) option" where
  "deregister_node C n b w =
     (let address = DepAddress n
      in case Binder_IsRegistered C w address of
           None \<Rightarrow> None
         | Some (Inl e) \<Rightarrow> Some (b, w, Some (ErrCheckRegistration address e))
         | Some (Inr isRegistered) \<Rightarrow>
             if isRegistered then
               Option.bind (Address_ID address) (\<lambda>ident.
                 map_option (\<lambda>(b, w, e). (b, w, map_option (ErrDeregisterNode address) e)) (Binder_Deregister C ident b w))
             else Some (b, w, None))"

text \<open>The addresses that are given are not looked at.\<close>

definition DeregisterAll ::
    "('w, 'tx) chain \<Rightarrow> unit + deployed list \<Rightarrow> string list \<Rightarrow> tx_opts \<Rightarrow> 'w \<Rightarrow> (tx_opts \<times> 'w \<times> cmd_error option) option" where
  "DeregisterAll C conf addresses b w =
     (case conf of Inl _ \<Rightarrow> Some (b, w, Some ErrReadDeployment) | Inr ns \<Rightarrow> for_each (deregister_node C) ns b w)"

definition approved_bond :: string where
  "approved_bond = ''100000000000000000000000''"

definition Approve :: "('w, 'tx) chain \<Rightarrow> string \<Rightarrow> tx_opts \<Rightarrow> 'w \<Rightarrow> (tx_opts \<times> 'w \<times> cmd_error option) option" where
  "Approve C registryAddress b w =
     Option.bind (FromString approved_bond) (\<lambda>r.
       case r of
         Inl e \<Rightarrow> Some (b, w, Some (ErrAmount e))
       | Inr bond \<Rightarrow>
           map_option (\<lambda>(b, w, e). (b, w, map_option ErrOperation e)) (Binder_ApproveRen C registryAddress bond b w))"

text \<open>The position that is printed, and the error.\<close>

definition GetPool :: "('w, 'tx) chain \<Rightarrow> keccak \<Rightarrow> 'w \<Rightarrow> string list \<Rightarrow> (int option \<times> cmd_error option) option" where
  "GetPool C keccak w addresses =
     (case addresses of
        [address] \<Rightarrow>
          map_option (\<lambda>r. case r of Inl e \<Rightarrow> (Some (- 1), Some (ErrOperation e)) | Inr pod \<Rightarrow> (Some (Position pod), None))
            (Binder_Pod C keccak w address)
      | _ \<Rightarrow> Some (None, Some ErrOneAddress))"

definition CheckRegistration :: "('w, 'tx) chain \<Rightarrow> 'w \<Rightarrow> string list \<Rightarrow> (cmd_error + bool) option" where
  "CheckRegistration C w addresses =
     (case addresses of
        [address] \<Rightarrow> map_option (map_sum ErrOperation id) (Binder_IsRegistered C w address)
      | _ \<Rightarrow> Some (Inl ErrOneAddress))"

definition eth_address :: "address \<Rightarrow> (unit + bytes) option" where
  "eth_address repAddress =
     (let decoded = DecodeAlphabet repAddress BTCAlphabet
      in if length decoded < 2 then None
         else (let addByte = drop 2 decoded in if addByte = [] then Some (Inl ()) else Some (Inr (BytesToAddress addByte))))"

definition refund_node :: "('w, 'tx) chain \<Rightarrow> string \<Rightarrow> tx_opts \<Rightarrow> 'w \<Rightarrow> (tx_opts \<times> 'w \<times> cmd_error option) option" where
  "refund_node C address b w =
     (case eth_address address of
        None \<Rightarrow> None
      | Some (Inl _) \<Rightarrow> Some (b, w, Some ErrDecodeAddress)
      | Some (Inr ident) \<Rightarrow> map_option (\<lambda>(b, w, e). (b, w, map_option ErrOperation e)) (Binder_Refund C ident b w))"

definition Refund :: "('w, 'tx) chain \<Rightarrow> string list \<Rightarrow> tx_opts \<Rightarrow> 'w \<Rightarrow> (tx_opts \<times> 'w \<times> cmd_error option) option" where
  "Refund C addresses b w = for_each (refund_node C) addresses b w"

subsection \<open>What a command sends\<close>

text \<open>A step of a command on an honest chain: it returns, sends at most one transaction, and keeps the options of the binder.\<close>

definition step_kept :: "('w \<Rightarrow> int) \<Rightarrow> tx_opts \<Rightarrow> 'w \<Rightarrow> tx_opts \<times> 'w \<times> cmd_error option \<Rightarrow> nat \<Rightarrow> bool" where
  "step_kept nx b w res k \<longleftrightarrow>
     (case res of (b', w', e) \<Rightarrow> TxNonce b' = nx w' \<and> TxGasPrice b' = TxGasPrice b \<and> TxValue b' = TxValue b \<and>
        nx w \<le> nx w' \<and> nx w' \<le> nx w + int k)"

lemma step_kept_refl: "TxNonce b = nx w \<Longrightarrow> step_kept nx b w (b, w, e) k"
  by (simp add: step_kept_def)

lemma kept_step: "TxNonce b = nx w \<Longrightarrow> kept nx b w (b', w', e) \<Longrightarrow> step_kept nx b w (b', w', e') 1"
  by (auto simp: kept_def step_kept_def split: option.splits op_error.splits)

lemma step_kept_trans:
  "step_kept nx b w (b1, w1, e1) j \<Longrightarrow> step_kept nx b1 w1 (b2, w2, e2) k \<Longrightarrow> step_kept nx b w (b2, w2, e2) (j + k)"
  by (auto simp: step_kept_def)

lemma for_each_kept:
  assumes "\<And>x b w. x \<in> set xs \<Longrightarrow> TxNonce b = nx w \<Longrightarrow> \<exists>b' w' e. f x b w = Some (b', w', e) \<and> step_kept nx b w (b', w', e) 1"
    and "TxNonce b = nx w"
  shows "\<exists>b' w' e. for_each f xs b w = Some (b', w', e) \<and> step_kept nx b w (b', w', e) (length xs)"
  using assms
proof (induction xs arbitrary: b w)
  case Nil
  then show ?case by (simp add: step_kept_refl)
next
  case (Cons x xs)
  obtain b1 w1 e1 where 1: "f x b w = Some (b1, w1, e1)" "step_kept nx b w (b1, w1, e1) 1" using Cons.prems by (metis list.set_intros(1))
  show ?case
  proof (cases e1)
    case (Some e)
    then show ?thesis using 1 by (intro exI) (auto simp: step_kept_def)
  next
    case None
    obtain b2 w2 e2 where "for_each f xs b1 w1 = Some (b2, w2, e2)" "step_kept nx b1 w1 (b2, w2, e2) (length xs)"
      using Cons.IH [of b1 w1] Cons.prems(1) 1(2) by (auto simp: step_kept_def)
    then show ?thesis using 1 None step_kept_trans [OF 1(2)] by auto
  qed
qed

lemma binder_step_returns:
  assumes "honest C nx" "op_ok keccak op" "TxNonce b = nx w"
  shows "\<exists>b' w' e. binder_step C keccak op b w = Some (b', w', e) \<and> (\<forall>e'. step_kept nx b w (b', w', e') 1)"
proof -
  obtain b' w' e where "binder_step C keccak op b w = Some (b', w', e)" "kept nx b w (b', w', e)"
    using binder_step_kept [OF assms(1,2), of b w] by auto
  then show ?thesis using kept_step [where nx = nx and b = b and w = w, OF assms(3)] by blast
qed

lemma MinimumBond_wf: "Binder_MinimumBond C w = Inr bond \<Longrightarrow> int_wf bond"
proof -
  assume a: "Binder_MinimumBond C w = Inr bond"
  then obtain n where "FromBigInt (int n) = Inr bond"
    by (auto simp: Binder_MinimumBond_def int_view_def map_sum_def split: sum.splits)
  then show ?thesis using FromBigInt_value [of "int n"] by (cases "\<bar>int n\<bar> < int (base ^ INT1024WORDS)") (auto simp del: of_nat_power)
qed

lemma register_node_kept:
  assumes "honest C nx" "Address_ID (DepAddress n) \<noteq> None" "TxNonce b = nx w"
  shows "\<exists>b' w' e. register_node C n b w = Some (b', w', e) \<and> step_kept nx b w (b', w', e) 1"
proof -
  obtain d where d: "Address_ID (DepAddress n) = Some d" using assms(2) by blast
  obtain r where r: "Binder_IsRegistered C w (DepAddress n) = Some r" using d by (simp add: Binder_IsRegistered_def)
  show ?thesis
  proof (cases "r = Inr False \<and> (\<exists>bond. Binder_MinimumBond C w = Inr bond)")
    case True
    then obtain bond where bond: "Binder_MinimumBond C w = Inr bond" by blast
    obtain b' w' e where "Binder_Register C d (BytesFromRsaPublicKey (DepKey n)) bond b w = Some (b', w', e)" "\<And>e'. step_kept nx b w (b', w', e') 1"
      using binder_step_returns [where op = "OpRegister d (BytesFromRsaPublicKey (DepKey n)) bond", OF assms(1) _ assms(3)]
        MinimumBond_wf [OF bond] by auto
    then show ?thesis using True r d bond by (simp add: register_node_def)
  next
    case False
    then have "\<exists>e. register_node C n b w = Some (b, w, e)"
      using r by (cases r; cases "Binder_MinimumBond C w") (auto simp: register_node_def Let_def)
    then obtain e where "register_node C n b w = Some (b, w, e)" by blast
    then show ?thesis using step_kept_refl [where nx = nx and b = b and w = w, OF assms(3)] by blast
  qed
qed

lemma deregister_node_kept:
  assumes "honest C nx" "Address_ID (DepAddress n) \<noteq> None" "TxNonce b = nx w"
  shows "\<exists>b' w' e. deregister_node C n b w = Some (b', w', e) \<and> step_kept nx b w (b', w', e) 1"
proof -
  obtain d where d: "Address_ID (DepAddress n) = Some d" using assms(2) by blast
  obtain r where r: "Binder_IsRegistered C w (DepAddress n) = Some r" using d by (simp add: Binder_IsRegistered_def)
  show ?thesis
  proof (cases "r = Inr True")
    case True
    obtain b' w' e where "Binder_Deregister C d b w = Some (b', w', e)" "\<And>e'. step_kept nx b w (b', w', e') 1"
      using binder_step_returns [where op = "OpDeregister d", OF assms(1) _ assms(3)] by auto
    then show ?thesis using True r d by (simp add: deregister_node_def)
  next
    case False
    then obtain e where "deregister_node C n b w = Some (b, w, e)" using r by (cases r) (auto simp: deregister_node_def)
    then show ?thesis using step_kept_refl [where nx = nx and b = b and w = w, OF assms(3)] by blast
  qed
qed

text \<open>The commands over a deployment whose addresses can be decoded return, send at most one transaction for each node, and leave the
  binder with the next nonce.\<close>

lemma RegisterAll_kept:
  assumes "honest C nx" "\<forall>n\<in>set ns. Address_ID (DepAddress n) \<noteq> None" "TxNonce b = nx w"
  shows "\<exists>b' w' e. RegisterAll C (Inr ns) b w = Some (b', w', e) \<and> step_kept nx b w (b', w', e) (length ns)"
  using for_each_kept [where f = "register_node C" and xs = ns and nx = nx, OF _ assms(3)] register_node_kept [OF assms(1)] assms(2)
  by (simp add: RegisterAll_def)

lemma DeregisterAll_kept:
  assumes "honest C nx" "\<forall>n\<in>set ns. Address_ID (DepAddress n) \<noteq> None" "TxNonce b = nx w"
  shows "\<exists>b' w' e. DeregisterAll C (Inr ns) addresses b w = Some (b', w', e) \<and> step_kept nx b w (b', w', e) (length ns)"
  using for_each_kept [where f = "deregister_node C" and xs = ns and nx = nx, OF _ assms(3)] deregister_node_kept [OF assms(1)] assms(2)
  by (simp add: DeregisterAll_def)

text \<open>A deployment that is registered is left alone.\<close>

lemma for_each_nothing: "(\<And>x. x \<in> set xs \<Longrightarrow> f x b w = Some (b, w, None)) \<Longrightarrow> for_each f xs b w = Some (b, w, None)"
  by (induction xs) simp_all

lemma RegisterAll_again:
  assumes "\<forall>n\<in>set ns. Binder_IsRegistered C w (DepAddress n) = Some (Inr True)"
  shows "RegisterAll C (Inr ns) b w = Some (b, w, None)"
proof -
  have "for_each (register_node C) ns b w = Some (b, w, None)"
    by (rule for_each_nothing) (use assms in \<open>simp add: register_node_def\<close>)
  then show ?thesis by (simp add: RegisterAll_def)
qed

text \<open>The amount of the approval.\<close>

lemma approved_bond_value: "\<exists>z. FromString approved_bond = Some (Inr z) \<and> int_wf z \<and> int_val z = 10 ^ 23"
proof -
  have n: "number_base approved_bond = (approved_bond, 10)" by (simp add: approved_bond_def number_base_def)
  have "digit_of CHR ''1'' = Some 1" "digit_of CHR ''0'' = Some 0" by (simp_all add: digit_of_def digit_chars_def less_eq_char_def)
  then have "valid_text 10 approved_bond" "text_value 10 approved_bond = 10 ^ 23" "digit_of (hd approved_bond) \<noteq> Some 0"
    by (simp_all add: approved_bond_def valid_text_def text_value_def)
  moreover have "(10 :: nat) ^ 23 < base ^ INT1024WORDS" by (simp add: base_def)
  ultimately show ?thesis using FromString_value [OF n] by (simp add: approved_bond_def)
qed

text \<open>The default of the option is a network that the program does not know.\<close>

lemma default_network_unknown: "network_config default_network = None"
  by (simp add: network_config_def default_network_def NetworkTestnet_def NetworkFalcon_def NetworkNightly_def)

text \<open>A refund panics on an address that decodes to less than two bytes, such as one that is not base 58.\<close>

lemma Refund_panics: "length (DecodeAlphabet a BTCAlphabet) < 2 \<Longrightarrow> Refund C (a # as) b w = None"
  by (simp add: Refund_def refund_node_def eth_address_def)

lemma Refund_returns:
  assumes "honest C nx" "TxNonce b = nx w"
  shows "\<exists>b' w' e. Refund C (map ID_Address ids) b w = Some (b', w', e) \<and> step_kept nx b w (b', w', e) (length ids)"
proof -
  have "\<exists>b' w' e. refund_node C a b w = Some (b', w', e) \<and> step_kept nx b w (b', w', e) 1"
    if a: "a \<in> set (map ID_Address ids)" and n: "TxNonce b = nx w" for a b w
  proof -
    obtain i where i: "a = ID_Address i" using a by auto
    show ?thesis
    proof (cases "i = []")
      case True
      then have "refund_node C a b w = Some (b, w, Some ErrDecodeAddress)" using i by (simp add: refund_node_def eth_address_def ID_Address_Decode)
      then show ?thesis using step_kept_refl [where nx = nx and b = b and w = w, OF n] by blast
    next
      case False
      obtain b' w' e where "Binder_Refund C (BytesToAddress i) b w = Some (b', w', e)" "\<And>e'. step_kept nx b w (b', w', e') 1"
        using binder_step_returns [where op = "OpRefund (BytesToAddress i)", OF assms(1) _ n] by auto
      then show ?thesis using i False by (simp add: refund_node_def eth_address_def ID_Address_Decode)
    qed
  qed
  then show ?thesis using for_each_kept [of "map ID_Address ids" "nx" "refund_node C", OF _ assms(2)] by (simp add: Refund_def)
qed

end
