(* ===== verification/Logger.thy ===== *)
theory Logger
  imports Json_Struct
begin

section \<open>Logging: \<^verbatim>\<open>logger\<close>\<close>

text \<open>
  Loggers with their filters, the plugin that writes to a file or to the standard streams, the default logger of the package, and
  logs as documents. A logger is shared by reference (\<^verbatim>\<open>ResetDefaultLogger\<close> goes back to the same \<^verbatim>\<open>StdoutLogger\<close>), so loggers are
  numbered; the plugins of a logger are its own. Files are texts by path, and an open file is a number. What the standard logger of
  Go prints when a plugin fails is a list of errors. \<open>env\<close> holds the texts of times and of floating point numbers, in a line
  and in a document. The order in which a map is walked is an argument, \<open>ord\<close>. \<open>None\<close> is a panic.
\<close>

subsection \<open>Levels and events\<close>

definition LevelError :: u8 where "LevelError = 1"
definition LevelWarn :: u8 where "LevelWarn = 2"
definition LevelInfo :: u8 where "LevelInfo = 3"
definition LevelDebugHigh :: u8 where "LevelDebugHigh = 4"
definition LevelDebug :: u8 where "LevelDebug = 5"
definition LevelDebugLow :: u8 where "LevelDebugLow = 6"

definition TypeGeneric :: string where "TypeGeneric = ''generic''"
definition TypeEpoch :: string where "TypeEpoch = ''epoch''"
definition TypeUsage :: string where "TypeUsage = ''usage''"
definition TypeOrderConfirmed :: string where "TypeOrderConfirmed = ''orderConfirmed''"
definition TypeOrderMatch :: string where "TypeOrderMatch = ''orderMatch''"
definition TypeOrderReceived :: string where "TypeOrderReceived = ''orderReceived''"
definition TypeNetwork :: string where "TypeNetwork = ''network''"
definition TypeCompute :: string where "TypeCompute = ''compute''"

definition Level_String :: "u8 \<Rightarrow> string" where
  "Level_String level =
     (if level = LevelError then ''error''
      else if level = LevelWarn then ''warn''
      else if level = LevelInfo then ''info''
      else if level = LevelDebugHigh \<or> level = LevelDebug \<or> level = LevelDebugLow then ''debug''
      else [])"

datatype 'f log_event =
    GenericEvent string
  | EpochEvent bytes
  | UsageEvent 'f 'f u64
  | OrderConfirmedEvent string
  | OrderMatchEvent string string string
  | OrderReceivedEvent "string option" "string option" string
  | NetworkEvent string
  | ComputeEvent string

record ('t, 'f) log_env =
  time_stamp :: "'t \<Rightarrow> string"
  time_json :: "'t \<Rightarrow> string option"
  time_read :: "string \<Rightarrow> 't option"
  time_zero :: 't
  float_text :: "'f \<Rightarrow> string"
  float_json :: "'f \<Rightarrow> string option"
  float_read :: "string \<Rightarrow> 'f option"
  float_zero :: 'f

fun Event_String :: "('t, 'f) log_env \<Rightarrow> 'f log_event \<Rightarrow> string" where
  "Event_String env (GenericEvent message) = message"
| "Event_String env (EpochEvent hash) = b64_encode hash"
| "Event_String env (UsageEvent cpu memory network) =
     ''cpu = '' @ float_text env cpu @ ''; memory = '' @ float_text env memory @ ''; network = '' @ number_text 10 (unat network)"
| "Event_String env (OrderConfirmedEvent orderID) = ''confirmation = '' @ orderID"
| "Event_String env (OrderMatchEvent i buyID sellID) = ''buy = '' @ buyID @ ''; sell = '' @ sellID"
| "Event_String env (OrderReceivedEvent buyID sellID fragmentID) =
     (case buyID of
        Some b \<Rightarrow> ''buy = '' @ b
      | None \<Rightarrow> (case sellID of Some s \<Rightarrow> ''sell = '' @ s | None \<Rightarrow> []))"
| "Event_String env (NetworkEvent message) = message"
| "Event_String env (ComputeEvent message) = message"

text \<open>The event of a log is an interface and may be nil; tags are a map, listed by key, and may be nil.\<close>

record ('t, 'f) log_entry =
  LogTimestamp :: 't
  LogLevel :: u8
  LogEventType :: string
  LogEvent :: "'f log_event option"
  LogTags :: "(string \<times> string) list option"

subsection \<open>Logs as documents\<close>

fun event_json :: "('t, 'f) log_env \<Rightarrow> 'f log_event \<Rightarrow> json option" where
  "event_json env (GenericEvent message) = Some (JObject [(''message'', JString message)])"
| "event_json env (EpochEvent hash) = Some (JObject [(''hash'', json_array hash)])"
| "event_json env (UsageEvent cpu memory network) =
     (case (float_json env cpu, float_json env memory) of
        (Some c, Some m) \<Rightarrow> Some (JObject [(''cpu'', JNumber c), (''memory'', JNumber m), (''network'', json_int (uint network))])
      | _ \<Rightarrow> None)"
| "event_json env (OrderConfirmedEvent orderID) = Some (JObject [(''orderId'', JString orderID)])"
| "event_json env (OrderMatchEvent i buyID sellID) =
     Some (JObject [(''id'', JString i), (''buyId'', JString buyID), (''sellId'', JString sellID)])"
| "event_json env (OrderReceivedEvent buyID sellID fragmentID) =
     Some (JObject ((case buyID of None \<Rightarrow> [] | Some b \<Rightarrow> [(''buyId'', JString b)]) @
       (case sellID of None \<Rightarrow> [] | Some s \<Rightarrow> [(''sellId'', JString s)]) @ [(''fragmentId'', JString fragmentID)]))"
| "event_json env (NetworkEvent message) = Some (JObject [(''message'', JString message)])"
| "event_json env (ComputeEvent message) = Some (JObject [(''message'', JString message)])"

definition tags_json :: "(string \<times> string) list option \<Rightarrow> json" where
  "tags_json tags = (case tags of None \<Rightarrow> JNull | Some kvs \<Rightarrow> JObject (map (\<lambda>(k, v). (k, JString v)) kvs))"

definition Log_json :: "('t, 'f) log_env \<Rightarrow> ('t, 'f) log_entry \<Rightarrow> json option" where
  "Log_json env l =
     (case (time_json env (LogTimestamp l), case LogEvent l of None \<Rightarrow> Some JNull | Some ev \<Rightarrow> event_json env ev) of
        (Some t, Some ev) \<Rightarrow>
          Some (JObject [(''timestamp'', JString t), (''level'', json_int (uint (LogLevel l))), (''eventType'', JString (LogEventType l)),
            (''event'', ev), (''tags'', tags_json (LogTags l))])
      | _ \<Rightarrow> None)"

text \<open>Reading. The message of a log is kept as it comes until its type is known.\<close>

record 't raw_log =
  RawTimestamp :: 't
  RawLevel :: u8
  RawEventType :: string
  RawEvent :: "json option"

definition read_time :: "('t, 'f) log_env \<Rightarrow> json \<Rightarrow> 't \<Rightarrow> json_error + 't" where
  "read_time env v old =
     (case v of
        JNull \<Rightarrow> Inr old
      | JString s \<Rightarrow> (case time_read env s of None \<Rightarrow> Inl JsonType | Some t \<Rightarrow> Inr t)
      | _ \<Rightarrow> Inl JsonType)"

definition read_float :: "('t, 'f) log_env \<Rightarrow> json \<Rightarrow> 'f \<Rightarrow> json_error + 'f" where
  "read_float env v old =
     (case v of
        JNull \<Rightarrow> Inr old
      | JNumber t \<Rightarrow> (case float_read env t of None \<Rightarrow> Inl JsonType | Some x \<Rightarrow> Inr x)
      | _ \<Rightarrow> Inl JsonType)"

definition read_pointer :: "json \<Rightarrow> json_error + string option" where
  "read_pointer v = (if v = JNull then Inr None else map_sum id Some (json_to_string v))"

definition read_hash :: "json \<Rightarrow> bytes \<Rightarrow> json_error + bytes" where
  "read_hash v old = read_array 32 v old"

definition tags_ok :: "json \<Rightarrow> bool" where
  "tags_ok v = (case v of JNull \<Rightarrow> True | JObject kvs \<Rightarrow> (\<forall>kv\<in>set kvs. isl (json_to_string (snd kv)) = False) | _ \<Rightarrow> False)"

definition read_raw :: "('t, 'f) log_env \<Rightarrow> string \<Rightarrow> json \<Rightarrow> 't raw_log \<Rightarrow> json_error + 't raw_log" where
  "read_raw env k v r =
     (if same_name k ''timestamp'' then map_sum id (\<lambda>t. r\<lparr>RawTimestamp := t\<rparr>) (read_time env v (RawTimestamp r))
      else if same_name k ''level'' then map_sum id (\<lambda>n. r\<lparr>RawLevel := n\<rparr>) (read_byte v (RawLevel r))
      else if same_name k ''eventType'' then map_sum id (\<lambda>s. r\<lparr>RawEventType := s\<rparr>) (read_string v (RawEventType r))
      else if same_name k ''event'' then Inr (r\<lparr>RawEvent := Some v\<rparr>)
      else if same_name k ''tags'' then (if tags_ok v then Inr r else Inl JsonType)
      else Inr r)"

definition read_message :: "string \<Rightarrow> json \<Rightarrow> string \<Rightarrow> json_error + string" where
  "read_message k v m = (if same_name k ''message'' then read_string v m else Inr m)"

definition read_epoch :: "string \<Rightarrow> json \<Rightarrow> bytes \<Rightarrow> json_error + bytes" where
  "read_epoch k v h = (if same_name k ''hash'' then read_hash v h else Inr h)"

definition read_usage :: "('t, 'f) log_env \<Rightarrow> string \<Rightarrow> json \<Rightarrow> 'f \<times> 'f \<times> u64 \<Rightarrow> json_error + 'f \<times> 'f \<times> u64" where
  "read_usage env k v u =
     (case u of (c, m, n) \<Rightarrow>
        if same_name k ''cpu'' then map_sum id (\<lambda>c. (c, m, n)) (read_float env v c)
        else if same_name k ''memory'' then map_sum id (\<lambda>m. (c, m, n)) (read_float env v m)
        else if same_name k ''network'' then map_sum id (\<lambda>n. (c, m, n)) (if v = JNull then Inr n else json_to_uint 64 v)
        else Inr u)"

definition read_confirmed :: "string \<Rightarrow> json \<Rightarrow> string \<Rightarrow> json_error + string" where
  "read_confirmed k v s = (if same_name k ''orderId'' then read_string v s else Inr s)"

definition read_match :: "string \<Rightarrow> json \<Rightarrow> string \<times> string \<times> string \<Rightarrow> json_error + string \<times> string \<times> string" where
  "read_match k v m =
     (case m of (i, b, s) \<Rightarrow>
        if same_name k ''id'' then map_sum id (\<lambda>i. (i, b, s)) (read_string v i)
        else if same_name k ''buyId'' then map_sum id (\<lambda>b. (i, b, s)) (read_string v b)
        else if same_name k ''sellId'' then map_sum id (\<lambda>s. (i, b, s)) (read_string v s)
        else Inr m)"

definition read_received ::
    "string \<Rightarrow> json \<Rightarrow> string option \<times> string option \<times> string \<Rightarrow> json_error + string option \<times> string option \<times> string" where
  "read_received k v m =
     (case m of (b, s, f) \<Rightarrow>
        if same_name k ''buyId'' then map_sum id (\<lambda>b. (b, s, f)) (read_pointer v)
        else if same_name k ''sellId'' then map_sum id (\<lambda>s. (b, s, f)) (read_pointer v)
        else if same_name k ''fragmentId'' then map_sum id (\<lambda>f. (b, s, f)) (read_string v f)
        else Inr m)"

text \<open>A type that is not known leaves the event as it was, whatever the message is; a known type needs a message.\<close>

definition read_event :: "('t, 'f) log_env \<Rightarrow> string \<Rightarrow> json option \<Rightarrow> 'f log_event option \<Rightarrow> json_error + 'f log_event option" where
  "read_event env ty raw old =
     (let known = (\<lambda>f. case raw of None \<Rightarrow> Inl JsonSyntax | Some j \<Rightarrow> map_sum id Some (f j))
      in if ty = TypeGeneric then known (\<lambda>j. map_sum id GenericEvent (read_struct read_message j []))
         else if ty = TypeEpoch then known (\<lambda>j. map_sum id EpochEvent (read_struct read_epoch j (replicate 32 0)))
         else if ty = TypeUsage then
           known (\<lambda>j. map_sum id (\<lambda>(c, m, n). UsageEvent c m n) (read_struct (read_usage env) j (float_zero env, float_zero env, 0)))
         else if ty = TypeOrderConfirmed then known (\<lambda>j. map_sum id OrderConfirmedEvent (read_struct read_confirmed j []))
         else if ty = TypeOrderMatch then known (\<lambda>j. map_sum id (\<lambda>(i, b, s). OrderMatchEvent i b s) (read_struct read_match j ([], [], [])))
         else if ty = TypeOrderReceived then
           known (\<lambda>j. map_sum id (\<lambda>(b, s, f). OrderReceivedEvent b s f) (read_struct read_received j (None, None, [])))
         else if ty = TypeNetwork then known (\<lambda>j. map_sum id NetworkEvent (read_struct read_message j []))
         else if ty = TypeCompute then known (\<lambda>j. map_sum id ComputeEvent (read_struct read_message j []))
         else Inr old)"

definition Log_UnmarshalJSON :: "('t, 'f) log_env \<Rightarrow> ('t, 'f) log_entry \<Rightarrow> string \<Rightarrow> json_error + ('t, 'f) log_entry" where
  "Log_UnmarshalJSON env l data =
     (case unmarshal (\<lambda>j. read_struct (read_raw env) j \<lparr>RawTimestamp = time_zero env, RawLevel = 0, RawEventType = [], RawEvent = None\<rparr>) data of
        Inl e \<Rightarrow> Inl e
      | Inr r \<Rightarrow>
          map_sum id (\<lambda>ev. l\<lparr>LogEvent := ev, LogTimestamp := RawTimestamp r, LogLevel := RawLevel r, LogEventType := RawEventType r\<rparr>)
            (read_event env (RawEventType r) (RawEvent r) (LogEvent l)))"

subsection \<open>Files and the file plugin\<close>

datatype plugin_error = ErrNilFile | ErrInvalidFile | ErrClosedFile | ErrOpenFile string | ErrEncodeLog

record log_files =
  FsStdout :: string
  FsStderr :: string
  FsFiles :: "string \<rightharpoonup> string"
  FsHandles :: "nat \<rightharpoonup> string"
  FsNext :: nat
  FsRefuses :: "string \<rightharpoonup> string"
  FsPrinted :: "plugin_error list"

datatype file_handle = HStdout | HStderr | HFile nat

record file_plugin =
  PluginFile :: "file_handle option"
  PluginPath :: string

definition NewFilePlugin :: "string \<Rightarrow> file_plugin" where
  "NewFilePlugin path = \<lparr>PluginFile = None, PluginPath = path\<rparr>"

definition FilePlugin_Start :: "file_plugin \<Rightarrow> log_files \<Rightarrow> file_plugin \<times> log_files \<times> plugin_error option" where
  "FilePlugin_Start p fs =
     (if PluginPath p = ''stdout'' then (p\<lparr>PluginFile := Some HStdout\<rparr>, fs, None)
      else if PluginPath p = ''stderr'' then (p\<lparr>PluginFile := Some HStderr\<rparr>, fs, None)
      else
        (case FsRefuses fs (PluginPath p) of
           Some e \<Rightarrow> (p\<lparr>PluginFile := None\<rparr>, fs, Some (ErrOpenFile e))
         | None \<Rightarrow>
             (p\<lparr>PluginFile := Some (HFile (FsNext fs))\<rparr>,
              fs\<lparr>FsFiles := (FsFiles fs)(PluginPath p \<mapsto> (case FsFiles fs (PluginPath p) of None \<Rightarrow> [] | Some t \<Rightarrow> t)),
                FsHandles := (FsHandles fs)(FsNext fs \<mapsto> PluginPath p), FsNext := Suc (FsNext fs)\<rparr>, None)))"

definition FilePlugin_Stop :: "file_plugin \<Rightarrow> log_files \<Rightarrow> log_files \<times> plugin_error option" where
  "FilePlugin_Stop p fs =
     (case PluginFile p of
        Some HStdout \<Rightarrow> (fs, None)
      | Some HStderr \<Rightarrow> (fs, None)
      | Some (HFile n) \<Rightarrow>
          (case FsHandles fs n of
             None \<Rightarrow> (fs, Some ErrClosedFile)
           | Some path \<Rightarrow> (fs\<lparr>FsHandles := (FsHandles fs)(n := None)\<rparr>, None))
      | None \<Rightarrow> (fs, Some ErrInvalidFile))"

type_synonym tag_order = "(string \<times> string) list \<Rightarrow> (string \<times> string) list"

text \<open>A line for the standard streams; each tag brings a comma of its own.\<close>

definition tag_text :: "(string \<times> string) list \<Rightarrow> string" where
  "tag_text kvs = (if kvs = [] then [] else ''{'' @ join_with (map (\<lambda>(k, v). k @ '':'' @ v @ '','') kvs) @ ''} '')"

definition log_line ::
    "('t, 'f) log_env \<Rightarrow> tag_order \<Rightarrow> ('t, 'f) log_entry \<Rightarrow> 'f log_event \<Rightarrow> string" where
  "log_line env ord l ev =
     time_stamp env (LogTimestamp l) @ '' ['' @ Level_String (LogLevel l) @ ''] ('' @ LogEventType l @ '') '' @
       tag_text (case LogTags l of None \<Rightarrow> [] | Some kvs \<Rightarrow> ord kvs) @ Event_String env ev @ [CHR 0x0A]"

definition FilePlugin_Log ::
    "('t, 'f) log_env \<Rightarrow> tag_order \<Rightarrow> file_plugin \<Rightarrow> ('t, 'f) log_entry \<Rightarrow> log_files \<Rightarrow>
     (log_files \<times> plugin_error option) option" where
  "FilePlugin_Log env ord p l fs =
     (case PluginFile p of
        None \<Rightarrow> Some (fs, Some ErrNilFile)
      | Some HStdout \<Rightarrow> map_option (\<lambda>ev. (fs\<lparr>FsStdout := FsStdout fs @ log_line env ord l ev\<rparr>, None)) (LogEvent l)
      | Some HStderr \<Rightarrow> map_option (\<lambda>ev. (fs\<lparr>FsStderr := FsStderr fs @ log_line env ord l ev\<rparr>, None)) (LogEvent l)
      | Some (HFile n) \<Rightarrow>
          (case Log_json env l of
             None \<Rightarrow> Some (fs, Some ErrEncodeLog)
           | Some j \<Rightarrow>
               (case FsHandles fs n of
                  None \<Rightarrow> Some (fs, Some ErrClosedFile)
                | Some path \<Rightarrow>
                    Some (fs\<lparr>FsFiles := (FsFiles fs)(path := map_option (\<lambda>t. t @ print_json j @ [CHR 0x0A]) (FsFiles fs path))\<rparr>, None))))"

subsection \<open>Loggers\<close>

record logger =
  LgPlugins :: "file_plugin list"
  LgTags :: "(string \<times> string) list option"
  LgFilterLevel :: u8
  LgFilterEvents :: "string set"

record log_options =
  OptPlugins :: "string option list"
  OptTags :: "(string \<times> string) list option"
  OptFilterLevel :: u8
  OptFilterEvents :: "string list"

definition eventListToMap :: "string list \<Rightarrow> string set" where
  "eventListToMap events = set events"

text \<open>An option without a file makes no plugin.\<close>

definition NewLogger :: "log_options \<Rightarrow> logger" where
  "NewLogger opt = \<lparr>LgPlugins = map (\<lambda>path. NewFilePlugin (the path)) (filter (\<lambda>path. path \<noteq> None) (OptPlugins opt)), LgTags = OptTags opt,
     LgFilterLevel = OptFilterLevel opt, LgFilterEvents = eventListToMap (OptFilterEvents opt)\<rparr>"

definition printed :: "plugin_error option \<Rightarrow> log_files \<Rightarrow> log_files" where
  "printed e fs = fs\<lparr>FsPrinted := FsPrinted fs @ (case e of None \<Rightarrow> [] | Some err \<Rightarrow> [err])\<rparr>"

fun start_plugins :: "file_plugin list \<Rightarrow> log_files \<Rightarrow> file_plugin list \<times> log_files" where
  "start_plugins [] fs = ([], fs)"
| "start_plugins (p # ps) fs =
     (case FilePlugin_Start p fs of (p, fs, e) \<Rightarrow> (case start_plugins ps (printed e fs) of (ps, fs) \<Rightarrow> (p # ps, fs)))"

definition Logger_Start :: "logger \<Rightarrow> log_files \<Rightarrow> logger \<times> log_files" where
  "Logger_Start lg fs = (case start_plugins (LgPlugins lg) fs of (ps, fs) \<Rightarrow> (lg\<lparr>LgPlugins := ps\<rparr>, fs))"

fun stop_plugins :: "file_plugin list \<Rightarrow> log_files \<Rightarrow> log_files" where
  "stop_plugins [] fs = fs"
| "stop_plugins (p # ps) fs = (case FilePlugin_Stop p fs of (fs, e) \<Rightarrow> stop_plugins ps (printed e fs))"

definition Logger_Stop :: "logger \<Rightarrow> log_files \<Rightarrow> log_files" where
  "Logger_Stop lg fs = stop_plugins (LgPlugins lg) fs"

fun log_plugins ::
    "('t, 'f) log_env \<Rightarrow> tag_order \<Rightarrow> file_plugin list \<Rightarrow> ('t, 'f) log_entry \<Rightarrow> log_files \<Rightarrow>
     log_files option" where
  "log_plugins env ord [] l fs = Some fs"
| "log_plugins env ord (p # ps) l fs =
     (case FilePlugin_Log env ord p l fs of None \<Rightarrow> None | Some (fs, e) \<Rightarrow> log_plugins env ord ps l (printed e fs))"

definition Logger_Log ::
    "('t, 'f) log_env \<Rightarrow> tag_order \<Rightarrow> logger \<Rightarrow> ('t, 'f) log_entry \<Rightarrow> log_files \<Rightarrow> log_files option" where
  "Logger_Log env ord lg l fs =
     (if LogEventType l \<notin> LgFilterEvents lg \<and> LgFilterEvents lg \<noteq> {} then Some fs
      else if LogLevel l \<le> LgFilterLevel lg then log_plugins env ord (LgPlugins lg) (l\<lparr>LogTags := LgTags lg\<rparr>) fs
      else Some fs)"

text \<open>The calls of a logger, at a time \<open>t\<close>.\<close>

definition new_log :: "'t \<Rightarrow> u8 \<Rightarrow> string \<Rightarrow> 'f log_event \<Rightarrow> ('t, 'f) log_entry" where
  "new_log t level ty ev = \<lparr>LogTimestamp = t, LogLevel = level, LogEventType = ty, LogEvent = Some ev, LogTags = None\<rparr>"

definition Logger_Error :: "('t, 'f) log_env \<Rightarrow> tag_order \<Rightarrow> 't \<Rightarrow> string \<Rightarrow> logger \<Rightarrow> log_files \<Rightarrow> log_files option" where
  "Logger_Error env ord t message lg fs = Logger_Log env ord lg (new_log t LevelError TypeGeneric (GenericEvent message)) fs"

definition Logger_Warn :: "('t, 'f) log_env \<Rightarrow> tag_order \<Rightarrow> 't \<Rightarrow> string \<Rightarrow> logger \<Rightarrow> log_files \<Rightarrow> log_files option" where
  "Logger_Warn env ord t message lg fs = Logger_Log env ord lg (new_log t LevelWarn TypeGeneric (GenericEvent message)) fs"

definition Logger_Info :: "('t, 'f) log_env \<Rightarrow> tag_order \<Rightarrow> 't \<Rightarrow> string \<Rightarrow> logger \<Rightarrow> log_files \<Rightarrow> log_files option" where
  "Logger_Info env ord t message lg fs = Logger_Log env ord lg (new_log t LevelInfo TypeGeneric (GenericEvent message)) fs"

definition Logger_DebugHigh :: "('t, 'f) log_env \<Rightarrow> tag_order \<Rightarrow> 't \<Rightarrow> string \<Rightarrow> logger \<Rightarrow> log_files \<Rightarrow> log_files option" where
  "Logger_DebugHigh env ord t message lg fs = Logger_Log env ord lg (new_log t LevelDebugHigh TypeGeneric (GenericEvent message)) fs"

definition Logger_Debug :: "('t, 'f) log_env \<Rightarrow> tag_order \<Rightarrow> 't \<Rightarrow> string \<Rightarrow> logger \<Rightarrow> log_files \<Rightarrow> log_files option" where
  "Logger_Debug env ord t message lg fs = Logger_Log env ord lg (new_log t LevelDebug TypeGeneric (GenericEvent message)) fs"

definition Logger_DebugLow :: "('t, 'f) log_env \<Rightarrow> tag_order \<Rightarrow> 't \<Rightarrow> string \<Rightarrow> logger \<Rightarrow> log_files \<Rightarrow> log_files option" where
  "Logger_DebugLow env ord t message lg fs = Logger_Log env ord lg (new_log t LevelDebugLow TypeGeneric (GenericEvent message)) fs"

definition Logger_Epoch :: "('t, 'f) log_env \<Rightarrow> tag_order \<Rightarrow> 't \<Rightarrow> bytes \<Rightarrow> logger \<Rightarrow> log_files \<Rightarrow> log_files option" where
  "Logger_Epoch env ord t hash lg fs = Logger_Log env ord lg (new_log t LevelInfo TypeEpoch (EpochEvent hash)) fs"

definition Logger_Usage :: "('t, 'f) log_env \<Rightarrow> tag_order \<Rightarrow> 't \<Rightarrow> 'f \<Rightarrow> 'f \<Rightarrow> u64 \<Rightarrow> logger \<Rightarrow> log_files \<Rightarrow> log_files option" where
  "Logger_Usage env ord t cpu memory network lg fs = Logger_Log env ord lg (new_log t LevelInfo TypeUsage (UsageEvent cpu memory network)) fs"

definition Logger_OrderConfirmed :: "('t, 'f) log_env \<Rightarrow> tag_order \<Rightarrow> 't \<Rightarrow> u8 \<Rightarrow> string \<Rightarrow> logger \<Rightarrow> log_files \<Rightarrow> log_files option" where
  "Logger_OrderConfirmed env ord t ty orderID lg fs = Logger_Log env ord lg (new_log t ty TypeOrderConfirmed (OrderConfirmedEvent orderID)) fs"

definition Logger_OrderMatch :: "('t, 'f) log_env \<Rightarrow> tag_order \<Rightarrow> 't \<Rightarrow> u8 \<Rightarrow> string \<Rightarrow> string \<Rightarrow> string \<Rightarrow> logger \<Rightarrow> log_files \<Rightarrow> log_files option" where
  "Logger_OrderMatch env ord t ty i buyID sellID lg fs = Logger_Log env ord lg (new_log t ty TypeOrderMatch (OrderMatchEvent i buyID sellID)) fs"

definition Logger_BuyOrderReceived :: "('t, 'f) log_env \<Rightarrow> tag_order \<Rightarrow> 't \<Rightarrow> u8 \<Rightarrow> string \<Rightarrow> string \<Rightarrow> logger \<Rightarrow> log_files \<Rightarrow> log_files option" where
  "Logger_BuyOrderReceived env ord t ty i fragmentID lg fs = Logger_Log env ord lg (new_log t ty TypeOrderReceived (OrderReceivedEvent (Some i) None fragmentID)) fs"

definition Logger_SellOrderReceived :: "('t, 'f) log_env \<Rightarrow> tag_order \<Rightarrow> 't \<Rightarrow> u8 \<Rightarrow> string \<Rightarrow> string \<Rightarrow> logger \<Rightarrow> log_files \<Rightarrow> log_files option" where
  "Logger_SellOrderReceived env ord t ty i fragmentID lg fs = Logger_Log env ord lg (new_log t ty TypeOrderReceived (OrderReceivedEvent None (Some i) fragmentID)) fs"

definition Logger_Network :: "('t, 'f) log_env \<Rightarrow> tag_order \<Rightarrow> 't \<Rightarrow> u8 \<Rightarrow> string \<Rightarrow> logger \<Rightarrow> log_files \<Rightarrow> log_files option" where
  "Logger_Network env ord t ty message lg fs = Logger_Log env ord lg (new_log t ty TypeNetwork (NetworkEvent message)) fs"

definition Logger_Compute :: "('t, 'f) log_env \<Rightarrow> tag_order \<Rightarrow> 't \<Rightarrow> u8 \<Rightarrow> string \<Rightarrow> logger \<Rightarrow> log_files \<Rightarrow> log_files option" where
  "Logger_Compute env ord t ty message lg fs = Logger_Log env ord lg (new_log t ty TypeCompute (ComputeEvent message)) fs"

subsection \<open>The default logger\<close>

text \<open>The loggers of the program by their number; \<open>StdoutLogger\<close> is the first.\<close>

record log_state =
  Loggers :: "nat \<Rightarrow> logger"
  defaultLogger :: nat
  LogFiles :: log_files

definition StdoutLogger :: nat where "StdoutLogger = 0"

definition stdout_options :: log_options where
  "stdout_options = \<lparr>OptPlugins = [Some ''stdout''], OptTags = None, OptFilterLevel = LevelWarn, OptFilterEvents = []\<rparr>"

definition initial_logs :: "log_files \<Rightarrow> log_state" where
  "initial_logs fs =
     (case Logger_Start (NewLogger stdout_options) fs of (lg, fs) \<Rightarrow> \<lparr>Loggers = (\<lambda>_. lg), defaultLogger = StdoutLogger, LogFiles = fs\<rparr>)"

definition SetFilterLevel :: "u8 \<Rightarrow> log_state \<Rightarrow> log_state" where
  "SetFilterLevel l s = s\<lparr>Loggers := (Loggers s)(defaultLogger s := (Loggers s (defaultLogger s))\<lparr>LgFilterLevel := l\<rparr>)\<rparr>"

definition SetFilterEvents :: "string list \<Rightarrow> log_state \<Rightarrow> log_state" where
  "SetFilterEvents events s =
     s\<lparr>Loggers := (Loggers s)(defaultLogger s := (Loggers s (defaultLogger s))\<lparr>LgFilterEvents := eventListToMap events\<rparr>)\<rparr>"

definition SetDefaultLogger :: "nat \<Rightarrow> log_state \<Rightarrow> log_state" where
  "SetDefaultLogger lg s =
     (let fs = Logger_Stop (Loggers s (defaultLogger s)) (LogFiles s)
      in case Logger_Start (Loggers s lg) fs of
           (started, fs) \<Rightarrow> s\<lparr>Loggers := (Loggers s)(lg := started), defaultLogger := lg, LogFiles := fs\<rparr>)"

definition ResetDefaultLogger :: "log_state \<Rightarrow> log_state" where
  "ResetDefaultLogger s = SetDefaultLogger StdoutLogger s"

definition on_default :: "(logger \<Rightarrow> log_files \<Rightarrow> log_files option) \<Rightarrow> log_state \<Rightarrow> log_state option" where
  "on_default f s = map_option (\<lambda>fs. s\<lparr>LogFiles := fs\<rparr>) (f (Loggers s (defaultLogger s)) (LogFiles s))"

definition log_Error :: "('t, 'f) log_env \<Rightarrow> tag_order \<Rightarrow> 't \<Rightarrow> string \<Rightarrow> log_state \<Rightarrow> log_state option" where
  "log_Error env ord t message = on_default (Logger_Error env ord t message)"

definition log_Warn :: "('t, 'f) log_env \<Rightarrow> tag_order \<Rightarrow> 't \<Rightarrow> string \<Rightarrow> log_state \<Rightarrow> log_state option" where
  "log_Warn env ord t message = on_default (Logger_Warn env ord t message)"

definition log_Info :: "('t, 'f) log_env \<Rightarrow> tag_order \<Rightarrow> 't \<Rightarrow> string \<Rightarrow> log_state \<Rightarrow> log_state option" where
  "log_Info env ord t message = on_default (Logger_Info env ord t message)"

definition log_DebugHigh :: "('t, 'f) log_env \<Rightarrow> tag_order \<Rightarrow> 't \<Rightarrow> string \<Rightarrow> log_state \<Rightarrow> log_state option" where
  "log_DebugHigh env ord t message = on_default (Logger_DebugHigh env ord t message)"

definition log_Debug :: "('t, 'f) log_env \<Rightarrow> tag_order \<Rightarrow> 't \<Rightarrow> string \<Rightarrow> log_state \<Rightarrow> log_state option" where
  "log_Debug env ord t message = on_default (Logger_Debug env ord t message)"

definition log_DebugLow :: "('t, 'f) log_env \<Rightarrow> tag_order \<Rightarrow> 't \<Rightarrow> string \<Rightarrow> log_state \<Rightarrow> log_state option" where
  "log_DebugLow env ord t message = on_default (Logger_DebugLow env ord t message)"

definition log_Epoch :: "('t, 'f) log_env \<Rightarrow> tag_order \<Rightarrow> 't \<Rightarrow> bytes \<Rightarrow> log_state \<Rightarrow> log_state option" where
  "log_Epoch env ord t hash = on_default (Logger_Epoch env ord t hash)"

definition log_Usage :: "('t, 'f) log_env \<Rightarrow> tag_order \<Rightarrow> 't \<Rightarrow> 'f \<Rightarrow> 'f \<Rightarrow> u64 \<Rightarrow> log_state \<Rightarrow> log_state option" where
  "log_Usage env ord t cpu memory network = on_default (Logger_Usage env ord t cpu memory network)"

definition log_OrderConfirmed :: "('t, 'f) log_env \<Rightarrow> tag_order \<Rightarrow> 't \<Rightarrow> u8 \<Rightarrow> string \<Rightarrow> log_state \<Rightarrow> log_state option" where
  "log_OrderConfirmed env ord t ty orderID = on_default (Logger_OrderConfirmed env ord t ty orderID)"

definition log_OrderMatch :: "('t, 'f) log_env \<Rightarrow> tag_order \<Rightarrow> 't \<Rightarrow> u8 \<Rightarrow> string \<Rightarrow> string \<Rightarrow> string \<Rightarrow> log_state \<Rightarrow> log_state option" where
  "log_OrderMatch env ord t ty i buyID sellID = on_default (Logger_OrderMatch env ord t ty i buyID sellID)"

definition log_BuyOrderReceived :: "('t, 'f) log_env \<Rightarrow> tag_order \<Rightarrow> 't \<Rightarrow> u8 \<Rightarrow> string \<Rightarrow> string \<Rightarrow> log_state \<Rightarrow> log_state option" where
  "log_BuyOrderReceived env ord t ty i fragmentID = on_default (Logger_BuyOrderReceived env ord t ty i fragmentID)"

definition log_SellOrderReceived :: "('t, 'f) log_env \<Rightarrow> tag_order \<Rightarrow> 't \<Rightarrow> u8 \<Rightarrow> string \<Rightarrow> string \<Rightarrow> log_state \<Rightarrow> log_state option" where
  "log_SellOrderReceived env ord t ty i fragmentID = on_default (Logger_SellOrderReceived env ord t ty i fragmentID)"

definition log_Network :: "('t, 'f) log_env \<Rightarrow> tag_order \<Rightarrow> 't \<Rightarrow> u8 \<Rightarrow> string \<Rightarrow> log_state \<Rightarrow> log_state option" where
  "log_Network env ord t ty message = on_default (Logger_Network env ord t ty message)"

definition log_Compute :: "('t, 'f) log_env \<Rightarrow> tag_order \<Rightarrow> 't \<Rightarrow> u8 \<Rightarrow> string \<Rightarrow> log_state \<Rightarrow> log_state option" where
  "log_Compute env ord t ty message = on_default (Logger_Compute env ord t ty message)"

subsection \<open>A log is read as it was written\<close>

text \<open>What is asked of the texts of times and numbers: they are read as what they stand for. A number that is written as a whole one is
  covered by the printing of documents.\<close>

definition log_texts_ok :: "('t, 'f) log_env \<Rightarrow> bool" where
  "log_texts_ok env \<longleftrightarrow>
     (\<forall>t s. time_json env t = Some s \<longrightarrow> ascii s \<and> time_read env s = Some t) \<and>
     (\<forall>x s. float_json env x = Some s \<longrightarrow> float_read env s = Some x)"

definition whole :: "('t, 'f) log_env \<Rightarrow> 'f \<Rightarrow> bool" where
  "whole env x \<longleftrightarrow> (\<exists>i. float_json env x = Some (int_text i))"

fun event_ok :: "('t, 'f) log_env \<Rightarrow> string \<Rightarrow> 'f log_event \<Rightarrow> bool" where
  "event_ok env ty (GenericEvent m) \<longleftrightarrow> ty = TypeGeneric \<and> ascii m"
| "event_ok env ty (EpochEvent h) \<longleftrightarrow> ty = TypeEpoch \<and> length h = 32"
| "event_ok env ty (UsageEvent c m n) \<longleftrightarrow> ty = TypeUsage \<and> whole env c \<and> whole env m"
| "event_ok env ty (OrderConfirmedEvent i) \<longleftrightarrow> ty = TypeOrderConfirmed \<and> ascii i"
| "event_ok env ty (OrderMatchEvent i b s) \<longleftrightarrow> ty = TypeOrderMatch \<and> ascii i \<and> ascii b \<and> ascii s"
| "event_ok env ty (OrderReceivedEvent b s f) \<longleftrightarrow> ty = TypeOrderReceived \<and> (\<forall>t\<in>set_option b \<union> set_option s. ascii t) \<and> ascii f"
| "event_ok env ty (NetworkEvent m) \<longleftrightarrow> ty = TypeNetwork \<and> ascii m"
| "event_ok env ty (ComputeEvent m) \<longleftrightarrow> ty = TypeCompute \<and> ascii m"

definition log_ok :: "('t, 'f) log_env \<Rightarrow> ('t, 'f) log_entry \<Rightarrow> bool" where
  "log_ok env l \<longleftrightarrow> time_json env (LogTimestamp l) \<noteq> None \<and> (\<exists>ev. LogEvent l = Some ev \<and> event_ok env (LogEventType l) ev) \<and>
     (\<forall>kvs. LogTags l = Some kvs \<longrightarrow> (\<forall>(k, v)\<in>set kvs. ascii k \<and> ascii v))"

lemmas event_types = TypeGeneric_def TypeEpoch_def TypeUsage_def TypeOrderConfirmed_def TypeOrderMatch_def TypeOrderReceived_def
  TypeNetwork_def TypeCompute_def

lemma event_json_plain: "event_ok env ty ev \<Longrightarrow> \<exists>j. event_json env ev = Some j \<and> plain j"
  by (cases ev) (auto simp: whole_def json_int_def split: option.splits)

lemma event_json_read:
  assumes "log_texts_ok env" "event_ok env ty ev" "event_json env ev = Some j"
  shows "read_event env ty (Some j) old = Inr (Some ev)"
proof (cases ev)
  case (UsageEvent c m n)
  then obtain x y where "float_json env c = Some x" "float_json env m = Some y" using assms(2) by (auto simp: whole_def)
  moreover from this have "float_read env x = Some c" "float_read env y = Some m" using assms(1) by (auto simp: log_texts_ok_def)
  ultimately show ?thesis
    using assms(2,3) UsageEvent json_to_uint_json [of n]
    by (auto simp: read_event_def event_types read_usage_def names read_float_def json_int_def)
next
  case (EpochEvent h)
  then show ?thesis using assms(2,3) by (auto simp: read_event_def event_types read_epoch_def names read_hash_def read_array_json)
next
  case (OrderReceivedEvent b s f)
  then show ?thesis using assms(2,3)
    by (cases b; cases s) (auto simp: read_event_def event_types read_received_def names read_string_def read_pointer_def)
qed (use assms(2,3) in \<open>auto simp: read_event_def event_types read_message_def read_confirmed_def read_match_def names read_string_def\<close>)

lemma tags_json_ok: "tags_ok (tags_json tags)"
  by (auto simp: tags_ok_def tags_json_def split: option.splits)

lemma Log_UnmarshalJSON_json:
  assumes "log_texts_ok env" "log_ok env l"
  shows "\<exists>j. Log_json env l = Some j \<and> Log_UnmarshalJSON env l0 (print_json j) = Inr (l\<lparr>LogTags := LogTags l0\<rparr>)"
proof -
  obtain t ev where t: "time_json env (LogTimestamp l) = Some t" and ev: "LogEvent l = Some ev" "event_ok env (LogEventType l) ev"
    using assms(2) unfolding log_ok_def by blast
  have r: "ascii t" "time_read env t = Some (LogTimestamp l)" using assms(1) t unfolding log_texts_ok_def by blast+
  obtain j where j: "event_json env ev = Some j" "plain j" using event_json_plain [OF ev(2)] by blast
  let ?j = "JObject [(''timestamp'', JString t), (''level'', json_int (uint (LogLevel l))), (''eventType'', JString (LogEventType l)),
            (''event'', j), (''tags'', tags_json (LogTags l))]"
  have "ascii (LogEventType l)" using ev(2) by (cases ev) (simp_all add: event_types)
  moreover have "plain (tags_json (LogTags l))" using assms(2) by (auto simp: tags_json_def log_ok_def split: option.splits)
  ultimately have "plain ?j" using r(1) j(2) by simp
  then have "Log_UnmarshalJSON env l0 (print_json ?j) = Inr (l\<lparr>LogTags := LogTags l0\<rparr>)"
    using r(2) event_json_read [OF assms(1) ev(2) j(1)] ev(1)
    by (simp add: Log_UnmarshalJSON_def read_raw_def names read_time_def read_string_def tags_json_ok)
  moreover have "Log_json env l = Some ?j" using t ev(1) j(1) by (simp add: Log_json_def)
  ultimately show ?thesis by blast
qed

subsection \<open>What is logged\<close>

text \<open>A log that passes the filters, and its line in a file.\<close>

definition shown :: "logger \<Rightarrow> ('t, 'f) log_entry \<Rightarrow> bool" where
  "shown lg l \<longleftrightarrow> (LgFilterEvents lg = {} \<or> LogEventType l \<in> LgFilterEvents lg) \<and> LogLevel l \<le> LgFilterLevel lg"

definition file_line :: "('t, 'f) log_env \<Rightarrow> logger \<Rightarrow> ('t, 'f) log_entry \<Rightarrow> string" where
  "file_line env lg l = print_json (the (Log_json env (l\<lparr>LogTags := LgTags lg\<rparr>))) @ [CHR 0x0A]"

fun log_all :: "('t, 'f) log_env \<Rightarrow> tag_order \<Rightarrow> logger \<Rightarrow> ('t, 'f) log_entry list \<Rightarrow> log_files \<Rightarrow> log_files option" where
  "log_all env ord lg [] fs = Some fs"
| "log_all env ord lg (l # ls) fs = Option.bind (Logger_Log env ord lg l fs) (log_all env ord lg ls)"

text \<open>A logger that was started on one file.\<close>

definition logs_to :: "logger \<Rightarrow> log_files \<Rightarrow> string \<Rightarrow> string \<Rightarrow> bool" where
  "logs_to lg fs path t \<longleftrightarrow>
     (\<exists>n. map PluginFile (LgPlugins lg) = [Some (HFile n)] \<and> FsHandles fs n = Some path) \<and> FsFiles fs path = Some t"

lemma Logger_Log_file:
  assumes "logs_to lg fs path t" "Log_json env (l\<lparr>LogTags := LgTags lg\<rparr>) \<noteq> None"
  shows "\<exists>fs'. Logger_Log env ord lg l fs = Some fs' \<and> logs_to lg fs' path (t @ (if shown lg l then file_line env lg l else [])) \<and>
    FsPrinted fs' = FsPrinted fs"
proof (cases "shown lg l")
  case True
  obtain j where j: "Log_json env (l\<lparr>LogTags := LgTags lg\<rparr>) = Some j" using assms(2) by blast
  obtain p n where p: "LgPlugins lg = [p]" "PluginFile p = Some (HFile n)" "FsHandles fs n = Some path" "FsFiles fs path = Some t"
    using assms(1) by (auto simp: logs_to_def map_eq_Cons_conv)
  show ?thesis using True j p by (auto simp: Logger_Log_def shown_def FilePlugin_Log_def logs_to_def file_line_def printed_def)
next
  case False
  then show ?thesis using assms(1) by (auto simp: Logger_Log_def shown_def)
qed

lemma log_all_file:
  assumes "logs_to lg fs path t" "\<forall>l\<in>set ls. Log_json env (l\<lparr>LogTags := LgTags lg\<rparr>) \<noteq> None"
  shows "\<exists>fs'. log_all env ord lg ls fs = Some fs' \<and> logs_to lg fs' path (t @ concat (map (file_line env lg) (filter (shown lg) ls))) \<and>
    FsPrinted fs' = FsPrinted fs"
  using assms
proof (induction ls arbitrary: fs t)
  case (Cons l ls)
  obtain fs1 where 1: "Logger_Log env ord lg l fs = Some fs1" "logs_to lg fs1 path (t @ (if shown lg l then file_line env lg l else []))"
    "FsPrinted fs1 = FsPrinted fs" using Logger_Log_file [OF Cons.prems(1), of env l] Cons.prems(2) by auto
  obtain fs' where "log_all env ord lg ls fs1 = Some fs'" "FsPrinted fs' = FsPrinted fs1"
    "logs_to lg fs' path ((t @ (if shown lg l then file_line env lg l else [])) @ concat (map (file_line env lg) (filter (shown lg) ls)))"
    using Cons.IH [OF 1(2)] Cons.prems(2) by auto
  then show ?case using 1(1,3) by (intro exI [of _ fs']) (simp split: if_splits)
qed simp

text \<open>A new logger with a file writes nowhere until it is started; started, it goes on at the end of the file.\<close>

lemma Logger_not_started:
  assumes "shown (NewLogger opt) l" "OptPlugins opt = [Some path]"
  shows "Logger_Log env ord (NewLogger opt) l fs = Some (fs\<lparr>FsPrinted := FsPrinted fs @ [ErrNilFile]\<rparr>)"
  using assms by (auto simp: Logger_Log_def shown_def NewLogger_def NewFilePlugin_def FilePlugin_Log_def printed_def)

lemma Logger_Start_file:
  assumes "OptPlugins opt = [Some path]" "path \<noteq> ''stdout''" "path \<noteq> ''stderr''" "FsRefuses fs path = None"
  shows "\<exists>lg fs'. Logger_Start (NewLogger opt) fs = (lg, fs') \<and>
    logs_to lg fs' path (case FsFiles fs path of None \<Rightarrow> [] | Some t \<Rightarrow> t) \<and> (\<forall>l. shown lg l \<longleftrightarrow> shown (NewLogger opt) l) \<and> LgTags lg = OptTags opt"
  using assms by (auto simp: Logger_Start_def NewLogger_def NewFilePlugin_def FilePlugin_Start_def printed_def logs_to_def shown_def)

text \<open>A started logger with a file: the lines of the logs that are shown, each of which can be read.\<close>

lemma started_logger_file:
  fixes env :: "('t, 'f) log_env" and ls :: "('t, 'f) log_entry list"
  assumes "log_texts_ok env" "OptPlugins opt = [Some path]" "path \<noteq> ''stdout''" "path \<noteq> ''stderr''" "FsRefuses fs path = None"
    and "\<forall>l\<in>set ls. log_ok env (l\<lparr>LogTags := OptTags opt\<rparr>)"
  shows "\<exists>lg fs1 fs2. Logger_Start (NewLogger opt) fs = (lg, fs1) \<and> log_all env ord lg ls fs1 = Some fs2 \<and>
    FsFiles fs2 path = Some ((case FsFiles fs path of None \<Rightarrow> [] | Some t \<Rightarrow> t) @
      concat (map (file_line env lg) (filter (shown (NewLogger opt)) ls))) \<and>
    (\<forall>l\<in>set ls. \<exists>j. file_line env lg l = print_json j @ [CHR 0x0A] \<and>
      Log_UnmarshalJSON env l0 (print_json j) = Inr (l\<lparr>LogTags := LogTags l0\<rparr>))"
proof -
  let ?t = "case FsFiles fs path of None \<Rightarrow> [] | Some t \<Rightarrow> t"
  obtain lg fs1 where 1: "Logger_Start (NewLogger opt) fs = (lg, fs1)" "logs_to lg fs1 path ?t"
    "\<And>l. shown lg (l :: ('t, 'f) log_entry) \<longleftrightarrow> shown (NewLogger opt) l" "LgTags lg = OptTags opt"
    using Logger_Start_file [OF assms(2-5)] by metis
  have j: "\<exists>j. Log_json env (l\<lparr>LogTags := LgTags lg\<rparr>) = Some j \<and>
      Log_UnmarshalJSON env l0 (print_json j) = Inr (l\<lparr>LogTags := LogTags l0\<rparr>)" if "l \<in> set ls" for l
    using Log_UnmarshalJSON_json [OF assms(1), of "l\<lparr>LogTags := LgTags lg\<rparr>" l0] assms(6) that 1(4) by simp
  then obtain fs2 where 2: "log_all env ord lg ls fs1 = Some fs2" "logs_to lg fs2 path (?t @ concat (map (file_line env lg) (filter (shown lg) ls)))"
    using log_all_file [OF 1(2), of ls env ord] by auto
  have "filter (shown lg) ls = filter (shown (NewLogger opt)) ls" by (rule filter_cong [OF refl 1(3)])
  then have "FsFiles fs2 path = Some (?t @ concat (map (file_line env lg) (filter (shown (NewLogger opt)) ls)))"
    using 2(2) by (simp add: logs_to_def)
  moreover have "\<forall>l\<in>set ls. \<exists>j. file_line env lg l = print_json j @ [CHR 0x0A] \<and>
      Log_UnmarshalJSON env l0 (print_json j) = Inr (l\<lparr>LogTags := LogTags l0\<rparr>)"
    using j by (fastforce simp: file_line_def)
  ultimately show ?thesis using 1(1) 2(1) by blast
qed

text \<open>A log without an event panics when it is written to a standard stream.\<close>

lemma Logger_Log_panics:
  assumes "shown lg l" "LgPlugins lg = [p]" "PluginFile p = Some HStdout" "LogEvent l = None"
  shows "Logger_Log env ord lg l fs = None"
  using assms by (auto simp: Logger_Log_def shown_def FilePlugin_Log_def)

subsection \<open>Going back to the first logger\<close>

text \<open>\<^verbatim>\<open>ResetDefaultLogger\<close> goes back to the first logger, but to the filters that this logger was given in between.\<close>

lemma Logger_Start_filters:
  "LgFilterLevel (fst (Logger_Start lg fs)) = LgFilterLevel lg" "LgFilterEvents (fst (Logger_Start lg fs)) = LgFilterEvents lg"
  by (simp_all add: Logger_Start_def split: prod.split)

lemma reset_keeps_filters:
  assumes "defaultLogger s = StdoutLogger"
  shows "defaultLogger (ResetDefaultLogger (SetFilterLevel l s)) = StdoutLogger"
    "LgFilterLevel (Loggers (ResetDefaultLogger (SetFilterLevel l s)) StdoutLogger) = l"
    "LgFilterEvents (Loggers (ResetDefaultLogger (SetFilterEvents events s)) StdoutLogger) = set events"
proof -
  have f: "LgFilterLevel lg' = LgFilterLevel lg \<and> LgFilterEvents lg' = LgFilterEvents lg" if "Logger_Start lg fs = (lg', fs')" for lg fs lg' fs'
    using Logger_Start_filters [of lg fs] that by simp
  show "defaultLogger (ResetDefaultLogger (SetFilterLevel l s)) = StdoutLogger"
    "LgFilterLevel (Loggers (ResetDefaultLogger (SetFilterLevel l s)) StdoutLogger) = l"
    "LgFilterEvents (Loggers (ResetDefaultLogger (SetFilterEvents events s)) StdoutLogger) = set events"
    using assms f
    by (auto simp: ResetDefaultLogger_def SetDefaultLogger_def SetFilterLevel_def SetFilterEvents_def eventListToMap_def Let_def split: prod.split)
qed

text \<open>A logger that takes the place of another one closes the file of that one.\<close>

lemma SetDefaultLogger_closes:
  assumes "logs_to (Loggers s (defaultLogger s)) (LogFiles s) path t" "lg \<noteq> defaultLogger s" "map PluginPath (LgPlugins (Loggers s lg)) = [''stdout'']"
  shows "\<not> logs_to (Loggers (SetDefaultLogger lg s) (defaultLogger s)) (LogFiles (SetDefaultLogger lg s)) path t"
  using assms
  by (auto simp: logs_to_def SetDefaultLogger_def Logger_Stop_def Logger_Start_def FilePlugin_Stop_def FilePlugin_Start_def map_eq_Cons_conv
      printed_def Let_def)

end
