(* ===== verification/Grpc_Swarm.thy ===== *)
theory Grpc_Swarm
  imports Swarm Json
begin

section \<open>The swarm over gRPC: \<^verbatim>\<open>identity/multiaddress.go\<close>, \<^verbatim>\<open>grpc/conn.go\<close>, \<^verbatim>\<open>grpc/swarm.go\<close>, \<^verbatim>\<open>grpc/status.go\<close>\<close>

text \<open>
  The text of a multi-address, calls that are tried again with growing waits, and the swarm client and service on top of
  them. The package \<^verbatim>\<open>go-multiaddr\<close> is a parameter \<open>P\<close>; a base address is given by its text. What is relied on is \<open>package_ok\<close>:
  a text made of a base and an address is parsed into the two. Messages of protobuf are records. The connection is a
  parameter too; the theorems connect the client to the service. A call that does not return is \<open>None\<close>.
\<close>

subsection \<open>Multi-addresses\<close>

record 'm ma_package =
  ma_New :: "string \<Rightarrow> string + 'm"
  ma_Value :: "'m \<Rightarrow> nat \<Rightarrow> string + string"
  ma_Decapsulate :: "'m \<Rightarrow> 'm \<Rightarrow> 'm"
  ma_String :: "'m \<Rightarrow> string"

definition IP4Code :: nat where "IP4Code = 0x0004"
definition IP6Code :: nat where "IP6Code = 0x0029"
definition TCPCode :: nat where "TCPCode = 0x0006"
definition RepublicCode :: nat where "RepublicCode = 0x0065"

definition republic_text :: string where
  "republic_text = ''/republic/''"

definition NewMultiAddressFromString :: "'m ma_package \<Rightarrow> string \<Rightarrow> string + multi_address" where
  "NewMultiAddressFromString P s =
     (case ma_New P s of
        Inl err \<Rightarrow> Inl err
      | Inr multiAddress \<Rightarrow>
          (case ma_Value P multiAddress RepublicCode of
             Inl err \<Rightarrow> Inl err
           | Inr address \<Rightarrow>
               (case ma_New P (republic_text @ address) of
                  Inl err \<Rightarrow> Inl err
                | Inr addressAsMultiAddress \<Rightarrow>
                    Inr \<lparr>MASignature = [], MAAddress = address, MABase = ma_String P (ma_Decapsulate P multiAddress addressAsMultiAddress)\<rparr>)))"

definition MultiAddress_ValueForProtocol :: "'m ma_package \<Rightarrow> multi_address \<Rightarrow> nat \<Rightarrow> string + string" where
  "MultiAddress_ValueForProtocol P m code =
     (if code = RepublicCode then Inr (MAAddress m)
      else (case ma_New P (MABase m) of Inl err \<Rightarrow> Inl err | Inr b \<Rightarrow> ma_Value P b code))"

definition MultiAddress_String :: "multi_address \<Rightarrow> string" where
  "MultiAddress_String m = MABase m @ republic_text @ MAAddress m"

definition MultiAddress_Hash :: "(bytes \<Rightarrow> bytes) \<Rightarrow> multi_address \<Rightarrow> bytes" where
  "MultiAddress_Hash keccak m = keccak (string_bytes (MultiAddress_String m))"

definition MultiAddress_MarshalJSON :: "multi_address \<Rightarrow> string" where
  "MultiAddress_MarshalJSON m = print_json (JString (if MAAddress m = [] then [] else MultiAddress_String m))"

text \<open>The signature is not part of the document; the receiver keeps its own.\<close>

definition MultiAddress_UnmarshalJSON :: "'m ma_package \<Rightarrow> multi_address \<Rightarrow> string \<Rightarrow> (json_error + string) + multi_address" where
  "MultiAddress_UnmarshalJSON P m data =
     (case unmarshal (\<lambda>v. if v = JNull then Inr [] else json_to_string v) data of
        Inl err \<Rightarrow> Inl (Inl err)
      | Inr s \<Rightarrow>
          if s = [] then Inr m
          else
            (case NewMultiAddressFromString P s of
               Inl err \<Rightarrow> Inl (Inr err)
             | Inr n \<Rightarrow> Inr (m\<lparr>MABase := MABase n, MAAddress := MAAddress n\<rparr>)))"

definition package_ok :: "'m ma_package \<Rightarrow> string set \<Rightarrow> address set \<Rightarrow> bool" where
  "package_ok P bases addrs \<longleftrightarrow>
     (\<forall>b\<in>bases. \<forall>a\<in>addrs. \<exists>m am. ma_New P (b @ republic_text @ a) = Inr m \<and> ma_Value P m RepublicCode = Inr a \<and>
        ma_New P (republic_text @ a) = Inr am \<and> ma_String P (ma_Decapsulate P m am) = b)"

definition ma_valid :: "string set \<Rightarrow> address set \<Rightarrow> multi_address \<Rightarrow> bool" where
  "ma_valid bases addrs m \<longleftrightarrow> MABase m \<in> bases \<and> MAAddress m \<in> addrs"

lemma MultiAddress_parse:
  assumes "package_ok P bases addrs" "ma_valid bases addrs m"
  shows "NewMultiAddressFromString P (MultiAddress_String m) = Inr (m\<lparr>MASignature := []\<rparr>)"
proof -
  obtain v am where "ma_New P (MABase m @ republic_text @ MAAddress m) = Inr v" "ma_Value P v RepublicCode = Inr (MAAddress m)"
    "ma_New P (republic_text @ MAAddress m) = Inr am" "ma_String P (ma_Decapsulate P v am) = MABase m"
    using assms unfolding package_ok_def ma_valid_def by meson
  then show ?thesis by (simp add: NewMultiAddressFromString_def MultiAddress_String_def)
qed

lemma MultiAddress_JSON:
  assumes "package_ok P bases addrs" "ma_valid bases addrs m" "ascii (MultiAddress_String m)" "MAAddress m \<noteq> []"
  shows "MultiAddress_UnmarshalJSON P m0 (MultiAddress_MarshalJSON m) = Inr (m\<lparr>MASignature := MASignature m0\<rparr>)"
proof -
  have "unmarshal (\<lambda>v. if v = JNull then Inr [] else json_to_string v) (MultiAddress_MarshalJSON m) = Inr (MultiAddress_String m)"
    using assms(3,4) by (simp add: MultiAddress_MarshalJSON_def)
  moreover have "MultiAddress_String m \<noteq> []" by (simp add: MultiAddress_String_def republic_text_def)
  ultimately show ?thesis using MultiAddress_parse [OF assms(1,2)] by (simp add: MultiAddress_UnmarshalJSON_def)
qed

subsection \<open>Calling again\<close>

text \<open>\<^verbatim>\<open>float64(t) * 1.6\<close>, cut to a whole number. The constant is \<open>7205759403792794 / 2 ^ 52\<close>; the product is rounded to 53 digits, ties
  to even. The conversion of \<open>t\<close> is exact below \<open>2 ^ 53\<close>.\<close>

fun bit_count :: "nat \<Rightarrow> nat" where
  "bit_count n = (if n = 0 then 0 else Suc (bit_count (n div 2)))"

declare bit_count.simps [simp del]

definition grow_nat :: "nat \<Rightarrow> nat" where
  "grow_nat t =
     (let n = t * 7205759403792794;
          s = bit_count n - 53;
          q = n div 2 ^ s;
          r = n mod 2 ^ s;
          up = (2 ^ s < 2 * r \<or> 2 * r = 2 ^ s \<and> odd q)
      in (if up then q + 1 else q) * 2 ^ s div 2 ^ 52)"

definition grow :: "int \<Rightarrow> int" where
  "grow t = (if t < 0 then - int (grow_nat (nat (- t))) else int (grow_nat (nat t)))"

definition grow_max :: "int \<Rightarrow> int \<Rightarrow> int" where
  "grow_max maxMs t = (if maxMs < grow t then maxMs else grow t)"

text \<open>\<open>wait\<close> waits for a time in milliseconds, and is cut short with an error when the context is done.\<close>

partial_function (option) Backoff_loop ::
    "('w \<Rightarrow> 'w \<times> ('e + 'a)) \<Rightarrow> (int \<Rightarrow> 'w \<Rightarrow> 'w \<times> string option) \<Rightarrow> (int \<Rightarrow> int) \<Rightarrow> int \<Rightarrow> 'w \<Rightarrow> ('w \<times> (string \<times> 'e + 'a)) option" where
  "Backoff_loop f wait nextMs timeoutMs w =
     (case f w of
        (w, r) \<Rightarrow>
          (case r of
             Inr x \<Rightarrow> Some (w, Inr x)
           | Inl err \<Rightarrow>
               (case wait timeoutMs w of
                  (w, c) \<Rightarrow>
                    (case c of
                       Some e \<Rightarrow> Some (w, Inl (e, err))
                     | None \<Rightarrow> Backoff_loop f wait nextMs (nextMs timeoutMs) w))))"

definition Backoff where
  "Backoff f wait = Backoff_loop f wait grow 1000"

definition BackoffMax where
  "BackoffMax f wait maxMs = Backoff_loop f wait (grow_max maxMs) 1000"

lemma bit_count_lower: "0 < n \<Longrightarrow> 2 ^ (bit_count n - 1) \<le> n"
proof (induction n rule: bit_count.induct)
  case (1 n)
  show ?case
  proof (cases "n div 2 = 0")
    case True
    then show ?thesis using 1(2) by (subst bit_count.simps) (simp add: bit_count.simps [of 0])
  next
    case False
    then have "0 < bit_count (n div 2)" by (subst bit_count.simps) simp
    then have "bit_count n - 1 = Suc (bit_count (n div 2) - 1)" using 1(2) by (subst bit_count.simps) simp
    moreover have "2 ^ (bit_count (n div 2) - 1) \<le> n div 2" using 1 False by simp
    ultimately show ?thesis by simp
  qed
qed

text \<open>A wait grows by a factor between 1 and 2.\<close>

lemma grow_nat_bounds: "t \<le> grow_nat t" "grow_nat t \<le> 2 * t"
proof -
  define n where "n = t * 7205759403792794"
  define s where "s = bit_count n - 53"
  define v where "v = (if 2 ^ s < 2 * (n mod 2 ^ s) \<or> 2 * (n mod 2 ^ s) = 2 ^ s \<and> odd (n div 2 ^ s) then n div 2 ^ s + 1 else n div 2 ^ s) * 2 ^ s"
  have g: "grow_nat t = v div 2 ^ 52" by (simp add: grow_nat_def n_def s_def v_def Let_def)
  have "t \<le> v div 2 ^ 52 \<and> v div 2 ^ 52 \<le> 2 * t"
  proof (cases "t = 0")
    case True
    then have "v = 0" by (simp add: v_def n_def)
    then show ?thesis using True by simp
  next
    case False
    then have n0: "0 < n" "7205759403792794 \<le> n" by (simp_all add: n_def)
    have "2 ^ s * 2 ^ 52 \<le> n"
    proof (cases "bit_count n \<le> 53")
      case True
      then show ?thesis using n0(2) by (simp add: s_def)
    next
      case False
      then have "s + 52 = bit_count n - 1" by (simp add: s_def)
      moreover have "2 ^ (bit_count n - 1) \<le> n" using bit_count_lower n0(1) by blast
      ultimately show ?thesis by (metis power_add)
    qed
    moreover have "n div 2 ^ s * 2 ^ s \<le> n" "n div 2 ^ s * 2 ^ s \<le> n + 2 ^ s" by (simp_all add: trans_le_add1)
    moreover have "n < n div 2 ^ s * 2 ^ s + 2 ^ s" using dividend_less_div_times [of "2 ^ s" n] by simp
    ultimately have "v \<le> n + 2 ^ s" "n < v + 2 ^ s" "2 ^ s * 2 ^ 52 \<le> n" by (auto simp: v_def)
    then have "v * 2 ^ 52 \<le> n * 2 ^ 52 + n" "n * 2 ^ 52 < v * 2 ^ 52 + n" by simp_all
    then have "v \<le> 2 * t * 2 ^ 52" "t * 2 ^ 52 \<le> v" unfolding n_def by simp_all
    then have "2 * t * 2 ^ 52 div 2 ^ 52 \<ge> v div 2 ^ 52" "t * 2 ^ 52 div 2 ^ 52 \<le> v div 2 ^ 52" by (blast intro: div_le_mono)+
    then show ?thesis by simp
  qed
  then show "t \<le> grow_nat t" "grow_nat t \<le> 2 * t" unfolding g by blast+
qed

text \<open>The waits of \<^verbatim>\<open>BackoffMax\<close>: the first is a second, whatever the maximum is; no later one is longer than the maximum, and if the
  maximum is at least a second none is shorter than the one before.\<close>

lemma backoff_waits:
  "(grow_max maxMs ^^ k) 1000 \<le> max 1000 maxMs" "0 < k \<Longrightarrow> (grow_max maxMs ^^ k) 1000 \<le> maxMs"
  "1000 \<le> maxMs \<Longrightarrow> 1000 \<le> (grow_max maxMs ^^ k) 1000 \<and> (grow_max maxMs ^^ k) 1000 \<le> (grow_max maxMs ^^ Suc k) 1000"
proof -
  have m: "grow_max maxMs t \<le> maxMs" for t by (simp add: grow_max_def)
  have g: "t \<le> maxMs \<Longrightarrow> 0 \<le> t \<Longrightarrow> t \<le> grow_max maxMs t" for t
    using grow_nat_bounds(1) [of "nat t"] by (auto simp: grow_max_def grow_def)
  show "0 < k \<Longrightarrow> (grow_max maxMs ^^ k) 1000 \<le> maxMs" using m by (cases k) simp_all
  then show "(grow_max maxMs ^^ k) 1000 \<le> max 1000 maxMs" by (cases k) auto
  show "1000 \<le> maxMs \<Longrightarrow> 1000 \<le> (grow_max maxMs ^^ k) 1000 \<and> (grow_max maxMs ^^ k) 1000 \<le> (grow_max maxMs ^^ Suc k) 1000"
  proof (induction k)
    case 0
    then show ?case using g [of 1000] by simp
  next
    case (Suc k)
    then have "(grow_max maxMs ^^ Suc k) 1000 \<le> maxMs" using m by simp
    then show ?case using Suc g [of "(grow_max maxMs ^^ Suc k) 1000"] by simp
  qed
qed

text \<open>A call that fails \<open>k\<close> times and then succeeds is answered, when the context lasts so long.\<close>

fun fails_then :: "('w \<Rightarrow> 'w \<times> ('e + 'a)) \<Rightarrow> (int \<Rightarrow> 'w \<Rightarrow> 'w \<times> string option) \<Rightarrow> (int \<Rightarrow> int) \<Rightarrow> nat \<Rightarrow> int \<Rightarrow> 'w \<Rightarrow> ('w \<times> 'a) option" where
  "fails_then f wait nextMs 0 t w = (case f w of (w, Inr x) \<Rightarrow> Some (w, x) | _ \<Rightarrow> None)"
| "fails_then f wait nextMs (Suc k) t w =
     (case f w of
        (w, Inl _) \<Rightarrow> (case wait t w of (w, None) \<Rightarrow> fails_then f wait nextMs k (nextMs t) w | _ \<Rightarrow> None)
      | _ \<Rightarrow> None)"

lemma Backoff_loop_succeeds: "fails_then f wait nextMs k t w = Some (w', x) \<Longrightarrow> Backoff_loop f wait nextMs t w = Some (w', Inr x)"
proof (induction k arbitrary: t w)
  case 0
  then show ?case by (subst Backoff_loop.simps) (auto split: prod.splits sum.splits)
next
  case (Suc k)
  then show ?case by (subst Backoff_loop.simps) (auto split: prod.splits sum.splits option.splits)
qed

subsection \<open>Messages\<close>

record pb_signed =
  pb_Signature :: bytes
  pb_MultiAddress :: string

record pb_query =
  pb_QuerySignature :: bytes
  pb_Address :: string

record pb_status =
  pb_StatusAddress :: string
  pb_Bootstrapped :: bool
  pb_Peers :: int

datatype service_error = ErrParse string | ErrUpdateDHT dht_error | ErrServerQuery identity_error | ErrStream string

definition signed_text :: "multi_address \<Rightarrow> pb_signed" where
  "signed_text m = \<lparr>pb_Signature = MASignature m, pb_MultiAddress = MultiAddress_String m\<rparr>"

definition read_signed :: "'m ma_package \<Rightarrow> pb_signed \<Rightarrow> string + multi_address" where
  "read_signed P r = map_sum id (\<lambda>m. m\<lparr>MASignature := pb_Signature r\<rparr>) (NewMultiAddressFromString P (pb_MultiAddress r))"

lemma read_signed_text: "package_ok P bases addrs \<Longrightarrow> ma_valid bases addrs m \<Longrightarrow> read_signed P (signed_text m) = Inr m"
  by (simp add: read_signed_def signed_text_def MultiAddress_parse)

subsection \<open>The service\<close>

definition SwarmService_Ping ::
    "'m ma_package \<Rightarrow> 'w client \<Rightarrow> (multi_address \<Rightarrow> bool) \<Rightarrow> 'w \<Rightarrow> dht \<Rightarrow> pb_signed \<Rightarrow> ('w \<times> dht \<times> (service_error + pb_signed)) option" where
  "SwarmService_Ping P C verified w d request =
     (case read_signed P request of
        Inl err \<Rightarrow> Some (w, d, Inl (ErrParse err))
      | Inr from \<Rightarrow>
          map_option (\<lambda>(w, d, multiAddr, e). (w, d, case e of Some err \<Rightarrow> Inl (ErrUpdateDHT err) | None \<Rightarrow> Inr (signed_text multiAddr)))
            (Server_Ping C verified w d from))"

text \<open>The end of the stream while a response is sent ends the call without an error.\<close>

fun send_responses :: "('w \<Rightarrow> pb_signed \<Rightarrow> 'w \<times> client_error option) \<Rightarrow> multi_address list \<Rightarrow> 'w \<Rightarrow> 'w \<times> service_error option" where
  "send_responses send [] w = (w, None)"
| "send_responses send (m # ms) w =
     (case send w (signed_text m) of
        (w, None) \<Rightarrow> send_responses send ms w
      | (w, Some EOF_error) \<Rightarrow> (w, None)
      | (w, Some (Other_error err)) \<Rightarrow> (w, Some (ErrStream err)))"

definition SwarmService_Query ::
    "'w client \<Rightarrow> dht \<Rightarrow> ('w \<Rightarrow> pb_signed \<Rightarrow> 'w \<times> client_error option) \<Rightarrow> pb_query \<Rightarrow> 'w \<Rightarrow> ('w \<times> service_error option) option" where
  "SwarmService_Query C d send request w =
     map_option (\<lambda>(multiAddrs, e). case e of Some err \<Rightarrow> (w, Some (ErrServerQuery err)) | None \<Rightarrow> send_responses send multiAddrs w)
       (Server_Query C d (pb_Address request))"

definition StatusService_Status :: "dht \<Rightarrow> pb_status" where
  "StatusService_Status d = \<lparr>pb_StatusAddress = DAddress d, pb_Bootstrapped = True, pb_Peers = int (length (DHT_MultiAddresses d))\<rparr>"

subsection \<open>The client\<close>

text \<open>The network: dialing a host and port, the calls on a connection, and the wait between two tries.\<close>

record ('w, 'c) wire =
  wire_dial :: "'w \<Rightarrow> string \<Rightarrow> 'w \<times> (string + 'c)"
  wire_Ping :: "'c \<Rightarrow> pb_signed \<Rightarrow> 'w \<Rightarrow> 'w \<times> (string + pb_signed)"
  wire_Query :: "'c \<Rightarrow> pb_query \<Rightarrow> 'w \<Rightarrow> 'w \<times> (string + pb_signed list \<times> client_error)"
  wire_wait :: "int \<Rightarrow> 'w \<Rightarrow> 'w \<times> string option"

definition Dial :: "'m ma_package \<Rightarrow> ('w, 'c) wire \<Rightarrow> 'w \<Rightarrow> multi_address \<Rightarrow> 'w \<times> (string + 'c)" where
  "Dial P N w m =
     (case MultiAddress_ValueForProtocol P m IP4Code of
        Inl err \<Rightarrow> (w, Inl err)
      | Inr host \<Rightarrow>
          (case MultiAddress_ValueForProtocol P m TCPCode of
             Inl err \<Rightarrow> (w, Inl err)
           | Inr port \<Rightarrow> wire_dial N w (host @ '':'' @ port)))"

datatype swarm_client_error = ErrDial string | ErrBackoff "string \<times> string" | ErrResponse string | ErrPingFirst swarm_client_error

definition SwarmClient_Ping ::
    "'m ma_package \<Rightarrow> ('w, 'c) wire \<Rightarrow> multi_address \<Rightarrow> 'w \<Rightarrow> multi_address \<Rightarrow> ('w \<times> (swarm_client_error + multi_address)) option" where
  "SwarmClient_Ping P N self w to =
     (case Dial P N w to of
        (w, Inl err) \<Rightarrow> Some (w, Inl (ErrDial err))
      | (w, Inr c) \<Rightarrow>
          map_option (\<lambda>(w, r).
              case r of
                Inl err \<Rightarrow> (w, Inl (ErrBackoff err))
              | Inr response \<Rightarrow> (w, map_sum ErrResponse id (read_signed P response)))
            (Backoff (wire_Ping N c (signed_text self)) (wire_wait N) w))"

text \<open>What a stream carries until it ends; a text that cannot be parsed is left out.\<close>

fun recv_responses :: "'m ma_package \<Rightarrow> pb_signed list \<Rightarrow> client_error \<Rightarrow> multi_address list \<Rightarrow> multi_address list \<times> client_error option" where
  "recv_responses P [] e multiAddrs = (multiAddrs, if e = EOF_error then None else Some e)"
| "recv_responses P (r # rs) e multiAddrs =
     (case read_signed P r of
        Inl err \<Rightarrow> recv_responses P rs e multiAddrs
      | Inr m \<Rightarrow> recv_responses P rs e (multiAddrs @ [m]))"

definition SwarmClient_Query ::
    "'m ma_package \<Rightarrow> ('w, 'c) wire \<Rightarrow> multi_address \<Rightarrow> 'w \<Rightarrow> multi_address \<Rightarrow> address \<Rightarrow> bytes \<Rightarrow>
     ('w \<times> (swarm_client_error + multi_address list \<times> client_error option)) option" where
  "SwarmClient_Query P N self w to query querySignature =
     Option.bind (SwarmClient_Ping P N self w to) (\<lambda>(w, r).
       case r of
         Inl err \<Rightarrow> Some (w, Inl (ErrPingFirst err))
       | Inr _ \<Rightarrow>
           (case Dial P N w to of
              (w, Inl err) \<Rightarrow> Some (w, Inl (ErrDial err))
            | (w, Inr c) \<Rightarrow>
                map_option (\<lambda>(w, r).
                    case r of
                      Inl err \<Rightarrow> (w, Inl (ErrBackoff err))
                    | Inr (rs, e) \<Rightarrow> (w, Inr (recv_responses P rs e [])))
                  (Backoff (wire_Query N c \<lparr>pb_QuerySignature = querySignature, pb_Address = query\<rparr>) (wire_wait N) w)))"

subsection \<open>The client and the service\<close>

text \<open>A connection to a service: it carries the request to it and the answer back; the world is that of the service, with its
  table.\<close>

definition serves ::
    "'m ma_package \<Rightarrow> 'w client \<Rightarrow> (multi_address \<Rightarrow> bool) \<Rightarrow> ('w \<times> dht, 'c) wire \<Rightarrow> 'c \<Rightarrow> bool" where
  "serves P C verified N c \<longleftrightarrow>
     (\<forall>w d request w' d' r. SwarmService_Ping P C verified w d request = Some (w', d', Inr r) \<longrightarrow>
        wire_Ping N c request (w, d) = ((w', d'), Inr r)) \<and>
     (\<forall>w d request ms. Server_Query C d (pb_Address request) = Some (ms, None) \<longrightarrow>
        wire_Query N c request (w, d) = ((w, d), Inr (map signed_text ms, EOF_error)))"

lemma Backoff_first: "f w = (w', Inr x) \<Longrightarrow> Backoff f wait w = Some (w', Inr x)"
  unfolding Backoff_def using Backoff_loop_succeeds [of f wait grow 0 1000 w w' x] by simp

text \<open>A ping is answered with the multi-address and signature of the server, and the table of the server holds what a direct call of
  the server puts there.\<close>

lemma ping_served:
  assumes "package_ok P bases addrs" "ma_valid bases addrs self" "ma_valid bases addrs (client_MultiAddress C)"
    "serves P C verified N c" "Dial P N (w, d) to = ((w, d), Inr c)"
    "Server_Ping C verified w d self = Some (w', d', m, None)"
  shows "SwarmClient_Ping P N self (w, d) to = Some ((w', d'), Inr (client_MultiAddress C))"
proof -
  have m: "m = client_MultiAddress C" using assms(6) by (auto simp: Server_Ping_def bind_eq_Some_conv split: if_splits)
  have "SwarmService_Ping P C verified w d (signed_text self) = Some (w', d', Inr (signed_text m))"
    using assms(6) read_signed_text [OF assms(1,2)] by (simp add: SwarmService_Ping_def)
  then have "wire_Ping N c (signed_text self) (w, d) = ((w', d'), Inr (signed_text m))" using assms(4) unfolding serves_def by blast
  then show ?thesis
    using assms(5) m read_signed_text [OF assms(1,3)] by (simp add: SwarmClient_Ping_def Backoff_first)
qed

lemma recv_responses_all:
  "\<forall>m\<in>set ms. read_signed P (signed_text m) = Inr m \<Longrightarrow> recv_responses P (map signed_text ms) EOF_error acc = (acc @ ms, None)"
  by (induction ms arbitrary: acc) simp_all

text \<open>A query is answered with what the server finds in its table, after the ping.\<close>

lemma query_served:
  assumes "package_ok P bases addrs" "ma_valid bases addrs self" "ma_valid bases addrs (client_MultiAddress C)"
    "serves P C verified N c" "\<And>w. Dial P N w to = (w, Inr c)"
    "Server_Ping C verified w d self = Some (w', d', m, None)"
    "Server_Query C d' query = Some (ms, None)" "\<forall>m\<in>set ms. ma_valid bases addrs m"
  shows "SwarmClient_Query P N self (w, d) to query sig = Some ((w', d'), Inr (ms, None))"
proof -
  have p: "SwarmClient_Ping P N self (w, d) to = Some ((w', d'), Inr (client_MultiAddress C))"
    by (rule ping_served [OF assms(1-4) assms(5) assms(6)])
  have "wire_Query N c \<lparr>pb_QuerySignature = sig, pb_Address = query\<rparr> (w', d') = ((w', d'), Inr (map signed_text ms, EOF_error))"
    using assms(4,7) unfolding serves_def by simp
  moreover have "recv_responses P (map signed_text ms) EOF_error [] = (ms, None)"
    using recv_responses_all [of ms P "[]"] read_signed_text [OF assms(1)] assms(8) by simp
  ultimately show ?thesis using p assms(5) by (simp add: SwarmClient_Query_def Backoff_first)
qed

text \<open>The service sends every answer, if the stream lasts.\<close>

lemma send_responses_all: "(\<And>w r. send w r = (w @ [r], None)) \<Longrightarrow> send_responses send ms w = (w @ map signed_text ms, None)"
  by (induction ms arbitrary: w) simp_all

end
