(* ===== verification/Status.thy ===== *)
theory Status
  imports Grpc_Swarm
begin

section \<open>The status of a node: \<^verbatim>\<open>status\<close>, \<^verbatim>\<open>http\<close>\<close>

text \<open>
  What a node reports about itself: the provider that its parts write into, the adapter that gathers it, and the handler that
  answers with a document. The multi-address that nobody has written has no base, and its text panics: it is
  \<open>None\<close>. A map of texts is listed by key and may be nil. The router and the headers for other origins belong to other packages. The locks
  are left out: every operation is one step. \<open>None\<close> as a result is a panic.
\<close>

subsection \<open>The provider\<close>

record provider =
  PvDht :: dht
  PvNetwork :: string
  PvMultiAddress :: "multi_address option"
  PvEthereumNetwork :: string
  PvEthereumAddress :: string
  PvDarknodeRegistryAddress :: string
  PvRewardVaultAddress :: string
  PvPublicKey :: bytes
  PvInfuraURL :: string
  PvTokens :: "(string \<times> string) list option"

definition NewProvider :: "dht \<Rightarrow> provider" where
  "NewProvider d = \<lparr>PvDht = d, PvNetwork = [], PvMultiAddress = None, PvEthereumNetwork = [], PvEthereumAddress = [],
     PvDarknodeRegistryAddress = [], PvRewardVaultAddress = [], PvPublicKey = [], PvInfuraURL = [], PvTokens = None\<rparr>"

definition WriteNetwork :: "string \<Rightarrow> provider \<Rightarrow> provider" where
  "WriteNetwork network sp = sp\<lparr>PvNetwork := network\<rparr>"

definition WriteMultiAddress :: "multi_address \<Rightarrow> provider \<Rightarrow> provider" where
  "WriteMultiAddress m sp = sp\<lparr>PvMultiAddress := Some m\<rparr>"

definition WriteEthereumNetwork :: "string \<Rightarrow> provider \<Rightarrow> provider" where
  "WriteEthereumNetwork ethNetwork sp = sp\<lparr>PvEthereumNetwork := ethNetwork\<rparr>"

definition WriteEthereumAddress :: "string \<Rightarrow> provider \<Rightarrow> provider" where
  "WriteEthereumAddress ethAddr sp = sp\<lparr>PvEthereumAddress := ethAddr\<rparr>"

definition WriteDarknodeRegistryAddress :: "string \<Rightarrow> provider \<Rightarrow> provider" where
  "WriteDarknodeRegistryAddress a sp = sp\<lparr>PvDarknodeRegistryAddress := a\<rparr>"

definition WriteRewardVaultAddress :: "string \<Rightarrow> provider \<Rightarrow> provider" where
  "WriteRewardVaultAddress a sp = sp\<lparr>PvRewardVaultAddress := a\<rparr>"

definition WritePublicKey :: "bytes \<Rightarrow> provider \<Rightarrow> provider" where
  "WritePublicKey k sp = sp\<lparr>PvPublicKey := k\<rparr>"

definition WriteInfuraURL :: "string \<Rightarrow> provider \<Rightarrow> provider" where
  "WriteInfuraURL u sp = sp\<lparr>PvInfuraURL := u\<rparr>"

definition WriteTokens :: "(string \<times> string) list option \<Rightarrow> provider \<Rightarrow> provider" where
  "WriteTokens tokens sp = sp\<lparr>PvTokens := tokens\<rparr>"

definition Peers :: "provider \<Rightarrow> int" where
  "Peers sp = int (length (DHT_MultiAddresses (PvDht sp)))"

subsection \<open>The adapter\<close>

record node_status =
  StNetwork :: string
  StMultiAddress :: string
  StEthereumNetwork :: string
  StEthereumAddress :: string
  StDarknodeRegistryAddress :: string
  StRewardVaultAddress :: string
  StPublicKey :: string
  StInfuraURL :: string
  StTokens :: "(string \<times> string) list option"
  StPeers :: int

definition StatusAdapter_Status :: "provider \<Rightarrow> node_status option" where
  "StatusAdapter_Status sp =
     (case PvMultiAddress sp of
        None \<Rightarrow> None
      | Some m \<Rightarrow> Some
          \<lparr>StNetwork = PvNetwork sp, StMultiAddress = MultiAddress_String m, StEthereumNetwork = PvEthereumNetwork sp,
           StEthereumAddress = PvEthereumAddress sp, StDarknodeRegistryAddress = PvDarknodeRegistryAddress sp,
           StRewardVaultAddress = PvRewardVaultAddress sp, StPublicKey = ''0x'' @ hex_encode (PvPublicKey sp),
           StInfuraURL = PvInfuraURL sp, StTokens = PvTokens sp, StPeers = Peers sp\<rparr>)"

definition texts_json :: "(string \<times> string) list option \<Rightarrow> json" where
  "texts_json m = (case m of None \<Rightarrow> JNull | Some kvs \<Rightarrow> JObject (map (\<lambda>(k, v). (k, JString v)) kvs))"

definition status_json :: "node_status \<Rightarrow> json" where
  "status_json st = JObject
     [(''network'', JString (StNetwork st)), (''multiAddress'', JString (StMultiAddress st)),
      (''ethereumNetwork'', JString (StEthereumNetwork st)), (''ethereumAddress'', JString (StEthereumAddress st)),
      (''darknodeRegistryAddress'', JString (StDarknodeRegistryAddress st)), (''rewardVaultAddress'', JString (StRewardVaultAddress st)),
      (''publicKey'', JString (StPublicKey st)), (''infura'', JString (StInfuraURL st)), (''tokens'', texts_json (StTokens st)),
      (''peers'', json_int (StPeers st))]"

subsection \<open>The handler\<close>

record http_response =
  RespStatus :: nat
  RespType :: "string option"
  RespBody :: string

definition WriteError :: "nat \<Rightarrow> string \<Rightarrow> http_response" where
  "WriteError statusCode err = \<lparr>RespStatus = statusCode, RespType = None, RespBody = err\<rparr>"

definition statusHandler :: "provider \<Rightarrow> http_response option" where
  "statusHandler sp =
     map_option (\<lambda>st. \<lparr>RespStatus = 200, RespType = Some ''application/json'', RespBody = print_json (status_json st)\<rparr>) (StatusAdapter_Status sp)"

text \<open>A panic of the handler is answered; \<open>text\<close> is what the panic says.\<close>

definition RecoveryHandler :: "string \<Rightarrow> http_response option \<Rightarrow> http_response" where
  "RecoveryHandler panic_text h = (case h of None \<Rightarrow> WriteError 500 panic_text | Some r \<Rightarrow> r)"

definition serve_status :: "string \<Rightarrow> provider \<Rightarrow> http_response" where
  "serve_status panic_text sp = RecoveryHandler panic_text (statusHandler sp)"

subsection \<open>What is answered\<close>

definition status_ascii :: "node_status \<Rightarrow> bool" where
  "status_ascii st \<longleftrightarrow> (\<forall>t\<in>{StNetwork st, StMultiAddress st, StEthereumNetwork st, StEthereumAddress st, StDarknodeRegistryAddress st,
     StRewardVaultAddress st, StPublicKey st, StInfuraURL st}. ascii t) \<and> (\<forall>kvs. StTokens st = Some kvs \<longrightarrow> (\<forall>(k, v)\<in>set kvs. ascii k \<and> ascii v))"

text \<open>A document that is answered says what was written last, the public key as hexadecimal digits and the number of peers as it is now.\<close>

lemma status_served:
  assumes "PvMultiAddress sp = Some m" "StatusAdapter_Status sp = Some st" "status_ascii st"
  shows "RespStatus (serve_status e sp) = 200"
    "parse_json (RespBody (serve_status e sp)) = Some (status_json st)"
    "hex_decode (drop 2 (StPublicKey st)) = Some (PvPublicKey sp)"
    "StPeers st = int (length (DHT_MultiAddresses (PvDht sp)))"
proof -
  have "plain (status_json st)"
    using assms(3) by (auto simp: status_json_def status_ascii_def texts_json_def split: option.splits)
  then show "parse_json (RespBody (serve_status e sp)) = Some (status_json st)"
    using assms(2) by (simp add: serve_status_def statusHandler_def RecoveryHandler_def parse_print_json)
qed (use assms(1,2) in \<open>auto simp: serve_status_def statusHandler_def RecoveryHandler_def StatusAdapter_Status_def Peers_def\<close>)

text \<open>Before the multi-address is written, the status is answered with an error of the server.\<close>

lemma status_early: "RespStatus (serve_status e (NewProvider d)) = 500"
  by (simp add: serve_status_def statusHandler_def StatusAdapter_Status_def NewProvider_def RecoveryHandler_def WriteError_def)

text \<open>When every part has written, the status has everything that was written; no writer touches the table of peers.\<close>

definition status_writers :: "(provider \<Rightarrow> provider) set" where
  "status_writers = range WriteNetwork \<union> range WriteMultiAddress \<union> range WriteEthereumNetwork \<union> range WriteEthereumAddress \<union>
     range WriteDarknodeRegistryAddress \<union> range WriteRewardVaultAddress \<union> range WritePublicKey \<union> range WriteInfuraURL \<union> range WriteTokens"

lemmas writer_defs = WriteNetwork_def WriteMultiAddress_def WriteEthereumNetwork_def WriteEthereumAddress_def
  WriteDarknodeRegistryAddress_def WriteRewardVaultAddress_def WritePublicKey_def WriteInfuraURL_def WriteTokens_def

lemma all_written:
  "StatusAdapter_Status (WriteTokens tokens (WriteInfuraURL u (WritePublicKey k (WriteRewardVaultAddress v (WriteDarknodeRegistryAddress r
     (WriteEthereumAddress a (WriteEthereumNetwork en (WriteMultiAddress m (WriteNetwork n (NewProvider d)))))))))) = Some
     \<lparr>StNetwork = n, StMultiAddress = MultiAddress_String m, StEthereumNetwork = en, StEthereumAddress = a, StDarknodeRegistryAddress = r,
      StRewardVaultAddress = v, StPublicKey = ''0x'' @ hex_encode k, StInfuraURL = u, StTokens = tokens,
      StPeers = int (length (DHT_MultiAddresses d))\<rparr>"
  by (simp add: writer_defs NewProvider_def StatusAdapter_Status_def Peers_def)

lemma status_keeps_table: "w \<in> status_writers \<Longrightarrow> PvDht (w sp) = PvDht sp"
  by (auto simp: status_writers_def writer_defs)

end
