(* ===== verification/Spec2Isabelle.thy ===== *)
theory Spec2Isabelle
  imports Int1024_Bits Order_Files Ome Swarm Grpc Crypto_Keystore Contract_Binder Dispatch Stream Registry_Cmd Logger Status
begin

text \<open>
  Verification of the Republic Protocol node (the Go packages under \<^verbatim>\<open>src/\<close>).

  \<^bold>\<open>The program.\<close> A trader splits an order into fragments, one per node of a pod, with Shamir's secret sharing
  (\<^verbatim>\<open>shamir\<close>, on the integers of \<^verbatim>\<open>stackint\<close>; \<^verbatim>\<open>order\<close>), and sends each fragment, encrypted, to its node
  (\<^verbatim>\<open>grpc/orderbook.go\<close>). A node stores the fragment (\<^verbatim>\<open>orderbook\<close>, \<^verbatim>\<open>leveldb\<close>), learns from the contract that
  the order is open (\<^verbatim>\<open>orderbook/sync.go\<close>), pairs it with the opposite fragments it holds
  (\<^verbatim>\<open>ome/generator.go\<close>), and compares each pair with the other nodes of the pod without seeing the orders
  (\<^verbatim>\<open>ome/matcher.go\<close> over \<^verbatim>\<open>smpc\<close>). A match is confirmed on the contract (\<^verbatim>\<open>ome/confirmer.go\<close>,
  \<^verbatim>\<open>contract\<close>); then the nodes rebuild the two orders and settle them (\<^verbatim>\<open>ome/settler.go\<close>).
  \<^verbatim>\<open>ome/ome.go\<close> follows the epochs of the registry (\<^verbatim>\<open>registry\<close>). Nodes find each other through
  \<^verbatim>\<open>identity\<close>, \<^verbatim>\<open>dht\<close> and \<^verbatim>\<open>swarm\<close>, and talk over the encrypted streams of \<^verbatim>\<open>grpc/stream.go\<close>
  (\<^verbatim>\<open>crypto/aes.go\<close>). A node keeps its keys in an encrypted document (\<^verbatim>\<open>crypto/keystore.go\<close>), sends its transactions with
  consecutive nonces (\<^verbatim>\<open>contract/binder.go\<close>, \<^verbatim>\<open>contract/transact\<close>), logs (\<^verbatim>\<open>logger\<close>) and reports its status over
  HTTP (\<^verbatim>\<open>status\<close>, \<^verbatim>\<open>http\<close>). \<^verbatim>\<open>dispatch\<close> has the helpers for goroutines and channels, \<^verbatim>\<open>stream\<close> an earlier layer
  of streams, and \<^verbatim>\<open>cmd/registry\<close> registers the nodes of a deployment.

  \<^bold>\<open>The theories\<close>, in the order they build on each other.
  \<^item> \<open>Prelude\<close>: the names of Go's integers, the collections of rewrite rules, vectors of words as numbers.
    \<open>Codec\<close>: \<^verbatim>\<open>encoding/binary\<close>. \<open>Strconv\<close>, \<open>Base58\<close>: numbers as text, the text of an address. \<open>Json\<close>, \<open>Json_Struct\<close>: documents,
    their printing and their parser, \<^verbatim>\<open>encoding/hex\<close>, \<^verbatim>\<open>encoding/base64\<close>, documents as structures; what is printed is
    parsed again (\<open>parse_print_json\<close>).
  \<^item> \<open>Asm_Arith\<close>, \<open>Int1024\<close>, \<open>Int1024_Div\<close>, \<open>Int1024_Bits\<close>, \<open>Int1024_Bytes\<close>, \<open>Int1024_Mod\<close>: the package
    \<^verbatim>\<open>stackint\<close>. \<open>int_wf\<close> is the invariant of the representation and \<open>int_val\<close> the number represented; every operation
    keeps the first and is described by the second: division with its normalisation and correction steps, the
    shifts, the modular inverse. \<open>Int1024_String\<close>: decimal and other texts, JSON, \<^verbatim>\<open>math/big\<close>.
  \<^item> \<open>Prime_Field\<close>, \<open>Interpolation\<close>: the constant \<^verbatim>\<open>Prime\<close> is prime; Lagrange's formula modulo a number.
    \<open>Shamir\<close>: \<^verbatim>\<open>shamir/shamir.go\<close>. The locale \<open>secret_sharing\<close> is what the rest relies on: any shares of a
    sharing, at least as many as the threshold, join to the secret, and the differences of shares share the difference. It
    is interpreted as \<open>shamir\<close>.
  \<^item> \<open>Order\<close>: \<^verbatim>\<open>order\<close>: serialisation, identifiers, splitting into fragments, encryption of fragments. \<open>Order_Json\<close>: shares and
    values as documents; that a value is read as it was written is the locale \<open>json_text\<close>, interpreted on each type. \<open>Order_Files\<close>: orders as documents in files.
  \<^item> \<open>Smpc_Joiner\<close>, \<open>Smpc_Message\<close>, \<open>Smpc\<close>: \<^verbatim>\<open>smpc\<close>. The joiner is a state with two inputs, the node's own join and
    the joins of peers, in any order; the network is an inductive relation of interleaved steps, one per locked section
    of the source; the invariants are proved by induction over its runs.
  \<^item> \<open>Ome_Matcher\<close>, \<open>Ome_Settler\<close>, \<open>Ome_Nodes\<close>: the stages of a resolve and the settlement, first over any service that
    meets the locale \<open>join_service\<close> (interpreted on the joiner as \<open>joiner\<close>), then composed with the splitting of
    orders.
  \<^item> \<open>Leveldb\<close>, \<open>Leveldb_Store\<close>, \<open>Leveldb_Memory\<close>: \<^verbatim>\<open>leveldb\<close>. The contract of the database is the locale
    \<open>leveldb_contract\<close>, with encodings \<open>leveldb_tables\<close>, without faults \<open>leveldb_faultless\<close>; a database in memory
    interprets them (\<open>mem\<close>, \<open>mem_faultless\<close>).
  \<^item> \<open>Orderbook\<close>, \<open>Ome_Generator\<close>, \<open>Ome_Confirmer\<close>: \<^verbatim>\<open>orderbook\<close> and the rest of \<^verbatim>\<open>ome\<close>. What they need from
    storage are the locales \<open>orderbook_stores\<close> and \<open>fragment_stores\<close>, which the tables meet (\<open>sublocale\<close>). \<open>Ome\<close>: the
    change of epochs as a step relation, and computations passed from part to part.
  \<^item> \<open>Registry\<close>: \<^verbatim>\<open>registry\<close>: epochs, pods and the cache of registrations. \<open>Contract\<close>: \<^verbatim>\<open>contract/binder.go\<close>: the
    assignment of nodes to pods, waiting for blocks, sending transactions. \<open>Contract_Binder\<close>: every operation of the binder over a chain
    that is a record of calls, runs of operations and their nonces. \<open>Transact\<close>: the transacter, which does what the binder does,
    with its integers in a store; configurations and networks. \<open>Registry_Cmd\<close>: the commands of \<^verbatim>\<open>cmd/registry\<close> over the binder.
  \<^item> \<open>Identity\<close>, \<open>Dht\<close>, \<open>Swarm\<close>: \<^verbatim>\<open>identity\<close>, \<^verbatim>\<open>dht\<close>, \<^verbatim>\<open>swarm\<close>: addresses and distances, the buckets of peers,
    queries. \<open>Crypto_Aes\<close>, \<open>Grpc\<close>: padding and cipher feedback, authentication of streams, sessions. \<open>Grpc_Swarm\<close>: multi-addresses
    as text, calls that are tried again with growing waits, the swarm client and service and their composition.
  \<^item> \<open>Crypto_Keys\<close>, \<open>Crypto_Keystore\<close>: \<^verbatim>\<open>crypto\<close>: keys as documents, signatures and addresses, the encrypted key store.
  \<^item> \<open>Dispatch\<close>: \<^verbatim>\<open>dispatch\<close>: interleavings of goroutines, forwarding and merging of channels as a step relation. \<open>Stream\<close>:
    \<^verbatim>\<open>stream\<close>: the recycler as a step relation over its locked sections, with its invariant, and the hub.
  \<^item> \<open>Logger\<close>: \<^verbatim>\<open>logger\<close>: filters, the file plugin, loggers by reference, logs as documents. \<open>Status\<close>: \<^verbatim>\<open>status\<close> and \<^verbatim>\<open>http\<close>.

  \<^bold>\<open>Conventions.\<close> A structure is a record whose fields have the names of the source, a method is a function of the
  receiver that returns the receiver if it changes it. \<open>None\<close> is a panic, or a loop that does not return; \<open>Inl\<close> is an
  error. Goroutines and channels are sequences of steps and lists of outputs; a locked section is one step. A clock,
  random numbers and the order in which a \<^verbatim>\<open>range\<close> loop visits a map are arguments, and the theorems hold for all of
  them. Code outside \<^verbatim>\<open>src/\<close> is an argument too: Keccak, RSA, signatures, scrypt, the block cipher, LevelDB, the contracts, the
  package of multi-addresses, the connections of gRPC, the texts of times and floating point numbers.
  What a theorem needs of an argument (that decryption inverts encryption, that a database returns what was put) is one of its
  hypotheses; each such theorem has a witness with concrete functions.

  \<^bold>\<open>Bounds and loops.\<close> Loops over slices are structural or have a measure. \<open>match_run\<close> has fuel, one unit per answer of
  the computer: a resolve has eight stages, and the theorems are stated with fuel 8, which is enough for every order.
  The parser of documents has fuel too, twice the length of the text and two; \<open>parse_json_fuel\<close> shows that more never changes the
  result.
  Loops that need not end are partial functions into \<open>option\<close>: \<open>ModInverse_loop\<close>, \<open>Exp\<close>, \<open>Random_loop\<close>,
  \<open>query_loop\<close>, \<open>find_free\<close>, \<open>wait_loop\<close>, \<open>sendTx\<close>, \<open>transact\<close>, \<open>Backoff_loop\<close>, \<open>block_size_loop\<close>, \<open>String_loop\<close>.
  \<open>ModInverse_correct\<close>, \<open>swarm_query_finds\<close>, \<open>pods_partition\<close>, \<open>binder_nonces\<close> and \<open>text_roundtrip\<close> show that they return;
  \<open>pods_diverge\<close> and \<open>sendTx_diverges\<close> show when the assignment of pods and the sending of a transaction do not.

  \<^bold>\<open>The properties\<close> below span components or state the main result of one. Most say that the code does what it is
  meant to; some show behaviour that a caller has to know about: a secret that is split with threshold two
  stands in the leading coefficient too, and a stream accepts a registered node under the name of another. Lemmas beside them and in the
  components show the rest: a cached registration is renewed by every look-up, an order can be notified twice, pruning forgets
  every computation, the recycler can leave a stream open for ever, a log that is read again has lost its tags.

  \<^bold>\<open>Not modelled.\<close> Locks, deadlock and memory, except where an interleaving of locked sections is a step relation. The
  generated bindings and messages (\<^verbatim>\<open>contract/bindings\<close>, \<^verbatim>\<open>grpc/grpc.pb.go\<close>), the server of gRPC, the elliptic curve, RSA and the
  generation of keys, the reconnecting of streams, the router of the status, the command lines other than that of
  \<^verbatim>\<open>cmd/registry\<close> and the test doubles: they are input and output, generated code, or calls into packages that are not part
  of the repository's own code. \<^verbatim>\<open>stackint/int1024_deprecated.go\<close> is commented out.
\<close>

section \<open>Example inputs\<close>

text \<open>Two orders that match, random words for their splits, and a hash and a cipher that are easy to
  evaluate; they instantiate the theorems below.\<close>

definition zero_hash :: keccak where
  "zero_hash data = replicate 32 0"

definition pad_hash :: keccak where
  "pad_hash data = replicate 31 0 @ [if length data = 8 then 1 else 2]"

definition sample_buy :: order where
  "sample_buy = NewOrder zero_hash TypeLimit ParityBuy SettlementRenEx 100 TokensETHREN
     \<lparr>Co = 200, Expn = 30\<rparr> \<lparr>Co = 50, Expn = 10\<rparr> \<lparr>Co = 5, Expn = 10\<rparr> 7"

definition sample_sell :: order where
  "sample_sell = NewOrder zero_hash TypeLimit ParitySell SettlementRenEx 100 TokensETHREN
     \<lparr>Co = 150, Expn = 30\<rparr> \<lparr>Co = 60, Expn = 10\<rparr> \<lparr>Co = 6, Expn = 10\<rparr> 9"

definition sample_randomness :: "u64 list" where
  "sample_randomness = [11, 12, 13, 14, 15, 16, 17, 18]"

definition shift_enc :: "u8 \<Rightarrow> bytes \<Rightarrow> bytes + bytes" where
  "shift_enc pub m = (if length m \<le> 16 then Inr (map (\<lambda>b. b + pub) m) else Inl [])"

definition shift_dec :: "u8 \<Rightarrow> bytes \<Rightarrow> bytes + bytes" where
  "shift_dec priv c = Inr (map (\<lambda>b. b - priv) c)"

text \<open>Joins that share 42 with threshold 2: the shares are the values of the line \<open>42 + 5 x\<close>.\<close>

definition line_join :: "nat \<Rightarrow> join" where
  "line_join i = \<lparr>JoinID = replicate 33 0, JoinIndex = word_of_nat i,
     JoinShares = [\<lparr>Index = word_of_nat i, Value = 42 + 5 * word_of_nat i\<rparr>]\<rparr>"

definition line_message :: "nat \<Rightarrow> message" where
  "line_message i = \<lparr>MessageType = MessageTypeJoinResponse, MessageJoin = None,
     MessageJoinResponse = Some \<lparr>MNetworkID = replicate 32 1, MJoin = line_join i\<rparr>\<rparr>"


definition sample_fragment :: "u8 \<Rightarrow> parity \<Rightarrow> fragment" where
  "sample_fragment b par = zero_fragment\<lparr>OrderID := replicate 32 b, OrderParity := par\<rparr>"

definition sample_computation :: computation where
  "sample_computation = \<lparr>Timestamp = 0, ComID = replicate 32 9, Buy = sample_fragment 1 ParityBuy, Sell = sample_fragment 2 ParitySell,
     ComEpoch = replicate 32 7, ComEpochDepth = 0, State = ComputationStateMatched, Match = True\<rparr>"

text \<open>A store that answers every look-up with one computation, a contract that has confirmed its two orders, and a
  tick of the confirmer.\<close>

definition sample_computations :: "unit computation_store" where
  "sample_computations = \<lparr>cs_put = (\<lambda>_ s _. (s, None)), cs_get = (\<lambda>_ _. Inr sample_computation)\<rparr>"

definition sample_view :: contract_view where
  "sample_view = \<lparr>c_depth = (\<lambda>_. Inr 3), c_status = (\<lambda>_. Inr StatusConfirmed),
     c_match = (\<lambda>i. Inr (if i = replicate 32 1 then replicate 32 2 else replicate 32 1))\<rparr>"

definition sample_tick :: tick where
  "sample_tick = \<lparr>rng_buy = (\<lambda>xs. xs), rng_sell = rev, view_buy = sample_view, view_sell = sample_view,
     now_buy = (\<lambda>_ _. 10), now_sell = (\<lambda>_ _. 20), forget = 40\<rparr>"

text \<open>Nodes whose identifiers differ in the last byte, and a client whose peer 2 knows node 3.\<close>

definition sample_id :: "u8 \<Rightarrow> bytes" where
  "sample_id b = replicate 19 0 @ [b]"

definition sample_node :: "u8 \<Rightarrow> multi_address" where
  "sample_node b = \<lparr>MASignature = [], MAAddress = ID_Address (sample_id b), MABase = ''''\<rparr>"

definition sample_client :: "unit client" where
  "sample_client = \<lparr>client_MultiAddress = sample_node 0, client_Ping = (\<lambda>w m. (w, Inr m)),
     client_Query = (\<lambda>w peer _. (w, if MAAddress peer = ID_Address (sample_id 2) then [sample_node 3] else [], None))\<rparr>"

text \<open>Signatures of node \<open>a\<close> and a public key cipher that are easy to evaluate; node \<open>a\<close> is registered.\<close>

definition sample_sign :: "bytes \<Rightarrow> unit + bytes" where
  "sample_sign data = Inr (replicate 65 0)"

definition sample_recover :: "bytes \<Rightarrow> bytes \<Rightarrow> unit + address" where
  "sample_recover data sg = Inr ''a''"

definition sample_seal :: "address \<Rightarrow> bytes \<Rightarrow> unit + bytes" where
  "sample_seal addr data = Inr (1 # data)"

definition sample_unseal :: "bytes \<Rightarrow> (unit + registry_error) + bytes" where
  "sample_unseal data = Inr (tl data)"

definition sample_cache :: "bool cache" where
  "sample_cache = [(''a'', \<lparr>timestamp = 1, entry_value = True\<rparr>)]"

text \<open>A chain that counts the transactions of the binder and has two registered nodes.\<close>

definition sample_chain :: "(int, unit) chain" where
  "sample_chain = \<lparr>
     tx_send = (\<lambda>b c w. if TxNonce b < w then (w, Inl NonceTooLow) else if w < TxNonce b then (w, Inl NonceTooHigh) else (w + 1, Inr ())),
     tx_pending = (\<lambda>w. (w, Inr (nat w))), tx_mined = (\<lambda>w tx. (w, None)), next_poll = (\<lambda>w. w),
     view_bond = (\<lambda>w i. Inr 100000), view_registered = (\<lambda>w i. Inr True), view_deregistered = (\<lambda>w i. Inr False),
     view_owner = (\<lambda>w i. Inr i), view_publicKey = (\<lambda>w i. Inr []), view_darknodes = (\<lambda>w. Inr [sample_id 1, sample_id 2]),
     view_minimumBond = (\<lambda>w. Inr 100000), view_minimumEpochInterval = (\<lambda>w. Inr 100), view_minimumPodSize = (\<lambda>w. Inr 2),
     view_currentEpoch = (\<lambda>w. Inr (7, 3)), view_previousEpoch = (\<lambda>w. Inr (6, 2)), view_gasPriceLimit = (\<lambda>w. Inr 1000),
     view_depth = (\<lambda>w i. Inr 0), view_priority = (\<lambda>w i. Inr 0), view_state = (\<lambda>w i. Inr 0), view_match = (\<lambda>w i. Inr []),
     view_orders = (\<lambda>w i j. Inr ([], [], [])), view_sellOrder = (\<lambda>w i. ([], False, None)), view_order = (\<lambda>w i. ([], False, None)),
     view_trader = (\<lambda>w i. Inr []), view_broker = (\<lambda>w i. Inr []), view_confirmer = (\<lambda>w i. Inr []), view_blockNumber = (\<lambda>w i. Inr 0),
     view_ordersCount = (\<lambda>w. Inr 0), view_balances = (\<lambda>w a. Inr ([], [])), view_block = (\<lambda>w. Inr 0)\<rparr>"



definition sample_transact_env :: "nat tr_env" where
  "sample_transact_env = \<lparr>pending_nonce = (\<lambda>w. (w, Inr 7)), ctx_err = (\<lambda>w. None), wait_second = (\<lambda>w. (w, None))\<rparr>"

definition sample_build :: "(nat, unit) build" where
  "sample_build opts w = (if BNonce opts < int w then (w, Inl NonceTooLow) else if int w < BNonce opts then (w, Inl NonceTooHigh) else (Suc w, Inr ()))"

definition add_arg :: "nat call_arg \<Rightarrow> nat \<Rightarrow> nat" where
  "add_arg x s = (case x of ArgInt i \<Rightarrow> s + i | ArgKey k \<Rightarrow> s + k)"



text \<open>A key store environment whose functions are easy to evaluate.\<close>

definition sample_env :: "unit keystore_env" where
  "sample_env = \<lparr>scrypt_Key = (\<lambda>pass salt n r p len. Inr (take 32 (pass @ salt @ replicate 32 0))),
     aes_NewCipher = (\<lambda>key. if length key = 16 then Some (\<lambda>block. map2 (+) key block) else None), env_keccak = zero_hash,
     float_int = (\<lambda>t. case json_to_int (JNumber t) of Inr i \<Rightarrow> Some i | Inl _ \<Rightarrow> None)\<rparr>"

definition sample_keystore :: keystore where
  "sample_keystore = NewKeystore (replicate 16 1) (the (NewEcdsaKey zero_hash 3 4 5 s256))
     \<lparr>RsaD = 7, Primes = [3, 11], RsaPublic = \<lparr>RsaN = 33, RsaE = 3\<rparr>\<rparr>"

text \<open>Signatures that carry the number of the key, which is also its point.\<close>

definition number_sign :: "nat \<Rightarrow> bytes \<Rightarrow> unit + bytes" where
  "number_sign d data = (if d < 256 then Inr [word_of_nat d] else Inl ())"

definition number_recover :: "bytes \<Rightarrow> bytes \<Rightarrow> unit + bytes" where
  "number_recover data sig = (case sig of [b] \<Rightarrow> Inr (4 # be_enc 32 (unat b) @ be_enc 32 (unat b)) | _ \<Rightarrow> Inl ())"

lemmas sample_defs = sample_buy_def sample_sell_def NewOrder_def order_secrets_def TokensETHREN_def tokens_of_def
  TokenETH_def TokenREN_def Prime_def field_prime_def Let_def

lemma sample_split:
  "\<exists>bfs rs'. Order_Split zero_hash sample_buy 3 2 sample_randomness = Some (Inr bfs, rs')"
  "\<exists>sfs qs'. Order_Split zero_hash sample_sell 3 2 sample_randomness = Some (Inr sfs, qs')"
proof -
  have r: "8 * (nat 2 - 1) \<le> in_field sample_randomness"
    by (simp add: sample_randomness_def Prime_def field_prime_def)
  have "\<forall>s\<in>set (order_secrets sample_buy). s < Prime" "\<forall>s\<in>set (order_secrets sample_sell). s < Prime"
    by (simp_all add: sample_defs)
  from Order_Split_value [OF _ _ _ this(1) r, where n = 3 and keccak = zero_hash]
    Order_Split_value [OF _ _ _ this(2) r, where n = 3 and keccak = zero_hash]
  show "\<exists>bfs rs'. Order_Split zero_hash sample_buy 3 2 sample_randomness = Some (Inr bfs, rs')"
    "\<exists>sfs qs'. Order_Split zero_hash sample_sell 3 2 sample_randomness = Some (Inr sfs, qs')" by auto
qed

lemma sample_range: "order_in_range sample_buy" "order_in_range sample_sell"
  by (simp_all add: order_in_range_def sample_defs)

lemma distinct_set_single: "distinct xs \<Longrightarrow> set xs = {x} \<Longrightarrow> xs = [x]"
  by (cases xs) (auto simp: subset_singleton_iff)

lemma sample_confirm_run:
  "\<exists>cf. confirm_run zero_hash sample_computations 1 NewConfirmer () [Receives sample_computation, Ticks sample_tick, Ticks sample_tick] =
    (cf, (), [sample_computation\<lparr>State := ComputationStateAccepted, Timestamp := 10\<rparr>])"
proof -
  have p: "ParityBuy \<noteq> ParitySell" by (simp add: ParityBuy_def ParitySell_def)
  have i: "OrderID (Buy sample_computation) = replicate 32 1" "OrderID (Sell sample_computation) = replicate 32 2"
    by (simp_all add: sample_computation_def sample_fragment_def)
  have d: "(replicate 32 1 :: bytes) \<noteq> replicate 32 2" by simp
  show ?thesis
    using p d by (simp add: confirm_receive_def NewConfirmer_def i confirm_tick_def checkOrdersForConfirmationFinality_def confirming_def
        sample_tick_def check_round_def checkOrderForConfirmationFinality_def computationFromOrders_def sample_view_def
        sample_computations_def forget_old_def Let_def)
qed

lemma sample_node_valid: "length (sample_id b) = IDLength" "valid_address (ID_Address (sample_id b))" "MAAddress (sample_node b) = ID_Address (sample_id b)"
  by (simp_all add: sample_id_def IDLength_def sample_node_def valid_ID_Address)

lemma sample_dist: "xor_dist (ID_Address (sample_id a)) (ID_Address (sample_id b)) = unat (a XOR b)"
proof -
  have "xor_bytes (replicate n 0 @ [a]) (replicate n 0 @ [b]) = replicate n 0 @ [a XOR b]" for n
    by (induction n) (simp_all add: xor_bytes_def)
  then show ?thesis
    using sample_node_valid(1) be_num_replicate_0 [of 19 "[]"] by (simp add: xor_dist_def id_num_ID_Address) (simp add: sample_id_def)
qed

lemma sample_dht: "\<exists>d. dht_ok d \<and> DAddress d = ID_Address (sample_id 0) \<and> peers d = {sample_node 2}"
proof -
  obtain d where d: "NewDHT (ID_Address (sample_id 0)) 20 = Some d" "dht_ok d" "DHT_MultiAddresses d = []"
    using NewDHT_ok [OF sample_node_valid(2), of 20 0] by auto
  have a: "DAddress d = ID_Address (sample_id 0)" "\<And>i. i < 160 \<Longrightarrow> \<not> IsFull (Buckets d ! i)" "peers d = {}"
    using d by (auto simp: NewDHT_def NewBucket_def IDLengthInBits_def IDLength_def IsFull_def Bucket_Length_def peers_def)
  have x: "xor_dist (DAddress d) (MAAddress (sample_node 2)) \<noteq> 0" by (simp add: a(1) sample_node_valid(3) sample_dist)
  obtain d' e where u: "updateMultiAddress d (sample_node 2) = Some (d', e)" "dht_ok d'" "DAddress d' = DAddress d"
      "(e = None \<and> peers d' = insert (sample_node 2) {n \<in> peers d. MAAddress n \<noteq> MAAddress (sample_node 2)}) \<or>
       (\<exists>i<160. IsFull (Buckets d ! i))"
    using updateMultiAddress_spec [OF d(2), of "sample_node 2"] x sample_node_valid by auto
  then show ?thesis using a by auto
qed

lemma sample_crypto: "crypto_ok sample_recover sample_sign sample_seal sample_unseal ''a'' self"
  by (simp add: crypto_ok_def sample_recover_def sample_sign_def sample_seal_def sample_unseal_def)

lemma sample_registered:
  "\<exists>c'. verifyAddress rev (\<lambda>_. Inr True :: unit + bool) 1 60 (5, 6) sample_cache ''a'' = (c', Inr ())"
  by (simp add: verifyAddress_def updateRegistryCache_def sample_cache_def cache_expired_def evict_def)

lemma sample_env_ok: "env_ok sample_env"
proof -
  have "float_int sample_env (int_text i) = Some i" if "\<bar>i\<bar> \<le> 2 ^ 53" for i
    using json_to_int_json [of i] that by (simp add: sample_env_def json_int_def)
  then show ?thesis by (auto simp: env_ok_def sample_env_def zero_hash_def block_ok_def BlockSize_def)
qed

lemma sample_key: "\<exists>key. NewEcdsaKey zero_hash 3 4 5 s256 = Some key \<and> EcD key = 3 \<and> EcX key = 4 \<and> EcY key = 5"
  using addressFromPublickey_ID [of 4 5 zero_hash] by (simp add: NewEcdsaKey_def zero_hash_def)




lemma sample_endless: "endless sample_transact_env"
  by (simp add: endless_def sample_transact_env_def)

section \<open>Matching and settling\<close>

text \<open>C1. A buy and a sell order are split into \<open>n\<close> fragments with threshold \<open>k\<close>. Whichever nodes take
  part, as long as they are at least \<open>k\<close>, each of them resolves its computation, stage by stage over the
  joins of the others, to the verdict that the whole orders deserve: same settlement, buy price at least
  the sell price, both volumes at least the other's minimum, same tokens. The verdict is stored and then
  passed to the callback, once; nothing before it but joins.\<close>

theorem match_end_to_end:
  assumes "n < 2 ^ 63" "Order_Split keccak buy n k rs = Some (Inr bfs, rs')"
      "Order_Split keccak sell n k qs = Some (Inr sfs, qs')"
    and "\<forall>j\<in>set nodes. j < nat n" "nat k \<le> card (set nodes)" "i \<in> set nodes"
    and "order_in_range buy" "order_in_range sell"
    and "\<And>stage. \<not> isExpired (clock stage) (node_computation keccak now epoch bfs sfs i)"
  shows "\<exists>outs0 js. Resolve clock (node_computation keccak now epoch bfs sfs i) = Some outs0 \<and> only_joins js \<and>
    match_run 8 clock (nodes_deliver k (map (node_computation keccak now epoch bfs sfs) nodes)) outs0 =
      Some (js @ [Puts (verdict (node_computation keccak now epoch bfs sfs i) (orders_match buy sell)),
                  Callbacks (verdict (node_computation keccak now epoch bfs sfs i) (orders_match buy sell))])"
  using assms by (rule nodes_match)

theorem match_end_to_end_witness:
  "\<exists>bfs rs' sfs qs' outs0 js com. Order_Split zero_hash sample_buy 3 2 sample_randomness = Some (Inr bfs, rs') \<and>
    Order_Split zero_hash sample_sell 3 2 sample_randomness = Some (Inr sfs, qs') \<and>
    com = node_computation zero_hash (\<lambda>_. 1) [] bfs sfs 2 \<and>
    Resolve (\<lambda>_. (5, 5)) com = Some outs0 \<and> only_joins js \<and>
    match_run 8 (\<lambda>_. (5, 5)) (nodes_deliver 2 (map (node_computation zero_hash (\<lambda>_. 1) [] bfs sfs) [2, 0])) outs0 =
      Some (js @ [Puts (verdict com True), Callbacks (verdict com True)])"
proof -
  obtain bfs rs' sfs qs' where s: "Order_Split zero_hash sample_buy 3 2 sample_randomness = Some (Inr bfs, rs')"
    "Order_Split zero_hash sample_sell 3 2 sample_randomness = Some (Inr sfs, qs')" using sample_split by blast
  have "OrderExpiry (bfs ! 2) = 100" "OrderExpiry (sfs ! 2) = 100"
    using split_ok_node(1) [OF Order_Split_Inr(1) [OF s(1)], of 2] split_ok_node(1) [OF Order_Split_Inr(1) [OF s(2)], of 2]
    by (simp_all add: fragment_public_def sample_buy_def sample_sell_def NewOrder_def Let_def)
  then have e: "\<not> isExpired ((\<lambda>_. (5, 5)) stage) (node_computation zero_hash (\<lambda>_. 1) [] bfs sfs 2)" for stage :: resolve_stage
    by (simp add: isExpired_def)
  have m: "orders_match sample_buy sample_sell"
    by (simp add: orders_match_def coexp_ge_def sample_buy_def sample_sell_def NewOrder_def Let_def)
  have "\<exists>outs0 js. Resolve (\<lambda>_. (5, 5)) (node_computation zero_hash (\<lambda>_. 1) [] bfs sfs 2) = Some outs0 \<and> only_joins js \<and>
    match_run 8 (\<lambda>_. (5, 5)) (nodes_deliver 2 (map (node_computation zero_hash (\<lambda>_. 1) [] bfs sfs) [2, 0])) outs0 =
      Some (js @ [Puts (verdict (node_computation zero_hash (\<lambda>_. 1) [] bfs sfs 2) True),
                  Callbacks (verdict (node_computation zero_hash (\<lambda>_. 1) [] bfs sfs 2) True)])"
    using match_end_to_end [OF _ s _ _ _ sample_range e, of "[2, 0]"] m by simp
  then show ?thesis using s by blast
qed

text \<open>C2. When the nodes join the shares of a confirmed match, each of them rebuilds exactly the two orders
  the traders split, and submits these.\<close>

theorem settlement_rebuilds_orders:
  assumes "n < 2 ^ 63" "Order_Split keccak buy n k rs = Some (Inr bfs, rs')"
      "Order_Split keccak sell n k qs = Some (Inr sfs, qs')"
    and "\<forall>j\<in>set nodes. j < nat n" "nat k \<le> card (set nodes)" "i \<in> set nodes"
    and "created_order keccak buy" "created_order keccak sell"
  shows "\<exists>values. joiner_deliver (nat k) (map joinOrderMatch (map (node_computation keccak now epoch bfs sfs) nodes)) = Some values \<and>
    settleValues keccak settle (node_computation keccak now epoch bfs sfs i) values =
      settleOrderMatch settle (node_computation keccak now epoch bfs sfs i) buy sell"
  using assms by (rule nodes_settle)

theorem settlement_rebuilds_orders_witness:
  "\<exists>bfs rs' sfs qs' com values. Order_Split zero_hash sample_buy 3 2 sample_randomness = Some (Inr bfs, rs') \<and>
    Order_Split zero_hash sample_sell 3 2 sample_randomness = Some (Inr sfs, qs') \<and>
    com = node_computation zero_hash (\<lambda>_. 1) [] bfs sfs 0 \<and>
    joiner_deliver 2 (map joinOrderMatch (map (node_computation zero_hash (\<lambda>_. 1) [] bfs sfs) [0, 2, 1])) = Some values \<and>
    settleValues zero_hash (\<lambda>_ _. None :: unit option) com values =
      [Settles sample_buy sample_sell, Stores (com\<lparr>State := ComputationStateSettled\<rparr>)]"
proof -
  obtain bfs rs' sfs qs' where s: "Order_Split zero_hash sample_buy 3 2 sample_randomness = Some (Inr bfs, rs')"
    "Order_Split zero_hash sample_sell 3 2 sample_randomness = Some (Inr sfs, qs')" using sample_split by blast
  have c: "created_order zero_hash sample_buy" "created_order zero_hash sample_sell"
    unfolding sample_buy_def sample_sell_def by (rule created_NewOrder)+
  show ?thesis
    using settlement_rebuilds_orders [where settle = "\<lambda>_ _. None :: unit option" and i = 0 and nodes = "[0, 2, 1]"
        and now = "\<lambda>_. 1" and epoch = "[]", OF _ s _ _ _ c] s
    by (auto simp: settleOrderMatch_def)
qed

section \<open>Secret sharing\<close>

text \<open>C3. Any \<open>k\<close> different shares of a split reconstruct the secret.\<close>

theorem shamir_split_join:
  assumes "Split n k secret rs = Some (Inr shs, rs')" "n < 2 ^ 63" "set ts \<subseteq> set shs" "distinct ts" "length ts = nat k"
  shows "Join ts = Some secret"
  using assms by (rule Split_Join)

theorem shamir_split_join_witness:
  "\<exists>shs rs'. Split 3 2 42 [11, 12] = Some (Inr shs, rs') \<and> length shs = 3 \<and> Join [shs ! 2, shs ! 0] = Some 42"
proof -
  obtain shs rs' where s: "Split 3 2 42 [11, 12] = Some (Inr shs, rs')" "length shs = 3" "\<forall>i<3. fv (Index (shs ! i)) = int i + 1"
    using Split_value [of 2 3 42 "[11, 12]"] by (auto simp: Prime_def field_prime_def)
  have "shs ! 2 \<noteq> shs ! 0"
  proof
    assume "shs ! 2 = shs ! 0"
    then show False using s(3) [rule_format, of 0] s(3) [rule_format, of 2] by simp
  qed
  then show ?thesis using s shamir_split_join [OF s(1), of "[shs ! 2, shs ! 0]"] by auto
qed

text \<open>C18. \<^verbatim>\<open>Order.Split\<close> on every branch: more fragments required than made, or a value outside the field,
  is an error; otherwise it returns \<open>n\<close> fragments with the public fields of the order, and every secret
  field is shared with threshold \<open>k\<close> over the indices 1 to \<open>n\<close>.\<close>

theorem order_split_outcome:
  assumes "0 < k" "n < 2 ^ 63" "8 * (nat k - 1) \<le> length (filter (\<lambda>r. r < Prime) rs)"
  shows "\<exists>r rs'. Order_Split keccak ord n k rs = Some (r, rs') \<and>
    (if n < k then r = Inl ErrNKError
     else if \<exists>s\<in>set (order_secrets ord). Prime \<le> s then r = Inl ErrFiniteField
     else \<exists>fs. r = Inr fs \<and> split_ok ord n k fs)"
proof (cases "n < k")
  case False
  then have kn: "k \<le> n" by simp
  show ?thesis
  proof (cases "\<exists>s\<in>set (order_secrets ord). Prime \<le> s")
    case True
    then show ?thesis using False Order_Split_field_error [OF assms(1) kn assms(2) True assms(3), of keccak] by auto
  next
    case field: False
    then have "\<forall>s\<in>set (order_secrets ord). s < Prime" by (simp add: not_le)
    from Order_Split_value [OF assms(1) kn assms(2) this assms(3), of keccak] show ?thesis using False field by auto
  qed
qed (simp add: Order_Split_nk_error)

theorem order_split_outcome_witness:
  "(\<exists>rs' fs. Order_Split zero_hash sample_buy 3 2 sample_randomness = Some (Inr fs, rs') \<and> split_ok sample_buy 3 2 fs) \<and>
   (\<exists>rs'. Order_Split zero_hash (sample_buy\<lparr>Tokens := - 1\<rparr>) 3 2 sample_randomness = Some (Inl ErrFiniteField, rs'))"
proof
  have "\<not> (\<exists>s\<in>set (order_secrets sample_buy). Prime \<le> s)" by (simp add: sample_defs)
  then show "\<exists>rs' fs. Order_Split zero_hash sample_buy 3 2 sample_randomness = Some (Inr fs, rs') \<and> split_ok sample_buy 3 2 fs"
    using order_split_outcome [of 2 3 sample_randomness zero_hash sample_buy]
    by (auto simp: sample_randomness_def Prime_def field_prime_def)
  have "\<exists>s\<in>set (order_secrets (sample_buy\<lparr>Tokens := - 1\<rparr>)). Prime \<le> s" by (simp add: sample_defs)
  then show "\<exists>rs'. Order_Split zero_hash (sample_buy\<lparr>Tokens := - 1\<rparr>) 3 2 sample_randomness = Some (Inl ErrFiniteField, rs')"
    using order_split_outcome [of 2 3 sample_randomness zero_hash "sample_buy\<lparr>Tokens := - 1\<rparr>"]
    by (auto simp: sample_randomness_def Prime_def field_prime_def)
qed

text \<open>C33. \<^verbatim>\<open>Split\<close> with threshold 2: every share is a known multiple of the secret, so a single one gives it
  away. The loop over the coefficients starts at the constant one and never uses the last.\<close>

theorem split_two_leaks:
  assumes "2 \<le> n" "n < 2 ^ 63" "secret < Prime" "\<exists>r\<in>set rs. r < Prime"
  shows "\<exists>shs rs'. Split n 2 secret rs = Some (Inr shs, rs') \<and> length shs = nat n \<and>
    (\<forall>i<nat n. fv (Value (shs ! i)) = (fv secret * (int i + 2)) mod fp)"
  using assms by (rule Split_two)

theorem split_two_leaks_witness:
  "\<exists>shs rs'. Split 3 2 42 [11, 12] = Some (Inr shs, rs') \<and> map (\<lambda>sh. uint (Value sh)) shs = [84, 126, 168]"
proof -
  obtain shs rs' where s: "Split 3 2 42 [11, 12] = Some (Inr shs, rs')" "length shs = 3"
    "\<forall>i<3. fv (Value (shs ! i)) = (fv 42 * (int i + 2)) mod fp"
    using split_two_leaks [of 3 42 "[11, 12]"] by (auto simp: Prime_def field_prime_def)
  obtain a b c where "shs = [a, b, c]" using s(2) by (auto simp: length_Suc_conv eval_nat_numeral)
  then have "map (\<lambda>sh. uint (Value sh)) shs = [84, 126, 168]"
    using s(3) [rule_format, of 0] s(3) [rule_format, of 1] s(3) [rule_format, of 2]
    by (simp add: fv_def fp_def field_prime_def)
  with s(1) show ?thesis by auto
qed

section \<open>Orders\<close>

text \<open>C29. The identifier of an order binds it: with a hash that does not collide on the inputs involved,
  two orders with the same identifier agree in every field but the signature and fractions of a second of the
  expiry.\<close>

theorem order_id_binds:
  assumes "\<And>x. length (keccak x) = 32"
    and "inj_on keccak {Order_Bytes keccak o1, Order_Bytes keccak o2, be_enc 8 (unat (Nonce o1)), be_enc 8 (unat (Nonce o2))}"
    and "Order_Hash keccak o1 = Order_Hash keccak o2"
  shows "Type o1 = Type o2 \<and> Parity o1 = Parity o2 \<and> Settlement o1 = Settlement o2 \<and>
     Unix (Expiry o1) = Unix (Expiry o2) \<and> Tokens o1 = Tokens o2 \<and> Price o1 = Price o2 \<and>
     Volume o1 = Volume o2 \<and> MinimumVolume o1 = MinimumVolume o2 \<and> Nonce o1 = Nonce o2"
  using assms by (rule Order_Hash_inj)

theorem order_id_binds_witness:
  "Nonce sample_buy = Nonce (sample_buy\<lparr>Signature := [1]\<rparr>) \<and> Order_Hash pad_hash sample_buy = Order_Hash pad_hash (sample_buy\<lparr>Signature := [1]\<rparr>)"
proof -
  have h: "Order_Hash pad_hash (sample_buy\<lparr>Signature := [1]\<rparr>) = Order_Hash pad_hash sample_buy"
    by (simp add: Order_Hash_def Order_Bytes_def BytesFromNonce_def)
  have b: "Order_Bytes pad_hash (sample_buy\<lparr>Signature := [1]\<rparr>) = Order_Bytes pad_hash sample_buy"
    by (simp add: Order_Bytes_def BytesFromNonce_def)
  have "length (Order_Bytes pad_hash sample_buy) \<noteq> 8" "length (be_enc 8 (unat (Nonce sample_buy))) = 8"
    by (simp_all add: Order_Bytes_def)
  then have "inj_on pad_hash {Order_Bytes pad_hash sample_buy, be_enc 8 (unat (Nonce sample_buy))}"
    by (auto simp: pad_hash_def)
  then show ?thesis using order_id_binds [of pad_hash sample_buy "sample_buy\<lparr>Signature := [1]\<rparr>"] h b
    by (simp add: pad_hash_def)
qed

section \<open>Multi-party computation\<close>

lemma line_join_family: "join_family 2 (replicate 33 0) [42] [line_join 1, line_join 2, line_join 3]"
proof -
  have "sharing 2 42 [\<lparr>Index = 1, Value = 47\<rparr>, \<lparr>Index = 2, Value = 52\<rparr>, \<lparr>Index = 3, Value = 57\<rparr>]"
    unfolding sharing_def by (rule exI [of _ "[42, 5]"]) (simp add: fv_def)
  then show ?thesis by (simp add: join_family_def line_join_def MaxJoinLength_def Prime_def field_prime_def)
qed

text \<open>C4. A node connects to a network, receives joins of its peers, contributes its own with a callback and
  receives more joins, in any order and with repetitions. Its callback is called exactly once if at least the
  threshold of different joins arrived, with the shared values, and never otherwise.\<close>

theorem smpc_callback_once:
  fixes cb :: 'cb
  assumes "join_family k jid ss U" "int k = smpc_threshold (length addrs)" "addrs \<noteq> []"
    and "join_events nid before js1" "join_events nid after js2"
    and "\<forall>(rng, j)\<in>set (js1 @ (rng, own) # js2). any_order rng \<and> j \<in> set U"
  shows "\<exists>st st' outs. Smpcer_Connect NewSmpcer nid addrs = Some st \<and>
    smpc_run st nid before rng own cb after = Some (st', outs) \<and>
    called outs = (if k \<le> card (JoinIndex ` snd ` set (js1 @ (rng, own) # js2)) then [(cb, jid, secret_words ss)] else [])"
  using assms by (rule smpc_run_once)

theorem smpc_callback_once_witness:
  "\<exists>st st' outs. Smpcer_Connect NewSmpcer (replicate 32 1) [''a'', ''b'', ''c''] = Some st \<and>
    smpc_run st (replicate 32 1) [] (\<lambda>_ js. js) (line_join 1) True [(\<lambda>_ js. js, ''c'', line_message 3), (\<lambda>_ js. js, ''b'', line_message 2)] = Some (st', outs) \<and>
    called outs = [(True, replicate 33 0, [42])]"
proof -
  have "join_events (replicate 32 1) [(\<lambda>_ js. js, ''c'', line_message 3), (\<lambda>_ js. js, ''b'', line_message 2)]
      [(\<lambda>_ js. js, line_join 3), (\<lambda>_ js. js, line_join 2)]"
    by (simp add: join_events_def line_message_def message_join_of_def MessageTypeJoin_def MessageTypeJoinResponse_def)
  moreover have "JoinIndex (line_join 3) = 3" "JoinIndex (line_join 2) = 2" "JoinIndex (line_join 1) = 1"
    by (simp_all add: line_join_def)
  ultimately show ?thesis
    using smpc_callback_once [OF line_join_family, of "[''a'', ''b'', ''c'']" "replicate 32 1" "[]" "[]"
       "[(\<lambda>_ js. js, ''c'', line_message 3), (\<lambda>_ js. js, ''b'', line_message 2)]"
       "[(\<lambda>_ js. js, line_join 3), (\<lambda>_ js. js, line_join 2)]" "\<lambda>_ js. js" "line_join 1" True]
    by (simp add: smpc_threshold_def join_events_def any_order_def secret_words_def fp_def field_prime_def)
qed

text \<open>C17. Every insertion keeps the invariant of a joiner: at most \<open>k\<close> joins per identifier, with different
  indices and as many shares as the first, and values exactly when there are \<open>k\<close>.\<close>

theorem joiner_invariant:
  assumes "joiner_wf jr" "insertJoin rng jr j cb ov = Some (jr', r)"
  shows "joiner_wf jr' \<and> threshold jr' = threshold jr"
  using assms by (rule insertJoin_wf)

theorem joiner_invariant_witness:
  "\<exists>jr jr' :: nat joiner. NewJoiner 2 = Some jr \<and>
    insertJoin (\<lambda>_ js. js) jr (line_join 1) (Some 7) True = Some (jr', Inr None) \<and> joiner_wf jr' \<and> threshold jr' = 2"
proof -
  obtain jr :: "nat joiner" where jr: "NewJoiner 2 = Some jr" "joiner_wf jr" "threshold jr = 2" "\<forall>jid. joinSets jr jid = None"
    using NewJoiner_wf [of 2] by auto
  obtain jr' :: "nat joiner" where jr': "insertJoin (\<lambda>_ js. js) jr (line_join 1) (Some 7) True = Some (jr', Inr None)"
    using jr(3,4) by (simp add: insertJoin_def line_join_def new_join_set_def MaxJoinLength_def Let_def)
  show ?thesis using jr jr' joiner_invariant [OF jr(2) jr'] by auto
qed

text \<open>Messages survive the wire: unmarshalling what was marshalled gives the message back.\<close>

lemma message_roundtrip:
  assumes "message_ok m" "message_shares m \<le> maxlen"
  shows "\<exists>data. Message_MarshalBinary m = Some (Inr data) \<and> Message_UnmarshalBinary maxlen data = Some (Inr m)"
  using assms by (rule Message_roundtrip)

lemma message_roundtrip_witness:
  "\<exists>data. Message_MarshalBinary (line_message 3) = Some (Inr data) \<and> Message_UnmarshalBinary 1000 data = Some (Inr (line_message 3))"
  using message_roundtrip [of "line_message 3" 1000]
  by (simp add: line_message_def message_ok_def message_shares_def line_join_def)

text \<open>C31. In every reachable state of the network, whatever the interleaving of connects, disconnects and dials,
  the maps of senders and of cancel functions have the same networks, and the node neither dials itself nor
  holds a sender to itself.\<close>

theorem network_invariant:
  assumes "net_run self dial evs (Some s)"
  shows "net_inv self s"
  using net_run_inv [OF assms refl] .

theorem network_invariant_witness:
  "\<exists>s. net_run ''b'' (\<lambda>_ addr. Some addr) [Connects [] [''a'', ''b''], Starts [] ''b'', Starts [] ''a''] (Some s) \<and> net_inv ''b'' s"
proof -
  have "\<exists>s. net_run ''b'' (\<lambda>_ addr. Some addr) ((([] @ [Connects [] [''a'', ''b'']]) @ [Starts [] ''b'']) @ [Starts [] ''a'']) (Some s)"
    by (rule exI, rule net_run.step, rule net_run.step, rule net_run.step, rule net_run.init, rule net_step.connect,
      rule net_step.skip_self, simp_all, rule net_step.start)
      (simp_all add: network_reset_def network_store_cancel_def)
  then obtain s where "net_run ''b'' (\<lambda>_ addr. Some addr) [Connects [] [''a'', ''b''], Starts [] ''b'', Starts [] ''a''] (Some s)"
    by auto
  with network_invariant [OF this] show ?thesis by blast
qed

section \<open>Big integers\<close>

text \<open>C19. \<^verbatim>\<open>Int1024.DivMod\<close> never panics on a non-zero divisor and returns the exact
  quotient and remainder.\<close>

theorem DivMod_correct:
  assumes "int_wf x" "int_wf y" "int_val y \<noteq> 0"
  shows "\<exists>q r. DivMod x y = Some (q, r) \<and> int_wf q \<and> int_wf r \<and>
    int_val q = int_val x div int_val y \<and> int_val r = int_val x mod int_val y"
  using DivMod_value(2) [OF assms] .

theorem DivMod_correct_witness:
  "\<exists>q r. DivMod (FromUint 7) (FromUint 2) = Some (q, r) \<and> int_wf q \<and> int_wf r \<and>
    int_val q = 3 \<and> int_val r = 1"
  using DivMod_correct [of "FromUint 7" "FromUint 2"] by simp



text \<open>C21. \<^verbatim>\<open>MulModulo\<close> is exact for every modulus, although the product may need 2048 bits.\<close>

theorem MulModulo_correct:
  assumes "int_wf x" "int_wf y" "int_wf n" "int_val n \<noteq> 0"
  shows "\<exists>z. MulModulo x y n = Some z \<and> int_wf z \<and> int_val z = (int_val x * int_val y) mod int_val n"
  using assms by (rule MulModulo_value)

theorem MulModulo_correct_witness:
  "\<exists>z. MulModulo (FromUint 18446744073709551615) (FromUint 18446744073709551615) (FromUint 10) = Some z \<and> int_wf z \<and> int_val z = 5"
  using MulModulo_correct [of "FromUint 18446744073709551615" "FromUint 18446744073709551615" "FromUint 10"] by simp

text \<open>C22. The decimal text of an integer gives it back, and so does its JSON.\<close>

theorem text_roundtrip:
  assumes "int_wf x"
  shows "(\<exists>s. Int1024_String x = Some s \<and> FromString s = Some (Inr x)) \<and>
    (\<exists>data. Int1024_MarshalJSON x = Some data \<and> Int1024_UnmarshalJSON y data = Inr x)"
proof -
  obtain bs where "Bytes x = Some bs" using SetBytes_Bytes [OF assms] by blast
  then show ?thesis using FromString_String [OF assms] int1024_json.read_marshal [OF assms] by (auto simp: Int1024_MarshalJSON_def)
qed

theorem text_roundtrip_witness:
  "(\<exists>s. Int1024_String Two = Some s \<and> FromString s = Some (Inr Two)) \<and>
    (\<exists>data. Int1024_MarshalJSON Two = Some data \<and> Int1024_UnmarshalJSON Zero data = Inr Two)"
  by (rule text_roundtrip) simp

text \<open>The portable two-by-one word division agrees with the processor's whenever that one does not trap.\<close>

lemma DivWW_g_equiv:
  assumes "u1 < v"
  shows "DivWW u1 u0 v = Some (DivWW_g u1 u0 v)"
  using assms by (rule DivWW_g_DivWW)

lemma DivWW_g_equiv_witness: "DivWW 3 5 9 = Some (DivWW_g 3 5 9)"
  using DivWW_g_equiv [of 3 9 5] by simp

section \<open>The registry\<close>

text \<open>C32. Verifying addresses never lets the cache of registrations outgrow its limit, in whatever order a
  \<^verbatim>\<open>range\<close> visits it.\<close>

theorem registry_cache_bounded:
  assumes "\<And>c. mset (rng c) = mset c" "cache_wf limit c"
  shows "cache_wf limit (fst (verifyAddress rng isRegistered limit period now c addr))"
proof (cases "updateRegistryCache rng isRegistered limit period now c addr")
  case (Inr c')
  then show ?thesis using updateRegistryCache_wf [OF assms Inr] by (simp add: verifyAddress_def)
qed (simp add: verifyAddress_def assms(2))

theorem registry_cache_bounded_witness:
  "cache_wf 1 (fst (verifyAddress rev (\<lambda>_. Inr True :: unit + bool) 1 60 (5, 6) [(''a'', \<lparr>timestamp = 1, entry_value = True\<rparr>)] ''b''))"
  using registry_cache_bounded [of rev 1 "[(''a'', \<lparr>timestamp = 1, entry_value = True\<rparr>)]"] by (simp add: cache_wf_def)

text \<open>An address that is verified at least once per period is answered from the cache for ever, whatever the
  contract says: each look-up renews the timestamp of the entry without loading it again.\<close>

lemma registry_cache_stale:
  assumes "map_of c addr = Some e" "renewed period (timestamp e) qs" "int (length c) \<le> limit"
  shows "snd (verify_run rng limit period addr c qs) =
    replicate (length qs) (if entry_value e then Inr () else Inl (Inr ErrInvalidRegistration))"
  using assms by (rule verify_run_stale)

lemma registry_cache_stale_witness:
  "snd (verify_run rev 1 60 ''a'' [(''a'', \<lparr>timestamp = 0, entry_value = True\<rparr>)]
      [(\<lambda>_. Inr False :: unit + bool, 50, 50), (\<lambda>_. Inr False, 100, 100), (\<lambda>_. Inr False, 150, 150)]) = [Inr (), Inr (), Inr ()]"
  using registry_cache_stale [of "[(''a'', \<lparr>timestamp = 0, entry_value = True\<rparr>)]" "''a''" "\<lparr>timestamp = 0, entry_value = True\<rparr>" 60
      "[(\<lambda>_. Inr False :: unit + bool, 50, 50), (\<lambda>_. Inr False, 100, 100), (\<lambda>_. Inr False, 150, 150)]" 1 rev]
  by (simp add: numeral_eq_Suc)

section \<open>Storage\<close>





text \<open>Pruning the store removes every computation that was written before, whatever the expiry of the store is:
  the table of computations is made without one.\<close>

lemma prune_forgets_computations:
  assumes "leveldb_faultless L content C" "content_ok C (content db)"
    and "\<And>i v. view (computation_json C) (content db) (computation_key i) = Some v \<Longrightarrow> CVTimestamp v < now 2" "i \<noteq> greatest_id"
  shows "computations_of C (content (fst (Store_Prune L C expiry now db))) i = None"
proof (rule leveldb_tables.Store_Prune_computations [where db = db and now = now, OF leveldb_faultless.axioms(1) [OF assms(1)] _ assms(2) _ assms(3,4)])
  show "snd (db_delete L db k) = None" for db k
    using leveldb_faultless.no_faults [OF assms(1)] by (simp add: faultless_def)
  show "Fault (Computations L db) = None" for db
    using leveldb_faultless.iterator_faultless [OF assms(1)] by (simp add: Computations_def)
qed

lemma prune_forgets_computations_witness:
  "\<exists>db. PutComputation mem_db (computation_json mem_codecs) 5 [] sample_computation = (db, None) \<and>
    computations_of mem_codecs (map_of db) (replicate 32 9) = Some sample_computation \<and>
    computations_of mem_codecs (map_of (fst (Store_Prune mem_db mem_codecs 1000000 (\<lambda>_. 6) db))) (replicate 32 9) = None"
proof -
  let ?v = "\<lparr>CVTimestamp = 5, CVComputation = sample_computation\<rparr>"
  obtain db where p: "PutComputation mem_db (computation_json mem_codecs) 5 [] sample_computation = (db, None)"
    using mem_faultless.table_put_faultless [OF mem.codecs(4)] unfolding PutComputation_def by blast
  have c: "length (ComID sample_computation) = 32" "ComID sample_computation = replicate 32 9" "replicate 32 9 \<noteq> greatest_id"
    by (simp_all add: sample_computation_def greatest_id_def)
  have ok: "content_ok mem_codecs (map_of db)" by (rule mem.PutComputation_ok [OF mem_content_ok_empty c(1) p])
  have "view (computation_json mem_codecs) (map_of db) = (view (computation_json mem_codecs) (map_of []))(computation_key (ComID sample_computation) \<mapsto> ?v)"
    using mem.table_put_done [OF mem.codecs(4) p [unfolded PutComputation_def]] .
  then have "CVTimestamp v < 6" if "view (computation_json mem_codecs) (map_of db) (computation_key i) = Some v" for i v
    using that by (auto simp: view_def split: if_splits)
  from prune_forgets_computations [where now = "\<lambda>_. 6" and expiry = 1000000, OF mem_faultless.leveldb_faultless_axioms ok this c(3)]
  show ?thesis using p mem.PutComputation_done [OF p] c(2) by simp
qed

section \<open>The orderbook\<close>





text \<open>The loop of a resync runs twice the limit, also over fewer orders: when the store holds one order and the
  contract has confirmed it, one resync reports the confirmation \<open>2 * limit\<close> times.\<close>

lemma resync_repeats:
  assumes "leveldb_faultless L content C" "content_ok C (content db)" "i \<noteq> greatest_id"
    and "orders_of C (content db) = [i \<mapsto> (StatusOpen, tr)]" "\<And>k. status_of k i = Inr StatusConfirmed" "\<And>k. depth_of k i = Inr 0"
  shows "\<exists>db' p'. syncer_resync (leveldb_stores L C) limit status_of depth_of db p =
    (db', p', replicate (2 * limit) (NotificationConfirmOrder i), None)"
proof -
  note T = leveldb_faultless.axioms(1) [OF assms(1)]
  have "Fault (Orders L db) = None" using leveldb_faultless.iterator_faultless [OF assms(1)] by (simp add: Orders_def)
  from leveldb_tables.Orders_iterate [OF T assms(2) this]
  obtain xs where xs: "Orders_Collect (order_json C) (Orders L db) = (xs, None)" "distinct (map fst xs)"
    "\<And>j st' tr'. (j, st', tr') \<in> set xs \<longleftrightarrow> j \<noteq> greatest_id \<and> orders_of C (content db) j = Some (st', tr')" by blast
  have "set xs = {(i, StatusOpen, tr)}" using xs(3) assms(3,4) by (auto split: if_splits)
  then have one: "xs = [(i, StatusOpen, tr)]" using xs(2) by (auto simp: distinct_map intro: distinct_set_single)
  have del: "snd (os_delete (leveldb_stores L C) s i) = None" for s
    using leveldb_faultless.table_delete_faultless [OF assms(1), of s "order_key i"] by (auto simp: leveldb_stores_def DeleteOrder_def)
  obtain db' p' where "resync_loop (leveldb_stores L C) status_of depth_of [(i, StatusOpen, tr)] p 0 (2 * limit) db p =
      (db', p', concat (replicate (2 * limit) [NotificationConfirmOrder i]))"
    using resync_loop_single [of "leveldb_stores L C" i status_of StatusConfirmed depth_of "\<lambda>_. 0" tr p 0 "2 * limit" db p] del assms(5,6)
    by (auto simp: StatusOpen_def StatusConfirmed_def)
  moreover have "concat (replicate n [x]) = replicate n x" for n and x :: notification by (induction n) simp_all
  ultimately show ?thesis using xs(1) one by (simp add: syncer_resync_def leveldb_stores_def)
qed

lemma resync_repeats_witness:
  "\<exists>db db' p'. PutOrder mem_db (order_json mem_codecs) 5 [] (replicate 32 1) StatusOpen ''t'' = (db, None) \<and>
    syncer_resync (leveldb_stores mem_db mem_codecs) 2 (\<lambda>_ _. Inr StatusConfirmed) (\<lambda>_ _. Inr 0) db 0 =
      (db', p', replicate 4 (NotificationConfirmOrder (replicate 32 1)), None)"
proof -
  let ?i = "replicate 32 1"
  obtain db where p: "PutOrder mem_db (order_json mem_codecs) 5 [] ?i StatusOpen ''t'' = (db, None)"
    using mem_faultless.table_put_faultless [OF mem.codecs(1)] unfolding PutOrder_def by blast
  have i: "?i \<noteq> greatest_id" by (simp add: greatest_id_def)
  have ok: "content_ok mem_codecs (map_of db)" by (rule mem.PutOrder_ok [OF mem_content_ok_empty _ p]) simp
  have "orders_of mem_codecs (map_of db) = [?i \<mapsto> (StatusOpen, ''t'')]"
    using mem.PutOrder_done [OF p] by (simp add: orders_of_def view_def fun_eq_iff)
  from resync_repeats [OF mem_faultless.leveldb_faultless_axioms ok i this, of "\<lambda>_ _. Inr StatusConfirmed" "\<lambda>_ _. Inr 0" 2 0] p
  show ?thesis by auto
qed

section \<open>The matching engine of a node\<close>





text \<open>C7. Every computation that the confirmer passes on was stored under the identifier of a match that the contract
  had confirmed, at least \<open>blockDepth\<close> blocks deep, at some tick of the run.\<close>

theorem confirm_sound:
  assumes "confirm_run keccak K blockDepth cf s evs = (cf', s', outs)" "com \<in> set outs"
  shows "\<exists>tk. Ticks tk \<in> set evs \<and>
    (confirmed_by keccak K blockDepth (view_buy tk) com \<or> confirmed_by keccak K blockDepth (view_sell tk) com)"
  using assms by (rule confirm_run_sound)

theorem confirm_sound_witness:
  "confirmed_by zero_hash sample_computations 1 sample_view (sample_computation\<lparr>State := ComputationStateAccepted, Timestamp := 10\<rparr>)"
proof -
  obtain cf where r: "confirm_run zero_hash sample_computations 1 NewConfirmer () [Receives sample_computation, Ticks sample_tick, Ticks sample_tick] =
      (cf, (), [sample_computation\<lparr>State := ComputationStateAccepted, Timestamp := 10\<rparr>])"
    using sample_confirm_run by blast
  from confirm_sound [OF r] show ?thesis by (auto simp: sample_tick_def)
qed



section \<open>Peers\<close>

text \<open>C30. The address of an identifier of 20 bytes has 30 characters and gives the identifier back, and the node compares
  addresses by the exclusive or of their identifiers, read as numbers.\<close>

theorem address_roundtrip:
  assumes "length a = IDLength" "length b = IDLength" "length t = IDLength"
  shows "length (ID_Address a) = AddressLength \<and> Address_ID (ID_Address a) = Some a \<and>
    Closer (ID_Address a) (ID_Address b) (ID_Address t) = Some (Inr (be_num (xor_bytes a t) < be_num (xor_bytes b t)))"
  using assms by (simp add: ID_Address_length Address_ID_ID Closer_value valid_ID_Address xor_dist_def id_num_ID_Address)

theorem address_roundtrip_witness:
  "Address_ID (ID_Address (sample_id 7)) = Some (sample_id 7) \<and>
   Closer (ID_Address (sample_id 1)) (ID_Address (sample_id 2)) (ID_Address (sample_id 3)) = Some (Inr False)"
proof -
  have "be_num (xor_bytes (sample_id a) (sample_id b)) = unat (a XOR b)" for a b
    using sample_dist [of a b] by (simp add: xor_dist_def id_num_ID_Address sample_node_valid)
  then show ?thesis
    using address_roundtrip [of "sample_id 1" "sample_id 2" "sample_id 3"] address_roundtrip [of "sample_id 7" "sample_id 7" "sample_id 7"]
    by (simp add: sample_node_valid)
qed

text \<open>C25. An update of the table of peers keeps its invariant and never panics. A peer at another address is stored in
  place of an older entry of its address, unless its bucket is full; then nothing changes, and it was not known. The
  node's own address and malformed addresses are rejected.\<close>

theorem dht_update:
  assumes "dht_ok d"
  shows "\<exists>d' e. updateMultiAddress d m = Some (d', e) \<and> dht_ok d' \<and>
    (if \<not> valid_address (MAAddress m) then d' = d \<and> (\<exists>err. e = Some (ErrIdentity err))
     else if xor_dist (DAddress d) (MAAddress m) = 0 then d' = d \<and> e = Some ErrDHTAddress
     else (e = None \<and> peers d' = insert m {n \<in> peers d. MAAddress n \<noteq> MAAddress m}) \<or>
       (e = Some ErrFullBucket \<and> d' = d \<and> MAAddress m \<notin> MAAddress ` peers d \<and>
        (\<exists>i<160. in_bucket (DAddress d) i (MAAddress m) \<and> IsFull (Buckets d ! i))))"
  using updateMultiAddress_spec [OF assms, of m] by blast

theorem dht_update_witness:
  "\<exists>d. dht_ok d \<and> updateMultiAddress d (sample_node 0) = Some (d, Some ErrDHTAddress) \<and>
    (\<exists>d'. updateMultiAddress d ((sample_node 2)\<lparr>MABase := ''new''\<rparr>) = Some (d', None) \<and> peers d' = {(sample_node 2)\<lparr>MABase := ''new''\<rparr>})"
proof -
  obtain d where d: "dht_ok d" "DAddress d = ID_Address (sample_id 0)" "peers d = {sample_node 2}" using sample_dht by blast
  have x: "xor_dist (DAddress d) (ID_Address (sample_id b)) = unat b" for b using d(2) by (simp add: sample_dist)
  let ?m = "(sample_node 2)\<lparr>MABase := ''new''\<rparr>"
  have m: "MAAddress ?m = ID_Address (sample_id 2)" by (simp add: sample_node_valid)
  have "updateMultiAddress d (sample_node 0) = Some (d, Some ErrDHTAddress)"
    using dht_update [OF d(1), of "sample_node 0"] by (auto simp: x sample_node_valid)
  moreover have "\<exists>d'. updateMultiAddress d ?m = Some (d', None) \<and> peers d' = {?m}"
    using dht_update [OF d(1), of ?m] unfolding m by (auto simp: x sample_node_valid d(3))
  ultimately show ?thesis using d(1) by blast
qed

text \<open>C26. The neighbours of a target are the \<open>a\<close> peers closest to it (all peers, if there are fewer), the closest first.\<close>

theorem dht_neighbours:
  assumes "dht_ok d" "valid_address t" "0 \<le> a"
  shows "\<exists>ns rest. findMultiAddressNeighbors d t a = Some (ns, None) \<and> mset (ns @ rest) = mset (DHT_MultiAddresses d) \<and>
    length ns = min (nat a) (length (DHT_MultiAddresses d)) \<and> sorted (map (\<lambda>m. xor_dist (MAAddress m) t) (ns @ rest))"
  using findMultiAddressNeighbors_spec [OF assms(1,2), of a] assms(3) by (simp add: key_def [abs_def] comp_def)

theorem dht_neighbours_witness:
  "\<exists>d. dht_ok d \<and> peers d = {sample_node 2} \<and> findMultiAddressNeighbors d (ID_Address (sample_id 3)) 1 = Some ([sample_node 2], None)"
proof -
  obtain d where d: "dht_ok d" "peers d = {sample_node 2}" using sample_dht by blast
  obtain ns rest where n: "findMultiAddressNeighbors d (ID_Address (sample_id 3)) 1 = Some (ns, None)"
      "mset (ns @ rest) = mset (DHT_MultiAddresses d)" "length ns = min 1 (length (DHT_MultiAddresses d))"
    using dht_neighbours [OF d(1) sample_node_valid(2), of 1 3] by auto
  have "set (ns @ rest) = {sample_node 2}" using d(2) n(2) unfolding peers_def by (metis set_mset_mset)
  moreover have "DHT_MultiAddresses d \<noteq> []" using d(2) by (auto simp: peers_def)
  then have "length ns = 1" using n(3) by (cases "DHT_MultiAddresses d") simp_all
  then obtain m where "ns = [m]" by (auto simp: length_Suc_conv)
  ultimately show ?thesis using d n(1) by auto
qed

text \<open>C10. An exhaustive query ends in every network of finitely many nodes that answer, and finds the target exactly when
  the node knows it or can reach, from its peers closer to the target, a node whose answer contains it.\<close>

theorem swarm_query_finds:
  assumes "dht_ok d" "valid_address (self_address C)" "valid_address query" "depth < 0" "answers_with C query nodes"
    and "finite {a. reached (self_address C) nodes (nearer (self_address C) query (DHT_MultiAddresses d)) a}"
  shows "\<exists>w' d' r. Swarmer_Query C w d query depth = Some (w', d', r) \<and> dht_ok d' \<and>
    (if query \<in> MAAddress ` peers d \<or>
        findable (self_address C) nodes (nearer (self_address C) query (DHT_MultiAddresses d)) query
     then \<exists>m. r = Inr m \<and> MAAddress m = query else r = Inl ErrMultiAddressNotFound)"
  using Swarmer_Query_finds [OF assms(1-5) assms(6)] by simp

theorem swarm_query_finds_witness:
  "\<exists>d w d' m. dht_ok d \<and> peers d = {sample_node 2} \<and>
    Swarmer_Query sample_client () d (ID_Address (sample_id 3)) (- 1) = Some (w, d', Inr m) \<and> MAAddress m = ID_Address (sample_id 3)"
proof -
  let ?self = "self_address sample_client" and ?q = "ID_Address (sample_id 3)"
  let ?nodes = "\<lambda>a. if a = ID_Address (sample_id 2) then [sample_node 3] else []"
  have self: "?self = ID_Address (sample_id 0)" by (simp add: self_address_def sample_client_def sample_node_valid)
  obtain d where d: "dht_ok d" "peers d = {sample_node 2}" using sample_dht by blast
  have n: "set (nearer ?self ?q (DHT_MultiAddresses d)) = {sample_node 2}"
    using d(2) by (auto simp: nearer_def peers_def self sample_node_valid sample_dist)
  let ?s = "nearer ?self ?q (DHT_MultiAddresses d)"
  have "a \<in> {ID_Address (sample_id 2), ?q}" if "reached ?self ?nodes ?s a" for a
    using that by induction (auto simp: n sample_node_valid split: if_splits)
  then have fin: "finite {a. reached ?self ?nodes ?s a}" by (rule_tac finite_subset [of _ "{ID_Address (sample_id 2), ?q}"]) auto
  have r: "reached ?self ?nodes ?s (ID_Address (sample_id 2))"
    using reached.start [of "sample_node 2" ?s ?self ?nodes] n by (simp add: sample_node_valid)
  have ne: "ID_Address (sample_id 2) \<noteq> ?self" using sample_dist [of 2 0] sample_dist [of 0 0] self by auto
  have "findable ?self ?nodes ?s ?q" unfolding findable_def using r ne by (auto intro!: exI [of _ "ID_Address (sample_id 2)"] simp: sample_node_valid)
  moreover have "answers_with sample_client ?q ?nodes" by (simp add: answers_with_def sample_client_def)
  moreover have "valid_address ?self" by (simp add: self sample_node_valid)
  ultimately show ?thesis
    using swarm_query_finds [OF d(1) _ sample_node_valid(2) _ _ fin, of "- 1" "()"] d by auto
qed
section \<open>Services\<close>

text \<open>C12. A trader encrypts a fragment for a node and sends it: the node hands exactly this fragment to its orderbook,
  whatever the cipher, as long as it decrypts the messages of at most 16 bytes that it encrypts. The expiry has to be a
  full second.\<close>

theorem open_order_delivers:
  assumes "\<And>m. m \<noteq> [] \<Longrightarrow> length m \<le> 16 \<Longrightarrow> \<exists>c. enc pub m = Inr c \<and> dec priv c = Inr m"
    and "length (OrderID f) = 32" "length (FragID f) = 32" "OrderExpiry f = secs * 1000000000" "- (2 ^ 63) \<le> secs" "secs < 2 ^ 63"
  shows "\<exists>c. Fragment_Encrypt enc f pub = Inr c \<and>
    OrderbookService_OpenOrder S dec priv now ob s (Some (marshalEncryptedOrderFragment c)) =
      Some (case routeOrderFragment S now ob s f of (s, ns, err) \<Rightarrow> (s, ns, map_option Inr err))"
proof -
  obtain c where c: "Fragment_Encrypt enc f pub = Inr c" "EncryptedFragment_Decrypt dec c priv = Inr f"
    using Fragment_Encrypt_roundtrip [where enc = enc and pub = pub and dec = dec and priv = priv and f = f] assms(1) by blast
  have "EOrderID c = OrderID f" "EFragID c = FragID f" "EOrderExpiry c = OrderExpiry f"
    using c(1) by (auto simp: Fragment_Encrypt_def ebind_eq_Inr)
  then have "unmarshalEncryptedOrderFragment (Some (marshalEncryptedOrderFragment c)) = Some c"
    using fragment_message_roundtrip [of c] assms(2-6) by simp
  then show ?thesis using c by (simp add: OrderbookService_OpenOrder_def OpenOrder_def)
qed

theorem open_order_delivers_witness:
  "\<exists>c. Fragment_Encrypt shift_enc (sample_fragment 1 ParityBuy) 3 = Inr c \<and>
    OrderbookService_OpenOrder (leveldb_stores mem_db mem_codecs) shift_dec 3 5 \<lparr>aggCurr = None, aggPrev = None\<rparr> []
      (Some (marshalEncryptedOrderFragment c)) = Some ([], [], None)"
proof -
  have "\<exists>c. shift_enc 3 m = Inr c \<and> shift_dec 3 c = Inr m" if "length m \<le> 16" for m
    using that by (simp add: shift_enc_def shift_dec_def comp_def)
  moreover have "length (OrderID (sample_fragment 1 ParityBuy)) = 32" "length (FragID (sample_fragment 1 ParityBuy)) = 32"
    "OrderExpiry (sample_fragment 1 ParityBuy) = 0 * 1000000000" by (simp_all add: sample_fragment_def zero_fragment_def)
  ultimately show ?thesis
    using open_order_delivers [where enc = shift_enc and pub = 3 and dec = shift_dec and priv = 3 and f = "sample_fragment 1 ParityBuy" and secs = 0 and
        S = "leveldb_stores mem_db mem_codecs" and now = 5 and ob = "\<lparr>aggCurr = None, aggPrev = None\<rparr>" and s = "[]"]
    by (auto simp: routeOrderFragment_def)
qed

text \<open>C11. After a node has listened for a registered peer and the peer has connected with a fresh secret, a message that
  either of them sends arrives at the other as it was sent.\<close>

theorem stream_session:
  assumes "Listener_Listen st0 nid client = (st1, i)"
    and "Connector_connect keccak sign encrypt client nid self secret = Inr m"
    and "crypto_ok recover sign encrypt decrypt client self" "length nid = 32" "client \<noteq> []" "length secret = 16"
    and "verifyAddress rng isRegistered limit period now c client = (c', Inr ())"
    and "aes secret = Some E" "block_ok E" "length iv = BlockSize" "message_ok msg" "message_shares msg \<le> maxlen"
  shows "\<exists>st2 old there back.
    StreamerService_Connect keccak (node_verify recover rng isRegistered limit period now) decrypt self c st1 stream m = (c', st2, Inr (i, old)) \<and>
    Sender_Send aes iv (NewSender secret (Some up)) msg = Some (Inr (up, there)) \<and>
    stream_recv aes maxlen (sender_store st2 ! i) \<lparr>SMSignature = [], SMAddress = [], SMNetwork = [], SMData = there\<rparr> = Some (Inr msg) \<and>
    Sender_Send aes iv (sender_store st2 ! i) msg = Some (Inr (stream, back)) \<and>
    stream_recv aes maxlen (NewSender secret (Some up)) \<lparr>SMSignature = [], SMAddress = [], SMNetwork = [], SMData = back\<rparr> = Some (Inr msg)"
proof -
  let ?verify = "node_verify recover rng isRegistered limit period now"
  have v: "verifyAuthentication keccak ?verify decrypt self c m = (c', Inr (client, nid, secret))"
    using assms(2-7) by (rule authentication_roundtrip)
  obtain c'' st2 r where r: "StreamerService_Connect keccak ?verify decrypt self c st1 stream m = (c'', st2, r)" by (metis prod_cases3)
  obtain old where s: "r = Inr (i, old)" "cipher (sender_store st2 ! i) = secret" "sender_stream (sender_store st2 ! i) = Some stream"
    using session_established [OF assms(1) v r] by blast
  have "c'' = c'" using r v s(1) by (auto simp: StreamerService_Connect_def split: option.splits)
  moreover have n: "cipher (NewSender secret (Some up)) = secret" "sender_stream (NewSender secret (Some up)) = Some up"
    by (simp_all add: NewSender_def)
  ultimately show ?thesis
    using Send_recv [where aes = aes and secret = secret, OF assms(8-12) n s(2)] Send_recv [where aes = aes and secret = secret, OF assms(8-12) s(2,3) n(1)] r s(1) by metis
qed

theorem stream_session_witness:
  "\<exists>st1 i m c' st2 old data. Listener_Listen NewListener (replicate 32 1) ''a'' = (st1, i) \<and>
    Connector_connect zero_hash sample_sign sample_seal ''a'' (replicate 32 1) ''b'' (replicate 16 2) = Inr m \<and>
    StreamerService_Connect zero_hash (node_verify sample_recover rev (\<lambda>_. Inr True) 1 60 (5, 6)) sample_unseal ''b''
      sample_cache st1 CHR ''x'' m = (c', st2, Inr (i, old)) \<and>
    Sender_Send (\<lambda>_. Some (\<lambda>b. b)) (replicate 16 4) (sender_store st2 ! i) (line_message 3) = Some (Inr (CHR ''x'', data)) \<and>
    stream_recv (\<lambda>_. Some (\<lambda>b. b)) 1000 (NewSender (replicate 16 2) (Some CHR ''y''))
      \<lparr>SMSignature = [], SMAddress = [], SMNetwork = [], SMData = data\<rparr> = Some (Inr (line_message 3))"
proof -
  obtain st1 i where l: "Listener_Listen (NewListener :: char streams) (replicate 32 1) ''a'' = (st1, i)" by fastforce
  obtain m where m: "Connector_connect zero_hash sample_sign sample_seal ''a'' (replicate 32 1) ''b'' (replicate 16 2) = Inr m"
    by (simp add: Connector_connect_def sample_seal_def sample_sign_def)
  obtain c' where c: "verifyAddress rev (\<lambda>_. Inr True :: unit + bool) 1 60 (5, 6) sample_cache ''a'' = (c', Inr ())"
    using sample_registered by blast
  have "message_ok (line_message 3)" "message_shares (line_message 3) \<le> 1000" "block_ok (\<lambda>b. b)" "length (replicate 16 4) = BlockSize"
    by (simp_all add: line_message_def line_join_def message_ok_def message_shares_def block_ok_def BlockSize_def)
  with stream_session [OF l m sample_crypto _ _ _ c, of "\<lambda>_. Some (\<lambda>b. b)" "\<lambda>b. b" "replicate 16 4" "line_message 3" 1000 "CHR ''x''" "CHR ''y''"] l m
  show ?thesis by simp blast
qed

text \<open>C34. The check of a stream does not compare the signer with the address in the message: a registered node that signs
  with its own key is accepted as any other node it names.\<close>

theorem stream_impersonation:
  assumes "crypto_ok recover sign encrypt decrypt attacker self"
    and "sign (keccak (connect_text victim self nid)) = Inr sg" "encrypt self secret = Inr data"
    and "verifyAddress rng isRegistered limit period now c attacker = (c', Inr ())"
    and "length nid = 32" "victim \<noteq> []" "length secret = 16"
  shows "verifyAuthentication keccak (node_verify recover rng isRegistered limit period now) decrypt self c
    \<lparr>SMSignature = sg, SMAddress = victim, SMNetwork = nid, SMData = data\<rparr> = (c', Inr (victim, nid, secret))"
proof -
  have "recover (keccak (connect_text victim self nid)) sg = Inr attacker" "length sg = 65" "data \<noteq> []" "decrypt data = Inr secret"
    using assms(1-3) unfolding crypto_ok_def by blast+
  then show ?thesis using assms(4-7) by (intro authentication_impersonation) auto
qed

theorem stream_impersonation_witness:
  "\<exists>c'. verifyAuthentication zero_hash (node_verify sample_recover rev (\<lambda>_. Inr True) 1 60 (5, 6)) sample_unseal ''b'' sample_cache
    \<lparr>SMSignature = replicate 65 0, SMAddress = ''victim'', SMNetwork = replicate 32 1, SMData = 1 # replicate 16 2\<rparr> =
      (c', Inr (''victim'', replicate 32 1, replicate 16 2))"
proof -
  obtain c' where c: "verifyAddress rev (\<lambda>_. Inr True :: unit + bool) 1 60 (5, 6) sample_cache ''a'' = (c', Inr ())"
    using sample_registered by blast
  from stream_impersonation [OF sample_crypto _ _ c, of zero_hash "''victim''" "''b''" "replicate 32 1" "replicate 65 0" "replicate 16 2" "1 # replicate 16 2"]
  show ?thesis by (simp add: sample_sign_def sample_seal_def)
qed

section \<open>Keys\<close>

text \<open>C15. A key store that is written with a passphrase and read with the same one gives the same identifier, version and keys,
  whatever the store held that it is read into.\<close>

theorem keystore_roundtrip:
  assumes "env_ok env" "keystore_ok env ks" "length (EcdsaIV rand) = BlockSize" "length (RsaIV rand) = BlockSize"
    "\<bar>scryptN\<bar> \<le> 2 ^ 53" "\<bar>scryptP\<bar> \<le> 2 ^ 53"
    "\<forall>salt\<in>{EcdsaSalt rand, RsaSalt rand}. \<exists>dk. scrypt_Key env (string_bytes passphrase) salt scryptN scryptR scryptP scryptDKLen = Inr dk"
  shows "\<exists>data. EncryptToJSON env rand ks passphrase scryptN scryptP = Some (Inr data) \<and>
    DecryptFromJSON env ks0 data passphrase = Some (ks, None)"
  by (rule keystore_roundtrip_ok [OF assms])

theorem keystore_roundtrip_witness:
  "\<exists>data. EncryptToJSON sample_env \<lparr>EcdsaSalt = [1], EcdsaIV = replicate 16 0, RsaSalt = [2], RsaIV = replicate 16 9\<rparr> sample_keystore ''pass'' 262144 1 =
      Some (Inr data) \<and>
    DecryptFromJSON sample_env sample_keystore data ''pass'' = Some (sample_keystore, None)"
proof (rule keystore_roundtrip [OF sample_env_ok])
  show "keystore_ok sample_env sample_keystore"
    using sample_key by (auto simp: keystore_ok_def sample_keystore_def NewKeystore_def sample_env_def Precompute_def)
qed (simp_all add: BlockSize_def sample_env_def)

text \<open>C23. What a key has signed is verified for its own address, and refused for every other.\<close>

theorem signature_verifies:
  assumes "recovers sign ecrecover pub" "pub d = (x, y)" "NewEcdsaKey keccak d x y curve = Some signer"
    "sign d data = Inr sig" "data \<noteq> []"
  shows "EcdsaVerifier_Verify keccak ecrecover addr data sig = Some (if addr = KeyAddress signer then Inr () else Inl ErrInvalidSignature)"
  using Verify_sign [OF assms] by (auto simp: EcdsaKey_Verify_def)

theorem signature_verifies_witness:
  "\<exists>signer. NewEcdsaKey zero_hash 3 3 3 s256 = Some signer \<and>
    (\<forall>addr. EcdsaVerifier_Verify zero_hash number_recover addr [1, 2] [3] = Some (if addr = KeyAddress signer then Inr () else Inl ErrInvalidSignature))"
proof -
  have r: "recovers number_sign number_recover (\<lambda>d. (d, d))"
    by (auto simp: recovers_def number_sign_def number_recover_def unat_of_nat take_bit_eq_mod split: if_splits)
  obtain signer where k: "NewEcdsaKey zero_hash 3 3 3 s256 = Some signer"
    using addressFromPublickey_ID [of 3 3 zero_hash] by (auto simp: NewEcdsaKey_def zero_hash_def)
  then show ?thesis using signature_verifies [OF r _ k, of "[1, 2]" "[3]"] by (auto simp: number_sign_def)
qed

section \<open>The contract\<close>

text \<open>C13. When every listed node is registered, the assignment of nodes to pods ends, whatever the epoch: each node is in
  exactly one pod, every pod has at least the minimum size, and the sizes differ by at most one.\<close>

theorem pods_partition:
  assumes "\<forall>a\<in>set (map ID_Address ids). isRegistered a = Inr True" "0 < m" "m \<le> length ids"
  shows "\<exists>ps. binder_pods keccak isRegistered (Inr ids) (Inr m) epochVal = Some (Inr ps) \<and> length ps = length ids div m \<and>
    mset (concat (map PodDarknodes ps)) = mset (map ID_Address ids) \<and>
    (\<forall>p\<in>set ps. m \<le> Pod_Size p \<and> length ids div length ps \<le> Pod_Size p \<and> Pod_Size p \<le> length ids div length ps + 1)"
  using assms by (rule binder_pods_partition)

theorem pods_partition_witness:
  "\<exists>ps. binder_pods zero_hash (\<lambda>_. Inr True :: unit + bool) (Inr (map sample_id [1, 2, 3, 4, 5])) (Inr 2) 13 = Some (Inr ps) \<and>
    length ps = 2 \<and> (\<forall>p\<in>set ps. Pod_Size p = 2 \<or> Pod_Size p = 3)"
proof -
  have l: "length (map sample_id [1, 2, 3, 4, 5]) = 5" "(0 :: nat) < 2" "(2 :: nat) \<le> 5" by simp_all
  obtain ps where ps: "binder_pods zero_hash (\<lambda>_. Inr True :: unit + bool) (Inr (map sample_id [1, 2, 3, 4, 5])) (Inr 2) 13 = Some (Inr ps)"
      "length ps = 5 div 2" "\<forall>p\<in>set ps. 2 \<le> Pod_Size p \<and> 5 div length ps \<le> Pod_Size p \<and> Pod_Size p \<le> 5 div length ps + 1"
    using pods_partition [of "map sample_id [1, 2, 3, 4, 5]" "\<lambda>_. Inr True :: unit + bool" 2 zero_hash 13] l(2,3) unfolding l(1) by blast
  have "Pod_Size p = 2 \<or> Pod_Size p = 3" if "p \<in> set ps" for p using ps(2,3) that by (auto dest!: bspec [of _ _ p])
  moreover have "length ps = 2" using ps(2) by simp
  ultimately show ?thesis using ps(1) by blast
qed

text \<open>A node that is listed but not registered keeps the assignment of nodes to pods from ever ending.\<close>

lemma pods_diverge:
  assumes "answers isRegistered (map ID_Address ids)" "ident \<in> set ids" "isRegistered (ID_Address ident) = Inr False"
    "0 < m" "m \<le> length ids"
  shows "binder_pods keccak isRegistered (Inr ids) (Inr m) epochVal = None"
  using assms by (rule binder_pods_diverges)

lemma pods_diverge_witness:
  "binder_pods zero_hash (\<lambda>a. Inr (a \<noteq> ID_Address (sample_id 2)) :: unit + bool) (Inr (map sample_id [1, 2, 3])) (Inr 3) 13 = None"
  by (rule pods_diverge [where ident = "sample_id 2"]) (simp_all add: answers_def)

text \<open>C24. When every listed node is registered, \<^verbatim>\<open>Pod\<close> finds a pod of at least the minimum size that contains the node, for
  every listed address, and answers that there is none for any other address.\<close>

theorem pod_of_node:
  assumes "epoch_view C w ids m ep"
  shows "(addr \<in> ID_Address ` set ids \<longrightarrow> (\<exists>p. Binder_Pod C keccak w addr = Some (Inr p) \<and> addr \<in> set (PodDarknodes p) \<and> m \<le> Pod_Size p)) \<and>
    (addr \<notin> ID_Address ` set ids \<longrightarrow> Binder_Pod C keccak w addr = Some (Inl ErrPodNotFound))"
  using Binder_Pod_listed [OF assms] by blast

theorem pod_of_node_witness:
  "\<exists>p. Binder_Pod sample_chain zero_hash 0 (ID_Address (sample_id 2)) = Some (Inr p) \<and> ID_Address (sample_id 2) \<in> set (PodDarknodes p) \<and> 2 \<le> Pod_Size p"
proof -
  have "epoch_view sample_chain 0 [sample_id 1, sample_id 2] 2 (7, 3)"
    by (simp add: epoch_view_def sample_chain_def sample_id_def)
  then show ?thesis using pod_of_node [of sample_chain 0 "[sample_id 1, sample_id 2]" 2 "(7, 3)" "ID_Address (sample_id 2)" zero_hash] by simp
qed



text \<open>C39. \<^verbatim>\<open>transact\<close> of the transaction package is \<^verbatim>\<open>sendTx\<close> of the binder: with a context that does not end it makes the same calls with the same
  nonces, returns when that returns, with the same result, and knows the same next nonce, whatever the chain answers.\<close>

theorem transact_like_binder:
  assumes "endless env"
  shows "map_option seen (transact env buildTx t st) =
    map_option as_transact (sendTx (nonce_send buildTx t) (waited_pending env) (world st) (ints st (NonceRef t)))"
  using assms by (rule transact_sendTx)

theorem transact_like_binder_witness:
  "map_option as_transact (sendTx (nonce_send sample_build \<lparr>NonceRef = 0, TrValue = None, TrGasPrice = None, TrGasLimit = 0\<rparr>)
      (waited_pending sample_transact_env) 5 3) = Some (6, 6, Inr ())"
proof -
  let ?t = "\<lparr>NonceRef = 0, TrValue = None, TrGasPrice = None, TrGasLimit = 0\<rparr>"
  let ?st = "\<lparr>ints = (\<lambda>_. 3), fresh_int = 1, world = 5 :: nat\<rparr>"
  have "account int (nonce_send sample_build ?t)"
    by (simp add: account_def answered_def nonce_send_def sample_build_def)
  moreover have "nonce_send sample_build ?t (world ?st) (int (world ?st)) = (6, Inr ())" by (simp add: nonce_send_def sample_build_def)
  ultimately have "transact sample_transact_env sample_build ?t ?st = Some (?st\<lparr>world := 6, ints := (ints ?st)(NonceRef ?t := 6)\<rparr>, ?t, Inr ())"
    using transact_account [of int sample_build ?t sample_transact_env ?st 6 "Inr ()"] sample_endless by simp
  then show ?thesis using transact_like_binder [OF sample_endless, of sample_build ?t ?st] by simp
qed

section \<open>Streams, goroutines and channels\<close>

text \<open>C36. In every reachable state of the recycler, whatever the order of the calls that open and end the use of streams: it has
  not panicked, its counter of an address is the number of users, a stream is kept exactly while there are users, and the stream
  of a user was opened for its address and is not closed.\<close>

theorem recycler_shared:
  assumes "rec_reach s"
  shows "\<exists>s'. s = Some s' \<and> (\<forall>a. streamsRc (rec s') a = int (card (users s' a)) \<and> (open_streams (rec s') a = None \<longleftrightarrow> users s' a = {})) \<and>
    (\<forall>p a st. phases s' p = Some (Using a st) \<longrightarrow> (\<exists>i. st = Some i \<and> dialed_to s' i = Some a \<and> i \<notin> cancelled s'))"
proof -
  obtain s' where "s = Some s'" "rec_inv s'" using rec_reach_inv [OF assms] by blast
  then show ?thesis unfolding rec_inv_def by simp
qed

theorem recycler_shared_witness:
  "\<exists>s. rec_reach (Some s) \<and> phases s 0 = Some (Using ''a'' (Some 1)) \<and> phases s 1 = Some (Using ''a'' (Some 1)) \<and> streamsRc (rec s) ''a'' = 2 \<and>
    card (users s ''a'') = 2 \<and> dialed_to s 1 = Some ''a'' \<and> 1 \<notin> cancelled s"
proof -
  have "\<exists>s. rec_execs [Arrives 0 a, Acquires 0, Looks 0, DialReturns 0 True, Arrives 1 a, Acquires 1, Looks 1] rec_init = Some s \<and>
      phases s 0 = Some (Using a (Some 1)) \<and> phases s 1 = Some (Using a (Some 1)) \<and> streamsRc (rec s) a = 2" for a
    by (simp add: rec_exec_defs Let_def)
  then obtain s where "rec_reach (Some s)" "phases s 0 = Some (Using ''a'' (Some 1))" "phases s 1 = Some (Using ''a'' (Some 1))" "streamsRc (rec s) ''a'' = 2"
    using rec_execs_reach RecInit by blast
  then show ?thesis using recycler_shared [of "Some s"] by force
qed

text \<open>C37. \<^verbatim>\<open>Merge\<close> at any point: what it has sent is an interleaving of beginnings of the channels it accepted; when it has returned
  and was not stopped, it has sent every value of every channel, those of one channel in their order.\<close>

theorem merge_delivers:
  assumes "merge_step\<^sup>*\<^sup>* (Merge_start chs) m"
  shows "(\<exists>ss. interleaves ss (Out m) \<and> length ss \<le> length chs \<and> (\<forall>i<length ss. prefix (ss ! i) (chs ! i))) \<and>
    (Merge_returned m \<longrightarrow> \<not> Done m \<longrightarrow> mset (Out m) = mset (concat chs) \<and> (\<forall>i<length chs. subseq (chs ! i) (Out m)))"
proof -
  note I = merge_run_inv [OF assms merge_inv_start(1)]
  show ?thesis using merge_out [OF I] interleaves_mset interleaves_subseq by blast
qed

theorem merge_delivers_witness:
  "\<exists>m. merge_step\<^sup>*\<^sup>* (Merge_start [[1 :: nat, 2], [3]]) m \<and> Out m = [1, 3] \<and>
    (\<exists>ss. interleaves ss (Out m) \<and> length ss \<le> 2 \<and> (\<forall>i<length ss. prefix (ss ! i) ([[1, 2], [3]] ! i)))"
proof -
  let ?w = "\<lambda>h r. \<lparr>Held = h, Rest = r, Live = True\<rparr> :: nat merge_worker"
  let ?m = "\<lambda>c ws out. \<lparr>Coming = c, Accepting = True, Workers = ws, Done = False, Out = out\<rparr> :: nat merger"
  have 1: "merge_step (?m [[1, 2], [3]] [] []) (?m [[3]] [?w None [1, 2]] [])"
    using MergeAccept [of "?m [[1, 2], [3]] [] []" "[1, 2]" "[[3]]"] by simp
  have 2: "merge_step (?m [[3]] [?w None [1, 2]] []) (?m [[3]] [?w (Some 1) [2]] [])"
    using MergeReceive [of 0 "?m [[3]] [?w None [1, 2]] []" 1 "[2]"] by simp
  have 3: "merge_step (?m [[3]] [?w (Some 1) [2]] []) (?m [] [?w (Some 1) [2], ?w None [3]] [])"
    using MergeAccept [of "?m [[3]] [?w (Some 1) [2]] []" "[3]" "[]"] by simp
  have 4: "merge_step (?m [] [?w (Some 1) [2], ?w None [3]] []) (?m [] [?w None [2], ?w None [3]] [1])"
    using MergeSend [of 0 "?m [] [?w (Some 1) [2], ?w None [3]] []" 1 "[2]"] by simp
  have 5: "merge_step (?m [] [?w None [2], ?w None [3]] [1]) (?m [] [?w None [2], ?w (Some 3) []] [1])"
    using MergeReceive [of 1 "?m [] [?w None [2], ?w None [3]] [1]" 3 "[]"] by simp
  have 6: "merge_step (?m [] [?w None [2], ?w (Some 3) []] [1]) (?m [] [?w None [2], ?w None []] [1, 3])"
    using MergeSend [of 1 "?m [] [?w None [2], ?w (Some 3) []] [1]" 3 "[]"] by simp
  note c = converse_rtranclp_into_rtranclp [where r = merge_step]
  have "merge_step\<^sup>*\<^sup>* (Merge_start [[1, 2], [3]]) (?m [] [?w None [2], ?w None []] [1, 3])"
    unfolding Merge_start_def by (intro c [OF 1] c [OF 2] c [OF 3] c [OF 4] c [OF 5] r_into_rtranclp [where r = merge_step, OF 6])
  from merge_delivers [OF this] this show ?thesis by (intro exI [of _ "?m [] [?w None [2], ?w None []] [1, 3]"]) (simp add: numeral_eq_Suc)
qed

text \<open>C38. \<^verbatim>\<open>ForAll\<close> on any number of processors is the sequential loop: it starts at most a goroutine for each processor, and
  however these are interleaved, calls that commute leave the state that the loop leaves.\<close>

theorem for_all_is_loop:
  assumes "ForAll numCPU iter True = Some gs" "0 < numCPU" "interleaves gs tr" "commute f"
  shows "length gs \<le> numCPU \<and> fold f tr s = fold f (sequential iter) s"
proof -
  have "length gs \<le> numCPU"
    using assms(1) forall_indices_length [OF assms(2)] by (cases iter) (auto simp: ForAll_def)
  then show ?thesis using ForAll_sequential [OF assms(1,3,4)] by blast
qed

theorem for_all_is_loop_witness:
  "ForAll 2 (IterInt 3 :: nat iterator) True = Some [[ArgInt 0, ArgInt 1], [ArgInt 2]] \<and>
    interleaves [[ArgInt 0, ArgInt 1], [ArgInt 2 :: nat call_arg]] [ArgInt 0, ArgInt 2, ArgInt 1] \<and>
    fold add_arg [ArgInt 0, ArgInt 2, ArgInt 1] 7 = fold add_arg (sequential (IterInt 3)) 7"
proof -
  have f: "ForAll 2 (IterInt 3 :: nat iterator) True = Some [[ArgInt 0, ArgInt 1], [ArgInt 2]]"
    by (simp add: ForAll_def forall_indices_def forall_loop.simps forall_worker_def upt_rec)
  have i: "interleaves [[ArgInt 0, ArgInt 1], [ArgInt 2 :: nat call_arg]] [ArgInt 0, ArgInt 2, ArgInt 1]"
    by (rule interleaves_step [of 0], simp, simp, rule interleaves_step [of 1], simp, simp, rule interleaves_step [of 0], simp, simp,
      rule interleaves_end) simp
  have "commute add_arg" by (auto simp: commute_def add_arg_def split: call_arg.splits)
  from for_all_is_loop [OF f _ i this, of 7] f i show ?thesis by simp
qed

section \<open>Queries over the network\<close>



section \<open>Logging\<close>



end
